(* ===== verification/Vca_Prelude.thy ===== *)
theory Vca_Prelude
  imports Main "HOL-Library.Word" "HOL-Library.Code_Target_Nat"
begin

unbundle bit_operations_syntax

text \<open>
  Shared vocabulary of the development: the fixed-width integer types of the driver sources, the
  kernel error numbers the drivers return, the collections of simplification rules the component
  theories feed, and generic facts on lists and words that several components need.
\<close>

section \<open>Types shared by the components\<close>

type_synonym u8 = "8 word"
type_synonym u16 = "16 word"
type_synonym u32 = "32 word"
type_synonym u64 = "64 word"

text \<open>
  The error numbers that the modelled functions return as negative integers. A function that
  returns \<open>0\<close> or \<open>-E\<dots>\<close> is modelled with result type \<open>errno + 'a\<close>, the left side being the error.
\<close>

datatype errno =
    EPERM | EIO | EAGAIN | ENOMEM | EFAULT | ENOTBLK | EBUSY | EEXIST | ENODEV | EINVAL
  | ENOTTY | ENOSPC | EDOM | ENOSYS | ETIME | ERESTARTSYS | ENXIO | ENODATA | ENOKEY | EACCES
  | EINTR | ELOOP | EPROTO

type_synonym 'a res = "errno + 'a"

text \<open>The block driver sends error numbers to the other side; these are the ones it uses.\<close>

fun errno_num :: "errno \<Rightarrow> int" where
  "errno_num EPERM = 1"
| "errno_num EINTR = 4"
| "errno_num EIO = 5"
| "errno_num ENXIO = 6"
| "errno_num EAGAIN = 11"
| "errno_num ENOMEM = 12"
| "errno_num EACCES = 13"
| "errno_num EFAULT = 14"
| "errno_num ENOTBLK = 15"
| "errno_num EBUSY = 16"
| "errno_num EEXIST = 17"
| "errno_num ENODEV = 19"
| "errno_num EINVAL = 22"
| "errno_num ENOTTY = 25"
| "errno_num ENOSPC = 28"
| "errno_num EDOM = 33"
| "errno_num ENOSYS = 38"
| "errno_num ELOOP = 40"
| "errno_num ENODATA = 61"
| "errno_num ETIME = 62"
| "errno_num EPROTO = 71"
| "errno_num ENOKEY = 126"
| "errno_num ERESTARTSYS = 512"

named_theorems vca_defs \<open>definitions unfolded by the component proofs\<close>
named_theorems vca_simps \<open>derived rewrite rules shared by the component proofs\<close>

section \<open>Powers of two\<close>

text \<open>
  \<open>is_power_of_2\<close> is the kernel's test (\<open>n != 0 && (n & (n - 1)) == 0\<close>); the ring macros of the
  block driver rely on it.
\<close>

definition is_power_of_2 :: "'w::len word \<Rightarrow> bool" where
  "is_power_of_2 n \<longleftrightarrow> n \<noteq> 0 \<and> n AND (n - 1) = 0"

lemma and_pred_eq_0_iff_nat:
  assumes "0 < (n::nat)"
  shows "n AND (n - 1) = 0 \<longleftrightarrow> (\<exists>k. n = 2 ^ k)"
  using assms
proof (induction n rule: less_induct)
  case (less n)
  show ?case
  proof (cases "n = 1")
    case True
    then show ?thesis by (auto intro: exI [of _ 0])
  next
    case n1: False
    define m where "m = n div 2"
    have m: "0 < m" "m < n" using less.prems n1 by (auto simp: m_def)
    show ?thesis
    proof (cases "even n")
      case True
      then have n: "n = 2 * m" by (simp add: m_def)
      have "(n - 1) = 1 + 2 * (m - 1)" using n m by simp
      then have "n AND (n - 1) = 2 * (m AND (m - 1))"
        by (subst and_rec) (simp add: n)
      moreover have "(\<exists>k. n = 2 ^ k) \<longleftrightarrow> (\<exists>k. m = 2 ^ k)"
        using n n1 by (metis mult_left_cancel nat.exhaust power.simps zero_neq_numeral)
      ultimately show ?thesis using less.IH [OF m(2,1)] by simp
    next
      case False
      then have n: "n = 1 + 2 * m" by (simp add: m_def)
      then have "n AND (n - 1) = 2 * m" by (subst and_rec) simp
      moreover have "\<not> (\<exists>k. n = 2 ^ k)"
        using False n1 by (metis even_power dvd_refl nat.exhaust power_0 zero_less_Suc)
      ultimately show ?thesis using m by simp
    qed
  qed
qed

lemma unat_pred: "n \<noteq> 0 \<Longrightarrow> unat (n - 1) = unat n - 1"
  by (simp add: unat_minus_one)

lemma is_power_of_2_iff: "is_power_of_2 n \<longleftrightarrow> (\<exists>k. unat n = 2 ^ k)"
proof (cases "n = 0")
  case True
  then show ?thesis by (simp add: is_power_of_2_def)
next
  case False
  then have pos: "0 < unat n" by (simp add: word_neq_0_conv unat_gt_0)
  have "n AND (n - 1) = 0 \<longleftrightarrow> unat n AND (unat n - 1) = 0"
    using False unat_pred [of n] by (metis unat_eq_zero unsigned_and_eq)
  then show ?thesis
    using False and_pred_eq_0_iff_nat [OF pos] by (simp add: is_power_of_2_def)
qed

lemma and_mask_nat: "(x::nat) AND (2 ^ k - 1) = x mod 2 ^ k"
  by (metis mask_nat_def take_bit_eq_mask take_bit_nat_def)

lemma and_mask_nat_Suc [vca_simps]: "(x::nat) AND (2 ^ k - Suc 0) = x mod 2 ^ k"
  using and_mask_nat by simp

lemma u16_less: "unat (c::u16) < 65536"
  using unsigned_less [of c] by simp

lemma u32_less: "unat (c::u32) < 4294967296"
  using unsigned_less [of c] by simp

lemma unat_inj: "unat a = unat b \<Longrightarrow> a = b"
  by (simp add: word_unat_eq_iff)

section \<open>Lists\<close>

lemma nth_list_update_cases: "xs[i := x] ! j = (if i = j \<and> j < length xs then x else xs ! j)"
  by (cases "i = j") (auto simp: list_update_beyond)

section \<open>Bytes in memory and in arrays\<close>

text \<open>A memory with the bytes \<open>bs\<close> stored at \<open>p\<close>.\<close>

definition patch :: "u64 \<Rightarrow> u8 list \<Rightarrow> (u64 \<Rightarrow> u8) \<Rightarrow> (u64 \<Rightarrow> u8)" where
  "patch p bs m = (\<lambda>x. if unat (x - p) < length bs then bs ! unat (x - p) else m x)"

lemma unat_minus_Suc:
  fixes x p :: u64
  assumes "x \<noteq> p"
  shows "unat (x - p) = Suc (unat (x - (p + 1)))"
  using assms unat_minus_one [of "x - p"] by (simp add: diff_diff_eq unat_gt_0)

lemma patch_Cons:
  assumes "length bs < 2 ^ 64"
  shows "patch (p + 1) bs (m(p := b)) = patch p (b # bs) m"
proof
  fix x
  show "patch (p + 1) bs (m(p := b)) x = patch p (b # bs) m x"
  proof (cases "x = p")
    case True
    moreover have "unat (p - (p + 1)) = 2 ^ 64 - 1" by (simp add: unsigned_minus_1_eq_mask mask_eq_exp_minus_1)
    ultimately show ?thesis using assms by (simp add: patch_def)
  next
    case False
    then show ?thesis using unat_minus_Suc [OF False] by (simp add: patch_def)
  qed
qed

lemma patch_append:
  assumes "length (xs @ ys) < 2 ^ 64"
  shows "patch (p + word_of_nat (length xs)) ys (patch p xs m) = patch p (xs @ ys) m"
  using assms
proof (induction xs arbitrary: p m)
  case (Cons x xs)
  have "patch (p + word_of_nat (length (x # xs))) ys (patch p (x # xs) m) =
      patch (p + 1 + word_of_nat (length xs)) ys (patch (p + 1) xs (m(p := x)))"
    using Cons.prems patch_Cons [of xs p m x] by (simp add: ac_simps)
  also have "\<dots> = patch (p + 1) (xs @ ys) (m(p := x))" using Cons.prems by (intro Cons.IH) simp
  also have "\<dots> = patch p (x # xs @ ys) m" using Cons.prems by (intro patch_Cons) simp
  finally show ?case by simp
qed (simp add: patch_def)

text \<open>The bytes of a memory from an address on.\<close>

definition fetch :: "u64 \<Rightarrow> nat \<Rightarrow> (u64 \<Rightarrow> u8) \<Rightarrow> u8 list" where
  "fetch p n m = map (\<lambda>i. m (p + word_of_nat i)) [0..<n]"

lemma length_fetch [simp]: "length (fetch p n m) = n"
  by (simp add: fetch_def)

lemma fetch_add: "fetch p (a + b) m = fetch p a m @ fetch (p + word_of_nat a) b m"
  by (rule nth_equalityI) (auto simp: fetch_def nth_append add.assoc simp flip: of_nat_add)

text \<open>A part of an array, and an array with a part replaced.\<close>

definition slice :: "nat \<Rightarrow> nat \<Rightarrow> 'a list \<Rightarrow> 'a list" where
  "slice off n xs = take n (drop off xs)"

definition splice :: "nat \<Rightarrow> 'a list \<Rightarrow> 'a list \<Rightarrow> 'a list" where
  "splice off new xs = take off xs @ new @ drop (off + length new) xs"

lemma length_slice [simp]: "off + n \<le> length xs \<Longrightarrow> length (slice off n xs) = n"
  by (simp add: slice_def)

lemma length_splice [simp]: "off + length new \<le> length xs \<Longrightarrow> length (splice off new xs) = length xs"
  by (simp add: splice_def)

lemma nth_splice:
  "off + length new \<le> length xs \<Longrightarrow> i < length xs \<Longrightarrow>
   splice off new xs ! i = (if off \<le> i \<and> i < off + length new then new ! (i - off) else xs ! i)"
  by (auto simp: splice_def nth_append min_def)

lemma slice_splice [simp]: "off + length new \<le> length xs \<Longrightarrow> slice off (length new) (splice off new xs) = new"
  by (simp add: slice_def splice_def)

lemma slice_splice_other:
  assumes "off + length new \<le> length xs" "o' + n \<le> length xs" "o' + n \<le> off \<or> off + length new \<le> o'"
  shows "slice o' n (splice off new xs) = slice o' n xs"
  by (rule nth_equalityI) (use assms in \<open>auto simp: slice_def nth_splice\<close>)

lemma splice_append:
  assumes "off + length (xs @ ys) \<le> length zs"
  shows "splice (off + length xs) ys (splice off xs zs) = splice off (xs @ ys) zs"
  by (rule nth_equalityI) (use assms in \<open>auto simp: nth_splice nth_append\<close>)

lemma splice_Nil [simp]: "splice off [] xs = xs"
  by (simp add: splice_def)

lemma slice_append: "slice off a xs @ slice (off + a) b xs = slice off (a + b) xs"
  by (simp add: slice_def take_add drop_drop add.commute)

end
