(* ===== verification/Vcablk_Ring.thy ===== *)
theory Vcablk_Ring
  imports Vca_Prelude
begin

unbundle bit_operations_syntax

text \<open>
  The ring counters of the block driver (\<open>vcablk_common/vcablk.h\<close>) and the shared ring structure
  (\<open>vcablk_common/vcablk_common.h\<close>). A counter runs modulo twice the ring size, so that an empty ring
  (equal counters) and a full ring (counters one size apart) differ. The locale \<open>ring_counters\<close>
  states what a client of such counters relies on and derives the queue behaviour of the ring once;
  it is interpreted here on the macros, and by the kvec rings on theirs.
\<close>

section \<open>The counter macros\<close>

text \<open>\<open>__u16\<close> operands are promoted to \<open>int\<close> before the bit operations.\<close>

definition promote :: "u16 \<Rightarrow> u32" where
  "promote c = ucast c"

definition VCA_RB_COUNTER_EQ :: "u16 \<Rightarrow> u16 \<Rightarrow> u16 \<Rightarrow> bool" where
  "VCA_RB_COUNTER_EQ cnt1 cnt2 n \<longleftrightarrow>
     promote cnt1 AND (push_bit 1 (promote n) - 1) = promote cnt2 AND (push_bit 1 (promote n) - 1)"

definition VCA_RB_COUNTER_ADD :: "u16 \<Rightarrow> u16 \<Rightarrow> u16 \<Rightarrow> u16" where
  "VCA_RB_COUNTER_ADD cnt val n =
     ucast ((promote cnt + promote val) AND (push_bit 1 (promote n) - 1))"

definition VCA_RB_COUNTER_TO_IDX :: "u16 \<Rightarrow> u16 \<Rightarrow> nat" where
  "VCA_RB_COUNTER_TO_IDX cnt n = unat (promote cnt AND (promote n - 1))"

definition VCA_RB_BUFF_USED :: "u16 \<Rightarrow> u16 \<Rightarrow> u16 \<Rightarrow> u32" where
  "VCA_RB_BUFF_USED head_cnt tail_cnt n =
     (if head_cnt \<le> tail_cnt then promote tail_cnt - promote head_cnt
      else promote tail_cnt + push_bit 1 (promote n) - promote head_cnt)"

definition VCA_RB_BUFF_EMPTY :: "u16 \<Rightarrow> u16 \<Rightarrow> bool" where
  "VCA_RB_BUFF_EMPTY head_cnt tail_cnt \<longleftrightarrow> head_cnt = tail_cnt"

definition VCA_RB_BUFF_FULL :: "u16 \<Rightarrow> u16 \<Rightarrow> u16 \<Rightarrow> bool" where
  "VCA_RB_BUFF_FULL head_cnt tail_cnt n \<longleftrightarrow>
     \<not> VCA_RB_BUFF_EMPTY head_cnt tail_cnt \<and>
     VCA_RB_COUNTER_TO_IDX head_cnt n = VCA_RB_COUNTER_TO_IDX tail_cnt n"

section \<open>The ring structure\<close>

record 'e vcablk_ring =
  num_elems :: u16
  elem_size :: u32
  last_add :: u16
  last_used :: u16
  size_alloc :: u32
  dma_addr :: u64
  elems :: "'e list"

section \<open>What a client of ring counters relies on\<close>

locale ring_counters =
  fixes ok :: "'n \<Rightarrow> bool"
    and sz :: "'n \<Rightarrow> nat"
    and val :: "'c \<Rightarrow> nat"
    and step :: "'n \<Rightarrow> 'c \<Rightarrow> 'c"
    and idx :: "'n \<Rightarrow> 'c \<Rightarrow> nat"
  assumes sz_pos: "ok n \<Longrightarrow> 0 < sz n"
    and val_inj: "val a = val b \<Longrightarrow> a = b"
    and val_step: "ok n \<Longrightarrow> val c < 2 * sz n \<Longrightarrow> val (step n c) = (val c + 1) mod (2 * sz n)"
    and idx_val: "ok n \<Longrightarrow> val c < 2 * sz n \<Longrightarrow> idx n c = val c mod sz n"
begin

text \<open>The number of elements between two counters, and the elements themselves.\<close>

definition used :: "'n \<Rightarrow> 'c \<Rightarrow> 'c \<Rightarrow> nat" where
  "used n h t = (val t + 2 * sz n - val h) mod (2 * sz n)"

definition wf :: "'n \<Rightarrow> 'c \<Rightarrow> 'c \<Rightarrow> bool" where
  "wf n h t \<longleftrightarrow> val h < 2 * sz n \<and> val t < 2 * sz n \<and> used n h t \<le> sz n"

definition window :: "'n \<Rightarrow> 'e list \<Rightarrow> 'c \<Rightarrow> 'c \<Rightarrow> 'e list" where
  "window n es h t = map (\<lambda>k. es ! ((val h + k) mod sz n)) [0..<used n h t]"

lemma used_cases:
  assumes "val h < 2 * sz n" "val t < 2 * sz n"
  shows "used n h t = (if val h \<le> val t then val t - val h else val t + 2 * sz n - val h)"
proof (cases "val h \<le> val t")
  case True
  then have eq: "val t + 2 * sz n - val h = (val t - val h) + 2 * sz n" by simp
  have "((val t - val h) + 2 * sz n) mod (2 * sz n) = val t - val h" using assms by simp
  with True eq show ?thesis by (simp add: used_def)
next
  case False
  with assms show ?thesis by (simp add: used_def)
qed

lemma length_window [simp]: "length (window n es h t) = used n h t"
  by (simp add: window_def)

lemma used_same [simp]: "used n h h = 0"
  by (simp add: used_def)

lemma used_0_iff:
  "val h < 2 * sz n \<Longrightarrow> val t < 2 * sz n \<Longrightarrow> used n h t = 0 \<longleftrightarrow> h = t"
  by (auto simp: used_cases intro: val_inj split: if_splits)

lemma full_iff:
  assumes "ok n" "wf n h t"
  shows "h \<noteq> t \<and> idx n h = idx n t \<longleftrightarrow> used n h t = sz n"
proof -
  have b: "val h < 2 * sz n" "val t < 2 * sz n" and u: "used n h t \<le> sz n"
    using assms(2) by (auto simp: wf_def)
  have s: "0 < sz n" using assms(1) by (rule sz_pos)
  have m: "\<And>x. x < 2 * sz n \<Longrightarrow> x mod sz n = (if x < sz n then x else x - sz n)"
    using s by (auto simp: mod_if)
  have "h \<noteq> t \<longleftrightarrow> val h \<noteq> val t" using val_inj by auto
  then show ?thesis
    using b u s by (auto simp: idx_val [OF assms(1)] m used_cases split: if_splits)
qed

lemma step_bound [intro]: "ok n \<Longrightarrow> val c < 2 * sz n \<Longrightarrow> val (step n c) < 2 * sz n"
  using sz_pos by (simp add: val_step)

lemma used_step_tail:
  assumes "ok n" "wf n h t" "used n h t < sz n"
  shows "used n h (step n t) = Suc (used n h t)"
proof -
  have b: "val h < 2 * sz n" "val t < 2 * sz n" using assms(2) by (auto simp: wf_def)
  have "val (step n t) = (if val t + 1 = 2 * sz n then 0 else val t + 1)"
    using b assms(1) by (simp add: val_step)
  then show ?thesis
    using b assms(3) step_bound [OF assms(1) b(2)] by (auto simp: used_cases split: if_splits)
qed

lemma used_step_head:
  assumes "ok n" "wf n h t" "h \<noteq> t"
  shows "used n h t = Suc (used n (step n h) t)"
proof -
  have b: "val h < 2 * sz n" "val t < 2 * sz n" using assms(2) by (auto simp: wf_def)
  have "val (step n h) = (if val h + 1 = 2 * sz n then 0 else val h + 1)"
    using b assms(1) by (simp add: val_step)
  moreover have "val h \<noteq> val t" using assms(3) val_inj by auto
  ultimately show ?thesis
    using b step_bound [OF assms(1) b(1)] by (auto simp: used_cases split: if_splits)
qed

lemma wf_step_tail: "ok n \<Longrightarrow> wf n h t \<Longrightarrow> used n h t < sz n \<Longrightarrow> wf n h (step n t)"
  using used_step_tail [of n h t] step_bound [of n t] by (auto simp: wf_def)

lemma wf_step_head: "ok n \<Longrightarrow> wf n h t \<Longrightarrow> h \<noteq> t \<Longrightarrow> wf n (step n h) t"
  using used_step_head [of n h t] step_bound [of n h] by (auto simp: wf_def)

lemma wf_same: "val h < 2 * sz n \<Longrightarrow> wf n h h"
  by (simp add: wf_def)

lemma idx_less: "ok n \<Longrightarrow> val c < 2 * sz n \<Longrightarrow> idx n c < sz n"
  using sz_pos by (simp add: idx_val)

lemma idx_tail:
  assumes "ok n" "wf n h t"
  shows "idx n t = (val h + used n h t) mod sz n"
proof -
  have b: "val h < 2 * sz n" "val t < 2 * sz n" using assms(2) by (auto simp: wf_def)
  have "(val t + 2 * sz n) mod sz n = val t mod sz n" by simp
  then show ?thesis
    using b by (auto simp: idx_val [OF assms(1)] used_cases)
qed

text \<open>The slots a used window covers are pairwise different.\<close>

lemma slots_neq:
  assumes "i < j" "j < sz n"
  shows "(a + i) mod sz n \<noteq> (a + j) mod sz n"
proof
  assume "(a + i) mod sz n = (a + j) mod sz n"
  then have "sz n dvd (a + j) - (a + i)"
    using assms(1) mod_eq_dvd_iff_nat [of "a + i" "a + j" "sz n"] by simp
  then have "sz n \<le> j - i" using assms(1) by (simp add: dvd_imp_le)
  with assms show False by simp
qed

text \<open>Writing the slot at the tail and stepping the tail appends to the window.\<close>

lemma window_push:
  assumes "ok n" "wf n h t" "used n h t < sz n" "length es = sz n"
  shows "window n (es[idx n t := x]) h (step n t) = window n es h t @ [x]"
proof -
  let ?u = "used n h t"
  have it: "idx n t = (val h + ?u) mod sz n" by (rule idx_tail [OF assms(1,2)])
  have keep: "es[idx n t := x] ! ((val h + k) mod sz n) = es ! ((val h + k) mod sz n)" if "k < ?u" for k
    using slots_neq [of k ?u n "val h"] that assms(3) by (simp add: it)
  have "es[idx n t := x] ! ((val h + ?u) mod sz n) = x"
    using assms(4) sz_pos [OF assms(1)] by (simp add: it)
  then show ?thesis
    using keep by (simp add: window_def used_step_tail [OF assms(1-3)])
qed

text \<open>Stepping the head removes the element in the head slot from the window.\<close>

lemma window_pop:
  assumes "ok n" "wf n h t" "h \<noteq> t"
  shows "window n es h t = es ! idx n h # window n es (step n h) t"
proof -
  have b: "val h < 2 * sz n" using assms(2) by (simp add: wf_def)
  have "(val (step n h) + k) mod sz n = (val h + Suc k) mod sz n" for k
  proof -
    have "((val h + 1) mod (2 * sz n) + k) mod sz n = (val h + 1 + k) mod sz n"
      by (metis dvd_triv_right mod_add_left_eq mod_mod_cancel)
    then show ?thesis using b by (simp add: val_step [OF assms(1)])
  qed
  then show ?thesis
    using idx_val [OF assms(1) b]
    by (simp add: window_def used_step_head [OF assms] upt_rec [of 0] map_Suc_upt [symmetric]
        del: upt_Suc map_Suc_upt)
qed

end

section \<open>The macros provide ring counters\<close>

lemma unat_promote [simp]: "unat (promote c) = unat c"
  using u16_less [of c] by (simp add: promote_def unsigned_ucast_eq take_bit_nat_def)

lemma push_bit_promote: "push_bit 1 (promote n) = promote n * 2"
  by (simp add: push_bit_eq_mult)

lemma unat_promote_twice [simp]: "unat (promote n * 2) = 2 * unat n"
  using u16_less [of n] by (simp add: unat_word_ariths)

lemma unat_promote_add [simp]: "unat (promote c + promote v) = unat c + unat v"
  using u16_less [of c] u16_less [of v] by (simp add: unat_word_ariths)

lemma power_of_2_bound:
  assumes "is_power_of_2 (n::u16)"
  obtains k where "unat n = 2 ^ k" "k < 16"
proof -
  obtain k where k: "unat n = 2 ^ k" using assms is_power_of_2_iff by blast
  then have "(2::nat) ^ k < 2 ^ 16" using u16_less [of n] by simp
  then have "k < 16" by (rule power_less_imp_less_exp [rotated]) simp
  with k that show ?thesis by blast
qed

lemma unat_rb_mask:
  assumes "n \<noteq> (0::u16)"
  shows "unat (push_bit 1 (promote n) - 1) = 2 * unat n - 1"
proof -
  have "promote n * 2 \<noteq> 0"
    using assms unat_promote_twice [of n] by (metis mult_eq_0_iff unat_0 unat_eq_zero zero_neq_numeral)
  then show ?thesis by (simp add: push_bit_promote unat_pred)
qed

lemma unat_COUNTER_ADD:
  assumes "is_power_of_2 n"
  shows "unat (VCA_RB_COUNTER_ADD c v n) = (unat c + unat v) mod (2 * unat n)"
proof -
  obtain k where k: "unat n = 2 ^ k" "k < 16" using assms by (rule power_of_2_bound)
  have n0: "n \<noteq> 0" using assms by (simp add: is_power_of_2_def)
  have "unat ((promote c + promote v) AND (push_bit 1 (promote n) - 1)) = (unat c + unat v) mod 2 ^ Suc k"
    using and_mask_nat [of "unat c + unat v" "Suc k"]
    unat_rb_mask [OF n0] by (simp add: unsigned_and_eq k)
  moreover have "(unat c + unat v) mod 2 ^ Suc k < 2 ^ 16"
  proof -
    have "(unat c + unat v) mod 2 ^ Suc k < 2 ^ Suc k" by simp
    also have "(2::nat) ^ Suc k \<le> 2 ^ 16" using k(2) by (intro power_increasing) auto
    finally show ?thesis .
  qed
  ultimately show ?thesis
    by (simp add: VCA_RB_COUNTER_ADD_def k unsigned_ucast_eq take_bit_nat_def)
qed

lemma COUNTER_TO_IDX_mod:
  assumes "is_power_of_2 n"
  shows "VCA_RB_COUNTER_TO_IDX c n = unat c mod unat n"
proof -
  obtain k where k: "unat n = 2 ^ k" using assms is_power_of_2_iff by blast
  have "promote n \<noteq> 0" using assms by (metis is_power_of_2_def unat_promote unat_eq_zero)
  then have "unat (promote n - 1) = 2 ^ k - 1" by (simp add: unat_pred k)
  then show ?thesis
    by (simp add: VCA_RB_COUNTER_TO_IDX_def unsigned_and_eq vca_simps k)
qed

interpretation rb: ring_counters is_power_of_2 unat unat
  "\<lambda>n c. VCA_RB_COUNTER_ADD c 1 n" "\<lambda>n c. VCA_RB_COUNTER_TO_IDX c n"
proof unfold_locales
  fix n c a b :: u16
  show "is_power_of_2 n \<Longrightarrow> 0 < unat n" by (simp add: is_power_of_2_def unat_gt_0)
  show "unat a = unat b \<Longrightarrow> a = b" by (rule unat_inj)
  show "is_power_of_2 n \<Longrightarrow> unat (VCA_RB_COUNTER_ADD c 1 n) = (unat c + 1) mod (2 * unat n)"
    by (simp add: unat_COUNTER_ADD)
  show "is_power_of_2 n \<Longrightarrow> VCA_RB_COUNTER_TO_IDX c n = unat c mod unat n"
    by (rule COUNTER_TO_IDX_mod)
qed

section \<open>Properties of the macros\<close>

lemma BUFF_FULL_iff:
  "is_power_of_2 n \<Longrightarrow> rb.wf n h t \<Longrightarrow> VCA_RB_BUFF_FULL h t n \<longleftrightarrow> rb.used n h t = unat n"
  using rb.full_iff [of n h t] by (simp add: VCA_RB_BUFF_FULL_def VCA_RB_BUFF_EMPTY_def)

lemma BUFF_FULL_commute: "VCA_RB_BUFF_FULL h t n = VCA_RB_BUFF_FULL t h n"
  by (auto simp: VCA_RB_BUFF_FULL_def VCA_RB_BUFF_EMPTY_def)

lemma unat_BUFF_USED:
  assumes "is_power_of_2 n" "unat h < 2 * unat n" "unat t < 2 * unat n"
  shows "unat (VCA_RB_BUFF_USED h t n) = rb.used n h t"
proof -
  have bn: "unat n \<le> 32768"
  proof -
    obtain k where "unat n = 2 ^ k" "k < 16" using assms(1) by (rule power_of_2_bound)
    moreover have "(2::nat) ^ k \<le> 2 ^ 15" using \<open>k < 16\<close> by (intro power_increasing) auto
    ultimately show ?thesis by simp
  qed
  have s: "unat (promote t + promote n * 2) = unat t + 2 * unat n"
    using bn assms(3) unat_word_ariths(1) [of "promote t" "promote n * 2"] by simp
  show ?thesis
  proof (cases "h \<le> t")
    case True
    then have "promote h \<le> promote t" by (simp add: word_le_nat_alt)
    with True show ?thesis
      by (simp add: VCA_RB_BUFF_USED_def rb.used_cases [OF assms(2,3)] unat_sub word_le_nat_alt)
  next
    case False
    have "promote h \<le> promote t + promote n * 2"
      using assms(2) by (simp add: word_le_nat_alt s)
    with False show ?thesis
      by (simp add: VCA_RB_BUFF_USED_def rb.used_cases [OF assms(2,3)] unat_sub s word_le_nat_alt push_bit_promote)
  qed
qed

lemma ring_queue_facts:
  assumes "is_power_of_2 n" "rb.wf n h t" "length es = unat n"
  shows "\<not> VCA_RB_BUFF_FULL h t n \<Longrightarrow>
      rb.window n (es[VCA_RB_COUNTER_TO_IDX t n := x]) h (VCA_RB_COUNTER_ADD t 1 n) =
        rb.window n es h t @ [x] \<and> rb.wf n h (VCA_RB_COUNTER_ADD t 1 n)"
    and "\<not> VCA_RB_BUFF_EMPTY h t \<Longrightarrow>
      rb.window n es h t = es ! VCA_RB_COUNTER_TO_IDX h n # rb.window n es (VCA_RB_COUNTER_ADD h 1 n) t \<and>
      rb.wf n (VCA_RB_COUNTER_ADD h 1 n) t"
    and "VCA_RB_BUFF_FULL h t n \<longleftrightarrow> length (rb.window n es h t) = unat n"
    and "unat (VCA_RB_BUFF_USED h t n) = length (rb.window n es h t)"
proof -
  have full: "VCA_RB_BUFF_FULL h t n \<longleftrightarrow> rb.used n h t = unat n" by (rule BUFF_FULL_iff [OF assms(1,2)])
  then show "VCA_RB_BUFF_FULL h t n \<longleftrightarrow> length (rb.window n es h t) = unat n" by simp
  show "unat (VCA_RB_BUFF_USED h t n) = length (rb.window n es h t)"
    using unat_BUFF_USED [OF assms(1)] assms(2) by (simp add: rb.wf_def)
  show "rb.window n (es[VCA_RB_COUNTER_TO_IDX t n := x]) h (VCA_RB_COUNTER_ADD t 1 n) =
      rb.window n es h t @ [x] \<and> rb.wf n h (VCA_RB_COUNTER_ADD t 1 n)" if "\<not> VCA_RB_BUFF_FULL h t n"
  proof -
    have "rb.used n h t < unat n" using that full assms(2) by (simp add: rb.wf_def)
    then show ?thesis using rb.window_push [OF assms(1,2) _ assms(3)] rb.wf_step_tail [OF assms(1,2)] by simp
  qed
  show "rb.window n es h t = es ! VCA_RB_COUNTER_TO_IDX h n # rb.window n es (VCA_RB_COUNTER_ADD h 1 n) t \<and>
      rb.wf n (VCA_RB_COUNTER_ADD h 1 n) t" if "\<not> VCA_RB_BUFF_EMPTY h t"
    using that rb.window_pop [OF assms(1,2)] rb.wf_step_head [OF assms(1,2)]
    by (simp add: VCA_RB_BUFF_EMPTY_def)
qed

text \<open>
  C27: With a power-of-two ring size the counter macros implement a bounded queue over the element
  array. Storing at the tail index of a ring that is not full and stepping the tail appends to the
  queue; stepping the head of a ring that is not empty removes the element at the head index.
\<close>
theorem ring_queue:
  assumes "is_power_of_2 n" "rb.wf n h t" "length es = unat n"
  shows "(\<not> VCA_RB_BUFF_FULL h t n \<longrightarrow>
      rb.window n (es[VCA_RB_COUNTER_TO_IDX t n := x]) h (VCA_RB_COUNTER_ADD t 1 n) =
        rb.window n es h t @ [x] \<and> rb.wf n h (VCA_RB_COUNTER_ADD t 1 n)) \<and>
    (\<not> VCA_RB_BUFF_EMPTY h t \<longrightarrow>
      rb.window n es h t = es ! VCA_RB_COUNTER_TO_IDX h n # rb.window n es (VCA_RB_COUNTER_ADD h 1 n) t \<and>
      rb.wf n (VCA_RB_COUNTER_ADD h 1 n) t) \<and>
    (VCA_RB_BUFF_FULL h t n \<longleftrightarrow> length (rb.window n es h t) = unat n) \<and>
    unat (VCA_RB_BUFF_USED h t n) = length (rb.window n es h t)"
  using ring_queue_facts [OF assms] by blast

theorem ring_queue_witness:
  "VCA_RB_BUFF_FULL 6 2 4 \<and> unat (VCA_RB_BUFF_USED 6 2 (4::u16)) = 4 \<and>
   rb.window 4 ([10, 11, 12, 13::nat][VCA_RB_COUNTER_TO_IDX 1 4 := 5]) 6 (VCA_RB_COUNTER_ADD 1 1 4) =
     rb.window 4 [10, 11, 12, 13] 6 1 @ [5]"
proof -
  have p: "is_power_of_2 (4::u16)" by (simp add: is_power_of_2_def)
  have w: "rb.wf 4 6 2" "rb.wf 4 6 1" by (simp_all add: rb.wf_def rb.used_def)
  have l: "length [10, 11, 12, 13::nat] = unat (4::u16)" by simp
  have u: "length (rb.window 4 [10, 11, 12, 13::nat] 6 2) = 4" by (simp add: rb.used_def)
  have "\<not> VCA_RB_BUFF_FULL 6 1 4" by (simp add: BUFF_FULL_iff [OF p w(2)] rb.used_def)
  then show ?thesis
    using ring_queue [OF p w(2) l, of 5] ring_queue [OF p w(1) l] u by simp
qed

end
