(* ===== verification/Vcablk_Common.thy ===== *)
theory Vcablk_Common
  imports Vcablk_Ring
begin

text \<open>
  What the two sides of the block device share (\<open>vcablk_common/vcablk_common.h\<close>): the elements of the
  request ring and of the completion ring.
\<close>

definition REQUEST_READ :: u8 where "REQUEST_READ = 1"
definition REQUEST_WRITE :: u8 where "REQUEST_WRITE = 2"
definition REQUEST_SYNC :: u8 where "REQUEST_SYNC = 3"

lemmas request_types = REQUEST_READ_def REQUEST_WRITE_def REQUEST_SYNC_def

record vcablk_request =
  rq_phys_buff :: u64
  rq_sector :: u64
  rq_sectors_num :: u64
  rq_cookie :: u16
  rq_type :: u8

text \<open>The result of a request has eight bits, which the two sides read with and without sign.\<close>

record vcablk_completion =
  ack_cookie :: u16
  ack_ret :: u8

text \<open>The element at a counter, \<open>VCABLK_RING_GET_OBJ\<close>, is read and written through its index.\<close>

definition VCABLK_RING_GET_OBJ :: "u16 \<Rightarrow> u16 \<Rightarrow> 'e list \<Rightarrow> 'e" where
  "VCABLK_RING_GET_OBJ cnt n es = es ! VCA_RB_COUNTER_TO_IDX cnt n"

definition ring_upd :: "u16 \<Rightarrow> ('e \<Rightarrow> 'e) \<Rightarrow> 'e vcablk_ring \<Rightarrow> 'e vcablk_ring" where
  "ring_upd cnt f r =
     (let i = VCA_RB_COUNTER_TO_IDX cnt (num_elems r) in r\<lparr>elems := (elems r)[i := f (elems r ! i)]\<rparr>)"

text \<open>A ring in place of a null pointer.\<close>

definition empty_ring :: "'e vcablk_ring" where
  "empty_ring = \<lparr>num_elems = 0, elem_size = 0, last_add = 0, last_used = 0, size_alloc = 0, dma_addr = 0, elems = []\<rparr>"

section \<open>A ring as a queue\<close>

text \<open>A ring with consistent counters, and the elements between the counters.\<close>

definition ring_ok :: "'e vcablk_ring \<Rightarrow> bool" where
  "ring_ok r \<longleftrightarrow> is_power_of_2 (num_elems r) \<and> length (elems r) = unat (num_elems r) \<and>
     rb.wf (num_elems r) (last_used r) (last_add r)"

definition ring_queue_of :: "'e vcablk_ring \<Rightarrow> 'e list" where
  "ring_queue_of r = rb.window (num_elems r) (elems r) (last_used r) (last_add r)"

lemma ring_okD:
  assumes "ring_ok r"
  shows "is_power_of_2 (num_elems r)" "rb.wf (num_elems r) (last_used r) (last_add r)"
    "length (elems r) = unat (num_elems r)"
  using assms by (auto simp: ring_ok_def)

lemma ring_full_iff:
  "ring_ok r \<Longrightarrow> VCA_RB_BUFF_FULL (last_add r) (last_used r) (num_elems r) \<longleftrightarrow> length (ring_queue_of r) = unat (num_elems r)"
  using ring_queue_facts(3) [OF ring_okD, of r] BUFF_FULL_commute by (metis ring_queue_of_def)

lemma ring_queue_le: "ring_ok r \<Longrightarrow> length (ring_queue_of r) \<le> unat (num_elems r)"
  by (simp add: ring_ok_def ring_queue_of_def rb.wf_def)

lemma ring_queue_empty: "ring_ok r \<Longrightarrow> ring_queue_of r = [] \<longleftrightarrow> last_used r = last_add r"
  using rb.used_0_iff [of "last_used r" "num_elems r" "last_add r"]
  by (auto simp: ring_ok_def ring_queue_of_def rb.wf_def simp flip: length_0_conv)

text \<open>The producer stores an element and steps its counter.\<close>

lemma ring_push:
  assumes "ring_ok r" "length (ring_queue_of r) < unat (num_elems r)"
  shows "ring_ok (r\<lparr>elems := (elems r)[VCA_RB_COUNTER_TO_IDX (last_add r) (num_elems r) := x],
             last_add := VCA_RB_COUNTER_ADD (last_add r) 1 (num_elems r)\<rparr>)"
    and "ring_queue_of (r\<lparr>elems := (elems r)[VCA_RB_COUNTER_TO_IDX (last_add r) (num_elems r) := x],
             last_add := VCA_RB_COUNTER_ADD (last_add r) 1 (num_elems r)\<rparr>) = ring_queue_of r @ [x]"
proof -
  have "\<not> VCA_RB_BUFF_FULL (last_used r) (last_add r) (num_elems r)"
    using ring_full_iff [OF assms(1)] assms(2) BUFF_FULL_commute by auto
  note f = ring_queue_facts(1) [OF ring_okD [OF assms(1)] this, of x]
  with ring_okD [OF assms(1)]
  show "ring_ok (r\<lparr>elems := (elems r)[VCA_RB_COUNTER_TO_IDX (last_add r) (num_elems r) := x],
             last_add := VCA_RB_COUNTER_ADD (last_add r) 1 (num_elems r)\<rparr>)"
    and "ring_queue_of (r\<lparr>elems := (elems r)[VCA_RB_COUNTER_TO_IDX (last_add r) (num_elems r) := x],
             last_add := VCA_RB_COUNTER_ADD (last_add r) 1 (num_elems r)\<rparr>) = ring_queue_of r @ [x]"
    by (simp_all add: ring_ok_def ring_queue_of_def)
qed

text \<open>The consumer reads the first element and steps its counter; what it stores in the element does not matter.\<close>

lemma window_head_slot:
  assumes "is_power_of_2 n" "rb.wf n h t" "h \<noteq> t"
  shows "rb.window n (es[VCA_RB_COUNTER_TO_IDX h n := y]) (VCA_RB_COUNTER_ADD h 1 n) t =
    rb.window n es (VCA_RB_COUNTER_ADD h 1 n) t"
proof -
  let ?h = "VCA_RB_COUNTER_ADD h 1 n"
  have b: "unat h < 2 * unat n" using assms(2) by (simp add: rb.wf_def)
  have u: "Suc (rb.used n ?h t) \<le> unat n" using rb.used_step_head [OF assms] assms(2) by (simp add: rb.wf_def)
  have "es[VCA_RB_COUNTER_TO_IDX h n := y] ! ((unat ?h + k) mod unat n) = es ! ((unat ?h + k) mod unat n)"
    if "k < rb.used n ?h t" for k
  proof -
    have "((unat h + 1) mod (2 * unat n) + k) mod unat n = (unat h + 1 + k) mod unat n"
      by (metis dvd_triv_right mod_add_left_eq mod_mod_cancel)
    then have "(unat ?h + k) mod unat n = (unat h + Suc k) mod unat n"
      using rb.val_step [OF assms(1) b] by simp
    moreover have "(unat h + 0) mod unat n \<noteq> (unat h + Suc k) mod unat n"
      using rb.slots_neq [of 0 "Suc k" n "unat h"] that u by simp
    ultimately show ?thesis by (simp add: rb.idx_val [OF assms(1) b])
  qed
  then show ?thesis by (simp add: rb.window_def)
qed

lemma ring_pop:
  assumes "ring_ok r" "ring_queue_of r = x # q"
  shows "VCABLK_RING_GET_OBJ (last_used r) (num_elems r) (elems r) = x" "last_used r \<noteq> last_add r"
    and "ring_ok (r\<lparr>last_used := VCA_RB_COUNTER_ADD (last_used r) 1 (num_elems r)\<rparr>)"
    and "ring_queue_of (r\<lparr>last_used := VCA_RB_COUNTER_ADD (last_used r) 1 (num_elems r)\<rparr>) = q"
    and "ring_ok ((ring_upd (last_used r) f r)\<lparr>last_used := VCA_RB_COUNTER_ADD (last_used r) 1 (num_elems r)\<rparr>)"
    and "ring_queue_of ((ring_upd (last_used r) f r)\<lparr>last_used := VCA_RB_COUNTER_ADD (last_used r) 1 (num_elems r)\<rparr>) = q"
proof -
  note o = ring_okD [OF assms(1)]
  show ne: "last_used r \<noteq> last_add r" using ring_queue_empty [OF assms(1)] assms(2) by auto
  then have "\<not> VCA_RB_BUFF_EMPTY (last_used r) (last_add r)" by (simp add: VCA_RB_BUFF_EMPTY_def)
  note p = ring_queue_facts(2) [OF o this] and w = window_head_slot [OF o(1,2) ne, of "elems r"]
  then show "VCABLK_RING_GET_OBJ (last_used r) (num_elems r) (elems r) = x"
    "ring_ok (r\<lparr>last_used := VCA_RB_COUNTER_ADD (last_used r) 1 (num_elems r)\<rparr>)"
    "ring_queue_of (r\<lparr>last_used := VCA_RB_COUNTER_ADD (last_used r) 1 (num_elems r)\<rparr>) = q"
    "ring_ok ((ring_upd (last_used r) f r)\<lparr>last_used := VCA_RB_COUNTER_ADD (last_used r) 1 (num_elems r)\<rparr>)"
    "ring_queue_of ((ring_upd (last_used r) f r)\<lparr>last_used := VCA_RB_COUNTER_ADD (last_used r) 1 (num_elems r)\<rparr>) = q"
    using assms(2) o by (auto simp: ring_ok_def ring_queue_of_def VCABLK_RING_GET_OBJ_def ring_upd_def Let_def)
qed

section \<open>Elements of the request ring\<close>

definition is_data :: "vcablk_request \<Rightarrow> bool" where
  "is_data r \<longleftrightarrow> rq_type r \<noteq> REQUEST_SYNC"

text \<open>An element without its cookie.\<close>

definition part_of :: "vcablk_request \<Rightarrow> u8 \<times> u64 \<times> u64 \<times> u64" where
  "part_of r = (rq_type r, rq_sector r, rq_sectors_num r, rq_phys_buff r)"

text \<open>The elements of a group: data, with at most one synchronisation before and after it.\<close>

definition shape :: "vcablk_request list \<Rightarrow> bool" where
  "shape ps \<longleftrightarrow> (\<exists>a ds b. ps = a @ ds @ b \<and> (\<forall>r \<in> set (a @ b). \<not> is_data r) \<and> (\<forall>r \<in> set ds. is_data r) \<and>
     length a \<le> 1 \<and> length b \<le> 1 \<and> ds \<noteq> [])"

end
