(* ===== verification/Vcablk_Pool.thy ===== *)
theory Vcablk_Pool
  imports Vca_Prelude
begin

text \<open>
  The lock-free object pool of the block driver (\<open>vcablk/vcablk_pool.h\<close>): a singly linked free list
  threaded through the array of items by their \<open>next_free\<close> index, from \<open>head\<close> to \<open>tail\<close>, with one
  item always left on the list. A pointer to an item's data is modelled by the item's index.
  The theory shows that the pool refines a FIFO of free indices, and provides the interface
  \<open>slot_pool\<close> on which the disk front end and back end rely.
\<close>

section \<open>State and operations\<close>

definition VCABLK_POOL_USED :: u16 where
  "VCABLK_POOL_USED = 65535"

record 'a vcablk_pool_head =
  next_free :: u16
  data :: 'a

record 'a vcablk_pool =
  p_num :: u16
  p_head :: u16
  p_tail :: u16
  p_alloc_size :: nat
  p_alloc :: "'a vcablk_pool_head list"

text \<open>The \<open>next_free\<close> field of the item at an index (\<open>get_pool_head_idx(pool, idx)->next_free\<close>).\<close>

definition pool_nf :: "'a vcablk_pool \<Rightarrow> nat \<Rightarrow> u16" where
  "pool_nf p i = next_free (p_alloc p ! i)"

definition set_nf :: "nat \<Rightarrow> u16 \<Rightarrow> 'a vcablk_pool \<Rightarrow> 'a vcablk_pool" where
  "set_nf i v p = p\<lparr>p_alloc := (p_alloc p)[i := (p_alloc p ! i)\<lparr>next_free := v\<rparr>]\<rparr>"

definition vcablk_pool_clear :: "'a \<Rightarrow> 'a vcablk_pool \<Rightarrow> 'a vcablk_pool" where
  "vcablk_pool_clear zero p =
     p\<lparr>p_head := 0,
       p_alloc := map (\<lambda>i. \<lparr>next_free = (if i < unat (p_num p) - 1 then word_of_nat (i + 1) else 0),
                            data = zero\<rparr>) [0..<unat (p_num p)],
       p_tail := p_num p - 1\<rparr>"

text \<open>
  The allocation of the pool's memory may fail (\<open>kmalloc_ok\<close>); the data of every item is zeroed.
\<close>

definition vcablk_pool_init :: "bool \<Rightarrow> 'a \<Rightarrow> nat \<Rightarrow> u16 \<Rightarrow> nat \<Rightarrow> 'a vcablk_pool option" where
  "vcablk_pool_init kmalloc_ok zero head_bytes n bytes =
     (if unat VCABLK_POOL_USED \<le> unat n \<or> unat VCABLK_POOL_USED \<le> unat n + 1 then None
      else if \<not> kmalloc_ok then None
      else Some (vcablk_pool_clear zero
             \<lparr>p_num = n + 1, p_head = 0, p_tail = 0, p_alloc_size = bytes + head_bytes, p_alloc = []\<rparr>))"

definition vcablk_pool_get_by_id :: "'a vcablk_pool \<Rightarrow> u16 \<Rightarrow> nat option" where
  "vcablk_pool_get_by_id p i =
     (if i < p_num p \<and> pool_nf p (unat i) = VCABLK_POOL_USED then Some (unat i) else None)"

definition vcablk_is_available :: "'a vcablk_pool \<Rightarrow> bool" where
  "vcablk_is_available p \<longleftrightarrow> p_head p \<noteq> p_tail p"

definition vcablk_pool_pop :: "'a vcablk_pool \<Rightarrow> (nat \<times> 'a vcablk_pool) option" where
  "vcablk_pool_pop p =
     (if p_head p \<noteq> p_tail p
      then let i = unat (p_head p)
           in Some (i, set_nf i VCABLK_POOL_USED (p\<lparr>p_head := pool_nf p i\<rparr>))
      else None)"

text \<open>
  The three \<open>BUG_ON\<close> checks of \<open>vcablk_pool_push\<close> stop the kernel: the result is \<open>None\<close>. A pointer is the index of
  its item, so that pointers into other memory, whose distance the code cuts to 16 bits before it checks it, are
  not values of the model.
\<close>

definition vcablk_pool_push :: "'a vcablk_pool \<Rightarrow> nat option \<Rightarrow> 'a vcablk_pool option" where
  "vcablk_pool_push p ptr =
     (case ptr of
        None \<Rightarrow> None
      | Some i \<Rightarrow>
          if unat (p_num p) \<le> i \<or> pool_nf p i \<noteq> VCABLK_POOL_USED then None
          else Some ((set_nf (unat (p_tail p)) (word_of_nat i) (set_nf i 0 p))\<lparr>p_tail := word_of_nat i\<rparr>))"

text \<open>\<open>vcablk_pool_foreach_used\<close> visits the used items in index order.\<close>

definition vcablk_pool_foreach_used :: "'a vcablk_pool \<Rightarrow> nat list" where
  "vcablk_pool_foreach_used p =
     filter (\<lambda>i. pool_nf p i = VCABLK_POOL_USED) [0..<unat (p_num p)]"

text \<open>The data of an item, read and written through its pointer.\<close>

definition pool_data :: "'a vcablk_pool \<Rightarrow> nat \<Rightarrow> 'a" where
  "pool_data p i = data (p_alloc p ! i)"

definition pool_upd :: "nat \<Rightarrow> ('a \<Rightarrow> 'a) \<Rightarrow> 'a vcablk_pool \<Rightarrow> 'a vcablk_pool" where
  "pool_upd i f p = p\<lparr>p_alloc := (p_alloc p)[i := (p_alloc p ! i)\<lparr>data := f (data (p_alloc p ! i))\<rparr>]\<rparr>"

section \<open>The free list\<close>

fun chain :: "'a vcablk_pool \<Rightarrow> nat \<Rightarrow> nat \<Rightarrow> nat list" where
  "chain p 0 h = []"
| "chain p (Suc k) h = (if h = unat (p_tail p) then [h] else h # chain p k (unat (pool_nf p h)))"

definition pool_free :: "'a vcablk_pool \<Rightarrow> nat list" where
  "pool_free p = chain p (unat (p_num p)) (unat (p_head p))"

fun linked :: "'a vcablk_pool \<Rightarrow> nat list \<Rightarrow> bool" where
  "linked p [] \<longleftrightarrow> True"
| "linked p [x] \<longleftrightarrow> True"
| "linked p (x # y # fl) \<longleftrightarrow> unat (pool_nf p x) = y \<and> linked p (y # fl)"

definition pool_rel :: "'a vcablk_pool \<Rightarrow> nat list \<Rightarrow> bool" where
  "pool_rel p fl \<longleftrightarrow>
     length (p_alloc p) = unat (p_num p) \<and> unat (p_num p) < unat VCABLK_POOL_USED \<and>
     fl \<noteq> [] \<and> distinct fl \<and> (\<forall>i \<in> set fl. i < unat (p_num p)) \<and>
     unat (p_head p) = hd fl \<and> unat (p_tail p) = last fl \<and> linked p fl \<and>
     (\<forall>i < unat (p_num p). pool_nf p i = VCABLK_POOL_USED \<longleftrightarrow> i \<notin> set fl)"

definition pool_inv :: "'a vcablk_pool \<Rightarrow> bool" where
  "pool_inv p \<longleftrightarrow> pool_rel p (pool_free p)"

definition pool_used :: "'a vcablk_pool \<Rightarrow> nat set" where
  "pool_used p = set (vcablk_pool_foreach_used p)"

section \<open>The interface of a pool of slots\<close>

datatype slot_op = Get | Put nat

locale slot_pool =
  fixes inv :: "'p \<Rightarrow> bool"
    and in_use :: "'p \<Rightarrow> nat set"
    and cap :: "'p \<Rightarrow> nat"
    and pop :: "'p \<Rightarrow> (nat \<times> 'p) option"
    and push :: "'p \<Rightarrow> nat \<Rightarrow> 'p option"
  assumes bounded: "inv p \<Longrightarrow> finite (in_use p) \<and> card (in_use p) \<le> cap p"
    and pop_None: "inv p \<Longrightarrow> pop p = None \<longleftrightarrow> card (in_use p) = cap p"
    and pop_Some: "inv p \<Longrightarrow> pop p = Some (i, p') \<Longrightarrow>
          inv p' \<and> i \<notin> in_use p \<and> in_use p' = insert i (in_use p) \<and> cap p' = cap p"
    and push_used: "inv p \<Longrightarrow> i \<in> in_use p \<Longrightarrow>
          \<exists>p'. push p i = Some p' \<and> inv p' \<and> in_use p' = in_use p - {i} \<and> cap p' = cap p"
    and push_unused: "inv p \<Longrightarrow> i \<notin> in_use p \<Longrightarrow> push p i = None"
begin

text \<open>
  A client's run: the list of slots it holds grows with every successful \<open>Get\<close> and shrinks with
  every \<open>Put\<close>; a \<open>Put\<close> of a slot it does not hold stops the run, as the code's assertion would.
\<close>

fun run :: "'p \<Rightarrow> nat list \<Rightarrow> slot_op list \<Rightarrow> ('p \<times> nat list) option" where
  "run p held [] = Some (p, held)"
| "run p held (Get # ops) =
     (case pop p of None \<Rightarrow> run p held ops | Some (i, p') \<Rightarrow> run p' (i # held) ops)"
| "run p held (Put i # ops) =
     (case push p i of None \<Rightarrow> None | Some p' \<Rightarrow> run p' (remove1 i held) ops)"

lemma run_exclusive:
  assumes "inv p" "distinct held" "set held = in_use p" "run p held ops = Some (p', held')"
  shows "inv p' \<and> distinct held' \<and> set held' = in_use p' \<and> length held' \<le> cap p \<and> cap p' = cap p"
  using assms
proof (induction ops arbitrary: p held)
  case Nil
  then show ?case using bounded [of p] by (auto simp: distinct_card [symmetric])
next
  case (Cons x ops)
  show ?case
  proof (cases x)
    case Get
    show ?thesis
    proof (cases "pop p")
      case None
      with Get Cons show ?thesis by simp
    next
      case (Some a)
      obtain i q where a: "a = (i, q)" by (cases a)
      have q: "inv q" "i \<notin> in_use p" "in_use q = insert i (in_use p)" "cap q = cap p"
        using pop_Some [OF Cons.prems(1)] Some a by auto
      have "run q (i # held) ops = Some (p', held')" using Cons.prems(4) Get Some a by simp
      with Cons.IH [OF q(1), of "i # held"] q Cons.prems(2,3) show ?thesis by simp
    qed
  next
    case (Put i)
    then obtain q where q: "push p i = Some q" "run q (remove1 i held) ops = Some (p', held')"
      using Cons.prems(4) by (auto split: option.splits)
    have i: "i \<in> in_use p" using push_unused [OF Cons.prems(1)] q(1) by force
    with push_used [OF Cons.prems(1) i] q(1)
    have "inv q" "in_use q = in_use p - {i}" "cap q = cap p" by auto
    with Cons.IH [of q "remove1 i held"] q(2) Cons.prems(2,3) show ?thesis by simp
  qed
qed

end

section \<open>The free list is determined by the structure\<close>

lemma USED_unat [simp]: "unat VCABLK_POOL_USED = 65535"
  by (simp add: VCABLK_POOL_USED_def)

lemma u16_of_nat_unat: "n < 65536 \<Longrightarrow> unat (word_of_nat n :: u16) = n"
  by (simp add: unsigned_of_nat take_bit_nat_eq_self)

lemma linked_cong:
  "linked p fl \<Longrightarrow> \<forall>x \<in> set (butlast fl). pool_nf q x = pool_nf p x \<Longrightarrow> linked q fl"
  by (induction p fl rule: linked.induct) auto

lemma linked_snoc: "linked p (fl @ [i]) \<longleftrightarrow> fl = [] \<or> linked p fl \<and> unat (pool_nf p (last fl)) = i"
  by (induction p fl rule: linked.induct) auto

lemma linked_upt:
  "\<forall>i. Suc i < n \<longrightarrow> unat (pool_nf p i) = Suc i \<Longrightarrow> linked p [0..<n]"
proof (induction n)
  case (Suc n)
  have "n = 0 \<or> last [0..<n] = n - 1" by (cases n) (auto simp: last_append)
  with Suc linked_snoc [of p "[0..<n]" n] show ?case by auto
qed simp

lemma chain_linked:
  assumes "linked p fl" "fl \<noteq> []" "distinct fl" "last fl = unat (p_tail p)" "length fl \<le> k"
  shows "chain p k (hd fl) = fl"
  using assms
proof (induction p fl arbitrary: k rule: linked.induct)
  case (2 p x)
  then show ?case by (cases k) auto
next
  case (3 p x y fl)
  then obtain k' where k: "k = Suc k'" by (cases k) auto
  have "x \<noteq> unat (p_tail p)" using "3.prems"(3,4) last_in_set [of "y # fl"] by force
  then show ?case using "3.IH" [of k'] "3.prems" k by simp
qed simp

lemma pool_rel_length: "pool_rel p fl \<Longrightarrow> length fl \<le> unat (p_num p)"
  by (auto simp: pool_rel_def distinct_card [symmetric] intro!: subset_eq_atLeast0_lessThan_card
      subsetI)

lemma pool_rel_free: "pool_rel p fl \<Longrightarrow> pool_free p = fl"
  using chain_linked [of p fl "unat (p_num p)"] pool_rel_length [of p fl]
  by (simp add: pool_free_def pool_rel_def)

lemma pool_inv_iff: "pool_inv p \<longleftrightarrow> (\<exists>fl. pool_rel p fl)"
  using pool_rel_free by (auto simp: pool_inv_def)

lemma pool_used_eq: "pool_rel p fl \<Longrightarrow> pool_used p = {..<unat (p_num p)} - set fl"
  by (auto simp: pool_used_def vcablk_pool_foreach_used_def pool_rel_def)

lemma card_pool_used: "pool_rel p fl \<Longrightarrow> card (pool_used p) = unat (p_num p) - length fl"
  by (subst pool_used_eq, assumption, subst card_Diff_subset)
    (auto simp: pool_rel_def distinct_card)

section \<open>The operations on the free list\<close>

lemma nf_set_nf:
  "i < length (p_alloc p) \<Longrightarrow> pool_nf (set_nf i v p) j = (if j = i then v else pool_nf p j)"
  by (simp add: pool_nf_def set_nf_def nth_list_update)

lemma set_nf_fields [simp]:
  "p_num (set_nf i v p) = p_num p" "p_head (set_nf i v p) = p_head p"
  "p_tail (set_nf i v p) = p_tail p" "length (p_alloc (set_nf i v p)) = length (p_alloc p)"
  "p_alloc_size (set_nf i v p) = p_alloc_size p"
  by (simp_all add: set_nf_def)

lemma nf_fields [simp]:
  "pool_nf (p\<lparr>p_head := h\<rparr>) = pool_nf p" "pool_nf (p\<lparr>p_tail := t\<rparr>) = pool_nf p"
  by (simp_all add: pool_nf_def fun_eq_iff)

lemma pop_rel:
  assumes "pool_rel p (i # fl)" "fl \<noteq> []"
  shows "\<exists>p'. vcablk_pool_pop p = Some (i, p') \<and> pool_rel p' fl \<and> p_num p' = p_num p"
proof -
  have h: "unat (p_head p) = i" "i < length (p_alloc p)"
    using assms(1) by (auto simp: pool_rel_def)
  have ne: "p_head p \<noteq> p_tail p"
    using assms last_in_set [of fl] by (auto simp: pool_rel_def)
  let ?p = "set_nf i VCABLK_POOL_USED (p\<lparr>p_head := pool_nf p i\<rparr>)"
  have nf: "pool_nf ?p j = (if j = i then VCABLK_POOL_USED else pool_nf p j)" for j
    using h by (simp add: nf_set_nf)
  have l: "linked p fl" "unat (pool_nf p i) = hd fl" "i \<notin> set fl"
    using assms by (cases fl; simp add: pool_rel_def)+
  then have "linked ?p fl"
    by (elim linked_cong) (auto simp: nf dest: in_set_butlastD)
  then have "pool_rel ?p fl"
    using assms l(2) unfolding pool_rel_def nf by auto
  then show ?thesis using h ne by (simp add: vcablk_pool_pop_def)
qed

lemma pop_rel_None: "pool_rel p [i] \<Longrightarrow> vcablk_pool_pop p = None"
  using unat_inj [of "p_head p" "p_tail p"] by (auto simp: pool_rel_def vcablk_pool_pop_def)

lemma push_rel:
  assumes rel: "pool_rel p fl" and i: "i < unat (p_num p)" "i \<notin> set fl"
  shows "\<exists>p'. vcablk_pool_push p (Some i) = Some p' \<and> pool_rel p' (fl @ [i]) \<and> p_num p' = p_num p"
proof -
  let ?t = "unat (p_tail p)"
  let ?p = "(set_nf ?t (word_of_nat i) (set_nf i 0 p))\<lparr>p_tail := word_of_nat i\<rparr>"
  have t: "?t = last fl" "?t \<in> set fl" "?t < length (p_alloc p)" "i < length (p_alloc p)" "i \<noteq> ?t"
    using rel i last_in_set [of fl] by (auto simp: pool_rel_def)
  have i16: "unat (word_of_nat i :: u16) = i" "word_of_nat i \<noteq> VCABLK_POOL_USED"
    using rel i by (auto simp: pool_rel_def u16_of_nat_unat VCABLK_POOL_USED_def
        dest!: arg_cong [of _ _ unat])
  have nf: "pool_nf ?p j = (if j = ?t then word_of_nat i else if j = i then 0 else pool_nf p j)" for j
    using t by (simp add: nf_set_nf)
  have ne: "fl \<noteq> []" "distinct fl" "linked p fl" using rel by (auto simp: pool_rel_def)
  have "last fl \<notin> set (butlast fl)"
    using ne(1,2) distinct_append [of "butlast fl" "[last fl]"] by simp
  then have "\<forall>x \<in> set (butlast fl). pool_nf ?p x = pool_nf p x"
    unfolding nf using i(2) t(1) by (auto dest: in_set_butlastD)
  then have "linked ?p fl" using ne(3) by (rule linked_cong [rotated])
  moreover have "unat (pool_nf ?p (last fl)) = i" unfolding nf using i16 t(1) by simp
  ultimately have "linked ?p (fl @ [i])" by (simp add: linked_snoc)
  then have "pool_rel ?p (fl @ [i])"
    using rel i t i16 unfolding pool_rel_def nf by (auto simp: VCABLK_POOL_USED_def)
  moreover have "pool_nf p i = VCABLK_POOL_USED" using rel i by (simp add: pool_rel_def)
  ultimately show ?thesis using i by (simp add: vcablk_pool_push_def)
qed

lemma clear_rel:
  assumes "0 < unat (p_num p)" "unat (p_num p) < 65535"
  shows "pool_rel (vcablk_pool_clear zero p) [0..<unat (p_num p)]"
proof -
  let ?q = "vcablk_pool_clear zero p" and ?n = "unat (p_num p)"
  have nf: "pool_nf ?q i = (if i < ?n - 1 then word_of_nat (i + 1) else 0)" if "i < ?n" for i
    using that by (simp add: vcablk_pool_clear_def pool_nf_def)
  have "unat (word_of_nat (i + 1) :: u16) = i + 1" if "i < ?n - 1" for i
    using that assms(2) by (intro u16_of_nat_unat) simp
  then have u: "unat (pool_nf ?q i) = (if i < ?n - 1 then i + 1 else 0)" if "i < ?n" for i
    using that by (simp add: nf)
  then have "linked ?q [0..<?n]" by (intro linked_upt) auto
  moreover have "pool_nf ?q i \<noteq> VCABLK_POOL_USED" if "i < ?n" for i
    using u [OF that] assms(2) that by (auto dest!: arg_cong [of _ _ unat] split: if_splits)
  moreover have "p_num p \<noteq> 0" using assms by auto
  then have "unat (p_num p - 1) = ?n - 1" by (rule unat_pred)
  ultimately show ?thesis
    using assms by (simp add: pool_rel_def vcablk_pool_clear_def)
qed

text \<open>The operations leave the data of all items alone, and stores to the data leave the list alone.\<close>

lemma data_set_nf [simp]: "pool_data (set_nf i v p) = pool_data p"
  by (auto simp: pool_data_def set_nf_def fun_eq_iff nth_list_update_cases)

lemma data_fields [simp]: "pool_data (p\<lparr>p_head := h\<rparr>) = pool_data p" "pool_data (p\<lparr>p_tail := h\<rparr>) = pool_data p"
  by (simp_all add: pool_data_def fun_eq_iff)

lemma pop_data: "vcablk_pool_pop p = Some (i, p') \<Longrightarrow> pool_data p' = pool_data p"
  by (auto simp: vcablk_pool_pop_def Let_def split: if_splits)

lemma push_data: "vcablk_pool_push p j = Some p' \<Longrightarrow> pool_data p' = pool_data p"
  by (auto simp: vcablk_pool_push_def split: if_splits option.splits)

lemma pool_upd_simps [simp]:
  "p_num (pool_upd i f p) = p_num p" "p_head (pool_upd i f p) = p_head p" "p_tail (pool_upd i f p) = p_tail p"
  "length (p_alloc (pool_upd i f p)) = length (p_alloc p)" "pool_nf (pool_upd i f p) = pool_nf p"
  by (auto simp: pool_upd_def pool_nf_def fun_eq_iff nth_list_update_cases)

lemma linked_upd [simp]: "linked (pool_upd i f p) fl = linked p fl"
  by (induction p fl rule: linked.induct) auto

lemma rel_upd [simp]: "pool_rel (pool_upd i f p) fl = pool_rel p fl"
  by (simp add: pool_rel_def)

lemma data_upd: "i < length (p_alloc p) \<Longrightarrow> pool_data (pool_upd i f p) = (pool_data p)(i := f (pool_data p i))"
  by (auto simp: pool_data_def pool_upd_def fun_eq_iff nth_list_update)

lemma rel_alloc: "pool_rel p fl \<Longrightarrow> length (p_alloc p) = unat (p_num p)"
  by (simp add: pool_rel_def)

lemmas pool_op_rels = pop_rel pop_rel_None push_rel

interpretation blkpool: slot_pool pool_inv pool_used "\<lambda>p. unat (p_num p) - 1"
  vcablk_pool_pop "\<lambda>p i. vcablk_pool_push p (Some i)"
proof unfold_locales
  fix p :: "'a vcablk_pool" and i p'
  assume "pool_inv p"
  then obtain fl where rel: "pool_rel p fl" by (auto simp: pool_inv_iff)
  then obtain f fl' where fl: "fl = f # fl'" by (cases fl) (auto simp: pool_rel_def)
  note len = pool_rel_length [OF rel] and crd = card_pool_used [OF rel] and eq = pool_used_eq [OF rel]
  show "finite (pool_used p) \<and> card (pool_used p) \<le> unat (p_num p) - 1"
    using crd fl by (simp add: pool_used_def)
  show "vcablk_pool_pop p = None \<longleftrightarrow> card (pool_used p) = unat (p_num p) - 1"
    using pop_rel [of p f fl'] pop_rel_None [of p f] rel len crd fl
    by (cases fl') auto
  show "pool_inv p' \<and> i \<notin> pool_used p \<and> pool_used p' = insert i (pool_used p) \<and>
      unat (p_num p') - 1 = unat (p_num p) - 1" if pop: "vcablk_pool_pop p = Some (i, p')"
  proof -
    have "fl' \<noteq> []" using pop pop_rel_None [of p f] rel fl by auto
    then have r: "pool_rel p' fl'" "i = f" "p_num p' = p_num p"
      using pop_rel [of p f fl'] pop rel fl by auto
    have "f < unat (p_num p)" "f \<notin> set fl'" using rel fl by (auto simp: pool_rel_def)
    with r eq pool_used_eq [OF r(1)] fl show ?thesis by (auto simp: pool_inv_iff)
  qed
  show "\<exists>q. vcablk_pool_push p (Some i) = Some q \<and> pool_inv q \<and> pool_used q = pool_used p - {i} \<and>
      unat (p_num q) - 1 = unat (p_num p) - 1" if "i \<in> pool_used p"
  proof -
    have "i < unat (p_num p)" "i \<notin> set fl" using that eq by auto
    from push_rel [OF rel this] obtain q where
      q: "vcablk_pool_push p (Some i) = Some q" "pool_rel q (fl @ [i])" "p_num q = p_num p" by blast
    with eq pool_used_eq [OF q(2)] show ?thesis by (auto simp: pool_inv_iff)
  qed
  show "vcablk_pool_push p (Some i) = None" if "i \<notin> pool_used p"
    using that by (auto simp: vcablk_pool_push_def pool_used_def vcablk_pool_foreach_used_def)
qed

section \<open>Properties\<close>

lemma init_rel:
  assumes "vcablk_pool_init k zero hb n bytes = Some p"
  shows "pool_rel p [0..<unat n + 1]" "unat (p_num p) = unat n + 1"
proof -
  have n: "unat n + 1 < 65535" and p: "p = vcablk_pool_clear zero
      \<lparr>p_num = n + 1, p_head = 0, p_tail = 0, p_alloc_size = bytes + hb, p_alloc = []\<rparr>"
    using assms by (auto simp: vcablk_pool_init_def split: if_splits)
  have u: "unat (n + 1) = unat n + 1" using n by (simp add: unat_word_ariths)
  then show "unat (p_num p) = unat n + 1" by (simp add: p vcablk_pool_clear_def)
  from clear_rel [of "\<lparr>p_num = n + 1, p_head = 0, p_tail = 0, p_alloc_size = bytes + hb, p_alloc = []\<rparr>" zero]
  show "pool_rel p [0..<unat n + 1]"
    using n u p by (simp del: upt_Suc)
qed

text \<open>
  C10: A pool made for \<open>n\<close> elements never hands out an element twice: after any sequence of pops and
  pushes from initialisation, the elements held are pairwise different, at most \<open>n\<close>, and exactly the
  ones the structure marks as used.
\<close>
theorem pool_exclusive:
  assumes "vcablk_pool_init k zero hb n bytes = Some p" "blkpool.run p [] ops = Some (p', held)"
  shows "distinct held \<and> length held \<le> unat n \<and> set held = set (vcablk_pool_foreach_used p') \<and>
    pool_inv p'"
proof -
  have r: "pool_rel p [0..<unat n + 1]" "unat (p_num p) = unat n + 1" by (rule init_rel [OF assms(1)])+
  have "pool_used p = {}" using pool_used_eq [OF r(1)] r(2) by (simp add: lessThan_atLeast0 del: upt_Suc)
  moreover have "pool_inv p" using r(1) pool_inv_iff by blast
  ultimately show ?thesis
    using blkpool.run_exclusive [of p "[]" ops p' held] assms(2) r(2) by (simp add: pool_used_def)
qed

theorem pool_exclusive_witness:
  "\<exists>p p'. vcablk_pool_init True (0::nat) 8 2 16 = Some p \<and>
     blkpool.run p [] [Get, Get, Get, Put 0, Get] = Some (p', [2, 1]) \<and>
     set (vcablk_pool_foreach_used p') = {1, 2}"
proof -
  let ?p0 = "the (vcablk_pool_init True (0::nat) 8 2 16)"
  let ?p1 = "snd (the (vcablk_pool_pop ?p0))"
  let ?p2 = "snd (the (vcablk_pool_pop ?p1))"
  let ?p3 = "the (vcablk_pool_push ?p2 (Some 0))"
  let ?p4 = "snd (the (vcablk_pool_pop ?p3))"
  have p: "vcablk_pool_init True (0::nat) 8 2 16 = Some ?p0" by code_simp
  have s: "vcablk_pool_pop ?p0 = Some (0, ?p1)" "vcablk_pool_pop ?p1 = Some (1, ?p2)"
    "vcablk_pool_pop ?p2 = None" "vcablk_pool_push ?p2 (Some 0) = Some ?p3"
    "vcablk_pool_pop ?p3 = Some (2, ?p4)"
    by code_simp+
  have "vcablk_pool_pop a = Some (0, b) \<Longrightarrow> vcablk_pool_pop b = Some (1, c) \<Longrightarrow>
      vcablk_pool_pop c = None \<Longrightarrow> vcablk_pool_push c (Some 0) = Some d \<Longrightarrow>
      vcablk_pool_pop d = Some (2, e) \<Longrightarrow>
      blkpool.run a [] [Get, Get, Get, Put 0, Get] = Some (e, [2, 1])" for a b c d and e :: "nat vcablk_pool"
    by simp
  from this [OF s] have p': "blkpool.run ?p0 [] [Get, Get, Get, Put 0, Get] = Some (?p4, [2, 1])" .
  have "set (vcablk_pool_foreach_used ?p4) = {1, 2}" using pool_exclusive [OF p p'] by auto
  with p p' show ?thesis by blast
qed

lemma pool_fifo_facts:
  assumes "pool_inv p"
  shows "vcablk_pool_pop p = None \<longleftrightarrow> length (pool_free p) = 1"
    and "vcablk_pool_pop p = Some (i, p') \<Longrightarrow> pool_free p = i # pool_free p' \<and> pool_inv p'"
    and "vcablk_pool_push p (Some j) = Some q \<Longrightarrow> pool_free q = pool_free p @ [j] \<and> pool_inv q"
    and "vcablk_pool_push p (Some j) = None \<longleftrightarrow> j \<notin> set (vcablk_pool_foreach_used p)"
proof -
  have rel: "pool_rel p (pool_free p)" using assms by (simp add: pool_inv_def)
  obtain f fl where fl: "pool_free p = f # fl"
    using rel by (cases "pool_free p") (auto simp: pool_rel_def)
  have one: "fl = [] \<Longrightarrow> vcablk_pool_pop p = None" using pop_rel_None rel fl by simp
  have more: "fl \<noteq> [] \<Longrightarrow> \<exists>p'. vcablk_pool_pop p = Some (f, p') \<and> pool_rel p' fl"
    using pop_rel [of p f fl] rel fl by auto
  show "vcablk_pool_pop p = None \<longleftrightarrow> length (pool_free p) = 1"
    using one more fl by (cases "fl = []") auto
  show "pool_free p = i # pool_free p' \<and> pool_inv p'" if "vcablk_pool_pop p = Some (i, p')"
    using one more fl that pool_rel_free [of p' fl] pool_inv_iff by (cases "fl = []") auto
  have used: "set (vcablk_pool_foreach_used p) = {..<unat (p_num p)} - set (pool_free p)"
    using pool_used_eq [OF rel] by (simp add: pool_used_def)
  show none: "vcablk_pool_push p (Some j) = None \<longleftrightarrow> j \<notin> set (vcablk_pool_foreach_used p)"
    using blkpool.push_unused [OF assms, of j] blkpool.push_used [OF assms, of j]
    unfolding pool_used_def by fastforce
  show "pool_free q = pool_free p @ [j] \<and> pool_inv q" if "vcablk_pool_push p (Some j) = Some q"
  proof -
    have "j < unat (p_num p)" "j \<notin> set (pool_free p)" using none that used by auto
    from push_rel [OF rel this] that show ?thesis using pool_rel_free pool_inv_iff by auto
  qed
qed

text \<open>
  C28: The free list is a queue: a pop takes the oldest free element, and fails only when a single one
  is left; a push of an element in use appends it, and a push of any other element (a double free or
  a foreign pointer) is caught by the assertions.
\<close>
theorem pool_fifo:
  assumes "pool_inv p"
  shows "(vcablk_pool_pop p = None \<longleftrightarrow> length (pool_free p) = 1) \<and>
    (\<forall>i p'. vcablk_pool_pop p = Some (i, p') \<longrightarrow> pool_free p = i # pool_free p' \<and> pool_inv p') \<and>
    (\<forall>j q. vcablk_pool_push p (Some j) = Some q \<longrightarrow> pool_free q = pool_free p @ [j] \<and> pool_inv q) \<and>
    (\<forall>j. vcablk_pool_push p (Some j) = None \<longleftrightarrow> j \<notin> set (vcablk_pool_foreach_used p))"
  using pool_fifo_facts [OF assms] by blast

theorem pool_fifo_witness:
  "\<exists>p p' i. pool_inv p \<and> vcablk_pool_init True (0::nat) 8 2 16 = Some p \<and>
     vcablk_pool_pop p = Some (i, p') \<and> pool_free p = i # pool_free p'"
proof -
  obtain p where p: "vcablk_pool_init True (0::nat) 8 2 16 = Some p"
    by (simp add: vcablk_pool_init_def USED_unat)
  have inv: "pool_inv p" using init_rel(1) [OF p] pool_inv_iff by blast
  have "vcablk_pool_pop p \<noteq> None"
    using pool_fifo [OF inv] pool_rel_free [OF init_rel(1) [OF p]] by (simp del: upt_Suc)
  then obtain i p' where "vcablk_pool_pop p = Some (i, p')" by auto
  with pool_fifo [OF inv] p inv show ?thesis by blast
qed

end
