(* ===== verification/Vcablk_Disk.thy ===== *)
theory Vcablk_Disk
  imports Vcablk_Common Vcablk_Pool "HOL-Library.Multiset"
begin

unbundle bit_operations_syntax

text \<open>
  The block device of the card (\<open>vcablk/vcablk_disk.c\<close>). A request of the block layer is cut into the
  segments of its pages; every segment becomes an element of the request ring, at most 32 of them under
  one context, whose number is the cookie of the elements. The other side answers once per cookie.

  What other threads do to the device while the driver waits, and the mapping of pages, are arguments.
  \<open>None\<close> is a stop of the kernel or a wait that never ends.
\<close>

section \<open>State\<close>

definition VCABLK_BIO_SPLIT_SIZE :: nat where "VCABLK_BIO_SPLIT_SIZE = 32"
definition VCABLK_BIO_CTX_POOL_SIZE :: u16 where "VCABLK_BIO_CTX_POOL_SIZE = 32"
definition VCABLK_QUEUE_REQUESTS_NUMS :: u16 where "VCABLK_QUEUE_REQUESTS_NUMS = 1024"
definition VCABLK_QUEUE_ACK_NUMS :: u16 where "VCABLK_QUEUE_ACK_NUMS = 32"
definition REQ_RING_SIZE :: nat where "REQ_RING_SIZE = 2048"

text \<open>A segment of a request of the block layer, and the request; its identity stands for its address.\<close>

record bio_vec =
  bv_page :: u64
  bv_offset :: u32
  bv_len :: u32

record request =
  req_id :: nat
  req_write :: bool
  req_op :: u32
  req_sector :: u64
  req_segs :: "bio_vec list"

record bvec_context =
  bvc_dma_addr :: u64
  bvc_size :: u32
  bvc_write :: bool

text \<open>The list \<open>bvec_ctxs\<close> holds the first \<open>bvec_ctxs_idx\<close> elements of the array.\<close>

record vcablk_bio_context =
  bc_id :: u16
  bc_req :: "nat option"
  bvec_ctxs :: "bvec_context list"

definition zero_context :: vcablk_bio_context where
  "zero_context = \<lparr>bc_id = 0, bc_req = None, bvec_ctxs = []\<rparr>"

text \<open>
  The device. The last fields are what the kernel and the other side see of it: the requests that were
  ended, with their results; the addresses that are mapped for the other side; the number of interrupts sent.
\<close>

record vcablk_disk =
  size_bytes :: u64
  sectors_num :: u32
  geo_cylinders :: u16
  ref_cnt :: u16
  gdisk :: bool
  gdisk_started :: bool
  read_only :: bool
  dev_id :: int
  request_thread :: bool
  thread_stop :: bool
  bio_done_db :: int
  bio_done_irq :: nat
  request_db :: int
  request_ring :: "vcablk_request vcablk_ring"
  request_ring_alloc :: u16
  completion_ring :: "vcablk_completion vcablk_ring"
  bio_context_pool :: "vcablk_bio_context vcablk_pool"
  split_request_error :: u16
  req_ring_head :: nat
  req_ring_tail :: nat
  req_ring :: "request option list"
  ended :: "(nat \<times> int) list"
  dma_maps :: "u64 multiset"
  intrs :: nat

text \<open>
  The surroundings: the two kinds of waits with a timeout (whether the condition became true, and the
  device afterwards), the wait without a timeout, what happens between two rounds of a busy loop, and the
  mapping of a page (\<open>None\<close> is an error).
\<close>

record disk_env =
  wait_ring :: "vcablk_disk \<Rightarrow> bool \<times> vcablk_disk"
  wait_pool :: "vcablk_disk \<Rightarrow> bool \<times> vcablk_disk"
  wait_pool_again :: "vcablk_disk \<Rightarrow> vcablk_disk"
  others :: "vcablk_disk \<Rightarrow> vcablk_disk"
  dma_map_page :: "vcablk_disk \<Rightarrow> bio_vec \<Rightarrow> bool \<Rightarrow> u64 option"

definition ctx :: "vcablk_disk \<Rightarrow> nat \<Rightarrow> vcablk_bio_context" where
  "ctx dev = pool_data (bio_context_pool dev)"

definition ctx_upd :: "nat \<Rightarrow> (vcablk_bio_context \<Rightarrow> vcablk_bio_context) \<Rightarrow> vcablk_disk \<Rightarrow> vcablk_disk" where
  "ctx_upd i f dev = dev\<lparr>bio_context_pool := pool_upd i f (bio_context_pool dev)\<rparr>"

section \<open>Ending a request\<close>

definition vcablk_disk_request_clean :: "vcablk_disk \<Rightarrow> nat \<Rightarrow> vcablk_disk option" where
  "vcablk_disk_request_clean dev i =
     (let dev1 = dev\<lparr>dma_maps := dma_maps dev - mset (map bvc_dma_addr (bvec_ctxs (ctx dev i)))\<rparr>;
          dev2 = ctx_upd i (\<lambda>c. c\<lparr>bvec_ctxs := []\<rparr>) dev1
      in map_option (\<lambda>p. dev2\<lparr>bio_context_pool := p\<rparr>) (vcablk_pool_push (bio_context_pool dev2) (Some i)))"

definition vcablk_disk_request_end :: "vcablk_disk \<Rightarrow> nat \<Rightarrow> int \<Rightarrow> vcablk_disk" where
  "vcablk_disk_request_end dev req ret = dev\<lparr>ended := ended dev @ [(req, ret)]\<rparr>"

definition vcablk_disk_request_done :: "vcablk_disk \<Rightarrow> u16 \<Rightarrow> int \<Rightarrow> vcablk_disk option" where
  "vcablk_disk_request_done dev cookie ret =
     (if cookie \<noteq> 0 then
        (case vcablk_pool_get_by_id (bio_context_pool dev) (cookie - 1) of
          None \<Rightarrow> Some dev
        | Some i \<Rightarrow>
            let req = bc_req (ctx dev i) in
            (case vcablk_disk_request_clean (ctx_upd i (\<lambda>c. c\<lparr>bc_req := None\<rparr>) dev) i of
              None \<Rightarrow> None
            | Some dev1 \<Rightarrow>
                (case req of
                   Some r \<Rightarrow>
                     if split_request_error dev1 \<noteq> 0
                     then Some (vcablk_disk_request_end (dev1\<lparr>split_request_error := 0\<rparr>) r (uint (split_request_error dev1)))
                     else Some (vcablk_disk_request_end dev1 r ret)
                 | None \<Rightarrow>
                     Some (if ret \<noteq> 0 then dev1\<lparr>split_request_error := word_of_int ret\<rparr> else dev1))))
      else Some dev)"

section \<open>Elements of the request ring\<close>

definition request_ring_full :: "vcablk_disk \<Rightarrow> bool" where
  "request_ring_full dev =
     VCA_RB_BUFF_FULL (request_ring_alloc dev) (last_used (request_ring dev)) (num_elems (request_ring dev))"

partial_function (option) request_ring_wait :: "disk_env \<Rightarrow> vcablk_disk \<Rightarrow> vcablk_disk option" where
  "request_ring_wait env dev =
     (if request_ring_full dev \<and> \<not> thread_stop dev
      then case wait_ring env dev of
             (in_time, dev1) \<Rightarrow> if in_time then Some dev1 else request_ring_wait env dev1
      else Some dev)"

text \<open>The new element is given by its counter.\<close>

definition vcablk_disk_request_alloc_next :: "disk_env \<Rightarrow> vcablk_disk \<Rightarrow> (u16 option \<times> vcablk_disk) option" where
  "vcablk_disk_request_alloc_next env dev =
     (case request_ring_wait env dev of
        None \<Rightarrow> None
      | Some dev1 \<Rightarrow>
          if \<not> request_ring_full dev1
          then Some (Some (request_ring_alloc dev1),
                     dev1\<lparr>request_ring_alloc := VCA_RB_COUNTER_ADD (request_ring_alloc dev1) 1 (num_elems (request_ring dev1))\<rparr>)
          else Some (None, dev1))"

definition vcablk_disk_request_start :: "vcablk_disk \<Rightarrow> int \<times> vcablk_disk" where
  "vcablk_disk_request_start dev =
     (if last_add (request_ring dev) = request_ring_alloc dev then (- errno_num EINVAL, dev)
      else (0, dev\<lparr>request_ring := (request_ring dev)\<lparr>last_add := request_ring_alloc dev\<rparr>, intrs := intrs dev + 1\<rparr>))"

definition vcablk_disk_request_break :: "vcablk_disk \<Rightarrow> nat option \<Rightarrow> vcablk_disk option" where
  "vcablk_disk_request_break dev bio_context =
     (let dev1 = dev\<lparr>request_ring_alloc := last_add (request_ring dev)\<rparr>
      in case bio_context of None \<Rightarrow> Some dev1 | Some i \<Rightarrow> vcablk_disk_request_clean dev1 i)"

text \<open>The address of the page for the other side, 0 for an error.\<close>

definition vcablk_disk_map_page :: "disk_env \<Rightarrow> vcablk_disk \<Rightarrow> nat \<Rightarrow> bio_vec \<Rightarrow> bool \<Rightarrow> u64 \<times> vcablk_disk" where
  "vcablk_disk_map_page env dev i bvec dir =
     (if VCABLK_BIO_SPLIT_SIZE \<le> length (bvec_ctxs (ctx dev i)) then (0, dev)
      else case dma_map_page env dev bvec dir of
             None \<Rightarrow> (0, dev)
           | Some da \<Rightarrow>
               (da, (ctx_upd i (\<lambda>c. c\<lparr>bvec_ctxs := bvec_ctxs c @ [\<lparr>bvc_dma_addr = da, bvc_size = bv_len bvec, bvc_write = dir\<rparr>]\<rparr>)
                       dev)\<lparr>dma_maps := add_mset da (dma_maps dev)\<rparr>))"

definition request_upd :: "u16 \<Rightarrow> (vcablk_request \<Rightarrow> vcablk_request) \<Rightarrow> vcablk_disk \<Rightarrow> vcablk_disk" where
  "request_upd cnt f dev = dev\<lparr>request_ring := ring_upd cnt f (request_ring dev)\<rparr>"

definition vcablk_disk_request_step ::
    "disk_env \<Rightarrow> vcablk_disk \<Rightarrow> bio_vec option \<Rightarrow> nat \<Rightarrow> u8 \<Rightarrow> u64 \<Rightarrow> u64 \<Rightarrow> (int \<times> vcablk_disk) option" where
  "vcablk_disk_request_step env dev bvec i request sector nsec =
     (case vcablk_disk_request_alloc_next env dev of
        None \<Rightarrow> None
      | Some (None, dev1) \<Rightarrow> Some (- errno_num EBUSY, dev1)
      | Some (Some cnt, dev1) \<Rightarrow>
          let dev2 = request_upd cnt (\<lambda>r. r\<lparr>rq_type := request, rq_cookie := bc_id (ctx dev1 i)\<rparr>) dev1 in
          (case bvec of
             None \<Rightarrow> Some (0, dev2)
           | Some bv \<Rightarrow>
               if request = REQUEST_READ \<or> request = REQUEST_WRITE
               then case vcablk_disk_map_page env dev2 i bv (request = REQUEST_WRITE) of
                      (da, dev3) \<Rightarrow>
                        if da = 0 then Some (- errno_num ENOMEM, dev3)
                        else Some (0, request_upd cnt (\<lambda>r. r\<lparr>rq_sectors_num := nsec, rq_sector := sector, rq_phys_buff := da\<rparr>) dev3)
               else Some (0, dev2)))"

section \<open>Contexts\<close>

partial_function (option) bio_context_wait :: "disk_env \<Rightarrow> vcablk_disk \<Rightarrow> vcablk_disk option" where
  "bio_context_wait env dev =
     (if \<not> vcablk_is_available (bio_context_pool dev) \<and> \<not> thread_stop dev
      then case wait_pool env dev of
             (in_time, dev1) \<Rightarrow> if in_time then Some dev1 else bio_context_wait env dev1
      else Some dev)"

definition vcablk_disk_get_bio_context :: "disk_env \<Rightarrow> vcablk_disk \<Rightarrow> (nat option \<times> vcablk_disk) option" where
  "vcablk_disk_get_bio_context env dev =
     (case bio_context_wait env dev of
        None \<Rightarrow> None
      | Some dev1 \<Rightarrow>
          let dev2 = (if vcablk_is_available (bio_context_pool dev1) then dev1 else wait_pool_again env dev1) in
          (case vcablk_pool_pop (bio_context_pool dev2) of
             None \<Rightarrow> Some (None, dev2)
           | Some (i, p) \<Rightarrow>
               Some (Some i, ctx_upd i (\<lambda>c. \<lparr>bc_id = word_of_nat i + 1, bc_req = None, bvec_ctxs = []\<rparr>)
                               (dev2\<lparr>bio_context_pool := p\<rparr>))))"

section \<open>A request of the block layer\<close>

text \<open>
  \<open>req_op\<close> is the lowest byte of the flags, of which only \<open>REQ_OP_FLUSH\<close>, which is 2, is in the tested mask.
\<close>

definition do_sync :: "request \<Rightarrow> bool" where
  "do_sync req \<longleftrightarrow> req_op req AND 0xff AND 2 \<noteq> 0"

text \<open>A context that is full is started, and a new one taken: result, context and previous context.\<close>

definition disk_split :: "disk_env \<Rightarrow> nat \<Rightarrow> nat option \<Rightarrow> vcablk_disk \<Rightarrow> (int \<times> nat option \<times> nat option \<times> vcablk_disk) option" where
  "disk_split env i prev dev =
     (if VCABLK_BIO_SPLIT_SIZE \<le> length (bvec_ctxs (ctx dev i))
      then case vcablk_disk_request_start dev of
             (ret, dev1) \<Rightarrow>
               if ret \<noteq> 0 then Some (- errno_num EIO, Some i, prev, dev1)
               else (case vcablk_disk_get_bio_context env dev1 of
                       None \<Rightarrow> None
                     | Some (None, dev2) \<Rightarrow> Some (- errno_num EIO, None, Some i, dev2)
                     | Some (Some j, dev2) \<Rightarrow> Some (0, Some j, Some i, dev2))
      else Some (0, Some i, prev, dev))"

fun disk_segments ::
    "disk_env \<Rightarrow> u8 \<Rightarrow> bio_vec list \<Rightarrow> u64 \<Rightarrow> nat \<Rightarrow> nat option \<Rightarrow> vcablk_disk \<Rightarrow>
     (int \<times> nat option \<times> nat option \<times> vcablk_disk) option" where
  "disk_segments env request [] sector i prev dev = Some (0, Some i, prev, dev)"
| "disk_segments env request (bvec # bvecs) sector i prev dev =
     (let nsec = ucast (drop_bit 9 (bv_len bvec)) in
      case disk_split env i prev dev of
        None \<Rightarrow> None
      | Some (ret, None, prev1, dev1) \<Rightarrow> Some (ret, None, prev1, dev1)
      | Some (ret, Some j, prev1, dev1) \<Rightarrow>
          if ret \<noteq> 0 then Some (ret, Some j, prev1, dev1)
          else (case vcablk_disk_request_step env dev1 (Some bvec) j request sector nsec of
                  None \<Rightarrow> None
                | Some (ret, dev2) \<Rightarrow>
                    if ret \<noteq> 0 then Some (ret, Some j, prev1, dev2)
                    else disk_segments env request bvecs (sector + nsec) j prev1 dev2))"

definition disk_sync :: "disk_env \<Rightarrow> request \<Rightarrow> nat \<Rightarrow> vcablk_disk \<Rightarrow> (int \<times> vcablk_disk) option" where
  "disk_sync env req i dev =
     (if do_sync req
      then map_option (\<lambda>(ret, dev1). (if ret \<noteq> 0 then - errno_num EIO else 0, dev1))
             (vcablk_disk_request_step env dev None i REQUEST_SYNC 0 0)
      else Some (0, dev))"

text \<open>Everything up to the label \<open>end\<close>: the result, the current and the previous context.\<close>

definition disk_prepare :: "disk_env \<Rightarrow> request \<Rightarrow> vcablk_disk \<Rightarrow> (int \<times> nat option \<times> nat option \<times> vcablk_disk) option" where
  "disk_prepare env req dev =
     (case vcablk_disk_get_bio_context env dev of
        None \<Rightarrow> None
      | Some (None, dev1) \<Rightarrow> Some (- errno_num EIO, None, None, dev1)
      | Some (Some i, dev1) \<Rightarrow>
          (case disk_sync env req i dev1 of
             None \<Rightarrow> None
           | Some (ret, dev2) \<Rightarrow>
               if ret \<noteq> 0 then Some (ret, Some i, None, dev2)
               else
                 (case disk_segments env (if req_write req then REQUEST_WRITE else REQUEST_READ) (req_segs req)
                         (req_sector req) i None dev2 of
                    None \<Rightarrow> None
                  | Some (ret, None, prev, dev3) \<Rightarrow> Some (ret, None, prev, dev3)
                  | Some (ret, Some j, prev, dev3) \<Rightarrow>
                      if ret \<noteq> 0 then Some (ret, Some j, prev, dev3)
                      else
                        (case disk_sync env req j dev3 of
                           None \<Rightarrow> None
                         | Some (ret, dev4) \<Rightarrow>
                             if ret \<noteq> 0 then Some (ret, Some j, prev, dev4)
                             else case vcablk_disk_request_start (ctx_upd j (\<lambda>c. c\<lparr>bc_req := Some (req_id req)\<rparr>) dev4) of
                                    (ret, dev5) \<Rightarrow> Some (ret, Some j, prev, dev5)))))"

text \<open>
  The comment that stands for an empty loop body makes the call that ends the request the body of the loop:
  it is called once per round, and not at all when there is nothing to wait for.
\<close>

partial_function (option) disk_end_loop :: "disk_env \<Rightarrow> nat option \<Rightarrow> nat \<Rightarrow> vcablk_disk \<Rightarrow> vcablk_disk option" where
  "disk_end_loop env prev req dev =
     (if (case prev of None \<Rightarrow> False | Some i \<Rightarrow> bvec_ctxs (ctx dev i) \<noteq> [])
      then disk_end_loop env prev req (others env (vcablk_disk_request_end dev req (- errno_num EIO)))
      else Some dev)"

definition vcablk_disk_async_request :: "disk_env \<Rightarrow> request \<Rightarrow> vcablk_disk \<Rightarrow> (int \<times> vcablk_disk) option" where
  "vcablk_disk_async_request env req dev =
     (case disk_prepare env req dev of
        None \<Rightarrow> None
      | Some (ret, bio_context, prev, dev1) \<Rightarrow>
          if ret \<noteq> 0
          then (case vcablk_disk_request_break dev1 bio_context of
                  None \<Rightarrow> None
                | Some dev2 \<Rightarrow> map_option (\<lambda>dev3. (ret, dev3)) (disk_end_loop env prev (req_id req) dev2))
          else Some (0, dev1))"

section \<open>The thread and the queue of the block layer\<close>

text \<open>One round of \<open>vcablk_disk_make_request_thread\<close> after its wait: a null pointer stops the kernel.\<close>

definition disk_thread_round :: "disk_env \<Rightarrow> vcablk_disk \<Rightarrow> vcablk_disk option" where
  "disk_thread_round env dev =
     (if req_ring_head dev = req_ring_tail dev then Some dev
      else
        let req = req_ring dev ! req_ring_tail dev;
            dev1 = dev\<lparr>req_ring_tail := (req_ring_tail dev + 1) mod REQ_RING_SIZE\<rparr>
        in case req of
             None \<Rightarrow> None
           | Some r \<Rightarrow> map_option snd (vcablk_disk_async_request env r dev1))"

text \<open>The status \<open>BLK_STS_OK\<close> is returned also for a request that is dropped.\<close>

datatype blk_status = BLK_STS_OK | BLK_STS_IOERR

definition vcablk_disk_request_fn :: "request \<Rightarrow> vcablk_disk \<Rightarrow> blk_status \<times> vcablk_disk" where
  "vcablk_disk_request_fn req dev =
     (let new_head = (req_ring_head dev + 1) mod REQ_RING_SIZE in
      (BLK_STS_OK,
       if new_head = req_ring_tail dev then dev
       else dev\<lparr>req_ring := (req_ring dev)[req_ring_head dev := Some req], req_ring_head := new_head\<rparr>))"

section \<open>Completions\<close>

text \<open>One round of the loop: the element is cleared and released before its values are used.\<close>

definition disk_completion_round :: "vcablk_disk \<Rightarrow> vcablk_disk option" where
  "disk_completion_round dev =
     (let ring = completion_ring dev;
          used = last_used ring;
          ack = VCABLK_RING_GET_OBJ used (num_elems ring) (elems ring);
          ring1 = (ring_upd used (\<lambda>a. a\<lparr>ack_cookie := 0, ack_ret := 0\<rparr>) ring)
                    \<lparr>last_used := VCA_RB_COUNTER_ADD used 1 (num_elems ring)\<rparr>
      in vcablk_disk_request_done (dev\<lparr>completion_ring := ring1\<rparr>) (ack_cookie ack) (uint (ack_ret ack)))"

partial_function (option) vcablk_disk_request_completion_handler :: "vcablk_disk \<Rightarrow> vcablk_disk option" where
  "vcablk_disk_request_completion_handler dev =
     (if last_used (completion_ring dev) \<noteq> last_add (completion_ring dev)
      then (case disk_completion_round dev of
              None \<Rightarrow> None
            | Some dev1 \<Rightarrow> vcablk_disk_request_completion_handler dev1)
      else Some dev)"

end
