(* ===== verification/Vcablk_Disk_Facts.thy ===== *)
theory Vcablk_Disk_Facts
  imports Vcablk_Disk
begin

unbundle bit_operations_syntax

text \<open>
  What the operations of the card's block device do. The request ring is seen as two queues: the elements
  that the other side sees, and those together with the elements that are allocated but not yet started.
\<close>

section \<open>The request ring of the producer\<close>

definition alloc_ring :: "vcablk_disk \<Rightarrow> vcablk_request vcablk_ring" where
  "alloc_ring d = (request_ring d)\<lparr>last_add := request_ring_alloc d\<rparr>"

text \<open>The ring has the elements \<open>pub @ u\<close>, of which \<open>u\<close> are not yet started; \<open>fl\<close> are the free contexts.\<close>

definition front_ok :: "vcablk_disk \<Rightarrow> vcablk_request list \<Rightarrow> vcablk_request list \<Rightarrow> nat list \<Rightarrow> bool" where
  "front_ok d pub u fl \<longleftrightarrow>
     ring_ok (request_ring d) \<and> ring_queue_of (request_ring d) = pub \<and>
     ring_ok (alloc_ring d) \<and> ring_queue_of (alloc_ring d) = pub @ u \<and>
     pool_rel (bio_context_pool d) fl"

text \<open>Fields that the producer leaves alone.\<close>

definition kept :: "vcablk_disk \<Rightarrow> vcablk_disk \<Rightarrow> bool" where
  "kept d d' \<longleftrightarrow> completion_ring d' = completion_ring d \<and> split_request_error d' = split_request_error d \<and>
     ended d' = ended d \<and> num_elems (request_ring d') = num_elems (request_ring d) \<and>
     last_used (request_ring d') = last_used (request_ring d) \<and>
     p_num (bio_context_pool d') = p_num (bio_context_pool d)"

lemma kept_refl [simp]: "kept d d"
  by (simp add: kept_def)

lemma kept_trans: "kept d d' \<Longrightarrow> kept d' d'' \<Longrightarrow> kept d d''"
  by (simp add: kept_def)

lemma window_take:
  "rb.used n h t \<le> rb.used n h t' \<Longrightarrow> rb.window n es h t = take (rb.used n h t) (rb.window n es h t')"
  by (rule nth_equalityI) (simp_all add: rb.window_def)

lemma alloc_not_full:
  assumes "front_ok d pub u fl" "length (pub @ u) < unat (num_elems (request_ring d))"
  shows "\<not> request_ring_full d"
  using assms ring_full_iff [of "alloc_ring d"] by (simp add: front_ok_def request_ring_full_def alloc_ring_def)

lemma front_alloc:
  assumes "front_ok d pub [] fl"
  shows "request_ring_alloc d = last_add (request_ring d)"
proof -
  let ?r = "request_ring d"
  have w: "rb.wf (num_elems ?r) (last_used ?r) (last_add ?r)" "rb.wf (num_elems ?r) (last_used ?r) (request_ring_alloc d)"
    and q: "ring_queue_of (alloc_ring d) = ring_queue_of ?r"
    using assms by (auto simp: front_ok_def ring_ok_def alloc_ring_def)
  have "rb.used (num_elems ?r) (last_used ?r) (last_add ?r) = rb.used (num_elems ?r) (last_used ?r) (request_ring_alloc d)"
    using arg_cong [OF q, of length] by (simp add: alloc_ring_def ring_queue_of_def)
  with w show ?thesis
    by (intro unat_inj) (auto simp: rb.wf_def rb.used_def mod_if split: if_splits)
qed

text \<open>A new element is appended, the elements that are seen stay.\<close>

lemma front_push:
  assumes "front_ok d pub u fl" "length (pub @ u) < unat (num_elems (request_ring d))"
    and "request_ring d' = (request_ring d)\<lparr>elems := (elems (request_ring d))
           [VCA_RB_COUNTER_TO_IDX (request_ring_alloc d) (num_elems (request_ring d)) := x]\<rparr>"
    and "request_ring_alloc d' = VCA_RB_COUNTER_ADD (request_ring_alloc d) 1 (num_elems (request_ring d))"
    and "pool_rel (bio_context_pool d') fl"
  shows "front_ok d' pub (u @ [x]) fl"
proof -
  have r: "ring_ok (alloc_ring d)" "ring_queue_of (alloc_ring d) = pub @ u" "ring_ok (request_ring d)"
    "ring_queue_of (request_ring d) = pub" using assms(1) by (auto simp: front_ok_def)
  have a: "alloc_ring d' = (alloc_ring d)\<lparr>elems := (elems (alloc_ring d))
        [VCA_RB_COUNTER_TO_IDX (last_add (alloc_ring d)) (num_elems (alloc_ring d)) := x],
       last_add := VCA_RB_COUNTER_ADD (last_add (alloc_ring d)) 1 (num_elems (alloc_ring d))\<rparr>"
    by (simp add: alloc_ring_def assms(3,4))
  have p: "ring_ok (alloc_ring d')" "ring_queue_of (alloc_ring d') = (pub @ u) @ [x]"
    using ring_push [OF r(1), of x] r(2) assms(2) unfolding a by (simp_all add: alloc_ring_def)
  have "ring_queue_of (request_ring d') = take (length pub) (ring_queue_of (alloc_ring d'))"
  proof -
    have "rb.used (num_elems (request_ring d)) (last_used (request_ring d)) (last_add (request_ring d)) = length pub"
      "rb.used (num_elems (alloc_ring d')) (last_used (alloc_ring d')) (last_add (alloc_ring d')) = length (pub @ u @ [x])"
      using arg_cong [OF r(4), of length] arg_cong [OF p(2), of length] by (simp_all add: ring_queue_of_def)
    then show ?thesis
      using window_take [of "num_elems (request_ring d)" "last_used (request_ring d)" "last_add (request_ring d)" "request_ring_alloc d'"
          "elems (request_ring d')"] by (simp add: ring_queue_of_def alloc_ring_def assms(3))
  qed
  then show ?thesis using p r(3) assms(3,5) by (simp add: front_ok_def ring_ok_def)
qed

lemma front_start:
  assumes "front_ok d pub u fl" "u \<noteq> []"
  shows "\<exists>d'. vcablk_disk_request_start d = (0, d') \<and> front_ok d' (pub @ u) [] fl \<and> kept d d' \<and>
    bio_context_pool d' = bio_context_pool d \<and> dma_maps d' = dma_maps d"
proof -
  have "last_add (request_ring d) \<noteq> request_ring_alloc d"
  proof
    assume "last_add (request_ring d) = request_ring_alloc d"
    then have "alloc_ring d = request_ring d" by (simp add: alloc_ring_def)
    with assms show False by (auto simp: front_ok_def)
  qed
  then show ?thesis
    using assms(1) by (simp add: vcablk_disk_request_start_def front_ok_def kept_def alloc_ring_def)
qed

section \<open>One element\<close>

lemma ctx_upd_simps [simp]:
  "request_ring (ctx_upd i f d) = request_ring d" "request_ring_alloc (ctx_upd i f d) = request_ring_alloc d"
  "dma_maps (ctx_upd i f d) = dma_maps d" "kept (ctx_upd i f d) d' = kept d d'" "kept d' (ctx_upd i f d) = kept d' d"
  "p_num (bio_context_pool (ctx_upd i f d)) = p_num (bio_context_pool d)"
  "pool_rel (bio_context_pool (ctx_upd i f d)) fl = pool_rel (bio_context_pool d) fl"
  by (auto simp: ctx_upd_def kept_def)

lemma front_ok_ctx_upd [simp]: "front_ok (ctx_upd i f d) pub u fl = front_ok d pub u fl"
  by (simp add: front_ok_def alloc_ring_def)

lemma ctx_ctx_upd:
  "pool_rel (bio_context_pool d) fl \<Longrightarrow> i < unat (p_num (bio_context_pool d)) \<Longrightarrow> ctx (ctx_upd i f d) = (ctx d)(i := f (ctx d i))"
  by (simp add: ctx_def ctx_upd_def data_upd rel_alloc)

lemma alloc_next_ok:
  assumes "front_ok d pub u fl" "length (pub @ u) < unat (num_elems (request_ring d))"
  shows "vcablk_disk_request_alloc_next env d = Some (Some (request_ring_alloc d),
     d\<lparr>request_ring_alloc := VCA_RB_COUNTER_ADD (request_ring_alloc d) 1 (num_elems (request_ring d))\<rparr>)"
  using alloc_not_full [OF assms]
  by (simp add: vcablk_disk_request_alloc_next_def request_ring_wait.simps [of env d])

lemma step_sync:
  assumes "front_ok d pub u fl" "length (pub @ u) < unat (num_elems (request_ring d))"
  shows "\<exists>d' r. vcablk_disk_request_step env d None i REQUEST_SYNC 0 0 = Some (0, d') \<and> front_ok d' pub (u @ [r]) fl \<and>
    rq_type r = REQUEST_SYNC \<and> rq_cookie r = bc_id (ctx d i) \<and> kept d d' \<and>
    bio_context_pool d' = bio_context_pool d \<and> dma_maps d' = dma_maps d"
proof -
  let ?i = "VCA_RB_COUNTER_TO_IDX (request_ring_alloc d) (num_elems (request_ring d))"
  let ?r = "(elems (request_ring d) ! ?i)\<lparr>rq_type := REQUEST_SYNC, rq_cookie := bc_id (ctx d i)\<rparr>"
  let ?d = "d\<lparr>request_ring_alloc := VCA_RB_COUNTER_ADD (request_ring_alloc d) 1 (num_elems (request_ring d)),
     request_ring := (request_ring d)\<lparr>elems := (elems (request_ring d))[?i := ?r]\<rparr>\<rparr>"
  have "vcablk_disk_request_step env d None i REQUEST_SYNC 0 0 = Some (0, ?d)"
    using alloc_next_ok [OF assms] by (simp add: vcablk_disk_request_step_def request_upd_def ring_upd_def Let_def ctx_def)
  moreover have "front_ok ?d pub (u @ [?r]) fl"
    by (rule front_push [OF assms]) (use assms(1) in \<open>simp_all add: front_ok_def\<close>)
  ultimately show ?thesis by (intro exI [of _ ?d] exI [of _ ?r]) (simp add: kept_def)
qed

text \<open>Every page can be mapped, at the address \<open>pa\<close>.\<close>

definition maps_pages :: "disk_env \<Rightarrow> (bio_vec \<Rightarrow> u64) \<Rightarrow> bool" where
  "maps_pages env pa \<longleftrightarrow> (\<forall>d bv w. dma_map_page env d bv w = Some (pa bv) \<and> pa bv \<noteq> 0)"

definition data_request :: "(bio_vec \<Rightarrow> u64) \<Rightarrow> u8 \<Rightarrow> u64 \<Rightarrow> bio_vec \<Rightarrow> u16 \<Rightarrow> vcablk_request" where
  "data_request pa typ sector bv cookie =
     \<lparr>rq_phys_buff = pa bv, rq_sector = sector, rq_sectors_num = ucast (drop_bit 9 (bv_len bv)), rq_cookie = cookie, rq_type = typ\<rparr>"

lemma step_data:
  assumes "front_ok d pub u fl" "length (pub @ u) < unat (num_elems (request_ring d))" "maps_pages env pa"
    and "typ \<in> {REQUEST_READ, REQUEST_WRITE}" "i < unat (p_num (bio_context_pool d))" "length (bvec_ctxs (ctx d i)) < 32"
  shows "\<exists>d'. vcablk_disk_request_step env d (Some bv) i typ sector (ucast (drop_bit 9 (bv_len bv))) = Some (0, d') \<and>
    front_ok d' pub (u @ [data_request pa typ sector bv (bc_id (ctx d i))]) fl \<and> kept d d' \<and>
    ctx d' = (ctx d)(i := (ctx d i)\<lparr>bvec_ctxs := bvec_ctxs (ctx d i) @ [\<lparr>bvc_dma_addr = pa bv, bvc_size = bv_len bv, bvc_write = (typ = REQUEST_WRITE)\<rparr>]\<rparr>) \<and>
    dma_maps d' = add_mset (pa bv) (dma_maps d)"
proof -
  let ?i = "VCA_RB_COUNTER_TO_IDX (request_ring_alloc d) (num_elems (request_ring d))"
  let ?r = "data_request pa typ sector bv (bc_id (ctx d i))"
  let ?f = "\<lambda>c. c\<lparr>bvec_ctxs := bvec_ctxs c @ [\<lparr>bvc_dma_addr = pa bv, bvc_size = bv_len bv, bvc_write = (typ = REQUEST_WRITE)\<rparr>]\<rparr>"
  let ?d = "d\<lparr>request_ring_alloc := VCA_RB_COUNTER_ADD (request_ring_alloc d) 1 (num_elems (request_ring d)),
     request_ring := (request_ring d)\<lparr>elems := (elems (request_ring d))[?i := ?r]\<rparr>,
     bio_context_pool := pool_upd i ?f (bio_context_pool d), dma_maps := add_mset (pa bv) (dma_maps d)\<rparr>"
  have rel: "pool_rel (bio_context_pool d) fl" using assms(1) by (simp add: front_ok_def)
  have len: "?i < length (elems (request_ring d))"
    using assms(1) rb.idx_less [of "num_elems (request_ring d)" "request_ring_alloc d"]
    by (auto simp: front_ok_def ring_ok_def rb.wf_def alloc_ring_def)
  have eq: "(elems (request_ring d) ! ?i)\<lparr>rq_type := typ, rq_cookie := bc_id (ctx d i), rq_sectors_num := ucast (drop_bit 9 (bv_len bv)),
     rq_sector := sector, rq_phys_buff := pa bv\<rparr> = ?r" by (simp add: data_request_def)
  have "vcablk_disk_request_step env d (Some bv) i typ sector (ucast (drop_bit 9 (bv_len bv))) = Some (0, ?d)"
    using alloc_next_ok [OF assms(1,2)] assms(3,4,6) len eq
    by (auto simp: vcablk_disk_request_step_def request_upd_def ring_upd_def Let_def ctx_def ctx_upd_def maps_pages_def
        vcablk_disk_map_page_def VCABLK_BIO_SPLIT_SIZE_def)
  moreover have "front_ok ?d pub (u @ [?r]) fl"
    by (rule front_push [OF assms(1,2)]) (use rel in simp_all)
  moreover have "ctx ?d = (ctx d)(i := ?f (ctx d i))" using assms(5) rel_alloc [OF rel] by (simp add: ctx_def data_upd)
  ultimately show ?thesis by (intro exI [of _ ?d]) (simp add: kept_def)
qed

lemma get_context_ok:
  assumes "front_ok d pub u (i # fl)" "fl \<noteq> []"
  shows "\<exists>d'. vcablk_disk_get_bio_context env d = Some (Some i, d') \<and> front_ok d' pub u fl \<and> kept d d' \<and> dma_maps d' = dma_maps d \<and>
    ctx d' = (ctx d)(i := \<lparr>bc_id = word_of_nat i + 1, bc_req = None, bvec_ctxs = []\<rparr>)"
proof -
  have rel: "pool_rel (bio_context_pool d) (i # fl)" using assms(1) by (simp add: front_ok_def)
  obtain p where p: "vcablk_pool_pop (bio_context_pool d) = Some (i, p)" "pool_rel p fl" "p_num p = p_num (bio_context_pool d)"
    using pop_rel [OF rel assms(2)] by blast
  have i: "i < unat (p_num p)" using rel p(3) by (simp add: pool_rel_def)
  have av: "vcablk_is_available (bio_context_pool d)"
    using p(1) by (auto simp: vcablk_is_available_def vcablk_pool_pop_def split: if_splits)
  let ?f = "\<lambda>c. \<lparr>bc_id = word_of_nat i + 1, bc_req = None, bvec_ctxs = []\<rparr>"
  let ?d = "ctx_upd i ?f (d\<lparr>bio_context_pool := p\<rparr>)"
  have "vcablk_disk_get_bio_context env d = Some (Some i, ?d)"
    using av p(1) by (simp add: vcablk_disk_get_bio_context_def bio_context_wait.simps [of env d] Let_def)
  moreover have "front_ok ?d pub u fl"
    using assms(1) p(2) by (simp add: front_ok_def alloc_ring_def)
  moreover have "ctx ?d = (ctx d)(i := \<lparr>bc_id = word_of_nat i + 1, bc_req = None, bvec_ctxs = []\<rparr>)"
    using ctx_ctx_upd [of "d\<lparr>bio_context_pool := p\<rparr>" fl i ?f] p(2) i pop_data [OF p(1)] by (simp add: ctx_def)
  moreover have "kept d ?d" "dma_maps ?d = dma_maps d" using p(3) by (simp_all add: kept_def ctx_upd_def)
  ultimately show ?thesis by blast
qed

section \<open>The segments of a request\<close>

text \<open>The elements that the segments of a request stand for.\<close>

fun seg_parts :: "(bio_vec \<Rightarrow> u64) \<Rightarrow> u8 \<Rightarrow> u64 \<Rightarrow> bio_vec list \<Rightarrow> (u8 \<times> u64 \<times> u64 \<times> u64) list" where
  "seg_parts pa typ sector [] = []"
| "seg_parts pa typ sector (bv # bvs) =
     (let n = ucast (drop_bit 9 (bv_len bv)) in (typ, sector, n, pa bv) # seg_parts pa typ (sector + n) bvs)"

text \<open>A group is a context with the elements that carry its cookie.\<close>

type_synonym group = "nat \<times> vcablk_request list"

definition ctx_group :: "vcablk_disk \<Rightarrow> group \<Rightarrow> bool" where
  "ctx_group d g \<longleftrightarrow>
     bc_id (ctx d (fst g)) = word_of_nat (fst g) + 1 \<and> bc_req (ctx d (fst g)) = None \<and>
     map bvc_dma_addr (bvec_ctxs (ctx d (fst g))) = map rq_phys_buff (filter is_data (snd g)) \<and>
     length (filter is_data (snd g)) \<le> 32 \<and> (\<forall>r \<in> set (snd g). rq_cookie r = word_of_nat (fst g) + 1)"

text \<open>
  The segments were distributed to groups: the first one goes on with \<open>u\<close>, the others have contexts from the
  free list; all but the last are started.
\<close>

definition prepared ::
    "vcablk_disk \<Rightarrow> vcablk_request list \<Rightarrow> nat \<Rightarrow> vcablk_request list \<Rightarrow> nat list \<Rightarrow> (u8 \<times> u64 \<times> u64 \<times> u64) list \<Rightarrow>
     group list \<Rightarrow> vcablk_disk \<Rightarrow> bool" where
  "prepared d pub i u fl parts G d' \<longleftrightarrow>
     (\<exists>n1 G'. G = (i, u @ n1) # G' \<and> map part_of (n1 @ concat (map snd G')) = parts \<and>
        dma_maps d' = dma_maps d + mset (map rq_phys_buff (n1 @ concat (map snd G'))) \<and>
        map fst G' = take (length G') fl \<and> length G' < length fl \<and>
        front_ok d' (pub @ concat (map snd (butlast G))) (snd (last G)) (drop (length G') fl)) \<and>
     (parts \<noteq> [] \<or> filter is_data u \<noteq> [] \<longrightarrow> (\<forall>g \<in> set G. filter is_data (snd g) \<noteq> [])) \<and>
     (\<forall>g \<in> set G. ctx_group d' g) \<and> (\<forall>k. k \<notin> fst ` set G \<longrightarrow> ctx d' k = ctx d k) \<and> kept d d'"

lemma ctx_groupD:
  assumes "ctx_group d (i, u)"
  shows "bc_id (ctx d i) = word_of_nat i + 1" "length (bvec_ctxs (ctx d i)) = length (filter is_data u)"
  using assms arg_cong [of _ _ length] by (auto simp: ctx_group_def dest: arg_cong [where f = length])

lemma step_group:
  assumes "front_ok d pub u fl" "length (pub @ u) < unat (num_elems (request_ring d))" "maps_pages env pa"
    and "typ \<in> {REQUEST_READ, REQUEST_WRITE}" "i < unat (p_num (bio_context_pool d))"
    and "ctx_group d (i, u)" "length (filter is_data u) < 32"
  shows "\<exists>d' r. vcablk_disk_request_step env d (Some bv) i typ sector (ucast (drop_bit 9 (bv_len bv))) = Some (0, d') \<and>
    front_ok d' pub (u @ [r]) fl \<and> kept d d' \<and> ctx_group d' (i, u @ [r]) \<and> (\<forall>k. k \<noteq> i \<longrightarrow> ctx d' k = ctx d k) \<and>
    part_of r = (typ, sector, ucast (drop_bit 9 (bv_len bv)), pa bv) \<and> is_data r \<and>
    dma_maps d' = add_mset (rq_phys_buff r) (dma_maps d)"
proof -
  let ?r = "data_request pa typ sector bv (bc_id (ctx d i))"
  note g = ctx_groupD [OF assms(6)]
  obtain d' where d': "vcablk_disk_request_step env d (Some bv) i typ sector (ucast (drop_bit 9 (bv_len bv))) = Some (0, d')"
    "front_ok d' pub (u @ [?r]) fl" "kept d d'" "dma_maps d' = add_mset (pa bv) (dma_maps d)"
    "ctx d' = (ctx d)(i := (ctx d i)\<lparr>bvec_ctxs := bvec_ctxs (ctx d i) @
       [\<lparr>bvc_dma_addr = pa bv, bvc_size = bv_len bv, bvc_write = (typ = REQUEST_WRITE)\<rparr>]\<rparr>)"
    using step_data [OF assms(1-5), of bv sector] assms(7) g(2) by auto
  have r: "is_data ?r" "rq_cookie ?r = word_of_nat i + 1" "rq_phys_buff ?r = pa bv"
    "part_of ?r = (typ, sector, ucast (drop_bit 9 (bv_len bv)), pa bv)"
    using assms(4) g(1) by (auto simp: data_request_def is_data_def request_types part_of_def)
  have "ctx_group d' (i, u @ [?r])"
    using assms(6,7) r by (auto simp: ctx_group_def d'(5))
  then show ?thesis using d' r by (intro exI [of _ d'] exI [of _ ?r]) simp
qed

lemma kept_num [simp]: "kept d d' \<Longrightarrow> num_elems (request_ring d') = num_elems (request_ring d)"
  "kept d d' \<Longrightarrow> p_num (bio_context_pool d') = p_num (bio_context_pool d)"
  by (simp_all add: kept_def)

lemma ctx_group_cong: "ctx_group d g \<Longrightarrow> ctx d' (fst g) = ctx d (fst g) \<Longrightarrow> ctx_group d' g"
  by (simp add: ctx_group_def)

lemma preparedD:
  assumes "prepared d pub i u fl parts G d'"
  shows "g \<in> set G \<Longrightarrow> ctx_group d' g" "k \<notin> fst ` set G \<Longrightarrow> ctx d' k = ctx d k" "kept d d'" "G \<noteq> []"
    "parts \<noteq> [] \<or> filter is_data u \<noteq> [] \<Longrightarrow> g \<in> set G \<Longrightarrow> filter is_data (snd g) \<noteq> []"
  using assms by (auto simp: prepared_def)

lemma preparedI:
  assumes "G = (i, u @ n1) # G'" "map part_of (n1 @ concat (map snd G')) = parts"
    "dma_maps d' = dma_maps d + mset (map rq_phys_buff (n1 @ concat (map snd G')))"
    "map fst G' = take (length G') fl" "length G' < length fl"
    "front_ok d' (pub @ concat (map snd (butlast G))) (snd (last G)) (drop (length G') fl)"
    "\<And>g. g \<in> set G \<Longrightarrow> ctx_group d' g" "\<And>k. k \<notin> fst ` set G \<Longrightarrow> ctx d' k = ctx d k" "kept d d'"
    "\<And>g. parts \<noteq> [] \<or> filter is_data u \<noteq> [] \<Longrightarrow> g \<in> set G \<Longrightarrow> filter is_data (snd g) \<noteq> []"
  shows "prepared d pub i u fl parts G d'"
  unfolding prepared_def using assms by blast

lemma prepared_step:
  assumes "prepared d1 pub i (u @ [r]) fl parts G d'" "kept d d1" "\<forall>k. k \<noteq> i \<longrightarrow> ctx d1 k = ctx d k"
    and "dma_maps d1 = add_mset (rq_phys_buff r) (dma_maps d)" "is_data r"
  shows "prepared d pub i u fl (part_of r # parts) G d'"
proof -
  obtain n1 G' where g: "G = (i, (u @ [r]) @ n1) # G'" "map part_of (n1 @ concat (map snd G')) = parts"
    "dma_maps d' = dma_maps d1 + mset (map rq_phys_buff (n1 @ concat (map snd G')))"
    "map fst G' = take (length G') fl" "length G' < length fl"
    "front_ok d' (pub @ concat (map snd (butlast G))) (snd (last G)) (drop (length G') fl)"
    using assms(1) unfolding prepared_def by blast
  show ?thesis
  proof (rule preparedI [OF _ _ _ g(4-6)])
    show "G = (i, u @ r # n1) # G'" "map part_of ((r # n1) @ concat (map snd G')) = part_of r # parts"
      "dma_maps d' = dma_maps d + mset (map rq_phys_buff ((r # n1) @ concat (map snd G')))"
      using g(1-3) assms(4) by simp_all
    show "ctx d' k = ctx d k" if "k \<notin> fst ` set G" for k
      using preparedD(2) [OF assms(1) that] assms(3) that g(1) by simp
    show "filter is_data (snd x) \<noteq> []" if "x \<in> set G" for x using preparedD(5) [OF assms(1) _ that] assms(5) by simp
    show "ctx_group d' x" if "x \<in> set G" for x by (rule preparedD(1) [OF assms(1) that])
    show "kept d d'" by (rule kept_trans [OF assms(2) preparedD(3) [OF assms(1)]])
  qed
qed

lemma prepared_split:
  assumes "prepared d1 (pub @ u) j [] fl parts G d'" "kept d d1" "\<forall>k. k \<noteq> j \<longrightarrow> ctx d1 k = ctx d k"
    and "dma_maps d1 = dma_maps d" "ctx_group d (i, u)" "i \<noteq> j" "i \<notin> set fl"
    and "parts \<noteq> []" "filter is_data u \<noteq> []"
  shows "prepared d pub i u (j # fl) parts ((i, u) # G) d'"
proof -
  obtain n1 G' where g: "G = (j, [] @ n1) # G'" "map part_of (n1 @ concat (map snd G')) = parts"
    "dma_maps d' = dma_maps d1 + mset (map rq_phys_buff (n1 @ concat (map snd G')))"
    "map fst G' = take (length G') fl" "length G' < length fl"
    "front_ok d' ((pub @ u) @ concat (map snd (butlast G))) (snd (last G)) (drop (length G') fl)"
    using assms(1) unfolding prepared_def by blast
  have c: "fst ` set G \<subseteq> insert j (set fl)"
    using g(1) arg_cong [OF g(4), of set] set_take_subset by force
  then have "ctx d' i = ctx d1 i" using preparedD(2) [OF assms(1), of i] assms(6,7) by blast
  then have gi: "ctx_group d' (i, u)" using assms(3,5,6) by (intro ctx_group_cong [OF assms(5)]) simp
  show ?thesis
  proof (rule preparedI)
    show "(i, u) # G = (i, u @ []) # G" "map part_of ([] @ concat (map snd G)) = parts"
      "dma_maps d' = dma_maps d + mset (map rq_phys_buff ([] @ concat (map snd G)))"
      "map fst G = take (length G) (j # fl)" "length G < length (j # fl)"
      "front_ok d' (pub @ concat (map snd (butlast ((i, u) # G)))) (snd (last ((i, u) # G))) (drop (length G) (j # fl))"
      using g assms(4) by simp_all
    show "ctx_group d' x" if "x \<in> set ((i, u) # G)" for x using that gi preparedD(1) [OF assms(1)] by (metis set_ConsD)
    show "filter is_data (snd x) \<noteq> []" if "x \<in> set ((i, u) # G)" for x
      using that preparedD(5) [OF assms(1), of x] assms(8,9) by auto
    show "ctx d' k = ctx d k" if "k \<notin> fst ` set ((i, u) # G)" for k
      using preparedD(2) [OF assms(1), of k] assms(3) that g(1) by simp
    show "kept d d'" by (rule kept_trans [OF assms(2) preparedD(3) [OF assms(1)]])
  qed
qed

lemma segments_ok:
  assumes "maps_pages env pa" "typ \<in> {REQUEST_READ, REQUEST_WRITE}"
    and "front_ok d pub u fl" "i < unat (p_num (bio_context_pool d))" "i \<notin> set fl" "ctx_group d (i, u)"
    and "length (pub @ u) + length segs \<le> unat (num_elems (request_ring d))"
    and "(length (filter is_data u) + length segs - 1) div 32 < length fl"
  shows "\<exists>G prev' d'. disk_segments env typ segs sector i prev d = Some (0, Some (fst (last G)), prev', d') \<and>
    prepared d pub i u fl (seg_parts pa typ sector segs) G d'"
  using assms(3-8)
proof (induction segs arbitrary: d pub u fl i prev sector)
  case Nil
  then have "prepared d pub i u fl (seg_parts pa typ sector []) [(i, u)] d" by (auto simp: prepared_def)
  moreover have "disk_segments env typ [] sector i prev d = Some (0, Some (fst (last [(i, u)])), prev, d)" by simp
  ultimately show ?case by blast
next
  case (Cons bv segs)
  let ?n = "ucast (drop_bit 9 (bv_len bv)) :: u64"
  note cnt = ctx_groupD(2) [OF Cons.prems(4)]
  show ?case
  proof (cases "length (filter is_data u) < 32")
    case True
    obtain d1 r where r: "vcablk_disk_request_step env d (Some bv) i typ sector ?n = Some (0, d1)" "front_ok d1 pub (u @ [r]) fl"
      "kept d d1" "ctx_group d1 (i, u @ [r])" "\<forall>k. k \<noteq> i \<longrightarrow> ctx d1 k = ctx d k" "part_of r = (typ, sector, ?n, pa bv)"
      "is_data r" "dma_maps d1 = add_mset (rq_phys_buff r) (dma_maps d)"
      using step_group [OF Cons.prems(1) _ assms(1,2) Cons.prems(2,4) True, of bv sector] Cons.prems(5) by auto
    have "\<exists>G prev' d'. disk_segments env typ segs (sector + ?n) i prev d1 = Some (0, Some (fst (last G)), prev', d') \<and>
        prepared d1 pub i (u @ [r]) fl (seg_parts pa typ (sector + ?n) segs) G d'"
      by (rule Cons.IH) (use r Cons.prems in auto)
    then obtain G prev' d' where "disk_segments env typ segs (sector + ?n) i prev d1 = Some (0, Some (fst (last G)), prev', d')"
      "prepared d1 pub i (u @ [r]) fl (seg_parts pa typ (sector + ?n) segs) G d'" by blast
    moreover from this(2) have "prepared d pub i u fl (seg_parts pa typ sector (bv # segs)) G d'"
      using prepared_step [OF _ r(3,5,8,7)] r(6) by (simp add: Let_def)
    moreover have "disk_split env i prev d = Some (0, Some i, prev, d)"
      using True cnt by (simp add: disk_split_def VCABLK_BIO_SPLIT_SIZE_def)
    ultimately show ?thesis using r(1) by (intro exI [of _ G]) (simp add: Let_def)
  next
    case False
    then have full: "length (filter is_data u) = 32" using Cons.prems(4) by (simp add: ctx_group_def)
    then have une: "u \<noteq> []" by auto
    have "1 < length fl" using Cons.prems(6) full by simp
    then obtain j fl' where fl: "fl = j # fl'" "fl' \<noteq> []" by (cases fl; cases "tl fl") auto
    obtain d1 where d1: "vcablk_disk_request_start d = (0, d1)" "front_ok d1 (pub @ u) [] fl" "kept d d1"
      "bio_context_pool d1 = bio_context_pool d" "dma_maps d1 = dma_maps d"
      using front_start [OF Cons.prems(1) une] by blast
    obtain d2 where d2: "vcablk_disk_get_bio_context env d1 = Some (Some j, d2)" "front_ok d2 (pub @ u) [] fl'" "kept d1 d2"
      "dma_maps d2 = dma_maps d1" "ctx d2 = (ctx d1)(j := \<lparr>bc_id = word_of_nat j + 1, bc_req = None, bvec_ctxs = []\<rparr>)"
      using get_context_ok [of d1 "pub @ u" "[]" j fl' env] d1(2) fl by blast
    have rel: "pool_rel (bio_context_pool d) fl" using Cons.prems(1) by (simp add: front_ok_def)
    have j: "j < unat (p_num (bio_context_pool d2))" "j \<notin> set fl'" "i \<noteq> j" "i \<notin> set fl'"
      using rel fl d1(3) d2(3) Cons.prems(3) by (auto simp: pool_rel_def)
    have k2: "kept d d2" by (rule kept_trans [OF d1(3) d2(3)])
    have g2: "ctx_group d2 (j, [])" by (simp add: ctx_group_def d2(5))
    obtain d3 r where r: "vcablk_disk_request_step env d2 (Some bv) j typ sector ?n = Some (0, d3)" "front_ok d3 (pub @ u) ([] @ [r]) fl'"
      "kept d2 d3" "ctx_group d3 (j, [] @ [r])" "\<forall>k. k \<noteq> j \<longrightarrow> ctx d3 k = ctx d2 k" "part_of r = (typ, sector, ?n, pa bv)"
      "is_data r" "dma_maps d3 = add_mset (rq_phys_buff r) (dma_maps d2)"
      using step_group [OF d2(2) _ assms(1,2) j(1) g2, of bv sector] Cons.prems(5) k2 by auto
    have "(32 + length segs) div 32 = Suc (length segs div 32)" by simp
    then have nf: "length segs div 32 < length fl'" using Cons.prems(6) full fl by simp
    have "\<exists>G prev' d'. disk_segments env typ segs (sector + ?n) j (Some i) d3 = Some (0, Some (fst (last G)), prev', d') \<and>
        prepared d3 (pub @ u) j ([] @ [r]) fl' (seg_parts pa typ (sector + ?n) segs) G d'"
      by (rule Cons.IH) (use r j nf Cons.prems(5) k2 in auto)
    then obtain G prev' d' where G: "disk_segments env typ segs (sector + ?n) j (Some i) d3 = Some (0, Some (fst (last G)), prev', d')"
      "prepared d3 (pub @ u) j ([] @ [r]) fl' (seg_parts pa typ (sector + ?n) segs) G d'" by blast
    have "prepared d2 (pub @ u) j [] fl' (seg_parts pa typ sector (bv # segs)) G d'"
      using prepared_step [OF G(2) r(3,5,8,7)] r(6) by (simp add: Let_def)
    then have P: "prepared d pub i u fl (seg_parts pa typ sector (bv # segs)) ((i, u) # G) d'"
      unfolding fl by (rule prepared_split [OF _ k2 _ _ Cons.prems(4)]) (use d1 d2 j full in \<open>auto simp: ctx_def Let_def\<close>)
    have "G \<noteq> []" using G(2) by (auto simp: prepared_def)
    moreover have "disk_split env i prev d = Some (0, Some j, Some i, d2)"
      using full cnt d1(1) d2(1) by (simp add: disk_split_def VCABLK_BIO_SPLIT_SIZE_def)
    ultimately show ?thesis using r(1) G(1) P by (intro exI [of _ "(i, u) # G"]) (simp add: Let_def)
  qed
qed

section \<open>A whole request\<close>

text \<open>A group that the other side sees. The context of the last one of a request refers to the request.\<close>

definition sent :: "vcablk_disk \<Rightarrow> group \<Rightarrow> nat option \<Rightarrow> bool" where
  "sent d g req \<longleftrightarrow>
     bc_id (ctx d (fst g)) = word_of_nat (fst g) + 1 \<and> bc_req (ctx d (fst g)) = req \<and>
     map bvc_dma_addr (bvec_ctxs (ctx d (fst g))) = map rq_phys_buff (filter is_data (snd g)) \<and>
     length (filter is_data (snd g)) \<le> 32 \<and> (\<forall>r \<in> set (snd g). rq_cookie r = word_of_nat (fst g) + 1) \<and> shape (snd g)"

definition req_typ :: "request \<Rightarrow> u8" where
  "req_typ req = (if req_write req then REQUEST_WRITE else REQUEST_READ)"

lemma sync_ok:
  assumes "front_ok d pub u fl" "length (pub @ u) + (if do_sync req then 1 else 0) \<le> unat (num_elems (request_ring d))"
    and "ctx_group d (i, u)"
  shows "\<exists>d' s. disk_sync env req i d = Some (0, d') \<and> front_ok d' pub (u @ s) fl \<and> kept d d' \<and>
    bio_context_pool d' = bio_context_pool d \<and> dma_maps d' = dma_maps d \<and> ctx_group d' (i, u @ s) \<and>
    (\<forall>r \<in> set s. \<not> is_data r) \<and> length s = (if do_sync req then 1 else 0)"
proof (cases "do_sync req")
  case False
  with assms show ?thesis by (intro exI [of _ d] exI [of _ "[]"]) (simp add: disk_sync_def)
next
  case True
  then obtain d' r where r: "vcablk_disk_request_step env d None i REQUEST_SYNC 0 0 = Some (0, d')" "front_ok d' pub (u @ [r]) fl"
    "rq_type r = REQUEST_SYNC" "rq_cookie r = bc_id (ctx d i)" "kept d d'" "bio_context_pool d' = bio_context_pool d"
    "dma_maps d' = dma_maps d"
    using step_sync [OF assms(1), of env i] assms(2) by auto
  then have "ctx_group d' (i, u @ [r])" using assms(3) by (auto simp: ctx_group_def ctx_def is_data_def)
  with r True show ?thesis
    by (intro exI [of _ d'] exI [of _ "[r]"]) (auto simp: disk_sync_def is_data_def)
qed

lemma seg_parts_types: "map fst (seg_parts pa typ sector segs) = replicate (length segs) typ"
  by (induction segs arbitrary: sector) (simp_all add: Let_def)

lemma length_seg_parts [simp]: "length (seg_parts pa typ sector segs) = length segs"
  by (induction segs arbitrary: sector) (simp_all add: Let_def)

lemma typed_data:
  assumes "map part_of ps = seg_parts pa (req_typ req) sector segs"
  shows "\<forall>r \<in> set ps. is_data r"
proof -
  have "map rq_type ps = replicate (length segs) (req_typ req)"
    using arg_cong [OF assms, of "map fst"] by (simp add: seg_parts_types part_of_def comp_def)
  then have "\<forall>r \<in> set ps. rq_type r = req_typ req"
    by (metis in_set_replicate list.set_map image_eqI)
  then show ?thesis by (auto simp: is_data_def req_typ_def request_types split: if_splits)
qed

lemma shapeI:
  assumes "\<forall>r \<in> set (a @ b). \<not> is_data r" "\<forall>r \<in> set ds. is_data r" "length a \<le> 1" "length b \<le> 1" "filter is_data (a @ ds @ b) \<noteq> []"
  shows "shape (a @ ds @ b)"
proof -
  have "ds \<noteq> []" using assms(1,5) by (auto simp: filter_empty_conv)
  with assms show ?thesis unfolding shape_def by blast
qed

text \<open>
  The request was sent: its segments are behind the elements that were there, in groups whose contexts come
  from the free list in order.
\<close>

definition submitted ::
    "vcablk_disk \<Rightarrow> vcablk_request list \<Rightarrow> nat list \<Rightarrow> request \<Rightarrow> (bio_vec \<Rightarrow> u64) \<Rightarrow> group list \<Rightarrow> vcablk_disk \<Rightarrow> bool" where
  "submitted d pub fl req pa G d' \<longleftrightarrow>
     G \<noteq> [] \<and> map fst G = take (length G) fl \<and> length G < length fl \<and>
     front_ok d' (pub @ concat (map snd G)) [] (drop (length G) fl) \<and>
     map part_of (filter is_data (concat (map snd G))) = seg_parts pa (req_typ req) (req_sector req) (req_segs req) \<and>
     (\<forall>g \<in> set (butlast G). sent d' g None) \<and> sent d' (last G) (Some (req_id req)) \<and>
     (\<forall>k. k \<notin> fst ` set G \<longrightarrow> ctx d' k = ctx d k) \<and> kept d d' \<and>
     dma_maps d' = dma_maps d + mset (map rq_phys_buff (filter is_data (concat (map snd G))))"

lemma prepared_shapes:
  assumes "G = (i, s @ n1) # G'" "\<forall>r \<in> set (n1 @ concat (map snd G')). is_data r" "\<forall>r \<in> set s. \<not> is_data r"
    and "length s \<le> 1" "g \<in> set G"
  shows "\<exists>a ds. snd g = a @ ds \<and> (\<forall>r \<in> set a. \<not> is_data r) \<and> (\<forall>r \<in> set ds. is_data r) \<and> length a \<le> 1"
proof (cases "g = (i, s @ n1)")
  case True
  with assms show ?thesis by (intro exI [of _ s] exI [of _ n1]) auto
next
  case False
  with assms show ?thesis by (intro exI [of _ "[]"] exI [of _ "snd g"]) auto
qed

lemma filter_data:
  "\<forall>r \<in> set s. \<not> is_data r \<Longrightarrow> filter is_data s = []" "\<forall>r \<in> set s. is_data r \<Longrightarrow> filter is_data s = s"
  by (auto simp: filter_empty_conv filter_id_conv)

lemma concat_butlast: "G \<noteq> [] \<Longrightarrow> concat (map snd (butlast G)) @ snd (last G) = concat (map snd G)"
  by (induction G) auto

lemma prepare_ok:
  assumes maps: "maps_pages env pa" and fr: "front_ok d pub [] fl" and ne: "req_segs req \<noteq> []"
    and room: "length pub + length (req_segs req) + (if do_sync req then 2 else 0) \<le> unat (num_elems (request_ring d))"
    and free: "(length (req_segs req) - 1) div 32 + 1 < length fl"
  shows "\<exists>G prev d'. disk_prepare env req d = Some (0, Some (fst (last G)), prev, d') \<and> submitted d pub fl req pa G d'"
proof -
  obtain i fl1 where fl: "fl = i # fl1" "fl1 \<noteq> []" using free by (cases fl; cases "tl fl") auto
  obtain d1 where d1: "vcablk_disk_get_bio_context env d = Some (Some i, d1)" "front_ok d1 pub [] fl1" "kept d d1"
    "dma_maps d1 = dma_maps d" "ctx d1 = (ctx d)(i := \<lparr>bc_id = word_of_nat i + 1, bc_req = None, bvec_ctxs = []\<rparr>)"
    using get_context_ok [of d pub "[]" i fl1 env] fr fl by blast
  have g1: "ctx_group d1 (i, [])" by (simp add: ctx_group_def d1(5))
  obtain d2 s where d2: "disk_sync env req i d1 = Some (0, d2)" "front_ok d2 pub ([] @ s) fl1" "kept d1 d2"
    "bio_context_pool d2 = bio_context_pool d1" "dma_maps d2 = dma_maps d1" "ctx_group d2 (i, [] @ s)"
    "\<forall>r \<in> set s. \<not> is_data r" "length s = (if do_sync req then 1 else 0)"
    using sync_ok [OF d1(2) _ g1, of req env] room d1(3) by (auto split: if_splits)
  have rel: "pool_rel (bio_context_pool d) fl" using fr by (simp add: front_ok_def)
  have k2: "kept d d2" by (rule kept_trans [OF d1(3) d2(3)])
  have i: "i < unat (p_num (bio_context_pool d2))" "i \<notin> set fl1" "distinct fl" using rel fl k2 by (auto simp: pool_rel_def)
  let ?parts = "seg_parts pa (req_typ req) (req_sector req) (req_segs req)"
  have "\<exists>G prev' d'. disk_segments env (req_typ req) (req_segs req) (req_sector req) i None d2 =
      Some (0, Some (fst (last G)), prev', d') \<and> prepared d2 pub i s fl1 ?parts G d'"
    by (rule segments_ok [OF maps]) (use d1(3) d2 i room free fl in \<open>auto simp: req_typ_def filter_data split: if_splits\<close>)
  then obtain G prev d3 where G: "disk_segments env (req_typ req) (req_segs req) (req_sector req) i None d2 =
      Some (0, Some (fst (last G)), prev, d3)" and P: "prepared d2 pub i s fl1 ?parts G d3" by blast
  obtain n1 G' where g: "G = (i, s @ n1) # G'" "map part_of (n1 @ concat (map snd G')) = ?parts"
    "dma_maps d3 = dma_maps d2 + mset (map rq_phys_buff (n1 @ concat (map snd G')))"
    "map fst G' = take (length G') fl1" "length G' < length fl1"
    "front_ok d3 (pub @ concat (map snd (butlast G))) (snd (last G)) (drop (length G') fl1)"
    using P unfolding prepared_def by blast
  have k3: "kept d d3" by (rule kept_trans [OF k2 preparedD(3) [OF P]])
  have Gne: "G \<noteq> []" by (simp add: g(1))
  have bl: "concat (map snd (butlast G)) @ snd (last G) = concat (map snd G)" by (rule concat_butlast [OF Gne])
  have len: "length (n1 @ concat (map snd G')) = length (req_segs req)" using arg_cong [OF g(2), of length] by simp
  have data: "\<forall>r \<in> set (n1 @ concat (map snd G')). is_data r" by (rule typed_data [OF g(2)])
  let ?j = "fst (last G)"
  have "length (concat (map snd G)) = length s + length (req_segs req)" using len g(1) by simp
  then have rm: "length ((pub @ concat (map snd (butlast G))) @ snd (last G)) + (if do_sync req then 1 else 0) \<le>
      unat (num_elems (request_ring d3))"
    using room d2(8) k3 bl by (auto simp: split: if_splits)
  have gl: "ctx_group d3 (?j, snd (last G))" using preparedD(1) [OF P, of "last G"] Gne by simp
  obtain d4 s2 where d4: "disk_sync env req ?j d3 = Some (0, d4)"
    "front_ok d4 (pub @ concat (map snd (butlast G))) (snd (last G) @ s2) (drop (length G') fl1)" "kept d3 d4"
    "bio_context_pool d4 = bio_context_pool d3" "dma_maps d4 = dma_maps d3" "ctx_group d4 (?j, snd (last G) @ s2)"
    "\<forall>r \<in> set s2. \<not> is_data r" "length s2 = (if do_sync req then 1 else 0)"
    using sync_ok [OF g(6) rm gl] by blast
  let ?d = "ctx_upd ?j (\<lambda>c. c\<lparr>bc_req := Some (req_id req)\<rparr>) d4"
  let ?G = "butlast G @ [(?j, snd (last G) @ s2)]"
  have sne: "snd (last G) @ s2 \<noteq> []"
    using preparedD(5) [OF P, of "last G"] ne Gne by (auto simp flip: length_greater_0_conv)
  obtain d5 where d5: "vcablk_disk_request_start ?d = (0, d5)"
    "front_ok d5 ((pub @ concat (map snd (butlast G))) @ snd (last G) @ s2) [] (drop (length G') fl1)" "kept d4 d5"
    "bio_context_pool d5 = bio_context_pool ?d" "dma_maps d5 = dma_maps d4"
    using front_start [of ?d "pub @ concat (map snd (butlast G))" _ "drop (length G') fl1", OF _ sne] d4(2) by auto
  have "disk_prepare env req d = Some (0, Some (fst (last ?G)), prev, d5)"
    using d1(1) d2(1) G d4(1) d5(1) by (simp add: disk_prepare_def req_typ_def)
  moreover have "submitted d pub fl req pa ?G d5"
  proof -
    have k5: "kept d d5" by (rule kept_trans [OF kept_trans [OF k3 d4(3)] d5(3)])
    have ls: "length s \<le> 1" using d2(8) by simp
    have mf: "map fst G = i # take (length G') fl1" using g(1,4) by simp
    have fG: "map fst ?G = map fst G" and lG: "length ?G = Suc (length G')"
      using append_butlast_last_id [OF Gne] g(1) by (metis fst_conv map_append list.simps(8,9), simp)
    have dist: "distinct (map fst G)" using mf i(3) fl(1) set_take_subset [of "length G'" fl1] by auto
    have c4: "ctx d4 = ctx d3" using d4(4) by (simp add: ctx_def)
    have jn: "?j < unat (p_num (bio_context_pool d4))"
    proof -
      have "?j \<in> set (map fst G)" using Gne by simp
      then have "?j \<in> set fl" using mf fl(1) set_take_subset [of "length G'" fl1] by auto
      then show ?thesis using rel k3 d4(3) by (auto simp: pool_rel_def)
    qed
    have c5: "ctx d5 = (ctx d3)(?j := (ctx d3 ?j)\<lparr>bc_req := Some (req_id req)\<rparr>)"
      using ctx_ctx_upd [of d4 _ ?j "\<lambda>c. c\<lparr>bc_req := Some (req_id req)\<rparr>", OF _ jn] d4(2) d5(4) c4
      by (auto simp: ctx_def front_ok_def)
    have nj: "fst x \<noteq> ?j" if "x \<in> set (butlast G)" for x
    proof -
      have "distinct (map fst (butlast G @ [last G]))" using dist append_butlast_last_id [OF Gne] by simp
      then show ?thesis using that by (metis distinct_append distinct_singleton imageI list.set_map map_append
            not_distinct_conv_prefix Int_iff empty_iff list.simps(8,9) list.set_intros(1))
    qed
    have sn: "sent d5 x None" if "x \<in> set (butlast G)" for x
    proof -
      have x: "x \<in> set G" using that by (rule in_set_butlastD)
      obtain a ds where "snd x = a @ ds" "\<forall>r \<in> set a. \<not> is_data r" "\<forall>r \<in> set ds. is_data r" "length a \<le> 1"
        using prepared_shapes [OF g(1) data d2(7) ls x] by blast
      then have "shape (snd x)" using shapeI [of a "[]" ds] preparedD(5) [OF P _ x] ne
        by (auto simp flip: length_greater_0_conv)
      then show ?thesis using preparedD(1) [OF P x] nj [OF that] by (simp add: sent_def ctx_group_def c5)
    qed
    have sl: "sent d5 (?j, snd (last G) @ s2) (Some (req_id req))"
    proof -
      have x: "last G \<in> set G" using Gne by simp
      obtain a ds where a: "snd (last G) = a @ ds" "\<forall>r \<in> set a. \<not> is_data r" "\<forall>r \<in> set ds. is_data r" "length a \<le> 1"
        using prepared_shapes [OF g(1) data d2(7) ls x] by blast
      have "shape (a @ ds @ s2)"
        by (rule shapeI) (use a d4(7,8) preparedD(5) [OF P _ x] ne in \<open>auto simp flip: length_greater_0_conv\<close>)
      then show ?thesis using d4(6) a(1) by (simp add: sent_def ctx_group_def c4 c5)
    qed
    have cat: "concat (map snd ?G) = s @ (n1 @ concat (map snd G')) @ s2"
      using bl g(1) by simp
    have fd: "filter is_data (concat (map snd ?G)) = n1 @ concat (map snd G')"
      unfolding cat using filter_data(1) [OF d2(7)] filter_data(1) [OF d4(7)] filter_data(2) [OF data] by simp
    have cx: "ctx d5 k = ctx d k" if "k \<notin> fst ` set ?G" for k
    proof -
      have k: "k \<notin> fst ` set G" using that fG by (metis list.set_map)
      have "?j \<in> fst ` set G" "i \<in> fst ` set G" using Gne g(1) by auto
      with k have "k \<notin> fst ` set G" "k \<noteq> ?j" "k \<noteq> i" by auto
      then show ?thesis using preparedD(2) [OF P, of k] d1(5) d2(4) c5 by (simp add: ctx_def)
    qed
    show ?thesis
      unfolding submitted_def fG lG fd
    proof (intro conjI ballI allI impI)
      show "front_ok d5 (pub @ concat (map snd ?G)) [] (drop (Suc (length G')) fl)"
        using d5(2) by (simp add: fl(1))
      show "map fst G = take (Suc (length G')) fl" "Suc (length G') < length fl" using mf fl(1) g(5) by simp_all
      show "dma_maps d5 = dma_maps d + mset (map rq_phys_buff (n1 @ concat (map snd G')))"
        using g(3) d1(4) d2(5) d4(5) d5(5) by simp
      show "sent d5 (last ?G) (Some (req_id req))" using sl by simp
      show "sent d5 x None" if "x \<in> set (butlast ?G)" for x using sn that by simp
    qed (use g(2) k5 cx in simp_all)
  qed
  ultimately show ?thesis by blast
qed

text \<open>A request with segments is sent without waiting, when there is room for it.\<close>

lemma async_ok:
  assumes "maps_pages env pa" "front_ok d pub [] fl" "req_segs req \<noteq> []"
    and "length pub + length (req_segs req) + (if do_sync req then 2 else 0) \<le> unat (num_elems (request_ring d))"
    and "(length (req_segs req) - 1) div 32 + 1 < length fl"
  shows "\<exists>G d'. vcablk_disk_async_request env req d = Some (0, d') \<and> submitted d pub fl req pa G d'"
  using prepare_ok [OF assms] by (auto simp: vcablk_disk_async_request_def)

section \<open>Completions\<close>

text \<open>What an answer does to the results: the result of a request is that of its last part, unless an earlier part failed.\<close>

definition report :: "nat option \<Rightarrow> u8 \<Rightarrow> (nat \<times> int) list \<times> u16 \<Rightarrow> (nat \<times> int) list \<times> u16" where
  "report req ret s =
     (case req of
        Some r \<Rightarrow> (fst s @ [(r, if snd s \<noteq> 0 then uint (snd s) else uint ret)], 0)
      | None \<Rightarrow> (fst s, if ret \<noteq> 0 then ucast ret else snd s))"

lemma clean_ok:
  assumes "pool_rel (bio_context_pool d) fl" "i < unat (p_num (bio_context_pool d))" "i \<notin> set fl"
  shows "\<exists>p. vcablk_disk_request_clean d i = Some (d\<lparr>bio_context_pool := p,
      dma_maps := dma_maps d - mset (map bvc_dma_addr (bvec_ctxs (ctx d i)))\<rparr>) \<and>
    pool_rel p (fl @ [i]) \<and> p_num p = p_num (bio_context_pool d) \<and>
    pool_data p = (ctx d)(i := (ctx d i)\<lparr>bvec_ctxs := []\<rparr>)"
proof -
  let ?p = "pool_upd i (\<lambda>c. c\<lparr>bvec_ctxs := []\<rparr>) (bio_context_pool d)"
  obtain p where p: "vcablk_pool_push ?p (Some i) = Some p" "pool_rel p (fl @ [i])" "p_num p = p_num ?p"
    using push_rel [of ?p fl i] assms by auto
  moreover have "pool_data p = (ctx d)(i := (ctx d i)\<lparr>bvec_ctxs := []\<rparr>)"
    using push_data [OF p(1)] data_upd [of i "bio_context_pool d" "\<lambda>c. c\<lparr>bvec_ctxs := []\<rparr>"] assms rel_alloc [OF assms(1)]
    by (simp add: ctx_def)
  ultimately show ?thesis
    by (intro exI [of _ p]) (simp add: vcablk_disk_request_clean_def ctx_upd_def Let_def)
qed

lemma cookie_index:
  assumes "pool_rel p fl" "i < unat (p_num p)" "i \<notin> set fl"
  shows "(word_of_nat i + 1 :: u16) \<noteq> 0" "vcablk_pool_get_by_id p (word_of_nat i + 1 - 1) = Some i"
proof -
  have i: "i < 65535" using assms by (simp add: pool_rel_def)
  then have u: "unat (word_of_nat i :: u16) = i" by (simp add: u16_of_nat_unat)
  have "unat (word_of_nat i + 1 :: u16) = i + 1" using i u by (simp add: unat_word_ariths)
  then show "(word_of_nat i + 1 :: u16) \<noteq> 0" by (metis unat_0 add_is_0 one_neq_zero)
  show "vcablk_pool_get_by_id p (word_of_nat i + 1 - 1) = Some i"
    using assms u by (simp add: vcablk_pool_get_by_id_def word_less_nat_alt pool_rel_def)
qed

lemma completion_round_ok:
  assumes "ring_ok (completion_ring d)" "ring_queue_of (completion_ring d) = a # q" "ack_cookie a = word_of_nat i + 1"
    and "pool_rel (bio_context_pool d) fl" "i < unat (p_num (bio_context_pool d))" "i \<notin> set fl"
  shows "\<exists>d'. disk_completion_round d = Some d' \<and> ring_ok (completion_ring d') \<and> ring_queue_of (completion_ring d') = q \<and>
    num_elems (completion_ring d') = num_elems (completion_ring d) \<and>
    pool_rel (bio_context_pool d') (fl @ [i]) \<and> p_num (bio_context_pool d') = p_num (bio_context_pool d) \<and>
    request_ring d' = request_ring d \<and> request_ring_alloc d' = request_ring_alloc d \<and>
    dma_maps d' = dma_maps d - mset (map bvc_dma_addr (bvec_ctxs (ctx d i))) \<and> (\<forall>k. k \<noteq> i \<longrightarrow> ctx d' k = ctx d k) \<and>
    (ended d', split_request_error d') = report (bc_req (ctx d i)) (ack_ret a) (ended d, split_request_error d)"
proof -
  let ?r = "completion_ring d"
  let ?r' = "(ring_upd (last_used ?r) (\<lambda>a. a\<lparr>ack_cookie := 0, ack_ret := 0\<rparr>) ?r)
      \<lparr>last_used := VCA_RB_COUNTER_ADD (last_used ?r) 1 (num_elems ?r)\<rparr>"
  note pop = ring_pop [OF assms(1,2)]
  let ?d1 = "ctx_upd i (\<lambda>c. c\<lparr>bc_req := None\<rparr>) (d\<lparr>completion_ring := ?r'\<rparr>)"
  have c1: "ctx ?d1 = (ctx d)(i := (ctx d i)\<lparr>bc_req := None\<rparr>)"
    using ctx_ctx_upd [of "d\<lparr>completion_ring := ?r'\<rparr>" fl i "\<lambda>c. c\<lparr>bc_req := None\<rparr>"] assms(4,5) by (simp add: ctx_def)
  have "pool_rel (bio_context_pool ?d1) fl" "i < unat (p_num (bio_context_pool ?d1))" using assms(4,5) by simp_all
  from clean_ok [OF this assms(6)] obtain p where p: "vcablk_disk_request_clean ?d1 i = Some (?d1\<lparr>bio_context_pool := p,
      dma_maps := dma_maps ?d1 - mset (map bvc_dma_addr (bvec_ctxs (ctx ?d1 i)))\<rparr>)"
    "pool_rel p (fl @ [i])" "p_num p = p_num (bio_context_pool ?d1)" "pool_data p = (ctx ?d1)(i := (ctx ?d1 i)\<lparr>bvec_ctxs := []\<rparr>)"
    by blast
  define d2 where "d2 = ?d1\<lparr>bio_context_pool := p, dma_maps := dma_maps d - mset (map bvc_dma_addr (bvec_ctxs (ctx d i)))\<rparr>"
  have p1: "vcablk_disk_request_clean ?d1 i = Some d2" using p(1) c1 by (simp add: d2_def)
  let ?s = "report (bc_req (ctx d i)) (ack_ret a) (ended d, split_request_error d)"
  have d2s: "split_request_error d2 = split_request_error d" "ended d2 = ended d" by (simp_all add: d2_def ctx_upd_def)
  have "disk_completion_round d = vcablk_disk_request_done (d\<lparr>completion_ring := ?r'\<rparr>) (word_of_nat i + 1) (uint (ack_ret a))"
    using pop(1) assms(3) by (simp add: disk_completion_round_def Let_def)
  also have "\<dots> = Some (d2\<lparr>ended := fst ?s, split_request_error := snd ?s\<rparr>)"
  proof -
    have g: "vcablk_pool_get_by_id (bio_context_pool (d\<lparr>completion_ring := ?r'\<rparr>)) (word_of_nat i + 1 - 1) = Some i"
      using cookie_index(2) [OF assms(4-6)] by simp
    have c: "ctx (d\<lparr>completion_ring := ?r'\<rparr>) = ctx d" by (simp add: ctx_def)
    have e: "d2\<lparr>ended := ended d, split_request_error := split_request_error d\<rparr> = d2"
      by (simp add: d2_def ctx_upd_def)
    have z: "uint (ack_ret a) \<noteq> 0 \<longleftrightarrow> ack_ret a \<noteq> 0" "word_of_int (uint (ack_ret a)) = (ucast (ack_ret a) :: u16)"
      by (simp_all add: uint_0_iff)
    show ?thesis
      unfolding vcablk_disk_request_done_def g c Let_def option.case p1
      using cookie_index(1) [OF assms(4-6)] e d2s z
      by (auto simp: report_def vcablk_disk_request_end_def split: option.splits)
  qed
  finally have r: "disk_completion_round d = Some (d2\<lparr>ended := fst ?s, split_request_error := snd ?s\<rparr>)" .
  have "ctx d2 = (ctx d)(i := (ctx d i)\<lparr>bc_req := None, bvec_ctxs := []\<rparr>)" using p(4) c1 by (simp add: d2_def ctx_def)
  then have "\<forall>k. k \<noteq> i \<longrightarrow> ctx (d2\<lparr>ended := fst ?s, split_request_error := snd ?s\<rparr>) k = ctx d k" by (simp add: ctx_def)
  moreover have "completion_ring d2 = ?r'" "bio_context_pool d2 = p" "request_ring d2 = request_ring d"
    "request_ring_alloc d2 = request_ring_alloc d" "dma_maps d2 = dma_maps d - mset (map bvc_dma_addr (bvec_ctxs (ctx d i)))"
    by (simp_all add: d2_def ctx_upd_def)
  moreover have "num_elems ?r' = num_elems ?r" by (simp add: ring_upd_def Let_def)
  moreover have "p_num p = p_num (bio_context_pool d)" using p(3) by simp
  ultimately show ?thesis
    using p(2) pop(5,6) by (intro exI [of _ "d2\<lparr>ended := fst ?s, split_request_error := snd ?s\<rparr>"]) (simp add: r)
qed

end
