(* ===== verification/Vcablk_Front.thy ===== *)
theory Vcablk_Front
  imports Vcablk_Disk_Facts
begin

unbundle bit_operations_syntax

text \<open>
  The life of the card's block devices: creation, start, stop and destruction of a device
  (\<open>vcablk/vcablk_disk.c\<close>), and the commands that the host gives in the shared page
  (\<open>vcablk/vcablk.c\<close>). An interrupt that is requested gives a cookie, the number of its callback; a
  null pointer is the cookie 0. \<open>None\<close> is a stop of the kernel.
\<close>

section \<open>A device\<close>

text \<open>What the kernel gives: memory, the cookie of an interrupt or an error, a disk, a queue, a thread.\<close>

record disk_alloc =
  al_kmalloc :: bool
  al_pool :: bool
  al_irq :: "int + nat"
  al_disk :: bool
  al_queue :: bool
  al_thread :: bool

definition VCA_BLK_DISK_NAME :: string where "VCA_BLK_DISK_NAME = ''vcablk''"
definition DISK_NAME_LEN :: nat where "DISK_NAME_LEN = 32"
definition HARDSECT_SIZE :: u64 where "HARDSECT_SIZE = 512"

definition SIZEOF_POOL_HEAD :: nat where "SIZEOF_POOL_HEAD = 2"
definition SIZEOF_BIO_CONTEXT :: nat where "SIZEOF_BIO_CONTEXT = 792"

definition vcablk_disk_format_name :: "string \<Rightarrow> int \<Rightarrow> nat \<Rightarrow> int" where
  "vcablk_disk_format_name prefix index buflen =
     (if index < 0 \<or> 999 < index then - errno_num EINVAL
      else if buflen \<le> length prefix + 3 then - errno_num EINVAL
      else 0)"

definition vcablk_disk_open :: "vcablk_disk \<Rightarrow> vcablk_disk" where
  "vcablk_disk_open dev = dev\<lparr>ref_cnt := ref_cnt dev + 1\<rparr>"

definition vcablk_disk_release :: "vcablk_disk \<Rightarrow> vcablk_disk" where
  "vcablk_disk_release dev = dev\<lparr>ref_cnt := ref_cnt dev - 1\<rparr>"

text \<open>A context that is in use when the device stops is cleaned, and then the kernel stops.\<close>

definition vcablk_disk_stop :: "vcablk_disk option \<Rightarrow> bool \<Rightarrow> (int \<times> vcablk_disk option) option" where
  "vcablk_disk_stop devp force =
     (case devp of
        None \<Rightarrow> Some (0, None)
      | Some dev \<Rightarrow>
          if \<not> gdisk dev then Some (0, Some dev)
          else if \<not> force \<and> 0 < sint (ref_cnt dev) then Some (- errno_num EBUSY, Some dev)
          else if vcablk_pool_foreach_used (bio_context_pool dev) \<noteq> [] then None
          else Some (0, Some (dev\<lparr>gdisk_started := False, gdisk := False\<rparr>)))"

text \<open>The result is the error number and the callbacks that stay registered.\<close>

definition vcablk_disk_destroy :: "vcablk_disk option \<Rightarrow> nat set \<Rightarrow> (int \<times> nat set) option" where
  "vcablk_disk_destroy devp irqs =
     (case devp of
        None \<Rightarrow> Some (- errno_num ENODEV, irqs)
      | Some dev \<Rightarrow>
          (case vcablk_disk_stop devp True of
             None \<Rightarrow> None
           | Some (err, _) \<Rightarrow>
               if err \<noteq> 0 then Some (err, irqs)
               else Some (err, if 0 \<le> bio_done_db dev then irqs - {bio_done_irq dev} else irqs)))"

text \<open>The device after \<open>memset\<close>; the fields without a null value are not read before they are set.\<close>

definition empty_pool :: "'a vcablk_pool" where
  "empty_pool = \<lparr>p_num = 0, p_head = 0, p_tail = 0, p_alloc_size = 0, p_alloc = []\<rparr>"

definition zero_disk :: vcablk_disk where
  "zero_disk =
     \<lparr>size_bytes = 0, sectors_num = 0, geo_cylinders = 0, ref_cnt = 0, gdisk = False, gdisk_started = False, read_only = False, dev_id = 0,
      request_thread = False, thread_stop = False, bio_done_db = 0, bio_done_irq = 0, request_db = 0, request_ring = empty_ring,
      request_ring_alloc = 0, completion_ring = empty_ring, bio_context_pool = empty_pool, split_request_error = 0,
      req_ring_head = 0, req_ring_tail = 0, req_ring = replicate REQ_RING_SIZE None, ended = [], dma_maps = {#}, intrs = 0\<rparr>"

text \<open>The steps of the creation up to the label \<open>err\<close>: an error with the device as it is then, or the device.\<close>

definition disk_setup ::
    "disk_alloc \<Rightarrow> int \<Rightarrow> u64 \<Rightarrow> bool \<Rightarrow> vcablk_request vcablk_ring \<Rightarrow> vcablk_completion vcablk_ring \<Rightarrow> int \<Rightarrow> int \<Rightarrow>
     int \<times> vcablk_disk" where
  "disk_setup al uniq_id bytes ro ring_req ack_ring done_db req_db =
     (let dev = zero_disk\<lparr>bio_done_db := done_db\<rparr> in
      if done_db < 0 then (- errno_num ENODEV, dev)
      else
        (case vcablk_pool_init (al_pool al) zero_context SIZEOF_POOL_HEAD VCABLK_BIO_CTX_POOL_SIZE SIZEOF_BIO_CONTEXT of
           None \<Rightarrow> (- errno_num ENOMEM, dev)
         | Some pool \<Rightarrow>
             let dev = dev\<lparr>bio_context_pool := pool\<rparr> in
             (case al_irq al of
                Inl _ \<Rightarrow> (- errno_num EIO, dev\<lparr>bio_done_irq := 0\<rparr>)
              | Inr cookie \<Rightarrow>
                  let secs = ucast (bytes div HARDSECT_SIZE);
                      total = ucast secs * HARDSECT_SIZE;
                      dev = dev\<lparr>bio_done_irq := cookie, sectors_num := secs, size_bytes := total,
                                geo_cylinders := ucast (drop_bit 9 total), read_only := ro, dev_id := uniq_id\<rparr>
                  in if \<not> al_disk al then (- errno_num ENOMEM, dev)
                     else if \<not> al_queue al then (- errno_num ENOMEM, dev\<lparr>gdisk := True\<rparr>)
                     else
                       let err = vcablk_disk_format_name VCA_BLK_DISK_NAME uniq_id DISK_NAME_LEN;
                           dev = dev\<lparr>gdisk := True\<rparr>
                       in if err \<noteq> 0 then (err, dev)
                          else
                            let dev = dev\<lparr>request_ring := ring_req, request_ring_alloc := last_add ring_req,
                                          completion_ring := ack_ring, request_db := req_db, gdisk_started := False\<rparr>
                            in if \<not> al_thread al then (- errno_num EAGAIN, dev)
                               else (0, dev\<lparr>request_thread := True\<rparr>))))"

definition vcablk_disk_create ::
    "disk_alloc \<Rightarrow> nat set \<Rightarrow> int \<Rightarrow> u64 \<Rightarrow> bool \<Rightarrow> vcablk_request vcablk_ring option \<Rightarrow> vcablk_completion vcablk_ring option \<Rightarrow>
     int \<Rightarrow> int \<Rightarrow> ((int + vcablk_disk) \<times> nat set) option" where
  "vcablk_disk_create al irqs uniq_id bytes ro ring_req ack_ring done_db req_db =
     (case (ring_req, ack_ring) of
        (Some ring_req, Some ack_ring) \<Rightarrow>
          if req_db < 0 then Some (Inl (- errno_num EFAULT), irqs)
          else if bytes mod HARDSECT_SIZE \<noteq> 0 then Some (Inl (- errno_num ENOTBLK), irqs)
          else if \<not> al_kmalloc al then Some (Inl (- errno_num ENOMEM), irqs)
          else
            (case disk_setup al uniq_id bytes ro ring_req ack_ring done_db req_db of
               (err, dev) \<Rightarrow>
                 let irqs1 = (case al_irq al of
                                Inr cookie \<Rightarrow> if 0 \<le> done_db \<and> al_pool al then insert cookie irqs else irqs
                              | Inl _ \<Rightarrow> irqs)
                 in if err \<noteq> 0
                    then map_option (\<lambda>(_, irqs2). (Inl err, irqs2)) (vcablk_disk_destroy (Some dev) irqs1)
                    else Some (Inr dev, irqs1))
      | _ \<Rightarrow> Some (Inl (- errno_num EFAULT), irqs))"

text \<open>After a stop there is no disk any more, and \<open>add_disk\<close> uses a null pointer.\<close>

definition vcablk_disk_start :: "vcablk_disk option \<Rightarrow> (int \<times> vcablk_disk option) option" where
  "vcablk_disk_start devp =
     (case devp of
        None \<Rightarrow> Some (- errno_num EINVAL, None)
      | Some dev \<Rightarrow>
          if \<not> request_thread dev \<or> gdisk_started dev
          then map_option (\<lambda>(_, devp1). (- errno_num EINVAL, devp1)) (vcablk_disk_stop devp False)
          else if \<not> gdisk dev then None
          else Some (0, Some (dev\<lparr>gdisk_started := True\<rparr>)))"

text \<open>The number of the block device is registered once; the result and the number.\<close>

definition vcablk_disk_init :: "int \<Rightarrow> int \<Rightarrow> int \<times> int" where
  "vcablk_disk_init major registered =
     (if 0 < major then (0, major)
      else if 0 < registered then (0, registered) else (- errno_num EBUSY, registered))"

section \<open>Rings\<close>

definition SIZEOF_RING :: u32 where "SIZEOF_RING = 24"
definition SIZEOF_REQUEST :: u32 where "SIZEOF_REQUEST = 32"
definition SIZEOF_COMPLETION :: u32 where "SIZEOF_COMPLETION = 8"

text \<open>The result of the allocation of a ring: whether there is memory, and the mapping of it.\<close>

definition vcablk_alloc_buff :: "bool \<Rightarrow> int + u64 \<Rightarrow> int + u64" where
  "vcablk_alloc_buff kmalloc_ok mapped = (if kmalloc_ok then mapped else Inl (- errno_num ENOMEM))"

text \<open>The elements are what the memory contained.\<close>

definition init_ring :: "bool \<Rightarrow> int + u64 \<Rightarrow> (nat \<Rightarrow> 'e) \<Rightarrow> u32 \<Rightarrow> u32 \<Rightarrow> u16 \<Rightarrow> int + 'e vcablk_ring" where
  "init_ring kmalloc_ok mapped memory bytes esize queue_size =
     (if \<not> is_power_of_2 queue_size then Inl (- errno_num EPERM)
      else
        (case vcablk_alloc_buff kmalloc_ok mapped of
           Inl err \<Rightarrow> Inl err
         | Inr da \<Rightarrow> Inr \<lparr>num_elems = queue_size, elem_size = esize, last_add = 0, last_used = 0, size_alloc = bytes,
                           dma_addr = da, elems = map memory [0..<unat queue_size]\<rparr>))"

definition init_request_ring :: "bool \<Rightarrow> int + u64 \<Rightarrow> (nat \<Rightarrow> vcablk_request) \<Rightarrow> u16 \<Rightarrow> int + vcablk_request vcablk_ring" where
  "init_request_ring kmalloc_ok mapped memory queue_size =
     init_ring kmalloc_ok mapped memory (SIZEOF_RING + ucast queue_size * SIZEOF_REQUEST) SIZEOF_REQUEST queue_size"

definition init_completion_ring :: "bool \<Rightarrow> int + u64 \<Rightarrow> (nat \<Rightarrow> vcablk_completion) \<Rightarrow> u16 \<Rightarrow> int + vcablk_completion vcablk_ring" where
  "init_completion_ring kmalloc_ok mapped memory queue_size =
     init_ring kmalloc_ok mapped memory (SIZEOF_RING + ucast queue_size * SIZEOF_COMPLETION) SIZEOF_COMPLETION queue_size"

section \<open>Commands\<close>

definition CMD_CREATE :: u8 where "CMD_CREATE = 1"
definition CMD_RUN :: u8 where "CMD_RUN = 2"
definition CMD_STOP_NORMAL :: u8 where "CMD_STOP_NORMAL = 3"
definition CMD_STOP_FORCE :: u8 where "CMD_STOP_FORCE = 4"
definition CMD_DESTROY :: u8 where "CMD_DESTROY = 5"
definition DESTROY_DEV_PAGE_INIT :: int where "DESTROY_DEV_PAGE_INIT = 1"
definition DESTROY_DEV_PAGE_END :: int where "DESTROY_DEV_PAGE_END = 2"
definition VCA_BLK_VERSION :: u32 where "VCA_BLK_VERSION = 4"

record vcablk_device_response =
  command_ack :: u8
  status :: u32
  done_db :: int
  rsp_request_ring :: u64
  rsp_request_ring_size :: u64
  rsp_completion_ring :: u64
  rsp_completion_ring_size :: u64

record vcablk_device_ctrl =
  command :: u8
  ctl_size_bytes :: u64
  ctl_read_only :: u8
  ctl_request_db :: int
  response :: vcablk_device_response

record vcablk_dev_page =
  version_frontend :: u32
  dev_page_size :: u32
  reinit_dev_page :: u32
  num_devices :: u32
  destroy_devpage :: int
  notify_frontend_db :: int
  devs :: "vcablk_device_ctrl list"

text \<open>
  The driver. The last fields are what the kernel holds for it: the callbacks that are registered, the
  addresses of rings that are mapped, and the number of interrupts sent to the host.
\<close>

record vcablk_dev =
  pages :: "vcablk_dev_page option"
  probe_db :: int
  probe_db_cookie :: nat
  max_dev :: nat
  vcablk_disks :: "vcablk_disk option list option"
  irqs :: "nat set"
  ring_maps :: "u64 multiset"
  fd_intrs :: nat

text \<open>What the kernel and the hardware give for one command.\<close>

record task_env =
  te_alloc :: disk_alloc
  te_kmalloc :: "bool \<times> bool"
  te_map_req :: "int + u64"
  te_map_ack :: "int + u64"
  te_mem_req :: "nat \<Rightarrow> vcablk_request"
  te_mem_ack :: "nat \<Rightarrow> vcablk_completion"
  te_next_db :: int

definition ctrl_upd :: "nat \<Rightarrow> (vcablk_device_ctrl \<Rightarrow> vcablk_device_ctrl) \<Rightarrow> vcablk_dev \<Rightarrow> vcablk_dev" where
  "ctrl_upd i f fdev = fdev\<lparr>pages := map_option (\<lambda>p. p\<lparr>devs := (devs p)[i := f (devs p ! i)]\<rparr>) (pages fdev)\<rparr>"

definition clear_response :: "vcablk_device_ctrl \<Rightarrow> vcablk_device_ctrl" where
  "clear_response c = c\<lparr>response := (response c)\<lparr>rsp_request_ring := 0, rsp_request_ring_size := 0, rsp_completion_ring := 0,
     rsp_completion_ring_size := 0, done_db := - 1\<rparr>\<rparr>"

definition destroy_ring :: "'e vcablk_ring option \<Rightarrow> vcablk_dev \<Rightarrow> vcablk_dev" where
  "destroy_ring ringp fdev =
     (case ringp of None \<Rightarrow> fdev | Some ring \<Rightarrow> fdev\<lparr>ring_maps := ring_maps fdev - {#dma_addr ring#}\<rparr>)"

definition vcablk_device_stop_id :: "vcablk_dev \<Rightarrow> nat \<Rightarrow> bool \<Rightarrow> (int \<times> vcablk_dev) option" where
  "vcablk_device_stop_id fdev i force =
     (case vcablk_disks fdev of
        None \<Rightarrow> Some (- errno_num ENODEV, fdev)
      | Some disks \<Rightarrow>
          map_option (\<lambda>(err, d). (err, fdev\<lparr>vcablk_disks := Some (disks[i := d])\<rparr>)) (vcablk_disk_stop (disks ! i) force))"

definition vcablk_device_destroy_id :: "vcablk_dev \<Rightarrow> nat \<Rightarrow> (int \<times> vcablk_dev) option" where
  "vcablk_device_destroy_id fdev i =
     (case vcablk_disks fdev of
        None \<Rightarrow> Some (- errno_num ENODEV, fdev)
      | Some disks \<Rightarrow>
          map_option (\<lambda>(err, irqs1).
            (err, destroy_ring (map_option completion_ring (disks ! i)) (destroy_ring (map_option request_ring (disks ! i))
                    ((ctrl_upd i clear_response fdev)\<lparr>irqs := irqs1, vcablk_disks := Some (disks[i := None])\<rparr>))))
            (vcablk_disk_destroy (disks ! i) (irqs fdev)))"

text \<open>The creation of a device behind the checks of its number, up to the label \<open>deinit_rings\<close>.\<close>

definition task_failed ::
    "nat \<Rightarrow> vcablk_request vcablk_ring option \<Rightarrow> vcablk_completion vcablk_ring option \<Rightarrow> int \<Rightarrow> vcablk_dev \<Rightarrow> int \<times> vcablk_dev" where
  "task_failed i ring_req ack_ring err fdev = (err, destroy_ring ack_ring (destroy_ring ring_req (ctrl_upd i clear_response fdev)))"

definition vcablk_task_create :: "task_env \<Rightarrow> vcablk_dev \<Rightarrow> nat \<Rightarrow> (int \<times> vcablk_dev) option" where
  "vcablk_task_create te fdev i =
     (case (pages fdev, vcablk_disks fdev) of
        (Some page, Some disks) \<Rightarrow>
          if max_dev fdev \<le> i then Some (- errno_num EINVAL, fdev)
          else if disks ! i \<noteq> None then Some (- errno_num EBUSY, fdev)
          else
            (case init_request_ring (fst (te_kmalloc te)) (te_map_req te) (te_mem_req te) VCABLK_QUEUE_REQUESTS_NUMS of
               Inl err \<Rightarrow> Some (task_failed i None None err fdev)
             | Inr rreq \<Rightarrow>
                 let fdev1 = fdev\<lparr>ring_maps := add_mset (dma_addr rreq) (ring_maps fdev)\<rparr> in
                 (case init_completion_ring (snd (te_kmalloc te)) (te_map_ack te) (te_mem_ack te) VCABLK_QUEUE_ACK_NUMS of
                    Inl err \<Rightarrow> Some (task_failed i (Some rreq) None err fdev1)
                  | Inr rack \<Rightarrow>
                      let fdev2 = fdev1\<lparr>ring_maps := add_mset (dma_addr rack) (ring_maps fdev1)\<rparr>;
                          ctl = devs page ! i
                      in if te_next_db te < 0
                         then Some (task_failed i (Some rreq) (Some rack) (- errno_num ENODEV) fdev2)
                         else
                           (case vcablk_disk_create (te_alloc te) (irqs fdev2) (int i) (ctl_size_bytes ctl) (ctl_read_only ctl \<noteq> 0)
                                   (Some rreq) (Some rack) (te_next_db te) (ctl_request_db ctl) of
                              None \<Rightarrow> None
                            | Some (Inl err, irqs1) \<Rightarrow>
                                Some (task_failed i (Some rreq) (Some rack) err (fdev2\<lparr>irqs := irqs1\<rparr>))
                            | Some (Inr dev, irqs1) \<Rightarrow>
                                Some (0, ctrl_upd i (\<lambda>c. c\<lparr>response := (response c)
                                           \<lparr>rsp_request_ring := dma_addr rreq, rsp_request_ring_size := ucast (size_alloc rreq),
                                            rsp_completion_ring := dma_addr rack, rsp_completion_ring_size := ucast (size_alloc rack),
                                            done_db := te_next_db te\<rparr>\<rparr>)
                                         (fdev2\<lparr>irqs := irqs1, vcablk_disks := Some (disks[i := Some dev])\<rparr>)))))
      | _ \<Rightarrow> None)"

definition vcablk_handle_task :: "task_env \<Rightarrow> vcablk_dev \<Rightarrow> u8 \<Rightarrow> nat \<Rightarrow> (int \<times> vcablk_dev) option" where
  "vcablk_handle_task te fdev cmd i =
     (if cmd = CMD_CREATE then vcablk_task_create te fdev i
      else if cmd = CMD_RUN then
        (case vcablk_disks fdev of
           None \<Rightarrow> None
         | Some disks \<Rightarrow>
             (case vcablk_disk_start (disks ! i) of
                None \<Rightarrow> None
              | Some (err, d) \<Rightarrow>
                  let fdev1 = fdev\<lparr>vcablk_disks := Some (disks[i := d])\<rparr> in
                  if err \<noteq> 0 then map_option (\<lambda>(_, fdev2). (err, fdev2)) (vcablk_device_destroy_id fdev1 i)
                  else Some (0, fdev1)))
      else if cmd = CMD_STOP_NORMAL \<or> cmd = CMD_STOP_FORCE then vcablk_device_stop_id fdev i (cmd = CMD_STOP_FORCE)
      else if cmd = CMD_DESTROY then vcablk_device_destroy_id fdev i
      else Some (- errno_num EIO, fdev))"

text \<open>One device in the loop of the work: a command is carried out and acknowledged.\<close>

definition probe_one :: "(nat \<Rightarrow> task_env) \<Rightarrow> nat \<Rightarrow> vcablk_dev \<Rightarrow> vcablk_dev option" where
  "probe_one te i fdev =
     (case pages fdev of
        None \<Rightarrow> None
      | Some page \<Rightarrow>
          let cmd = command (devs page ! i) in
          if cmd = 0 then Some fdev
          else map_option (\<lambda>(err, fdev1).
                 ctrl_upd i (\<lambda>c. c\<lparr>response := (response c)\<lparr>status := word_of_int err, command_ack := cmd\<rparr>, command := 0\<rparr>) fdev1)
                 (vcablk_handle_task (te i) fdev cmd i))"

fun probe_loop :: "(nat \<Rightarrow> task_env) \<Rightarrow> nat list \<Rightarrow> vcablk_dev \<Rightarrow> vcablk_dev option" where
  "probe_loop te [] fdev = Some fdev"
| "probe_loop te (i # is) fdev = (case probe_one te i fdev of None \<Rightarrow> None | Some fdev1 \<Rightarrow> probe_loop te is fdev1)"

definition vcablk_probe_work :: "(nat \<Rightarrow> task_env) \<Rightarrow> vcablk_dev \<Rightarrow> vcablk_dev option" where
  "vcablk_probe_work te fdev =
     (case pages fdev of
        None \<Rightarrow> Some fdev
      | Some page \<Rightarrow>
          if destroy_devpage page \<noteq> 0 \<or> num_devices page = 0 then Some fdev
          else map_option (\<lambda>fdev1. fdev1\<lparr>fd_intrs := fd_intrs fdev1 + 1\<rparr>) (probe_loop te [0..<max_dev fdev] fdev))"

section \<open>The driver\<close>

fun clean_loop :: "vcablk_disk option list \<Rightarrow> nat set \<Rightarrow> nat set option" where
  "clean_loop [] cbs = Some cbs"
| "clean_loop (d # ds) cbs =
     (case d of
        None \<Rightarrow> clean_loop ds cbs
      | Some _ \<Rightarrow>
          (case vcablk_disk_stop d True of
             None \<Rightarrow> None
           | Some (_, d1) \<Rightarrow>
               (case vcablk_disk_destroy d1 cbs of
                  None \<Rightarrow> None
                | Some (_, cbs1) \<Rightarrow> clean_loop ds cbs1)))"

definition vcablk_clean :: "vcablk_dev \<Rightarrow> vcablk_dev option" where
  "vcablk_clean fdev =
     (case vcablk_disks fdev of
        None \<Rightarrow> Some fdev
      | Some disks \<Rightarrow> map_option (\<lambda>cbs. fdev\<lparr>irqs := cbs, vcablk_disks := None\<rparr>) (clean_loop disks (irqs fdev)))"

text \<open>The host answers by setting \<open>destroy_devpage\<close>, or the wait ends after five seconds.\<close>

definition vcablk_set_empty_devpage :: "(vcablk_dev_page \<Rightarrow> vcablk_dev_page) \<Rightarrow> vcablk_dev \<Rightarrow> vcablk_dev" where
  "vcablk_set_empty_devpage wait fdev =
     (case pages fdev of
        None \<Rightarrow> fdev
      | Some page \<Rightarrow> fdev\<lparr>pages := Some (wait (page\<lparr>destroy_devpage := DESTROY_DEV_PAGE_INIT\<rparr>)), fd_intrs := fd_intrs fdev + 1\<rparr>)"

definition vcablk_deinit :: "(vcablk_dev_page \<Rightarrow> vcablk_dev_page) \<Rightarrow> vcablk_dev \<Rightarrow> vcablk_dev option" where
  "vcablk_deinit wait fdev =
     map_option (\<lambda>fdev1.
       let fdev2 = vcablk_set_empty_devpage wait fdev1;
           fdev3 = (if 0 \<le> probe_db fdev2
                    then fdev2\<lparr>irqs := irqs fdev2 - {probe_db_cookie fdev2},
                               pages := map_option (\<lambda>p. p\<lparr>notify_frontend_db := - 1\<rparr>) (pages fdev2),
                               probe_db := - 1, probe_db_cookie := 0\<rparr>
                    else fdev2)
       in fdev3\<lparr>pages := None\<rparr>) (vcablk_clean fdev)"

text \<open>
  The initialisation: the memory for the driver, the number of the block device, the doorbell and the
  callback for commands, the array of devices, and the announcement of the page. On an error behind the
  first one the structure of the parent device is freed as well.
\<close>

record init_env =
  ie_kzalloc :: bool
  ie_registered :: int
  ie_next_db :: int
  ie_irq :: "int + nat"
  ie_disks :: bool
  ie_set_dev_page :: int

record init_result =
  ir_dev :: "int + vcablk_dev"
  ir_parent_freed :: bool
  ir_irqs :: "nat set"
  ir_major :: int

definition SIZEOF_DEV_PAGE :: u64 where "SIZEOF_DEV_PAGE = 304"
definition SIZEOF_DEVICE_CTRL :: u64 where "SIZEOF_DEVICE_CTRL = 72"

definition vcablk_init :: "init_env \<Rightarrow> int \<Rightarrow> nat set \<Rightarrow> vcablk_dev_page \<Rightarrow> u64 \<Rightarrow> init_result" where
  "vcablk_init ie major cbs page page_size =
     (let failed = (\<lambda>err cbs major. \<lparr>ir_dev = Inl err, ir_parent_freed = True, ir_irqs = cbs, ir_major = major\<rparr>) in
      if \<not> ie_kzalloc ie then \<lparr>ir_dev = Inl (- errno_num ENOMEM), ir_parent_freed = False, ir_irqs = cbs, ir_major = major\<rparr>
      else
        (case vcablk_disk_init major (ie_registered ie) of
           (ret, major1) \<Rightarrow>
             if ret < 0 then failed ret cbs major1
             else if ie_next_db ie < 0 then failed (- errno_num ENODEV) cbs major1
             else
               (case ie_irq ie of
                  Inl _ \<Rightarrow> failed (- errno_num EIO) cbs major1
                | Inr cookie \<Rightarrow>
                    let cbs1 = insert cookie cbs in
                    if \<not> ie_disks ie then failed (- errno_num ENOMEM) cbs1 major1
                    else if ie_set_dev_page ie \<noteq> 0
                    then \<lparr>ir_dev = Inl (- errno_num ENODEV), ir_parent_freed = False, ir_irqs = cbs1, ir_major = major1\<rparr>
                    else
                      let n = ucast ((ucast (ucast page_size :: u32) - SIZEOF_DEV_PAGE) div SIZEOF_DEVICE_CTRL) :: u32;
                          page1 = page\<lparr>version_frontend := VCA_BLK_VERSION, dev_page_size := ucast page_size, reinit_dev_page := 1,
                                       destroy_devpage := 0, notify_frontend_db := ie_next_db ie, num_devices := n\<rparr>
                      in \<lparr>ir_dev = Inr \<lparr>pages = Some page1, probe_db = ie_next_db ie, probe_db_cookie = cookie,
                                       max_dev = nat (sint n), vcablk_disks = Some (replicate (nat (sint n)) None),
                                       irqs = cbs1, ring_maps = {#}, fd_intrs = 0\<rparr>,
                         ir_parent_freed = False, ir_irqs = cbs1, ir_major = major1\<rparr>)))"

section \<open>A device that was created\<close>

lemma ring_power: "is_power_of_2 VCABLK_QUEUE_REQUESTS_NUMS" "is_power_of_2 VCABLK_QUEUE_ACK_NUMS"
  by (simp_all add: is_power_of_2_def VCABLK_QUEUE_REQUESTS_NUMS_def VCABLK_QUEUE_ACK_NUMS_def)

lemma ring_ok_empty:
  assumes "is_power_of_2 n"
  shows "ring_ok \<lparr>num_elems = n, elem_size = es, last_add = 0, last_used = 0, size_alloc = bytes, dma_addr = da, elems = map f [0..<unat n]\<rparr>"
  using assms by (simp add: ring_ok_def rb.wf_def rb.used_def is_power_of_2_def unat_gt_0)

lemma new_ring:
  assumes "init_ring k m memory bytes esize n = Inr r"
  shows "ring_ok r" "ring_queue_of r = []" "num_elems r = n" "last_add r = 0" "last_used r = 0" "size_alloc r = bytes" "is_power_of_2 n"
proof -
  show n: "is_power_of_2 n" using assms by (auto simp: init_ring_def split: if_splits)
  then obtain da where r: "r = \<lparr>num_elems = n, elem_size = esize, last_add = 0, last_used = 0, size_alloc = bytes,
      dma_addr = da, elems = map memory [0..<unat n]\<rparr>"
    using assms by (auto simp: init_ring_def split: sum.splits)
  show "ring_ok r" unfolding r by (rule ring_ok_empty [OF n])
  then show "ring_queue_of r = []" "num_elems r = n" "last_add r = 0" "last_used r = 0" "size_alloc r = bytes"
    by (simp_all add: ring_queue_empty r)
qed

lemma setup_ok:
  assumes "disk_setup al i bytes ro rr ra ddb rdb = (0, d)"
  shows "0 \<le> ddb" "al_pool al" "\<exists>c. al_irq al = Inr c \<and> bio_done_irq d = c" "gdisk d" "request_thread d" "\<not> gdisk_started d"
    "request_ring d = rr" "completion_ring d = ra" "request_ring_alloc d = last_add rr" "split_request_error d = 0"
    "ended d = []" "dma_maps d = {#}" "bio_done_db d = ddb" "request_db d = rdb" "ref_cnt d = 0"
    "sectors_num d = ucast (bytes div HARDSECT_SIZE)" "size_bytes d = ucast (sectors_num d) * HARDSECT_SIZE" "read_only d = ro"
    "pool_rel (bio_context_pool d) [0..<33]" "p_num (bio_context_pool d) = 33"
proof -
  obtain pool c where p: "0 \<le> ddb" "vcablk_pool_init (al_pool al) zero_context SIZEOF_POOL_HEAD VCABLK_BIO_CTX_POOL_SIZE SIZEOF_BIO_CONTEXT = Some pool"
    "al_irq al = Inr c" "al_disk al" "al_queue al" "vcablk_disk_format_name VCA_BLK_DISK_NAME i DISK_NAME_LEN = 0" "al_thread al"
    using assms by (auto simp: disk_setup_def Let_def split: if_splits option.splits sum.splits)
  have d: "d = zero_disk\<lparr>bio_done_db := ddb, bio_context_pool := pool, bio_done_irq := c, sectors_num := ucast (bytes div HARDSECT_SIZE),
      size_bytes := ucast (ucast (bytes div HARDSECT_SIZE) :: u32) * HARDSECT_SIZE,
      geo_cylinders := ucast (drop_bit 9 (ucast (ucast (bytes div HARDSECT_SIZE) :: u32) * HARDSECT_SIZE)), read_only := ro, dev_id := i,
      gdisk := True, request_ring := rr, request_ring_alloc := last_add rr, completion_ring := ra, request_db := rdb,
      gdisk_started := False, request_thread := True\<rparr>"
    using assms p by (simp add: disk_setup_def Let_def)
  have k: "al_pool al" using p(2) by (auto simp: vcablk_pool_init_def split: if_splits)
  show "pool_rel (bio_context_pool d) [0..<33]" using init_rel(1) [OF p(2)] by (simp add: d VCABLK_BIO_CTX_POOL_SIZE_def del: upt_rec_numeral)
  have "unat (p_num pool) = unat (33 :: u16)" using init_rel(2) [OF p(2)] by (simp add: VCABLK_BIO_CTX_POOL_SIZE_def)
  then show "p_num (bio_context_pool d) = 33" using d by (simp add: unat_inj)
  show "0 \<le> ddb" "al_pool al" "\<exists>c. al_irq al = Inr c \<and> bio_done_irq d = c" "gdisk d" "request_thread d" "\<not> gdisk_started d"
    "request_ring d = rr" "completion_ring d = ra" "request_ring_alloc d = last_add rr" "split_request_error d = 0"
    "ended d = []" "dma_maps d = {#}" "bio_done_db d = ddb" "request_db d = rdb" "ref_cnt d = 0"
    "sectors_num d = ucast (bytes div HARDSECT_SIZE)" "size_bytes d = ucast (sectors_num d) * HARDSECT_SIZE" "read_only d = ro"
    using p k by (simp_all add: d zero_disk_def)
qed

lemma create_ok:
  assumes "vcablk_disk_create al cbs i bytes ro (Some rr) (Some ra) ddb rdb = Some (Inr d, cbs')"
  shows "disk_setup al i bytes ro rr ra ddb rdb = (0, d)" "cbs' = insert (bio_done_irq d) cbs" "bytes mod HARDSECT_SIZE = 0" "0 \<le> rdb"
proof -
  show s: "disk_setup al i bytes ro rr ra ddb rdb = (0, d)"
    using assms by (auto simp: vcablk_disk_create_def Let_def split: if_splits prod.splits option.splits)
  show "cbs' = insert (bio_done_irq d) cbs" "bytes mod HARDSECT_SIZE = 0" "0 \<le> rdb"
    using assms s setup_ok(1-3) [OF s] by (auto simp: vcablk_disk_create_def Let_def split: if_splits)
qed

lemma created_front:
  assumes "disk_setup al i bytes ro rr ra ddb rdb = (0, d)" "ring_ok rr" "ring_queue_of rr = []"
  shows "front_ok d [] [] [0..<33]"
proof -
  note s = setup_ok [OF assms(1)]
  have "alloc_ring d = rr" using s(7,9) by (simp add: alloc_ring_def)
  then show ?thesis using s(7,19) assms(2,3) by (simp add: front_ok_def)
qed

lemma unat_numeral_512: "unat (512 :: u64) = 512"
  by simp

lemma truncated_size:
  "unat (ucast (ucast (bytes div HARDSECT_SIZE) :: u32) * HARDSECT_SIZE) = unat (bytes :: u64) div 512 mod 2 ^ 32 * 512"
proof -
  have "unat (ucast (bytes div HARDSECT_SIZE) :: u32) = unat bytes div 512 mod 2 ^ 32"
    by (simp add: HARDSECT_SIZE_def unsigned_ucast_eq unat_div_distrib take_bit_eq_mod)
  moreover have "unat (ucast (w :: u32) * HARDSECT_SIZE) = unat w * 512" for w :: u32
    using u32_less [of w] by (simp add: HARDSECT_SIZE_def unat_word_ariths unsigned_ucast_eq take_bit_eq_mod)
  ultimately show ?thesis by simp
qed

text \<open>
  C38: a device that was created with new rings is well formed: the rings are empty, all contexts are free,
  the callback is registered, and the size is the announced one, up to two terabytes; the size of a larger
  disk is cut.
\<close>

theorem created_well_formed:
  assumes "vcablk_disk_create al cbs i bytes ro (Some rr) (Some ra) ddb rdb = Some (Inr d, cbs')"
    and "init_request_ring k m memory VCABLK_QUEUE_REQUESTS_NUMS = Inr rr"
  shows "front_ok d [] [] [0..<33] \<and> ended d = [] \<and> dma_maps d = {#} \<and> cbs' = insert (bio_done_irq d) cbs \<and>
    unat (size_bytes d) = unat bytes mod 2 ^ 41"
proof -
  note c = create_ok [OF assms(1)]
  note s = setup_ok [OF c(1)] and r = new_ring [OF assms(2) [unfolded init_request_ring_def]]
  have "unat bytes mod 512 = 0" using c(3) by (metis HARDSECT_SIZE_def unat_0 unat_mod_distrib unat_numeral_512)
  then have "512 * (unat bytes div 512) = unat bytes" by auto
  then have "unat bytes div 512 mod 2 ^ 32 * 512 = unat bytes mod 2 ^ 41"
    using mult_mod_right [of 512 "unat bytes div 512" "2 ^ 32"] by (simp add: mult.commute)
  then show ?thesis
    using created_front [OF c(1) r(1,2)] s(11,12,16,17) c(2) truncated_size [of bytes] by simp
qed

section \<open>Interrupts\<close>

text \<open>
  When the interrupt of a new device cannot be requested, the device is destroyed again, and the
  callback that has the number 0, which belongs to another user, is unregistered.
\<close>

theorem failed_create_frees_other_callback:
  assumes "0 \<le> ddb" "0 \<le> rdb" "bytes mod HARDSECT_SIZE = 0" "al_kmalloc al" "al_irq al = Inl e"
  shows "\<exists>err. vcablk_disk_create al cbs i bytes ro (Some rr) (Some ra) ddb rdb = Some (Inl err, cbs - {0})"
proof (cases "al_pool al")
  case True
  then have "vcablk_pool_init (al_pool al) zero_context SIZEOF_POOL_HEAD VCABLK_BIO_CTX_POOL_SIZE SIZEOF_BIO_CONTEXT \<noteq> None"
    by (simp add: vcablk_pool_init_def VCABLK_BIO_CTX_POOL_SIZE_def VCABLK_POOL_USED_def)
  then show ?thesis
    using assms by (auto simp: vcablk_disk_create_def disk_setup_def Let_def vcablk_disk_destroy_def vcablk_disk_stop_def zero_disk_def)
next
  case False
  then have "vcablk_pool_init (al_pool al) zero_context SIZEOF_POOL_HEAD VCABLK_BIO_CTX_POOL_SIZE SIZEOF_BIO_CONTEXT = None"
    by (simp add: vcablk_pool_init_def)
  then show ?thesis
    using assms by (auto simp: vcablk_disk_create_def disk_setup_def Let_def vcablk_disk_destroy_def vcablk_disk_stop_def zero_disk_def)
qed

definition no_irq :: disk_alloc where
  "no_irq = \<lparr>al_kmalloc = True, al_pool = True, al_irq = Inl (- 22), al_disk = True, al_queue = True, al_thread = True\<rparr>"

theorem failed_create_frees_other_callback_witness:
  "\<exists>err. vcablk_disk_create no_irq {0, 7} 0 1024 False (Some empty_ring) (Some empty_ring) 3 4 = Some (Inl err, {7})"
  using failed_create_frees_other_callback [of 3 4 1024 no_irq "- 22" "{0, 7}" 0 False empty_ring empty_ring]
  by (simp add: no_irq_def HARDSECT_SIZE_def insert_Diff_if)

section \<open>The rings of the devices\<close>

text \<open>The addresses of the rings of a device.\<close>

definition ring_addrs :: "vcablk_disk option \<Rightarrow> u64 multiset" where
  "ring_addrs d = (case d of None \<Rightarrow> {#} | Some dev \<Rightarrow> {#dma_addr (request_ring dev), dma_addr (completion_ring dev)#})"

definition idle :: "vcablk_disk option \<Rightarrow> bool" where
  "idle d = (case d of None \<Rightarrow> True | Some dev \<Rightarrow> vcablk_pool_foreach_used (bio_context_pool dev) = [])"

text \<open>The mapped rings are those of the devices, no request is in progress, and the arrays have their sizes.\<close>

definition rings_inv :: "vcablk_dev \<Rightarrow> vcablk_dev_page \<Rightarrow> vcablk_disk option list \<Rightarrow> bool" where
  "rings_inv fdev page disks \<longleftrightarrow> pages fdev = Some page \<and> vcablk_disks fdev = Some disks \<and>
     length disks = max_dev fdev \<and> length (devs page) = max_dev fdev \<and>
     ring_maps fdev = (\<Sum>d \<in># mset disks. ring_addrs d) \<and> list_all idle disks"

lemma sum_update:
  assumes "i < length ds"
  shows "(\<Sum>d \<in># mset (ds[i := x]). f d) + f (ds ! i) = (\<Sum>d \<in># mset ds. f d) + (f x :: 'm::comm_monoid_add)"
  using assms
proof (induction ds arbitrary: i)
  case (Cons d ds)
  then show ?case by (cases i) (simp_all add: ac_simps)
qed simp

lemma idle_update: "list_all idle ds \<Longrightarrow> idle d \<Longrightarrow> list_all idle (ds[i := d])"
  by (auto simp: list_all_iff dest: set_update_subset_insert [THEN subsetD])

lemma rings_inv_update:
  assumes "rings_inv fdev page disks" "i < max_dev fdev" "idle d"
    and "ring_maps fdev' = ring_maps fdev - ring_addrs (disks ! i) + ring_addrs d"
    and "pages fdev' = Some page'" "vcablk_disks fdev' = Some (disks[i := d])" "max_dev fdev' = max_dev fdev" "length (devs page') = length (devs page)"
  shows "rings_inv fdev' page' (disks[i := d])"
proof -
  have i: "i < length disks" and sum: "ring_maps fdev = (\<Sum>d \<in># mset disks. ring_addrs d)"
    using assms(1,2) by (simp_all add: rings_inv_def)
  obtain M where M: "mset disks = add_mset (disks ! i) M" using i by (metis multi_member_split nth_mem_mset)
  have "mset (disks[i := d]) = add_mset d M" using i M by (simp add: mset_update)
  then have "(\<Sum>d \<in># mset (disks[i := d]). ring_addrs d) = ring_maps fdev - ring_addrs (disks ! i) + ring_addrs d"
    by (simp add: sum M)
  moreover have "list_all idle (disks[i := d])" using assms(1,3) by (simp add: rings_inv_def idle_update)
  ultimately show ?thesis using assms by (simp add: rings_inv_def)
qed

text \<open>What a command for device \<open>i\<close> may change: this device, and in the shared page the answer for it.\<close>

definition frame :: "nat \<Rightarrow> vcablk_dev \<Rightarrow> vcablk_dev \<Rightarrow> bool" where
  "frame i fdev fdev' \<longleftrightarrow> max_dev fdev' = max_dev fdev \<and> fd_intrs fdev' = fd_intrs fdev \<and>
     (\<forall>page. pages fdev = Some page \<longrightarrow> (\<exists>r. pages fdev' = Some (page\<lparr>devs := (devs page)[i := (devs page ! i)\<lparr>response := r\<rparr>]\<rparr>))) \<and>
     (\<forall>ds. vcablk_disks fdev = Some ds \<longrightarrow> (\<exists>ds'. vcablk_disks fdev' = Some ds' \<and> (\<forall>j. j \<noteq> i \<longrightarrow> ds' ! j = ds ! j)))"

lemma frame_refl:
  assumes "pages fdev = Some page" "i < length (devs page)" "vcablk_disks fdev = Some ds"
  shows "frame i fdev (fdev\<lparr>vcablk_disks := Some (ds[i := d])\<rparr>)"
  using assms by (auto simp: frame_def intro: exI [of _ "response (devs page ! i)"])

lemma rings_inv_same:
  assumes inv: "rings_inv fdev page disks" and i: "i < max_dev fdev" and d: "ring_addrs d = ring_addrs (disks ! i)" "idle d"
  shows "rings_inv (fdev\<lparr>vcablk_disks := Some (disks[i := d])\<rparr>) page (disks[i := d])"
proof -
  have "i < length disks" using inv i by (simp add: rings_inv_def)
  then have "(\<Sum>d \<in># mset (disks[i := d]). ring_addrs d) = (\<Sum>d \<in># mset disks. ring_addrs d)"
    using sum_update [of i disks ring_addrs d] d(1) by simp
  moreover have "list_all idle (disks[i := d])" using inv d(2) by (simp add: rings_inv_def idle_update)
  ultimately show ?thesis using inv by (simp add: rings_inv_def)
qed

lemma stop_ok:
  assumes "idle d"
  shows "\<exists>err d'. vcablk_disk_stop d force = Some (err, d') \<and> ring_addrs d' = ring_addrs d \<and> idle d' \<and> (force \<longrightarrow> err = 0)"
  using assms by (auto simp: vcablk_disk_stop_def idle_def ring_addrs_def split: option.splits)

text \<open>A device that was stopped, so that it has no disk; the command to run it stops the kernel.\<close>

definition stopped :: "vcablk_disk option \<Rightarrow> bool" where
  "stopped d \<longleftrightarrow> (\<exists>dev. d = Some dev \<and> request_thread dev \<and> \<not> gdisk_started dev \<and> \<not> gdisk dev)"

lemma start_stopped: "stopped d \<Longrightarrow> vcablk_disk_start d = None"
  by (auto simp: stopped_def vcablk_disk_start_def)

lemma start_ok:
  assumes "idle d" "\<not> stopped d"
  shows "\<exists>err d'. vcablk_disk_start d = Some (err, d') \<and> ring_addrs d' = ring_addrs d \<and> idle d'"
  using stop_ok [OF assms(1), of False] assms
  by (cases d) (auto simp: vcablk_disk_start_def stopped_def idle_def ring_addrs_def)

lemma destroy_ok:
  assumes "idle d"
  shows "\<exists>err cbs'. vcablk_disk_destroy d cbs = Some (err, cbs')"
  using stop_ok [OF assms, of True] by (cases d) (auto simp: vcablk_disk_destroy_def)

definition task_ok :: "nat \<Rightarrow> vcablk_dev \<Rightarrow> (int \<times> vcablk_dev) option \<Rightarrow> bool" where
  "task_ok i fdev res \<longleftrightarrow> (\<exists>err fdev' page' disks'. res = Some (err, fdev') \<and> rings_inv fdev' page' disks' \<and> frame i fdev fdev')"

lemma frame_ctrl:
  assumes "rings_inv fdev page disks"
  shows "pages (ctrl_upd i clear_response fdev) = Some (page\<lparr>devs := (devs page)[i := clear_response (devs page ! i)]\<rparr>)"
  using assms by (simp add: ctrl_upd_def rings_inv_def)

lemma destroy_id_ok:
  assumes inv: "rings_inv fdev page disks" and i: "i < max_dev fdev"
  shows "task_ok i fdev (vcablk_device_destroy_id fdev i)"
proof -
  have il: "i < length disks" "vcablk_disks fdev = Some disks" "idle (disks ! i)" "length (devs page) = max_dev fdev" "pages fdev = Some page"
    using inv i by (auto simp: rings_inv_def list_all_length)
  obtain err cbs where d: "vcablk_disk_destroy (disks ! i) (irqs fdev) = Some (err, cbs)" using destroy_ok [OF il(3)] by blast
  define fdev' where "fdev' = destroy_ring (map_option completion_ring (disks ! i)) (destroy_ring (map_option request_ring (disks ! i))
     ((ctrl_upd i clear_response fdev)\<lparr>irqs := cbs, vcablk_disks := Some (disks[i := None])\<rparr>))"
  have f: "ring_maps fdev' = ring_maps fdev - ring_addrs (disks ! i)" "vcablk_disks fdev' = Some (disks[i := None])"
    "max_dev fdev' = max_dev fdev" "pages fdev' = Some (page\<lparr>devs := (devs page)[i := clear_response (devs page ! i)]\<rparr>)"
    "fd_intrs fdev' = fd_intrs fdev"
    using il by (auto simp: fdev'_def destroy_ring_def ring_addrs_def ctrl_upd_def add_mset_commute split: option.splits)
  have "rings_inv fdev' (page\<lparr>devs := (devs page)[i := clear_response (devs page ! i)]\<rparr>) (disks[i := None])"
    by (rule rings_inv_update [OF inv i]) (use f in \<open>simp_all add: idle_def ring_addrs_def\<close>)
  moreover have "frame i fdev fdev'" using f il(2,5) by (auto simp: frame_def clear_response_def)
  moreover have "vcablk_device_destroy_id fdev i = Some (err, fdev')"
    using d il(2) by (simp add: vcablk_device_destroy_id_def fdev'_def)
  ultimately show ?thesis unfolding task_ok_def by blast
qed

lemma stop_id_ok:
  assumes inv: "rings_inv fdev page disks" and i: "i < max_dev fdev"
  shows "task_ok i fdev (vcablk_device_stop_id fdev i force)"
proof -
  have il: "i < length disks" "vcablk_disks fdev = Some disks" "idle (disks ! i)" "i < length (devs page)" "pages fdev = Some page"
    using inv i by (auto simp: rings_inv_def list_all_length)
  obtain err d where d: "vcablk_disk_stop (disks ! i) force = Some (err, d)" "ring_addrs d = ring_addrs (disks ! i)" "idle d"
    using stop_ok [OF il(3)] by blast
  have "rings_inv (fdev\<lparr>vcablk_disks := Some (disks[i := d])\<rparr>) page (disks[i := d])"
    by (rule rings_inv_same [OF inv i d(2,3)])
  then show ?thesis
    unfolding task_ok_def using d(1) il frame_refl [OF il(5,4,2), of d] by (auto simp: vcablk_device_stop_id_def)
qed

lemma fresh_idle:
  assumes "vcablk_pool_init k z hb n bytes = Some p"
  shows "vcablk_pool_foreach_used p = []"
  using init_rel [OF assms] by (simp add: vcablk_pool_foreach_used_def filter_empty_conv pool_rel_def)

lemma setup_idle:
  assumes "disk_setup al i bytes ro rr ra ddb rdb = (err, d)"
  shows "idle (Some d)"
proof (cases "0 \<le> ddb \<and> vcablk_pool_init (al_pool al) zero_context SIZEOF_POOL_HEAD VCABLK_BIO_CTX_POOL_SIZE SIZEOF_BIO_CONTEXT \<noteq> None")
  case True
  then obtain p where p: "vcablk_pool_init (al_pool al) zero_context SIZEOF_POOL_HEAD VCABLK_BIO_CTX_POOL_SIZE SIZEOF_BIO_CONTEXT = Some p" by auto
  then have "bio_context_pool d = p" using assms True by (auto simp: disk_setup_def Let_def split: sum.splits if_splits)
  then show ?thesis using fresh_idle [OF p] by (simp add: idle_def)
next
  case False
  then have "bio_context_pool d = empty_pool"
    using assms by (auto simp: disk_setup_def Let_def zero_disk_def split: option.splits if_splits)
  then show ?thesis by (simp add: idle_def vcablk_pool_foreach_used_def empty_pool_def)
qed

lemma create_cases:
  obtains (failed) err cbs' where "vcablk_disk_create al cbs i bytes ro (Some rr) (Some ra) ddb rdb = Some (Inl err, cbs')"
  | (created) d cbs' where "vcablk_disk_create al cbs i bytes ro (Some rr) (Some ra) ddb rdb = Some (Inr d, cbs')"
    "request_ring d = rr" "completion_ring d = ra" "idle (Some d)"
proof -
  obtain err d where s: "disk_setup al i bytes ro rr ra ddb rdb = (err, d)" by (cases "disk_setup al i bytes ro rr ra ddb rdb")
  have "\<exists>r cbs'. vcablk_disk_create al cbs i bytes ro (Some rr) (Some ra) ddb rdb = Some (r, cbs')"
    using destroy_ok [OF setup_idle [OF s]] s
    by (cases "err = 0") (force simp: vcablk_disk_create_def Let_def split: sum.splits)+
  then obtain r cbs' where r: "vcablk_disk_create al cbs i bytes ro (Some rr) (Some ra) ddb rdb = Some (r, cbs')" by blast
  show thesis
  proof (cases r)
    case (Inl e)
    then show ?thesis using r failed by blast
  next
    case (Inr x)
    then have x: "disk_setup al i bytes ro rr ra ddb rdb = (0, x)" using create_ok(1) r by blast
    show ?thesis using created [of x cbs'] r Inr setup_ok(7,8) [OF x] setup_idle [OF x] by blast
  qed
qed

text \<open>A creation that fails unmaps the rings that it had made.\<close>

lemma task_failed_ok:
  assumes inv: "rings_inv fdev page disks" and i: "i < max_dev fdev"
    and m: "ring_maps f = ring_maps fdev + (case ring_req of None \<Rightarrow> {#} | Some r \<Rightarrow> {#dma_addr r#}) +
      (case ack_ring of None \<Rightarrow> {#} | Some r \<Rightarrow> {#dma_addr r#})"
    and f: "pages f = pages fdev" "vcablk_disks f = vcablk_disks fdev" "max_dev f = max_dev fdev" "fd_intrs f = fd_intrs fdev"
  shows "task_ok i fdev (Some (task_failed i ring_req ack_ring err f))"
proof -
  let ?f = "destroy_ring ack_ring (destroy_ring ring_req (ctrl_upd i clear_response f))"
  let ?page = "page\<lparr>devs := (devs page)[i := clear_response (devs page ! i)]\<rparr>"
  have "ring_maps ?f = ring_maps fdev" "pages ?f = Some ?page" "vcablk_disks ?f = Some disks" "max_dev ?f = max_dev fdev"
    "fd_intrs ?f = fd_intrs fdev"
    using inv m f by (auto simp: destroy_ring_def ctrl_upd_def rings_inv_def split: option.splits)
  then have "rings_inv ?f ?page disks" "frame i fdev ?f"
    using inv by (auto simp: rings_inv_def frame_def clear_response_def)
  then show ?thesis unfolding task_ok_def task_failed_def by blast
qed

lemma task_ok_same:
  assumes "rings_inv fdev page disks" "i < max_dev fdev"
  shows "task_ok i fdev (Some (err, fdev))"
proof -
  have "pages fdev = Some page" "i < length (devs page)" using assms by (simp_all add: rings_inv_def)
  moreover have d: "vcablk_disks fdev = Some disks" using assms(1) by (simp add: rings_inv_def)
  then have "fdev\<lparr>vcablk_disks := Some disks\<rparr> = fdev" by simp
  ultimately have "frame i fdev fdev" using frame_refl [of fdev page i disks "disks ! i"] d by (metis list_update_id)
  then show ?thesis unfolding task_ok_def using assms(1) by blast
qed

lemma new_device_ok:
  assumes inv: "rings_inv fdev page disks" and i: "i < max_dev fdev" and n: "disks ! i = None"
    and d: "request_ring d = rq" "completion_ring d = ra" "idle (Some d)" and g: "\<And>c. \<exists>r. g c = c\<lparr>response := r\<rparr>"
  shows "task_ok i fdev (Some (err, ctrl_upd i g (fdev\<lparr>ring_maps := add_mset (dma_addr ra) (add_mset (dma_addr rq) (ring_maps fdev)),
     irqs := cbs, vcablk_disks := Some (disks[i := Some d])\<rparr>)))"
proof -
  let ?f = "ctrl_upd i g (fdev\<lparr>ring_maps := add_mset (dma_addr ra) (add_mset (dma_addr rq) (ring_maps fdev)),
     irqs := cbs, vcablk_disks := Some (disks[i := Some d])\<rparr>)"
  have p: "pages fdev = Some page" "vcablk_disks fdev = Some disks" using inv by (simp_all add: rings_inv_def)
  have "rings_inv ?f (page\<lparr>devs := (devs page)[i := g (devs page ! i)]\<rparr>) (disks[i := Some d])"
    by (rule rings_inv_update [OF inv i d(3)]) (use p n d in \<open>simp_all add: ctrl_upd_def ring_addrs_def add_mset_commute\<close>)
  moreover have "frame i fdev ?f" using p g [of "devs page ! i"] by (auto simp: frame_def ctrl_upd_def)
  ultimately show ?thesis unfolding task_ok_def by blast
qed

lemma task_create_ok:
  assumes inv: "rings_inv fdev page disks" and i: "i < max_dev fdev"
  shows "task_ok i fdev (vcablk_task_create te fdev i)"
proof (cases "disks ! i")
  case (Some d)
  then have "vcablk_task_create te fdev i = Some (- errno_num EBUSY, fdev)"
    using inv i by (simp add: vcablk_task_create_def rings_inv_def)
  then show ?thesis using task_ok_same [OF inv i] by simp
next
  case None
  have f: "pages fdev = Some page" "vcablk_disks fdev = Some disks" "i < length (devs page)" using inv i by (simp_all add: rings_inv_def)
  let ?rq = "init_request_ring (fst (te_kmalloc te)) (te_map_req te) (te_mem_req te) VCABLK_QUEUE_REQUESTS_NUMS"
  let ?ra = "init_completion_ring (snd (te_kmalloc te)) (te_map_ack te) (te_mem_ack te) VCABLK_QUEUE_ACK_NUMS"
  note def = vcablk_task_create_def Let_def
  show ?thesis
  proof (cases ?rq)
    case (Inl err)
    then have "vcablk_task_create te fdev i = Some (task_failed i None None err fdev)" using f i None by (simp add: def)
    then show ?thesis using task_failed_ok [OF inv i, of fdev None None] by simp
  next
    case rq: (Inr rq)
    show ?thesis
    proof (cases ?ra)
      case (Inl err)
      then have "vcablk_task_create te fdev i =
          Some (task_failed i (Some rq) None err (fdev\<lparr>ring_maps := add_mset (dma_addr rq) (ring_maps fdev)\<rparr>))"
        using f i None rq by (simp add: def)
      then show ?thesis using task_failed_ok [OF inv i, of _ "Some rq" None] by simp
    next
      case ra: (Inr ra)
      let ?f = "fdev\<lparr>ring_maps := add_mset (dma_addr ra) (add_mset (dma_addr rq) (ring_maps fdev))\<rparr>"
      show ?thesis
      proof (cases "te_next_db te < 0")
        case True
        then have "vcablk_task_create te fdev i = Some (task_failed i (Some rq) (Some ra) (- errno_num ENODEV) ?f)"
          using f i None rq ra by (simp add: def)
        then show ?thesis using task_failed_ok [OF inv i, of ?f "Some rq" "Some ra"] by simp
      next
        case db: False
        show ?thesis
        proof (rule create_cases [of "te_alloc te" "irqs fdev" "int i" "ctl_size_bytes (devs page ! i)" "ctl_read_only (devs page ! i) \<noteq> 0"
              rq ra "te_next_db te" "ctl_request_db (devs page ! i)"])
          fix err cbs
          assume "vcablk_disk_create (te_alloc te) (irqs fdev) (int i) (ctl_size_bytes (devs page ! i)) (ctl_read_only (devs page ! i) \<noteq> 0)
              (Some rq) (Some ra) (te_next_db te) (ctl_request_db (devs page ! i)) = Some (Inl err, cbs)"
          then have "vcablk_task_create te fdev i = Some (task_failed i (Some rq) (Some ra) err (?f\<lparr>irqs := cbs\<rparr>))"
            using f i None rq ra db by (simp add: def)
          then show ?thesis using task_failed_ok [OF inv i, of "?f\<lparr>irqs := cbs\<rparr>" "Some rq" "Some ra"] by simp
        next
          fix d cbs
          assume c: "vcablk_disk_create (te_alloc te) (irqs fdev) (int i) (ctl_size_bytes (devs page ! i)) (ctl_read_only (devs page ! i) \<noteq> 0)
              (Some rq) (Some ra) (te_next_db te) (ctl_request_db (devs page ! i)) = Some (Inr d, cbs)"
            "request_ring d = rq" "completion_ring d = ra" "idle (Some d)"
          show ?thesis
            using f i None rq ra db c(1) by (simp add: def) (rule new_device_ok [OF inv i None c(2-4)], blast)
        qed
      qed
    qed
  qed
qed

lemma handle_task_ok:
  assumes inv: "rings_inv fdev page disks" and i: "i < max_dev fdev" and run: "cmd = CMD_RUN \<Longrightarrow> \<not> stopped (disks ! i)"
  shows "task_ok i fdev (vcablk_handle_task te fdev cmd i)"
proof (cases "cmd = CMD_RUN")
  case True
  have f: "vcablk_disks fdev = Some disks" "pages fdev = Some page" "i < length (devs page)" "idle (disks ! i)" "i < length disks"
    using inv i by (auto simp: rings_inv_def list_all_length)
  obtain err d where s: "vcablk_disk_start (disks ! i) = Some (err, d)" "ring_addrs d = ring_addrs (disks ! i)" "idle d"
    using start_ok [OF f(4) run [OF True]] by blast
  let ?f = "fdev\<lparr>vcablk_disks := Some (disks[i := d])\<rparr>"
  have inv1: "rings_inv ?f page (disks[i := d])" by (rule rings_inv_same [OF inv i s(2,3)])
  have fr: "frame i fdev ?f" by (rule frame_refl [OF f(2,3,1)])
  show ?thesis
  proof (cases "err = 0")
    case False
    obtain e f' page' disks' where d: "vcablk_device_destroy_id ?f i = Some (e, f')" "rings_inv f' page' disks'" "frame i ?f f'"
      using destroy_id_ok [OF inv1, of i] i unfolding task_ok_def by auto
    then have "frame i fdev f'" using f(1) by (simp add: frame_def)
    with d False s(1) f(1) True show ?thesis
      unfolding task_ok_def by (simp add: vcablk_handle_task_def CMD_CREATE_def CMD_RUN_def Let_def) blast
  qed (use True s(1) f(1) inv1 fr in \<open>auto simp: task_ok_def vcablk_handle_task_def CMD_CREATE_def CMD_RUN_def\<close>)
next
  case False
  then show ?thesis
    using task_create_ok [OF inv i] stop_id_ok [OF inv i] destroy_id_ok [OF inv i] task_ok_same [OF inv i]
    by (auto simp: vcablk_handle_task_def)
qed

section \<open>The loop over the devices\<close>

text \<open>The page asks for a stopped device to be run.\<close>

definition runs_stopped :: "vcablk_dev_page \<Rightarrow> vcablk_disk option list \<Rightarrow> nat \<Rightarrow> bool" where
  "runs_stopped page disks i \<longleftrightarrow> command (devs page ! i) = CMD_RUN \<and> stopped (disks ! i)"

lemma probe_one_stops:
  assumes "rings_inv fdev page disks" "runs_stopped page disks i"
  shows "probe_one te i fdev = None"
  using assms by (simp add: probe_one_def runs_stopped_def rings_inv_def vcablk_handle_task_def start_stopped CMD_RUN_def CMD_CREATE_def)

lemma probe_one_ok:
  assumes inv: "rings_inv fdev page disks" and i: "i < max_dev fdev" and run: "\<not> runs_stopped page disks i"
  shows "\<exists>fdev' page' disks' r. probe_one te i fdev = Some fdev' \<and> rings_inv fdev' page' disks' \<and> max_dev fdev' = max_dev fdev \<and>
    fd_intrs fdev' = fd_intrs fdev \<and> page' = page\<lparr>devs := (devs page)[i := (devs page ! i)\<lparr>response := r, command := 0\<rparr>]\<rparr> \<and>
    (command (devs page ! i) \<noteq> 0 \<longrightarrow> command_ack r = command (devs page ! i)) \<and> (\<forall>j. j \<noteq> i \<longrightarrow> disks' ! j = disks ! j)"
proof (cases "command (devs page ! i) = 0")
  case True
  have p: "pages fdev = Some page" "i < length (devs page)" using inv i by (simp_all add: rings_inv_def)
  have "(devs page ! i)\<lparr>response := response (devs page ! i), command := 0\<rparr> = devs page ! i"
    by (rule vcablk_device_ctrl.equality) (simp_all add: True)
  then have "page\<lparr>devs := (devs page)[i := (devs page ! i)\<lparr>response := response (devs page ! i), command := 0\<rparr>]\<rparr> = page" by simp
  then show ?thesis using inv p True by (auto simp: probe_one_def intro!: exI [of _ page] exI [of _ disks] exI [of _ "response (devs page ! i)"])
next
  case False
  let ?cmd = "command (devs page ! i)"
  have p: "pages fdev = Some page" "i < length (devs page)" using inv i by (simp_all add: rings_inv_def)
  obtain err f page1 disks' r where t: "vcablk_handle_task (te i) fdev ?cmd i = Some (err, f)" "rings_inv f page1 disks'"
    "max_dev f = max_dev fdev" "page1 = page\<lparr>devs := (devs page)[i := (devs page ! i)\<lparr>response := r\<rparr>]\<rparr>"
    "fd_intrs f = fd_intrs fdev" "\<forall>j. j \<noteq> i \<longrightarrow> disks' ! j = disks ! j"
  proof -
    have "task_ok i fdev (vcablk_handle_task (te i) fdev ?cmd i)"
      using handle_task_ok [OF inv i, of ?cmd "te i"] run by (simp add: runs_stopped_def)
    then obtain err f page1 disks' where k: "vcablk_handle_task (te i) fdev ?cmd i = Some (err, f)" "rings_inv f page1 disks'" "frame i fdev f"
      unfolding task_ok_def by blast
    moreover have "vcablk_disks fdev = Some disks" using inv by (simp add: rings_inv_def)
    ultimately show ?thesis using that [of err f page1 disks'] p by (auto simp: frame_def rings_inv_def)
  qed
  let ?r = "r\<lparr>status := word_of_int err, command_ack := ?cmd\<rparr>"
  let ?f = "ctrl_upd i (\<lambda>c. c\<lparr>response := (response c)\<lparr>status := word_of_int err, command_ack := ?cmd\<rparr>, command := 0\<rparr>) f"
  let ?page = "page\<lparr>devs := (devs page)[i := (devs page ! i)\<lparr>response := ?r, command := 0\<rparr>]\<rparr>"
  have "pages ?f = Some ?page" using t(2,4) p(2) by (simp add: ctrl_upd_def rings_inv_def)
  then have "rings_inv ?f ?page disks'" using t(2,4) by (simp add: rings_inv_def ctrl_upd_def)
  moreover have "probe_one te i fdev = Some ?f" using t(1) p(1) False by (simp add: probe_one_def Let_def)
  moreover have "max_dev ?f = max_dev fdev" "fd_intrs ?f = fd_intrs fdev" using t(3,5) by (simp_all add: ctrl_upd_def)
  ultimately show ?thesis by (intro exI [of _ ?f] exI [of _ ?page] exI [of _ disks'] exI [of _ ?r]) (use t(6) in simp)
qed

text \<open>The page after the commands of the devices \<open>is\<close> were carried out.\<close>

definition acknowledged :: "nat list \<Rightarrow> vcablk_dev_page \<Rightarrow> vcablk_dev_page \<Rightarrow> bool" where
  "acknowledged is page page' \<longleftrightarrow> (\<forall>i < length (devs page).
     if i \<in> set is
     then command (devs page' ! i) = 0 \<and>
       (command (devs page ! i) \<noteq> 0 \<longrightarrow> command_ack (response (devs page' ! i)) = command (devs page ! i))
     else devs page' ! i = devs page ! i)"

lemma probe_loop_stops:
  assumes "rings_inv fdev page disks" "set is \<subseteq> {..<max_dev fdev}" "distinct is" "i \<in> set is" "runs_stopped page disks i"
  shows "probe_loop te is fdev = None"
  using assms
proof (induction "is" arbitrary: fdev page disks)
  case (Cons k ks)
  show ?case
  proof (cases "runs_stopped page disks k")
    case True
    then show ?thesis using probe_one_stops [OF Cons.prems(1)] by simp
  next
    case False
    have k: "k < max_dev fdev" "k < length (devs page)" using Cons.prems by (auto simp: rings_inv_def)
    obtain f page1 disks1 r where f: "probe_one te k fdev = Some f" "rings_inv f page1 disks1" "max_dev f = max_dev fdev"
      "page1 = page\<lparr>devs := (devs page)[k := (devs page ! k)\<lparr>response := r, command := 0\<rparr>]\<rparr>" "\<forall>j. j \<noteq> k \<longrightarrow> disks1 ! j = disks ! j"
      using probe_one_ok [OF Cons.prems(1) k(1) False] by blast
    have "i \<noteq> k" using False Cons.prems(5) by auto
    then have "runs_stopped page1 disks1 i" using Cons.prems(5) f(4,5) by (simp add: runs_stopped_def)
    then have "probe_loop te ks f = None" using Cons.IH [OF f(2)] Cons.prems \<open>i \<noteq> k\<close> f(3) by auto
    then show ?thesis using f(1) by simp
  qed
qed simp

lemma probe_loop_ok:
  assumes "rings_inv fdev page disks" "set is \<subseteq> {..<max_dev fdev}" "distinct is" "\<forall>i \<in> set is. \<not> runs_stopped page disks i"
  shows "\<exists>fdev' page' disks'. probe_loop te is fdev = Some fdev' \<and> rings_inv fdev' page' disks' \<and> max_dev fdev' = max_dev fdev \<and>
    acknowledged is page page' \<and> length (devs page') = length (devs page) \<and> fd_intrs fdev' = fd_intrs fdev"
  using assms
proof (induction "is" arbitrary: fdev page disks)
  case Nil
  then show ?case by (auto simp: acknowledged_def)
next
  case (Cons i "is")
  have i: "i < max_dev fdev" "i < length (devs page)" using Cons.prems by (auto simp: rings_inv_def)
  obtain f page1 disks1 r where f: "probe_one te i fdev = Some f" "rings_inv f page1 disks1" "max_dev f = max_dev fdev"
    "page1 = page\<lparr>devs := (devs page)[i := (devs page ! i)\<lparr>response := r, command := 0\<rparr>]\<rparr>"
    "command (devs page ! i) \<noteq> 0 \<longrightarrow> command_ack r = command (devs page ! i)" "fd_intrs f = fd_intrs fdev"
    "\<forall>j. j \<noteq> i \<longrightarrow> disks1 ! j = disks ! j"
    using probe_one_ok [OF Cons.prems(1) i(1)] Cons.prems(4) by force
  have "\<forall>j \<in> set is. \<not> runs_stopped page1 disks1 j"
  proof
    fix j assume "j \<in> set is"
    moreover from this have "j \<noteq> i" using Cons.prems(3) by auto
    ultimately show "\<not> runs_stopped page1 disks1 j" using Cons.prems(4) f(4,7) by (simp add: runs_stopped_def)
  qed
  obtain f' page' disks' where f': "probe_loop te is f = Some f'" "rings_inv f' page' disks'" "max_dev f' = max_dev f"
    "acknowledged is page1 page'" "length (devs page') = length (devs page1)" "fd_intrs f' = fd_intrs f"
    using Cons.IH [OF f(2)] Cons.prems(2,3) f(3) \<open>\<forall>j \<in> set is. \<not> runs_stopped page1 disks1 j\<close> by auto
  have "acknowledged (i # is) page page'"
    unfolding acknowledged_def
  proof (intro allI impI)
    fix j assume j: "j < length (devs page)"
    then have a: "if j \<in> set is then command (devs page' ! j) = 0 \<and>
        (command (devs page1 ! j) \<noteq> 0 \<longrightarrow> command_ack (response (devs page' ! j)) = command (devs page1 ! j))
      else devs page' ! j = devs page1 ! j" using f'(4) f(4) by (simp add: acknowledged_def)
    show "if j \<in> set (i # is) then command (devs page' ! j) = 0 \<and>
        (command (devs page ! j) \<noteq> 0 \<longrightarrow> command_ack (response (devs page' ! j)) = command (devs page ! j))
      else devs page' ! j = devs page ! j"
      using a f(4,5) j i(2) Cons.prems(3) by (cases "j = i") auto
  qed
  then show ?case using f f' by auto
qed

text \<open>
  C24: when no request is in progress, a run of the work of the card answers every command of the host: the
  command field is cleared and the acknowledgement repeats the command. Afterwards the rings that are
  mapped are those of the devices that exist, whatever failed. There is one exception: if one of the commands is to
  run a device that was stopped before, the work stops the kernel.
\<close>

theorem probe_answers_all:
  assumes "rings_inv fdev page disks" "destroy_devpage page = 0" "num_devices page \<noteq> 0"
  shows "if \<exists>i < max_dev fdev. runs_stopped page disks i then vcablk_probe_work te fdev = None
    else \<exists>fdev' page' disks'. vcablk_probe_work te fdev = Some fdev' \<and> rings_inv fdev' page' disks' \<and>
      fd_intrs fdev' = fd_intrs fdev + 1 \<and> length (devs page') = max_dev fdev \<and>
      (\<forall>i < max_dev fdev. command (devs page' ! i) = 0 \<and>
         (command (devs page ! i) \<noteq> 0 \<longrightarrow> command_ack (response (devs page' ! i)) = command (devs page ! i)))"
proof (cases "\<exists>i < max_dev fdev. runs_stopped page disks i")
  case True
  then obtain i where "i < max_dev fdev" "runs_stopped page disks i" by blast
  then have "probe_loop te [0..<max_dev fdev] fdev = None"
    using probe_loop_stops [OF assms(1), of "[0..<max_dev fdev]" i te] by (auto simp: atLeast0LessThan)
  then show ?thesis using True assms by (simp add: vcablk_probe_work_def rings_inv_def)
next
  case False
  then obtain f page' disks' where f: "probe_loop te [0..<max_dev fdev] fdev = Some f" "rings_inv f page' disks'"
    "max_dev f = max_dev fdev" "acknowledged [0..<max_dev fdev] page page'" "length (devs page') = length (devs page)" "fd_intrs f = fd_intrs fdev"
    using probe_loop_ok [OF assms(1), of "[0..<max_dev fdev]" te] by (auto simp: atLeast0LessThan)
  have p: "pages fdev = Some page" "length (devs page) = max_dev fdev" using assms(1) by (simp_all add: rings_inv_def)
  let ?f = "f\<lparr>fd_intrs := fd_intrs f + 1\<rparr>"
  have w: "vcablk_probe_work te fdev = Some ?f" using f(1) assms(2,3) p by (simp add: vcablk_probe_work_def)
  have "rings_inv ?f page' disks'" using f(2) by (simp add: rings_inv_def)
  then have "\<exists>fdev' page' disks'. vcablk_probe_work te fdev = Some fdev' \<and> rings_inv fdev' page' disks' \<and>
      fd_intrs fdev' = fd_intrs fdev + 1 \<and> length (devs page') = max_dev fdev \<and>
      (\<forall>i < max_dev fdev. command (devs page' ! i) = 0 \<and>
         (command (devs page ! i) \<noteq> 0 \<longrightarrow> command_ack (response (devs page' ! i)) = command (devs page ! i)))"
    using w f(4-6) p by (intro exI [of _ ?f] exI [of _ page'] exI [of _ disks']) (auto simp: acknowledged_def)
  then show ?thesis using False by (simp only: if_False)
qed

text \<open>A page with one device, the driver with no device, and a kernel in which nothing fails.\<close>

definition one_ctrl :: "u8 \<Rightarrow> vcablk_device_ctrl" where
  "one_ctrl cmd = \<lparr>command = cmd, ctl_size_bytes = 4096, ctl_read_only = 0, ctl_request_db = 3,
     response = \<lparr>command_ack = 0, status = 0, done_db = - 1, rsp_request_ring = 0, rsp_request_ring_size = 0,
       rsp_completion_ring = 0, rsp_completion_ring_size = 0\<rparr>\<rparr>"

definition one_page :: "u8 \<Rightarrow> vcablk_dev_page" where
  "one_page cmd = \<lparr>version_frontend = 4, dev_page_size = 376, reinit_dev_page = 1, num_devices = 1, destroy_devpage = 0,
     notify_frontend_db = 2, devs = [one_ctrl cmd]\<rparr>"

definition one_dev :: "u8 \<Rightarrow> vcablk_disk option \<Rightarrow> u64 multiset \<Rightarrow> vcablk_dev" where
  "one_dev cmd d maps = \<lparr>pages = Some (one_page cmd), probe_db = 2, probe_db_cookie = 5, max_dev = 1, vcablk_disks = Some [d],
     irqs = {5}, ring_maps = maps, fd_intrs = 0\<rparr>"

definition no_request :: vcablk_request where
  "no_request = \<lparr>rq_phys_buff = 0, rq_sector = 0, rq_sectors_num = 0, rq_cookie = 0, rq_type = 0\<rparr>"

definition all_alloc :: disk_alloc where
  "all_alloc = \<lparr>al_kmalloc = True, al_pool = True, al_irq = Inr 6, al_disk = True, al_queue = True, al_thread = True\<rparr>"

definition all_ok :: task_env where
  "all_ok = \<lparr>te_alloc = all_alloc, te_kmalloc = (True, True), te_map_req = Inr 0x10000, te_map_ack = Inr 0x20000,
     te_mem_req = (\<lambda>i. no_request), te_mem_ack = (\<lambda>i. \<lparr>ack_cookie = 0, ack_ret = 0\<rparr>), te_next_db = 4\<rparr>"

lemma all_alloc_creates:
  assumes "bytes mod HARDSECT_SIZE = 0"
  shows "\<exists>d. vcablk_disk_create all_alloc cbs 0 bytes ro (Some rr) (Some ra) 4 4 = Some (Inr d, insert 6 cbs)"
proof -
  obtain cpool where cp: "vcablk_pool_init True zero_context SIZEOF_POOL_HEAD VCABLK_BIO_CTX_POOL_SIZE SIZEOF_BIO_CONTEXT = Some cpool"
    by (simp add: vcablk_pool_init_def VCABLK_BIO_CTX_POOL_SIZE_def VCABLK_POOL_USED_def)
  have nm: "vcablk_disk_format_name VCA_BLK_DISK_NAME 0 DISK_NAME_LEN = 0"
    by (simp add: vcablk_disk_format_name_def VCA_BLK_DISK_NAME_def DISK_NAME_LEN_def)
  show ?thesis using cp nm assms by (simp add: vcablk_disk_create_def disk_setup_def all_alloc_def Let_def)
qed

lemma all_ok_rings:
  "\<exists>rr. init_request_ring (fst (te_kmalloc all_ok)) (te_map_req all_ok) (te_mem_req all_ok) VCABLK_QUEUE_REQUESTS_NUMS = Inr rr"
  "\<exists>ra. init_completion_ring (snd (te_kmalloc all_ok)) (te_map_ack all_ok) (te_mem_ack all_ok) VCABLK_QUEUE_ACK_NUMS = Inr ra"
  by (simp_all add: init_request_ring_def init_completion_ring_def init_ring_def all_ok_def vcablk_alloc_buff_def ring_power)

theorem created_well_formed_witness:
  "\<exists>rr d. vcablk_disk_create all_alloc {} 0 0x20000000200 False (Some rr) (Some empty_ring) 4 4 = Some (Inr d, {6}) \<and>
     unat (size_bytes d) = 512"
proof -
  obtain rr where rr: "init_request_ring (fst (te_kmalloc all_ok)) (te_map_req all_ok) (te_mem_req all_ok) VCABLK_QUEUE_REQUESTS_NUMS = Inr rr"
    using all_ok_rings(1) by blast
  obtain d where "vcablk_disk_create all_alloc {} 0 0x20000000200 False (Some rr) (Some empty_ring) 4 4 = Some (Inr d, {6})"
    using all_alloc_creates [of "0x20000000200" "{}" False rr empty_ring] by (auto simp: HARDSECT_SIZE_def)
  then show ?thesis using created_well_formed [OF _ rr] by fastforce
qed

lemma one_dev_inv: "idle d \<Longrightarrow> maps = ring_addrs d \<Longrightarrow> rings_inv (one_dev cmd d maps) (one_page cmd) [d]"
  by (simp add: rings_inv_def one_dev_def one_page_def)

theorem probe_answers_all_witness:
  "\<exists>fdev' page' disks'. vcablk_probe_work (\<lambda>i. all_ok) (one_dev CMD_CREATE None {#}) = Some fdev' \<and> rings_inv fdev' page' disks' \<and>
     command (devs page' ! 0) = 0 \<and> command_ack (response (devs page' ! 0)) = CMD_CREATE"
proof -
  have "rings_inv (one_dev CMD_CREATE None {#}) (one_page CMD_CREATE) [None]"
    by (rule one_dev_inv) (simp_all add: idle_def ring_addrs_def)
  moreover have "destroy_devpage (one_page CMD_CREATE) = 0" "num_devices (one_page CMD_CREATE) \<noteq> 0" by (simp_all add: one_page_def)
  moreover have "max_dev (one_dev CMD_CREATE None {#}) = 1" "command (devs (one_page CMD_CREATE) ! 0) = CMD_CREATE" "CMD_CREATE \<noteq> 0"
    by (simp_all add: one_dev_def one_page_def one_ctrl_def CMD_CREATE_def)
  moreover have "\<not> runs_stopped (one_page CMD_CREATE) [None] 0" by (simp add: runs_stopped_def stopped_def)
  ultimately show ?thesis
    using probe_answers_all [of "one_dev CMD_CREATE None {#}" "one_page CMD_CREATE" "[None]" "\<lambda>i. all_ok"] by fastforce
qed

section \<open>Devices that are lost\<close>

text \<open>
  The command to run a device that already runs destroys it, also when the device is open.
\<close>

theorem run_twice_destroys:
  assumes "rings_inv fdev page disks" "i < max_dev fdev" "disks ! i = Some d" "gdisk_started d"
  shows "\<exists>fdev'. vcablk_handle_task te fdev CMD_RUN i = Some (- errno_num EINVAL, fdev') \<and> vcablk_disks fdev' = Some (disks[i := None])"
proof -
  have f: "vcablk_disks fdev = Some disks" "idle (Some d)" "i < length disks"
    using assms by (auto simp: rings_inv_def list_all_length)
  obtain e d' where s: "vcablk_disk_stop (Some d) False = Some (e, Some d')" "idle (Some d')"
    using f(2) that by (cases "gdisk d"; cases "0 < sint (ref_cnt d)") (simp_all add: vcablk_disk_stop_def idle_def)
  obtain e' cbs where k: "vcablk_disk_destroy (Some d') (irqs fdev) = Some (e', cbs)" using destroy_ok [OF s(2)] by blast
  show ?thesis
    using f s(1) k assms(3,4)
    by (simp add: vcablk_handle_task_def CMD_RUN_def CMD_CREATE_def vcablk_disk_start_def vcablk_device_destroy_id_def
        destroy_ring_def ctrl_upd_def)
qed

definition running :: vcablk_disk where
  "running = zero_disk\<lparr>gdisk := True, gdisk_started := True, request_thread := True, ref_cnt := 1\<rparr>"

lemma running_idle: "idle (Some running)" "ring_addrs (Some running) = {#0, 0#}"
  by (simp_all add: idle_def running_def zero_disk_def empty_pool_def empty_ring_def vcablk_pool_foreach_used_def ring_addrs_def)

theorem run_twice_destroys_witness:
  "\<exists>fdev'. vcablk_handle_task all_ok (one_dev CMD_RUN (Some running) {#0, 0#}) CMD_RUN 0 = Some (- 22, fdev') \<and> vcablk_disks fdev' = Some [None]"
proof -
  have "rings_inv (one_dev CMD_RUN (Some running) {#0, 0#}) (one_page CMD_RUN) [Some running]"
    by (rule one_dev_inv) (simp_all add: running_idle)
  moreover have "max_dev (one_dev CMD_RUN (Some running) {#0, 0#}) = 1" "gdisk_started running"
    by (simp_all add: one_dev_def running_def)
  ultimately show ?thesis
    using run_twice_destroys [of "one_dev CMD_RUN (Some running) {#0, 0#}" "one_page CMD_RUN" "[Some running]" 0 running all_ok] by simp
qed

lemma clean_loop_ok: "list_all idle ds \<Longrightarrow> \<exists>cbs'. clean_loop ds cbs = Some cbs'"
proof (induction ds arbitrary: cbs)
  case (Cons d ds)
  show ?case
  proof (cases d)
    case (Some dev)
    obtain e d1 where s: "vcablk_disk_stop d True = Some (e, d1)" "idle d1" using stop_ok [of d True] Cons.prems by auto
    obtain e' cbs1 where "vcablk_disk_destroy d1 cbs = Some (e', cbs1)" using destroy_ok [OF s(2)] by blast
    with s Some Cons show ?thesis by auto
  qed (use Cons in auto)
qed simp

text \<open>
  When the driver is removed, the devices are destroyed but the memory of their rings stays mapped for
  the host.
\<close>

theorem deinit_leaks_rings:
  assumes "rings_inv fdev page disks" "Some d \<in> set disks"
  shows "\<exists>fdev'. vcablk_deinit wait fdev = Some fdev' \<and> vcablk_disks fdev' = None \<and>
    dma_addr (request_ring d) \<in># ring_maps fdev' \<and> dma_addr (completion_ring d) \<in># ring_maps fdev'"
proof -
  have f: "vcablk_disks fdev = Some disks" "pages fdev = Some page" "list_all idle disks"
    "ring_maps fdev = (\<Sum>d \<in># mset disks. ring_addrs d)" using assms(1) by (simp_all add: rings_inv_def)
  obtain cbs where c: "clean_loop disks (irqs fdev) = Some cbs" using clean_loop_ok [OF f(3)] by blast
  obtain M where "mset disks = add_mset (Some d) M" using assms(2) by (metis multi_member_split set_mset_mset)
  then have "dma_addr (request_ring d) \<in># ring_maps fdev" "dma_addr (completion_ring d) \<in># ring_maps fdev"
    by (simp_all add: f(4) ring_addrs_def)
  then show ?thesis
    using c f(1,2) by (simp add: vcablk_deinit_def vcablk_clean_def vcablk_set_empty_devpage_def Let_def)
qed

theorem deinit_leaks_rings_witness:
  "\<exists>fdev'. vcablk_deinit (\<lambda>p. p\<lparr>destroy_devpage := DESTROY_DEV_PAGE_END\<rparr>) (one_dev 0 (Some running) {#0, 0#}) = Some fdev' \<and>
     vcablk_disks fdev' = None \<and> 0 \<in># ring_maps fdev'"
proof -
  have "rings_inv (one_dev 0 (Some running) {#0, 0#}) (one_page 0) [Some running]" by (rule one_dev_inv) (simp_all add: running_idle)
  moreover have "dma_addr (request_ring running) = 0" by (simp add: running_def zero_disk_def empty_ring_def)
  ultimately show ?thesis
    using deinit_leaks_rings [of "one_dev 0 (Some running) {#0, 0#}" "one_page 0" "[Some running]" running
        "\<lambda>p. p\<lparr>destroy_devpage := DESTROY_DEV_PAGE_END\<rparr>"] by auto
qed

end
