(* ===== verification/Vcablk_Media.thy ===== *)
theory Vcablk_Media
  imports Vca_Prelude
begin

unbundle bit_operations_syntax

text \<open>
  The storage behind a block device of the host (\<open>vcablk_bcknd/vcablk_bcknd_media.c\<close>): a piece of memory
  or a file. The functions of the kernel that read, write and synchronise a file are arguments. \<open>None\<close> is an
  access outside of the memory of the disk or outside of the buffer of a transfer.
\<close>

section \<open>State and operations\<close>

definition SECTOR_SHIFT :: nat where "SECTOR_SHIFT = 9"
definition SECTOR_SIZE :: nat where "SECTOR_SIZE = 512"
definition PATH_MAX :: nat where "PATH_MAX = 4096"

text \<open>\<open>type\<close>, the union \<open>data\<close>, and with them the functions that \<open>transfer\<close> and \<open>sync\<close> point to.\<close>

datatype 'f media_data = VCABLK_DISK_TYPE_UNINIT | VCABLK_DISK_TYPE_FILE 'f | VCABLK_DISK_TYPE_MEMORY "u8 list"

record 'f vcablk_media =
  m_read_only :: bool
  m_size_bytes :: u64
  m_file_path :: string
  m_data :: "'f media_data"

text \<open>Files: bytes read with the result, the file after a write with the result, the result of \<open>fsync\<close>.\<close>

record 'f file_ops =
  f_read :: "'f \<Rightarrow> u64 \<Rightarrow> u32 \<Rightarrow> int \<times> u8 list"
  f_write :: "'f \<Rightarrow> u64 \<Rightarrow> u8 list \<Rightarrow> int \<times> 'f"
  f_sync :: "'f \<Rightarrow> int"

definition media_transfer_mem ::
    "'f vcablk_media \<Rightarrow> u8 list \<Rightarrow> u64 \<Rightarrow> u64 \<Rightarrow> u8 list \<Rightarrow> bool \<Rightarrow> (int \<times> 'f vcablk_media \<times> u8 list) option" where
  "media_transfer_mem media memory sector nsect buffer write =
     (let offset = push_bit SECTOR_SHIFT sector;
          nbytes = push_bit SECTOR_SHIFT nsect
      in if m_size_bytes media < offset + nbytes then Some (- errno_num EIO, media, buffer)
         else if length memory < unat offset + unat nbytes \<or> length buffer < unat nbytes then None
         else if write
         then Some (0, media\<lparr>m_data := VCABLK_DISK_TYPE_MEMORY (splice (unat offset) (take (unat nbytes) buffer) memory)\<rparr>, buffer)
         else Some (0, media, splice 0 (slice (unat offset) (unat nbytes) memory) buffer))"

definition media_transfer_file ::
    "'f file_ops \<Rightarrow> 'f vcablk_media \<Rightarrow> 'f \<Rightarrow> u64 \<Rightarrow> u64 \<Rightarrow> u8 list \<Rightarrow> bool \<Rightarrow> (int \<times> 'f vcablk_media \<times> u8 list) option" where
  "media_transfer_file fo media file sector nsect buffer write =
     (let offset = push_bit SECTOR_SHIFT sector;
          nbytes = push_bit SECTOR_SHIFT nsect
      in if m_size_bytes media < offset + nbytes then Some (- errno_num EIO, media, buffer)
         else if write
         then if m_read_only media then Some (- errno_num EACCES, media, buffer)
              else if length buffer < unat (ucast nbytes :: u32) then None
              else case f_write fo file offset (take (unat (ucast nbytes :: u32)) buffer) of
                     (nbytesdone, file') \<Rightarrow> Some (0, media\<lparr>m_data := VCABLK_DISK_TYPE_FILE file'\<rparr>, buffer)
         else case f_read fo file offset (ucast nbytes) of
                (nbytesdone, bytes) \<Rightarrow>
                  if length buffer < length bytes then None else Some (0, media, splice 0 bytes buffer))"

definition media_sync_mem :: int where
  "media_sync_mem = 0"

definition media_sync_file :: "'f file_ops \<Rightarrow> 'f \<Rightarrow> int" where
  "media_sync_file fo file = f_sync fo file"

text \<open>The calls through \<open>transfer\<close> and \<open>sync\<close>; without a medium the pointers are null.\<close>

definition vcablk_media_transfer ::
    "'f file_ops \<Rightarrow> 'f vcablk_media \<Rightarrow> u64 \<Rightarrow> u64 \<Rightarrow> u8 list \<Rightarrow> bool \<Rightarrow> (int \<times> 'f vcablk_media \<times> u8 list) option" where
  "vcablk_media_transfer fo media sector nsect buffer write =
     (case m_data media of
        VCABLK_DISK_TYPE_UNINIT \<Rightarrow> None
      | VCABLK_DISK_TYPE_FILE file \<Rightarrow> media_transfer_file fo media file sector nsect buffer write
      | VCABLK_DISK_TYPE_MEMORY memory \<Rightarrow> media_transfer_mem media memory sector nsect buffer write)"

definition vcablk_media_sync :: "'f file_ops \<Rightarrow> 'f vcablk_media \<Rightarrow> int option" where
  "vcablk_media_sync fo media =
     (case m_data media of
        VCABLK_DISK_TYPE_UNINIT \<Rightarrow> None
      | VCABLK_DISK_TYPE_FILE file \<Rightarrow> Some (media_sync_file fo file)
      | VCABLK_DISK_TYPE_MEMORY memory \<Rightarrow> Some media_sync_mem)"

section \<open>Creating a medium\<close>

text \<open>A pointer that the kernel's \<open>ERR_PTR\<close> may have made of a number.\<close>

datatype 'a err_ptr = Ptr 'a | ERR_PTR int

definition IS_ERR :: "'a err_ptr \<Rightarrow> bool" where
  "IS_ERR p \<longleftrightarrow> (case p of Ptr a \<Rightarrow> False | ERR_PTR n \<Rightarrow> - 4095 \<le> n \<and> n < 0)"

definition media_create :: "bool \<Rightarrow> u64 \<Rightarrow> string \<Rightarrow> bool \<Rightarrow> 'f vcablk_media option" where
  "media_create vmalloc_ok size_bytes file_path read_only =
     (if PATH_MAX \<le> length file_path + 1 then None
      else if \<not> vmalloc_ok then None
      else Some \<lparr>m_read_only = read_only, m_size_bytes = size_bytes, m_file_path = file_path,
                 m_data = VCABLK_DISK_TYPE_UNINIT\<rparr>)"

text \<open>\<open>opened\<close> is what \<open>filp_open\<close> returns for the path and the mode.\<close>

definition vcablk_media_create_file ::
    "bool \<Rightarrow> (string \<Rightarrow> bool \<Rightarrow> 'f err_ptr) \<Rightarrow> u64 \<Rightarrow> string \<Rightarrow> bool \<Rightarrow> 'f vcablk_media err_ptr" where
  "vcablk_media_create_file vmalloc_ok opened size_bytes file_path read_only =
     (case media_create vmalloc_ok size_bytes file_path read_only of
        None \<Rightarrow> ERR_PTR (errno_num ENOMEM)
      | Some media \<Rightarrow>
          (case opened (m_file_path media) (m_read_only media) of
             Ptr file \<Rightarrow> Ptr (media\<lparr>m_data := VCABLK_DISK_TYPE_FILE file\<rparr>)
           | ERR_PTR err \<Rightarrow> ERR_PTR err))"

text \<open>The memory is what \<open>vmalloc\<close> returns, with arbitrary contents.\<close>

definition vcablk_media_create_memory ::
    "bool \<Rightarrow> (nat \<Rightarrow> u8 list option) \<Rightarrow> u64 \<Rightarrow> string \<Rightarrow> bool \<Rightarrow> 'f vcablk_media err_ptr" where
  "vcablk_media_create_memory vmalloc_ok vmalloc size_bytes file_path read_only =
     (case media_create vmalloc_ok size_bytes file_path read_only of
        None \<Rightarrow> ERR_PTR (errno_num ENOMEM)
      | Some media \<Rightarrow>
          (case vmalloc (unat (m_size_bytes media)) of
             Some memory \<Rightarrow> Ptr (media\<lparr>m_data := VCABLK_DISK_TYPE_MEMORY memory\<rparr>)
           | None \<Rightarrow> ERR_PTR (errno_num ENOMEM)))"

definition vcablk_media_destroy :: "'f vcablk_media \<Rightarrow> 'f vcablk_media" where
  "vcablk_media_destroy media = media\<lparr>m_data := VCABLK_DISK_TYPE_UNINIT\<rparr>"

definition vcablk_media_size :: "'f vcablk_media \<Rightarrow> u64" where
  "vcablk_media_size media = m_size_bytes media"

definition vcablk_media_read_only :: "'f vcablk_media \<Rightarrow> bool" where
  "vcablk_media_read_only media = m_read_only media"

section \<open>Transfers to memory\<close>

lemma unat_sectors: "unat (push_bit SECTOR_SHIFT (s :: u64)) = 512 * unat s mod 2 ^ 64"
  by (simp add: SECTOR_SHIFT_def push_bit_eq_mult unat_word_ariths mult.commute)

lemma unat_sectors_small: "unat (s :: u64) < 2 ^ 55 \<Longrightarrow> unat (push_bit SECTOR_SHIFT s) = 512 * unat s"
  by (simp add: unat_sectors)

lemma unat_sectors_end:
  fixes s n :: u64
  assumes "unat s + unat n < 2 ^ 55"
  shows "unat (push_bit SECTOR_SHIFT s + push_bit SECTOR_SHIFT n) = 512 * (unat s + unat n)"
  using assms by (simp add: unat_word_ariths unat_sectors_small)

lemma transfer_mem_error:
  assumes "unat sector + unat nsect < 2 ^ 55" "unat (m_size_bytes media) < 512 * (unat sector + unat nsect)"
  shows "media_transfer_mem media mem sector nsect buf w = Some (- errno_num EIO, media, buf)"
  using assms unat_sectors_end [OF assms(1)] by (simp add: media_transfer_mem_def word_less_nat_alt)

lemma transfer_mem_ok:
  assumes "unat sector + unat nsect < 2 ^ 55" "512 * (unat sector + unat nsect) \<le> unat (m_size_bytes media)"
    and "length mem = unat (m_size_bytes media)" "512 * unat nsect \<le> length buf"
  shows "media_transfer_mem media mem sector nsect buf True =
      Some (0, media\<lparr>m_data := VCABLK_DISK_TYPE_MEMORY (splice (512 * unat sector) (take (512 * unat nsect) buf) mem)\<rparr>, buf)"
    and "media_transfer_mem media mem sector nsect buf False =
      Some (0, media, splice 0 (slice (512 * unat sector) (512 * unat nsect) mem) buf)"
  using assms unat_sectors_end [OF assms(1)] unat_sectors_small [of sector] unat_sectors_small [of nsect]
  by (simp_all add: media_transfer_mem_def word_less_nat_alt Let_def)

text \<open>
  C39: A transfer between a buffer and a disk in memory whose last sector has a number below \<open>2 ^ 55\<close> never
  leaves the memory of the disk. Beyond the end of the disk it fails and changes nothing; otherwise what
  is written is read back, and all other sectors keep their contents.
\<close>
theorem media_write_read:
  assumes "m_data media = VCABLK_DISK_TYPE_MEMORY mem" "length mem = unat (m_size_bytes media)"
    and "unat sector + unat nsect < 2 ^ 55" "512 * unat nsect \<le> length buf" "length buf' = length buf"
  shows "if unat (m_size_bytes media) < 512 * (unat sector + unat nsect)
    then \<forall>w. vcablk_media_transfer fo media sector nsect buf w = Some (- errno_num EIO, media, buf)
    else \<exists>media'. vcablk_media_transfer fo media sector nsect buf True = Some (0, media', buf) \<and>
      vcablk_media_transfer fo media' sector nsect buf' False =
        Some (0, media', take (512 * unat nsect) buf @ drop (512 * unat nsect) buf') \<and>
      (\<forall>s n. unat s + unat n < 2 ^ 55 \<longrightarrow> 512 * (unat s + unat n) \<le> unat (m_size_bytes media) \<longrightarrow> 512 * unat n \<le> length buf \<longrightarrow>
         unat s + unat n \<le> unat sector \<or> unat sector + unat nsect \<le> unat s \<longrightarrow>
         map_option (\<lambda>(r, m, b). (r, b)) (vcablk_media_transfer fo media' s n buf' False) =
         map_option (\<lambda>(r, m, b). (r, b)) (vcablk_media_transfer fo media s n buf' False))"
proof (cases "unat (m_size_bytes media) < 512 * (unat sector + unat nsect)")
  case True
  then have "vcablk_media_transfer fo media sector nsect buf w = Some (- errno_num EIO, media, buf)" for w
    unfolding vcablk_media_transfer_def assms(1) media_data.case by (rule transfer_mem_error [OF assms(3)])
  with True show ?thesis by simp
next
  case False
  let ?new = "take (512 * unat nsect) buf"
  let ?mem' = "splice (512 * unat sector) ?new mem"
  let ?media' = "media\<lparr>m_data := VCABLK_DISK_TYPE_MEMORY ?mem'\<rparr>"
  have l: "length ?new = 512 * unat nsect" and l': "length ?mem' = unat (m_size_bytes ?media')"
    using assms False by auto
  note ok = transfer_mem_ok [OF assms(3), of media] and ok' = transfer_mem_ok(2) [where media = ?media', OF _ _ l']
  have "slice (512 * unat sector) (512 * unat nsect) ?mem' = ?new"
    using slice_splice [of "512 * unat sector" ?new mem] l assms(2) False by simp
  then have rd: "vcablk_media_transfer fo ?media' sector nsect buf' False = Some (0, ?media', ?new @ drop (512 * unat nsect) buf')"
    using ok' [of sector nsect buf'] assms False by (simp add: vcablk_media_transfer_def splice_def l)
  moreover have "vcablk_media_transfer fo media sector nsect buf True = Some (0, ?media', buf)"
    using ok(1) [of mem buf] assms False by (simp add: vcablk_media_transfer_def)
  moreover have "map_option (\<lambda>(r, m, b). (r, b)) (vcablk_media_transfer fo ?media' s n buf' False) =
         map_option (\<lambda>(r, m, b). (r, b)) (vcablk_media_transfer fo media s n buf' False)"
    if "unat s + unat n < 2 ^ 55" "512 * (unat s + unat n) \<le> unat (m_size_bytes media)" "512 * unat n \<le> length buf"
      "unat s + unat n \<le> unat sector \<or> unat sector + unat nsect \<le> unat s" for s n
  proof -
    have "slice (512 * unat s) (512 * unat n) ?mem' = slice (512 * unat s) (512 * unat n) mem"
      by (rule slice_splice_other) (use that l assms(2) False in auto)
    then show ?thesis
      using transfer_mem_ok(2) [OF that(1), of media mem buf'] ok' [OF that(1), of buf'] that assms
      by (simp add: vcablk_media_transfer_def)
  qed
  ultimately show ?thesis using False by (simp only: if_False) blast
qed

definition no_files :: "unit file_ops" where
  "no_files = \<lparr>f_read = \<lambda>f off n. (0, []), f_write = \<lambda>f off bs. (0, f), f_sync = \<lambda>f. 0\<rparr>"

definition small_disk :: "unit vcablk_media" where
  "small_disk = \<lparr>m_read_only = False, m_size_bytes = 2048, m_file_path = ''ram'', m_data = VCABLK_DISK_TYPE_MEMORY (replicate 2048 0)\<rparr>"

theorem media_write_read_witness:
  "\<exists>media'. vcablk_media_transfer no_files small_disk 1 1 (replicate 512 7) True = Some (0, media', replicate 512 7) \<and>
     vcablk_media_transfer no_files media' 1 1 (replicate 512 0) False = Some (0, media', replicate 512 7)"
  using media_write_read [of small_disk "replicate 2048 0" 1 1 "replicate 512 7" "replicate 512 0" no_files]
  by (auto simp: small_disk_def)

text \<open>
  The check for the end of the disk wraps around. A transfer of one sector at sector number
  \<open>2 ^ 55 - 1\<close> passes it on every disk and accesses memory outside of the disk.
\<close>
theorem media_check_wraps:
  "m_data media = VCABLK_DISK_TYPE_MEMORY mem \<Longrightarrow> length mem < 2 ^ 63 \<Longrightarrow>
   vcablk_media_transfer fo media (2 ^ 55 - 1) 1 buf w = None"
proof -
  assume m: "m_data media = VCABLK_DISK_TYPE_MEMORY mem" and l: "length mem < 2 ^ 63"
  define e where "e = push_bit SECTOR_SHIFT (2 ^ 55 - 1 :: u64)"
  have e: "unat e = 18446744073709551104" "e + push_bit SECTOR_SHIFT 1 = 0"
    by (simp_all add: e_def SECTOR_SHIFT_def push_bit_eq_mult)
  then have "\<not> m_size_bytes media < e + push_bit SECTOR_SHIFT 1" "length mem < unat e + unat (push_bit SECTOR_SHIFT (1 :: u64))"
    using l by simp_all
  then show ?thesis
    unfolding vcablk_media_transfer_def m media_data.case media_transfer_mem_def Let_def e_def [symmetric] by simp
qed

theorem media_check_wraps_witness:
  "vcablk_media_transfer no_files small_disk (2 ^ 55 - 1) 1 (replicate 512 0) True = None"
  by (rule media_check_wraps [of _ "replicate 2048 0"]) (simp_all add: small_disk_def)

text \<open>
  When there is no memory, creating a medium returns a pointer that the test for errors does not
  recognise, because the error number is not negated.
\<close>
theorem media_create_unnoticed:
  assumes "\<not> vmalloc_ok"
  shows "\<not> IS_ERR (vcablk_media_create_memory vmalloc_ok vmalloc bytes path ro :: 'f vcablk_media err_ptr)
    \<and> \<not> IS_ERR (vcablk_media_create_file vmalloc_ok opened bytes path ro :: 'f vcablk_media err_ptr)"
  using assms by (simp add: vcablk_media_create_memory_def vcablk_media_create_file_def media_create_def IS_ERR_def)

theorem media_create_unnoticed_witness:
  "vcablk_media_create_memory False (\<lambda>n. None) 512 ''disk'' False = (ERR_PTR 12 :: unit vcablk_media err_ptr) \<and>
   \<not> IS_ERR (vcablk_media_create_memory False (\<lambda>n. None) 512 ''disk'' False :: unit vcablk_media err_ptr)"
proof (rule conjI)
  show "vcablk_media_create_memory False (\<lambda>n. None) 512 ''disk'' False = (ERR_PTR 12 :: unit vcablk_media err_ptr)"
    by (simp add: vcablk_media_create_memory_def media_create_def)
qed (use media_create_unnoticed [of False] in blast)

end
