(* ===== verification/Vcablk_Bcknd_Disk.thy ===== *)
theory Vcablk_Bcknd_Disk
  imports Vcablk_Common Vcablk_Pool Vcablk_Media "HOL-Library.Multiset"
begin

unbundle bit_operations_syntax

text \<open>
  The host side of a block device (\<open>vcablk_bcknd/vcablk_bcknd_disk.c\<close>). Elements of the request ring are
  collected by cookie; every element is transferred in pieces of a buffer, by copying or by the DMA
  engine, between the memory of the card and the medium; the last piece of the last element answers with the
  cookie in the completion ring. A pointer that \<open>ioremap\<close> returned is modelled by the address in the
  memory of the card that it gives access to.
\<close>

section \<open>State\<close>

definition VCABLK_MAX_PARTS_PER_REQUEST :: nat where "VCABLK_MAX_PARTS_PER_REQUEST = 258"
definition VCABLK_TRANSFER_RING_SIZE :: u16 where "VCABLK_TRANSFER_RING_SIZE = 16"
definition IOREMAP_ATTEMPTS :: nat where "IOREMAP_ATTEMPTS = 10"
definition BCKND_PAGE_SIZE :: nat where "BCKND_PAGE_SIZE = 4096"

datatype disk_state = DISK_STATE_CREATE | DISK_STATE_OPEN

record callback_param_t =
  cb_sector :: u64
  cb_nsec :: u64
  cb_remapped :: "u64 option"
  cb_response_cookie :: int
  cb_is_write :: bool
  cb_do_flush :: bool

record transfer_parameters_t =
  tp_callback_param :: callback_param_t
  tp_buffer :: "u8 list"
  tp_tx :: bool

text \<open>A transfer that the DMA engine was given: parameters, address on the card and number of bytes.\<close>

record dma_job =
  job_param :: nat
  job_addr :: u64
  job_bytes :: nat

text \<open>
  The rings and \<open>b_mem\<close> are in the memory of the card; \<open>b_request_win\<close> and \<open>b_completion_win\<close> are the pointers
  to the rings, given by the addresses that are mapped. The last fields are what the hardware sees: the
  windows that are mapped, the jobs of the DMA engine that are not completed, the number of interrupts sent.
\<close>

record 'f vcablk_bcknd_disk =
  b_state :: disk_state
  b_media :: "'f vcablk_media"
  b_request_db :: int
  b_request_irq :: nat
  b_done_db :: int
  b_request_thread :: bool
  b_transfer_thread :: bool
  b_threads_count :: int
  b_transfer_ring :: "nat vcablk_ring option"
  b_request_win :: "u64 option"
  b_request_ring :: "vcablk_request vcablk_ring"
  b_request_ring_nums :: u16
  b_request_last_used :: u16
  b_completion_win :: "u64 option"
  b_completion_ring :: "vcablk_completion vcablk_ring"
  b_completion_ring_num_elems :: u16
  b_pool :: "transfer_parameters_t vcablk_pool"
  b_dma_ch :: bool
  b_mem :: "u64 \<Rightarrow> u8"
  b_windows :: "u64 multiset"
  b_jobs :: "dma_job list"
  b_intrs :: nat

text \<open>
  The surroundings: files; whether a window can be mapped in one of the waits for it; the wait for a buffer
  (whether one is available, and the disk afterwards); ten milliseconds of sleep; whether the DMA engine
  accepts a transfer.
\<close>

record 'f bcknd_env =
  be_files :: "'f file_ops"
  be_ioremap :: "'f vcablk_bcknd_disk \<Rightarrow> u64 \<Rightarrow> u64 \<Rightarrow> nat \<Rightarrow> bool"
  be_wait_buffer :: "'f vcablk_bcknd_disk \<Rightarrow> bool \<times> 'f vcablk_bcknd_disk"
  be_msleep :: "'f vcablk_bcknd_disk \<Rightarrow> 'f vcablk_bcknd_disk"
  be_dma_submit :: "'f vcablk_bcknd_disk \<Rightarrow> dma_job \<Rightarrow> bool"

definition tparam :: "'f vcablk_bcknd_disk \<Rightarrow> nat \<Rightarrow> transfer_parameters_t" where
  "tparam b = pool_data (b_pool b)"

definition tparam_upd ::
    "nat \<Rightarrow> (transfer_parameters_t \<Rightarrow> transfer_parameters_t) \<Rightarrow> 'f vcablk_bcknd_disk \<Rightarrow> 'f vcablk_bcknd_disk" where
  "tparam_upd i f b = b\<lparr>b_pool := pool_upd i f (b_pool b)\<rparr>"

section \<open>Answers\<close>

fun response_wait :: "'f bcknd_env \<Rightarrow> u16 \<Rightarrow> nat \<Rightarrow> 'f vcablk_bcknd_disk \<Rightarrow> bool \<times> 'f vcablk_bcknd_disk" where
  "response_wait env last_cnt 0 b = (False, b)"
| "response_wait env last_cnt (Suc sleep_counter) b =
     (if VCA_RB_BUFF_FULL last_cnt (last_used (b_completion_ring b)) (b_completion_ring_num_elems b)
      then if sleep_counter = 0 then (False, b) else response_wait env last_cnt sleep_counter (be_msleep env b)
      else (True, b))"

definition vcablk_bcknd_disk_send_response ::
    "'f bcknd_env \<Rightarrow> u16 \<Rightarrow> int \<Rightarrow> 'f vcablk_bcknd_disk \<Rightarrow> int \<times> 'f vcablk_bcknd_disk" where
  "vcablk_bcknd_disk_send_response env cookie ret b =
     (let last_cnt = last_add (b_completion_ring b) in
      case response_wait env last_cnt 200 b of
        (False, b1) \<Rightarrow> (- errno_num EIO, b1)
      | (True, b1) \<Rightarrow>
          let n = b_completion_ring_num_elems b1;
              ring = b_completion_ring b1
          in (0, b1\<lparr>b_completion_ring := ring
                      \<lparr>elems := (elems ring)[VCA_RB_COUNTER_TO_IDX last_cnt n := \<lparr>ack_cookie = cookie, ack_ret = word_of_int ret\<rparr>],
                       last_add := VCA_RB_COUNTER_ADD last_cnt 1 n\<rparr>,
                    b_intrs := b_intrs b1 + 1\<rparr>))"

definition vca_bcknd_complete_transfer :: "'f bcknd_env \<Rightarrow> nat \<Rightarrow> 'f vcablk_bcknd_disk \<Rightarrow> 'f vcablk_bcknd_disk option" where
  "vca_bcknd_complete_transfer env i b =
     (let tp = tparam b i;
          cb = tp_callback_param tp;
          b1 = tparam_upd i (\<lambda>t. t\<lparr>tp_tx := False\<rparr>) b
      in case (if cb_is_write cb
               then vcablk_media_transfer (be_files env) (b_media b1) (cb_sector cb) (cb_nsec cb) (tp_buffer tp) True
               else Some (0, b_media b1, tp_buffer tp)) of
           None \<Rightarrow> None
         | Some (err, media, _) \<Rightarrow>
             let b2 = b1\<lparr>b_media := media\<rparr> in
             (case (if 0 \<le> cb_response_cookie cb then
                      (case (if err = 0 \<and> cb_do_flush cb then vcablk_media_sync (be_files env) media else Some err) of
                         None \<Rightarrow> None
                       | Some err \<Rightarrow> Some (snd (vcablk_bcknd_disk_send_response env (word_of_int (cb_response_cookie cb)) err b2)))
                    else Some b2) of
                None \<Rightarrow> None
              | Some b3 \<Rightarrow> map_option (\<lambda>p. b3\<lparr>b_pool := p\<rparr>) (vcablk_pool_push (b_pool b3) (Some i))))"

text \<open>A full transfer ring is reported and the parameters are lost.\<close>

definition vca_bcknd_callback_dma :: "'f bcknd_env \<Rightarrow> nat \<Rightarrow> 'f vcablk_bcknd_disk \<Rightarrow> 'f vcablk_bcknd_disk option" where
  "vca_bcknd_callback_dma env i b =
     (let b1 = (case cb_remapped (tp_callback_param (tparam b i)) of
                  None \<Rightarrow> b
                | Some a \<Rightarrow>
                    tparam_upd i (\<lambda>t. t\<lparr>tp_callback_param := (tp_callback_param t)\<lparr>cb_remapped := None\<rparr>\<rparr>)
                      (b\<lparr>b_windows := b_windows b - {#a#}\<rparr>))
      in case b_transfer_ring b1 of
           None \<Rightarrow> vca_bcknd_complete_transfer env i b1
         | Some ring \<Rightarrow>
             if \<not> b_transfer_thread b1 then vca_bcknd_complete_transfer env i b1
             else
               let n = num_elems ring in
               if VCA_RB_BUFF_FULL (last_add ring) (last_used ring) n then Some b1
               else Some (b1\<lparr>b_transfer_ring := Some (ring
                      \<lparr>elems := (elems ring)[VCA_RB_COUNTER_TO_IDX (last_add ring) n := i],
                       last_add := VCA_RB_COUNTER_ADD (last_add ring) 1 n\<rparr>)\<rparr>))"

section \<open>Transfers\<close>

partial_function (option) buffer_wait :: "'f bcknd_env \<Rightarrow> 'f vcablk_bcknd_disk \<Rightarrow> 'f vcablk_bcknd_disk option" where
  "buffer_wait env b = (case be_wait_buffer env b of (available, b1) \<Rightarrow> if available then Some b1 else buffer_wait env b1)"

partial_function (option) vcablk_bcknd_get_transfer_param ::
    "'f bcknd_env \<Rightarrow> 'f vcablk_bcknd_disk \<Rightarrow> (nat \<times> 'f vcablk_bcknd_disk) option" where
  "vcablk_bcknd_get_transfer_param env b =
     (case vcablk_pool_pop (b_pool b) of
        Some (i, p) \<Rightarrow> if tp_tx (tparam (b\<lparr>b_pool := p\<rparr>) i) then None else Some (i, b\<lparr>b_pool := p\<rparr>)
      | None \<Rightarrow>
          (case buffer_wait env b of
             None \<Rightarrow> None
           | Some b1 \<Rightarrow> vcablk_bcknd_get_transfer_param env b1))"

definition vcablk_bcknd_ioremap ::
    "'f bcknd_env \<Rightarrow> u64 \<Rightarrow> u64 \<Rightarrow> 'f vcablk_bcknd_disk \<Rightarrow> u64 option \<times> 'f vcablk_bcknd_disk" where
  "vcablk_bcknd_ioremap env phys_buff len b =
     (if list_ex (be_ioremap env b phys_buff len) [0..<IOREMAP_ATTEMPTS]
      then (Some phys_buff, b\<lparr>b_windows := add_mset phys_buff (b_windows b)\<rparr>)
      else (None, b))"

text \<open>The copy that a piece asks for, between its buffer and the memory of the card.\<close>

definition piece_copy :: "nat \<Rightarrow> u64 \<Rightarrow> nat \<Rightarrow> 'f vcablk_bcknd_disk \<Rightarrow> 'f vcablk_bcknd_disk" where
  "piece_copy i a bytes b =
     (if cb_is_write (tp_callback_param (tparam b i))
      then tparam_upd i (\<lambda>t. t\<lparr>tp_buffer := splice 0 (fetch a bytes (b_mem b)) (tp_buffer t)\<rparr>) b
      else b\<lparr>b_mem := patch a (take bytes (tp_buffer (tparam b i))) (b_mem b)\<rparr>)"

definition vcablk_bcknd_transfer_device ::
    "'f bcknd_env \<Rightarrow> nat \<Rightarrow> u64 \<Rightarrow> nat \<Rightarrow> 'f vcablk_bcknd_disk \<Rightarrow> (int \<times> 'f vcablk_bcknd_disk) option" where
  "vcablk_bcknd_transfer_device env i remapped bytes b =
     (if \<not> b_dma_ch b
      then map_option (\<lambda>b1. (0, b1)) (vca_bcknd_callback_dma env i (piece_copy i remapped bytes b))
      else if tp_tx (tparam b i) then None
      else
        let job = \<lparr>job_param = i, job_addr = remapped, job_bytes = bytes\<rparr> in
        if be_dma_submit env b job
        then Some (0, (tparam_upd i (\<lambda>t. t\<lparr>tp_tx := True\<rparr>) b)\<lparr>b_jobs := b_jobs b @ [job]\<rparr>)
        else Some (- errno_num ENOMEM, b))"

text \<open>The DMA engine completes its first job and calls back.\<close>

definition dma_job_done :: "'f bcknd_env \<Rightarrow> 'f vcablk_bcknd_disk \<Rightarrow> 'f vcablk_bcknd_disk option" where
  "dma_job_done env b =
     (case b_jobs b of
        [] \<Rightarrow> Some b
      | job # jobs \<Rightarrow>
          vca_bcknd_callback_dma env (job_param job)
            (piece_copy (job_param job) (job_addr job) (job_bytes job) (b\<lparr>b_jobs := jobs\<rparr>)))"

definition piece_callback :: "u64 \<Rightarrow> u64 \<Rightarrow> u64 \<Rightarrow> u64 \<Rightarrow> bool \<Rightarrow> int \<Rightarrow> bool \<Rightarrow> callback_param_t" where
  "piece_callback remapped sector nsec left write response_cookie do_flush =
     \<lparr>cb_sector = sector, cb_nsec = nsec,
      cb_remapped = (if left = 0 then Some remapped else None),
      cb_response_cookie = (if left = 0 then response_cookie else - 1),
      cb_is_write = write,
      cb_do_flush = (left = 0 \<and> do_flush)\<rparr>"

text \<open>The loop over the pieces: the result, with the buffer of a failed piece not returned to the pool.\<close>

partial_function (option) transfer_loop ::
    "'f bcknd_env \<Rightarrow> u64 \<Rightarrow> u64 \<Rightarrow> u64 \<Rightarrow> u64 \<Rightarrow> bool \<Rightarrow> int \<Rightarrow> bool \<Rightarrow> 'f vcablk_bcknd_disk \<Rightarrow>
     (int \<times> 'f vcablk_bcknd_disk) option" where
  "transfer_loop env remapped offset_ptr sector sectors_num write response_cookie do_flush b =
     (if sectors_num = 0 then Some (0, b)
      else
        (case vcablk_bcknd_get_transfer_param env b of
           None \<Rightarrow> None
         | Some (i, b1) \<Rightarrow>
             let nsec = min sectors_num (word_of_nat (length (tp_buffer (tparam b1 i)) div SECTOR_SIZE));
                 bytes = push_bit SECTOR_SHIFT nsec;
                 left = sectors_num - nsec;
                 b2 = tparam_upd i (\<lambda>t. t\<lparr>tp_callback_param :=
                        piece_callback remapped sector nsec left write response_cookie do_flush\<rparr>) b1
             in (case (if write then Some (0, b2)
                       else map_option (\<lambda>(ret, media, buf).
                              (ret, tparam_upd i (\<lambda>t. t\<lparr>tp_buffer := buf\<rparr>) (b2\<lparr>b_media := media\<rparr>)))
                              (vcablk_media_transfer (be_files env) (b_media b2) sector nsec (tp_buffer (tparam b2 i)) False)) of
                   None \<Rightarrow> None
                 | Some (ret, b3) \<Rightarrow>
                     if ret \<noteq> 0 then Some (ret, b3)
                     else
                       (case vcablk_bcknd_transfer_device env i offset_ptr (unat bytes) b3 of
                          None \<Rightarrow> None
                        | Some (ret, b4) \<Rightarrow>
                            if ret \<noteq> 0 then Some (ret, b4)
                            else transfer_loop env remapped (offset_ptr + bytes) (sector + nsec) left write
                                   response_cookie do_flush b4))))"

definition vcablk_bcknd_transfer ::
    "'f bcknd_env \<Rightarrow> u64 \<Rightarrow> u64 \<Rightarrow> u64 \<Rightarrow> bool \<Rightarrow> int \<Rightarrow> bool \<Rightarrow> 'f vcablk_bcknd_disk \<Rightarrow>
     (int \<times> 'f vcablk_bcknd_disk) option" where
  "vcablk_bcknd_transfer env sector sectors_num phys_buff write response_cookie do_flush b =
     (case vcablk_bcknd_ioremap env phys_buff (push_bit SECTOR_SHIFT sectors_num) b of
        (None, b1) \<Rightarrow> Some (- errno_num EIO, b1)
      | (Some remapped, b1) \<Rightarrow>
          map_option (\<lambda>(ret, b2).
            (ret, if ret \<noteq> 0 then b2\<lparr>b_windows := b_windows b2 - {#remapped#}\<rparr> else b2))
            (transfer_loop env remapped remapped sector sectors_num write response_cookie do_flush b1))"

section \<open>A request\<close>

record request_info =
  ri_err :: int
  ri_cookie :: u16
  ri_type :: u8
  ri_sector :: u64
  ri_sectors_num :: u64
  ri_sync_before :: bool
  ri_sync_after :: bool

text \<open>The check of the elements from number \<open>i\<close> on.\<close>

fun info_loop :: "u16 \<Rightarrow> u8 \<Rightarrow> nat \<Rightarrow> nat \<Rightarrow> u64 \<Rightarrow> u64 \<Rightarrow> vcablk_request list \<Rightarrow> int \<times> u64" where
  "info_loop cookie typ i n check_sector num [] = (0, num)"
| "info_loop cookie typ i n check_sector num (request # rs) =
     (if cookie \<noteq> rq_cookie request then (- errno_num EIO, num)
      else if rq_type request = REQUEST_SYNC \<and> (i = 0 \<or> i + 1 = n)
      then info_loop cookie typ (i + 1) n check_sector num rs
      else if typ \<noteq> rq_type request then (- errno_num EIO, num)
      else if check_sector \<noteq> rq_sector request then (- errno_num EIO, num)
      else info_loop cookie typ (i + 1) n (check_sector + rq_sectors_num request) (num + rq_sectors_num request) rs)"

text \<open>
  An empty request leaves the outputs as the caller set them; the cookie is then 0.
\<close>

definition vcablk_bcknd_disk_request_get_info :: "vcablk_request list \<Rightarrow> request_info" where
  "vcablk_bcknd_disk_request_get_info buff =
     (case buff of
        [] \<Rightarrow> \<lparr>ri_err = - errno_num EIO, ri_cookie = 0, ri_type = 0, ri_sector = 0, ri_sectors_num = 0,
               ri_sync_before = False, ri_sync_after = False\<rparr>
      | first # rest \<Rightarrow>
          let cookie = rq_cookie first;
              sync_after = (rq_type (last buff) = REQUEST_SYNC)
          in if rq_type first = REQUEST_SYNC \<and> rest = []
             then \<lparr>ri_err = 0, ri_cookie = cookie, ri_type = REQUEST_SYNC, ri_sector = 0, ri_sectors_num = 0,
                   ri_sync_before = False, ri_sync_after = sync_after\<rparr>
             else
               let sync_before = (rq_type first = REQUEST_SYNC);
                   request = (if sync_before then rest ! 0 else first);
                   typ = rq_type request
               in if typ \<noteq> REQUEST_READ \<and> typ \<noteq> REQUEST_WRITE \<and> typ \<noteq> REQUEST_SYNC
                  then \<lparr>ri_err = - errno_num EIO, ri_cookie = cookie, ri_type = typ, ri_sector = rq_sector request,
                        ri_sectors_num = 0, ri_sync_before = sync_before, ri_sync_after = sync_after\<rparr>
                  else
                    (case info_loop cookie typ 0 (length buff) (rq_sector request) 0 buff of
                       (err, num) \<Rightarrow>
                         \<lparr>ri_err = err, ri_cookie = cookie, ri_type = typ, ri_sector = rq_sector request,
                          ri_sectors_num = num, ri_sync_before = sync_before, ri_sync_after = sync_after\<rparr>))"

text \<open>The transfers of the elements; the last one answers.\<close>

fun request_loop ::
    "'f bcknd_env \<Rightarrow> bool \<Rightarrow> u16 \<Rightarrow> bool \<Rightarrow> vcablk_request list \<Rightarrow> 'f vcablk_bcknd_disk \<Rightarrow>
     (int \<times> 'f vcablk_bcknd_disk) option" where
  "request_loop env write cookie sync_after [] b = Some (0, b)"
| "request_loop env write cookie sync_after (request # rs) b =
     (case vcablk_bcknd_transfer env (rq_sector request) (rq_sectors_num request) (rq_phys_buff request) write
             (if rs = [] then uint cookie else - 1) (rs = [] \<and> sync_after) b of
        None \<Rightarrow> None
      | Some (err, b1) \<Rightarrow> if err \<noteq> 0 then Some (err, b1) else request_loop env write cookie sync_after rs b1)"

definition vcablk_bcknd_disk_request ::
    "'f bcknd_env \<Rightarrow> vcablk_request list \<Rightarrow> 'f vcablk_bcknd_disk \<Rightarrow> (int \<times> 'f vcablk_bcknd_disk) option" where
  "vcablk_bcknd_disk_request env buff b =
     (let info = vcablk_bcknd_disk_request_get_info buff;
          answer = (\<lambda>err b. (err, snd (vcablk_bcknd_disk_send_response env (ri_cookie info) err b)))
      in if ri_err info \<noteq> 0 then Some (answer (ri_err info) b)
         else
           (case (if ri_sync_before info then vcablk_media_sync (be_files env) (b_media b) else Some 0) of
              None \<Rightarrow> None
            | Some err \<Rightarrow>
                if ri_sync_before info \<and> (err \<noteq> 0 \<or> length buff = 1) then Some (answer err b)
                else
                  let first = (if ri_sync_before info then 1 else 0);
                      end_id = (if ri_sync_after info then length buff - 1 else length buff)
                  in map_option (\<lambda>(err, b1). if err \<noteq> 0 then answer err b1 else (err, b1))
                       (request_loop env (ri_type info = REQUEST_WRITE) (ri_cookie info) (ri_sync_after info)
                          (drop first (take end_id buff)) b)))"

section \<open>The request ring\<close>

text \<open>The elements of one cookie from a counter on, and the counter behind them.\<close>

partial_function (option) next_request_loop ::
    "vcablk_request vcablk_ring \<Rightarrow> u16 \<Rightarrow> u16 \<Rightarrow> u16 \<Rightarrow> u16 \<Rightarrow> vcablk_request list \<Rightarrow> (vcablk_request list \<times> u16) option" where
  "next_request_loop ring nums last_cnt cookie used buff =
     (if used \<noteq> last_cnt \<and> length buff < VCABLK_MAX_PARTS_PER_REQUEST
      then
        let request = VCABLK_RING_GET_OBJ used nums (elems ring);
            cookie1 = (if cookie = 0 then rq_cookie request else cookie)
        in if cookie1 = 0 then next_request_loop ring nums last_cnt cookie1 (VCA_RB_COUNTER_ADD used 1 nums) buff
           else if cookie1 \<noteq> rq_cookie request then Some (buff, used)
           else next_request_loop ring nums last_cnt cookie1 (VCA_RB_COUNTER_ADD used 1 nums) (buff @ [request])
      else Some (buff, used))"

definition vcablk_bcknd_disk_get_next_request ::
    "'f vcablk_bcknd_disk \<Rightarrow> (vcablk_request list \<times> 'f vcablk_bcknd_disk) option" where
  "vcablk_bcknd_disk_get_next_request b =
     (let ring = b_request_ring b in
      if b_request_last_used b \<noteq> last_add ring
      then map_option (\<lambda>(buff, used). (buff, b\<lparr>b_request_last_used := used, b_request_ring := ring\<lparr>last_used := used\<rparr>\<rparr>))
             (next_request_loop ring (b_request_ring_nums b) (last_add ring) 0 (b_request_last_used b) [])
      else Some ([], b))"

text \<open>One round of the inner loop of the request thread, and the loop up to the counter \<open>last_cnt\<close>.\<close>

definition bcknd_serve :: "'f bcknd_env \<Rightarrow> 'f vcablk_bcknd_disk \<Rightarrow> 'f vcablk_bcknd_disk option" where
  "bcknd_serve env b =
     (case vcablk_bcknd_disk_get_next_request b of
        None \<Rightarrow> None
      | Some (buff, b1) \<Rightarrow> if buff \<noteq> [] then map_option snd (vcablk_bcknd_disk_request env buff b1) else Some b1)"

partial_function (option) bcknd_thread_loop :: "'f bcknd_env \<Rightarrow> u16 \<Rightarrow> 'f vcablk_bcknd_disk \<Rightarrow> 'f vcablk_bcknd_disk option" where
  "bcknd_thread_loop env last_cnt b =
     (if last_cnt \<noteq> b_request_last_used b
      then (case bcknd_serve env b of None \<Rightarrow> None | Some b1 \<Rightarrow> bcknd_thread_loop env last_cnt b1)
      else Some b)"

text \<open>One round of the transfer thread: the first element of the transfer ring is completed.\<close>

definition bcknd_transfer_round :: "'f bcknd_env \<Rightarrow> 'f vcablk_bcknd_disk \<Rightarrow> 'f vcablk_bcknd_disk option" where
  "bcknd_transfer_round env b =
     (case b_transfer_ring b of
        None \<Rightarrow> Some b
      | Some ring \<Rightarrow>
          let n = num_elems ring; used = last_used ring in
          if VCA_RB_BUFF_EMPTY (last_add ring) used then Some b
          else map_option (\<lambda>b1. b1\<lparr>b_transfer_ring := map_option (\<lambda>r. r\<lparr>last_used := VCA_RB_COUNTER_ADD used 1 n\<rparr>) (b_transfer_ring b1)\<rparr>)
                 (vca_bcknd_complete_transfer env (elems ring ! VCA_RB_COUNTER_TO_IDX used n) b))"

end
