(* ===== verification/Vcablk_Bcknd_Facts.thy ===== *)
theory Vcablk_Bcknd_Facts
  imports Vcablk_Bcknd_Disk
begin

unbundle bit_operations_syntax

text \<open>
  What the host side of a block device does with a disk in memory when data is copied without the DMA
  engine: a request is served as a whole, and answered once.
\<close>

section \<open>Invariant\<close>

text \<open>The disk has the contents \<open>D\<close>, and \<open>fl\<close> are the free transfer buffers.\<close>

definition back_ok :: "'f vcablk_bcknd_disk \<Rightarrow> u8 list \<Rightarrow> nat list \<Rightarrow> bool" where
  "back_ok b D fl \<longleftrightarrow>
     \<not> b_dma_ch b \<and> b_transfer_ring b = None \<and>
     m_data (b_media b) = VCABLK_DISK_TYPE_MEMORY D \<and> length D = unat (m_size_bytes (b_media b)) \<and>
     pool_rel (b_pool b) fl \<and>
     (\<forall>i < unat (p_num (b_pool b)). length (tp_buffer (tparam b i)) = BCKND_PAGE_SIZE \<and> \<not> tp_tx (tparam b i)) \<and>
     ring_ok (b_completion_ring b) \<and> b_completion_ring_num_elems b = num_elems (b_completion_ring b)"

definition bkept :: "'f vcablk_bcknd_disk \<Rightarrow> 'f vcablk_bcknd_disk \<Rightarrow> bool" where
  "bkept b b' \<longleftrightarrow> b_request_ring b' = b_request_ring b \<and> b_request_ring_nums b' = b_request_ring_nums b \<and>
     b_request_last_used b' = b_request_last_used b \<and> num_elems (b_completion_ring b') = num_elems (b_completion_ring b) \<and>
     p_num (b_pool b') = p_num (b_pool b) \<and> m_size_bytes (b_media b') = m_size_bytes (b_media b)"

lemma bkept_refl [simp]: "bkept b b"
  by (simp add: bkept_def)

lemma bkept_trans: "bkept b b' \<Longrightarrow> bkept b' b'' \<Longrightarrow> bkept b b''"
  by (simp add: bkept_def)

abbreviation "answers b \<equiv> ring_queue_of (b_completion_ring b)"

lemma tparam_upd_simps [simp]:
  "b_dma_ch (tparam_upd i f b) = b_dma_ch b" "b_transfer_ring (tparam_upd i f b) = b_transfer_ring b"
  "b_media (tparam_upd i f b) = b_media b" "b_completion_ring (tparam_upd i f b) = b_completion_ring b"
  "b_completion_ring_num_elems (tparam_upd i f b) = b_completion_ring_num_elems b"
  "b_mem (tparam_upd i f b) = b_mem b" "b_windows (tparam_upd i f b) = b_windows b"
  "pool_rel (b_pool (tparam_upd i f b)) fl = pool_rel (b_pool b) fl" "p_num (b_pool (tparam_upd i f b)) = p_num (b_pool b)"
  "bkept (tparam_upd i f b) b' = bkept b b'" "bkept b' (tparam_upd i f b) = bkept b' b"
  by (auto simp: tparam_upd_def bkept_def)

lemma tparam_tparam_upd:
  "pool_rel (b_pool b) fl \<Longrightarrow> i < unat (p_num (b_pool b)) \<Longrightarrow> tparam (tparam_upd i f b) = (tparam b)(i := f (tparam b i))"
  by (simp add: tparam_def tparam_upd_def data_upd rel_alloc)

lemma back_ok_upd:
  assumes "back_ok b D fl" "i < unat (p_num (b_pool b))" "length (tp_buffer (f (tparam b i))) = BCKND_PAGE_SIZE" "\<not> tp_tx (f (tparam b i))"
  shows "back_ok (tparam_upd i f b) D fl"
  using assms tparam_tparam_upd [of b fl i f] by (auto simp: back_ok_def)

section \<open>Answers\<close>

lemma send_response_ok:
  assumes "back_ok b D fl" "length (answers b) < unat (num_elems (b_completion_ring b))"
  shows "\<exists>b'. vcablk_bcknd_disk_send_response env cookie ret b = (0, b') \<and> back_ok b' D fl \<and> bkept b b' \<and>
    answers b' = answers b @ [\<lparr>ack_cookie = cookie, ack_ret = word_of_int ret\<rparr>] \<and>
    b_mem b' = b_mem b \<and> b_windows b' = b_windows b \<and> b_pool b' = b_pool b"
proof -
  have r: "ring_ok (b_completion_ring b)" "b_completion_ring_num_elems b = num_elems (b_completion_ring b)"
    using assms(1) by (auto simp: back_ok_def)
  have "\<not> VCA_RB_BUFF_FULL (last_add (b_completion_ring b)) (last_used (b_completion_ring b)) (num_elems (b_completion_ring b))"
    using ring_full_iff [OF r(1)] assms(2) by simp
  moreover have "(200 :: nat) = Suc 199" by simp
  ultimately have w: "response_wait env (last_add (b_completion_ring b)) 200 b = (True, b)"
    using r(2) by (simp only: response_wait.simps if_False)
  show ?thesis
    using w r ring_push [OF r(1) assms(2), of "\<lparr>ack_cookie = cookie, ack_ret = word_of_int ret\<rparr>"] assms(1)
    by (simp add: vcablk_bcknd_disk_send_response_def Let_def back_ok_def bkept_def tparam_def)
qed

lemma complete_ok:
  assumes b: "back_ok b D fl" and i: "i < unat (p_num (b_pool b))" "i \<notin> set fl"
    and cb: "tp_callback_param (tparam b i) = cb"
    and range: "cb_is_write cb \<Longrightarrow> unat (cb_sector cb) + unat (cb_nsec cb) < 2 ^ 55 \<and>
      512 * (unat (cb_sector cb) + unat (cb_nsec cb)) \<le> length D \<and> unat (cb_nsec cb) \<le> 8"
    and room: "0 \<le> cb_response_cookie cb \<Longrightarrow> length (answers b) < unat (num_elems (b_completion_ring b))"
  shows "\<exists>b'. vca_bcknd_complete_transfer env i b = Some b' \<and>
    back_ok b' (if cb_is_write cb
       then splice (512 * unat (cb_sector cb)) (take (512 * unat (cb_nsec cb)) (tp_buffer (tparam b i))) D else D) (fl @ [i]) \<and>
    bkept b b' \<and> b_mem b' = b_mem b \<and> b_windows b' = b_windows b \<and>
    answers b' = answers b @ (if 0 \<le> cb_response_cookie cb
      then [\<lparr>ack_cookie = word_of_int (cb_response_cookie cb), ack_ret = 0\<rparr>] else [])"
proof -
  let ?buf = "tp_buffer (tparam b i)"
  let ?D = "if cb_is_write cb then splice (512 * unat (cb_sector cb)) (take (512 * unat (cb_nsec cb)) ?buf) D else D"
  let ?b1 = "tparam_upd i (\<lambda>t. t\<lparr>tp_tx := False\<rparr>) b"
  have m: "m_data (b_media b) = VCABLK_DISK_TYPE_MEMORY D" "length D = unat (m_size_bytes (b_media b))" "length ?buf = 4096"
    "pool_rel (b_pool b) fl" using b i(1) by (auto simp: back_ok_def BCKND_PAGE_SIZE_def)
  define media where "media = (b_media b)\<lparr>m_data := VCABLK_DISK_TYPE_MEMORY ?D\<rparr>"
  have tr: "(if cb_is_write cb then vcablk_media_transfer (be_files env) (b_media ?b1) (cb_sector cb) (cb_nsec cb) ?buf True
       else Some (0, b_media ?b1, ?buf)) = Some (0, media, ?buf)"
    using transfer_mem_ok(1) [of "cb_sector cb" "cb_nsec cb" "b_media b" D ?buf] range m
    by (auto simp: vcablk_media_transfer_def media_def)
  have b1: "back_ok ?b1 D fl" by (rule back_ok_upd [OF b i(1)]) (use m in \<open>simp_all add: BCKND_PAGE_SIZE_def\<close>)
  have lD: "length ?D = length D" using range m by auto
  let ?b2 = "?b1\<lparr>b_media := media\<rparr>"
  have b2: "back_ok ?b2 ?D fl" using b1 m lD by (auto simp: back_ok_def media_def tparam_def)
  let ?rsp = "if 0 \<le> cb_response_cookie cb
      then Some (snd (vcablk_bcknd_disk_send_response env (word_of_int (cb_response_cookie cb)) 0 ?b2)) else Some ?b2"
  obtain b3 where b3: "?rsp = Some b3" "back_ok b3 ?D fl" "bkept ?b2 b3" "b_mem b3 = b_mem b" "b_windows b3 = b_windows b"
    "answers b3 = answers b @ (if 0 \<le> cb_response_cookie cb
      then [\<lparr>ack_cookie = word_of_int (cb_response_cookie cb), ack_ret = 0\<rparr>] else [])"
    using send_response_ok [OF b2, of env "word_of_int (cb_response_cookie cb)" 0] room b2 by (cases "0 \<le> cb_response_cookie cb") auto
  have "pool_rel (b_pool b3) fl" "i < unat (p_num (b_pool b3))" using b3(2,3) i by (auto simp: back_ok_def bkept_def)
  then obtain p where p: "vcablk_pool_push (b_pool b3) (Some i) = Some p" "pool_rel p (fl @ [i])" "p_num p = p_num (b_pool b3)"
    using push_rel i(2) by blast
  have sync: "(if 0 = (0::int) \<and> cb_do_flush cb then vcablk_media_sync (be_files env) media else Some 0) = Some 0"
    by (simp add: vcablk_media_sync_def media_def media_sync_mem_def)
  have "vca_bcknd_complete_transfer env i b = Some (b3\<lparr>b_pool := p\<rparr>)"
    unfolding vca_bcknd_complete_transfer_def Let_def cb tr option.case prod.case sync using b3(1) p(1)
    by (simp split: if_splits)
  moreover have "back_ok (b3\<lparr>b_pool := p\<rparr>) ?D (fl @ [i])"
    using b3(2) p push_data [OF p(1)] by (simp add: back_ok_def tparam_def)
  moreover have "bkept b (b3\<lparr>b_pool := p\<rparr>)"
    using b3(3) p(3) by (simp add: bkept_def media_def tparam_upd_def)
  ultimately show ?thesis using b3 by (intro exI [of _ "b3\<lparr>b_pool := p\<rparr>"]) simp
qed

section \<open>Transfers\<close>

text \<open>What a transfer of sectors means for the disk and for the memory of the card.\<close>

definition moved :: "bool \<Rightarrow> nat \<Rightarrow> nat \<Rightarrow> u64 \<Rightarrow> u8 list \<times> (u64 \<Rightarrow> u8) \<Rightarrow> u8 list \<times> (u64 \<Rightarrow> u8)" where
  "moved write sector n a s =
     (if write then (splice (512 * sector) (fetch a (512 * n) (snd s)) (fst s), snd s)
      else (fst s, patch a (slice (512 * sector) (512 * n) (fst s)) (snd s)))"

lemma moved_0 [simp]: "moved write sector 0 a s = s"
  by (simp add: moved_def fetch_def slice_def patch_def prod_eq_iff)

lemma moved_add:
  assumes "512 * (sector + m + n) \<le> length D" "512 * (m + n) < 2 ^ 64"
  shows "moved write (sector + m) n (a + word_of_nat (512 * m)) (moved write sector m a (D, mem)) = moved write sector (m + n) a (D, mem)"
proof (cases "write")
  case True
  have "512 * (sector + m) = 512 * sector + length (fetch a (512 * m) mem)" by simp
  then show ?thesis
    using True assms(1) splice_append [of "512 * sector" "fetch a (512 * m) mem" "fetch (a + word_of_nat (512 * m)) (512 * n) mem" D]
    by (simp add: moved_def distrib_left fetch_add)
next
  case False
  let ?x = "slice (512 * sector) (512 * m) D" and ?y = "slice (512 * sector + 512 * m) (512 * n) D"
  have l: "length ?x = 512 * m" "length ?y = 512 * n" using assms(1) by simp_all
  have "patch (a + word_of_nat (length ?x)) ?y (patch a ?x mem) = patch a (?x @ ?y) mem"
    by (rule patch_append) (use assms(2) l in simp)
  then show ?thesis
    using False l slice_append [of "512 * sector" "512 * m" D "512 * n"] by (simp add: moved_def distrib_left)
qed

lemma length_moved: "512 * (sector + n) \<le> length D \<Longrightarrow> length (fst (moved write sector n a (D, mem))) = length D"
  by (simp add: moved_def)

lemma get_param_ok:
  assumes "back_ok b D (i # fl)" "fl \<noteq> []"
  shows "\<exists>p. vcablk_bcknd_get_transfer_param env b = Some (i, b\<lparr>b_pool := p\<rparr>) \<and> back_ok (b\<lparr>b_pool := p\<rparr>) D fl \<and>
    i < unat (p_num p) \<and> i \<notin> set fl \<and> p_num p = p_num (b_pool b)"
proof -
  have rel: "pool_rel (b_pool b) (i # fl)" using assms(1) by (simp add: back_ok_def)
  obtain p where p: "vcablk_pool_pop (b_pool b) = Some (i, p)" "pool_rel p fl" "p_num p = p_num (b_pool b)"
    using pop_rel [OF rel assms(2)] by blast
  have i: "i < unat (p_num p)" "i \<notin> set fl" using rel p(3) by (auto simp: pool_rel_def)
  moreover have b1: "back_ok (b\<lparr>b_pool := p\<rparr>) D fl" using assms(1) p pop_data [OF p(1)] by (simp add: back_ok_def tparam_def)
  moreover have "\<not> tp_tx (tparam (b\<lparr>b_pool := p\<rparr>) i)" using b1 i by (simp add: back_ok_def)
  ultimately show ?thesis
    using p by (subst vcablk_bcknd_get_transfer_param.simps) auto
qed

lemma callback_ok:
  assumes b: "back_ok b D fl" and i: "i < unat (p_num (b_pool b))" "i \<notin> set fl"
    and cb: "tp_callback_param (tparam b i) = cb"
    and range: "cb_is_write cb \<Longrightarrow> unat (cb_sector cb) + unat (cb_nsec cb) < 2 ^ 55 \<and>
      512 * (unat (cb_sector cb) + unat (cb_nsec cb)) \<le> length D \<and> unat (cb_nsec cb) \<le> 8"
    and room: "0 \<le> cb_response_cookie cb \<Longrightarrow> length (answers b) < unat (num_elems (b_completion_ring b))"
  shows "\<exists>b'. vca_bcknd_callback_dma env i b = Some b' \<and>
    back_ok b' (if cb_is_write cb
       then splice (512 * unat (cb_sector cb)) (take (512 * unat (cb_nsec cb)) (tp_buffer (tparam b i))) D else D) (fl @ [i]) \<and>
    bkept b b' \<and> b_mem b' = b_mem b \<and>
    b_windows b' = b_windows b - (case cb_remapped cb of None \<Rightarrow> {#} | Some a \<Rightarrow> {#a#}) \<and>
    answers b' = answers b @ (if 0 \<le> cb_response_cookie cb
      then [\<lparr>ack_cookie = word_of_int (cb_response_cookie cb), ack_ret = 0\<rparr>] else [])"
proof (cases "cb_remapped cb")
  case None
  then have "vca_bcknd_callback_dma env i b = vca_bcknd_complete_transfer env i b"
    using b cb by (simp add: vca_bcknd_callback_dma_def back_ok_def Let_def)
  with complete_ok [OF b i cb range room] None show ?thesis by simp
next
  case (Some a)
  let ?b0 = "b\<lparr>b_windows := b_windows b - {#a#}\<rparr>"
  let ?f = "\<lambda>t. t\<lparr>tp_callback_param := (tp_callback_param t)\<lparr>cb_remapped := None\<rparr>\<rparr>"
  let ?b1 = "tparam_upd i ?f ?b0"
  have b0: "back_ok ?b0 D fl" "i < unat (p_num (b_pool ?b0))" using b i by (simp_all add: back_ok_def tparam_def)
  have t: "tparam ?b1 = (tparam b)(i := ?f (tparam b i))"
    using tparam_tparam_upd [of ?b0 fl i ?f] b0 by (simp add: back_ok_def tparam_def)
  have "back_ok ?b1 D fl" by (rule back_ok_upd [OF b0]) (use b0 in \<open>simp_all add: back_ok_def\<close>)
  moreover have "tp_callback_param (tparam ?b1 i) = cb\<lparr>cb_remapped := None\<rparr>" unfolding t using cb by simp
  ultimately obtain b' where b': "vca_bcknd_complete_transfer env i ?b1 = Some b'"
    "back_ok b' (if cb_is_write cb
       then splice (512 * unat (cb_sector cb)) (take (512 * unat (cb_nsec cb)) (tp_buffer (tparam ?b1 i))) D else D) (fl @ [i])"
    "bkept ?b1 b'" "b_mem b' = b_mem b" "b_windows b' = b_windows b - {#a#}"
    "answers b' = answers b @ (if 0 \<le> cb_response_cookie cb
      then [\<lparr>ack_cookie = word_of_int (cb_response_cookie cb), ack_ret = 0\<rparr>] else [])"
    using complete_ok [of ?b1 D fl i "cb\<lparr>cb_remapped := None\<rparr>" env] i range room by (auto cong: if_cong)
  have "vca_bcknd_callback_dma env i b = Some b'"
    using b cb Some b'(1) by (simp add: vca_bcknd_callback_dma_def back_ok_def Let_def)
  moreover have "bkept b b'" using b'(3) by (simp add: bkept_def tparam_upd_def)
  moreover have tb: "tp_buffer (tparam ?b1 i) = tp_buffer (tparam b i)" using t by simp
  ultimately show ?thesis
    using Some b'(2) [unfolded tb] b'(4-) by (intro exI [of _ b']) simp
qed

lemma unat_bytes: "unat (k :: u64) \<le> 8 \<Longrightarrow> unat (push_bit SECTOR_SHIFT k) = 512 * unat k"
  by (simp add: unat_sectors_small)

lemma bytes_word: "unat (k :: u64) \<le> 8 \<Longrightarrow> push_bit SECTOR_SHIFT k = word_of_nat (512 * unat k)"
proof -
  assume "unat k \<le> 8"
  moreover have "word_of_nat (unat (push_bit SECTOR_SHIFT k)) = push_bit SECTOR_SHIFT k" by simp
  ultimately show ?thesis by (simp only: unat_bytes)
qed

lemma media_upd_self [simp]: "b_media b = m \<Longrightarrow> b\<lparr>b_media := m\<rparr> = b"
  by (cases b) simp

text \<open>One piece: its buffer is taken, filled, copied and returned.\<close>

lemma piece_ok:
  assumes b: "back_ok b D (i # fl)" "fl \<noteq> []" and n: "n \<noteq> 0"
    and range: "unat sector + unat n < 2 ^ 55" "512 * (unat sector + unat n) \<le> length D"
    and room: "0 \<le> cookie \<Longrightarrow> length (answers b) < unat (num_elems (b_completion_ring b))"
    and k: "k = min n 8"
  shows "\<exists>b' D' mem'. transfer_loop env w a sector n write cookie flush b =
      transfer_loop env w (a + push_bit SECTOR_SHIFT k) (sector + k) (n - k) write cookie flush b' \<and>
    (D', mem') = moved write (unat sector) (unat k) a (D, b_mem b) \<and> back_ok b' D' (fl @ [i]) \<and> bkept b b' \<and> b_mem b' = mem' \<and>
    b_windows b' = b_windows b - (if n = k then {#w#} else {#}) \<and>
    answers b' = answers b @ (if n = k \<and> 0 \<le> cookie then [\<lparr>ack_cookie = word_of_int cookie, ack_ret = 0\<rparr>] else [])"
proof -
  have k8: "unat k \<le> 8" "unat k \<le> unat n" "n - k = 0 \<longleftrightarrow> n = k" using k by (auto simp: min_def word_le_nat_alt)
  obtain p where p: "vcablk_bcknd_get_transfer_param env b = Some (i, b\<lparr>b_pool := p\<rparr>)" "back_ok (b\<lparr>b_pool := p\<rparr>) D fl"
    "i < unat (p_num p)" "i \<notin> set fl" "p_num p = p_num (b_pool b)"
    using get_param_ok [OF b, of env] by blast
  define b1 where "b1 = b\<lparr>b_pool := p\<rparr>"
  define cb where "cb = piece_callback w sector k (n - k) write cookie flush"
  define b2 where "b2 = tparam_upd i (\<lambda>t. t\<lparr>tp_callback_param := cb\<rparr>) b1"
  have b1: "back_ok b1 D fl" "i < unat (p_num (b_pool b1))" "bkept b b1" "b_mem b1 = b_mem b" "b_windows b1 = b_windows b"
    "answers b1 = answers b" "num_elems (b_completion_ring b1) = num_elems (b_completion_ring b)" "b_dma_ch b1 = b_dma_ch b"
    using p by (simp_all add: b1_def bkept_def)
  have rel: "pool_rel (b_pool b1) fl" using b1(1) by (simp add: back_ok_def)
  have t2: "tparam b2 = (tparam b1)(i := (tparam b1 i)\<lparr>tp_callback_param := cb\<rparr>)"
    unfolding b2_def by (rule tparam_tparam_upd [OF rel b1(2)])
  have l: "length (tp_buffer (tparam b1 i)) = 4096" "\<not> tp_tx (tparam b1 i)" using b1(1,2) by (simp_all add: back_ok_def BCKND_PAGE_SIZE_def)
  have b2: "back_ok b2 D fl" unfolding b2_def by (rule back_ok_upd [OF b1(1,2)]) (use l in \<open>simp_all add: BCKND_PAGE_SIZE_def\<close>)
  have i2: "i < unat (p_num (b_pool b2))" "pool_rel (b_pool b2) fl" using b1 rel by (simp_all add: b2_def)
  let ?buf = "tp_buffer (tparam b1 i)"
  have tb2: "tp_buffer (tparam b2 i) = ?buf" using t2 by simp
  define buf3 where "buf3 = (if write then ?buf else splice 0 (slice (512 * unat sector) (512 * unat k) D) ?buf)"
  define b3 where "b3 = (if write then b2 else tparam_upd i (\<lambda>t. t\<lparr>tp_buffer := buf3\<rparr>) b2)"
  have rk: "unat sector + unat k < 2 ^ 55" "512 * (unat sector + unat k) \<le> length D" using range k8 by auto
  have m: "m_data (b_media b2) = VCABLK_DISK_TYPE_MEMORY D" "length D = unat (m_size_bytes (b_media b2))" using b2 by (auto simp: back_ok_def)
  have l3: "length buf3 = 4096" using l rk k8 by (simp add: buf3_def)
  have rd: "(if write then Some (0, b2)
      else map_option (\<lambda>(ret, media, buf). (ret, tparam_upd i (\<lambda>t. t\<lparr>tp_buffer := buf\<rparr>) (b2\<lparr>b_media := media\<rparr>)))
        (vcablk_media_transfer (be_files env) (b_media b2) sector k (tp_buffer (tparam b2 i)) False)) = Some (0, b3)"
    unfolding tb2 vcablk_media_transfer_def m(1) media_data.case
    using transfer_mem_ok(2) [OF rk(1), of "b_media b2" D ?buf] m(2) rk l k8
    by (cases "write") (simp_all add: b3_def buf3_def)
  have t3: "tparam b3 i = (tparam b1 i)\<lparr>tp_callback_param := cb, tp_buffer := buf3\<rparr>"
    using tparam_tparam_upd [OF i2(2,1), of "\<lambda>t. t\<lparr>tp_buffer := buf3\<rparr>"] t2
    by (cases "write") (simp_all add: b3_def, simp add: buf3_def)
  have b3: "back_ok b3 D fl"
    using b2 back_ok_upd [OF b2 i2(1), of "\<lambda>t. t\<lparr>tp_buffer := buf3\<rparr>"] l(2) l3 t2 by (auto simp: b3_def BCKND_PAGE_SIZE_def)
  have i3: "i < unat (p_num (b_pool b3))" "pool_rel (b_pool b3) fl" using i2 by (simp_all add: b3_def)
  have f3: "bkept b1 b3" "b_mem b3 = b_mem b" "b_windows b3 = b_windows b" "answers b3 = answers b"
    "num_elems (b_completion_ring b3) = num_elems (b_completion_ring b)" using b1 by (simp_all add: b3_def b2_def)
  define buf4 where "buf4 = (if write then splice 0 (fetch a (512 * unat k) (b_mem b)) ?buf else buf3)"
  define b4 where "b4 = piece_copy i a (512 * unat k) b3"
  have cbw: "cb_is_write cb = write" "cb_sector cb = sector" "cb_nsec cb = k"
    "cb_remapped cb = (if n = k then Some w else None)" "cb_response_cookie cb = (if n = k then cookie else - 1)"
    using k8(3) by (simp_all add: cb_def piece_callback_def)
  have t4: "tparam b4 i = (tparam b1 i)\<lparr>tp_callback_param := cb, tp_buffer := buf4\<rparr>"
    using tparam_tparam_upd [OF i3(2,1), of "\<lambda>t. t\<lparr>tp_buffer := splice 0 (fetch a (512 * unat k) (b_mem b3)) (tp_buffer t)\<rparr>"] t3 f3 cbw
    by (auto simp: b4_def piece_copy_def buf4_def buf3_def tparam_def)
  have l4: "length buf4 = 4096" using l l3 k8 by (simp add: buf4_def)
  have b4: "back_ok b4 D fl"
    using b3 back_ok_upd [OF b3 i3(1), of "\<lambda>t. t\<lparr>tp_buffer := splice 0 (fetch a (512 * unat k) (b_mem b3)) (tp_buffer t)\<rparr>"] l l3 k8 t3
    by (auto simp: b4_def piece_copy_def BCKND_PAGE_SIZE_def back_ok_def tparam_def)
  have i4: "i < unat (p_num (b_pool b4))" using i3 by (simp add: b4_def piece_copy_def)
  have f4: "bkept b1 b4" "b_windows b4 = b_windows b" "answers b4 = answers b"
    "num_elems (b_completion_ring b4) = num_elems (b_completion_ring b)"
    using f3 by (auto simp: b4_def piece_copy_def bkept_def tparam_upd_def)
  have "take (512 * unat k) buf3 = slice (512 * unat sector) (512 * unat k) D" if "\<not> write"
    using that rk by (simp add: buf3_def splice_def)
  then have m4: "b_mem b4 = snd (moved write (unat sector) (unat k) a (D, b_mem b))"
    using t3 f3 cbw by (simp add: b4_def piece_copy_def moved_def)
  have D4: "(if cb_is_write cb then splice (512 * unat (cb_sector cb)) (take (512 * unat (cb_nsec cb)) (tp_buffer (tparam b4 i))) D else D) =
      fst (moved write (unat sector) (unat k) a (D, b_mem b))"
    using cbw t4 by (simp add: moved_def buf4_def splice_def)
  obtain b5 where b5: "vca_bcknd_callback_dma env i b4 = Some b5" "back_ok b5 (fst (moved write (unat sector) (unat k) a (D, b_mem b))) (fl @ [i])"
    "bkept b4 b5" "b_mem b5 = b_mem b4" "b_windows b5 = b_windows b4 - (case cb_remapped cb of None \<Rightarrow> {#} | Some a \<Rightarrow> {#a#})"
    "answers b5 = answers b4 @ (if 0 \<le> cb_response_cookie cb
      then [\<lparr>ack_cookie = word_of_int (cb_response_cookie cb), ack_ret = 0\<rparr>] else [])"
    using callback_ok [OF b4 i4 p(4), of cb env, unfolded D4] t4 cbw rk k8 room f4 by (auto split: if_splits)
  have "vcablk_bcknd_transfer_device env i a (unat (push_bit SECTOR_SHIFT k)) b3 = Some (0, b5)"
    using b3 b5(1) unat_bytes [OF k8(1)] by (simp add: vcablk_bcknd_transfer_device_def back_ok_def b4_def)
  moreover have kk: "min n (word_of_nat (length ?buf div SECTOR_SIZE)) = k" using l k by (simp add: SECTOR_SIZE_def)
  ultimately have "transfer_loop env w a sector n write cookie flush b =
      transfer_loop env w (a + push_bit SECTOR_SHIFT k) (sector + k) (n - k) write cookie flush b5"
    using n by (subst transfer_loop.simps)
      (simp only: if_False p(1) [folded b1_def] option.case prod.case Let_def kk cb_def [symmetric] b2_def [symmetric] rd if_not_P not_not simp_thms)
  moreover have "bkept b b5" using b1(3) f4(1) b5(3) bkept_trans by blast
  ultimately show ?thesis
    using b5 f4 m4 cbw by (intro exI [of _ b5] exI [of _ "fst (moved write (unat sector) (unat k) a (D, b_mem b))"]
        exI [of _ "snd (moved write (unat sector) (unat k) a (D, b_mem b))"]) (auto split: if_splits)
qed

text \<open>A transfer of sectors, piece by piece.\<close>

lemma transfer_loop_ok:
  assumes "back_ok b D fl" "2 \<le> length fl" "n \<noteq> 0"
    and "unat sector + unat n < 2 ^ 55" "512 * (unat sector + unat n) \<le> length D"
    and "0 \<le> cookie \<Longrightarrow> length (answers b) < unat (num_elems (b_completion_ring b))"
  shows "\<exists>b' fl' D' mem'. transfer_loop env w a sector n write cookie flush b = Some (0, b') \<and>
    (D', mem') = moved write (unat sector) (unat n) a (D, b_mem b) \<and> back_ok b' D' fl' \<and> length fl' = length fl \<and> bkept b b' \<and>
    b_mem b' = mem' \<and> b_windows b' = b_windows b - {#w#} \<and>
    answers b' = answers b @ (if 0 \<le> cookie then [\<lparr>ack_cookie = word_of_int cookie, ack_ret = 0\<rparr>] else [])"
  using assms
proof (induction "unat n" arbitrary: n a sector b D fl rule: less_induct)
  case less
  obtain i fl1 where fl: "fl = i # fl1" "fl1 \<noteq> []" using less.prems(2) by (cases fl; cases "tl fl") auto
  define k where "k = min n 8"
  obtain b1 D1 mem1 where s: "transfer_loop env w a sector n write cookie flush b =
      transfer_loop env w (a + push_bit SECTOR_SHIFT k) (sector + k) (n - k) write cookie flush b1"
    "(D1, mem1) = moved write (unat sector) (unat k) a (D, b_mem b)" "back_ok b1 D1 (fl1 @ [i])" "bkept b b1" "b_mem b1 = mem1"
    "b_windows b1 = b_windows b - (if n = k then {#w#} else {#})"
    "answers b1 = answers b @ (if n = k \<and> 0 \<le> cookie then [\<lparr>ack_cookie = word_of_int cookie, ack_ret = 0\<rparr>] else [])"
    using piece_ok [OF less.prems(1) [unfolded fl(1)] fl(2) less.prems(3-5) _ k_def, of cookie env w a "write" flush] less.prems(6)
    by blast
  show ?case
  proof (cases "n = k")
    case True
    then have "transfer_loop env w a sector n write cookie flush b = Some (0, b1)"
      using s(1) by (simp add: transfer_loop.simps)
    with True s fl(1) show ?thesis by (intro exI [of _ b1] exI [of _ "fl1 @ [i]"] exI [of _ D1] exI [of _ mem1]) simp
  next
    case False
    have k: "unat k = 8" "8 < unat n" using False by (auto simp: k_def min_def word_le_nat_alt split: if_splits)
    have kn: "unat (n - k) = unat n - unat k" using k by (simp add: unat_sub word_le_nat_alt)
    have sk: "unat (sector + k) = unat sector + unat k" using k less.prems(4) by (simp add: unat_word_ariths)
    have "length D1 = length D" 
    proof -
      have "512 * (unat sector + unat k) \<le> length D" using less.prems(5) k by simp
      then show ?thesis using length_moved [of "unat sector" "unat k" D "write" a "b_mem b"] s(2) by (metis fst_conv)
    qed
    then obtain b' fl' D' mem' where r: "transfer_loop env w (a + push_bit SECTOR_SHIFT k) (sector + k) (n - k) write cookie flush b1 = Some (0, b')"
      "(D', mem') = moved write (unat (sector + k)) (unat (n - k)) (a + push_bit SECTOR_SHIFT k) (D1, b_mem b1)"
      "back_ok b' D' fl'" "length fl' = length (fl1 @ [i])" "bkept b1 b'" "b_mem b' = mem'" "b_windows b' = b_windows b1 - {#w#}"
      "answers b' = answers b1 @ (if 0 \<le> cookie then [\<lparr>ack_cookie = word_of_int cookie, ack_ret = 0\<rparr>] else [])"
      using less.hyps [of "n - k" b1 D1 "fl1 @ [i]" "sector + k" "a + push_bit SECTOR_SHIFT k"] k kn sk s(3,4,7) False less.prems fl
      by (auto simp: bkept_def)
    have "moved write (unat sector + unat k) (unat n - unat k) (a + word_of_nat (512 * unat k)) (moved write (unat sector) (unat k) a (D, b_mem b)) =
        moved write (unat sector) (unat k + (unat n - unat k)) a (D, b_mem b)"
      by (rule moved_add) (use less.prems(4,5) k in auto)
    then have "(D', mem') = moved write (unat sector) (unat n) a (D, b_mem b)"
      using r(2) s(2,5) kn sk k bytes_word [of k] by simp
    moreover have "bkept b b'" by (rule bkept_trans [OF s(4) r(5)])
    ultimately show ?thesis using s(1,6,7) r fl(1) False by (intro exI [of _ b'] exI [of _ fl'] exI [of _ D'] exI [of _ mem']) simp
  qed
qed

text \<open>In some of the waits for it, a window can be mapped.\<close>

definition maps_windows :: "'f bcknd_env \<Rightarrow> bool" where
  "maps_windows env \<longleftrightarrow> (\<forall>b a l. \<exists>i < IOREMAP_ATTEMPTS. be_ioremap env b a l i)"

type_synonym part = "u8 \<times> u64 \<times> u64 \<times> u64"

text \<open>The effect of an element, and the condition that it lies on the disk.\<close>

definition move_part :: "part \<Rightarrow> u8 list \<times> (u64 \<Rightarrow> u8) \<Rightarrow> u8 list \<times> (u64 \<Rightarrow> u8)" where
  "move_part p s = (case p of (typ, sector, n, a) \<Rightarrow> moved (typ = REQUEST_WRITE) (unat sector) (unat n) a s)"

definition on_disk :: "nat \<Rightarrow> part \<Rightarrow> bool" where
  "on_disk len p = (case p of (typ, sector, n, a) \<Rightarrow> n \<noteq> 0 \<and> unat sector + unat n < 2 ^ 55 \<and> 512 * (unat sector + unat n) \<le> len)"

lemma length_move_part: "on_disk (length (fst s)) p \<Longrightarrow> length (fst (move_part p s)) = length (fst s)"
  using length_moved by (cases s) (auto simp: move_part_def on_disk_def split: prod.splits)

lemma transfer_ok:
  assumes "maps_windows env" "back_ok b D fl" "2 \<le> length fl" "on_disk (length D) (typ, sector, n, a)"
    and "0 \<le> cookie \<Longrightarrow> length (answers b) < unat (num_elems (b_completion_ring b))"
  shows "\<exists>b' fl' D' mem'. vcablk_bcknd_transfer env sector n a (typ = REQUEST_WRITE) cookie flush b = Some (0, b') \<and>
    (D', mem') = move_part (typ, sector, n, a) (D, b_mem b) \<and> back_ok b' D' fl' \<and> length fl' = length fl \<and> bkept b b' \<and>
    b_mem b' = mem' \<and> b_windows b' = b_windows b \<and>
    answers b' = answers b @ (if 0 \<le> cookie then [\<lparr>ack_cookie = word_of_int cookie, ack_ret = 0\<rparr>] else [])"
proof -
  let ?b1 = "b\<lparr>b_windows := add_mset a (b_windows b)\<rparr>"
  have "list_ex (be_ioremap env b a (push_bit SECTOR_SHIFT n)) [0..<IOREMAP_ATTEMPTS]"
    using assms(1) by (simp add: maps_windows_def list_ex_iff Bex_def)
  then have io: "vcablk_bcknd_ioremap env a (push_bit SECTOR_SHIFT n) b = (Some a, ?b1)"
    by (simp add: vcablk_bcknd_ioremap_def)
  have b1: "back_ok ?b1 D fl" using assms(2) by (simp add: back_ok_def tparam_def)
  obtain b' fl' D' mem' where "transfer_loop env a a sector n (typ = REQUEST_WRITE) cookie flush ?b1 = Some (0, b')"
    "(D', mem') = moved (typ = REQUEST_WRITE) (unat sector) (unat n) a (D, b_mem ?b1)" "back_ok b' D' fl'" "length fl' = length fl"
    "bkept ?b1 b'" "b_mem b' = mem'" "b_windows b' = b_windows ?b1 - {#a#}"
    "answers b' = answers ?b1 @ (if 0 \<le> cookie then [\<lparr>ack_cookie = word_of_int cookie, ack_ret = 0\<rparr>] else [])"
    using transfer_loop_ok [OF b1 assms(3), of n sector cookie env a a "typ = REQUEST_WRITE" flush] assms(4,5) by (auto simp: on_disk_def)
  then show ?thesis
    by (intro exI [of _ b'] exI [of _ fl'] exI [of _ D'] exI [of _ mem'])
      (simp add: vcablk_bcknd_transfer_def io move_part_def bkept_def)
qed

section \<open>A request\<close>

lemma request_loop_ok:
  assumes "maps_windows env" "back_ok b D fl" "2 \<le> length fl" "\<forall>r \<in> set rs. rq_type r = typ \<and> on_disk (length D) (part_of r)"
    and "length (answers b) < unat (num_elems (b_completion_ring b))"
  shows "\<exists>b' fl' D' mem'. request_loop env (typ = REQUEST_WRITE) cookie sync rs b = Some (0, b') \<and>
    (D', mem') = fold move_part (map part_of rs) (D, b_mem b) \<and> back_ok b' D' fl' \<and> length fl' = length fl \<and> bkept b b' \<and>
    length D' = length D \<and> b_mem b' = mem' \<and> b_windows b' = b_windows b \<and>
    answers b' = answers b @ (if rs \<noteq> [] then [\<lparr>ack_cookie = cookie, ack_ret = 0\<rparr>] else [])"
  using assms(2-5)
proof (induction rs arbitrary: b D fl)
  case Nil
  then show ?case by (intro exI [of _ b] exI [of _ fl]) simp
next
  case (Cons r rs)
  have od: "on_disk (length D) (typ, rq_sector r, rq_sectors_num r, rq_phys_buff r)" using Cons.prems(3) by (auto simp: part_of_def)
  let ?c = "if rs = [] then uint cookie else - 1"
  obtain b1 fl1 D1 mem1 where t: "vcablk_bcknd_transfer env (rq_sector r) (rq_sectors_num r) (rq_phys_buff r) (typ = REQUEST_WRITE) ?c
      (rs = [] \<and> sync) b = Some (0, b1)" "(D1, mem1) = move_part (part_of r) (D, b_mem b)" "back_ok b1 D1 fl1" "length fl1 = length fl"
    "bkept b b1" "b_mem b1 = mem1" "b_windows b1 = b_windows b"
    "answers b1 = answers b @ (if 0 \<le> ?c then [\<lparr>ack_cookie = word_of_int ?c, ack_ret = 0\<rparr>] else [])"
    using transfer_ok [OF assms(1) Cons.prems(1,2) od, of ?c "rs = [] \<and> sync"] Cons.prems(3,4) by (auto simp: part_of_def)
  have l1: "length D1 = length D" using length_move_part [of "(D, b_mem b)" "part_of r"] t(2) od Cons.prems(3) by (metis fst_conv list.set_intros(1))
  show ?case
  proof (cases rs)
    case Nil
    with t l1 show ?thesis
      by (intro exI [of _ b1] exI [of _ fl1] exI [of _ D1] exI [of _ mem1]) simp
  next
    case (Cons r2 rs2)
    have "length (answers b1) < unat (num_elems (b_completion_ring b1))" using t(5,8) Cons Cons.prems(4) by (simp add: bkept_def)
    then obtain b' fl' D' mem' where "request_loop env (typ = REQUEST_WRITE) cookie sync rs b1 = Some (0, b')"
      "(D', mem') = fold move_part (map part_of rs) (D1, b_mem b1)" "back_ok b' D' fl'" "length fl' = length fl1" "bkept b1 b'"
      "length D' = length D1" "b_mem b' = mem'" "b_windows b' = b_windows b1"
      "answers b' = answers b1 @ (if rs \<noteq> [] then [\<lparr>ack_cookie = cookie, ack_ret = 0\<rparr>] else [])"
      using Cons.IH [OF t(3)] t(4) l1 Cons.prems(2,3) by auto
    with t l1 Cons show ?thesis
      by (intro exI [of _ b'] exI [of _ fl'] exI [of _ D'] exI [of _ mem']) (auto intro: bkept_trans)
  qed
qed

fun contig :: "u64 \<Rightarrow> vcablk_request list \<Rightarrow> bool" where
  "contig sector [] \<longleftrightarrow> True"
| "contig sector (r # rs) \<longleftrightarrow> rq_sector r = sector \<and> contig (sector + rq_sectors_num r) rs"

lemma info_loop_data:
  assumes "contig sector ds" "\<forall>r \<in> set ds. rq_type r = typ \<and> rq_cookie r = c" "typ \<noteq> REQUEST_SYNC"
    and "\<forall>r \<in> set bs. rq_type r = REQUEST_SYNC \<and> rq_cookie r = c" "length bs \<le> 1" "n = i + length ds + length bs"
  shows "\<exists>num'. info_loop c typ i n sector num (ds @ bs) = (0, num')"
  using assms(1,2,6)
proof (induction ds arbitrary: sector i num)
  case Nil
  with assms(4,5) show ?case by (cases bs) auto
next
  case (Cons r ds)
  then show ?case using Cons.IH [of "sector + rq_sectors_num r" "i + 1" "num + rq_sectors_num r"] assms(3) by auto
qed

text \<open>The elements of a request that the other side makes: one cookie, one type, consecutive sectors.\<close>

definition well_formed :: "u16 \<Rightarrow> u8 \<Rightarrow> vcablk_request list \<Rightarrow> bool" where
  "well_formed c typ ps \<longleftrightarrow> shape ps \<and> (\<forall>r \<in> set ps. rq_cookie r = c) \<and> typ \<in> {REQUEST_READ, REQUEST_WRITE} \<and>
     (\<forall>r \<in> set (filter is_data ps). rq_type r = typ) \<and> contig (rq_sector (hd (filter is_data ps))) (filter is_data ps)"

lemma filter_shape:
  "\<forall>r \<in> set (a @ b). \<not> is_data r \<Longrightarrow> \<forall>r \<in> set ds. is_data r \<Longrightarrow> filter is_data (a @ ds @ b) = ds"
  by (auto simp: filter_empty_conv filter_id_conv)

lemma get_info_ok:
  assumes "ps = a @ ds @ b" "\<forall>r \<in> set (a @ b). \<not> is_data r" "\<forall>r \<in> set ds. is_data r \<and> rq_type r = typ" "length a \<le> 1" "length b \<le> 1" "ds \<noteq> []"
    and "\<forall>r \<in> set ps. rq_cookie r = c" "typ \<in> {REQUEST_READ, REQUEST_WRITE}" "contig (rq_sector (hd ds)) ds"
  shows "ri_err (vcablk_bcknd_disk_request_get_info ps) = 0" "ri_cookie (vcablk_bcknd_disk_request_get_info ps) = c"
    "ri_type (vcablk_bcknd_disk_request_get_info ps) = typ" "ri_sync_before (vcablk_bcknd_disk_request_get_info ps) \<longleftrightarrow> a \<noteq> []"
    "ri_sync_after (vcablk_bcknd_disk_request_get_info ps) \<longleftrightarrow> b \<noteq> []"
proof -
  obtain d0 ds' where ds: "ds = d0 # ds'" using assms(6) by (cases ds) auto
  have ty: "typ \<noteq> REQUEST_SYNC" using assms(8) by (auto simp: request_types)
  have sy: "rq_type r = REQUEST_SYNC \<and> rq_cookie r = c" if "r \<in> set a \<union> set b" for r
    using assms(1,2,7) that by (auto simp: is_data_def)
  have d0: "rq_type d0 = typ" "rq_type (last ds) = typ" using assms(3) ds last_in_set [of ds] by auto
  have la: "rq_type (last ps) = REQUEST_SYNC \<longleftrightarrow> b \<noteq> []"
    using sy [of "last b"] d0 ty assms(1,6) by (cases "b = []") auto
  have dt: "\<forall>r \<in> set ds. rq_type r = typ \<and> rq_cookie r = c" using assms(1,3,7) by auto
  have bt: "\<forall>r \<in> set b. rq_type r = REQUEST_SYNC \<and> rq_cookie r = c" using sy by auto
  have i: "\<exists>num'. info_loop c typ 0 (length ps) (rq_sector d0) 0 ps = (0, num')"
  proof (cases a)
    case Nil
    then show ?thesis using info_loop_data [OF assms(9) dt ty bt assms(5), of "length ps" 0 0] assms(1) ds by simp
  next
    case (Cons s a')
    then have "a = [s]" using assms(4) by (cases a') auto
    then show ?thesis using info_loop_data [OF assms(9) dt ty bt assms(5), of "length ps" 1 0] assms(1) ds sy [of s] by simp
  qed
  have info: "vcablk_bcknd_disk_request_get_info ps =
      \<lparr>ri_err = 0, ri_cookie = c, ri_type = typ, ri_sector = rq_sector d0,
       ri_sectors_num = snd (info_loop c typ 0 (length ps) (rq_sector d0) 0 ps), ri_sync_before = (a \<noteq> []), ri_sync_after = (b \<noteq> [])\<rparr>"
  proof (cases a)
    case Nil
    then have "ps = d0 # ds' @ b" using assms(1) ds by simp
    then show ?thesis
      using i la d0(1) ty assms(7,8) Nil by (auto simp: vcablk_bcknd_disk_request_get_info_def Let_def)
  next
    case (Cons s a')
    then have "ps = s # d0 # ds' @ b" "a = [s]" using assms(1,4) ds by (cases a'; simp)+
    then show ?thesis
      using i la d0(1) ty assms(7,8) sy [of s] by (auto simp: vcablk_bcknd_disk_request_get_info_def Let_def)
  qed
  then show "ri_err (vcablk_bcknd_disk_request_get_info ps) = 0" "ri_cookie (vcablk_bcknd_disk_request_get_info ps) = c"
    "ri_type (vcablk_bcknd_disk_request_get_info ps) = typ" "ri_sync_before (vcablk_bcknd_disk_request_get_info ps) \<longleftrightarrow> a \<noteq> []"
    "ri_sync_after (vcablk_bcknd_disk_request_get_info ps) \<longleftrightarrow> b \<noteq> []" by simp_all
qed

text \<open>A request is carried out and answered once.\<close>

lemma request_ok:
  assumes "maps_windows env" "back_ok b D fl" "2 \<le> length fl" "well_formed c typ ps"
    and "\<forall>r \<in> set (filter is_data ps). on_disk (length D) (part_of r)"
    and "length (answers b) < unat (num_elems (b_completion_ring b))"
  shows "\<exists>b' fl' D' mem'. vcablk_bcknd_disk_request env ps b = Some (0, b') \<and>
    (D', mem') = fold move_part (map part_of (filter is_data ps)) (D, b_mem b) \<and> back_ok b' D' fl' \<and> length fl' = length fl \<and> bkept b b' \<and>
    length D' = length D \<and> b_mem b' = mem' \<and> b_windows b' = b_windows b \<and> answers b' = answers b @ [\<lparr>ack_cookie = c, ack_ret = 0\<rparr>]"
proof -
  obtain a ds bs where ps: "ps = a @ ds @ bs" "\<forall>r \<in> set (a @ bs). \<not> is_data r" "\<forall>r \<in> set ds. is_data r" "length a \<le> 1" "length bs \<le> 1" "ds \<noteq> []"
    using assms(4) unfolding well_formed_def shape_def by blast
  have f: "filter is_data ps = ds" unfolding ps(1) by (rule filter_shape [OF ps(2,3)])
  have w: "\<forall>r \<in> set ds. is_data r \<and> rq_type r = typ" "\<forall>r \<in> set ps. rq_cookie r = c" "typ \<in> {REQUEST_READ, REQUEST_WRITE}"
    "contig (rq_sector (hd ds)) ds" using assms(4) ps(3) f by (auto simp: well_formed_def)
  note info = get_info_ok [OF ps(1,2) w(1) ps(4,5,6) w(2,3,4)]
  have sel: "drop (if a \<noteq> [] then 1 else 0) (take (if bs \<noteq> [] then length ps - 1 else length ps) ps) = ds"
    using ps(1,4,5) by (cases a; cases bs) auto
  have len: "a \<noteq> [] \<Longrightarrow> length ps \<noteq> 1" using ps(1,6) by (cases a; cases ds) auto
  have sync: "vcablk_media_sync (be_files env) (b_media b) = Some 0"
    using assms(2) by (simp add: back_ok_def vcablk_media_sync_def media_sync_mem_def)
  obtain b' fl' D' mem' where l: "request_loop env (typ = REQUEST_WRITE) c (bs \<noteq> []) ds b = Some (0, b')"
    "(D', mem') = fold move_part (map part_of ds) (D, b_mem b)" "back_ok b' D' fl'" "length fl' = length fl" "bkept b b'"
    "length D' = length D" "b_mem b' = mem'" "b_windows b' = b_windows b"
    "answers b' = answers b @ [\<lparr>ack_cookie = c, ack_ret = 0\<rparr>]"
    using request_loop_ok [OF assms(1-3), of ds "typ" c "bs \<noteq> []"] w(1) assms(5,6) f ps(6) by auto
  have "vcablk_bcknd_disk_request env ps b = Some (0, b')"
    using l(1) len sync sel unfolding vcablk_bcknd_disk_request_def Let_def info by (cases "a = []") auto
  with l f show ?thesis by (intro exI [of _ b'] exI [of _ fl'] exI [of _ D'] exI [of _ mem']) simp
qed

section \<open>The request ring\<close>

text \<open>The elements of the first cookie are collected, and nothing behind them.\<close>

lemma next_loop_ok:
  assumes "ring_ok r" "elems ring = elems r" "ring_queue_of r = ps @ rest" "\<forall>p \<in> set ps. rq_cookie p = c" "c \<noteq> 0"
    and "cookie = c \<or> cookie = 0 \<and> ps \<noteq> []" "length buff + length ps \<le> 258" "rest \<noteq> [] \<Longrightarrow> rq_cookie (hd rest) \<noteq> c"
  shows "\<exists>used. next_request_loop ring (num_elems r) (last_add r) cookie (last_used r) buff = Some (buff @ ps, used) \<and>
    ring_ok (r\<lparr>last_used := used\<rparr>) \<and> ring_queue_of (r\<lparr>last_used := used\<rparr>) = rest"
  using assms
proof (induction ps arbitrary: r cookie buff)
  case Nil
  show ?case
  proof (cases rest)
    case Nil
    then have "last_used r = last_add r" using ring_queue_empty Nil.prems(1,3) by auto
    then have "next_request_loop ring (num_elems r) (last_add r) cookie (last_used r) buff = Some (buff @ [], last_used r)"
      by (simp add: next_request_loop.simps)
    then show ?thesis using Nil.prems(1,3) by (intro exI [of _ "last_used r"]) simp
  next
    case (Cons p rest')
    note pop = ring_pop [OF Nil.prems(1), of p rest']
    have "VCABLK_RING_GET_OBJ (last_used r) (num_elems r) (elems ring) = p" "rq_cookie p \<noteq> c"
      using pop(1) Nil.prems Cons by auto
    then show ?thesis
      using Nil.prems Cons by (intro exI [of _ "last_used r"]) (simp add: next_request_loop.simps)
  qed
next
  case (Cons p ps)
  note pop = ring_pop [OF Cons.prems(1), of p "ps @ rest"]
  let ?r = "r\<lparr>last_used := VCA_RB_COUNTER_ADD (last_used r) 1 (num_elems r)\<rparr>"
  have "\<exists>used. next_request_loop ring (num_elems ?r) (last_add ?r) c (last_used ?r) (buff @ [p]) = Some ((buff @ [p]) @ ps, used) \<and>
      ring_ok (?r\<lparr>last_used := used\<rparr>) \<and> ring_queue_of (?r\<lparr>last_used := used\<rparr>) = rest"
    by (rule Cons.IH) (use pop Cons.prems in auto)
  then obtain used where u: "next_request_loop ring (num_elems r) (last_add r) c
      (VCA_RB_COUNTER_ADD (last_used r) 1 (num_elems r)) (buff @ [p]) = Some (buff @ p # ps, used)"
    "ring_ok (r\<lparr>last_used := used\<rparr>)" "ring_queue_of (r\<lparr>last_used := used\<rparr>) = rest" by auto
  have "VCABLK_RING_GET_OBJ (last_used r) (num_elems r) (elems ring) = p" "rq_cookie p = c" "last_used r \<noteq> last_add r"
    "length buff < VCABLK_MAX_PARTS_PER_REQUEST"
    using pop(1,2) Cons.prems by (auto simp: VCABLK_MAX_PARTS_PER_REQUEST_def)
  then have "next_request_loop ring (num_elems r) (last_add r) cookie (last_used r) buff = Some (buff @ p # ps, used)"
    using u(1) Cons.prems(5,6) by (subst next_request_loop.simps) (auto simp: Let_def)
  with u show ?case by auto
qed

text \<open>The counters of the host agree with those of the ring.\<close>

definition requests_ok :: "'f vcablk_bcknd_disk \<Rightarrow> vcablk_request list \<Rightarrow> bool" where
  "requests_ok b q \<longleftrightarrow> ring_ok (b_request_ring b) \<and> ring_queue_of (b_request_ring b) = q \<and>
     b_request_ring_nums b = num_elems (b_request_ring b) \<and> b_request_last_used b = last_used (b_request_ring b)"

lemma serve_ok:
  assumes "maps_windows env" "back_ok b D fl" "2 \<le> length fl" "requests_ok b (ps @ rest)" "well_formed c typ ps" "c \<noteq> 0"
    and "length ps \<le> 258" "rest \<noteq> [] \<Longrightarrow> rq_cookie (hd rest) \<noteq> c"
    and "\<forall>r \<in> set (filter is_data ps). on_disk (length D) (part_of r)"
    and "length (answers b) < unat (num_elems (b_completion_ring b))"
  shows "\<exists>b' fl' D' mem'. bcknd_serve env b = Some b' \<and>
    (D', mem') = fold move_part (map part_of (filter is_data ps)) (D, b_mem b) \<and> back_ok b' D' fl' \<and> length fl' = length fl \<and>
    requests_ok b' rest \<and> length D' = length D \<and> b_mem b' = mem' \<and> b_windows b' = b_windows b \<and>
    num_elems (b_completion_ring b') = num_elems (b_completion_ring b) \<and>
    b_request_ring b' = (b_request_ring b)\<lparr>last_used := last_used (b_request_ring b')\<rparr> \<and>
    answers b' = answers b @ [\<lparr>ack_cookie = c, ack_ret = 0\<rparr>]"
proof -
  let ?r = "b_request_ring b"
  have r: "ring_ok ?r" "ring_queue_of ?r = ps @ rest" "b_request_ring_nums b = num_elems ?r" "b_request_last_used b = last_used ?r"
    using assms(4) by (auto simp: requests_ok_def)
  have ps: "ps \<noteq> []" "\<forall>p \<in> set ps. rq_cookie p = c" using assms(5) by (auto simp: well_formed_def shape_def)
  have ne: "last_used ?r \<noteq> last_add ?r" using ring_queue_empty [OF r(1)] r(2) ps(1) by auto
  obtain used where u: "next_request_loop ?r (num_elems ?r) (last_add ?r) 0 (last_used ?r) [] = Some (ps, used)"
    "ring_ok (?r\<lparr>last_used := used\<rparr>)" "ring_queue_of (?r\<lparr>last_used := used\<rparr>) = rest"
    using next_loop_ok [OF r(1) refl r(2) ps(2) assms(6), of 0 "[]"] ps(1) assms(7,8) by auto
  let ?b = "b\<lparr>b_request_last_used := used, b_request_ring := ?r\<lparr>last_used := used\<rparr>\<rparr>"
  have g: "vcablk_bcknd_disk_get_next_request b = Some (ps, ?b)"
    using u(1) ne r by (simp add: vcablk_bcknd_disk_get_next_request_def Let_def)
  have b: "back_ok ?b D fl" using assms(2) by (simp add: back_ok_def tparam_def)
  obtain b' fl' D' mem' where b': "vcablk_bcknd_disk_request env ps ?b = Some (0, b')"
    "(D', mem') = fold move_part (map part_of (filter is_data ps)) (D, b_mem b)" "back_ok b' D' fl'" "length fl' = length fl"
    "bkept ?b b'" "length D' = length D" "b_mem b' = mem'" "b_windows b' = b_windows b"
    "answers b' = answers b @ [\<lparr>ack_cookie = c, ack_ret = 0\<rparr>]"
    using request_ok [OF assms(1) b assms(3,5,9)] assms(10) by auto
  have "bcknd_serve env b = Some b'" using g b'(1) ps(1) by (simp add: bcknd_serve_def)
  moreover have "requests_ok b' rest" "b_request_ring b' = ?r\<lparr>last_used := last_used (b_request_ring b')\<rparr>"
    "num_elems (b_completion_ring b') = num_elems (b_completion_ring b)"
    using b'(5) u(2,3) r by (simp_all add: requests_ok_def bkept_def)
  ultimately show ?thesis using b' by (intro exI [of _ b'] exI [of _ fl'] exI [of _ D'] exI [of _ mem']) simp
qed

end
