(* ===== verification/Vcablk_Bcknd_Life.thy ===== *)
theory Vcablk_Bcknd_Life
  imports Vcablk_Bcknd_Facts
begin

unbundle bit_operations_syntax

text \<open>
  The life of a disk of the host (\<open>vcablk_bcknd/vcablk_bcknd_disk.c\<close>): the transfer buffers, creation, start,
  stop and destruction. As for the card, the callbacks that are registered are a set of numbers, and a null
  cookie is the number 0.
\<close>

section \<open>Buffers\<close>

text \<open>
  Pages for the buffers (\<open>None\<close> is a failure, otherwise their contents) and whether a page can be mapped for
  the DMA engine.
\<close>

definition vcablk_bcknd_buffer_deinit :: "transfer_parameters_t vcablk_pool \<Rightarrow> transfer_parameters_t vcablk_pool" where
  "vcablk_bcknd_buffer_deinit pool =
     fold (\<lambda>i. pool_upd i (\<lambda>t. t\<lparr>tp_tx := False, tp_buffer := []\<rparr>)) [0..<unat (p_num pool)] pool"

fun buffer_init_loop ::
    "(nat \<Rightarrow> (nat \<Rightarrow> u8) option) \<Rightarrow> (nat \<Rightarrow> bool) \<Rightarrow> bool \<Rightarrow> nat list \<Rightarrow> transfer_parameters_t vcablk_pool \<Rightarrow>
     bool \<times> transfer_parameters_t vcablk_pool" where
  "buffer_init_loop page mapped dma_ch [] pool = (True, pool)"
| "buffer_init_loop page mapped dma_ch (i # is) pool =
     (case page i of
        None \<Rightarrow> (False, pool_upd i (\<lambda>t. t\<lparr>tp_buffer := []\<rparr>) pool)
      | Some mem \<Rightarrow>
          let pool1 = pool_upd i (\<lambda>t. t\<lparr>tp_buffer := map mem [0..<BCKND_PAGE_SIZE]\<rparr>) pool in
          if dma_ch \<and> \<not> mapped i then (False, pool1)
          else buffer_init_loop page mapped dma_ch is pool1)"

definition vcablk_bcknd_buffer_init ::
    "(nat \<Rightarrow> (nat \<Rightarrow> u8) option) \<Rightarrow> (nat \<Rightarrow> bool) \<Rightarrow> bool \<Rightarrow> transfer_parameters_t vcablk_pool \<Rightarrow>
     int \<times> transfer_parameters_t vcablk_pool" where
  "vcablk_bcknd_buffer_init page mapped dma_ch pool =
     (case buffer_init_loop page mapped dma_ch [0..<unat (p_num pool)] pool of
        (True, pool1) \<Rightarrow> (0, pool1)
      | (False, pool1) \<Rightarrow> (- errno_num EIO, vcablk_bcknd_buffer_deinit pool1))"

section \<open>Creation\<close>

datatype disk_type = TYPE_FILE | TYPE_MEMORY

record vcablk_disk_open_desc =
  od_type :: disk_type
  od_read_only :: bool
  od_size :: u64
  od_file_path :: string

text \<open>What the kernel gives for a disk: memory, the medium, the buffers.\<close>

record 'f bcknd_alloc =
  ba_kzalloc :: bool
  ba_pool :: bool
  ba_media :: bool
  ba_vmalloc :: "nat \<Rightarrow> u8 list option"
  ba_opened :: "string \<Rightarrow> bool \<Rightarrow> 'f err_ptr"
  ba_page :: "nat \<Rightarrow> (nat \<Rightarrow> u8) option"
  ba_mapped :: "nat \<Rightarrow> bool"

definition SIZEOF_TRANSFER_PARAMETERS :: nat where "SIZEOF_TRANSFER_PARAMETERS = 72"

definition zero_parameters :: transfer_parameters_t where
  "zero_parameters = \<lparr>tp_callback_param = \<lparr>cb_sector = 0, cb_nsec = 0, cb_remapped = None, cb_response_cookie = 0,
     cb_is_write = False, cb_do_flush = False\<rparr>, tp_buffer = [], tp_tx = False\<rparr>"

definition desc_media :: "'f bcknd_alloc \<Rightarrow> vcablk_disk_open_desc \<Rightarrow> 'f vcablk_media err_ptr" where
  "desc_media al desc =
     (let bytes = ucast (ucast (od_size desc div 512) :: u32) * 512 in
      case od_type desc of
        TYPE_FILE \<Rightarrow> vcablk_media_create_file (ba_media al) (ba_opened al) bytes (od_file_path desc) (od_read_only desc)
      | TYPE_MEMORY \<Rightarrow> vcablk_media_create_memory (ba_media al) (ba_vmalloc al) bytes (od_file_path desc) (od_read_only desc))"

text \<open>
  The creation. The path is cut to its buffer before. \<open>None\<close> is a disk whose medium is a number that is not
  recognised as an error.
\<close>

definition vcablk_bcknd_disk_create ::
    "'f bcknd_alloc \<Rightarrow> bool \<Rightarrow> (u64 \<Rightarrow> u8) \<Rightarrow> vcablk_disk_open_desc \<Rightarrow> (int + 'f vcablk_bcknd_disk) option" where
  "vcablk_bcknd_disk_create al dma_ch card_mem desc =
     (if \<not> ba_kzalloc al then Some (Inl (- errno_num ENOMEM))
      else
        (case vcablk_pool_init (ba_pool al) zero_parameters 2 (VCABLK_TRANSFER_RING_SIZE - 1) SIZEOF_TRANSFER_PARAMETERS of
           None \<Rightarrow> Some (Inl (- errno_num ENOMEM))
         | Some pool \<Rightarrow>
             (case desc_media al desc of
                ERR_PTR n \<Rightarrow> if - 4095 \<le> n \<and> n < 0 then Some (Inl n) else None
              | Ptr media \<Rightarrow>
                  (case vcablk_bcknd_buffer_init (ba_page al) (ba_mapped al) dma_ch pool of
                     (err, pool1) \<Rightarrow>
                       if err \<noteq> 0 then Some (Inl err)
                       else Some (Inr
                         \<lparr>b_state = DISK_STATE_CREATE, b_media = media, b_request_db = - 1, b_request_irq = 0, b_done_db = 0,
                          b_request_thread = False, b_transfer_thread = False, b_threads_count = 0, b_transfer_ring = None,
                          b_request_win = None, b_request_ring = empty_ring, b_request_ring_nums = 0, b_request_last_used = 0,
                          b_completion_win = None, b_completion_ring = empty_ring, b_completion_ring_num_elems = 0,
                          b_pool = pool1, b_dma_ch = dma_ch, b_mem = card_mem, b_windows = {#}, b_jobs = [], b_intrs = 0\<rparr>)))))"

definition vcablk_bcknd_disk_prepare_request_db :: "int \<Rightarrow> 'f vcablk_bcknd_disk \<Rightarrow> int \<times> 'f vcablk_bcknd_disk" where
  "vcablk_bcknd_disk_prepare_request_db next_db b = (next_db, b\<lparr>b_request_db := next_db\<rparr>)"

section \<open>Start and stop\<close>

definition vcablk_bcknd_alloc_transfer_ring :: "bool \<Rightarrow> (nat \<Rightarrow> nat) \<Rightarrow> u16 \<Rightarrow> nat vcablk_ring option" where
  "vcablk_bcknd_alloc_transfer_ring kmalloc_ok memory n =
     (if \<not> is_power_of_2 n \<or> \<not> kmalloc_ok then None
      else Some \<lparr>num_elems = n, elem_size = 8, last_add = 0, last_used = 0, size_alloc = 0, dma_addr = 0,
                 elems = map memory [0..<unat n]\<rparr>)"

text \<open>The number of threads that still run when the wait ends is an argument.\<close>

definition vcablk_bcknd_disk_end_threads :: "int \<Rightarrow> 'f vcablk_bcknd_disk \<Rightarrow> 'f vcablk_bcknd_disk" where
  "vcablk_bcknd_disk_end_threads running b =
     b\<lparr>b_request_thread := False, b_transfer_thread := False, b_threads_count := running, b_transfer_ring := None\<rparr>"

text \<open>Both rings are unmapped.\<close>

definition unmap_rings :: "'f vcablk_bcknd_disk \<Rightarrow> 'f vcablk_bcknd_disk" where
  "unmap_rings b = b\<lparr>b_windows := b_windows b - (case b_request_win b of None \<Rightarrow> {#} | Some a \<Rightarrow> {#a#})
     - (case b_completion_win b of None \<Rightarrow> {#} | Some a \<Rightarrow> {#a#}), b_request_win := None, b_completion_win := None\<rparr>"

definition vcablk_bcknd_disk_stop :: "int \<Rightarrow> 'f vcablk_bcknd_disk \<Rightarrow> nat set \<Rightarrow> 'f vcablk_bcknd_disk \<times> nat set" where
  "vcablk_bcknd_disk_stop running b cbs =
     (let b1 = vcablk_bcknd_disk_end_threads running b;
          cbs1 = (if 0 \<le> b_request_db b1 then cbs - {b_request_irq b1} else cbs);
          b2 = (if 0 \<le> b_request_db b1 then b1\<lparr>b_request_db := - 1, b_request_irq := 0\<rparr> else b1)
      in ((unmap_rings (b2\<lparr>b_done_db := - 1\<rparr>))\<lparr>b_state := DISK_STATE_CREATE\<rparr>, cbs1))"

definition vcablk_bcknd_disk_destroy :: "int \<Rightarrow> 'f vcablk_bcknd_disk \<Rightarrow> nat set \<Rightarrow> 'f vcablk_bcknd_disk \<times> nat set" where
  "vcablk_bcknd_disk_destroy running b cbs =
     (case vcablk_bcknd_disk_stop running b cbs of
        (b1, cbs1) \<Rightarrow> (b1\<lparr>b_pool := vcablk_bcknd_buffer_deinit (b_pool b1), b_media := vcablk_media_destroy (b_media b1)\<rparr>, cbs1))"

text \<open>What start needs: the callback or an error, memory for the ring, the two threads or errors.\<close>

record start_env =
  se_irq :: "int + nat"
  se_ring :: bool
  se_ring_mem :: "nat \<Rightarrow> nat"
  se_transfer_thread :: bool
  se_request_thread :: bool
  se_running :: int

text \<open>The label \<open>err\<close>.\<close>

definition start_failed :: "'f vcablk_bcknd_disk \<Rightarrow> 'f vcablk_bcknd_disk" where
  "start_failed b = unmap_rings (b\<lparr>b_request_db := - 1, b_request_irq := 0, b_done_db := - 1\<rparr>)"

text \<open>From the mapped rings on: the interrupt, the transfer ring, the threads.\<close>

definition start_threads :: "start_env \<Rightarrow> 'f vcablk_bcknd_disk \<Rightarrow> nat set \<Rightarrow> int \<times> 'f vcablk_bcknd_disk \<times> nat set" where
  "start_threads se b cbs =
     (case se_irq se of
        Inl _ \<Rightarrow> (- errno_num EIO, start_failed b, cbs)
      | Inr cookie \<Rightarrow>
          let b1 = b\<lparr>b_request_irq := cookie\<rparr>;
              cbs1 = insert cookie cbs;
              tring = (if b_dma_ch b then vcablk_bcknd_alloc_transfer_ring (se_ring se) (se_ring_mem se) VCABLK_TRANSFER_RING_SIZE else None)
          in if b_dma_ch b \<and> tring = None then (- errno_num EAGAIN, start_failed b1, cbs1)
             else
               let b2 = b1\<lparr>b_transfer_ring := tring, b_transfer_thread := (b_dma_ch b \<and> se_transfer_thread se),
                           b_request_thread := se_request_thread se\<rparr>
               in if \<not> se_request_thread se \<or> b_dma_ch b \<and> \<not> se_transfer_thread se
                  then let b3 = vcablk_bcknd_disk_end_threads (se_running se) b2
                       in (- errno_num EAGAIN, start_failed b3, if 0 \<le> b_request_db b3 then cbs1 - {b_request_irq b3} else cbs1)
                  else (0, b2\<lparr>b_state := DISK_STATE_OPEN,
                              b_threads_count := b_threads_count b2 + (if b_transfer_thread b2 then 2 else 1)\<rparr>, cbs1))"

definition vcablk_bcknd_disk_start ::
    "'f bcknd_env \<Rightarrow> start_env \<Rightarrow> int \<Rightarrow> u64 \<Rightarrow> u64 \<Rightarrow> u64 \<Rightarrow> u64 \<Rightarrow> vcablk_request vcablk_ring \<Rightarrow> vcablk_completion vcablk_ring \<Rightarrow>
     'f vcablk_bcknd_disk \<Rightarrow> nat set \<Rightarrow> int \<times> 'f vcablk_bcknd_disk \<times> nat set" where
  "vcablk_bcknd_disk_start env se done_db req_ph req_bytes ack_ph ack_bytes req_ring ack_ring b cbs =
     (if b_state b \<noteq> DISK_STATE_CREATE then (- errno_num EIO, b, cbs)
      else if b_request_db b < 0 then (- errno_num EBUSY, b, cbs)
      else
        (case vcablk_bcknd_ioremap env req_ph req_bytes b of
           (None, b1) \<Rightarrow> (- errno_num EIO, start_failed (b1\<lparr>b_request_win := None\<rparr>), cbs)
         | (Some rw, b1) \<Rightarrow>
             let b2 = b1\<lparr>b_request_win := Some rw, b_request_ring := req_ring\<rparr> in
             (case vcablk_bcknd_ioremap env ack_ph ack_bytes b2 of
                (None, b3) \<Rightarrow> (- errno_num EIO, start_failed (b3\<lparr>b_completion_win := None\<rparr>), cbs)
              | (Some aw, b3) \<Rightarrow>
                  let b4 = b3\<lparr>b_completion_win := Some aw, b_completion_ring := ack_ring\<rparr> in
                  if \<not> is_power_of_2 (num_elems req_ring) \<or> \<not> is_power_of_2 (num_elems ack_ring)
                  then (- errno_num EIO, start_failed b4, cbs)
                  else start_threads se (b4\<lparr>b_request_ring_nums := num_elems req_ring, b_completion_ring_num_elems := num_elems ack_ring,
                         b_done_db := done_db, b_request_last_used := last_used req_ring\<rparr>) cbs)))"

section \<open>A disk that was created and started\<close>

lemma buffer_loop_ok:
  assumes "buffer_init_loop page mapped dma is p = (True, p')" "set is \<subseteq> {..<unat (p_num p)}" "pool_rel p fl"
  shows "pool_rel p' fl \<and> p_num p' = p_num p \<and> (\<forall>i < unat (p_num p). tp_tx (pool_data p' i) = tp_tx (pool_data p i) \<and>
    length (tp_buffer (pool_data p' i)) = (if i \<in> set is then BCKND_PAGE_SIZE else length (tp_buffer (pool_data p i))))"
  using assms
proof (induction page mapped dma "is" p rule: buffer_init_loop.induct)
  case (2 page mapped dma i "is" p)
  obtain mem where m: "page i = Some mem" "\<not> (dma \<and> \<not> mapped i)"
    using "2.prems"(1) by (auto simp: Let_def split: option.splits if_splits)
  let ?p = "pool_upd i (\<lambda>t. t\<lparr>tp_buffer := map mem [0..<BCKND_PAGE_SIZE]\<rparr>) p"
  have l: "buffer_init_loop page mapped dma is ?p = (True, p')" using "2.prems"(1) m by (simp add: Let_def)
  have d: "pool_data ?p = (pool_data p)(i := (pool_data p i)\<lparr>tp_buffer := map mem [0..<BCKND_PAGE_SIZE]\<rparr>)"
    using data_upd [of i p] "2.prems"(2) rel_alloc [OF "2.prems"(3)] by simp
  show ?case using "2.IH" [OF m(1) refl m(2) l] "2.prems"(2,3) by (auto simp: d)
qed simp

lemma buffer_loop_succeeds: "(\<And>i. page i \<noteq> None) \<Longrightarrow> \<exists>p'. buffer_init_loop page mapped False is p = (True, p')"
  by (induction "is" arbitrary: p) (auto simp: Let_def split: option.splits)

lemma created_media: "vcablk_bcknd_disk_create al dma mem desc = Some (Inr b) \<Longrightarrow> desc_media al desc = Ptr (b_media b)"
  by (auto simp: vcablk_bcknd_disk_create_def split: if_splits option.splits err_ptr.splits prod.splits)

lemma created_back:
  assumes c: "vcablk_bcknd_disk_create al False mem desc = Some (Inr b)" and ty: "od_type desc = TYPE_MEMORY"
    and v: "\<And>n m. ba_vmalloc al n = Some m \<Longrightarrow> length m = n"
  shows "\<exists>D. m_data (b_media b) = VCABLK_DISK_TYPE_MEMORY D \<and> length D = unat (m_size_bytes (b_media b))"
    "pool_rel (b_pool b) [0..<16]" "\<forall>i < unat (p_num (b_pool b)). length (tp_buffer (tparam b i)) = BCKND_PAGE_SIZE \<and> \<not> tp_tx (tparam b i)"
    "\<not> b_dma_ch b" "b_transfer_ring b = None" "b_mem b = mem" "b_state b = DISK_STATE_CREATE"
proof -
  obtain pool media pool1 where p: "vcablk_pool_init (ba_pool al) zero_parameters 2 (VCABLK_TRANSFER_RING_SIZE - 1) SIZEOF_TRANSFER_PARAMETERS = Some pool"
    "desc_media al desc = Ptr media" "buffer_init_loop (ba_page al) (ba_mapped al) False [0..<unat (p_num pool)] pool = (True, pool1)"
    "b_pool b = pool1" "b_media b = media" and f: "\<not> b_dma_ch b" "b_transfer_ring b = None" "b_mem b = mem" "b_state b = DISK_STATE_CREATE"
    using c by (auto simp: vcablk_bcknd_disk_create_def vcablk_bcknd_buffer_init_def
        split: if_splits option.splits err_ptr.splits prod.splits bool.splits)
  have i: "pool_rel pool [0..<16]" using init_rel(1) [OF p(1)] by (simp add: VCABLK_TRANSFER_RING_SIZE_def del: upt_rec_numeral)
  have z: "pool_data pool k = zero_parameters" if "k < unat (p_num pool)" for k
    using p(1) that by (auto simp: vcablk_pool_init_def vcablk_pool_clear_def pool_data_def split: if_splits)
  have bl: "pool_rel pool1 [0..<16]" "p_num pool1 = p_num pool"
    "\<forall>i < unat (p_num pool). tp_tx (pool_data pool1 i) = tp_tx (pool_data pool i) \<and> length (tp_buffer (pool_data pool1 i)) = BCKND_PAGE_SIZE"
    using buffer_loop_ok [OF p(3) _ i] by (auto simp: atLeast0LessThan)
  show "\<exists>D. m_data (b_media b) = VCABLK_DISK_TYPE_MEMORY D \<and> length D = unat (m_size_bytes (b_media b))"
    unfolding p(5) using p(2) ty v
    by (auto simp: desc_media_def vcablk_media_create_memory_def media_create_def split: if_splits option.splits)
  show "pool_rel (b_pool b) [0..<16]" using bl(1) p(4) by simp
  show "\<forall>i < unat (p_num (b_pool b)). length (tp_buffer (tparam b i)) = BCKND_PAGE_SIZE \<and> \<not> tp_tx (tparam b i)"
    using bl z p(4) by (simp add: tparam_def zero_parameters_def)
  show "\<not> b_dma_ch b" "b_transfer_ring b = None" "b_mem b = mem" "b_state b = DISK_STATE_CREATE" by (fact f)+
qed

lemma started_back:
  assumes s: "vcablk_bcknd_disk_start env se ddb rph rlen aph alen rr ra b cbs = (0, b', cbs')" and n: "\<not> b_dma_ch b"
  shows "b_media b' = b_media b" "b_pool b' = b_pool b" "\<not> b_dma_ch b'" "b_transfer_ring b' = None" "b_mem b' = b_mem b"
    "b_request_ring_nums b' = num_elems rr" "b_request_last_used b' = last_used rr" "b_completion_ring_num_elems b' = num_elems ra"
    "b_request_ring b' = rr" "b_completion_ring b' = ra" "b_state b' = DISK_STATE_OPEN"
  using s n
  by (auto simp: vcablk_bcknd_disk_start_def start_threads_def vcablk_bcknd_ioremap_def Let_def
      split: if_splits option.splits sum.splits)

end
