(* ===== verification/Vca_Runs.thy ===== *)
theory Vca_Runs
  imports Main
begin

text \<open>
  Runs of a labelled transition system, and simulation of one system by another. The locale states what a
  simulation has to show for one step and carries it over to runs; the block device and the queues of the
  virtual network are interpretations.
\<close>

inductive runs :: "('s \<Rightarrow> 'l \<Rightarrow> 's \<Rightarrow> bool) \<Rightarrow> 's \<Rightarrow> 'l list \<Rightarrow> 's \<Rightarrow> bool" for step where
  runs_nil: "runs step s [] s"
| runs_snoc: "runs step s ls s' \<Longrightarrow> step s' l s'' \<Longrightarrow> runs step s (ls @ [l]) s''"

lemma runs_append: "runs step s' ls' s'' \<Longrightarrow> runs step s ls s' \<Longrightarrow> runs step s (ls @ ls') s''"
  by (induction rule: runs.induct) (auto simp flip: append_assoc intro: runs.intros)

lemma runs_one: "step s l s' \<Longrightarrow> runs step s [l] s'"
  using runs_snoc [OF runs_nil] by fastforce

locale simulation =
  fixes step :: "'s \<Rightarrow> 'l \<Rightarrow> 's \<Rightarrow> bool"
    and astep :: "'a \<Rightarrow> 'l \<Rightarrow> 'a \<Rightarrow> bool"
    and rel :: "'s \<Rightarrow> 'a \<Rightarrow> bool"
  assumes simulate: "rel s a \<Longrightarrow> step s l s' \<Longrightarrow> \<exists>a'. astep a l a' \<and> rel s' a'"
begin

lemma simulate_runs: "runs step s ls s' \<Longrightarrow> rel s a \<Longrightarrow> \<exists>a'. runs astep a ls a' \<and> rel s' a'"
proof (induction rule: runs.induct)
  case (runs_snoc s ls s' l s'')
  then obtain a' where "runs astep a ls a'" "rel s' a'" by blast
  with simulate [OF this(2) runs_snoc.hyps(2)] show ?case by (blast intro: runs.intros)
qed (blast intro: runs.intros)

end

end
