(* ===== verification/Vcablk_Io.thy ===== *)
theory Vcablk_Io
  imports Vcablk_Front Vcablk_Bcknd_Life Vca_Runs
begin

unbundle bit_operations_syntax

text \<open>
  The two sides of a block device together. They share the request ring and the completion ring, which are
  in the memory of the card. A step is a request of the block layer that is sent, a request that the host
  serves, or an answer that the card takes from the completion ring. The device refines a queue of requests
  that are carried out one after the other, each ended once and in order.
\<close>

section \<open>Both sides\<close>

record 'f io =
  io_front :: vcablk_disk
  io_back :: "'f vcablk_bcknd_disk"

text \<open>The host as it sees the rings of the card.\<close>

definition io_view :: "'f io \<Rightarrow> 'f vcablk_bcknd_disk" where
  "io_view s = (io_back s)\<lparr>b_request_ring := request_ring (io_front s), b_completion_ring := completion_ring (io_front s)\<rparr>"

definition io_submit :: "disk_env \<Rightarrow> request \<Rightarrow> 'f io \<Rightarrow> (int \<times> 'f io) option" where
  "io_submit env req s = map_option (\<lambda>(ret, d). (ret, s\<lparr>io_front := d\<rparr>)) (vcablk_disk_async_request env req (io_front s))"

definition io_serve :: "'f bcknd_env \<Rightarrow> 'f io \<Rightarrow> 'f io option" where
  "io_serve benv s =
     map_option (\<lambda>b. \<lparr>io_front = (io_front s)\<lparr>request_ring := b_request_ring b, completion_ring := b_completion_ring b\<rparr>, io_back = b\<rparr>)
       (bcknd_serve benv (io_view s))"

definition io_complete :: "'f io \<Rightarrow> 'f io option" where
  "io_complete s = map_option (\<lambda>d. s\<lparr>io_front := d\<rparr>) (disk_completion_round (io_front s))"

text \<open>The elements that a request stands for, and what it needs: segments of whole sectors on the disk, and room.\<close>

definition request_parts :: "(bio_vec \<Rightarrow> u64) \<Rightarrow> request \<Rightarrow> part list" where
  "request_parts pa req = seg_parts pa (req_typ req) (req_sector req) (req_segs req)"

definition request_fits :: "(bio_vec \<Rightarrow> u64) \<Rightarrow> request \<Rightarrow> 'f io \<Rightarrow> bool" where
  "request_fits pa req s \<longleftrightarrow> req_segs req \<noteq> [] \<and>
     list_all (on_disk (unat (m_size_bytes (b_media (io_back s))))) (request_parts pa req)"

definition request_room :: "request \<Rightarrow> 'f io \<Rightarrow> bool" where
  "request_room req s \<longleftrightarrow>
     length (ring_queue_of (request_ring (io_front s))) + length (req_segs req) + (if do_sync req then 2 else 0)
       \<le> unat (num_elems (request_ring (io_front s))) \<and>
     (length (req_segs req) - 1) div VCABLK_BIO_SPLIT_SIZE + 1 < length (pool_free (bio_context_pool (io_front s)))"

datatype io_label = Submit request | Serve | Complete

inductive io_step :: "disk_env \<Rightarrow> (bio_vec \<Rightarrow> u64) \<Rightarrow> 'f bcknd_env \<Rightarrow> 'f io \<Rightarrow> io_label \<Rightarrow> 'f io \<Rightarrow> bool"
  for env pa benv where
  io_step_submit: "request_fits pa req s \<Longrightarrow> request_room req s \<Longrightarrow> io_submit env req s = Some (ret, s') \<Longrightarrow>
    io_step env pa benv s (Submit req) s'"
| io_step_serve: "last_used (request_ring (io_front s)) \<noteq> last_add (request_ring (io_front s)) \<Longrightarrow> io_serve benv s = Some s' \<Longrightarrow>
    io_step env pa benv s Serve s'"
| io_step_complete: "last_used (completion_ring (io_front s)) \<noteq> last_add (completion_ring (io_front s)) \<Longrightarrow> io_complete s = Some s' \<Longrightarrow>
    io_step env pa benv s Complete s'"

inductive_cases io_submitE: "io_step env pa benv s (Submit req) s'"
inductive_cases io_serveE: "io_step env pa benv s Serve s'"
inductive_cases io_completeE: "io_step env pa benv s Complete s'"

section \<open>The queue of requests\<close>

text \<open>
  The parts that wait for the host, the parts that wait for the card, the contents of the disk and of the
  memory of the card, and the requests that are ended. The last part of a request carries its identity.
\<close>

record aio =
  a_todo :: "(part list \<times> nat option) list"
  a_acks :: "nat option list"
  a_data :: "u8 list \<times> (u64 \<Rightarrow> u8)"
  a_ended :: "(nat \<times> int) list"

definition report_of :: "nat option \<Rightarrow> (nat \<times> int) list" where
  "report_of t = (case t of None \<Rightarrow> [] | Some r \<Rightarrow> [(r, 0)])"

definition split_of :: "(bio_vec \<Rightarrow> u64) \<Rightarrow> request \<Rightarrow> (part list \<times> nat option) list \<Rightarrow> bool" where
  "split_of pa req gs \<longleftrightarrow> gs \<noteq> [] \<and> concat (map fst gs) = request_parts pa req \<and>
     (\<forall>g \<in> set gs. fst g \<noteq> [] \<and> length (fst g) \<le> VCABLK_BIO_SPLIT_SIZE) \<and>
     map snd gs = replicate (length gs - 1) None @ [Some (req_id req)]"

inductive aio_step :: "(bio_vec \<Rightarrow> u64) \<Rightarrow> aio \<Rightarrow> io_label \<Rightarrow> aio \<Rightarrow> bool" for pa where
  aio_submit: "split_of pa req gs \<Longrightarrow> aio_step pa a (Submit req) (a\<lparr>a_todo := a_todo a @ gs\<rparr>)"
| aio_serve: "a_todo a = (ps, t) # gs \<Longrightarrow>
    aio_step pa a Serve (a\<lparr>a_todo := gs, a_acks := a_acks a @ [t], a_data := fold move_part ps (a_data a)\<rparr>)"
| aio_complete: "a_acks a = t # ts \<Longrightarrow>
    aio_step pa a Complete (a\<lparr>a_acks := ts, a_ended := a_ended a @ report_of t\<rparr>)"

section \<open>The relation\<close>

definition ctx_addrs :: "vcablk_disk \<Rightarrow> nat \<Rightarrow> u64 list" where
  "ctx_addrs d i = map bvc_dma_addr (bvec_ctxs (ctx d i))"

definition cookie_of :: "nat \<Rightarrow> u16" where
  "cookie_of i = word_of_nat i + 1"

type_synonym tagged = "group \<times> nat option"

definition waiting :: "vcablk_disk \<Rightarrow> nat \<Rightarrow> tagged list \<Rightarrow> bool" where
  "waiting d len Gs \<longleftrightarrow> (\<forall>g \<in> set Gs. sent d (fst g) (snd g) \<and> (\<exists>typ. well_formed (cookie_of (fst (fst g))) typ (snd (fst g))) \<and>
     (\<forall>r \<in> set (filter is_data (snd (fst g))). on_disk len (part_of r)))"

text \<open>The contexts in use are those of the groups and of the answers; they hold the addresses that are mapped.\<close>

definition contexts :: "vcablk_disk \<Rightarrow> nat list \<Rightarrow> nat list \<Rightarrow> bool" where
  "contexts d is fl \<longleftrightarrow> distinct (is @ fl) \<and> (\<forall>i \<in> set is. i < unat (p_num (bio_context_pool d))) \<and>
     unat (p_num (bio_context_pool d)) \<le> unat (num_elems (completion_ring d)) + 1 \<and>
     dma_maps d = (\<Sum>i \<in># mset is. mset (ctx_addrs d i))"

lemma contexts_perm:
  assumes "contexts d is fl" "mset is' = mset is"
  shows "contexts d is' fl"
proof -
  have "distinct (is' @ fl) = distinct (is @ fl)" "set is' = set is"
    by (rule mset_eq_imp_distinct_iff) (use assms(2) mset_eq_setD in \<open>auto\<close>)
  then show ?thesis using assms unfolding contexts_def by simp
qed

lemma contexts_disjoint: "contexts d is fl \<Longrightarrow> set is \<inter> set fl = {}"
  by (simp add: contexts_def)

definition io_inv :: "'f io \<Rightarrow> aio \<Rightarrow> tagged list \<Rightarrow> (nat \<times> nat option) list \<Rightarrow> nat list \<Rightarrow> nat list \<Rightarrow> bool" where
  "io_inv s a Gs H fl bfl \<longleftrightarrow>
     front_ok (io_front s) (concat (map (snd \<circ> fst) Gs)) [] fl \<and>
     waiting (io_front s) (length (fst (a_data a))) Gs \<and>
     (\<forall>h \<in> set H. bc_req (ctx (io_front s) (fst h)) = snd h) \<and>
     answers (io_view s) = map (\<lambda>h. \<lparr>ack_cookie = cookie_of (fst h), ack_ret = 0\<rparr>) H \<and>
     contexts (io_front s) (map (fst \<circ> fst) Gs @ map fst H) fl \<and>
     split_request_error (io_front s) = 0 \<and> ended (io_front s) = a_ended a \<and>
     back_ok (io_view s) (fst (a_data a)) bfl \<and> b_mem (io_back s) = snd (a_data a) \<and> 2 \<le> length bfl \<and>
     requests_ok (io_view s) (concat (map (snd \<circ> fst) Gs)) \<and>
     a_todo a = map (\<lambda>g. (map part_of (filter is_data (snd (fst g))), snd g)) Gs \<and> a_acks a = map snd H"

definition io_rel :: "disk_env \<Rightarrow> (bio_vec \<Rightarrow> u64) \<Rightarrow> 'f bcknd_env \<Rightarrow> 'f io \<Rightarrow> aio \<Rightarrow> bool" where
  "io_rel env pa benv s a \<longleftrightarrow> maps_pages env pa \<and> maps_windows benv \<and> (\<exists>Gs H fl bfl. io_inv s a Gs H fl bfl)"

section \<open>Submission\<close>

fun consecutive :: "part list \<Rightarrow> bool" where
  "consecutive ((t, s, n, a) # (t', s', n', a') # ps) \<longleftrightarrow> s' = s + n \<and> consecutive ((t', s', n', a') # ps)"
| "consecutive ps \<longleftrightarrow> True"

lemma consecutive_tl: "consecutive (p # ps) \<Longrightarrow> consecutive ps"
  by (cases p; cases ps) auto

lemma consecutive_append: "consecutive (ps @ qs) \<Longrightarrow> consecutive ps \<and> consecutive qs"
proof (induction ps)
  case (Cons p ps)
  then have "consecutive ps \<and> consecutive qs" using consecutive_tl [of p "ps @ qs"] by simp
  with Cons.prems show ?case by (cases p; cases ps) auto
qed simp

lemma consecutive_seg_parts: "consecutive (seg_parts pa typ sector segs)"
proof (induction segs arbitrary: sector)
  case (Cons bv bvs)
  from Cons.IH [of "sector + ucast (drop_bit 9 (bv_len bv))"] show ?case by (cases bvs) (simp_all add: Let_def)
qed simp

lemma contig_consecutive: "consecutive (map part_of ds) \<Longrightarrow> contig (rq_sector (hd ds)) ds"
proof (induction ds)
  case (Cons r ds)
  then have "contig (rq_sector (hd ds)) ds" using consecutive_tl by (metis list.simps(9))
  with Cons.prems show ?case by (cases ds) (simp_all add: part_of_def)
qed simp

lemma group_well_formed:
  assumes "sent d g t" "consecutive (map part_of (filter is_data (snd g)))"
    and "\<forall>r \<in> set (filter is_data (snd g)). rq_type r = typ" "typ \<in> {REQUEST_READ, REQUEST_WRITE}"
  shows "well_formed (cookie_of (fst g)) typ (snd g)"
  using assms contig_consecutive by (simp add: well_formed_def sent_def cookie_of_def)

lemma part_types: "map part_of ps = seg_parts pa typ sector segs \<Longrightarrow> r \<in> set ps \<Longrightarrow> rq_type r = typ"
  using seg_parts_types [of pa "typ" sector segs]
  by (metis (no_types, lifting) comp_apply fst_conv imageI in_set_replicate list.map_comp list.set_map part_of_def)

text \<open>The groups of a request that was sent, with the identity of the request at the last one.\<close>

definition tag_last :: "nat \<Rightarrow> group list \<Rightarrow> tagged list" where
  "tag_last r G = map (\<lambda>g. (g, None)) (butlast G) @ [(last G, Some r)]"

lemma tag_last_simps [simp]:
  assumes "G \<noteq> []"
  shows "map fst (tag_last r G) = G" "map snd (tag_last r G) = replicate (length G - 1) None @ [Some r]"
    "length (tag_last r G) = length G"
  using assms by (auto simp: tag_last_def comp_def map_replicate_const)

lemma tag_last_sent:
  assumes "submitted d pub fl req pa G d'" "x \<in> set (tag_last (req_id req) G)"
  shows "sent d' (fst x) (snd x)"
  using assms by (auto simp: submitted_def tag_last_def)

lemma submitted_groups:
  assumes "submitted d pub fl req pa G d'" "g \<in> set G"
  shows "consecutive (map part_of (filter is_data (snd g)))" "r \<in> set (filter is_data (snd g)) \<Longrightarrow> rq_type r = req_typ req"
    "r \<in> set (filter is_data (snd g)) \<Longrightarrow> part_of r \<in> set (request_parts pa req)"
proof -
  obtain G1 G2 where G: "G = G1 @ g # G2" using assms(2) by (auto simp: in_set_conv_decomp)
  have p: "map part_of (filter is_data (concat (map snd G))) = seg_parts pa (req_typ req) (req_sector req) (req_segs req)"
    using assms(1) by (simp add: submitted_def)
  then have "consecutive (map part_of (filter is_data (concat (map snd G))))" by (simp add: consecutive_seg_parts)
  then show "consecutive (map part_of (filter is_data (snd g)))"
    unfolding G by (auto dest!: consecutive_append)
  have m: "r \<in> set (filter is_data (concat (map snd G)))" if "r \<in> set (filter is_data (snd g))" using that assms(2) by auto
  then show "r \<in> set (filter is_data (snd g)) \<Longrightarrow> rq_type r = req_typ req" using part_types [OF p] by blast
  show "part_of r \<in> set (request_parts pa req)" if "r \<in> set (filter is_data (snd g))"
    unfolding request_parts_def p [symmetric] using m [OF that] by simp
qed

lemma shape_data: "shape ps \<Longrightarrow> filter is_data ps \<noteq> []"
  by (force simp: shape_def filter_empty_conv neq_Nil_conv)

lemma sent_split:
  assumes "submitted d pub fl req pa G d'"
  shows "split_of pa req (map (\<lambda>g. (map part_of (filter is_data (snd (fst g))), snd g)) (tag_last (req_id req) G))"
proof -
  let ?f = "\<lambda>g :: group. map part_of (filter is_data (snd g))"
  let ?gs = "map (\<lambda>g. (?f (fst g), snd g)) (tag_last (req_id req) G)"
  have ne: "G \<noteq> []" using assms by (simp add: submitted_def)
  have "map fst ?gs = map ?f (map fst (tag_last (req_id req) G))" by simp
  then have f: "map fst ?gs = map ?f G" unfolding tag_last_simps(1) [OF ne] .
  have s: "map snd ?gs = map snd (tag_last (req_id req) G)" by (simp add: comp_def)
  have "concat (map ?f G) = map part_of (filter is_data (concat (map snd G)))"
    by (induction G) simp_all
  then have c: "concat (map fst ?gs) = request_parts pa req"
    using assms f by (simp add: submitted_def request_parts_def)
  have l: "fst g \<noteq> [] \<and> length (fst g) \<le> VCABLK_BIO_SPLIT_SIZE" if g: "g \<in> set ?gs" for g
  proof -
    obtain x where x: "x \<in> set (tag_last (req_id req) G)" "g = (?f (fst x), snd x)" using g by auto
    then have "sent d' (fst x) (snd x)" using tag_last_sent [OF assms] by simp
    then show ?thesis using x(2) shape_data [of "snd (fst x)"] by (simp add: sent_def VCABLK_BIO_SPLIT_SIZE_def)
  qed
  have "?gs \<noteq> []" by (simp add: tag_last_def)
  then show ?thesis unfolding split_of_def using ne c l s by simp
qed

declare kept_num [simp del]

lemma sent_cong: "sent d g t \<Longrightarrow> ctx d' (fst g) = ctx d (fst g) \<Longrightarrow> sent d' g t"
  by (simp add: sent_def)

lemma submitted_addrs:
  assumes "submitted d pub fl req pa G d'"
  shows "(\<Sum>i \<in># mset (map fst G). mset (ctx_addrs d' i)) = mset (map rq_phys_buff (filter is_data (concat (map snd G))))"
proof -
  have "ctx_addrs d' (fst g) = map rq_phys_buff (filter is_data (snd g))" if "g \<in> set G" for g
  proof -
    have "g \<in> set (map fst (tag_last (req_id req) G))" using that assms by (simp add: submitted_def)
    then obtain x where "x \<in> set (tag_last (req_id req) G)" "g = fst x" by auto
    then show ?thesis using tag_last_sent [OF assms] by (auto simp: sent_def ctx_addrs_def)
  qed
  then show ?thesis by (induction G) simp_all
qed

lemma submitted_contexts:
  assumes S: "submitted d pub fl req pa G d'" and cs: "contexts d is fl" and rel: "pool_rel (bio_context_pool d) fl"
  shows "i \<in> set is \<Longrightarrow> ctx d' i = ctx d i" "contexts d' (is @ map fst G) (drop (length G) fl)"
proof -
  have fG: "map fst G = take (length G) fl" and cx: "\<And>k. k \<notin> fst ` set G \<Longrightarrow> ctx d' k = ctx d k" and kp: "kept d d'"
    and dm: "dma_maps d' = dma_maps d + mset (map rq_phys_buff (filter is_data (concat (map snd G))))"
    using S by (auto simp: submitted_def)
  have fsub: "fst ` set G \<subseteq> set fl" by (metis fG list.set_map set_take_subset)
  show old: "ctx d' i = ctx d i" if "i \<in> set is" for i
    using that contexts_disjoint [OF cs] fsub by (intro cx) blast
  have "(\<Sum>i \<in># mset is. mset (ctx_addrs d' i)) = (\<Sum>i \<in># mset is. mset (ctx_addrs d i))"
    by (rule arg_cong [where f = sum_mset], rule image_mset_cong) (simp add: ctx_addrs_def old)
  then have "dma_maps d' = (\<Sum>i \<in># mset (is @ map fst G). mset (ctx_addrs d' i))"
    using dm cs submitted_addrs [OF S] by (simp add: contexts_def)
  moreover have "distinct ((is @ map fst G) @ drop (length G) fl)" using cs fG by (simp add: contexts_def)
  moreover have "set (is @ map fst G) \<subseteq> {..<unat (p_num (bio_context_pool d'))}"
    using cs fsub rel kept_num(2) [OF kp] by (auto simp: pool_rel_def contexts_def)
  moreover have "unat (p_num (bio_context_pool d')) \<le> unat (num_elems (completion_ring d')) + 1"
    using cs kp by (simp add: contexts_def kept_def)
  ultimately show "contexts d' (is @ map fst G) (drop (length G) fl)"
    unfolding contexts_def by blast
qed

lemma submitted_waiting:
  assumes S: "submitted d pub fl req pa G d'" and wt: "waiting d len Gs" and old: "\<And>g. g \<in> set Gs \<Longrightarrow> ctx d' (fst (fst g)) = ctx d (fst (fst g))"
    and parts: "list_all (on_disk len) (request_parts pa req)"
  shows "waiting d' len (Gs @ tag_last (req_id req) G)"
  unfolding waiting_def
proof (intro ballI)
  fix g assume g: "g \<in> set (Gs @ tag_last (req_id req) G)"
  have ne: "G \<noteq> []" using S by (simp add: submitted_def)
  show "sent d' (fst g) (snd g) \<and> (\<exists>typ. well_formed (cookie_of (fst (fst g))) typ (snd (fst g))) \<and>
    (\<forall>r \<in> set (filter is_data (snd (fst g))). on_disk len (part_of r))"
  proof (cases "g \<in> set Gs")
    case True
    then show ?thesis using wt sent_cong [OF _ old [OF True]] unfolding waiting_def by blast
  next
    case False
    then have T: "g \<in> set (tag_last (req_id req) G)" using g by simp
    then have G: "fst g \<in> set G" using ne by (metis image_eqI list.set_map tag_last_simps(1))
    have ty: "req_typ req \<in> {REQUEST_READ, REQUEST_WRITE}" by (simp add: req_typ_def)
    have "well_formed (cookie_of (fst (fst g))) (req_typ req) (snd (fst g))"
      by (rule group_well_formed [OF tag_last_sent [OF S T] submitted_groups(1) [OF S G] _ ty])
        (use submitted_groups(2) [OF S G] in blast)
    moreover have "on_disk len (part_of r)" if "r \<in> set (filter is_data (snd (fst g)))" for r
      using submitted_groups(3) [OF S G that] parts by (auto simp: list_all_iff)
    ultimately show ?thesis using tag_last_sent [OF S T] by blast
  qed
qed

lemma requests_view:
  assumes "requests_ok (io_view s) q" "io_back s' = io_back s" "front_ok (io_front s') q' [] fl"
    and "num_elems (request_ring (io_front s')) = num_elems (request_ring (io_front s))"
    and "last_used (request_ring (io_front s')) = last_used (request_ring (io_front s))"
  shows "requests_ok (io_view s') q'"
  using assms(1,2,4,5) assms(3) [unfolded front_ok_def] by (simp add: requests_ok_def io_view_def)

lemma io_submit_inv:
  assumes inv: "io_inv s a Gs H fl bfl" and maps: "maps_pages env pa" and fits: "request_fits pa req s" and room: "request_room req s"
  shows "\<exists>s' gs Gs' fl'. io_submit env req s = Some (0, s') \<and> split_of pa req gs \<and> io_inv s' (a\<lparr>a_todo := a_todo a @ gs\<rparr>) Gs' H fl' bfl"
proof -
  let ?d = "io_front s" and ?pub = "concat (map (snd \<circ> fst) Gs)" and ?is = "map (fst \<circ> fst) Gs @ map fst H"
  have fr: "front_ok ?d ?pub [] fl" and wt: "waiting ?d (length (fst (a_data a))) Gs" and cs: "contexts ?d ?is fl"
    and bk: "back_ok (io_view s) (fst (a_data a)) bfl" and rq: "requests_ok (io_view s) ?pub"
    using inv by (auto simp: io_inv_def)
  have fl: "pool_rel (bio_context_pool ?d) fl" "pool_free (bio_context_pool ?d) = fl" "ring_queue_of (request_ring ?d) = ?pub"
    using fr pool_rel_free by (auto simp: front_ok_def)
  obtain G d' where r: "vcablk_disk_async_request env req ?d = Some (0, d')" and S: "submitted ?d ?pub fl req pa G d'"
    using async_ok [OF maps fr, of req] fits room fl
    by (auto simp: request_fits_def request_room_def VCABLK_BIO_SPLIT_SIZE_def simp del: length_concat)
  let ?T = "tag_last (req_id req) G" and ?s = "s\<lparr>io_front := d'\<rparr>"
  let ?gs = "map (\<lambda>g. (map part_of (filter is_data (snd (fst g))), snd g)) ?T"
  have ne: "G \<noteq> []" and fr': "front_ok d' (?pub @ concat (map snd G)) [] (drop (length G) fl)" and kp: "kept ?d d'"
    using S by (auto simp: submitted_def)
  have T: "map (snd \<circ> fst) ?T = map snd G" "map (fst \<circ> fst) ?T = map fst G"
    using ne by (simp_all flip: list.map_comp)
  note old = submitted_contexts(1) [OF S cs fl(1)]
  have wt': "waiting d' (length (fst (a_data a))) (Gs @ ?T)"
    by (rule submitted_waiting [OF S wt old]) (use fits bk in \<open>simp_all add: request_fits_def back_ok_def io_view_def\<close>)
  have cs': "contexts d' (map (fst \<circ> fst) (Gs @ ?T) @ map fst H) (drop (length G) fl)"
    by (rule contexts_perm [OF submitted_contexts(2) [OF S cs fl(1)]]) (unfold map_append T, simp)
  have "io_inv ?s (a\<lparr>a_todo := a_todo a @ ?gs\<rparr>) (Gs @ ?T) H (drop (length G) fl) bfl"
    unfolding io_inv_def
  proof (intro conjI)
    show f: "front_ok (io_front ?s) (concat (map (snd \<circ> fst) (Gs @ ?T))) [] (drop (length G) fl)"
      using fr' unfolding map_append T concat_append by simp
    show "requests_ok (io_view ?s) (concat (map (snd \<circ> fst) (Gs @ ?T)))"
      by (rule requests_view [OF rq _ f]) (use kp in \<open>simp_all add: kept_def\<close>)
    show "back_ok (io_view ?s) (fst (a_data (a\<lparr>a_todo := a_todo a @ ?gs\<rparr>))) bfl"
      using bk kp by (simp add: back_ok_def io_view_def kept_def tparam_def)
    show "\<forall>h \<in> set H. bc_req (ctx (io_front ?s) (fst h)) = snd h" using inv old by (auto simp: io_inv_def)
  qed (use inv kp wt' cs' in \<open>simp_all add: io_inv_def io_view_def kept_def\<close>)
  then show ?thesis using r sent_split [OF S] by (auto simp: io_submit_def)
qed

section \<open>Service\<close>

lemma cookie_of_inj:
  assumes "cookie_of i = cookie_of j" "pool_rel p fl" "i < unat (p_num p)" "j < unat (p_num p)"
  shows "i = j"
proof -
  have "i < 65536" "j < 65536" using assms(2-4) by (auto simp: pool_rel_def)
  moreover have "(word_of_nat i :: u16) = word_of_nat j" using assms(1) by (simp add: cookie_of_def)
  ultimately show ?thesis by (metis u16_of_nat_unat)
qed

text \<open>Adjacent groups have different cookies.\<close>

lemma next_cookie:
  assumes "waiting d len (g # Gs)" "contexts d (map (fst \<circ> fst) (g # Gs) @ is) fl" "pool_rel (bio_context_pool d) fl"
    and "concat (map (snd \<circ> fst) Gs) \<noteq> []"
  shows "rq_cookie (hd (concat (map (snd \<circ> fst) Gs))) \<noteq> cookie_of (fst (fst g))"
proof -
  obtain h Gs' where G: "Gs = h # Gs'" using assms(4) by (cases Gs) auto
  have s: "sent d (fst h) (snd h)" using assms(1) by (simp add: waiting_def G)
  have "shape (snd (fst h))" using s by (simp add: sent_def)
  then have "snd (fst h) \<noteq> []" by (auto simp: shape_def)
  then have hd_in: "hd (concat (map (snd \<circ> fst) Gs)) \<in> set (snd (fst h))" by (simp add: G)
  have c: "rq_cookie (hd (concat (map (snd \<circ> fst) Gs))) = cookie_of (fst (fst h))"
    using s hd_in unfolding sent_def cookie_of_def by blast
  have "fst (fst h) < unat (p_num (bio_context_pool d))" "fst (fst g) < unat (p_num (bio_context_pool d))" "fst (fst h) \<noteq> fst (fst g)"
    using assms(2) by (auto simp: contexts_def G)
  then show ?thesis unfolding c using cookie_of_inj [OF _ assms(3)] by blast
qed

lemma contexts_length:
  assumes "contexts d is fl" "pool_rel (bio_context_pool d) fl"
  shows "length is \<le> unat (num_elems (completion_ring d))"
proof -
  have "set (is @ fl) \<subseteq> {..<unat (p_num (bio_context_pool d))}" "distinct (is @ fl)" "fl \<noteq> []"
    using assms by (auto simp: contexts_def pool_rel_def)
  then have "length (is @ fl) \<le> unat (p_num (bio_context_pool d))" "0 < length fl"
    by (metis card_lessThan card_mono distinct_card finite_lessThan, simp)
  moreover have "unat (p_num (bio_context_pool d)) \<le> unat (num_elems (completion_ring d)) + 1"
    using assms(1) by (simp add: contexts_def)
  ultimately show ?thesis unfolding length_append by linarith
qed

lemma contexts_release:
  assumes "contexts d (i # is) fl" "\<And>k. k \<in> set is \<Longrightarrow> ctx_addrs d' k = ctx_addrs d k"
    and "dma_maps d' = dma_maps d - mset (ctx_addrs d i)" "p_num (bio_context_pool d') = p_num (bio_context_pool d)"
    and "num_elems (completion_ring d') = num_elems (completion_ring d)"
  shows "contexts d' is (fl @ [i])"
proof -
  have "(\<Sum>k \<in># mset is. mset (ctx_addrs d' k)) = (\<Sum>k \<in># mset is. mset (ctx_addrs d k))"
    by (rule arg_cong [where f = sum_mset], rule image_mset_cong) (simp add: assms(2))
  then show ?thesis using assms(1,3-5) by (auto simp: contexts_def)
qed

lemma front_ok_rings:
  assumes "front_ok d q [] fl" "ring_ok r" "ring_queue_of r = q'" "r = (request_ring d)\<lparr>last_used := last_used r\<rparr>"
  shows "front_ok (d\<lparr>request_ring := r, completion_ring := c\<rparr>) q' [] fl"
proof -
  have "last_add r = last_add (request_ring d)" using assms(4) by (metis vcablk_ring.select_convs(3) vcablk_ring.surjective vcablk_ring.update_convs(4))
  then have "alloc_ring (d\<lparr>request_ring := r, completion_ring := c\<rparr>) = r"
    using front_alloc [OF assms(1)] by (simp add: alloc_ring_def)
  then show ?thesis using assms by (simp add: front_ok_def)
qed

lemma serve_inv:
  assumes inv: "io_inv s a (g # Gs) H fl bfl" and maps: "maps_windows benv"
  shows "\<exists>s' bfl'. io_serve benv s = Some s' \<and>
    io_inv s' (a\<lparr>a_todo := tl (a_todo a), a_acks := a_acks a @ [snd g],
        a_data := fold move_part (map part_of (filter is_data (snd (fst g)))) (a_data a)\<rparr>)
      Gs (H @ [(fst (fst g), snd g)]) fl bfl'"
proof -
  let ?d = "io_front s" and ?b = "io_view s" and ?D = "fst (a_data a)" and ?rest = "concat (map (snd \<circ> fst) Gs)"
  have fr: "front_ok ?d (concat (map (snd \<circ> fst) (g # Gs))) [] fl" and wt: "waiting ?d (length ?D) (g # Gs)"
    and cs: "contexts ?d (map (fst \<circ> fst) (g # Gs) @ map fst H) fl"
    and bk: "back_ok ?b ?D bfl" "2 \<le> length bfl" "b_mem (io_back s) = snd (a_data a)"
    and rq: "requests_ok ?b (concat (map (snd \<circ> fst) (g # Gs)))"
    and aq: "answers ?b = map (\<lambda>h. \<lparr>ack_cookie = cookie_of (fst h), ack_ret = 0\<rparr>) H"
    using inv by (auto simp: io_inv_def)
  have rel: "pool_rel (bio_context_pool ?d) fl" using fr by (simp add: front_ok_def)
  obtain ty where g: "sent ?d (fst g) (snd g)" "well_formed (cookie_of (fst (fst g))) ty (snd (fst g))"
    "\<forall>r \<in> set (filter is_data (snd (fst g))). on_disk (length ?D) (part_of r)"
    using wt unfolding waiting_def by auto
  have i: "fst (fst g) < unat (p_num (bio_context_pool ?d))" "fst (fst g) \<notin> set fl" using cs by (auto simp: contexts_def)
  have c0: "cookie_of (fst (fst g)) \<noteq> 0" using cookie_index(1) [OF rel i] by (simp add: cookie_of_def)
  have lp: "length (snd (fst g)) \<le> 258"
  proof -
    obtain x ds y where "snd (fst g) = x @ ds @ y" "\<forall>r \<in> set (x @ y). \<not> is_data r" "\<forall>r \<in> set ds. is_data r" "length x \<le> 1" "length y \<le> 1"
      using g(1) unfolding sent_def shape_def by blast
    moreover from this have "filter is_data (snd (fst g)) = ds" using filter_shape by simp
    ultimately show ?thesis using g(1) by (simp add: sent_def)
  qed
  have room: "length (answers ?b) < unat (num_elems (b_completion_ring ?b))"
    using contexts_length [OF cs rel] unfolding aq by (simp add: io_view_def)
  have rq': "requests_ok ?b (snd (fst g) @ ?rest)" using rq by simp
  obtain b' bfl' D' mem' where b': "bcknd_serve benv ?b = Some b'"
    "(D', mem') = fold move_part (map part_of (filter is_data (snd (fst g)))) (?D, b_mem ?b)" "back_ok b' D' bfl'" "length bfl' = length bfl"
    "requests_ok b' ?rest" "length D' = length ?D" "b_mem b' = mem'"
    "num_elems (b_completion_ring b') = num_elems (b_completion_ring ?b)"
    "b_request_ring b' = (b_request_ring ?b)\<lparr>last_used := last_used (b_request_ring b')\<rparr>"
    "answers b' = answers ?b @ [\<lparr>ack_cookie = cookie_of (fst (fst g)), ack_ret = 0\<rparr>]"
    using serve_ok [OF maps bk(1,2) rq' g(2) c0 lp next_cookie [OF wt cs rel] g(3) room] by blast
  let ?d' = "?d\<lparr>request_ring := b_request_ring b', completion_ring := b_completion_ring b'\<rparr>"
  let ?s = "\<lparr>io_front = ?d', io_back = b'\<rparr>"
  have cx: "ctx ?d' = ctx ?d" "ctx_addrs ?d' = ctx_addrs ?d" by (simp_all add: ctx_def ctx_addrs_def fun_eq_iff)
  have view: "io_view ?s = b'" by (simp add: io_view_def)
  have dat: "fold move_part (map part_of (filter is_data (snd (fst g)))) (a_data a) = (D', mem')"
    using b'(2) bk(3) by (simp add: io_view_def)
  have "contexts ?d' (map (fst \<circ> fst) (g # Gs) @ map fst H) fl"
    using cs b'(8) unfolding contexts_def cx(2) by (simp add: io_view_def)
  then have cs': "contexts ?d' (map (fst \<circ> fst) Gs @ map fst (H @ [(fst (fst g), snd g)])) fl"
    by (rule contexts_perm) simp
  have "io_inv ?s (a\<lparr>a_todo := tl (a_todo a), a_acks := a_acks a @ [snd g],
        a_data := fold move_part (map part_of (filter is_data (snd (fst g)))) (a_data a)\<rparr>) Gs (H @ [(fst (fst g), snd g)]) fl bfl'"
    unfolding io_inv_def view dat
  proof (intro conjI)
    show "front_ok (io_front ?s) ?rest [] fl"
      using front_ok_rings [OF fr, of "b_request_ring b'" ?rest "b_completion_ring b'"] b'(5,9) by (simp add: requests_ok_def io_view_def)
    show "waiting (io_front ?s) (length (fst (a_data (a\<lparr>a_todo := tl (a_todo a), a_acks := a_acks a @ [snd g], a_data := (D', mem')\<rparr>)))) Gs"
      using wt b'(6) by (simp add: waiting_def sent_def cx)
    show "\<forall>h \<in> set (H @ [(fst (fst g), snd g)]). bc_req (ctx (io_front ?s) (fst h)) = snd h"
      using inv g(1) by (auto simp: io_inv_def cx sent_def)
  qed (use inv b'(3-8,10) aq bk(2) cs' in \<open>simp_all add: io_inv_def\<close>)
  then show ?thesis using b'(1) by (auto simp: io_serve_def)
qed

section \<open>Completion\<close>

lemma complete_inv:
  assumes inv: "io_inv s a Gs (h # H) fl bfl"
  shows "\<exists>s'. io_complete s = Some s' \<and>
    io_inv s' (a\<lparr>a_acks := tl (a_acks a), a_ended := a_ended a @ report_of (snd h)\<rparr>) Gs H (fl @ [fst h]) bfl"
proof -
  let ?d = "io_front s" and ?i = "fst h"
  have fr: "front_ok ?d (concat (map (snd \<circ> fst) Gs)) [] fl" and wt: "waiting ?d (length (fst (a_data a))) Gs"
    and cs: "contexts ?d (map (fst \<circ> fst) Gs @ map fst (h # H)) fl"
    and bk: "back_ok (io_view s) (fst (a_data a)) bfl" and rq: "requests_ok (io_view s) (concat (map (snd \<circ> fst) Gs))"
    and aq: "answers (io_view s) = map (\<lambda>h. \<lparr>ack_cookie = cookie_of (fst h), ack_ret = 0\<rparr>) (h # H)"
    and tg: "bc_req (ctx ?d ?i) = snd h" "split_request_error ?d = 0" "ended ?d = a_ended a"
    using inv by (auto simp: io_inv_def)
  have rel: "pool_rel (bio_context_pool ?d) fl" using fr by (simp add: front_ok_def)
  have i: "?i < unat (p_num (bio_context_pool ?d))" "?i \<notin> set fl" using cs by (auto simp: contexts_def)
  have ro: "ring_ok (completion_ring ?d)" using bk by (simp add: back_ok_def io_view_def)
  have q: "ring_queue_of (completion_ring ?d) = \<lparr>ack_cookie = cookie_of ?i, ack_ret = 0\<rparr> #
      map (\<lambda>h. \<lparr>ack_cookie = cookie_of (fst h), ack_ret = 0\<rparr>) H" using aq by (simp add: io_view_def)
  obtain d' where d': "disk_completion_round ?d = Some d'" "ring_ok (completion_ring d')"
    "ring_queue_of (completion_ring d') = map (\<lambda>h. \<lparr>ack_cookie = cookie_of (fst h), ack_ret = 0\<rparr>) H"
    "num_elems (completion_ring d') = num_elems (completion_ring ?d)" "pool_rel (bio_context_pool d') (fl @ [?i])"
    "p_num (bio_context_pool d') = p_num (bio_context_pool ?d)" "request_ring d' = request_ring ?d" "request_ring_alloc d' = request_ring_alloc ?d"
    "dma_maps d' = dma_maps ?d - mset (map bvc_dma_addr (bvec_ctxs (ctx ?d ?i)))" "\<forall>k. k \<noteq> ?i \<longrightarrow> ctx d' k = ctx ?d k"
    "(ended d', split_request_error d') = report (bc_req (ctx ?d ?i)) 0 (ended ?d, split_request_error ?d)"
    using completion_round_ok [OF ro q _ rel i] by (auto simp: cookie_of_def)
  have cs2: "contexts ?d (?i # map (fst \<circ> fst) Gs @ map fst H) fl" by (rule contexts_perm [OF cs]) simp
  then have "?i \<notin> set (map (fst \<circ> fst) Gs @ map fst H)" by (simp add: contexts_def)
  then have old: "ctx d' k = ctx ?d k" if "k \<in> set (map (fst \<circ> fst) Gs @ map fst H)" for k
    using that d'(10) by metis
  have rep: "ended d' = a_ended a @ report_of (snd h)" "split_request_error d' = 0"
    using d'(11) tg by (auto simp: report_def report_of_def split: option.splits)
  have cs': "contexts d' (map (fst \<circ> fst) Gs @ map fst H) (fl @ [?i])"
    by (rule contexts_release [OF cs2]) (use d' old in \<open>simp_all add: ctx_addrs_def\<close>)
  let ?s = "s\<lparr>io_front := d'\<rparr>"
  have "io_inv ?s (a\<lparr>a_acks := tl (a_acks a), a_ended := a_ended a @ report_of (snd h)\<rparr>) Gs H (fl @ [?i]) bfl"
    unfolding io_inv_def
  proof (intro conjI)
    show f: "front_ok (io_front ?s) (concat (map (snd \<circ> fst) Gs)) [] (fl @ [?i])"
      using fr d'(5,7,8) by (simp add: front_ok_def alloc_ring_def)
    show "requests_ok (io_view ?s) (concat (map (snd \<circ> fst) Gs))"
      by (rule requests_view [OF rq _ f]) (use d'(7) in simp_all)
    show "back_ok (io_view ?s) (fst (a_data (a\<lparr>a_acks := tl (a_acks a), a_ended := a_ended a @ report_of (snd h)\<rparr>))) bfl"
      using bk d'(2,4) by (simp add: back_ok_def io_view_def tparam_def)
    show "waiting (io_front ?s) (length (fst (a_data (a\<lparr>a_acks := tl (a_acks a), a_ended := a_ended a @ report_of (snd h)\<rparr>)))) Gs"
      using wt old by (auto simp: waiting_def sent_def)
    show "\<forall>h \<in> set H. bc_req (ctx (io_front ?s) (fst h)) = snd h" using inv old by (auto simp: io_inv_def)
  qed (use inv d' rep cs' in \<open>simp_all add: io_inv_def io_view_def\<close>)
  then show ?thesis using d'(1) by (auto simp: io_complete_def)
qed

section \<open>Steps\<close>

lemma rings_empty:
  assumes "io_inv s a Gs H fl bfl"
  shows "last_used (request_ring (io_front s)) = last_add (request_ring (io_front s)) \<longleftrightarrow> Gs = []"
    "last_used (completion_ring (io_front s)) = last_add (completion_ring (io_front s)) \<longleftrightarrow> H = []"
proof -
  have r: "ring_ok (request_ring (io_front s))" "ring_queue_of (request_ring (io_front s)) = concat (map (snd \<circ> fst) Gs)"
    "ring_ok (completion_ring (io_front s))" "answers (io_view s) = map (\<lambda>h. \<lparr>ack_cookie = cookie_of (fst h), ack_ret = 0\<rparr>) H"
    using assms by (auto simp: io_inv_def front_ok_def back_ok_def io_view_def)
  have "snd (fst g) \<noteq> []" if "g \<in> set Gs" for g
    using assms that shape_data by (force simp: io_inv_def waiting_def sent_def)
  then have "concat (map (snd \<circ> fst) Gs) = [] \<longleftrightarrow> Gs = []" by (cases Gs) auto
  then show "last_used (request_ring (io_front s)) = last_add (request_ring (io_front s)) \<longleftrightarrow> Gs = []"
    using ring_queue_empty [OF r(1)] r(2) by metis
  have "ring_queue_of (completion_ring (io_front s)) = [] \<longleftrightarrow> H = []" using r(4) by (simp add: io_view_def)
  then show "last_used (completion_ring (io_front s)) = last_add (completion_ring (io_front s)) \<longleftrightarrow> H = []"
    using ring_queue_empty [OF r(3)] by metis
qed

lemma rel_submit:
  assumes "io_rel env pa benv s a" "request_fits pa req s" "request_room req s"
  shows "\<exists>s' a'. io_submit env req s = Some (0, s') \<and> aio_step pa a (Submit req) a' \<and> io_rel env pa benv s' a'"
proof -
  obtain Gs H fl bfl where i: "io_inv s a Gs H fl bfl" "maps_pages env pa" "maps_windows benv"
    using assms(1) unfolding io_rel_def by blast
  obtain s' gs Gs' fl' where s: "io_submit env req s = Some (0, s')" "split_of pa req gs"
    "io_inv s' (a\<lparr>a_todo := a_todo a @ gs\<rparr>) Gs' H fl' bfl"
    using io_submit_inv [OF i(1,2) assms(2,3)] by blast
  have "io_rel env pa benv s' (a\<lparr>a_todo := a_todo a @ gs\<rparr>)" unfolding io_rel_def using i(2,3) s(3) by blast
  then show ?thesis using s(1) aio_submit [OF s(2)] by blast
qed

lemma rel_serve:
  assumes "io_rel env pa benv s a" "last_used (request_ring (io_front s)) \<noteq> last_add (request_ring (io_front s))"
  shows "\<exists>s' a'. io_serve benv s = Some s' \<and> aio_step pa a Serve a' \<and> io_rel env pa benv s' a'"
proof -
  obtain Gs H fl bfl where i: "io_inv s a Gs H fl bfl" "maps_pages env pa" "maps_windows benv"
    using assms(1) unfolding io_rel_def by blast
  obtain g Gs' where g: "Gs = g # Gs'" using rings_empty(1) [OF i(1)] assms(2) by (cases Gs) auto
  have t: "a_todo a = (map part_of (filter is_data (snd (fst g))), snd g) #
      map (\<lambda>g. (map part_of (filter is_data (snd (fst g))), snd g)) Gs'" using i(1) by (simp add: io_inv_def g)
  obtain s' bfl' where s: "io_serve benv s = Some s'"
    "io_inv s' (a\<lparr>a_todo := tl (a_todo a), a_acks := a_acks a @ [snd g],
        a_data := fold move_part (map part_of (filter is_data (snd (fst g)))) (a_data a)\<rparr>) Gs' (H @ [(fst (fst g), snd g)]) fl bfl'"
    using serve_inv [OF i(1) [unfolded g] i(3)] by blast
  let ?a = "a\<lparr>a_todo := map (\<lambda>g. (map part_of (filter is_data (snd (fst g))), snd g)) Gs', a_acks := a_acks a @ [snd g],
      a_data := fold move_part (map part_of (filter is_data (snd (fst g)))) (a_data a)\<rparr>"
  have "io_inv s' ?a Gs' (H @ [(fst (fst g), snd g)]) fl bfl'" using s(2) unfolding t list.sel .
  then have "io_rel env pa benv s' ?a" unfolding io_rel_def using i(2,3) by blast
  then show ?thesis using s(1) aio_serve [where pa = pa, OF t] by blast
qed

text \<open>The completion ring has room for the answer, and the answer is put into it.\<close>

lemma rel_serve_answers:
  assumes "io_rel env pa benv s a" "last_used (request_ring (io_front s)) \<noteq> last_add (request_ring (io_front s))"
  shows "\<not> VCA_RB_BUFF_FULL (last_add (completion_ring (io_front s))) (last_used (completion_ring (io_front s)))
      (num_elems (completion_ring (io_front s)))"
    "\<exists>s' cookie. io_serve benv s = Some s' \<and>
      ring_queue_of (completion_ring (io_front s')) = ring_queue_of (completion_ring (io_front s)) @ [\<lparr>ack_cookie = cookie, ack_ret = 0\<rparr>]"
proof -
  obtain Gs H fl bfl where i: "io_inv s a Gs H fl bfl" "maps_windows benv"
    using assms(1) unfolding io_rel_def by blast
  obtain g Gs' where g: "Gs = g # Gs'" using rings_empty(1) [OF i(1)] assms(2) by (cases Gs) auto
  have view: "b_completion_ring (io_view t) = completion_ring (io_front t)" for t :: "'a io" by (simp add: io_view_def)
  have q: "ring_queue_of (completion_ring (io_front t)) = map (\<lambda>h. \<lparr>ack_cookie = cookie_of (fst h), ack_ret = 0\<rparr>) H'"
    if "io_inv t a' Gs'' H' fl' bfl'" for t :: "'a io" and a' Gs'' H' fl' bfl'
    using that by (simp add: io_inv_def view)
  have ok: "ring_ok (completion_ring (io_front s))" using i(1) by (simp add: io_inv_def back_ok_def view)
  have cs: "contexts (io_front s) (map (fst \<circ> fst) (g # Gs') @ map fst H) fl" and rel: "pool_rel (bio_context_pool (io_front s)) fl"
    using i(1) by (simp_all add: io_inv_def g front_ok_def)
  have "length H < unat (num_elems (completion_ring (io_front s)))" using contexts_length [OF cs rel] by simp
  then show "\<not> VCA_RB_BUFF_FULL (last_add (completion_ring (io_front s))) (last_used (completion_ring (io_front s)))
      (num_elems (completion_ring (io_front s)))"
    using ring_full_iff [OF ok] q [OF i(1)] by simp
  obtain s' bfl' a' where "io_serve benv s = Some s'" "io_inv s' a' Gs' (H @ [(fst (fst g), snd g)]) fl bfl'"
    using serve_inv [OF i(1) [unfolded g] i(2)] by blast
  then show "\<exists>s' cookie. io_serve benv s = Some s' \<and>
      ring_queue_of (completion_ring (io_front s')) = ring_queue_of (completion_ring (io_front s)) @ [\<lparr>ack_cookie = cookie, ack_ret = 0\<rparr>]"
    using q [OF i(1)] q by auto
qed

lemma rel_complete:
  assumes "io_rel env pa benv s a" "last_used (completion_ring (io_front s)) \<noteq> last_add (completion_ring (io_front s))"
  shows "\<exists>s' a'. io_complete s = Some s' \<and> aio_step pa a Complete a' \<and> io_rel env pa benv s' a'"
proof -
  obtain Gs H fl bfl where i: "io_inv s a Gs H fl bfl" "maps_pages env pa" "maps_windows benv"
    using assms(1) unfolding io_rel_def by blast
  obtain h H' where h: "H = h # H'" using rings_empty(2) [OF i(1)] assms(2) by (cases H) auto
  have t: "a_acks a = snd h # map snd H'" using i(1) by (simp add: io_inv_def h)
  obtain s' where s: "io_complete s = Some s'"
    "io_inv s' (a\<lparr>a_acks := tl (a_acks a), a_ended := a_ended a @ report_of (snd h)\<rparr>) Gs H' (fl @ [fst h]) bfl"
    using complete_inv [OF i(1) [unfolded h]] by blast
  let ?a = "a\<lparr>a_acks := map snd H', a_ended := a_ended a @ report_of (snd h)\<rparr>"
  have "io_inv s' ?a Gs H' (fl @ [fst h]) bfl" using s(2) unfolding t list.sel .
  then have "io_rel env pa benv s' ?a" unfolding io_rel_def using i(2,3) by blast
  then show ?thesis using s(1) aio_complete [where pa = pa, OF t] by blast
qed

interpretation blkio: simulation "io_step env pa benv" "aio_step pa" "io_rel env pa benv" for env pa benv
proof unfold_locales
  fix s a l s'
  assume r: "io_rel env pa benv s a" and st: "io_step env pa benv s l s'"
  from st show "\<exists>a'. aio_step pa a l a' \<and> io_rel env pa benv s' a'"
  proof cases
    case (io_step_submit req ret)
    then show ?thesis using rel_submit [OF r, of req] by auto
  next
    case io_step_serve
    then show ?thesis using rel_serve [OF r] by auto
  next
    case io_step_complete
    then show ?thesis using rel_complete [OF r] by auto
  qed
qed

section \<open>The history of a run\<close>

fun submits :: "io_label list \<Rightarrow> request list" where
  "submits [] = []"
| "submits (Submit req # ls) = req # submits ls"
| "submits (l # ls) = submits ls"

lemma submits_append [simp]: "submits (ls @ ls') = submits ls @ submits ls'"
  by (induction ls rule: submits.induct) simp_all

lemma submits_none: "set ls \<subseteq> {Serve, Complete} \<Longrightarrow> submits ls = []"
  by (induction ls rule: submits.induct) auto

abbreviation "reports gs \<equiv> concat (map (report_of \<circ> snd) gs)"

text \<open>The parts of all requests are those that are ended, those that wait for the card and those that wait for the host.\<close>

definition history :: "(bio_vec \<Rightarrow> u64) \<Rightarrow> request list \<Rightarrow> aio \<Rightarrow> aio \<Rightarrow> bool" where
  "history pa reqs a0 a \<longleftrightarrow> (\<exists>gss past acked. list_all2 (split_of pa) reqs gss \<and> concat gss = past @ acked @ a_todo a \<and>
     a_acks a = map snd acked \<and> a_ended a = reports past \<and> a_data a = fold move_part (concat (map fst (past @ acked))) (a_data a0))"

lemma history_step:
  assumes "history pa reqs a0 a" "aio_step pa a l a'"
  shows "history pa (reqs @ submits [l]) a0 a'"
proof -
  obtain gss past acked where h: "list_all2 (split_of pa) reqs gss" "concat gss = past @ acked @ a_todo a" "a_acks a = map snd acked"
    "a_ended a = reports past" "a_data a = fold move_part (concat (map fst (past @ acked))) (a_data a0)"
    using assms(1) unfolding history_def by blast
  from assms(2) show ?thesis
  proof cases
    case (aio_submit req gs)
    then show ?thesis unfolding history_def using h
      by (intro exI [of _ "gss @ [gs]"] exI [of _ past] exI [of _ acked]) (simp add: list_all2_appendI)
  next
    case (aio_serve ps t gs)
    then show ?thesis unfolding history_def using h
      by (intro exI [of _ gss] exI [of _ past] exI [of _ "acked @ [(ps, t)]"]) simp
  next
    case (aio_complete t ts)
    then obtain x acked' where x: "acked = x # acked'" "snd x = t" "ts = map snd acked'" using h(3) by (cases acked) auto
    then show ?thesis unfolding history_def using h aio_complete
      by (intro exI [of _ gss] exI [of _ "past @ [x]"] exI [of _ acked']) simp
  qed
qed

lemma history_runs:
  assumes "runs (aio_step pa) a0 ls a" "a_todo a0 = []" "a_acks a0 = []" "a_ended a0 = []"
  shows "history pa (submits ls) a0 a"
  using assms
proof (induction rule: runs.induct)
  case (runs_nil a0)
  then show ?case by (simp add: history_def)
next
  case (runs_snoc a0 ls a l a')
  then show ?case using history_step by fastforce
qed

lemma split_reports:
  assumes "split_of pa req gs"
  shows "reports gs = [(req_id req, 0)]" "gs = past @ us \<Longrightarrow> us \<noteq> [] \<Longrightarrow> reports past = []" "concat (map fst gs) = request_parts pa req"
proof -
  have m: "map snd gs = replicate (length gs - 1) None @ [Some (req_id req)]" using assms by (simp add: split_of_def)
  have r: "reports xs = concat (map report_of (map snd xs))" for xs :: "(part list \<times> nat option) list" by simp
  have z: "concat (map report_of (replicate n None)) = []" for n by (simp add: report_of_def)
  show "reports gs = [(req_id req, 0)]" unfolding r m by (simp add: z report_of_def)
  show "reports past = []" if "gs = past @ us" "us \<noteq> []"
  proof -
    have "length past \<le> length gs - 1" using that by (cases us) auto
    moreover have "map snd past = take (length past) (map snd gs)" using that by simp
    ultimately have "map snd past = replicate (length past) None" unfolding m by simp
    then show ?thesis unfolding r by (simp only: z)
  qed
  show "concat (map fst gs) = request_parts pa req" using assms by (simp add: split_of_def)
qed

lemma parts_concat: "list_all2 (split_of pa) reqs gss \<Longrightarrow> concat (map fst (concat gss)) = concat (map (request_parts pa) reqs)"
  by (induction rule: list_all2_induct) (simp_all add: split_reports(3))

text \<open>The requests that are ended are the first ones, and the parts that are done include theirs.\<close>

lemma ended_prefix:
  assumes "list_all2 (split_of pa) reqs gss" "concat gss = past @ rest"
  shows "\<exists>k \<le> length reqs. reports past = map (\<lambda>r. (req_id r, 0)) (take k reqs) \<and>
    length (concat (map (request_parts pa) (take k reqs))) \<le> length (concat (map fst past)) \<and> (rest = [] \<longrightarrow> k = length reqs)"
  using assms
proof (induction arbitrary: past rule: list_all2_induct)
  case (Cons req reqs gs gss)
  note sp = split_reports [OF Cons.hyps(1)]
  have e: "gs @ concat gss = past @ rest" using Cons.prems by simp
  show ?case
  proof (cases "length gs \<le> length past")
    case False
    then have t: "take (length past) gs = past" "drop (length past) gs \<noteq> []" "rest = drop (length past) gs @ concat gss"
      using e by (auto simp: append_eq_append_conv_if)
    then have "gs = past @ drop (length past) gs" "rest \<noteq> []" by (metis append_take_drop_id, simp)
    with t show ?thesis using sp(2) by (intro exI [of _ 0]) simp
  next
    case True
    then have "gs = take (length gs) past" "concat gss = drop (length gs) past @ rest" using e by (auto simp: append_eq_append_conv_if)
    then obtain us where us: "past = gs @ us" "concat gss = us @ rest" by (metis append_take_drop_id)
    then obtain k where k: "k \<le> length reqs" "reports us = map (\<lambda>r. (req_id r, 0)) (take k reqs)"
      "length (concat (map (request_parts pa) (take k reqs))) \<le> length (concat (map fst us))" "rest = [] \<longrightarrow> k = length reqs"
      using Cons.IH by blast
    have "length (concat (map fst past)) = length (request_parts pa req) + length (concat (map fst us))"
      unfolding us(1) map_append concat_append sp(3) by simp
    moreover have "reports past = (req_id req, 0) # reports us" unfolding us(1) map_append concat_append sp(1) by simp
    ultimately show ?thesis using k by (intro exI [of _ "Suc k"]) (simp add: comp_def)
  qed
qed simp

lemma rel_history:
  assumes "io_rel env pa benv s0 a0" "a_todo a0 = []" "a_acks a0 = []" "a_ended a0 = []" "runs (io_step env pa benv) s0 ls s"
  shows "\<exists>a. io_rel env pa benv s a \<and> history pa (submits ls) a0 a"
  using blkio.simulate_runs [OF assms(5,1)] history_runs [OF _ assms(2-4)] by blast

lemma history_in_order:
  assumes "history pa reqs a0 a"
  shows "\<exists>k m. k \<le> length reqs \<and> a_ended a = map (\<lambda>r. (req_id r, 0)) (take k reqs) \<and>
    a_data a = fold move_part (take m (concat (map (request_parts pa) reqs))) (a_data a0) \<and>
    length (concat (map (request_parts pa) (take k reqs))) \<le> m \<and>
    (a_todo a = [] \<and> a_acks a = [] \<longrightarrow> k = length reqs)"
proof -
  obtain gss past acked where h: "list_all2 (split_of pa) reqs gss" "concat gss = past @ acked @ a_todo a" "a_acks a = map snd acked"
    "a_ended a = reports past" "a_data a = fold move_part (concat (map fst (past @ acked))) (a_data a0)"
    using assms unfolding history_def by blast
  obtain k where k: "k \<le> length reqs" "reports past = map (\<lambda>r. (req_id r, 0)) (take k reqs)"
    "length (concat (map (request_parts pa) (take k reqs))) \<le> length (concat (map fst past))" "acked @ a_todo a = [] \<longrightarrow> k = length reqs"
    using ended_prefix [OF h(1,2)] by blast
  let ?m = "length (concat (map fst (past @ acked)))"
  have "concat (map (request_parts pa) reqs) = concat (map fst (past @ acked)) @ concat (map fst (a_todo a))"
    using parts_concat [OF h(1)] unfolding h(2) by simp
  then have "take ?m (concat (map (request_parts pa) reqs)) = concat (map fst (past @ acked))" by simp
  moreover have "length (concat (map (request_parts pa) (take k reqs))) \<le> ?m" using k(3) by simp
  ultimately show ?thesis using h k by (intro exI [of _ k] exI [of _ ?m]) simp
qed

text \<open>Service and completion go on until both rings are empty.\<close>

lemma rel_drains:
  assumes "io_rel env pa benv s a"
  shows "\<exists>ls s' a'. runs (io_step env pa benv) s ls s' \<and> set ls \<subseteq> {Serve, Complete} \<and> io_rel env pa benv s' a' \<and>
    runs (aio_step pa) a ls a' \<and> a_todo a' = [] \<and> a_acks a' = []"
  using assms
proof (induction "2 * length (a_todo a) + length (a_acks a)" arbitrary: s a rule: less_induct)
  case less
  obtain Gs H fl bfl where i: "io_inv s a Gs H fl bfl" using less.prems unfolding io_rel_def by blast
  have l: "a_todo a = [] \<longleftrightarrow> Gs = []" "a_acks a = [] \<longleftrightarrow> H = []" using i by (auto simp: io_inv_def)
  have go: ?case if st: "io_step env pa benv s l s1" "aio_step pa a l a1" "io_rel env pa benv s1 a1" "l \<in> {Serve, Complete}"
    "2 * length (a_todo a1) + length (a_acks a1) < 2 * length (a_todo a) + length (a_acks a)" for l s1 a1
  proof -
    obtain ls s' a' where r: "runs (io_step env pa benv) s1 ls s'" "set ls \<subseteq> {Serve, Complete}" "io_rel env pa benv s' a'"
      "runs (aio_step pa) a1 ls a'" "a_todo a' = []" "a_acks a' = []" using less.hyps [OF st(5,3)] by blast
    have "runs (io_step env pa benv) s ([l] @ ls) s'" "runs (aio_step pa) a ([l] @ ls) a'"
      by (rule runs_append, fact, rule runs_one, fact)+
    with r st(4) show ?thesis by (intro exI [of _ "[l] @ ls"] exI [of _ s'] exI [of _ a']) auto
  qed
  consider "Gs \<noteq> []" | "H \<noteq> []" | "Gs = []" "H = []" by blast
  then show ?case
  proof cases
    case 1
    then obtain s1 a1 where "io_serve benv s = Some s1" "aio_step pa a Serve a1" "io_rel env pa benv s1 a1"
      using rel_serve [OF less.prems] rings_empty(1) [OF i] by blast
    moreover from this(2) have "2 * length (a_todo a1) + length (a_acks a1) < 2 * length (a_todo a) + length (a_acks a)"
      by cases simp
    ultimately show ?thesis using go [of Serve s1 a1] io_step_serve rings_empty(1) [OF i] 1 by blast
  next
    case 2
    then obtain s1 a1 where "io_complete s = Some s1" "aio_step pa a Complete a1" "io_rel env pa benv s1 a1"
      using rel_complete [OF less.prems] rings_empty(2) [OF i] by blast
    moreover from this(2) have "2 * length (a_todo a1) + length (a_acks a1) < 2 * length (a_todo a) + length (a_acks a)"
      by cases simp
    ultimately show ?thesis using go [of Complete s1 a1] io_step_complete rings_empty(2) [OF i] 2 by blast
  next
    case 3
    then show ?thesis using l less.prems runs_nil
      by (intro exI [of _ "[]"] exI [of _ s] exI [of _ a]) (auto intro: runs_nil)
  qed
qed

end
