(* ===== verification/Vcablk_Device.thy ===== *)
theory Vcablk_Device
  imports Vcablk_Io
begin

unbundle bit_operations_syntax

text \<open>
  A block device from its creation on: the host creates a disk in memory, the card creates the rings and the
  device, the host starts its side with the rings. The properties hold in every state that submissions,
  services and completions can reach.
\<close>

section \<open>Setting up\<close>

text \<open>
  The size, the access mode and the doorbell that the host announces are those of its disk; the rings and the
  doorbell that the card announces are those of its device.
\<close>

definition io_connect ::
    "task_env \<Rightarrow> 'f bcknd_alloc \<Rightarrow> 'f bcknd_env \<Rightarrow> start_env \<Rightarrow> int \<Rightarrow> vcablk_disk_open_desc \<Rightarrow> (u64 \<Rightarrow> u8) \<Rightarrow> 'f io option" where
  "io_connect te al benv se next_db desc mem =
     (case (vcablk_bcknd_disk_create al False mem desc,
            init_request_ring (fst (te_kmalloc te)) (te_map_req te) (te_mem_req te) VCABLK_QUEUE_REQUESTS_NUMS,
            init_completion_ring (snd (te_kmalloc te)) (te_map_ack te) (te_mem_ack te) VCABLK_QUEUE_ACK_NUMS) of
        (Some (Inr b), Inr rr, Inr ra) \<Rightarrow>
          (case vcablk_disk_create (te_alloc te) {} 0 (vcablk_media_size (b_media b)) (vcablk_media_read_only (b_media b))
                  (Some rr) (Some ra) (te_next_db te) next_db of
             Some (Inr d, cbs) \<Rightarrow>
               (case vcablk_bcknd_disk_start benv se (bio_done_db d) (dma_addr rr) (ucast (size_alloc rr)) (dma_addr ra) (ucast (size_alloc ra))
                       rr ra (snd (vcablk_bcknd_disk_prepare_request_db next_db b)) {} of
                  (err, b', cbs') \<Rightarrow> if err = 0 then Some \<lparr>io_front = d, io_back = b'\<rparr> else None)
           | _ \<Rightarrow> None)
      | _ \<Rightarrow> None)"

text \<open>The memory of a disk has the size that was asked for.\<close>

definition vmalloc_law :: "'f bcknd_alloc \<Rightarrow> bool" where
  "vmalloc_law al \<longleftrightarrow> (\<forall>n m. ba_vmalloc al n = Some m \<longrightarrow> length m = n)"

definition disk_contents :: "'f io \<Rightarrow> u8 list \<Rightarrow> bool" where
  "disk_contents s D \<longleftrightarrow> m_data (b_media (io_back s)) = VCABLK_DISK_TYPE_MEMORY D"

definition empty_aio :: "u8 list \<Rightarrow> (u64 \<Rightarrow> u8) \<Rightarrow> aio" where
  "empty_aio D mem = \<lparr>a_todo = [], a_acks = [], a_data = (D, mem), a_ended = []\<rparr>"

lemma connect_inv:
  assumes c: "io_connect te al benv se next_db desc mem = Some s" and ty: "od_type desc = TYPE_MEMORY" and v: "vmalloc_law al"
  shows "\<exists>D. disk_contents s D \<and> io_inv s (empty_aio D mem) [] [] [0..<33] [0..<16]"
    "desc_media al desc = Ptr (b_media (io_back s))" "num_elems (request_ring (io_front s)) = VCABLK_QUEUE_REQUESTS_NUMS"
proof -
  obtain b rr ra d cbs cbs' where
    b: "vcablk_bcknd_disk_create al False mem desc = Some (Inr b)"
    and rr: "init_request_ring (fst (te_kmalloc te)) (te_map_req te) (te_mem_req te) VCABLK_QUEUE_REQUESTS_NUMS = Inr rr"
    and ra: "init_completion_ring (snd (te_kmalloc te)) (te_map_ack te) (te_mem_ack te) VCABLK_QUEUE_ACK_NUMS = Inr ra"
    and d: "vcablk_disk_create (te_alloc te) {} 0 (vcablk_media_size (b_media b)) (vcablk_media_read_only (b_media b))
        (Some rr) (Some ra) (te_next_db te) next_db = Some (Inr d, cbs)"
    and st: "vcablk_bcknd_disk_start benv se (bio_done_db d) (dma_addr rr) (ucast (size_alloc rr)) (dma_addr ra) (ucast (size_alloc ra))
        rr ra (snd (vcablk_bcknd_disk_prepare_request_db next_db b)) {} = (0, io_back s, cbs')"
    and s: "io_front s = d"
    using c unfolding io_connect_def by (auto split: option.splits sum.splits prod.splits if_splits)
  note B = created_back [OF b ty] and S = setup_ok [OF create_ok(1) [OF d]]
  note R = new_ring [OF rr [unfolded init_request_ring_def]] and A = new_ring [OF ra [unfolded init_completion_ring_def]]
  have nd: "\<not> b_dma_ch (snd (vcablk_bcknd_disk_prepare_request_db next_db b))"
    using b by (auto simp: vcablk_bcknd_disk_prepare_request_db_def vcablk_bcknd_disk_create_def
        split: if_splits option.splits err_ptr.splits prod.splits)
  note T = started_back [OF st nd]
  have same: "b_media (io_back s) = b_media b" "b_pool (io_back s) = b_pool b" "b_mem (io_back s) = b_mem b"
    using T(1,2,5) by (simp_all add: vcablk_bcknd_disk_prepare_request_db_def)
  have vm: "\<And>n m. ba_vmalloc al n = Some m \<Longrightarrow> length m = n" using v by (simp add: vmalloc_law_def)
  obtain D where D: "m_data (b_media b) = VCABLK_DISK_TYPE_MEMORY D" "length D = unat (m_size_bytes (b_media b))"
    using B(1) [OF vm] by blast
  have fr: "front_ok d [] [] [0..<33]" by (rule created_front [OF create_ok(1) [OF d] R(1,2)])
  have view: "io_view s = io_back s" using s S(7,8) T(9,10) by (simp add: io_view_def)
  have tp: "tparam (io_back s) = tparam b" using same(2) by (simp add: tparam_def fun_eq_iff)
  have bk: "back_ok (io_back s) D [0..<16]"
    unfolding back_ok_def tp same using T(3,4,8,10) D B(2,3) [OF vm] A(1) by simp
  have "io_inv s (empty_aio D mem) [] [] [0..<33] [0..<16]"
    unfolding io_inv_def view s
  proof (intro conjI)
    show "contexts d (map (fst \<circ> fst) [] @ map fst []) [0..<33]"
      using S(8,12,20) A(3) by (simp add: contexts_def VCABLK_QUEUE_ACK_NUMS_def)
    show "answers (io_back s) = map (\<lambda>h. \<lparr>ack_cookie = cookie_of (fst h), ack_ret = 0\<rparr>) []" using A(2) T(10) by simp
    show "requests_ok (io_back s) (concat (map (snd \<circ> fst) []))" using R T(6,7,9) by (simp add: requests_ok_def)
  qed (use fr bk same B(6) [OF vm] S(10,11) in \<open>simp_all add: empty_aio_def waiting_def\<close>)
  then show "\<exists>D. disk_contents s D \<and> io_inv s (empty_aio D mem) [] [] [0..<33] [0..<16]"
    using D(1) same(1) by (auto simp: disk_contents_def)
  show "desc_media al desc = Ptr (b_media (io_back s))" using created_media [OF b] same(1) by simp
  show "num_elems (request_ring (io_front s)) = VCABLK_QUEUE_REQUESTS_NUMS" using s S(7) R(3) by simp
qed

lemma rel_contents:
  assumes "io_rel env pa benv s a"
  shows "disk_contents s (fst (a_data a))" "b_mem (io_back s) = snd (a_data a)" "ended (io_front s) = a_ended a"
    "a_todo a = [] \<Longrightarrow> a_acks a = [] \<Longrightarrow> dma_maps (io_front s) = {#}"
  using assms by (auto simp: io_rel_def io_inv_def back_ok_def io_view_def disk_contents_def contexts_def)

lemma connect_rel:
  assumes "io_connect te al benv se next_db desc mem = Some s0" "od_type desc = TYPE_MEMORY" "vmalloc_law al"
    and "maps_pages env pa" "maps_windows benv" "disk_contents s0 D"
  shows "io_rel env pa benv s0 (empty_aio D mem)"
proof -
  obtain D' where "disk_contents s0 D'" "io_inv s0 (empty_aio D' mem) [] [] [0..<33] [0..<16]" using connect_inv(1) [OF assms(1-3)] by blast
  moreover from this(1) assms(6) have "D' = D" by (simp add: disk_contents_def)
  ultimately show ?thesis using assms(4,5) unfolding io_rel_def by blast
qed

section \<open>Properties\<close>

text \<open>
  C11: the device refines a queue: every run of the two sides is a run of the queue, in which a request is
  split into parts, a part is carried out at once when it is served, and the identity of a request is
  reported when its last part is completed.
\<close>

theorem io_refines:
  assumes "io_connect te al benv se next_db desc mem = Some s0" "od_type desc = TYPE_MEMORY" "vmalloc_law al"
    and "maps_pages env pa" "maps_windows benv" "disk_contents s0 D" "runs (io_step env pa benv) s0 ls s"
  shows "\<exists>a. runs (aio_step pa) (empty_aio D mem) ls a \<and> ended (io_front s) = a_ended a \<and>
    disk_contents s (fst (a_data a)) \<and> b_mem (io_back s) = snd (a_data a)"
  using blkio.simulate_runs [OF assms(7) connect_rel [OF assms(1-6)]] rel_contents(1-3) by blast

text \<open>
  C1: requests are ended without error, once and in the order in which they were sent; the disk and the
  memory of the card are as if the first \<open>m\<close> parts of the requests had been carried out one after the other,
  and these include all parts of the requests that are ended.
\<close>

theorem io_in_order:
  assumes "io_connect te al benv se next_db desc mem = Some s0" "od_type desc = TYPE_MEMORY" "vmalloc_law al"
    and "maps_pages env pa" "maps_windows benv" "disk_contents s0 D" "runs (io_step env pa benv) s0 ls s"
  shows "\<exists>k m D'. k \<le> length (submits ls) \<and> ended (io_front s) = map (\<lambda>r. (req_id r, 0)) (take k (submits ls)) \<and>
    disk_contents s D' \<and>
    (D', b_mem (io_back s)) = fold move_part (take m (concat (map (request_parts pa) (submits ls)))) (D, mem) \<and>
    length (concat (map (request_parts pa) (take k (submits ls)))) \<le> m"
proof -
  have rel0: "io_rel env pa benv s0 (empty_aio D mem)" by (rule connect_rel [OF assms(1-6)])
  obtain a where a: "io_rel env pa benv s a" "history pa (submits ls) (empty_aio D mem) a"
    using rel_history [OF rel0 _ _ _ assms(7)] by (auto simp: empty_aio_def)
  have d: "a_data (empty_aio D mem) = (D, mem)" by (simp add: empty_aio_def)
  obtain k m where k: "k \<le> length (submits ls)" "a_ended a = map (\<lambda>r. (req_id r, 0)) (take k (submits ls))"
    "a_data a = fold move_part (take m (concat (map (request_parts pa) (submits ls)))) (D, mem)"
    "length (concat (map (request_parts pa) (take k (submits ls)))) \<le> m"
    using history_in_order [OF a(2)] unfolding d by blast
  show ?thesis
    using k rel_contents(1-3) [OF a(1)] by (intro exI [of _ k] exI [of _ m] exI [of _ "fst (a_data a)"]) simp
qed

text \<open>
  C5: from every state that can be reached, the services and completions that are possible end all requests
  that were sent; then all data has been moved, and no page of the card is mapped any more.
\<close>

theorem io_drains:
  assumes "io_connect te al benv se next_db desc mem = Some s0" "od_type desc = TYPE_MEMORY" "vmalloc_law al"
    and "maps_pages env pa" "maps_windows benv" "disk_contents s0 D" "runs (io_step env pa benv) s0 ls s"
  shows "\<exists>ls' s' D'. runs (io_step env pa benv) s ls' s' \<and> set ls' \<subseteq> {Serve, Complete} \<and>
    ended (io_front s') = map (\<lambda>r. (req_id r, 0)) (submits ls) \<and> dma_maps (io_front s') = {#} \<and> disk_contents s' D' \<and>
    (D', b_mem (io_back s')) = fold move_part (concat (map (request_parts pa) (submits ls))) (D, mem)"
proof -
  have rel0: "io_rel env pa benv s0 (empty_aio D mem)" by (rule connect_rel [OF assms(1-6)])
  obtain a where a: "runs (aio_step pa) (empty_aio D mem) ls a" "io_rel env pa benv s a"
    using blkio.simulate_runs [OF assms(7) rel0] by blast
  obtain ls' s' a' where r: "runs (io_step env pa benv) s ls' s'" "set ls' \<subseteq> {Serve, Complete}" "io_rel env pa benv s' a'"
    "runs (aio_step pa) a ls' a'" "a_todo a' = []" "a_acks a' = []" using rel_drains [OF a(2)] by blast
  have "runs (aio_step pa) (empty_aio D mem) (ls @ ls') a'" by (rule runs_append [OF r(4) a(1)])
  from history_runs [OF this] have h: "history pa (submits ls) (empty_aio D mem) a'"
    using submits_none [OF r(2)] by (simp add: empty_aio_def)
  have d: "a_data (empty_aio D mem) = (D, mem)" by (simp add: empty_aio_def)
  have "a_ended a' = map (\<lambda>r. (req_id r, 0)) (submits ls)" "a_data a' = fold move_part (concat (map (request_parts pa) (submits ls))) (D, mem)"
    using history_in_order [OF h] r(5,6) unfolding d by (auto)
  then show ?thesis
    using r rel_contents [OF r(3)] by (intro exI [of _ ls'] exI [of _ s'] exI [of _ "fst (a_data a')"]) simp
qed

text \<open>
  C23: neither side ever stops the kernel or waits: a request for which there is room is accepted; when there is a request
  in the ring, the completion ring is not full, and serving the request puts an answer without error behind those
  that are there; and an answer is completed.
\<close>

theorem io_never_stops:
  assumes "io_connect te al benv se next_db desc mem = Some s0" "od_type desc = TYPE_MEMORY" "vmalloc_law al"
    and "maps_pages env pa" "maps_windows benv" "runs (io_step env pa benv) s0 ls s"
  shows "(request_fits pa req s \<and> request_room req s \<longrightarrow> (\<exists>s'. io_submit env req s = Some (0, s'))) \<and>
    (last_used (request_ring (io_front s)) \<noteq> last_add (request_ring (io_front s)) \<longrightarrow>
       \<not> VCA_RB_BUFF_FULL (last_add (completion_ring (io_front s))) (last_used (completion_ring (io_front s)))
           (num_elems (completion_ring (io_front s))) \<and>
       (\<exists>s' cookie. io_serve benv s = Some s' \<and>
          ring_queue_of (completion_ring (io_front s')) = ring_queue_of (completion_ring (io_front s)) @ [\<lparr>ack_cookie = cookie, ack_ret = 0\<rparr>])) \<and>
    (last_used (completion_ring (io_front s)) \<noteq> last_add (completion_ring (io_front s)) \<longrightarrow> io_complete s \<noteq> None)"
proof -
  obtain D where D: "disk_contents s0 D" using connect_inv(1) [OF assms(1-3)] by blast
  obtain a where a: "io_rel env pa benv s a"
    using blkio.simulate_runs [OF assms(6) connect_rel [OF assms(1-5) D]] by blast
  show ?thesis using rel_submit [OF a, of req] rel_serve_answers [OF a] rel_complete [OF a] by blast
qed

section \<open>An example\<close>

text \<open>A disk of eight sectors, and a request that writes two of them.\<close>

definition demo_alloc :: "unit bcknd_alloc" where
  "demo_alloc = \<lparr>ba_kzalloc = True, ba_pool = True, ba_media = True, ba_vmalloc = (\<lambda>n. Some (replicate n 0)),
     ba_opened = (\<lambda>path ro. ERR_PTR (- 2)), ba_page = (\<lambda>i. Some (\<lambda>k. 0)), ba_mapped = (\<lambda>i. True)\<rparr>"

definition demo_desc :: vcablk_disk_open_desc where
  "demo_desc = \<lparr>od_type = TYPE_MEMORY, od_read_only = False, od_size = 4096, od_file_path = ''disk''\<rparr>"

definition demo_benv :: "unit bcknd_env" where
  "demo_benv = \<lparr>be_files = no_files, be_ioremap = (\<lambda>b a l i. i = 1), be_wait_buffer = (\<lambda>b. (True, b)),
     be_msleep = (\<lambda>b. b), be_dma_submit = (\<lambda>b j. True)\<rparr>"

definition demo_start :: start_env where
  "demo_start = \<lparr>se_irq = Inr 3, se_ring = True, se_ring_mem = (\<lambda>i. 0), se_transfer_thread = True, se_request_thread = True, se_running = 0\<rparr>"

definition demo_pa :: "bio_vec \<Rightarrow> u64" where
  "demo_pa bv = (let a = bv_page bv + ucast (bv_offset bv) in if a = 0 then 4096 else a)"

definition demo_env :: disk_env where
  "demo_env = \<lparr>wait_ring = (\<lambda>d. (True, d)), wait_pool = (\<lambda>d. (True, d)), wait_pool_again = (\<lambda>d. d), others = (\<lambda>d. d),
     dma_map_page = (\<lambda>d bv w. Some (demo_pa bv))\<rparr>"

definition demo_request :: request where
  "demo_request = \<lparr>req_id = 7, req_write = True, req_op = 1, req_sector = 2,
     req_segs = [\<lparr>bv_page = 0x5000, bv_offset = 0, bv_len = 1024\<rparr>]\<rparr>"

lemma demo_laws: "vmalloc_law demo_alloc" "od_type demo_desc = TYPE_MEMORY" "maps_pages demo_env demo_pa" "maps_windows demo_benv"
  by (simp_all add: vmalloc_law_def demo_alloc_def demo_desc_def maps_pages_def demo_env_def demo_pa_def Let_def
      maps_windows_def demo_benv_def IOREMAP_ATTEMPTS_def)

lemma demo_connect: "\<exists>s. io_connect all_ok demo_alloc demo_benv demo_start 4 demo_desc (\<lambda>a. 1) = Some s"
proof -
  obtain pool where p: "vcablk_pool_init True zero_parameters 2 (VCABLK_TRANSFER_RING_SIZE - 1) SIZEOF_TRANSFER_PARAMETERS = Some pool"
    by (simp add: vcablk_pool_init_def VCABLK_TRANSFER_RING_SIZE_def VCABLK_POOL_USED_def)
  obtain pool1 where p1: "buffer_init_loop (ba_page demo_alloc) (ba_mapped demo_alloc) False [0..<unat (p_num pool)] pool = (True, pool1)"
    using buffer_loop_succeeds [of "ba_page demo_alloc" "ba_mapped demo_alloc" "[0..<unat (p_num pool)]" pool] by (auto simp: demo_alloc_def)
  have m: "desc_media demo_alloc demo_desc = Ptr \<lparr>m_read_only = False, m_size_bytes = 4096, m_file_path = ''disk'',
      m_data = VCABLK_DISK_TYPE_MEMORY (replicate 4096 0)\<rparr>"
    by (simp add: desc_media_def demo_alloc_def demo_desc_def vcablk_media_create_memory_def media_create_def PATH_MAX_def)
  have ks: "ba_kzalloc demo_alloc" "ba_pool demo_alloc" by (simp_all add: demo_alloc_def)
  obtain b where b: "vcablk_bcknd_disk_create demo_alloc False (\<lambda>a. 1) demo_desc = Some (Inr b)" "m_size_bytes (b_media b) = 4096"
    "m_read_only (b_media b) = False" "b_state b = DISK_STATE_CREATE" "\<not> b_dma_ch b"
    using p p1 m ks by (auto simp: vcablk_bcknd_disk_create_def vcablk_bcknd_buffer_init_def)
  obtain rr where rr: "init_request_ring (fst (te_kmalloc all_ok)) (te_map_req all_ok) (te_mem_req all_ok) VCABLK_QUEUE_REQUESTS_NUMS = Inr rr"
    using all_ok_rings(1) by blast
  obtain ra where ra: "init_completion_ring (snd (te_kmalloc all_ok)) (te_map_ack all_ok) (te_mem_ack all_ok) VCABLK_QUEUE_ACK_NUMS = Inr ra"
    using all_ok_rings(2) by blast
  obtain d cbs where d: "vcablk_disk_create (te_alloc all_ok) {} 0 (vcablk_media_size (b_media b)) (vcablk_media_read_only (b_media b))
      (Some rr) (Some ra) (te_next_db all_ok) 4 = Some (Inr d, cbs)"
    using all_alloc_creates [of 4096 "{}" "m_read_only (b_media b)" rr ra] b(2)
    by (auto simp: all_ok_def HARDSECT_SIZE_def vcablk_media_size_def vcablk_media_read_only_def)
  have pw: "is_power_of_2 (num_elems rr)" "is_power_of_2 (num_elems ra)"
    using new_ring(3) [OF rr [unfolded init_request_ring_def]] new_ring(3) [OF ra [unfolded init_completion_ring_def]] ring_power by simp_all
  have io: "vcablk_bcknd_ioremap demo_benv x y c = (Some x, c\<lparr>b_windows := add_mset x (b_windows c)\<rparr>)" for x y c
    by (simp add: vcablk_bcknd_ioremap_def demo_benv_def IOREMAP_ATTEMPTS_def list_ex_iff)
  show ?thesis
    using b(1,4,5) rr ra d pw
    by (simp add: io_connect_def vcablk_bcknd_disk_start_def io vcablk_bcknd_disk_prepare_request_db_def start_threads_def demo_start_def Let_def)
qed

lemma demo_run:
  "\<exists>s0 D s. io_connect all_ok demo_alloc demo_benv demo_start 4 demo_desc (\<lambda>a. 1) = Some s0 \<and> disk_contents s0 D \<and>
     runs (io_step demo_env demo_pa demo_benv) s0 [Submit demo_request] s"
proof -
  obtain s0 where s0: "io_connect all_ok demo_alloc demo_benv demo_start 4 demo_desc (\<lambda>a. 1) = Some s0" using demo_connect by blast
  note c = connect_inv [OF s0 demo_laws(2,1)]
  obtain D where D: "disk_contents s0 D" "io_inv s0 (empty_aio D (\<lambda>a. 1)) [] [] [0..<33] [0..<16]" using c(1) by blast
  have "\<lparr>m_read_only = False, m_size_bytes = 4096, m_file_path = ''disk'', m_data = VCABLK_DISK_TYPE_MEMORY (replicate 4096 0)\<rparr> =
      b_media (io_back s0)"
    using c(2) by (simp add: desc_media_def demo_alloc_def demo_desc_def vcablk_media_create_memory_def media_create_def PATH_MAX_def)
  then have "m_size_bytes (b_media (io_back s0)) = 4096" by (metis vcablk_media.select_convs(2))
  then have fits: "request_fits demo_pa demo_request s0"
    by (simp add: request_fits_def demo_request_def request_parts_def Let_def on_disk_def)
  have "front_ok (io_front s0) [] [] [0..<33]" using D(2) by (simp add: io_inv_def)
  then have q: "ring_queue_of (request_ring (io_front s0)) = []" "pool_free (bio_context_pool (io_front s0)) = [0..<33]"
    using pool_rel_free by (auto simp: front_ok_def)
  have room: "request_room demo_request s0"
    unfolding request_room_def q c(3) by (simp add: demo_request_def do_sync_def VCABLK_QUEUE_REQUESTS_NUMS_def VCABLK_BIO_SPLIT_SIZE_def)
  obtain s where "io_submit demo_env demo_request s0 = Some (0, s)"
    using rel_submit [OF connect_rel [OF s0 demo_laws(2,1,3,4) D(1)] fits room] by blast
  then show ?thesis using s0 D(1) runs_one io_step_submit [OF fits room] by metis
qed

theorem io_refines_witness:
  "\<exists>s0 D s a. io_connect all_ok demo_alloc demo_benv demo_start 4 demo_desc (\<lambda>a. 1) = Some s0 \<and>
     runs (io_step demo_env demo_pa demo_benv) s0 [Submit demo_request] s \<and>
     runs (aio_step demo_pa) (empty_aio D (\<lambda>a. 1)) [Submit demo_request] a \<and> ended (io_front s) = a_ended a"
proof -
  obtain s0 D s where r: "io_connect all_ok demo_alloc demo_benv demo_start 4 demo_desc (\<lambda>a. 1) = Some s0" "disk_contents s0 D"
    "runs (io_step demo_env demo_pa demo_benv) s0 [Submit demo_request] s" using demo_run by blast
  then show ?thesis using io_refines [OF r(1) demo_laws(2,1,3,4) r(2,3)] by blast
qed

theorem io_in_order_witness:
  "\<exists>s0 s k. io_connect all_ok demo_alloc demo_benv demo_start 4 demo_desc (\<lambda>a. 1) = Some s0 \<and>
     runs (io_step demo_env demo_pa demo_benv) s0 [Submit demo_request] s \<and>
     ended (io_front s) = map (\<lambda>r. (req_id r, 0)) (take k [demo_request])"
proof -
  obtain s0 D s where r: "io_connect all_ok demo_alloc demo_benv demo_start 4 demo_desc (\<lambda>a. 1) = Some s0" "disk_contents s0 D"
    "runs (io_step demo_env demo_pa demo_benv) s0 [Submit demo_request] s" using demo_run by blast
  then show ?thesis using io_in_order [OF r(1) demo_laws(2,1,3,4) r(2,3)] by auto
qed

theorem io_drains_witness:
  "\<exists>s0 s ls' s'. io_connect all_ok demo_alloc demo_benv demo_start 4 demo_desc (\<lambda>a. 1) = Some s0 \<and>
     runs (io_step demo_env demo_pa demo_benv) s0 [Submit demo_request] s \<and>
     runs (io_step demo_env demo_pa demo_benv) s ls' s' \<and> ended (io_front s') = [(7, 0)]"
proof -
  obtain s0 D s where r: "io_connect all_ok demo_alloc demo_benv demo_start 4 demo_desc (\<lambda>a. 1) = Some s0" "disk_contents s0 D"
    "runs (io_step demo_env demo_pa demo_benv) s0 [Submit demo_request] s" using demo_run by blast
  then show ?thesis using io_drains [OF r(1) demo_laws(2,1,3,4) r(2,3)] by (auto simp: demo_request_def)
qed

theorem io_never_stops_witness:
  "\<exists>s0 s. io_connect all_ok demo_alloc demo_benv demo_start 4 demo_desc (\<lambda>a. 1) = Some s0 \<and>
     runs (io_step demo_env demo_pa demo_benv) s0 [Submit demo_request] s \<and>
     (last_used (request_ring (io_front s)) \<noteq> last_add (request_ring (io_front s)) \<longrightarrow>
       (\<exists>s' cookie. io_serve demo_benv s = Some s' \<and>
          ring_queue_of (completion_ring (io_front s')) = ring_queue_of (completion_ring (io_front s)) @ [\<lparr>ack_cookie = cookie, ack_ret = 0\<rparr>]))"
proof -
  obtain s0 D s where r: "io_connect all_ok demo_alloc demo_benv demo_start 4 demo_desc (\<lambda>a. 1) = Some s0" "disk_contents s0 D"
    "runs (io_step demo_env demo_pa demo_benv) s0 [Submit demo_request] s" using demo_run by blast
  then show ?thesis using io_never_stops [OF r(1) demo_laws(2,1,3,4) r(3), of demo_request] by blast
qed

section \<open>Requests that are lost\<close>

lemma failed_step:
  assumes "front_ok d pub [] fl" "length pub < unat (num_elems (request_ring d))" "\<And>d bv w. dma_map_page env d bv w = None"
    and "ty \<in> {REQUEST_READ, REQUEST_WRITE}"
  shows "\<exists>d' x. vcablk_disk_request_step env d (Some bv) i ty sector n = Some (- errno_num ENOMEM, d') \<and> front_ok d' pub [x] fl \<and>
    ended d' = ended d \<and> bio_context_pool d' = bio_context_pool d"
proof -
  let ?idx = "VCA_RB_COUNTER_TO_IDX (request_ring_alloc d) (num_elems (request_ring d))"
  let ?x = "(elems (request_ring d) ! ?idx)\<lparr>rq_type := ty, rq_cookie := bc_id (ctx d i)\<rparr>"
  define d' where "d' = d\<lparr>request_ring_alloc := VCA_RB_COUNTER_ADD (request_ring_alloc d) 1 (num_elems (request_ring d)),
     request_ring := (request_ring d)\<lparr>elems := (elems (request_ring d))[?idx := ?x]\<rparr>\<rparr>"
  have "vcablk_disk_request_step env d (Some bv) i ty sector n = Some (- errno_num ENOMEM, d')"
    using alloc_next_ok [OF assms(1), of env] assms(2-4)
    by (auto simp: vcablk_disk_request_step_def request_upd_def ring_upd_def Let_def ctx_def vcablk_disk_map_page_def d'_def)
  moreover have "front_ok d' pub ([] @ [?x]) fl"
    by (rule front_push [OF assms(1)]) (use assms(1,2) in \<open>simp_all add: d'_def front_ok_def\<close>)
  ultimately show ?thesis by (intro exI [of _ d'] exI [of _ ?x]) (simp add: d'_def)
qed

text \<open>
  C37: when no page can be mapped, a request is given up: the ring and the contexts are as before, but the
  request is never ended, so that whoever waits for it waits for ever.
\<close>

theorem failed_request_not_ended:
  assumes "front_ok d pub [] (i # fl)" "fl \<noteq> []" "length pub < unat (num_elems (request_ring d))"
    and "\<And>d bv w. dma_map_page env d bv w = None" "\<not> do_sync req" "req_segs req \<noteq> []"
  shows "\<exists>d'. vcablk_disk_async_request env req d = Some (- errno_num ENOMEM, d') \<and> front_ok d' pub [] (fl @ [i]) \<and> ended d' = ended d"
proof -
  obtain bv bvs where segs: "req_segs req = bv # bvs" using assms(6) by (cases "req_segs req") auto
  obtain d1 where d1: "vcablk_disk_get_bio_context env d = Some (Some i, d1)" "front_ok d1 pub [] fl" "kept d d1"
    "ctx d1 = (ctx d)(i := \<lparr>bc_id = word_of_nat i + 1, bc_req = None, bvec_ctxs = []\<rparr>)"
    using get_context_ok [OF assms(1,2), of env] by blast
  have room: "length pub < unat (num_elems (request_ring d1))" "ended d1 = ended d" using d1(3) assms(3) by (simp_all add: kept_def)
  have ty: "(if req_write req then REQUEST_WRITE else REQUEST_READ) \<in> {REQUEST_READ, REQUEST_WRITE}" by simp
  obtain d2 x where d2: "vcablk_disk_request_step env d1 (Some bv) i (if req_write req then REQUEST_WRITE else REQUEST_READ) (req_sector req)
      (ucast (drop_bit 9 (bv_len bv))) = Some (- errno_num ENOMEM, d2)" "front_ok d2 pub [x] fl" "ended d2 = ended d1"
    "bio_context_pool d2 = bio_context_pool d1"
    using failed_step [OF d1(2) room(1) assms(4) ty, of bv i "req_sector req"] by blast
  have prep: "disk_prepare env req d = Some (- errno_num ENOMEM, Some i, None, d2)"
    using d1(1,4) d2(1) assms(5) segs
    by (simp add: disk_prepare_def disk_sync_def disk_split_def VCABLK_BIO_SPLIT_SIZE_def)
  let ?d = "d2\<lparr>request_ring_alloc := last_add (request_ring d2)\<rparr>"
  have rel: "pool_rel (bio_context_pool ?d) fl" using d2(2) by (simp add: front_ok_def)
  have i: "i < unat (p_num (bio_context_pool ?d))" "i \<notin> set fl" using assms(1) d1(3) d2(4) by (auto simp: front_ok_def pool_rel_def kept_def)
  obtain p where p: "vcablk_disk_request_clean ?d i = Some (?d\<lparr>bio_context_pool := p,
      dma_maps := dma_maps ?d - mset (map bvc_dma_addr (bvec_ctxs (ctx ?d i)))\<rparr>)" "pool_rel p (fl @ [i])"
    using clean_ok [OF rel i] by blast
  define d' where "d' = ?d\<lparr>bio_context_pool := p, dma_maps := dma_maps ?d - mset (map bvc_dma_addr (bvec_ctxs (ctx ?d i)))\<rparr>"
  have "vcablk_disk_async_request env req d = Some (- errno_num ENOMEM, d')"
    using prep p(1) by (simp add: vcablk_disk_async_request_def vcablk_disk_request_break_def Let_def disk_end_loop.simps d'_def)
  moreover have "front_ok d' pub [] (fl @ [i])" using d2(2) p(2) by (simp add: front_ok_def alloc_ring_def d'_def)
  moreover have "ended d' = ended d" using d2(3) room(2) by (simp add: d'_def)
  ultimately show ?thesis by blast
qed

definition no_map_env :: disk_env where
  "no_map_env = demo_env\<lparr>dma_map_page := (\<lambda>d bv w. None)\<rparr>"

theorem failed_request_not_ended_witness:
  "\<exists>d d'. vcablk_disk_create all_alloc {} 0 4096 False (Some (\<lparr>num_elems = 2, elem_size = 32, last_add = 0, last_used = 0, size_alloc = 88,
       dma_addr = 0, elems = map (\<lambda>i. no_request) [0..<2]\<rparr>)) (Some empty_ring) 4 4 = Some (Inr d, {6}) \<and>
     vcablk_disk_async_request no_map_env demo_request d = Some (- 12, d') \<and> ended d' = []"
proof -
  let ?r = "\<lparr>num_elems = 2, elem_size = 32, last_add = 0, last_used = 0, size_alloc = 88, dma_addr = 0, elems = map (\<lambda>i. no_request) [0..<2]\<rparr>"
  obtain d where d: "vcablk_disk_create all_alloc {} 0 4096 False (Some ?r) (Some empty_ring) 4 4 = Some (Inr d, {6})"
    using all_alloc_creates [of 4096 "{}" False ?r empty_ring] by (auto simp: HARDSECT_SIZE_def)
  have ro: "ring_ok ?r" using ring_ok_empty [of "2 :: u16" 32 88 0 "\<lambda>i. no_request"] by (simp add: is_power_of_2_def)
  then have q: "ring_queue_of ?r = []" by (simp add: ring_queue_empty)
  note s = setup_ok [OF create_ok(1) [OF d]]
  have "front_ok d [] [] (0 # [1..<33])" using created_front [OF create_ok(1) [OF d] ro q] by (simp add: upt_rec [of 0] del: upt_rec_numeral)
  then show ?thesis
    using failed_request_not_ended [of d "[]" 0 "[1..<33]" no_map_env demo_request] d s(7,11)
    by (auto simp: no_map_env_def demo_request_def do_sync_def)
qed

lemma request_only_sync:
  assumes "ps = [x] \<or> ps = [x, y]" "\<forall>r \<in> set ps. rq_type r = REQUEST_SYNC \<and> rq_cookie r = c"
    and "vcablk_media_sync (be_files env) (b_media b) = Some 0"
  shows "vcablk_bcknd_disk_request env ps b = Some (0, b)"
  using assms
  by (auto simp: vcablk_bcknd_disk_request_def vcablk_bcknd_disk_request_get_info_def Let_def request_types)

text \<open>
  a request of the card that only asks to synchronise the disk is carried out by the host but never
  answered: the completion ring does not change.
\<close>

theorem sync_not_answered:
  assumes "requests_ok b ps" "ps = [x, y]" "\<forall>r \<in> set ps. rq_type r = REQUEST_SYNC \<and> rq_cookie r = c" "c \<noteq> 0"
    and "vcablk_media_sync (be_files env) (b_media b) = Some 0"
  shows "\<exists>b'. bcknd_serve env b = Some b' \<and> requests_ok b' [] \<and> b_completion_ring b' = b_completion_ring b"
proof -
  let ?r = "b_request_ring b"
  have r: "ring_ok ?r" "ring_queue_of ?r = ps @ []" "b_request_ring_nums b = num_elems ?r" "b_request_last_used b = last_used ?r"
    using assms(1) by (auto simp: requests_ok_def)
  have ne: "last_used ?r \<noteq> last_add ?r" using ring_queue_empty [OF r(1)] r(2) assms(2) by auto
  obtain used where u: "next_request_loop ?r (num_elems ?r) (last_add ?r) 0 (last_used ?r) [] = Some (ps, used)"
    "ring_ok (?r\<lparr>last_used := used\<rparr>)" "ring_queue_of (?r\<lparr>last_used := used\<rparr>) = []"
    using next_loop_ok [OF r(1) refl r(2) _ assms(4), of 0 "[]"] assms(2,3) by auto
  let ?b = "b\<lparr>b_request_last_used := used, b_request_ring := ?r\<lparr>last_used := used\<rparr>\<rparr>"
  have g: "vcablk_bcknd_disk_get_next_request b = Some (ps, ?b)"
    using u(1) ne r by (simp add: vcablk_bcknd_disk_get_next_request_def Let_def)
  have "vcablk_bcknd_disk_request env ps ?b = Some (0, ?b)"
    by (rule request_only_sync [of ps x y c]) (use assms(2,3,5) in simp_all)
  then have "bcknd_serve env b = Some ?b" using g assms(2) by (simp add: bcknd_serve_def)
  then show ?thesis using u(2,3) r by (simp add: requests_ok_def)
qed

definition sync_element :: vcablk_request where
  "sync_element = no_request\<lparr>rq_type := REQUEST_SYNC, rq_cookie := 1\<rparr>"

definition sync_disk :: "unit vcablk_bcknd_disk" where
  "sync_disk = \<lparr>b_state = DISK_STATE_OPEN, b_media = \<lparr>m_read_only = False, m_size_bytes = 512, m_file_path = ''disk'',
       m_data = VCABLK_DISK_TYPE_MEMORY (replicate 512 0)\<rparr>, b_request_db = 4, b_request_irq = 3, b_done_db = 4,
     b_request_thread = True, b_transfer_thread = False, b_threads_count = 1, b_transfer_ring = None, b_request_win = Some 0,
     b_request_ring = \<lparr>num_elems = 2, elem_size = 32, last_add = 2, last_used = 0, size_alloc = 88, dma_addr = 0,
       elems = [sync_element, sync_element]\<rparr>,
     b_request_ring_nums = 2, b_request_last_used = 0, b_completion_win = Some 0, b_completion_ring = empty_ring,
     b_completion_ring_num_elems = 2, b_pool = empty_pool, b_dma_ch = False, b_mem = (\<lambda>a. 0), b_windows = {#}, b_jobs = [], b_intrs = 0\<rparr>"

theorem sync_not_answered_witness:
  "\<exists>b'. bcknd_serve demo_benv sync_disk = Some b' \<and> requests_ok b' [] \<and> b_completion_ring b' = empty_ring"
proof -
  have "requests_ok sync_disk [sync_element, sync_element]"
    by (simp add: requests_ok_def sync_disk_def ring_ok_def ring_queue_of_def rb.wf_def rb.used_def rb.window_def is_power_of_2_def
        upt_rec [of 0 2] upt_rec [of "Suc 0" 2])
  then show ?thesis
    using sync_not_answered [of sync_disk "[sync_element, sync_element]" sync_element sync_element 1 demo_benv]
    by (simp add: sync_element_def sync_disk_def vcablk_media_sync_def media_sync_mem_def)
qed

end
