(* ===== verification/Virtio_Ring.thy ===== *)
theory Virtio_Ring
  imports Vca_Prelude "HOL-Library.Multiset"
begin

unbundle bit_operations_syntax

text \<open>
  The queues of the virtual network, guest side (\<open>vca_virtio/uapi/vca_virtio_ring.h\<close> and
  \<open>vca_virtio/vca_virtio_ring.c\<close>): the memory that the two users of a queue share, and the operations of the
  one that adds buffers and gets them back. Both users run on x86, so that the conversions to and from
  little endian are the identity. \<open>None\<close> is a stop of the kernel or an access outside of an array; the
  variant of the macros without \<open>DEBUG\<close> is modelled.
\<close>

section \<open>The shared memory\<close>

definition VRING_DESC_F_NEXT :: u16 where "VRING_DESC_F_NEXT = 1"
definition VRING_DESC_F_WRITE :: u16 where "VRING_DESC_F_WRITE = 2"
definition VRING_DESC_F_INDIRECT :: u16 where "VRING_DESC_F_INDIRECT = 4"
definition VRING_USED_F_NO_NOTIFY :: u16 where "VRING_USED_F_NO_NOTIFY = 1"
definition VRING_AVAIL_F_NO_INTERRUPT :: u16 where "VRING_AVAIL_F_NO_INTERRUPT = 1"
definition VIRTIO_RING_F_INDIRECT_DESC :: nat where "VIRTIO_RING_F_INDIRECT_DESC = 28"
definition VIRTIO_RING_F_EVENT_IDX :: nat where "VIRTIO_RING_F_EVENT_IDX = 29"
definition VIRTIO_RING_F_DMA_MAP :: nat where "VIRTIO_RING_F_DMA_MAP = 30"
definition VIRTIO_F_VERSION_1 :: nat where "VIRTIO_F_VERSION_1 = 32"
definition VIRTIO_TRANSPORT_F_START :: nat where "VIRTIO_TRANSPORT_F_START = 28"
definition VIRTIO_TRANSPORT_F_END :: nat where "VIRTIO_TRANSPORT_F_END = 33"

lemmas vring_flags = VRING_DESC_F_NEXT_def VRING_DESC_F_WRITE_def VRING_DESC_F_INDIRECT_def

record vring_desc =
  d_addr :: u64
  d_len :: u32
  d_flags :: u16
  d_next :: u16

record vring_used_elem =
  ue_id :: u32
  ue_len :: u32

text \<open>
  The three areas of a ring. The word behind the available ring is the field \<open>used_event\<close>, the word
  behind the used ring the field \<open>avail_event\<close>.
\<close>

record vring =
  vr_num :: u32
  vr_desc :: "vring_desc list"
  avail_flags :: u16
  avail_idx :: u16
  avail_ring :: "u16 list"
  used_event :: u16
  used_flags :: u16
  used_idx :: u16
  used_ring :: "vring_used_elem list"
  avail_event :: u16

text \<open>Where the areas are in memory, and how much memory they need.\<close>

definition vring_init :: "u32 \<Rightarrow> u64 \<Rightarrow> u64 \<Rightarrow> u64 \<times> u64 \<times> u64" where
  "vring_init num p align =
     (let avail = p + ucast num * 16
      in (p, avail, (avail + 4 + 2 * ucast num + 2 + align - 1) AND NOT (align - 1)))"

definition vring_size :: "u32 \<Rightarrow> u64 \<Rightarrow> u32" where
  "vring_size num align =
     ucast (((16 * ucast num + 2 * (3 + ucast num) + align - 1) AND NOT (align - 1)) + 2 * 3 + 8 * ucast num)"

definition vring_need_event :: "u16 \<Rightarrow> u16 \<Rightarrow> u16 \<Rightarrow> bool" where
  "vring_need_event event_idx new_idx old \<longleftrightarrow> new_idx - event_idx - 1 < new_idx - old"

section \<open>Scatter lists\<close>

text \<open>
  A scatter list is the array behind a pointer; the entry with the end mark is the last one. The walk along
  a list without end mark leaves the array.
\<close>

record sg_entry =
  sg_phys :: u64
  sg_length :: u32
  sg_end :: bool
  sg_dma :: u64

fun sg_walk :: "sg_entry list \<Rightarrow> sg_entry list option" where
  "sg_walk [] = None"
| "sg_walk (e # es) = (if sg_end e then Some [e] else map_option ((#) e) (sg_walk es))"

definition sg_terminate_arr :: "sg_entry list \<Rightarrow> u32 \<Rightarrow> sg_entry list option" where
  "sg_terminate_arr es num =
     (if num = 0 \<or> length es < unat num then None
      else Some (map (\<lambda>e. e\<lparr>sg_end := False\<rparr>) (take (unat num - 1) es) @
                 (es ! (unat num - 1))\<lparr>sg_end := True\<rparr> # drop (unat num) es))"

text \<open>
  Mapping of the entries of a list for the other side; 0 is an error. The loop goes on after an error.
  The addresses that are mapped are a multiset.
\<close>

fun dma_map_loop :: "(u64 \<Rightarrow> u32 \<Rightarrow> u64) \<Rightarrow> nat \<Rightarrow> nat \<Rightarrow> bool \<Rightarrow> sg_entry list \<Rightarrow> u64 multiset \<Rightarrow>
    bool \<times> sg_entry list \<times> u64 multiset" where
  "dma_map_loop mp 0 i failed es maps = (failed, es, maps)"
| "dma_map_loop mp (Suc k) i failed es maps =
     (let a = mp (sg_phys (es ! i)) (sg_length (es ! i));
          es1 = es[i := (es ! i)\<lparr>sg_dma := a\<rparr>]
      in if a = 0 then dma_map_loop mp k (Suc i) True es1 (maps - mset (map sg_dma (take i es1)))
         else dma_map_loop mp k (Suc i) failed es1 (add_mset a maps))"

definition dma_map_sg :: "(u64 \<Rightarrow> u32 \<Rightarrow> u64) \<Rightarrow> sg_entry list \<Rightarrow> u64 multiset \<Rightarrow>
    (bool \<times> sg_entry list \<times> u64 multiset) option" where
  "dma_map_sg mp es maps = map_option (\<lambda>w. dma_map_loop mp (length w) 0 False es maps) (sg_walk es)"

definition dma_unmap_sg :: "sg_entry list \<Rightarrow> u64 multiset \<Rightarrow> u64 multiset option" where
  "dma_unmap_sg es maps = map_option (\<lambda>w. maps - mset (map sg_dma w)) (sg_walk es)"

section \<open>A queue\<close>

text \<open>
  \<open>vq_tokens\<close> are the \<open>data\<close> of the buffers that were added and not yet returned, \<open>vq_tables\<close> the tables of
  indirect descriptors by their address, \<open>vq_maps\<close> the addresses that are mapped for the other side, and
  \<open>vq_kicks\<close> counts the calls of \<open>notify\<close>.
\<close>

record 't vring_virtqueue =
  vq_vring :: vring
  vq_parent :: bool
  vq_callback :: bool
  vq_broken :: bool
  vq_indirect :: bool
  vq_event :: bool
  vq_dma_map :: bool
  free_head :: u32
  num_free :: u32
  num_added :: u32
  vq_last_used_idx :: u16
  vq_tokens :: "'t option list"
  vq_tables :: "u64 \<Rightarrow> vring_desc list option"
  vq_maps :: "u64 multiset"
  vq_kicks :: nat

text \<open>What the kernel and the transport answer: the address of a new table and its contents, mappings, notifications.\<close>

record vq_env =
  ve_table :: "u64 option"
  ve_garbage :: "vring_desc list"
  ve_map :: "u64 \<Rightarrow> u32 \<Rightarrow> u64"
  ve_notify :: bool

definition alloc_indirect :: "vq_env \<Rightarrow> u32 \<Rightarrow> (u64 \<times> vring_desc list) option" where
  "alloc_indirect env total_sg =
     map_option (\<lambda>a. (a, map (\<lambda>i. (ve_garbage env ! i)\<lparr>d_next := word_of_nat i + 1\<rparr>) [0..<unat total_sg])) (ve_table env)"

fun map_sgs :: "(u64 \<Rightarrow> u32 \<Rightarrow> u64) \<Rightarrow> sg_entry list list \<Rightarrow> sg_entry list list \<Rightarrow> u64 multiset \<Rightarrow>
    (bool \<times> sg_entry list list \<times> u64 multiset) option" where
  "map_sgs mp mapped [] maps = Some (True, mapped, maps)"
| "map_sgs mp mapped (es # rest) maps =
     (case dma_map_sg mp es maps of
        None \<Rightarrow> None
      | Some (True, es1, maps1) \<Rightarrow>
          map_option (\<lambda>m. (False, mapped @ es1 # rest, m))
            (fold (\<lambda>l m. case m of None \<Rightarrow> None | Some x \<Rightarrow> dma_unmap_sg l x) mapped (Some maps1))
      | Some (False, es1, maps1) \<Rightarrow> map_sgs mp (mapped @ [es1]) rest maps1)"

definition vring_map_sg :: "(u64 \<Rightarrow> u32 \<Rightarrow> u64) \<Rightarrow> 't vring_virtqueue \<Rightarrow> sg_entry list list \<Rightarrow> u32 \<Rightarrow> u32 \<Rightarrow> u32 \<Rightarrow>
    (bool \<times> sg_entry list list \<times> u64 multiset) option" where
  "vring_map_sg mp vq sgs total_sg out_sgs in_sgs =
     (case (if out_sgs = 1 then sg_terminate_arr (hd sgs) total_sg else Some (hd sgs)) of
        None \<Rightarrow> None
      | Some s1 \<Rightarrow>
        (case (if in_sgs = 1 then sg_terminate_arr s1 total_sg else Some s1) of
           None \<Rightarrow> None
         | Some s2 \<Rightarrow>
             if \<not> vq_parent vq then Some (False, s2 # tl sgs, vq_maps vq)
             else map_sgs mp [] (s2 # tl sgs) (vq_maps vq)))"

section \<open>Kicking the other side\<close>

definition vca_virtqueue_kick_prepare :: "'t vring_virtqueue \<Rightarrow> bool \<times> 't vring_virtqueue" where
  "vca_virtqueue_kick_prepare vq =
     (let new = avail_idx (vq_vring vq);
          old = new - ucast (num_added vq)
      in (if vq_event vq then vring_need_event (avail_event (vq_vring vq)) new old
          else used_flags (vq_vring vq) AND VRING_USED_F_NO_NOTIFY = 0,
          vq\<lparr>num_added := 0\<rparr>))"

definition vca_virtqueue_notify :: "vq_env \<Rightarrow> 't vring_virtqueue \<Rightarrow> bool \<times> 't vring_virtqueue" where
  "vca_virtqueue_notify env vq =
     (if vq_broken vq then (False, vq)
      else let vq1 = vq\<lparr>vq_kicks := vq_kicks vq + 1\<rparr>
           in if ve_notify env then (True, vq1) else (False, vq1\<lparr>vq_broken := True\<rparr>))"

definition vca_virtqueue_kick :: "vq_env \<Rightarrow> 't vring_virtqueue \<Rightarrow> bool \<times> 't vring_virtqueue" where
  "vca_virtqueue_kick env vq =
     (case vca_virtqueue_kick_prepare vq of
        (need, vq1) \<Rightarrow> if need then vca_virtqueue_notify env vq1 else (True, vq1))"

section \<open>Adding a buffer\<close>

text \<open>
  The descriptors of the entries, from index \<open>i\<close> along the links; the flag of an entry says that the other
  side writes it. The result has the index behind the last descriptor and the last descriptor.
\<close>

fun fill_descs :: "bool \<Rightarrow> (sg_entry \<times> bool) list \<Rightarrow> vring_desc list \<Rightarrow> nat \<Rightarrow> nat option \<Rightarrow>
    (vring_desc list \<times> nat \<times> nat option) option" where
  "fill_descs dm [] ds i prev = Some (ds, i, prev)"
| "fill_descs dm ((e, w) # es) ds i prev =
     (if i < length ds
      then fill_descs dm es
             (ds[i := (ds ! i)\<lparr>d_flags := (if w then VRING_DESC_F_NEXT OR VRING_DESC_F_WRITE else VRING_DESC_F_NEXT),
                               d_addr := (if dm then sg_dma e else sg_phys e), d_len := sg_length e\<rparr>])
             (unat (d_next (ds ! i))) (Some i)
      else None)"

definition end_chain :: "nat option \<Rightarrow> vring_desc list \<Rightarrow> vring_desc list" where
  "end_chain prev ds =
     (case prev of None \<Rightarrow> ds | Some p \<Rightarrow> ds[p := (ds ! p)\<lparr>d_flags := d_flags (ds ! p) AND NOT VRING_DESC_F_NEXT\<rparr>])"

definition walk_all :: "u32 \<Rightarrow> sg_entry list list \<Rightarrow> (sg_entry \<times> bool) list option" where
  "walk_all out_sgs sgs =
     (if None \<in> set (map sg_walk sgs) then None
      else Some (concat (map (\<lambda>(n, es). map (\<lambda>e. (e, unat out_sgs \<le> n)) (the (sg_walk es))) (enumerate 0 sgs))))"

text \<open>The buffer under its first descriptor becomes available; \<open>head\<close> is below the size of the ring.\<close>

definition publish :: "u32 \<Rightarrow> 't \<Rightarrow> 't vring_virtqueue \<Rightarrow> 't vring_virtqueue" where
  "publish head data vq =
     (let vr = vq_vring vq
      in vq\<lparr>vq_tokens := (vq_tokens vq)[unat head := Some data],
            vq_vring := vr\<lparr>avail_ring := (avail_ring vr)[unat (ucast (avail_idx vr) AND (vr_num vr - 1)) := ucast head],
                           avail_idx := avail_idx vr + 1\<rparr>,
            num_added := num_added vq + 1\<rparr>)"

definition virtqueue_add :: "vq_env \<Rightarrow> 't vring_virtqueue \<Rightarrow> sg_entry list list \<Rightarrow> u32 \<Rightarrow> u32 \<Rightarrow> u32 \<Rightarrow> 't \<Rightarrow>
    (unit res \<times> 't vring_virtqueue) option" where
  "virtqueue_add env vq sgs total_sg out_sgs in_sgs data =
     (if vq_broken vq then Some (Inl EIO, vq)
      else if vr_num (vq_vring vq) < total_sg \<or> total_sg = 0 then None
      else
        let head = free_head vq;
            table = (if vq_indirect vq \<and> 1 < total_sg \<and> num_free vq \<noteq> 0 then alloc_indirect env total_sg else None);
            vq1 = (case table of
                     None \<Rightarrow> vq
                   | Some (a, _) \<Rightarrow>
                       vq\<lparr>vq_vring := (vq_vring vq)\<lparr>vr_desc := (vr_desc (vq_vring vq))
                            [unat head := (vr_desc (vq_vring vq) ! unat head)
                               \<lparr>d_flags := VRING_DESC_F_INDIRECT, d_addr := a, d_len := total_sg * 16\<rparr>]\<rparr>\<rparr>);
            descs_used = (if table = None then total_sg else 1)
        in if num_free vq < descs_used
           then Some (Inl ENOSPC, if out_sgs = 0 then vq1 else vq1\<lparr>vq_kicks := vq_kicks vq1 + 1\<rparr>)
           else
             case (if vq_dma_map vq then vring_map_sg (ve_map env) vq1 sgs total_sg out_sgs in_sgs
                   else Some (True, sgs, vq_maps vq1)) of
               None \<Rightarrow> None
             | Some (False, _, maps) \<Rightarrow> Some (Inl ENOMEM, vq1\<lparr>vq_maps := maps\<rparr>)
             | Some (True, sgs1, maps) \<Rightarrow>
                 (case walk_all out_sgs sgs1 of
                    None \<Rightarrow> None
                  | Some es \<Rightarrow>
                    (case fill_descs (vq_dma_map vq) es
                            (case table of None \<Rightarrow> vr_desc (vq_vring vq1) | Some (_, tb) \<Rightarrow> tb)
                            (case table of None \<Rightarrow> unat head | Some _ \<Rightarrow> 0) None of
                       None \<Rightarrow> None
                     | Some (ds, i, prev) \<Rightarrow>
                         let vq2 = vq1\<lparr>num_free := num_free vq1 - descs_used, vq_maps := maps\<rparr>;
                             vq3 = (case table of
                                      None \<Rightarrow> vq2\<lparr>vq_vring := (vq_vring vq2)\<lparr>vr_desc := end_chain prev ds\<rparr>,
                                                  free_head := word_of_nat i\<rparr>
                                    | Some (a, _) \<Rightarrow>
                                        vq2\<lparr>vq_tables := (vq_tables vq2)(a := Some (end_chain prev ds)),
                                            free_head := ucast (d_next (vr_desc (vq_vring vq2) ! unat head))\<rparr>);
                             vq4 = publish head data vq3
                         in Some (Inr (), if num_added vq4 = 65535 then snd (vca_virtqueue_kick env vq4) else vq4))))"

definition vca_virtqueue_add_sgs :: "vq_env \<Rightarrow> 't vring_virtqueue \<Rightarrow> sg_entry list list \<Rightarrow> u32 \<Rightarrow> u32 \<Rightarrow> 't \<Rightarrow>
    (unit res \<times> 't vring_virtqueue) option" where
  "vca_virtqueue_add_sgs env vq sgs out_sgs in_sgs data =
     (if None \<in> set (map sg_walk sgs) then None
      else virtqueue_add env vq sgs (word_of_nat (length (concat (map (the \<circ> sg_walk) sgs)))) out_sgs in_sgs data)"

definition vca_virtqueue_add_outbuf :: "vq_env \<Rightarrow> 't vring_virtqueue \<Rightarrow> sg_entry list \<Rightarrow> u32 \<Rightarrow> 't \<Rightarrow>
    (unit res \<times> 't vring_virtqueue) option" where
  "vca_virtqueue_add_outbuf env vq sg num data = virtqueue_add env vq [sg] num 1 0 data"

definition vca_virtqueue_add_inbuf :: "vq_env \<Rightarrow> 't vring_virtqueue \<Rightarrow> sg_entry list \<Rightarrow> u32 \<Rightarrow> 't \<Rightarrow>
    (unit res \<times> 't vring_virtqueue) option" where
  "vca_virtqueue_add_inbuf env vq sg num data = virtqueue_add env vq [sg] num 0 1 data"

section \<open>Getting buffers back\<close>

definition unmap_desc :: "vring_desc \<Rightarrow> 't vring_virtqueue \<Rightarrow> 't vring_virtqueue" where
  "unmap_desc d vq = (if vq_dma_map vq then vq\<lparr>vq_maps := vq_maps vq - {# d_addr d #}\<rparr> else vq)"

text \<open>The end of the chain from \<open>i\<close>; a chain that is a cycle is never left.\<close>

partial_function (option) detach_loop :: "nat \<Rightarrow> 't vring_virtqueue \<Rightarrow> (nat \<times> 't vring_virtqueue) option" where
  "detach_loop i vq =
     (let ds = vr_desc (vq_vring vq)
      in if length ds \<le> i then None
         else if d_flags (ds ! i) AND VRING_DESC_F_NEXT \<noteq> 0
         then detach_loop (unat (d_next (ds ! i))) ((unmap_desc (ds ! i) vq)\<lparr>num_free := num_free vq + 1\<rparr>)
         else Some (i, vq))"

definition detach_buf :: "'t vring_virtqueue \<Rightarrow> nat \<Rightarrow> 't vring_virtqueue option" where
  "detach_buf vq head =
     (let d = vr_desc (vq_vring vq) ! head;
          vq1 = vq\<lparr>vq_tokens := (vq_tokens vq)[head := None]\<rparr>;
          vq2 = (if d_flags d AND VRING_DESC_F_INDIRECT \<noteq> 0 then vq1\<lparr>vq_tables := (vq_tables vq1)(d_addr d := None)\<rparr> else vq1)
      in map_option (\<lambda>(i, vq3).
             let ds = vr_desc (vq_vring vq3)
             in unmap_desc (ds ! i)
                  (vq3\<lparr>vq_vring := (vq_vring vq3)\<lparr>vr_desc := ds[i := (ds ! i)\<lparr>d_next := ucast (free_head vq3)\<rparr>]\<rparr>,
                       free_head := word_of_nat head, num_free := num_free vq3 + 1\<rparr>))
           (detach_loop head vq2))"

definition more_used :: "'t vring_virtqueue \<Rightarrow> bool" where
  "more_used vq \<longleftrightarrow> vq_last_used_idx vq \<noteq> used_idx (vq_vring vq)"

definition vca_virtqueue_get_buf :: "'t vring_virtqueue \<Rightarrow> (('t \<times> u32) option \<times> 't vring_virtqueue) option" where
  "vca_virtqueue_get_buf vq =
     (if vq_broken vq \<or> \<not> more_used vq then Some (None, vq)
      else
        let vr = vq_vring vq;
            elem = used_ring vr ! unat (ucast (vq_last_used_idx vq) AND (vr_num vr - 1));
            i = ue_id elem
        in if vr_num vr \<le> i then Some (None, vq\<lparr>vq_broken := True\<rparr>)
           else case vq_tokens vq ! unat i of
                  None \<Rightarrow> Some (None, vq\<lparr>vq_broken := True\<rparr>)
                | Some t \<Rightarrow>
                    map_option (\<lambda>vq1.
                        let vq2 = vq1\<lparr>vq_last_used_idx := vq_last_used_idx vq1 + 1\<rparr>
                        in (Some (t, ue_len elem),
                            if avail_flags (vq_vring vq2) AND VRING_AVAIL_F_NO_INTERRUPT = 0
                            then vq2\<lparr>vq_vring := (vq_vring vq2)\<lparr>used_event := vq_last_used_idx vq2\<rparr>\<rparr>
                            else vq2))
                      (detach_buf vq (unat i)))"

section \<open>Interrupts\<close>

definition vca_virtqueue_disable_cb :: "'t vring_virtqueue \<Rightarrow> 't vring_virtqueue" where
  "vca_virtqueue_disable_cb vq =
     vq\<lparr>vq_vring := (vq_vring vq)\<lparr>avail_flags := avail_flags (vq_vring vq) OR VRING_AVAIL_F_NO_INTERRUPT\<rparr>\<rparr>"

definition vca_virtqueue_enable_cb_prepare :: "'t vring_virtqueue \<Rightarrow> u16 \<times> 't vring_virtqueue" where
  "vca_virtqueue_enable_cb_prepare vq =
     (vq_last_used_idx vq,
      vq\<lparr>vq_vring := (vq_vring vq)\<lparr>avail_flags := avail_flags (vq_vring vq) AND NOT VRING_AVAIL_F_NO_INTERRUPT,
                                    used_event := vq_last_used_idx vq\<rparr>\<rparr>)"

definition vca_virtqueue_poll :: "'t vring_virtqueue \<Rightarrow> u32 \<Rightarrow> bool" where
  "vca_virtqueue_poll vq last_used \<longleftrightarrow> ucast last_used \<noteq> used_idx (vq_vring vq)"

definition vca_virtqueue_enable_cb :: "'t vring_virtqueue \<Rightarrow> bool \<times> 't vring_virtqueue" where
  "vca_virtqueue_enable_cb vq =
     (case vca_virtqueue_enable_cb_prepare vq of (u, vq1) \<Rightarrow> (\<not> vca_virtqueue_poll vq1 (ucast u), vq1))"

definition vca_virtqueue_enable_cb_delayed :: "'t vring_virtqueue \<Rightarrow> bool \<times> 't vring_virtqueue" where
  "vca_virtqueue_enable_cb_delayed vq =
     (let vr = vq_vring vq;
          bufs = ucast ((ucast (avail_idx vr - vq_last_used_idx vq) :: u32) * 3 div 4);
          vq1 = vq\<lparr>vq_vring := vr\<lparr>avail_flags := avail_flags vr AND NOT VRING_AVAIL_F_NO_INTERRUPT,
                                    used_event := vq_last_used_idx vq + bufs\<rparr>\<rparr>
      in (used_idx vr - vq_last_used_idx vq \<le> bufs, vq1))"

text \<open>The interrupt handler: whether there is work, and whether the callback is called.\<close>

definition vca_vring_interrupt :: "'t vring_virtqueue \<Rightarrow> bool \<times> bool" where
  "vca_vring_interrupt vq = (more_used vq, more_used vq \<and> \<not> vq_broken vq \<and> vq_callback vq)"

section \<open>Creation and shutdown\<close>

definition vca_virtqueue_detach_unused_buf :: "'t vring_virtqueue \<Rightarrow> ('t option \<times> 't vring_virtqueue) option" where
  "vca_virtqueue_detach_unused_buf vq =
     (case filter (\<lambda>i. vq_tokens vq ! i \<noteq> None) [0..<unat (vr_num (vq_vring vq))] of
        [] \<Rightarrow> if num_free vq = vr_num (vq_vring vq) then Some (None, vq) else None
      | i # _ \<Rightarrow> map_option (\<lambda>vq1. (vq_tokens vq ! i,
                   vq1\<lparr>vq_vring := (vq_vring vq1)\<lparr>avail_idx := avail_idx (vq_vring vq1) - 1\<rparr>\<rparr>)) (detach_buf vq i))"

text \<open>
  The features of a device are a word; the transport clears the bits it does not know, and indirect
  descriptors when addresses are mapped.
\<close>

definition virtio_has_feature :: "u64 \<Rightarrow> nat \<Rightarrow> bool" where
  "virtio_has_feature features fbit \<longleftrightarrow> bit features fbit"

definition vca_vring_transport_features :: "u64 \<Rightarrow> u64" where
  "vca_vring_transport_features features =
     (let known = [VIRTIO_RING_F_INDIRECT_DESC, VIRTIO_RING_F_EVENT_IDX, VIRTIO_F_VERSION_1, VIRTIO_RING_F_DMA_MAP];
          f1 = fold (\<lambda>i f. if i \<in> set known then f else unset_bit i f)
                 [VIRTIO_TRANSPORT_F_START..<VIRTIO_TRANSPORT_F_END] features
      in if virtio_has_feature f1 VIRTIO_RING_F_DMA_MAP \<and> virtio_has_feature f1 VIRTIO_RING_F_INDIRECT_DESC
         then unset_bit VIRTIO_RING_F_INDIRECT_DESC f1 else f1)"

text \<open>
  A new queue on the memory \<open>vr\<close>, whose arrays have the length \<open>num\<close>. The test for a power of two lets 0
  pass, for which the loop over the descriptors leaves the array. The inner \<open>None\<close> is \<open>NULL\<close>.
\<close>

definition link_free :: "u32 \<Rightarrow> vring_desc list \<Rightarrow> vring_desc list" where
  "link_free num ds = fold (\<lambda>i ds. ds[i := (ds ! i)\<lparr>d_next := word_of_nat i + 1\<rparr>]) [0..<unat (num - 1)] ds"

definition vca_vring_new_virtqueue :: "bool \<Rightarrow> u32 \<Rightarrow> u64 \<Rightarrow> bool \<Rightarrow> vring \<Rightarrow> bool \<Rightarrow> 't vring_virtqueue option option" where
  "vca_vring_new_virtqueue allocated num features parent vr callback =
     (if num AND (num - 1) \<noteq> 0 \<or> \<not> allocated then Some None
      else if num = 0 then None
      else Some (Some
        \<lparr>vq_vring = vr\<lparr>vr_num := num, vr_desc := link_free num (vr_desc vr),
                        avail_flags := (if callback then avail_flags vr else avail_flags vr OR VRING_AVAIL_F_NO_INTERRUPT)\<rparr>,
         vq_parent = parent, vq_callback = callback, vq_broken = False,
         vq_indirect = virtio_has_feature features VIRTIO_RING_F_INDIRECT_DESC,
         vq_event = virtio_has_feature features VIRTIO_RING_F_EVENT_IDX,
         vq_dma_map = virtio_has_feature features VIRTIO_RING_F_DMA_MAP,
         free_head = 0, num_free = num, num_added = 0, vq_last_used_idx = 0,
         vq_tokens = replicate (unat num) None, vq_tables = (\<lambda>_. None), vq_maps = {#}, vq_kicks = 0\<rparr>))"

definition vca_virtio_break_device :: "'t vring_virtqueue list \<Rightarrow> 't vring_virtqueue list" where
  "vca_virtio_break_device vqs = map (\<lambda>vq. vq\<lparr>vq_broken := True\<rparr>) vqs"

end
