(* ===== verification/Virtio_Ring_Facts.thy ===== *)
theory Virtio_Ring_Facts
  imports Virtio_Ring
begin

unbundle bit_operations_syntax

text \<open>
  The guest side of a queue keeps its descriptors in a list of free ones and one chain per buffer. Adding a
  buffer moves the first free descriptors to a new chain, getting it back returns them. The invariant says
  that the free list and the chains are a partition of the descriptors, and that the tokens and the mapped
  addresses are those of the buffers.
\<close>

section \<open>Paths and chains\<close>

type_synonym vq_entry = "u64 \<times> u32 \<times> bool"

fun vpath :: "vring_desc list \<Rightarrow> nat \<Rightarrow> nat list \<Rightarrow> nat \<Rightarrow> bool" where
  "vpath ds x [] y = (x = y)"
| "vpath ds x (a # as) y = (x = a \<and> vpath ds (unat (d_next (ds ! a))) as y)"

definition desc_is :: "vring_desc \<Rightarrow> vq_entry \<Rightarrow> bool \<Rightarrow> bool" where
  "desc_is d e nx \<longleftrightarrow> d_addr d = fst e \<and> d_len d = fst (snd e) \<and>
     d_flags d = (if nx then VRING_DESC_F_NEXT else 0) OR (if snd (snd e) then VRING_DESC_F_WRITE else 0)"

fun vchain :: "vring_desc list \<Rightarrow> nat list \<Rightarrow> vq_entry list \<Rightarrow> bool" where
  "vchain ds [a] [e] = desc_is (ds ! a) e False"
| "vchain ds (a # b # as) (e # es) = (desc_is (ds ! a) e True \<and> unat (d_next (ds ! a)) = b \<and> vchain ds (b # as) es)"
| "vchain ds _ _ = False"

lemma vpath_append: "vpath ds x (as @ bs) y \<longleftrightarrow> (\<exists>z. vpath ds x as z \<and> vpath ds z bs y)"
  by (induction as arbitrary: x) auto

lemma vpath_cong: "(\<And>a. a \<in> set as \<Longrightarrow> d_next (ds' ! a) = d_next (ds ! a)) \<Longrightarrow> vpath ds' x as y = vpath ds x as y"
  by (induction as arbitrary: x) auto

lemma vpath_hd: "vpath ds x as y \<Longrightarrow> as \<noteq> [] \<Longrightarrow> x = hd as"
  by (cases as) auto

lemma vchain_cong: "(\<And>a. a \<in> set as \<Longrightarrow> ds' ! a = ds ! a) \<Longrightarrow> vchain ds' as es = vchain ds as es"
  by (induction ds as es rule: vchain.induct) auto

lemma vchain_lengths: "vchain ds as es \<Longrightarrow> length as = length es \<and> as \<noteq> []"
  by (induction ds as es rule: vchain.induct) auto

lemma vchain_path: "vchain ds as es \<Longrightarrow> vpath ds (hd as) as (unat (d_next (ds ! last as)))"
  by (induction ds as es rule: vchain.induct) auto

lemma vchain_addrs: "vchain ds as es \<Longrightarrow> map (\<lambda>a. d_addr (ds ! a)) as = map fst es"
  by (induction ds as es rule: vchain.induct) (auto simp: desc_is_def)

lemma flag_tests [simp]:
  "VRING_DESC_F_NEXT AND VRING_DESC_F_NEXT \<noteq> 0"
  "(VRING_DESC_F_NEXT OR VRING_DESC_F_WRITE) AND VRING_DESC_F_NEXT \<noteq> 0"
  "VRING_DESC_F_WRITE AND VRING_DESC_F_NEXT = 0"
  "VRING_DESC_F_NEXT AND VRING_DESC_F_WRITE = 0"
  "VRING_DESC_F_WRITE AND VRING_DESC_F_WRITE \<noteq> 0"
  "(VRING_DESC_F_NEXT OR VRING_DESC_F_WRITE) AND VRING_DESC_F_WRITE \<noteq> 0"
  "VRING_DESC_F_NEXT AND VRING_DESC_F_INDIRECT = 0"
  "VRING_DESC_F_WRITE AND VRING_DESC_F_INDIRECT = 0"
  "(VRING_DESC_F_NEXT OR VRING_DESC_F_WRITE) AND VRING_DESC_F_INDIRECT = 0"
  "VRING_DESC_F_NEXT AND NOT VRING_DESC_F_NEXT = 0"
  "(VRING_DESC_F_NEXT OR VRING_DESC_F_WRITE) AND NOT VRING_DESC_F_NEXT = VRING_DESC_F_WRITE"
  by (simp_all add: vring_flags)

lemma desc_is_tests:
  assumes "desc_is d e nx"
  shows "d_flags d AND VRING_DESC_F_NEXT \<noteq> 0 \<longleftrightarrow> nx" "d_flags d AND VRING_DESC_F_INDIRECT = 0"
    "d_flags d AND VRING_DESC_F_WRITE \<noteq> 0 \<longleftrightarrow> snd (snd e)"
  using assms by (auto simp: desc_is_def vring_flags)

section \<open>The invariant\<close>

record 't buf =
  b_chain :: "nat list"
  b_token :: 't
  b_entries :: "vq_entry list"

definition ring_sized :: "vring \<Rightarrow> bool" where
  "ring_sized vr \<longleftrightarrow> is_power_of_2 (vr_num vr) \<and> vr_num vr \<le> 32768 \<and> length (vr_desc vr) = unat (vr_num vr) \<and>
     length (avail_ring vr) = unat (vr_num vr) \<and> length (used_ring vr) = unat (vr_num vr)"

definition buffers_in :: "'t vring_virtqueue \<Rightarrow> 't buf list \<Rightarrow> bool" where
  "buffers_in vq bs \<longleftrightarrow>
     (\<forall>b \<in> set bs. vchain (vr_desc (vq_vring vq)) (b_chain b) (b_entries b) \<and>
        vq_tokens vq ! hd (b_chain b) = Some (b_token b)) \<and>
     (\<forall>i < length (vq_tokens vq). vq_tokens vq ! i \<noteq> None \<longrightarrow> i \<in> (hd \<circ> b_chain) ` set bs)"

definition mapped_addrs :: "'t buf list \<Rightarrow> u64 multiset" where
  "mapped_addrs bs = mset (concat (map (map fst \<circ> b_entries) bs))"

definition vq_inv :: "'t vring_virtqueue \<Rightarrow> nat list \<Rightarrow> 't buf list \<Rightarrow> bool" where
  "vq_inv vq fs bs \<longleftrightarrow> ring_sized (vq_vring vq) \<and> length (vq_tokens vq) = unat (vr_num (vq_vring vq)) \<and>
     unat (num_free vq) = length fs \<and> (\<exists>y. vpath (vr_desc (vq_vring vq)) (unat (free_head vq)) fs y) \<and>
     mset (fs @ concat (map b_chain bs)) = mset [0..<unat (vr_num (vq_vring vq))] \<and>
     buffers_in vq bs \<and> (vq_dma_map vq \<longrightarrow> vq_maps vq = mapped_addrs bs)"

lemma ring_sized_num:
  assumes "ring_sized vr"
  shows "0 < unat (vr_num vr)" "unat (vr_num vr) \<le> 32768"
  using assms by (auto simp: ring_sized_def is_power_of_2_def unat_gt_0 word_le_nat_alt)

lemma vq_inv_perm:
  assumes "mset bs = mset bs'"
  shows "vq_inv vq fs bs = vq_inv vq fs bs'"
proof -
  have "set bs = set bs'" using assms by (rule mset_eq_setD)
  moreover have "mset (concat (map b_chain bs)) = mset (concat (map b_chain bs'))"
    "mapped_addrs bs = mapped_addrs bs'"
    using assms by (metis mset_concat mset_map sum_mset_sum_list mapped_addrs_def)+
  ultimately show ?thesis by (simp add: vq_inv_def buffers_in_def)
qed

lemma vq_inv_indices:
  assumes "vq_inv vq fs bs"
  shows "distinct fs" "distinct (concat (map b_chain bs))" "set fs \<inter> \<Union> (set ` b_chain ` set bs) = {}"
    "set fs \<subseteq> {..<unat (vr_num (vq_vring vq))}"
    "b \<in> set bs \<Longrightarrow> set (b_chain b) \<subseteq> {..<unat (vr_num (vq_vring vq))}"
proof -
  have m: "mset (fs @ concat (map b_chain bs)) = mset [0..<unat (vr_num (vq_vring vq))]"
    using assms by (simp add: vq_inv_def)
  have "distinct (fs @ concat (map b_chain bs))" using mset_eq_imp_distinct_iff [OF m] by simp
  then show "distinct fs" "distinct (concat (map b_chain bs))" "set fs \<inter> \<Union> (set ` b_chain ` set bs) = {}" by auto
  have "set (fs @ concat (map b_chain bs)) = {..<unat (vr_num (vq_vring vq))}"
    using mset_eq_setD [OF m] by auto
  then show "set fs \<subseteq> {..<unat (vr_num (vq_vring vq))}"
    "b \<in> set bs \<Longrightarrow> set (b_chain b) \<subseteq> {..<unat (vr_num (vq_vring vq))}" by auto
qed

section \<open>Adding a buffer\<close>

definition entry_of :: "bool \<Rightarrow> sg_entry \<times> bool \<Rightarrow> vq_entry" where
  "entry_of dm = (\<lambda>(e, w). (if dm then sg_dma e else sg_phys e, sg_length e, w))"

lemma fill_descs_chain:
  assumes "vpath ds i cs y" "distinct cs" "set cs \<subseteq> {..<length ds}" "length cs = length es" "es \<noteq> []"
  shows "\<exists>ds'. fill_descs dm es ds i prev = Some (ds', y, Some (last cs)) \<and> length ds' = length ds \<and>
      (\<forall>j. j \<notin> set cs \<longrightarrow> ds' ! j = ds ! j) \<and> (\<forall>j. d_next (ds' ! j) = d_next (ds ! j)) \<and>
      vchain (end_chain (Some (last cs)) ds') cs (map (entry_of dm) es)"
  using assms
proof (induction es arbitrary: cs ds i prev)
  case (Cons p es)
  obtain e w where p: "p = (e, w)" by (cases p)
  obtain cs' where cs: "cs = i # cs'" using Cons.prems by (cases cs) auto
  define ds1 where "ds1 = ds[i := (ds ! i)\<lparr>d_flags := (if w then VRING_DESC_F_NEXT OR VRING_DESC_F_WRITE else VRING_DESC_F_NEXT),
      d_addr := (if dm then sg_dma e else sg_phys e), d_len := sg_length e\<rparr>]"
  have i: "i < length ds" "i \<notin> set cs'" using Cons.prems(2,3) cs by auto
  have nx: "d_next (ds1 ! j) = d_next (ds ! j)" for j by (simp add: ds1_def nth_list_update_cases)
  have step: "fill_descs dm (p # es) ds i prev = fill_descs dm es ds1 (unat (d_next (ds ! i))) (Some i)"
    using i by (simp add: p ds1_def)
  show ?case
  proof (cases es)
    case Nil
    then have cs': "cs' = []" using Cons.prems(4) cs by simp
    have "y = unat (d_next (ds ! i))" using Cons.prems(1) cs cs' by simp
    moreover have "desc_is (end_chain (Some i) ds1 ! i) (entry_of dm p) False"
      using i by (simp add: desc_is_def end_chain_def ds1_def entry_of_def p)
    ultimately show ?thesis using step Nil cs cs' i nx by (auto simp: ds1_def)
  next
    case (Cons q es')
    then obtain b cs'' where cs': "cs' = b # cs''" using Cons.prems(4) cs by (cases cs') auto
    have p1: "vpath ds1 (unat (d_next (ds ! i))) cs' y"
      using Cons.prems(1) cs vpath_cong [of cs' ds1 ds] nx by simp
    have "length ds1 = length ds" by (simp add: ds1_def)
    with Cons.IH [OF p1, of "Some i"] obtain ds' where ds':
      "fill_descs dm es ds1 (unat (d_next (ds ! i))) (Some i) = Some (ds', y, Some (last cs'))" "length ds' = length ds1"
      "\<forall>j. j \<notin> set cs' \<longrightarrow> ds' ! j = ds1 ! j" "\<forall>j. d_next (ds' ! j) = d_next (ds1 ! j)"
      "vchain (end_chain (Some (last cs')) ds') cs' (map (entry_of dm) es)"
      using Cons.prems cs Cons by auto
    have "last cs' \<noteq> i" using i(2) cs' last_in_set [of cs'] by auto
    then have "end_chain (Some (last cs')) ds' ! i = ds1 ! i"
      using ds'(3) i by (simp add: end_chain_def)
    moreover have "desc_is (ds1 ! i) (entry_of dm p) True" "d_next (ds1 ! i) = d_next (ds ! i)"
      using i by (auto simp: desc_is_def ds1_def entry_of_def p)
    moreover have "unat (d_next (ds ! i)) = b" using Cons.prems(1) cs cs' by simp
    ultimately have "vchain (end_chain (Some (last cs')) ds') cs (map (entry_of dm) (p # es))"
      using ds'(5) cs cs' Cons by simp
    moreover have "\<forall>j. j \<notin> set cs \<longrightarrow> ds' ! j = ds ! j" using ds'(3) cs by (simp add: ds1_def)
    ultimately show ?thesis using step ds' nx cs cs' by (auto simp: ds1_def)
  qed
qed simp

lemma vq_inv_add:
  assumes inv: "vq_inv vq fs bs" and es: "es \<noteq> []" "length es \<le> length fs"
    and fill: "fill_descs (vq_dma_map vq) es (vr_desc (vq_vring vq)) (unat (free_head vq)) None = Some (ds, i, prev)"
    and maps: "vq_dma_map vq \<Longrightarrow> maps = vq_maps vq + mset (map (fst \<circ> entry_of True) es)"
  shows "vq_inv (publish (free_head vq) data
      (vq\<lparr>num_free := num_free vq - word_of_nat (length es), vq_maps := maps,
          vq_vring := (vq_vring vq)\<lparr>vr_desc := end_chain prev ds\<rparr>, free_head := word_of_nat i\<rparr>))
    (drop (length es) fs) (bs @ [\<lparr>b_chain = take (length es) fs, b_token = data, b_entries = map (entry_of (vq_dma_map vq)) es\<rparr>])"
    (is "vq_inv ?vq' ?fs (bs @ [?b])")
    and "unat (free_head vq) = hd fs"
proof -
  define n where "n = length es"
  define num where "num = unat (vr_num (vq_vring vq))"
  define D where "D = vr_desc (vq_vring vq)"
  have sized: "ring_sized (vq_vring vq)" "length (vq_tokens vq) = num" "unat (num_free vq) = length fs" "length D = num"
    and part: "mset (fs @ concat (map b_chain bs)) = mset [0..<num]" and bufs: "buffers_in vq bs"
    and mp: "vq_dma_map vq \<longrightarrow> vq_maps vq = mapped_addrs bs"
    using inv by (auto simp: vq_inv_def ring_sized_def num_def D_def)
  obtain y where "vpath D (unat (free_head vq)) fs y" using inv by (auto simp: vq_inv_def D_def)
  then obtain z where z: "vpath D (unat (free_head vq)) (take n fs) z" "vpath D z (drop n fs) y"
    using vpath_append [of D _ "take n fs" "drop n fs"] by auto
  note ix = vq_inv_indices [OF inv, folded num_def]
  have tn: "length (take n fs) = length es" "take n fs \<noteq> []" using es by (auto simp: n_def)
  show fh: "unat (free_head vq) = hd fs" using vpath_hd [OF z(1) tn(2)] es by (cases fs) (auto simp: n_def)
  have dist: "distinct (take n fs)" "distinct (drop n fs)" "set (take n fs) \<inter> set (drop n fs) = {}"
    using ix(1) set_take_disj_set_drop_if_distinct [OF ix(1), of n n] by auto
  have sub: "set (take n fs) \<subseteq> {..<length D}" using ix(4) set_take_subset [of n fs] sized(4) by blast
  from fill_descs_chain [OF z(1) dist(1) sub tn(1) es(1), of "vq_dma_map vq" None] fill
  have ds: "i = z" "prev = Some (last (take n fs))" "length ds = length D" "\<And>j. j \<notin> set (take n fs) \<Longrightarrow> ds ! j = D ! j"
      "\<And>j. d_next (ds ! j) = d_next (D ! j)" "vchain (end_chain prev ds) (take n fs) (map (entry_of (vq_dma_map vq)) es)"
    by (auto simp: D_def)
  define E where "E = end_chain prev ds"
  have E: "length E = num" "d_next (E ! j) = d_next (D ! j)" "j \<notin> set (take n fs) \<Longrightarrow> E ! j = D ! j" for j
    using ds(2-5) last_in_set [OF tn(2)] sized(4) by (auto simp: E_def end_chain_def nth_list_update_cases)
  have zz: "z < 65536" using z(1) tn(2)
  proof (induction "take n fs" arbitrary: fs rule: rev_induct)
    case (snoc x xs) then show ?case by (metis snoc_eq_iff_butlast u16_less vpath.simps vpath_append)
  qed simp
  have zi: "unat (word_of_nat z :: u32) = z" using zz by (simp add: unat_of_nat)
  have free: "vpath E (unat (word_of_nat i :: u32)) (drop n fs) y"
    using z(2) zi ds(1) vpath_cong [of "drop n fs" E D] E(2) by simp
  have nf: "unat (num_free vq - word_of_nat (length es)) = length (drop n fs)"
    using es(2) sized(3) u32_less [of "num_free vq"] by (simp add: unat_sub_if' unat_of_nat n_def)
  have "mset (drop n fs @ concat (map b_chain (bs @ [?b]))) = mset (take n fs @ drop n fs) + mset (concat (map b_chain bs))"
    by (simp add: n_def ac_simps del: append_take_drop_id)
  then have part': "mset (drop n fs @ concat (map b_chain (bs @ [?b]))) = mset [0..<num]"
    using part by (simp only: append_take_drop_id mset_append)
  have hfs: "hd fs < num" "hd fs \<notin> \<Union> (set ` b_chain ` set bs)"
    using ix(3,4) es by (cases fs; force)+
  have "vchain E (b_chain b) (b_entries b)" "vq_tokens ?vq' ! hd (b_chain b) = Some (b_token b)" if "b \<in> set (bs @ [?b])" for b
  proof -
    consider "b \<in> set bs" | "b = ?b" using \<open>b \<in> set (bs @ [?b])\<close> by auto
    then have "vchain E (b_chain b) (b_entries b) \<and> vq_tokens ?vq' ! hd (b_chain b) = Some (b_token b)"
    proof cases
      case 1
      then have c: "vchain D (b_chain b) (b_entries b)" "vq_tokens vq ! hd (b_chain b) = Some (b_token b)"
        using bufs by (auto simp: buffers_in_def D_def)
      have "j \<notin> set (take n fs)" if "j \<in> set (b_chain b)" for j
        using ix(3) 1 that set_take_subset [of n fs] by blast
      then have "vchain E (b_chain b) (b_entries b)" using c(1) vchain_cong [of "b_chain b" E D] E(3) by simp
      moreover have "hd (b_chain b) \<noteq> hd fs" using hfs(2) 1 vchain_lengths [OF c(1)] by (metis UN_I hd_in_set image_eqI)
      ultimately show ?thesis using c(2) fh by (simp add: publish_def Let_def nth_list_update_cases)
    next
      case 2
      have "hd (take n fs) = hd fs" using tn(2) by (cases fs; cases n) auto
      then show ?thesis using 2 ds(6) fh hfs(1) sized(2) by (simp add: E_def n_def publish_def Let_def)
    qed
    then show "vchain E (b_chain b) (b_entries b)" "vq_tokens ?vq' ! hd (b_chain b) = Some (b_token b)" by auto
  qed
  moreover have "j \<in> (hd \<circ> b_chain) ` set (bs @ [?b])" if "j < num" "vq_tokens ?vq' ! j \<noteq> None" for j
  proof (cases "j = hd fs")
    case True
    have "hd (take n fs) = hd fs" using tn(2) by (cases fs; cases n) auto
    then show ?thesis using True by (simp add: n_def)
  next
    case False
    then have "vq_tokens vq ! j \<noteq> None" using \<open>vq_tokens ?vq' ! j \<noteq> None\<close> fh by (simp add: publish_def Let_def nth_list_update_cases)
    then show ?thesis using bufs \<open>j < num\<close> sized(2) by (auto simp: buffers_in_def)
  qed
  ultimately have "buffers_in ?vq' (bs @ [?b])"
    unfolding buffers_in_def using sized(2) by (simp add: publish_def Let_def E_def)
  moreover have "vq_dma_map vq \<Longrightarrow> maps = mapped_addrs (bs @ [?b])"
    using maps mp by (simp add: mapped_addrs_def comp_def)
  ultimately show "vq_inv ?vq' ?fs (bs @ [?b])"
    using sized E(1) nf free part' unfolding vq_inv_def
    by (auto simp: publish_def Let_def ring_sized_def num_def n_def E_def)
qed

section \<open>Mapping one list of entries\<close>

definition map_entry :: "(u64 \<Rightarrow> u32 \<Rightarrow> u64) \<Rightarrow> sg_entry \<Rightarrow> sg_entry" where
  "map_entry mp e = e\<lparr>sg_dma := mp (sg_phys e) (sg_length e)\<rparr>"

lemma dma_map_loop_ok:
  assumes "\<And>a l. mp a l \<noteq> 0" "i + k \<le> length es"
  shows "dma_map_loop mp k i f es maps =
    (f, take i es @ map (map_entry mp) (take k (drop i es)) @ drop (i + k) es,
     maps + mset (map (\<lambda>e. mp (sg_phys e) (sg_length e)) (take k (drop i es))))"
  using assms(2)
proof (induction k arbitrary: i es maps)
  case (Suc k)
  define es1 where "es1 = es[i := map_entry mp (es ! i)]"
  have i: "i < length es" "length es1 = length es" using Suc.prems by (auto simp: es1_def)
  have t: "take (Suc k) (drop i es) = es ! i # take k (drop (Suc i) es)" using i by (simp add: Cons_nth_drop_Suc [symmetric])
  have d: "drop (Suc i) es1 = drop (Suc i) es" "take (Suc i) es1 = take i es @ [map_entry mp (es ! i)]"
    "drop (Suc i + k) es1 = drop (i + Suc k) es"
    using i by (auto simp: es1_def take_Suc_conv_app_nth)
  have "dma_map_loop mp (Suc k) i f es maps = dma_map_loop mp k (Suc i) f es1 (add_mset (mp (sg_phys (es ! i)) (sg_length (es ! i))) maps)"
    using assms(1) by (simp add: Let_def es1_def map_entry_def)
  also have "\<dots> = (f, take (Suc i) es1 @ map (map_entry mp) (take k (drop (Suc i) es1)) @ drop (Suc i + k) es1,
     add_mset (mp (sg_phys (es ! i)) (sg_length (es ! i))) maps + mset (map (\<lambda>e. mp (sg_phys e) (sg_length e)) (take k (drop (Suc i) es1))))"
    using Suc.prems i by (intro Suc.IH) simp
  finally show ?case unfolding d t by simp
qed simp

lemma sg_walk_terminated:
  "sg_end e \<Longrightarrow> \<forall>x \<in> set xs. \<not> sg_end x \<Longrightarrow> sg_walk (xs @ e # ys) = Some (xs @ [e])"
  by (induction xs) auto

text \<open>A list whose first \<open>num\<close> entries can be added: it is terminated there, or will be for the mapping.\<close>

definition sg_ready :: "'t vring_virtqueue \<Rightarrow> sg_entry list \<Rightarrow> u32 \<Rightarrow> bool" where
  "sg_ready vq sg num \<longleftrightarrow> num \<noteq> 0 \<and> unat num \<le> length sg \<and>
     (if vq_dma_map vq then vq_parent vq else sg_walk sg = Some (take (unat num) sg))"

definition sg_entries :: "vq_env \<Rightarrow> bool \<Rightarrow> bool \<Rightarrow> sg_entry list \<Rightarrow> u32 \<Rightarrow> vq_entry list" where
  "sg_entries env dm w sg num =
     map (\<lambda>e. (if dm then ve_map env (sg_phys e) (sg_length e) else sg_phys e, sg_length e, w)) (take (unat num) sg)"

text \<open>Exactly one of the two counts of lists is 1: a list is either read or written.\<close>

definition one_list :: "u32 \<Rightarrow> u32 \<Rightarrow> bool \<Rightarrow> bool" where
  "one_list out_sgs in_sgs w \<longleftrightarrow> (if w then out_sgs = 0 \<and> in_sgs = 1 else out_sgs = 1 \<and> in_sgs = 0)"

lemma terminated_shape:
  assumes "num \<noteq> 0" "unat num \<le> length sg"
  obtains s1 where "sg_terminate_arr sg num = Some s1" "length s1 = length sg" "sg_walk s1 = Some (take (unat num) s1)"
    "map sg_phys s1 = map sg_phys sg" "map sg_length s1 = map sg_length sg"
proof -
  define k where "k = unat num - 1"
  have k: "unat num = Suc k" "k < length sg" using assms by (auto simp: k_def unat_gt_0 Suc_le_eq intro: le_less_trans less_le_trans [of _ "unat num"])
  define s1 where "s1 = map (\<lambda>e. e\<lparr>sg_end := False\<rparr>) (take k sg) @ (sg ! k)\<lparr>sg_end := True\<rparr> # drop (Suc k) sg"
  have sg: "sg = take k sg @ sg ! k # drop (Suc k) sg" using k(2) by (rule id_take_nth_drop)
  have "sg_terminate_arr sg num = Some s1" using assms k by (auto simp: sg_terminate_arr_def s1_def)
  moreover have "sg_walk s1 = Some (take (unat num) s1)"
    using k unfolding s1_def by (subst sg_walk_terminated) auto
  moreover have "map sg_phys s1 = map sg_phys sg" "map sg_length s1 = map sg_length sg"
    by (simp add: s1_def comp_def, subst (4) sg, simp)+
  moreover have "length s1 = length sg" using k by (simp add: s1_def)
  ultimately show thesis by (intro that)
qed

lemma sg_walk_take: "sg_walk es = Some (take n es) \<Longrightarrow> sg_walk (take n es) = Some (take n es)"
  by (induction es arbitrary: n) (auto simp: take_Cons' split: if_splits)

lemma walk_mapped: "sg_walk (map (map_entry mp) es @ ys) = map_option (map (map_entry mp)) (sg_walk es)"
  if "sg_walk es \<noteq> None" for es ys
  using that by (induction es) (auto simp: map_entry_def option.map_comp comp_def)

lemma mapped_list:
  assumes ready: "sg_ready vq sg num" and mp: "\<And>a l. ve_map env a l \<noteq> 0" and one: "one_list out_sgs in_sgs w"
  obtains sgs1 maps es where
    "(if vq_dma_map vq then vring_map_sg (ve_map env) vq [sg] num out_sgs in_sgs else Some (True, [sg], vq_maps vq)) =
       Some (True, sgs1, maps)"
    "walk_all out_sgs sgs1 = Some es" "length es = unat num"
    "map (entry_of (vq_dma_map vq)) es = sg_entries env (vq_dma_map vq) w sg num"
    "vq_dma_map vq \<Longrightarrow> maps = vq_maps vq + mset (map (fst \<circ> entry_of True) es)"
proof (cases "vq_dma_map vq")
  case False
  define es where "es = map (\<lambda>e. (e, w)) (take (unat num) sg)"
  have "walk_all out_sgs [sg] = Some es"
    using ready one False by (auto simp: sg_ready_def walk_all_def es_def one_list_def enumerate_Suc_eq split: if_splits)
  then show thesis using False ready
    by (intro that [of "[sg]" "vq_maps vq" es]) (auto simp: es_def sg_ready_def entry_of_def sg_entries_def)
next
  case True
  have parent: "vq_parent vq" using ready True by (auto simp: sg_ready_def)
  have "num \<noteq> 0" "unat num \<le> length sg" using ready by (auto simp: sg_ready_def)
  then obtain s1 where s1: "sg_terminate_arr sg num = Some s1" "length s1 = length sg" "sg_walk s1 = Some (take (unat num) s1)"
    "map sg_phys s1 = map sg_phys sg" "map sg_length s1 = map sg_length sg" by (rule terminated_shape)
  define t where "t = take (unat num) s1"
  define s2 where "s2 = map (map_entry (ve_map env)) t @ drop (unat num) s1"
  define maps where "maps = vq_maps vq + mset (map (\<lambda>e. ve_map env (sg_phys e) (sg_length e)) t)"
  have len: "length t = unat num" using s1(2) \<open>unat num \<le> length sg\<close> by (simp add: t_def)
  have "dma_map_sg (ve_map env) s1 (vq_maps vq) = Some (False, s2, maps)"
    using s1(3) len dma_map_loop_ok [of "ve_map env" 0 "unat num" s1 False "vq_maps vq"] mp s1(2) \<open>unat num \<le> length sg\<close>
    by (simp add: dma_map_sg_def s2_def t_def maps_def)
  then have m: "vring_map_sg (ve_map env) vq [sg] num out_sgs in_sgs = Some (True, [s2], maps)"
    using one parent s1(1) by (auto simp: vring_map_sg_def one_list_def split: if_splits)
  have "sg_walk t = Some t"
    using s1(3) unfolding t_def by (rule sg_walk_take)
  then have w2: "sg_walk s2 = Some (map (map_entry (ve_map env)) t)" by (simp add: s2_def walk_mapped)
  define es where "es = map (\<lambda>e. (map_entry (ve_map env) e, w)) t"
  have "walk_all out_sgs [s2] = Some es"
    using w2 one by (auto simp: walk_all_def es_def one_list_def enumerate_Suc_eq comp_def split: if_splits)
  moreover have "map (\<lambda>e. f (sg_phys e) (sg_length e)) t = map (\<lambda>e. f (sg_phys e) (sg_length e)) (take (unat num) sg)"
    for f :: "u64 \<Rightarrow> u32 \<Rightarrow> 'x"
  proof -
    have "sg_phys (s1 ! j) = sg_phys (sg ! j)" "sg_length (s1 ! j) = sg_length (sg ! j)" if "j < length sg" for j
      using s1(2,4,5) that by (metis nth_map)+
    then show ?thesis using s1(2) by (intro nth_equalityI) (auto simp: t_def)
  qed
  ultimately show thesis using True m len
    by (intro that [of "[s2]" maps es])
       (auto simp: es_def entry_of_def map_entry_def sg_entries_def maps_def comp_def)
qed

text \<open>The loop goes on after an error, so that later entries stay mapped although an error is reported.\<close>

lemma map_error_keeps_mapping:
  assumes "mp (sg_phys e1) (sg_length e1) = 0" "mp (sg_phys e2) (sg_length e2) = a" "a \<noteq> 0" "\<not> sg_end e1" "sg_end e2"
  shows "\<exists>es. dma_map_sg mp [e1, e2] maps = Some (True, es, add_mset a maps)"
  using assms by (simp add: dma_map_sg_def numeral_2_eq_2)

section \<open>The operations keep the invariant\<close>

lemma kick_fields [simp]:
  "vq_vring (snd (vca_virtqueue_kick env vq)) = vq_vring vq"
  "vq_tokens (snd (vca_virtqueue_kick env vq)) = vq_tokens vq"
  "free_head (snd (vca_virtqueue_kick env vq)) = free_head vq"
  "num_free (snd (vca_virtqueue_kick env vq)) = num_free vq"
  "vq_maps (snd (vca_virtqueue_kick env vq)) = vq_maps vq"
  "vq_dma_map (snd (vca_virtqueue_kick env vq)) = vq_dma_map vq"
  "vq_indirect (snd (vca_virtqueue_kick env vq)) = vq_indirect vq"
  "vq_parent (snd (vca_virtqueue_kick env vq)) = vq_parent vq"
  "vq_last_used_idx (snd (vca_virtqueue_kick env vq)) = vq_last_used_idx vq"
  "vq_tables (snd (vca_virtqueue_kick env vq)) = vq_tables vq"
  by (auto simp: vca_virtqueue_kick_def vca_virtqueue_kick_prepare_def vca_virtqueue_notify_def Let_def)

lemma kick_broken: "ve_notify env \<Longrightarrow> vq_broken (snd (vca_virtqueue_kick env vq)) = vq_broken vq"
  by (auto simp: vca_virtqueue_kick_def vca_virtqueue_kick_prepare_def vca_virtqueue_notify_def Let_def)

lemma vq_inv_kick [simp]: "vq_inv (snd (vca_virtqueue_kick env vq)) fs bs = vq_inv vq fs bs"
  by (simp add: vq_inv_def buffers_in_def)

text \<open>What an operation of the guest leaves alone.\<close>

definition vq_same :: "'t vring_virtqueue \<Rightarrow> 't vring_virtqueue \<Rightarrow> bool" where
  "vq_same vq vq' \<longleftrightarrow> vq_dma_map vq' = vq_dma_map vq \<and> vq_indirect vq' = vq_indirect vq \<and> vq_parent vq' = vq_parent vq \<and>
     vr_num (vq_vring vq') = vr_num (vq_vring vq) \<and> used_ring (vq_vring vq') = used_ring (vq_vring vq) \<and>
     used_idx (vq_vring vq') = used_idx (vq_vring vq)"

definition avail_slot :: "vring \<Rightarrow> u16 \<Rightarrow> nat" where
  "avail_slot vr i = unat (ucast i AND (vr_num vr - 1))"

lemma add_buf_ok:
  assumes inv: "vq_inv vq fs bs" and live: "\<not> vq_broken vq" "\<not> vq_indirect vq"
    and ready: "sg_ready vq sg num" and mp: "\<And>a l. ve_map env a l \<noteq> 0" and one: "one_list out_sgs in_sgs w"
    and room: "unat num \<le> length fs"
  shows "\<exists>vq'. virtqueue_add env vq [sg] num out_sgs in_sgs data = Some (Inr (), vq') \<and>
      vq_inv vq' (drop (unat num) fs)
        (bs @ [\<lparr>b_chain = take (unat num) fs, b_token = data, b_entries = sg_entries env (vq_dma_map vq) w sg num\<rparr>]) \<and>
      vq_same vq vq' \<and> vq_last_used_idx vq' = vq_last_used_idx vq \<and> avail_idx (vq_vring vq') = avail_idx (vq_vring vq) + 1 \<and>
      avail_ring (vq_vring vq') = (avail_ring (vq_vring vq))[avail_slot (vq_vring vq) (avail_idx (vq_vring vq)) := word_of_nat (hd fs)] \<and>
      (ve_notify env \<longrightarrow> \<not> vq_broken vq')"
proof -
  obtain sgs1 maps es where m:
    "(if vq_dma_map vq then vring_map_sg (ve_map env) vq [sg] num out_sgs in_sgs else Some (True, [sg], vq_maps vq)) =
       Some (True, sgs1, maps)"
    "walk_all out_sgs sgs1 = Some es" "length es = unat num"
    "map (entry_of (vq_dma_map vq)) es = sg_entries env (vq_dma_map vq) w sg num"
    "vq_dma_map vq \<Longrightarrow> maps = vq_maps vq + mset (map (fst \<circ> entry_of True) es)"
    using mapped_list [OF ready mp one] by blast
  have num: "num \<noteq> 0" "es \<noteq> []" using ready m(3) by (auto simp: sg_ready_def unat_eq_0)
  have le: "length fs \<le> unat (vr_num (vq_vring vq))"
    using vq_inv_indices(1,4) [OF inv] by (metis card_lessThan card_mono distinct_card finite_lessThan)
  obtain y where y: "vpath (vr_desc (vq_vring vq)) (unat (free_head vq)) fs y" using inv by (auto simp: vq_inv_def)
  then obtain z where z: "vpath (vr_desc (vq_vring vq)) (unat (free_head vq)) (take (unat num) fs) z"
    using vpath_append [of _ _ "take (unat num) fs" "drop (unat num) fs"] by auto
  have "length (vr_desc (vq_vring vq)) = unat (vr_num (vq_vring vq))" using inv by (simp add: vq_inv_def ring_sized_def)
  then have "set (take (unat num) fs) \<subseteq> {..<length (vr_desc (vq_vring vq))}"
    using vq_inv_indices(4) [OF inv] set_take_subset [of "unat num" fs] by auto
  from fill_descs_chain [OF z _ this _ num(2), of "vq_dma_map vq" None] vq_inv_indices(1) [OF inv] m(3) room
  obtain ds where fill: "fill_descs (vq_dma_map vq) es (vr_desc (vq_vring vq)) (unat (free_head vq)) None =
      Some (ds, z, Some (last (take (unat num) fs)))" by auto
  have n: "(word_of_nat (length es) :: u32) = num" using m(3) by simp
  note inv' = vq_inv_add(1) [OF inv num(2) _ fill m(5), unfolded m(3,4) n, where data = data]
    vq_inv_add(2) [OF inv num(2) _ fill m(5), unfolded m(3,4) n]
  define vq4 where "vq4 = publish (free_head vq) data
      (vq\<lparr>num_free := num_free vq - num, vq_maps := maps,
          vq_vring := (vq_vring vq)\<lparr>vr_desc := end_chain (Some (last (take (unat num) fs))) ds\<rparr>, free_head := word_of_nat z\<rparr>)"
  define vq' where "vq' = (if num_added vq4 = 65535 then snd (vca_virtqueue_kick env vq4) else vq4)"
  have nf: "\<not> num_free vq < num" using inv room by (simp add: vq_inv_def word_less_nat_alt)
  have "\<not> vr_num (vq_vring vq) < num" using room le by (simp add: word_less_nat_alt)
  with live num nf m(1,2) fill have add: "virtqueue_add env vq [sg] num out_sgs in_sgs data = Some (Inr (), vq')"
    by (cases "vq_dma_map vq") (simp_all add: virtqueue_add_def Let_def vq'_def vq4_def)
  have inv4: "vq_inv vq4 (drop (unat num) fs)
      (bs @ [\<lparr>b_chain = take (unat num) fs, b_token = data, b_entries = sg_entries env (vq_dma_map vq) w sg num\<rparr>])"
    using inv'(1) room by (simp add: vq4_def)
  have fh: "ucast (free_head vq) = (word_of_nat (hd fs) :: u16)" using inv'(2) room by (metis of_nat_unat)
  have same: "vq_same vq vq4" "vq_last_used_idx vq4 = vq_last_used_idx vq" "avail_idx (vq_vring vq4) = avail_idx (vq_vring vq) + 1"
    "avail_ring (vq_vring vq4) = (avail_ring (vq_vring vq))[avail_slot (vq_vring vq) (avail_idx (vq_vring vq)) := word_of_nat (hd fs)]"
    "vq_broken vq4 = vq_broken vq"
    by (simp_all add: vq4_def publish_def Let_def vq_same_def avail_slot_def fh)
  have "vq_same vq vq'" "ve_notify env \<longrightarrow> \<not> vq_broken vq'" using same live by (auto simp: vq'_def vq_same_def kick_broken)
  then show ?thesis using add inv4 same by (auto simp: vq'_def)
qed

lemma add_buf_full:
  assumes "vq_inv vq fs bs" "\<not> vq_broken vq" "\<not> vq_indirect vq" "length fs < unat num" "num \<le> vr_num (vq_vring vq)"
  shows "virtqueue_add env vq sgs num out_sgs in_sgs data =
    Some (Inl ENOSPC, if out_sgs = 0 then vq else vq\<lparr>vq_kicks := vq_kicks vq + 1\<rparr>)"
  using assms by (auto simp: virtqueue_add_def Let_def vq_inv_def word_less_nat_alt word_le_nat_alt)

text \<open>Getting a buffer back.\<close>

lemma detach_loop_ok:
  assumes "vchain (vr_desc (vq_vring vq)) cs es" "set cs \<subseteq> {..<length (vr_desc (vq_vring vq))}"
  shows "detach_loop (hd cs) vq = Some (last cs, vq\<lparr>num_free := num_free vq + word_of_nat (length cs - 1),
    vq_maps := (if vq_dma_map vq then vq_maps vq - mset (map fst (butlast es)) else vq_maps vq)\<rparr>)"
  using assms
proof (induction cs arbitrary: vq es)
  case (Cons a cs)
  define ds where "ds = vr_desc (vq_vring vq)"
  have a: "a < length ds" using Cons.prems(2) by (simp add: ds_def)
  show ?case
  proof (cases cs)
    case Nil
    then obtain e where e: "es = [e]" "desc_is (ds ! a) e False"
      using Cons.prems(1) by (cases es rule: remdups_adj.cases) (auto simp: ds_def)
    then show ?thesis using Nil a desc_is_tests(1) [OF e(2)] by (subst detach_loop.simps) (simp add: ds_def Let_def)
  next
    case (Cons b cs')
    then obtain e es' where e: "es = e # es'" "desc_is (ds ! a) e True" "unat (d_next (ds ! a)) = b" "vchain ds cs es'"
      using Cons.prems(1) by (cases es) (auto simp: ds_def)
    define vq1 where "vq1 = (unmap_desc (ds ! a) vq)\<lparr>num_free := num_free vq + 1\<rparr>"
    have v1: "vq_vring vq1 = vq_vring vq" "vq_dma_map vq1 = vq_dma_map vq" by (simp_all add: vq1_def unmap_desc_def)
    have "es' \<noteq> []" using vchain_lengths [OF e(4)] by auto
    then have bl: "butlast es = e # butlast es'" using e(1) by simp
    have "detach_loop a vq = detach_loop b vq1"
      using a e(3) desc_is_tests(1) [OF e(2)] by (subst detach_loop.simps) (simp add: ds_def Let_def vq1_def)
    also have "\<dots> = Some (last cs, vq1\<lparr>num_free := num_free vq1 + word_of_nat (length cs - 1),
        vq_maps := (if vq_dma_map vq1 then vq_maps vq1 - mset (map fst (butlast es')) else vq_maps vq1)\<rparr>)"
      using Cons.IH [of vq1 es'] e(4) Cons.prems(2) Cons v1 by (simp add: ds_def)
    finally show ?thesis
      using e(2) bl Cons by (simp add: vq1_def unmap_desc_def desc_is_def ac_simps diff_diff_add_mset)
  qed
qed simp

lemma vq_inv_detach:
  assumes inv: "vq_inv vq fs (b # bs)"
  shows "\<exists>vq'. detach_buf vq (hd (b_chain b)) = Some vq' \<and> vq_inv vq' (b_chain b @ fs) bs \<and> vq_same vq vq' \<and>
    avail_idx (vq_vring vq') = avail_idx (vq_vring vq) \<and> avail_ring (vq_vring vq') = avail_ring (vq_vring vq) \<and>
    vq_last_used_idx vq' = vq_last_used_idx vq \<and> vq_broken vq' = vq_broken vq"
proof -
  define cs where "cs = b_chain b"
  define D where "D = vr_desc (vq_vring vq)"
  define num where "num = unat (vr_num (vq_vring vq))"
  have ch: "vchain D cs (b_entries b)" and tok: "vq_tokens vq ! hd cs = Some (b_token b)"
    using inv by (auto simp: vq_inv_def buffers_in_def D_def cs_def)
  note ix = vq_inv_indices [OF inv, folded num_def]
  have D: "length D = num" "length (vq_tokens vq) = num" "num \<le> 32768"
    using inv ring_sized_num by (auto simp: vq_inv_def ring_sized_def D_def num_def)
  have cs: "cs \<noteq> []" "length cs = length (b_entries b)" "set cs \<subseteq> {..<num}" "distinct cs"
    "set cs \<inter> \<Union> (set ` b_chain ` set bs) = {}" "set cs \<inter> set fs = {}"
    using vchain_lengths [OF ch] ix(2,3) ix(5) [of b] by (auto simp: cs_def)
  have h: "hd cs < num" "last cs < num" "last cs \<in> set cs" "hd cs \<in> set cs" using cs(1,3) hd_in_set [OF cs(1)] last_in_set [OF cs(1)] by blast+
  have noind: "d_flags (D ! hd cs) AND VRING_DESC_F_INDIRECT = 0"
    using ch by (cases "(D, cs, b_entries b)" rule: vchain.cases) (auto dest: desc_is_tests(2))
  define vq1 where "vq1 = vq\<lparr>vq_tokens := (vq_tokens vq)[hd cs := None]\<rparr>"
  have loop: "detach_loop (hd cs) vq1 = Some (last cs, vq1\<lparr>num_free := num_free vq1 + word_of_nat (length cs - 1),
      vq_maps := (if vq_dma_map vq1 then vq_maps vq1 - mset (map fst (butlast (b_entries b))) else vq_maps vq1)\<rparr>)"
    using ch cs(3) D(1) by (intro detach_loop_ok) (simp_all add: vq1_def D_def)
  define E where "E = D[last cs := (D ! last cs)\<lparr>d_next := ucast (free_head vq)\<rparr>]"
  define vq' where "vq' = vq1\<lparr>num_free := num_free vq + word_of_nat (length cs),
      vq_maps := (if vq_dma_map vq then vq_maps vq - mset (map fst (b_entries b)) else vq_maps vq),
      vq_vring := (vq_vring vq)\<lparr>vr_desc := E\<rparr>, free_head := word_of_nat (hd cs)\<rparr>"
  have last_addr: "d_addr (D ! last cs) = fst (last (b_entries b))"
    using vchain_addrs [OF ch] cs(1,2) by (metis last_map length_0_conv)
  have maps: "mset (map fst (b_entries b)) = add_mset (fst (last (b_entries b))) (mset (map fst (butlast (b_entries b))))"
    using cs(1,2) by (cases "b_entries b" rule: rev_cases) auto
  have len: "(1 :: u32) + word_of_nat (length cs - 1) = word_of_nat (length cs)" using cs(1) by (cases cs) auto
  have detach: "detach_buf vq (hd cs) = Some vq'"
    using noind loop last_addr maps len
    by (simp add: detach_buf_def D_def [symmetric] vq1_def [symmetric] Let_def)
       (simp add: vq'_def vq1_def unmap_desc_def D_def E_def ac_simps diff_diff_add_mset)
  have fhs: "unat (ucast (free_head vq) :: u16) = unat (free_head vq)" if "fs \<noteq> []"
  proof -
    have "unat (free_head vq) = hd fs" using inv that vpath_hd by (auto simp: vq_inv_def)
    then have "unat (free_head vq) < 65536" using ix(4) D(3) that hd_in_set [of fs] by fastforce
    then show ?thesis by (simp add: unsigned_ucast_eq take_bit_nat_eq_self)
  qed
  obtain y where y: "vpath D (unat (free_head vq)) fs y" using inv by (auto simp: vq_inv_def D_def)
  have bl: "cs = butlast cs @ [last cs]" using cs(1) by simp
  then have "last cs \<notin> set (butlast cs)" using cs(4) by (metis distinct_append disjoint_insert(1) list.simps(15) empty_set)
  then have "vpath E x (butlast cs) z = vpath D x (butlast cs) z" for x z
    by (intro vpath_cong) (metis E_def nth_list_update_neq)
  moreover have "vpath D (hd cs) (butlast cs) (last cs)"
    using vchain_path [OF ch] vpath_append [of D "hd cs" "butlast cs" "[last cs]"] bl by auto
  moreover have "last cs \<notin> set fs" using cs(6) h(3) by auto
  then have "vpath E x fs z = vpath D x fs z" for x z
    by (intro vpath_cong) (metis E_def nth_list_update_neq)
  moreover have "unat (d_next (E ! last cs)) = (if fs = [] then unat (d_next (E ! last cs)) else unat (free_head vq))"
    using h(2) D(1) fhs by (auto simp: E_def)
  ultimately have "\<exists>y. vpath E (hd cs) ((butlast cs @ [last cs]) @ fs) y"
    unfolding vpath_append using y by (metis vpath.simps)
  then have free: "\<exists>y. vpath E (hd cs) (cs @ fs) y" using bl by simp
  have hw: "unat (word_of_nat (hd cs) :: u32) = hd cs" using h(1) D(3) by (simp add: unat_of_nat)
  have cnt: "length cs + length fs \<le> num"
  proof -
    have "mset (fs @ concat (map b_chain (b # bs))) = mset [0..<num]" using inv by (simp add: vq_inv_def num_def)
    then have "length (fs @ concat (map b_chain (b # bs))) = length [0..<num]" by (rule mset_eq_length)
    then show ?thesis by (simp add: cs_def)
  qed
  then have nf: "unat (num_free vq + word_of_nat (length cs)) = length (cs @ fs)"
    using inv D(3) by (simp add: vq_inv_def unat_word_ariths unat_of_nat)
  have bufs: "buffers_in vq' bs"
  proof -
    have "vchain E (b_chain c) (b_entries c)" "vq_tokens vq' ! hd (b_chain c) = Some (b_token c)" if "c \<in> set bs" for c
    proof -
      have c: "vchain D (b_chain c) (b_entries c)" "vq_tokens vq ! hd (b_chain c) = Some (b_token c)"
        using inv that by (auto simp: vq_inv_def buffers_in_def D_def)
      have out: "j \<notin> set cs" if "j \<in> set (b_chain c)" for j using cs(5) \<open>c \<in> set bs\<close> that by blast
      have "E ! j = D ! j" if "j \<in> set (b_chain c)" for j using out [OF that] h(3) by (metis E_def nth_list_update_neq)
      then show "vchain E (b_chain c) (b_entries c)" using c(1) vchain_cong [of "b_chain c" E D] by simp
      have "hd (b_chain c) \<noteq> hd cs" using out h(4) vchain_lengths [OF c(1)] hd_in_set by metis
      then show "vq_tokens vq' ! hd (b_chain c) = Some (b_token c)" using c(2) by (simp add: vq'_def vq1_def)
    qed
    moreover have "j \<in> (hd \<circ> b_chain) ` set bs" if "j < num" "vq_tokens vq' ! j \<noteq> None" for j
    proof -
      have j: "j \<noteq> hd cs" "vq_tokens vq ! j \<noteq> None" using that D(2) by (auto simp: vq'_def vq1_def nth_list_update_cases split: if_splits)
      then show ?thesis using inv that(1) by (auto simp: vq_inv_def buffers_in_def num_def cs_def)
    qed
    ultimately show ?thesis using D(2) by (auto simp: buffers_in_def vq'_def vq1_def)
  qed
  have "vq_inv vq' (cs @ fs) bs"
    using inv bufs free hw nf D(1,2)
    by (auto simp: vq_inv_def vq'_def vq1_def ring_sized_def num_def E_def mapped_addrs_def ac_simps cs_def)
  with detach show ?thesis
    by (auto simp: cs_def vq'_def vq1_def vq_same_def)
qed

section \<open>Free running counters\<close>

text \<open>
  The two rings of a queue have counters that run through all 16-bit words; the slot of a counter is its
  remainder modulo the size of the ring, which divides 65536.
\<close>

lemma ucast_add16: "(ucast (x + y :: u32) :: u16) = ucast x + ucast y"
proof -
  have "unat (ucast (x + y) :: u16) = unat (ucast x + ucast y :: u16)"
    by (simp add: unsigned_ucast_eq unat_word_ariths take_bit_nat_def mod_mod_cancel mod_simps)
  then show ?thesis by (simp add: word_unat_eq_iff)
qed

lemma ucast_back16: "ucast (ucast (x :: u16) :: u32) = x"
proof -
  have "unat (ucast (ucast x :: u32) :: u16) = unat x"
    by (simp only: unsigned_ucast_eq) (simp add: unsigned_take_bit_eq take_bit_nat_eq_self less_trans [OF u16_less])
  then show ?thesis by (simp only: word_unat_eq_iff)
qed

definition fr_win :: "nat \<Rightarrow> 'e list \<Rightarrow> u16 \<Rightarrow> u16 \<Rightarrow> 'e list" where
  "fr_win n xs a b = map (\<lambda>k. xs ! ((unat a + k) mod n)) [0..<unat (b - a)]"

lemma length_fr_win [simp]: "length (fr_win n xs a b) = unat (b - a)"
  by (simp add: fr_win_def)

lemma fr_win_empty [simp]: "fr_win n xs a a = []"
  by (simp add: fr_win_def)

lemma unat_inc_mod:
  assumes "n dvd 65536"
  shows "unat (c + 1 :: u16) mod n = (unat c + 1) mod n"
  using assms by (simp add: unat_word_ariths mod_mod_cancel)

lemma unat_diff_mod:
  assumes "n dvd 65536"
  shows "(unat (a :: u16) + unat (b - a)) mod n = unat b mod n"
proof -
  have "(unat a + unat (b - a)) mod 65536 = unat b"
    using unat_word_ariths(1) [of a "b - a"] by simp
  then have "unat b mod n = (unat a + unat (b - a)) mod 65536 mod n" by simp
  also have "\<dots> = (unat a + unat (b - a)) mod n" using assms by (rule mod_mod_cancel)
  finally show ?thesis by simp
qed

lemma fr_win_pop:
  assumes "a \<noteq> b" "n dvd 65536"
  shows "fr_win n xs a b = xs ! (unat a mod n) # fr_win n xs (a + 1) b"
proof -
  have "b - a \<noteq> 0" using assms(1) by simp
  then have u: "unat (b - a) = Suc (unat (b - (a + 1)))"
    using unat_minus_one [of "b - a"] by (simp add: diff_diff_eq unat_gt_0)
  have "(unat (a + 1) + k) mod n = (unat a + Suc k) mod n" for k
    using unat_inc_mod [OF assms(2), of a] by (metis add.commute add_Suc_right mod_add_left_eq plus_1_eq_Suc)
  then show ?thesis
    unfolding fr_win_def u by (simp add: upt_conv_Cons map_Suc_upt [symmetric] comp_def del: upt_Suc)
qed

lemma fr_slot_inj:
  assumes "n dvd 65536" "0 < n" "k < unat (b - a)" "unat (b - a) < n"
  shows "(unat (a :: u16) + k) mod n \<noteq> unat b mod n"
proof
  assume "(unat a + k) mod n = unat b mod n"
  then have "(unat a + k) mod n = (unat a + unat (b - a)) mod n" using unat_diff_mod [OF assms(1)] by simp
  then have "n dvd unat (b - a) - k" using assms(3) mod_eq_dvd_iff_nat [of "unat a + k" "unat a + unat (b - a)" n] by simp
  then show False using assms(3,4) by (auto dest: dvd_imp_le)
qed

lemma fr_win_push:
  assumes "n dvd 65536" "unat (b - a) < n" "length xs = n" "n < 65536"
  shows "fr_win n (xs[unat b mod n := x]) a (b + 1) = fr_win n xs a b @ [x]"
proof -
  have n: "0 < n" using assms(2) by simp
  have u: "unat (b + 1 - a) = Suc (unat (b - a))"
    using assms(2,4) unat_word_ariths(1) [of "b - a" 1] by (simp add: diff_add_eq)
  have "xs[unat b mod n := x] ! ((unat a + k) mod n) = xs ! ((unat a + k) mod n)" if "k < unat (b - a)" for k
    using fr_slot_inj [OF assms(1) n that assms(2)] by simp
  then show ?thesis
    using n assms(3) unat_diff_mod [OF assms(1), of a b] unfolding fr_win_def u by simp
qed

lemma ring_dvd:
  assumes "ring_sized vr"
  shows "unat (vr_num vr) dvd 65536" "unat (vr_num vr) < 65536" "0 < unat (vr_num vr)"
proof -
  obtain k where k: "unat (vr_num vr) = 2 ^ k" using assms by (auto simp: ring_sized_def is_power_of_2_iff)
  have le: "unat (vr_num vr) \<le> 32768" using ring_sized_num(2) [OF assms] .
  then have "(2::nat) ^ k \<le> 2 ^ 15" using k by simp
  then have "k \<le> 15" by (rule power_le_imp_le_exp [rotated]) simp
  then have "(2::nat) ^ k dvd 2 ^ 16" by (intro le_imp_power_dvd) simp
  then show "unat (vr_num vr) dvd 65536" "unat (vr_num vr) < 65536" "0 < unat (vr_num vr)" using k le by auto
qed

lemma ring_slot:
  assumes "ring_sized vr"
  shows "unat (ucast (i :: u16) AND (vr_num vr - 1)) = unat i mod unat (vr_num vr)"
proof -
  obtain k where k: "unat (vr_num vr) = 2 ^ k" using assms by (auto simp: ring_sized_def is_power_of_2_iff)
  have "vr_num vr \<noteq> 0" using ring_sized_num(1) [OF assms] by auto
  then show ?thesis using k by (simp add: unsigned_and_eq unat_pred and_mask_nat_Suc unsigned_ucast_eq take_bit_nat_eq_self less_trans [OF u16_less])
qed

lemma get_buf_ok:
  assumes inv: "vq_inv vq fs (b # bs)" and live: "\<not> vq_broken vq"
    and win: "fr_win (unat (vr_num (vq_vring vq))) (used_ring (vq_vring vq)) (vq_last_used_idx vq) (used_idx (vq_vring vq)) =
      \<lparr>ue_id = word_of_nat (hd (b_chain b)), ue_len = l\<rparr> # us"
  shows "\<exists>vq'. vca_virtqueue_get_buf vq = Some (Some (b_token b, l), vq') \<and> vq_inv vq' (b_chain b @ fs) bs \<and> vq_same vq vq' \<and>
    avail_idx (vq_vring vq') = avail_idx (vq_vring vq) \<and> avail_ring (vq_vring vq') = avail_ring (vq_vring vq) \<and>
    vq_last_used_idx vq' = vq_last_used_idx vq + 1 \<and> \<not> vq_broken vq' \<and>
    fr_win (unat (vr_num (vq_vring vq'))) (used_ring (vq_vring vq')) (vq_last_used_idx vq') (used_idx (vq_vring vq')) = us"
proof -
  have sized: "ring_sized (vq_vring vq)" using inv by (simp add: vq_inv_def)
  note dv = ring_dvd [OF sized]
  have ne: "vq_last_used_idx vq \<noteq> used_idx (vq_vring vq)" using win by auto
  have "fr_win (unat (vr_num (vq_vring vq))) (used_ring (vq_vring vq)) (vq_last_used_idx vq + 1) (used_idx (vq_vring vq)) = us"
    and elem: "used_ring (vq_vring vq) ! unat (ucast (vq_last_used_idx vq) AND (vr_num (vq_vring vq) - 1)) =
      \<lparr>ue_id = word_of_nat (hd (b_chain b)), ue_len = l\<rparr>"
    using win fr_win_pop [OF ne dv(1), of "used_ring (vq_vring vq)"] ring_slot [OF sized] by simp_all
  moreover have c: "b_chain b \<noteq> []" "vq_tokens vq ! hd (b_chain b) = Some (b_token b)"
    using inv vchain_lengths by (fastforce simp: vq_inv_def buffers_in_def)+
  then have h: "hd (b_chain b) < unat (vr_num (vq_vring vq))"
    using subsetD [OF vq_inv_indices(5) [OF inv, of b] hd_in_set [OF c(1)]] by simp
  then have hw: "unat (word_of_nat (hd (b_chain b)) :: u32) = hd (b_chain b)" using dv(2) by (simp add: unat_of_nat)
  obtain vq1 where vq1: "detach_buf vq (hd (b_chain b)) = Some vq1" "vq_inv vq1 (b_chain b @ fs) bs" "vq_same vq vq1"
    "avail_idx (vq_vring vq1) = avail_idx (vq_vring vq)" "avail_ring (vq_vring vq1) = avail_ring (vq_vring vq)"
    "vq_last_used_idx vq1 = vq_last_used_idx vq" "vq_broken vq1 = vq_broken vq"
    using vq_inv_detach [OF inv] by auto
  define vq2 where "vq2 = vq1\<lparr>vq_last_used_idx := vq_last_used_idx vq1 + 1\<rparr>"
  define vq' where "vq' = (if avail_flags (vq_vring vq2) AND VRING_AVAIL_F_NO_INTERRUPT = 0
      then vq2\<lparr>vq_vring := (vq_vring vq2)\<lparr>used_event := vq_last_used_idx vq2\<rparr>\<rparr> else vq2)"
  have "\<not> vr_num (vq_vring vq) \<le> word_of_nat (hd (b_chain b))" using h hw by (simp add: word_le_nat_alt)
  then have "vca_virtqueue_get_buf vq = Some (Some (b_token b, l), vq')"
    using live ne elem c(2) hw vq1(1)
    by (simp add: vca_virtqueue_get_buf_def more_used_def Let_def vq'_def vq2_def)
  moreover have "vq_inv vq' (b_chain b @ fs) bs" using vq1(2) by (simp add: vq'_def vq2_def vq_inv_def ring_sized_def buffers_in_def)
  ultimately show ?thesis using vq1 live by (auto simp: vq'_def vq2_def vq_same_def)
qed

section \<open>A new queue\<close>

lemma link_free_ok:
  assumes "length ds = unat num" "num \<noteq> 0" "num \<le> 65536"
  shows "length (link_free num ds) = unat num" "\<exists>y. vpath (link_free num ds) 0 [0..<unat num] y"
proof -
  define step where "step = (\<lambda>i ds :: vring_desc list. ds[i := (ds ! i)\<lparr>d_next := word_of_nat i + 1\<rparr>])"
  have fold: "length (fold step [0..<k] ds) = length ds \<and>
      (\<forall>i<k. d_next (fold step [0..<k] ds ! i) = word_of_nat i + 1)" if "k \<le> length ds" for k
    using that by (induction k) (auto simp: step_def nth_list_update_cases less_Suc_eq)
  define m where "m = unat num - 1"
  have m: "unat num = Suc m" "unat (num - 1) = m" using assms(2) by (auto simp: m_def unat_pred unat_gt_0)
  have lf: "link_free num ds = fold step [0..<m] ds" using m(2) by (simp add: link_free_def step_def)
  show len: "length (link_free num ds) = unat num" using fold [of m] assms(1) m lf by simp
  have nx: "unat (d_next (link_free num ds ! i)) = Suc i" if "i < m" for i
  proof -
    have "unat (word_of_nat i + 1 :: u16) = Suc i"
      using that m(1) assms(3) by (simp add: word_le_nat_alt unat_word_ariths unat_of_nat)
    then show ?thesis using fold [of m] that assms(1) m(1) lf by simp
  qed
  have "vpath (link_free num ds) j [j..<m] m" if "j \<le> m" for j
    using that by (induction "m - j" arbitrary: j) (auto simp: upt_rec nx)
  then have "vpath (link_free num ds) 0 ([0..<m] @ [m]) (unat (d_next (link_free num ds ! m)))"
    unfolding vpath_append by auto
  then show "\<exists>y. vpath (link_free num ds) 0 [0..<unat num] y" using m(1) by auto
qed

lemma new_virtqueue_ok:
  assumes "is_power_of_2 num" "num \<le> 32768" "length (vr_desc vr) = unat num" "length (avail_ring vr) = unat num"
    "length (used_ring vr) = unat num"
  shows "\<exists>vq. vca_vring_new_virtqueue True num features parent vr callback = Some (Some vq) \<and> vq_inv vq [0..<unat num] [] \<and>
    \<not> vq_broken vq \<and> vq_indirect vq = virtio_has_feature features VIRTIO_RING_F_INDIRECT_DESC \<and>
    vq_dma_map vq = virtio_has_feature features VIRTIO_RING_F_DMA_MAP \<and> vq_parent vq = parent \<and> vq_last_used_idx vq = 0 \<and>
    vr_num (vq_vring vq) = num \<and> avail_idx (vq_vring vq) = avail_idx vr \<and> used_idx (vq_vring vq) = used_idx vr"
proof -
  have num: "num \<noteq> 0" "num AND (num - 1) = 0" using assms(1) by (auto simp: is_power_of_2_def)
  have "num \<le> 65536" using assms(2) by (rule order_trans) simp
  note lf = link_free_ok [OF assms(3) num(1) this]
  show ?thesis using num lf assms
    by (simp add: vca_vring_new_virtqueue_def vq_inv_def ring_sized_def buffers_in_def mapped_addrs_def)
qed

text \<open>Zeroed memory for a ring, and a transport that maps every address to itself.\<close>

definition ring_zero :: "u32 \<Rightarrow> vring" where
  "ring_zero num = \<lparr>vr_num = num, vr_desc = replicate (unat num) \<lparr>d_addr = 0, d_len = 0, d_flags = 0, d_next = 0\<rparr>,
     avail_flags = 0, avail_idx = 0, avail_ring = replicate (unat num) 0, used_event = 0,
     used_flags = 0, used_idx = 0, used_ring = replicate (unat num) \<lparr>ue_id = 0, ue_len = 0\<rparr>, avail_event = 0\<rparr>"

definition id_env :: vq_env where
  "id_env = \<lparr>ve_table = None, ve_garbage = [], ve_map = (\<lambda>a l. if a = 0 then 1 else a), ve_notify = True\<rparr>"

end
