(* ===== verification/Vringh.thy ===== *)
theory Vringh
  imports Virtio_Ring
begin

unbundle bit_operations_syntax

text \<open>
  The queues of the virtual network, host side (\<open>vca_virtio/vca_vringh.c\<close>, \<open>include/vca_vringh.h\<close>), for rings in
  memory of the kernel: the descriptors of an available buffer are collected into a vector, and a buffer is
  returned through the used ring. The variants for rings in user space are not called by the drivers.
\<close>

section \<open>State\<close>

definition VRINGH_IOV_ALLOCATED :: u32 where "VRINGH_IOV_ALLOCATED = 0x8000000"

record vringh =
  event_indices :: bool
  last_avail_idx :: u16
  h_last_used_idx :: u16
  completed :: u32

record kvec =
  iov_base :: u64
  iov_len :: u64

record vringh_kiov =
  kv_iov :: "kvec list"
  kv_consumed :: u64
  kv_i :: u32
  kv_used :: u32
  kv_max_num :: u32

text \<open>The allocation of a larger vector, and what the new memory holds.\<close>

record iov_env =
  ie_alloc :: bool
  ie_garbage :: kvec

definition vringh_kiov_init :: vringh_kiov where
  "vringh_kiov_init = \<lparr>kv_iov = [], kv_consumed = 0, kv_i = 0, kv_used = 0, kv_max_num = 0\<rparr>"

definition vringh_kiov_reset :: "vringh_kiov \<Rightarrow> vringh_kiov option" where
  "vringh_kiov_reset k =
     (if length (kv_iov k) \<le> unat (kv_i k) then None
      else Some (k\<lparr>kv_iov := (kv_iov k)[unat (kv_i k) := \<lparr>iov_base = iov_base (kv_iov k ! unat (kv_i k)) - kv_consumed k,
                                                             iov_len = iov_len (kv_iov k ! unat (kv_i k)) + kv_consumed k\<rparr>],
                   kv_consumed := 0, kv_i := 0\<rparr>))"

definition vringh_kiov_cleanup :: "vringh_kiov \<Rightarrow> vringh_kiov" where
  "vringh_kiov_cleanup k = \<lparr>kv_iov = [], kv_consumed = 0, kv_i = 0, kv_used = 0, kv_max_num = 0\<rparr>"

text \<open>The ring size is a power of two that fits 16 bits.\<close>

definition vca_vringh_init_kern :: "u64 \<Rightarrow> u32 \<Rightarrow> vringh res" where
  "vca_vringh_init_kern features num =
     (if num = 0 \<or> 0xffff < num \<or> num AND (num - 1) \<noteq> 0 then Inl EINVAL
      else Inr \<lparr>event_indices = virtio_has_feature features VIRTIO_RING_F_EVENT_IDX,
                last_avail_idx = 0, h_last_used_idx = 0, completed = 0\<rparr>)"

section \<open>Taking a buffer\<close>

text \<open>The first descriptor of the next available buffer; \<open>Inr None\<close> if there is none.\<close>

definition vringh_get_head :: "vring \<Rightarrow> vringh \<Rightarrow> u16 option res \<times> vringh" where
  "vringh_get_head vr vrh =
     (if last_avail_idx vrh = avail_idx vr then (Inr None, vrh)
      else let head = avail_ring vr ! unat (ucast (last_avail_idx vrh) AND (vr_num vr - 1))
           in if vr_num vr \<le> ucast head then (Inl EINVAL, vrh)
              else (Inr (Some head), vrh\<lparr>last_avail_idx := last_avail_idx vrh + 1\<rparr>))"

definition resize_iovec :: "iov_env \<Rightarrow> vringh_kiov \<Rightarrow> vringh_kiov option" where
  "resize_iovec ie k =
     (let n = (kv_max_num k AND NOT VRINGH_IOV_ALLOCATED) * 2;
          new_num = (if n < 8 then 8 else n)
      in if ie_alloc ie
         then Some (k\<lparr>kv_iov := kv_iov k @ replicate (unat new_num - length (kv_iov k)) (ie_garbage ie),
                      kv_max_num := new_num OR VRINGH_IOV_ALLOCATED\<rparr>)
         else None)"

text \<open>One descriptor is put behind the others; \<open>None\<close> is a write outside of the vector.\<close>

definition iov_put :: "iov_env \<Rightarrow> vring_desc \<Rightarrow> vringh_kiov \<Rightarrow> vringh_kiov res option" where
  "iov_put ie d k =
     (case (if kv_used k = kv_max_num k AND NOT VRINGH_IOV_ALLOCATED then resize_iovec ie k else Some k) of
        None \<Rightarrow> Some (Inl ENOMEM)
      | Some k1 \<Rightarrow>
          if length (kv_iov k1) \<le> unat (kv_used k1) then None
          else Some (Inr (k1\<lparr>kv_iov := (kv_iov k1)[unat (kv_used k1) := \<lparr>iov_base = d_addr d, iov_len = ucast (d_len d)\<rparr>],
                             kv_used := kv_used k1 + 1\<rparr>)))"

text \<open>
  The walk along a chain, at descriptor \<open>i\<close> of the table \<open>ds\<close> with \<open>desc_max\<close> elements; \<open>up_next\<close> is -1 in the
  main table, and in an indirect table the index to go on with, or -2. \<open>left\<close> is the number of descriptors
  that may still follow. The vectors are returned on errors, too.
\<close>

definition move_to_indirect :: "int \<Rightarrow> vring_desc \<Rightarrow> (int \<times> u32) res" where
  "move_to_indirect up_next d =
     (if up_next \<noteq> -1 \<or> d_len d mod 16 \<noteq> 0 then Inl EINVAL
      else Inr (if d_flags d AND VRING_DESC_F_NEXT \<noteq> 0 then uint (d_next d) else -2, d_len d div 16))"

lemma uint_not_minus_1: "uint (x :: u16) \<noteq> -1"
proof -
  have "0 \<le> uint x" by simp
  then show ?thesis by linarith
qed

function vringh_iov :: "iov_env \<Rightarrow> (u64 \<Rightarrow> vring_desc list option) \<Rightarrow> vring \<Rightarrow> nat \<Rightarrow> int \<Rightarrow> vring_desc list \<Rightarrow> u32 \<Rightarrow> u16 \<Rightarrow>
    vringh_kiov option \<Rightarrow> vringh_kiov option \<Rightarrow> (unit res \<times> vringh_kiov option \<times> vringh_kiov option) option" where
  "vringh_iov ie tables vr left up_next ds desc_max i riov wiov =
     (if length ds \<le> unat i then None
      else
        let d = ds ! unat i
        in if d_flags d AND VRING_DESC_F_INDIRECT \<noteq> 0
           then case move_to_indirect up_next d of
                  Inl e \<Rightarrow> Some (Inl e, riov, wiov)
                | Inr (up, n) \<Rightarrow>
                    (case tables (d_addr d) of
                       None \<Rightarrow> None
                     | Some tb \<Rightarrow> vringh_iov ie tables vr left up tb n 0 riov wiov)
           else if left = 0 then Some (Inl ELOOP, riov, wiov)
           else
             let w = d_flags d AND VRING_DESC_F_WRITE \<noteq> 0
             in if \<not> w \<and> (case wiov of None \<Rightarrow> False | Some k \<Rightarrow> kv_i k \<noteq> 0) then Some (Inl EINVAL, riov, wiov)
                else case (if w then wiov else riov) of
                  None \<Rightarrow> Some (Inl EPROTO, riov, wiov)
                | Some k \<Rightarrow>
                    (case iov_put ie d k of
                       None \<Rightarrow> None
                     | Some (Inl e) \<Rightarrow> Some (Inl e, riov, wiov)
                     | Some (Inr k1) \<Rightarrow>
                         let riov1 = (if w then riov else Some k1);
                             wiov1 = (if w then Some k1 else wiov)
                         in if d_flags d AND VRING_DESC_F_NEXT \<noteq> 0
                            then if desc_max \<le> ucast (d_next d) then Some (Inl EINVAL, riov1, wiov1)
                                 else vringh_iov ie tables vr (left - 1) up_next ds desc_max (d_next d) riov1 wiov1
                            else if 0 < up_next
                            then if vr_num vr \<le> ucast (word_of_int up_next :: u16) then Some (Inl EINVAL, riov1, wiov1)
                                 else vringh_iov ie tables vr (left - 1) (-1) (vr_desc vr) (vr_num vr) (word_of_int up_next) riov1 wiov1
                            else Some (Inr (), riov1, wiov1)))"
  by pat_completeness auto

termination
  by (relation "measures [\<lambda>(ie, tables, vr, left, up_next, ds, desc_max, i, riov, wiov). left,
        \<lambda>(ie, tables, vr, left, up_next, ds, desc_max, i, riov, wiov). if up_next = -1 then 1 else 0]")
    (auto simp: move_to_indirect_def uint_not_minus_1 split: if_splits)

declare vringh_iov.simps [simp del]

definition start_iov :: "vringh_kiov \<Rightarrow> vringh_kiov" where
  "start_iov k = k\<lparr>kv_i := 0, kv_used := 0\<rparr>"

text \<open>
  \<open>Inr None\<close> stands for the result 0 (nothing available), \<open>Inr (Some head)\<close> for 1. On an error behind the
  first descriptor the head was set, which is the second component.
\<close>

definition vca_vringh_getdesc_kern :: "iov_env \<Rightarrow> (u64 \<Rightarrow> vring_desc list option) \<Rightarrow> vring \<Rightarrow> vringh \<Rightarrow>
    vringh_kiov option \<Rightarrow> vringh_kiov option \<Rightarrow>
    (u16 option res \<times> u16 option \<times> vringh \<times> vringh_kiov option \<times> vringh_kiov option) option" where
  "vca_vringh_getdesc_kern ie tables vr vrh riov wiov =
     (case vringh_get_head vr vrh of
        (Inl e, vrh1) \<Rightarrow> Some (Inl e, None, vrh1, riov, wiov)
      | (Inr None, vrh1) \<Rightarrow> Some (Inr None, None, vrh1, riov, wiov)
      | (Inr (Some head), vrh1) \<Rightarrow>
          if riov = None \<and> wiov = None then None
          else
            (case vringh_iov ie tables vr (unat (vr_num vr)) (-1) (vr_desc vr) (vr_num vr) head
                    (map_option start_iov riov) (if riov = None then map_option start_iov wiov else wiov) of
               None \<Rightarrow> None
             | Some (Inl e, r, w) \<Rightarrow> Some (Inl e, Some head, vrh1, r, w)
             | Some (Inr _, r, w) \<Rightarrow> Some (Inr (Some head), Some head, vrh1, r, w)))"

definition vca_vringh_abandon_kern :: "vringh \<Rightarrow> u32 \<Rightarrow> vringh" where
  "vca_vringh_abandon_kern vrh num = vrh\<lparr>last_avail_idx := last_avail_idx vrh - ucast num\<rparr>"

section \<open>Returning a buffer\<close>

definition vringh_complete :: "vring \<Rightarrow> vringh \<Rightarrow> vring_used_elem list \<Rightarrow> vring \<times> vringh" where
  "vringh_complete vr vrh us =
     (let idx = ucast (ucast (h_last_used_idx vrh) + completed vrh) :: u16;
          off = unat (ucast idx mod vr_num vr);
          num = unat (vr_num vr);
          ring = (if 1 < length us \<and> num \<le> off + length us
                  then splice 0 (drop (num - off) us) (splice off (take (num - off) us) (used_ring vr))
                  else splice off us (used_ring vr))
      in (vr\<lparr>used_ring := ring, used_idx := idx + word_of_nat (length us)\<rparr>,
          vrh\<lparr>completed := completed vrh + word_of_nat (length us)\<rparr>))"

definition vca_vringh_complete_kern :: "vring \<Rightarrow> vringh \<Rightarrow> u16 \<Rightarrow> u32 \<Rightarrow> vring \<times> vringh" where
  "vca_vringh_complete_kern vr vrh head len = vringh_complete vr vrh [\<lparr>ue_id = ucast head, ue_len = len\<rparr>]"

definition vca_vringh_need_notify_kern :: "vring \<Rightarrow> vringh \<Rightarrow> bool \<times> vringh" where
  "vca_vringh_need_notify_kern vr vrh =
     (if \<not> event_indices vrh then (avail_flags vr AND VRING_AVAIL_F_NO_INTERRUPT = 0, vrh)
      else
        (0xffff < completed vrh \<or>
           vring_need_event (used_event vr) (ucast (ucast (h_last_used_idx vrh) + completed vrh)) (h_last_used_idx vrh),
         vrh\<lparr>h_last_used_idx := ucast (ucast (h_last_used_idx vrh) + completed vrh), completed := 0\<rparr>))"

definition vca_vringh_notify_enable_kern :: "vring \<Rightarrow> vringh \<Rightarrow> bool \<times> vring" where
  "vca_vringh_notify_enable_kern vr vrh =
     (avail_idx vr = last_avail_idx vrh,
      if event_indices vrh then vr\<lparr>avail_event := last_avail_idx vrh\<rparr> else vr\<lparr>used_flags := 0\<rparr>)"

definition vca_vringh_notify_disable_kern :: "vring \<Rightarrow> vringh \<Rightarrow> vring" where
  "vca_vringh_notify_disable_kern vr vrh =
     (if event_indices vrh then vr else vr\<lparr>used_flags := VRING_USED_F_NO_NOTIFY\<rparr>)"

end
