(* ===== verification/Vringh_Safe.thy ===== *)
theory Vringh_Safe
  imports Vringh
begin

unbundle bit_operations_syntax

text \<open>
  What the host collects when the guest has written anything at all into the memory of a ring: the walk
  ends, stays within the ring and the vector, and takes at most as many descriptors as the ring has.
\<close>

section \<open>The vector\<close>

text \<open>A vector has the number of elements that it names.\<close>

definition kiov_ok :: "vringh_kiov \<Rightarrow> bool" where
  "kiov_ok k \<longleftrightarrow> length (kv_iov k) = unat (kv_max_num k AND NOT VRINGH_IOV_ALLOCATED) \<and> length (kv_iov k) \<le> 65536"

definition kiov_elems :: "vringh_kiov \<Rightarrow> kvec list" where
  "kiov_elems k = take (unat (kv_used k)) (kv_iov k)"

lemma allocated_size:
  assumes "unat (n :: u32) < 2 ^ 27"
  shows "(n OR VRINGH_IOV_ALLOCATED) AND NOT VRINGH_IOV_ALLOCATED = n"
proof (rule bit_word_eqI)
  fix i
  have "\<not> bit (unat n) 27" using take_bit_nat_eq_self [OF assms] bit_take_bit_iff [of 27 "unat n" 27] by simp
  then have b: "\<not> bit n 27" by (simp add: bit_unsigned_iff)
  have e: "VRINGH_IOV_ALLOCATED = 2 ^ 27" by (simp add: VRINGH_IOV_ALLOCATED_def)
  have "bit VRINGH_IOV_ALLOCATED i \<longleftrightarrow> i = 27" unfolding e bit_exp_iff by auto
  moreover assume "i < LENGTH(32)"
  ultimately show "bit ((n OR VRINGH_IOV_ALLOCATED) AND NOT VRINGH_IOV_ALLOCATED) i = bit n i"
    using b by (auto simp: bit_and_iff bit_or_iff bit_not_iff)
qed

lemma resize_ok:
  assumes "kiov_ok k" "ie_alloc ie" "length (kv_iov k) \<le> 32768"
  shows "\<exists>k'. resize_iovec ie k = Some k' \<and> kiov_ok k' \<and> kv_used k' = kv_used k \<and> kv_i k' = kv_i k \<and>
    length (kv_iov k) < length (kv_iov k') \<and> take (length (kv_iov k)) (kv_iov k') = kv_iov k"
proof -
  define c where "c = kv_max_num k AND NOT VRINGH_IOV_ALLOCATED"
  define n where "n = (if c * 2 < 8 then 8 else c * 2)"
  have c: "unat c = length (kv_iov k)" using assms(1) by (simp add: kiov_ok_def c_def)
  then have c2: "unat (c * 2) = 2 * length (kv_iov k)" using assms(3) by (simp add: unat_word_ariths)
  have n: "unat n = max 8 (2 * length (kv_iov k))" using c2 by (simp add: n_def word_less_nat_alt max_def)
  have "(n OR VRINGH_IOV_ALLOCATED) AND NOT VRINGH_IOV_ALLOCATED = n" using n assms(3) by (intro allocated_size) simp
  then show ?thesis using assms(2,3) n
    by (simp add: resize_iovec_def Let_def c_def [symmetric] n_def [symmetric] kiov_ok_def)
qed

lemma iov_put_ok:
  assumes "kiov_ok k" "ie_alloc ie" "unat (kv_used k) \<le> length (kv_iov k)" "unat (kv_used k) < 32768"
  shows "\<exists>k'. iov_put ie d k = Some (Inr k') \<and> kiov_ok k' \<and> unat (kv_used k') = Suc (unat (kv_used k)) \<and>
    unat (kv_used k') \<le> length (kv_iov k') \<and> kiov_elems k' = kiov_elems k @ [\<lparr>iov_base = d_addr d, iov_len = ucast (d_len d)\<rparr>]"
proof -
  have "\<exists>k1. (if kv_used k = kv_max_num k AND NOT VRINGH_IOV_ALLOCATED then resize_iovec ie k else Some k) = Some k1 \<and>
      kiov_ok k1 \<and> kv_used k1 = kv_used k \<and> unat (kv_used k) < length (kv_iov k1) \<and> kiov_elems k1 = kiov_elems k"
  proof (cases "kv_used k = kv_max_num k AND NOT VRINGH_IOV_ALLOCATED")
    case True
    then have l: "length (kv_iov k) = unat (kv_used k)" using assms(1) by (simp add: kiov_ok_def)
    from resize_ok [OF assms(1,2)] show ?thesis using l assms(4) True by (auto simp: kiov_elems_def)
  next
    case False
    then have "unat (kv_used k) \<noteq> length (kv_iov k)" using assms(1) unat_inj by (auto simp: kiov_ok_def)
    then show ?thesis using False assms(1,3) by auto
  qed
  then obtain k1 where k1: "(if kv_used k = kv_max_num k AND NOT VRINGH_IOV_ALLOCATED then resize_iovec ie k else Some k) = Some k1"
    "kiov_ok k1" "kv_used k1 = kv_used k" "unat (kv_used k) < length (kv_iov k1)" "kiov_elems k1 = kiov_elems k" by blast
  have u: "unat (kv_used k + 1) = Suc (unat (kv_used k))" using assms(4) by (simp add: unat_word_ariths)
  show ?thesis using k1 u
    by (auto simp: iov_put_def kiov_ok_def kiov_elems_def take_Suc_conv_app_nth)
qed

text \<open>Room for \<open>n\<close> more descriptors, where the allocation of a larger vector may fail.\<close>

definition iov_count :: "vringh_kiov option \<Rightarrow> nat" where
  "iov_count k = (case k of None \<Rightarrow> 0 | Some v \<Rightarrow> unat (kv_used v))"

definition iov_room :: "nat \<Rightarrow> vringh_kiov option \<Rightarrow> bool" where
  "iov_room n k \<longleftrightarrow>
     (case k of None \<Rightarrow> True
      | Some v \<Rightarrow> kiov_ok v \<and> unat (kv_used v) \<le> length (kv_iov v) \<and> unat (kv_used v) + n \<le> 32768)"

lemma iov_room_le: "iov_room n k \<Longrightarrow> m \<le> n \<Longrightarrow> iov_room m k"
  by (auto simp: iov_room_def split: option.splits)

lemma iov_put_fails:
  assumes "\<not> ie_alloc ie"
  shows "iov_put ie d k = (if kv_used k = kv_max_num k AND NOT VRINGH_IOV_ALLOCATED then Some (Inl ENOMEM)
    else iov_put (ie\<lparr>ie_alloc := True\<rparr>) d k)"
  using assms by (auto simp: iov_put_def resize_iovec_def Let_def)

lemma iov_put_cases:
  assumes "iov_room n (Some k)" "0 < n"
  obtains e where "iov_put ie d k = Some (Inl e)"
  | k1 where "iov_put ie d k = Some (Inr k1)" "iov_room (n - 1) (Some k1)" "iov_count (Some k1) = Suc (iov_count (Some k))"
proof -
  have "\<exists>k1. iov_put ie' d k = Some (Inr k1) \<and> iov_room (n - 1) (Some k1) \<and> iov_count (Some k1) = Suc (iov_count (Some k))"
    if "ie_alloc ie'" for ie'
    using iov_put_ok [of k ie' d] assms that by (auto simp: iov_room_def iov_count_def)
  from this [of ie] this [of "ie\<lparr>ie_alloc := True\<rparr>"] iov_put_fails [of ie d k] show thesis
    using that by (cases "ie_alloc ie") (auto split: if_splits)
qed

section \<open>The walk\<close>

text \<open>
  The tables that the descriptors of the ring name can be read: each has the elements that the length of its
  descriptor gives, and the first one, which the walk reads before it looks at the number.
\<close>

definition indirect_readable :: "(u64 \<Rightarrow> vring_desc list option) \<Rightarrow> vring \<Rightarrow> bool" where
  "indirect_readable tables vr \<longleftrightarrow>
     (\<forall>d \<in> set (vr_desc vr). d_flags d AND VRING_DESC_F_INDIRECT \<noteq> 0 \<longrightarrow>
        (case tables (d_addr d) of None \<Rightarrow> False | Some tb \<Rightarrow> 0 < length tb \<and> unat (d_len d div 16) \<le> length tb))"

definition in_table :: "vring_desc list \<Rightarrow> u32 \<Rightarrow> u16 \<Rightarrow> bool" where
  "in_table ds desc_max i \<longleftrightarrow> unat i < length ds \<and> unat desc_max \<le> length ds"

lemma in_table_next: "unat n \<le> length ds \<Longrightarrow> \<not> n \<le> ucast (x :: u16) \<Longrightarrow> in_table ds n x"
proof -
  have "unat (ucast x :: u32) = unat x" by (simp add: unsigned_ucast_eq take_bit_nat_eq_self less_trans [OF u16_less])
  then show "unat n \<le> length ds \<Longrightarrow> \<not> n \<le> ucast x \<Longrightarrow> in_table ds n x"
    by (simp add: in_table_def word_le_nat_alt)
qed

definition walk_ok :: "bool \<Rightarrow> nat \<Rightarrow> (unit res \<times> vringh_kiov option \<times> vringh_kiov option) option \<Rightarrow> bool" where
  "walk_ok ok n x \<longleftrightarrow> (case x of None \<Rightarrow> \<not> ok | Some (r, a, b) \<Rightarrow> iov_count a + iov_count b \<le> n)"

lemma walk_ok_simps [simp]:
  "walk_ok ok n None \<longleftrightarrow> \<not> ok"
  "walk_ok ok n (Some (r, a, b)) \<longleftrightarrow> iov_count a + iov_count b \<le> n"
  by (simp_all add: walk_ok_def)

lemma vringh_iov_bounded:
  assumes len: "length (vr_desc vr) = unat (vr_num vr)"
  shows "up_next = -1 \<longrightarrow> ds = vr_desc vr \<Longrightarrow> indirect_readable tables vr \<longrightarrow> in_table ds desc_max i \<Longrightarrow>
    iov_room left riov \<Longrightarrow> iov_room left wiov \<Longrightarrow>
    walk_ok (indirect_readable tables vr) (iov_count riov + iov_count wiov + left)
      (vringh_iov ie tables vr left up_next ds desc_max i riov wiov)"
proof (induction "2 * left + (if up_next = -1 then 1 else 0)" arbitrary: left up_next ds desc_max i riov wiov rule: less_induct)
  case less
  define d where "d = ds ! unat i"
  note IH = less.hyps
  let ?ok = "walk_ok (indirect_readable tables vr) (iov_count riov + iov_count wiov + left)"
  show ?case
  proof (cases "length ds \<le> unat i")
    case True
    then show ?thesis using less.prems(2) by (subst vringh_iov.simps) (auto simp: in_table_def)
  next
    case i: False
    then have din: "d \<in> set ds" by (simp add: d_def)
    show ?thesis
    proof (cases "d_flags d AND VRING_DESC_F_INDIRECT \<noteq> 0")
      case ind: True
      have "?ok (vringh_iov ie tables vr left up tb n 0 riov wiov)"
        if "move_to_indirect up_next d = Inr (up, n)" "tables (d_addr d) = Some tb" for up n tb
      proof -
        have up: "up_next = -1" "up \<noteq> -1" "n = d_len d div 16"
          using that uint_not_minus_1 by (auto simp: move_to_indirect_def split: if_splits)
        then have "indirect_readable tables vr \<longrightarrow> in_table tb n 0"
          using that(2) ind din less.prems(1) by (auto simp: indirect_readable_def in_table_def)
        then show ?thesis using IH [of left up tb n 0 riov wiov] up less.prems(3,4) by simp
      qed
      moreover have "\<not> indirect_readable tables vr" if "move_to_indirect up_next d = Inr (up, n)" "tables (d_addr d) = None" for up n
        using that ind din less.prems(1) by (fastforce simp: indirect_readable_def move_to_indirect_def split: if_splits)
      ultimately show ?thesis using ind i
        by (subst vringh_iov.simps) (auto simp: Let_def d_def [symmetric] split: sum.splits prod.splits option.splits)
    next
      case False
      define w where "w \<longleftrightarrow> d_flags d AND VRING_DESC_F_WRITE \<noteq> 0"
      define early where "early \<longleftrightarrow> \<not> w \<and> (case wiov of None \<Rightarrow> False | Some k \<Rightarrow> kv_i k \<noteq> 0)"
      note unfold_walk = Let_def d_def [symmetric] w_def [symmetric] early_def [symmetric]
      show ?thesis
      proof (cases "left = 0 \<or> early \<or> (if w then wiov else riov) = None")
        case True
        then show ?thesis using False i by (subst vringh_iov.simps) (auto simp: unfold_walk)
      next
        case rest: False
        then obtain k where k: "(if w then wiov else riov) = Some k" and left: "0 < left" "\<not> early" by auto
        then have "iov_room left (Some k)" using less.prems(3,4) by (cases w) auto
        then show ?thesis
        proof (rule iov_put_cases [OF _ left(1), of k ie d])
          fix e assume "iov_put ie d k = Some (Inl e)"
          then show ?thesis using False i k left by (subst vringh_iov.simps) (simp add: unfold_walk)
        next
          fix k1 assume k1: "iov_put ie d k = Some (Inr k1)" "iov_room (left - 1) (Some k1)"
            "iov_count (Some k1) = Suc (iov_count (Some k))"
          define r1 where "r1 = (if w then riov else Some k1)"
          define w1 where "w1 = (if w then Some k1 else wiov)"
          have cnt: "iov_count r1 + iov_count w1 = Suc (iov_count riov + iov_count wiov)"
            using k1(3) k by (auto simp: r1_def w1_def split: if_splits)
          have room: "iov_room (left - 1) r1" "iov_room (left - 1) w1"
            using k1(2) less.prems(3,4) by (auto simp: r1_def w1_def intro: iov_room_le)
          have on: "?ok (vringh_iov ie tables vr (left - 1) up_next ds desc_max (d_next d) r1 w1)"
            if "\<not> desc_max \<le> ucast (d_next d)"
          proof -
            have "indirect_readable tables vr \<longrightarrow> in_table ds desc_max (d_next d)"
              using less.prems(2) in_table_next [OF _ that] by (auto simp: in_table_def)
            then show ?thesis using IH [of "left - 1" up_next ds desc_max "d_next d" r1 w1] less.prems(1) room left cnt by simp
          qed
          have up: "?ok (vringh_iov ie tables vr (left - 1) (-1) (vr_desc vr) (vr_num vr) (word_of_int up_next) r1 w1)"
            if "\<not> vr_num vr \<le> ucast (word_of_int up_next :: u16)" "0 < up_next"
            using IH [of "left - 1" "-1" "vr_desc vr" "vr_num vr" "word_of_int up_next" r1 w1] in_table_next [OF _ that(1)]
              that(2) len room left cnt by simp
          show ?thesis using False i k left k1(1) cnt on up
            by (subst vringh_iov.simps) (auto simp: unfold_walk r1_def [symmetric] w1_def [symmetric])
        qed
      qed
    qed
  qed
qed

text \<open>C20: the guest may have written anything into a ring of a size that the initialisation accepts. If the
  indirect tables that its descriptors name can be read, then the search of the host for the descriptors of a
  buffer into a well-formed vector returns, and leaves neither the ring nor the tables nor the vector. In
  every case in which it returns, it has collected at most as many descriptors as the ring has. The search
  does not check the addresses of the indirect tables, so one that is not mapped stops the host.\<close>

theorem getdesc_bounded:
  assumes "length (vr_desc vr) = unat (vr_num vr)" "unat (vr_num vr) \<le> 32768" "kiov_ok k"
    and "(riov, wiov) = (Some k, None) \<or> (riov, wiov) = (None, Some k)"
  shows "case vca_vringh_getdesc_kern ie tables vr vrh riov wiov of
      None \<Rightarrow> \<not> indirect_readable tables vr
    | Some (r, head, h, riov', wiov') \<Rightarrow> head \<noteq> None \<longrightarrow> iov_count riov' + iov_count wiov' \<le> unat (vr_num vr)"
proof (cases "vringh_get_head vr vrh")
  case (Pair r h)
  consider e where "r = Inl e" | "r = Inr None" | head where "r = Inr (Some head)" by (metis option.exhaust sum.exhaust)
  then show ?thesis
  proof cases
    case 3
    then have "\<not> vr_num vr \<le> ucast head"
      using Pair by (auto simp: vringh_get_head_def Let_def split: if_splits)
    then have "in_table (vr_desc vr) (vr_num vr) head" using in_table_next assms(1) by simp
    note W = vringh_iov_bounded [OF assms(1), of "-1" "vr_desc vr" tables "vr_num vr" head "unat (vr_num vr)"
        "map_option start_iov riov" "map_option start_iov wiov" ie, OF _ impI, OF _ this]
    have "iov_room (unat (vr_num vr)) (map_option start_iov x)" "iov_count (map_option start_iov x) = 0" if "x \<in> {riov, wiov}" for x
      using that assms(2-4) by (auto simp: iov_room_def iov_count_def start_iov_def kiov_ok_def)
    with W have "walk_ok (indirect_readable tables vr) (unat (vr_num vr))
      (vringh_iov ie tables vr (unat (vr_num vr)) (-1) (vr_desc vr) (vr_num vr) head (map_option start_iov riov) (map_option start_iov wiov))"
      by simp
    then show ?thesis using Pair 3 assms(4)
      by (auto simp: vca_vringh_getdesc_kern_def walk_ok_def split: option.splits sum.splits)
  qed (use Pair in \<open>simp_all add: vca_vringh_getdesc_kern_def\<close>)
qed

text \<open>A descriptor whose successor is itself, in a ring without indirect tables.\<close>

definition loop_vring :: vring where
  "loop_vring = \<lparr>vr_num = 1, vr_desc = [\<lparr>d_addr = 0, d_len = 8, d_flags = VRING_DESC_F_NEXT, d_next = 0\<rparr>], avail_flags = 0, avail_idx = 1,
     avail_ring = [0], used_event = 0, used_flags = 0, used_idx = 0, used_ring = [\<lparr>ue_id = 0, ue_len = 0\<rparr>], avail_event = 0\<rparr>"

theorem getdesc_bounded_witness:
  "\<exists>r head h riov' wiov'. vca_vringh_getdesc_kern \<lparr>ie_alloc = True, ie_garbage = \<lparr>iov_base = 0, iov_len = 0\<rparr>\<rparr> (\<lambda>_. None) loop_vring
     \<lparr>event_indices = False, last_avail_idx = 0, h_last_used_idx = 0, completed = 0\<rparr> (Some vringh_kiov_init) None =
       Some (r, head, h, riov', wiov') \<and> (head \<noteq> None \<longrightarrow> iov_count riov' + iov_count wiov' \<le> 1)"
proof -
  have "indirect_readable (\<lambda>_. None) loop_vring" "kiov_ok vringh_kiov_init"
    by (simp_all add: indirect_readable_def loop_vring_def VRING_DESC_F_NEXT_def VRING_DESC_F_INDIRECT_def kiov_ok_def vringh_kiov_init_def)
  moreover have "unat (vr_num loop_vring) = 1" "length (vr_desc loop_vring) = 1" by (simp_all add: loop_vring_def)
  ultimately show ?thesis
    using getdesc_bounded [of loop_vring vringh_kiov_init "Some vringh_kiov_init" None "\<lambda>_. None"
        "\<lparr>ie_alloc = True, ie_garbage = \<lparr>iov_base = 0, iov_len = 0\<rparr>\<rparr>" "\<lparr>event_indices = False, last_avail_idx = 0, h_last_used_idx = 0, completed = 0\<rparr>"]
    by (auto split: option.splits)
qed

end
