(* ===== verification/Virtio_Queue.thy ===== *)
theory Virtio_Queue
  imports Virtio_Ring_Facts Vringh_Safe Vca_Runs
begin

unbundle bit_operations_syntax

text \<open>
  Both users of a queue of the virtual network together. A step is a buffer that the guest adds, a buffer that the
  host takes or returns, or a buffer that the guest gets back. The queue refines lists of buffers: they are
  taken in the order in which they were added, with the addresses and lengths of the guest, and the guest
  gets them back in the order in which they are returned, each once and with its token.
\<close>

section \<open>Collecting the descriptors of a buffer\<close>

definition kvec_of :: "vq_entry \<Rightarrow> kvec" where
  "kvec_of e = \<lparr>iov_base = fst e, iov_len = ucast (fst (snd e))\<rparr>"

text \<open>The vectors of the two directions.\<close>

definition riov_of :: "bool \<Rightarrow> vringh_kiov \<Rightarrow> vringh_kiov option" where
  "riov_of w k = (if w then None else Some k)"

definition wiov_of :: "bool \<Rightarrow> vringh_kiov \<Rightarrow> vringh_kiov option" where
  "wiov_of w k = (if w then Some k else None)"

lemma vringh_iov_chain:
  assumes "vchain (vr_desc vr) cs es" "set cs \<subseteq> {..<unat (vr_num vr)}" "length (vr_desc vr) = unat (vr_num vr)"
    "unat (vr_num vr) \<le> 32768" "length cs \<le> left" "\<forall>e \<in> set es. snd (snd e) = w" "kiov_ok k" "ie_alloc ie"
    "unat (kv_used k) \<le> length (kv_iov k)" "unat (kv_used k) + length cs \<le> 32768"
  shows "\<exists>k'. vringh_iov ie tables vr left (-1) (vr_desc vr) (vr_num vr) (word_of_nat (hd cs)) (riov_of w k) (wiov_of w k) =
      Some (Inr (), riov_of w k', wiov_of w k') \<and> kiov_ok k' \<and> kiov_elems k' = kiov_elems k @ map kvec_of es"
  using assms
proof (induction cs arbitrary: es left k)
  case (Cons a cs)
  define d where "d = vr_desc vr ! a"
  have aw: "unat (word_of_nat a :: u16) = a" "a < length (vr_desc vr)" using Cons.prems(2,3,4) by (auto simp: unat_of_nat)
  obtain e es' where es: "es = e # es'" using Cons.prems(1) by (cases es) auto
  have dd: "desc_is d e (cs \<noteq> [])" using Cons.prems(1) by (cases cs; cases es') (auto simp: es d_def)
  note t = desc_is_tests [OF dd]
  have w: "snd (snd e) = w" using Cons.prems(6) by (simp add: es)
  obtain k1 where k1: "iov_put ie d k = Some (Inr k1)" "kiov_ok k1" "unat (kv_used k1) = Suc (unat (kv_used k))"
    "unat (kv_used k1) \<le> length (kv_iov k1)" "kiov_elems k1 = kiov_elems k @ [\<lparr>iov_base = d_addr d, iov_len = ucast (d_len d)\<rparr>]"
    using iov_put_ok [OF Cons.prems(7,8,9), of d] Cons.prems(10) by auto
  have el: "\<lparr>iov_base = d_addr d, iov_len = ucast (d_len d)\<rparr> = kvec_of e" using dd by (simp add: desc_is_def kvec_of_def)
  have left: "left \<noteq> 0" using Cons.prems(5) by auto
  have step: "vringh_iov ie tables vr left (-1) (vr_desc vr) (vr_num vr) (word_of_nat a) (riov_of w k) (wiov_of w k) =
      (if cs \<noteq> [] then if vr_num vr \<le> ucast (d_next d) then Some (Inl EINVAL, riov_of w k1, wiov_of w k1)
         else vringh_iov ie tables vr (left - 1) (-1) (vr_desc vr) (vr_num vr) (d_next d) (riov_of w k1) (wiov_of w k1)
       else Some (Inr (), riov_of w k1, wiov_of w k1))"
    using aw t w k1(1) left
    by (subst vringh_iov.simps) (simp add: d_def [symmetric] Let_def riov_of_def wiov_of_def)
  show ?case
  proof (cases cs)
    case Nil
    then have "es' = []" using vchain_lengths [OF Cons.prems(1)] es by simp
    then show ?thesis using step Nil k1 el es by auto
  next
    case (Cons b cs')
    have c: "vchain (vr_desc vr) cs es'" "unat (d_next d) = b" using Cons.prems(1) by (auto simp: es Cons d_def)
    have "b < unat (vr_num vr)" using Cons.prems(2) Cons by auto
    then have "\<not> vr_num vr \<le> ucast (d_next d)"
      using c(2) Cons.prems(4) by (simp add: word_le_nat_alt unsigned_ucast_eq take_bit_nat_eq_self)
    moreover have "d_next d = word_of_nat (hd cs)" using c(2) Cons by (simp add: word_unat_eq_iff unat_of_nat) (metis u16_less mod_less)
    ultimately show ?thesis
      using step Cons.IH [OF c(1) _ Cons.prems(3,4), of "left - 1" k1] Cons.prems Cons k1 el es by auto
  qed
qed simp

section \<open>Both users\<close>

text \<open>The memory of the ring is that of the guest. \<open>q_held\<close> are the buffers that the host has taken and not returned.\<close>

record 't vqueue =
  q_vq :: "'t vring_virtqueue"
  q_host :: vringh
  q_held :: "u16 list"

definition q_add :: "vq_env \<Rightarrow> bool \<Rightarrow> sg_entry list \<Rightarrow> u32 \<Rightarrow> 't \<Rightarrow> 't vqueue \<Rightarrow> (unit res \<times> 't vqueue) option" where
  "q_add env w sg num t q =
     map_option (\<lambda>(r, vq). (r, q\<lparr>q_vq := vq\<rparr>))
       (if w then vca_virtqueue_add_inbuf env (q_vq q) sg num t else vca_virtqueue_add_outbuf env (q_vq q) sg num t)"

definition q_take :: "iov_env \<Rightarrow> bool \<Rightarrow> vringh_kiov \<Rightarrow> 't vqueue \<Rightarrow> (u16 option res \<times> vringh_kiov option \<times> 't vqueue) option" where
  "q_take ie w k q =
     map_option (\<lambda>(r, _, vrh, riov, wiov).
         (r, if w then wiov else riov,
          q\<lparr>q_host := vrh, q_held := q_held q @ (case r of Inr (Some h) \<Rightarrow> [h] | _ \<Rightarrow> [])\<rparr>))
       (vca_vringh_getdesc_kern ie (vq_tables (q_vq q)) (vq_vring (q_vq q)) (q_host q) (riov_of w k) (wiov_of w k))"

definition q_finish :: "u16 \<Rightarrow> u32 \<Rightarrow> 't vqueue \<Rightarrow> 't vqueue" where
  "q_finish h len q =
     (case vca_vringh_complete_kern (vq_vring (q_vq q)) (q_host q) h len of
        (vr, vrh) \<Rightarrow> q\<lparr>q_vq := (q_vq q)\<lparr>vq_vring := vr\<rparr>, q_host := vrh, q_held := remove1 h (q_held q)\<rparr>)"

definition q_need_notify :: "'t vqueue \<Rightarrow> bool \<times> 't vqueue" where
  "q_need_notify q =
     (case vca_vringh_need_notify_kern (vq_vring (q_vq q)) (q_host q) of (b, vrh) \<Rightarrow> (b, q\<lparr>q_host := vrh\<rparr>))"

definition q_get :: "'t vqueue \<Rightarrow> (('t \<times> u32) option \<times> 't vqueue) option" where
  "q_get q = map_option (\<lambda>(r, vq). (r, q\<lparr>q_vq := vq\<rparr>)) (vca_virtqueue_get_buf (q_vq q))"

datatype 't q_label = QAdd 't "vq_entry list" | QFull nat | QTake u16 "kvec list" | QFinish u16 u32 | QNotify bool | QGet 't u32

text \<open>
  The buffers of a queue are all of one direction, \<open>w\<close> for the queue of the receiver. Mappings succeed, the
  transport takes notifications, and there is memory for vectors.
\<close>

definition env_works :: "vq_env \<Rightarrow> bool" where
  "env_works env \<longleftrightarrow> (\<forall>a l. ve_map env a l \<noteq> 0) \<and> ve_notify env"

inductive q_step :: "bool \<Rightarrow> 't vqueue \<Rightarrow> 't q_label \<Rightarrow> 't vqueue \<Rightarrow> bool" for w where
  q_step_add: "env_works env \<Longrightarrow> sg_ready (q_vq q) sg num \<Longrightarrow> q_add env w sg num t q = Some (Inr (), q') \<Longrightarrow>
    q_step w q (QAdd t (sg_entries env (vq_dma_map (q_vq q)) w sg num)) q'"
| q_step_full: "env_works env \<Longrightarrow> sg_ready (q_vq q) sg num \<Longrightarrow> num \<le> vr_num (vq_vring (q_vq q)) \<Longrightarrow>
    q_add env w sg num t q = Some (Inl ENOSPC, q') \<Longrightarrow> q_step w q (QFull (unat num)) q'"
| q_step_take: "kiov_ok k \<Longrightarrow> ie_alloc ie \<Longrightarrow> q_take ie w k q = Some (Inr (Some h), Some k', q') \<Longrightarrow>
    q_step w q (QTake h (kiov_elems k')) q'"
| q_step_finish: "h \<in> set (q_held q) \<Longrightarrow> q_step w q (QFinish h len) (q_finish h len q)"
| q_step_notify: "q_step w q (QNotify (fst (q_need_notify q))) (snd (q_need_notify q))"
| q_step_get: "q_get q = Some (Some (t, len), q') \<Longrightarrow> q_step w q (QGet t len) q'"

section \<open>The lists of buffers\<close>

record 't aqueue =
  aq_avail :: "(u16 \<times> 't \<times> vq_entry list) list"
  aq_held :: "(u16 \<times> 't \<times> vq_entry list) list"
  aq_used :: "(u16 \<times> 't \<times> vq_entry list \<times> u32) list"

text \<open>The number of descriptors in use, and the first descriptors of the buffers.\<close>

definition aq_size :: "'t aqueue \<Rightarrow> nat" where
  "aq_size a = sum_list (map (\<lambda>(h, t, es). length es) (aq_avail a @ aq_held a)) + sum_list (map (\<lambda>(h, t, es, l). length es) (aq_used a))"

definition aq_heads :: "'t aqueue \<Rightarrow> u16 set" where
  "aq_heads a = fst ` set (aq_avail a @ aq_held a) \<union> fst ` set (aq_used a)"

inductive aq_step :: "nat \<Rightarrow> 't aqueue \<Rightarrow> 't q_label \<Rightarrow> 't aqueue \<Rightarrow> bool" for n where
  aq_add: "h \<notin> aq_heads a \<Longrightarrow> es \<noteq> [] \<Longrightarrow> aq_size a + length es \<le> n \<Longrightarrow>
    aq_step n a (QAdd t es) (a\<lparr>aq_avail := aq_avail a @ [(h, t, es)]\<rparr>)"
| aq_full: "n < aq_size a + k \<Longrightarrow> aq_step n a (QFull k) a"
| aq_take: "aq_avail a = (h, t, es) # av \<Longrightarrow>
    aq_step n a (QTake h (map kvec_of es)) (a\<lparr>aq_avail := av, aq_held := aq_held a @ [(h, t, es)]\<rparr>)"
| aq_finish: "(h, t, es) \<in> set (aq_held a) \<Longrightarrow>
    aq_step n a (QFinish h len) (a\<lparr>aq_held := remove1 (h, t, es) (aq_held a), aq_used := aq_used a @ [(h, t, es, len)]\<rparr>)"
| aq_notify: "aq_step n a (QNotify b) a"
| aq_get: "aq_used a = (h, t, es, len) # us \<Longrightarrow> aq_step n a (QGet t len) (a\<lparr>aq_used := us\<rparr>)"

section \<open>The relation\<close>

definition head_of :: "'t buf \<Rightarrow> u16" where
  "head_of b = word_of_nat (hd (b_chain b))"

definition buf_view :: "'t buf \<Rightarrow> u16 \<times> 't \<times> vq_entry list" where
  "buf_view b = (head_of b, b_token b, b_entries b)"

definition used_view :: "'t buf \<times> u32 \<Rightarrow> u16 \<times> 't \<times> vq_entry list \<times> u32" where
  "used_view p = (head_of (fst p), b_token (fst p), b_entries (fst p), snd p)"

definition used_elem :: "'t buf \<times> u32 \<Rightarrow> vring_used_elem" where
  "used_elem p = \<lparr>ue_id = word_of_nat (hd (b_chain (fst p))), ue_len = snd p\<rparr>"

text \<open>The buffers that are available, that the host holds, and that were returned; \<open>fs\<close> are the free descriptors.\<close>

definition q_inv :: "bool \<Rightarrow> 't vqueue \<Rightarrow> nat list \<Rightarrow> 't buf list \<Rightarrow> 't buf list \<Rightarrow> ('t buf \<times> u32) list \<Rightarrow> bool" where
  "q_inv w q fs av hb us \<longleftrightarrow>
     (let vr = vq_vring (q_vq q); n = unat (vr_num vr)
      in vq_inv (q_vq q) fs (av @ hb @ map fst us) \<and> \<not> vq_broken (q_vq q) \<and> \<not> vq_indirect (q_vq q) \<and>
         q_held q = map head_of hb \<and>
         fr_win n (avail_ring vr) (last_avail_idx (q_host q)) (avail_idx vr) = map head_of av \<and>
         fr_win n (used_ring vr) (vq_last_used_idx (q_vq q)) (used_idx vr) = map used_elem us \<and>
         ucast (ucast (h_last_used_idx (q_host q)) + completed (q_host q)) = used_idx vr \<and>
         (\<forall>b \<in> set av. \<forall>e \<in> set (b_entries b). snd (snd e) = w))"

definition q_abs :: "'t aqueue \<Rightarrow> 't buf list \<Rightarrow> 't buf list \<Rightarrow> ('t buf \<times> u32) list \<Rightarrow> bool" where
  "q_abs a av hb us \<longleftrightarrow> a = \<lparr>aq_avail = map buf_view av, aq_held = map buf_view hb, aq_used = map used_view us\<rparr>"

definition q_rel :: "nat \<Rightarrow> bool \<Rightarrow> 't vqueue \<Rightarrow> 't aqueue \<Rightarrow> bool" where
  "q_rel n w q a \<longleftrightarrow> unat (vr_num (vq_vring (q_vq q))) = n \<and> (\<exists>fs av hb us. q_inv w q fs av hb us \<and> q_abs a av hb us)"

lemma q_invD:
  assumes "q_inv w q fs av hb us"
  shows "vq_inv (q_vq q) fs (av @ hb @ map fst us)" "\<not> vq_broken (q_vq q)" "\<not> vq_indirect (q_vq q)"
    "q_held q = map head_of hb"
    "fr_win (unat (vr_num (vq_vring (q_vq q)))) (avail_ring (vq_vring (q_vq q))) (last_avail_idx (q_host q)) (avail_idx (vq_vring (q_vq q))) =
       map head_of av"
    "fr_win (unat (vr_num (vq_vring (q_vq q)))) (used_ring (vq_vring (q_vq q))) (vq_last_used_idx (q_vq q)) (used_idx (vq_vring (q_vq q))) =
       map used_elem us"
    "ucast (ucast (h_last_used_idx (q_host q)) + completed (q_host q)) = used_idx (vq_vring (q_vq q))"
    "\<forall>b \<in> set av. \<forall>e \<in> set (b_entries b). snd (snd e) = w"
  using assms by (simp_all add: q_inv_def Let_def)

lemma length_le_sum: "\<forall>x \<in> set xs. 0 < f x \<Longrightarrow> length xs \<le> sum_list (map f xs)" for f :: "'a \<Rightarrow> nat"
  by (induction xs) auto

lemma vq_inv_count:
  assumes "vq_inv vq fs bs"
  shows "length fs + sum_list (map (length \<circ> b_entries) bs) = unat (vr_num (vq_vring vq))" "length fs + length bs \<le> unat (vr_num (vq_vring vq))"
proof -
  have "mset (fs @ concat (map b_chain bs)) = mset [0..<unat (vr_num (vq_vring vq))]" using assms by (simp add: vq_inv_def)
  then have "length (fs @ concat (map b_chain bs)) = length [0..<unat (vr_num (vq_vring vq))]" by (rule mset_eq_length)
  then have c: "length fs + sum_list (map (length \<circ> b_chain) bs) = unat (vr_num (vq_vring vq))"
    by (simp add: length_concat comp_def)
  have l: "length (b_chain b) = length (b_entries b) \<and> 0 < length (b_entries b)" if "b \<in> set bs" for b
    using assms that vchain_lengths by (fastforce simp: vq_inv_def buffers_in_def)
  then have "map (length \<circ> b_chain) bs = map (length \<circ> b_entries) bs" by simp
  with c show e: "length fs + sum_list (map (length \<circ> b_entries) bs) = unat (vr_num (vq_vring vq))" by simp
  have "length bs \<le> sum_list (map (length \<circ> b_entries) bs)"
    using length_le_sum [of bs "length \<circ> b_entries"] l by simp
  with e show "length fs + length bs \<le> unat (vr_num (vq_vring vq))" by linarith
qed

lemma head_unat:
  assumes "vq_inv vq fs bs" "b \<in> set bs"
  shows "unat (head_of b) = hd (b_chain b)" "hd (b_chain b) < unat (vr_num (vq_vring vq))"
proof -
  have "b_chain b \<noteq> []" using assms vchain_lengths by (fastforce simp: vq_inv_def buffers_in_def)
  then show h: "hd (b_chain b) < unat (vr_num (vq_vring vq))"
    using subsetD [OF vq_inv_indices(5) [OF assms] hd_in_set] by simp
  have "unat (vr_num (vq_vring vq)) < 65536" using assms(1) ring_dvd by (auto simp: vq_inv_def)
  with h show "unat (head_of b) = hd (b_chain b)" by (simp add: head_of_def unat_of_nat)
qed

lemma heads_distinct:
  assumes "vq_inv vq fs bs"
  shows "distinct (map head_of bs)"
proof -
  have "distinct (map (hd \<circ> b_chain) bs)"
  proof -
    have "\<forall>c \<in> set (map b_chain bs). c \<noteq> []" using assms vchain_lengths by (fastforce simp: vq_inv_def buffers_in_def)
    then have "distinct (map hd (map b_chain bs))" using vq_inv_indices(2) [OF assms]
    proof (induction "map b_chain bs" arbitrary: bs)
      case (Cons c cs)
      then obtain b bs' where bs: "bs = b # bs'" "c = b_chain b" "cs = map b_chain bs'" by auto
      have "hd c \<noteq> hd d" if "d \<in> set cs" for d
      proof -
        have "c \<noteq> []" "d \<noteq> []" using Cons.prems(1) that bs by auto
        then have "hd c \<in> set c" "hd d \<in> set d" by auto
        then show ?thesis using Cons.prems(2) that bs by auto
      qed
      then show ?case using Cons.hyps(1) [OF bs(3)] Cons.prems bs by auto
    qed simp
    then show ?thesis by simp
  qed
  moreover have "map (hd \<circ> b_chain) bs = map (unat \<circ> head_of) bs" using head_unat(1) [OF assms] by simp
  ultimately have "distinct (map (unat \<circ> head_of) bs)" by simp
  then show ?thesis by (auto simp: distinct_map intro: inj_on_imageI2)
qed

lemma abs_size:
  assumes "q_inv w q fs av hb us" "q_abs a av hb us"
  shows "aq_size a + length fs = unat (vr_num (vq_vring (q_vq q)))"
  using vq_inv_count(1) [OF q_invD(1) [OF assms(1)]] assms(2)
  by (simp add: q_abs_def aq_size_def buf_view_def used_view_def comp_def)

lemma abs_heads: "q_abs a av hb us \<Longrightarrow> aq_heads a = head_of ` set (av @ hb @ map fst us)"
  by (auto simp: q_abs_def aq_heads_def buf_view_def used_view_def image_Un image_image)

section \<open>One step\<close>

abbreviation ring_n :: "'t vqueue \<Rightarrow> nat" where
  "ring_n q \<equiv> unat (vr_num (vq_vring (q_vq q)))"

lemma q_sized:
  assumes "q_inv w q fs av hb us"
  shows "ring_sized (vq_vring (q_vq q))" "ring_n q dvd 65536" "ring_n q < 65536" "0 < ring_n q"
    "length (avail_ring (vq_vring (q_vq q))) = ring_n q" "length (used_ring (vq_vring (q_vq q))) = ring_n q"
proof -
  show s: "ring_sized (vq_vring (q_vq q))" using q_invD(1) [OF assms] by (simp add: vq_inv_def)
  from ring_dvd [OF s] s show "ring_n q dvd 65536" "ring_n q < 65536" "0 < ring_n q"
    "length (avail_ring (vq_vring (q_vq q))) = ring_n q" "length (used_ring (vq_vring (q_vq q))) = ring_n q"
    by (auto simp: ring_sized_def)
qed

lemma q_add_eq: "q_add env w sg num t q =
  map_option (\<lambda>(r, vq). (r, q\<lparr>q_vq := vq\<rparr>)) (virtqueue_add env (q_vq q) [sg] num (if w then 0 else 1) (if w then 1 else 0) t)"
  by (simp add: q_add_def vca_virtqueue_add_inbuf_def vca_virtqueue_add_outbuf_def)

lemma add_inv:
  assumes inv: "q_inv w q fs av hb us" and env: "env_works env" and ready: "sg_ready (q_vq q) sg num" and room: "unat num \<le> length fs"
  shows "\<exists>q'. q_add env w sg num t q = Some (Inr (), q') \<and> ring_n q' = ring_n q \<and>
    q_inv w q' (drop (unat num) fs) (av @ [\<lparr>b_chain = take (unat num) fs, b_token = t,
      b_entries = sg_entries env (vq_dma_map (q_vq q)) w sg num\<rparr>]) hb us" (is "\<exists>q'. _ \<and> _ \<and> q_inv w q' _ (av @ [?b]) hb us")
proof -
  note D = q_invD [OF inv] note S = q_sized [OF inv]
  have one: "one_list (if w then 0 else 1) (if w then 1 else 0) w" by (simp add: one_list_def)
  obtain vq' where vq': "virtqueue_add env (q_vq q) [sg] num (if w then 0 else 1) (if w then 1 else 0) t = Some (Inr (), vq')"
    "vq_inv vq' (drop (unat num) fs) ((av @ hb @ map fst us) @ [?b])"
    "vq_same (q_vq q) vq'" "vq_last_used_idx vq' = vq_last_used_idx (q_vq q)"
    "avail_idx (vq_vring vq') = avail_idx (vq_vring (q_vq q)) + 1"
    "avail_ring (vq_vring vq') = (avail_ring (vq_vring (q_vq q)))[avail_slot (vq_vring (q_vq q)) (avail_idx (vq_vring (q_vq q))) := word_of_nat (hd fs)]"
    "\<not> vq_broken vq'"
    using add_buf_ok [OF D(1-3) ready _ one room, of env t] env by (auto simp: env_works_def)
  have "vq_inv vq' (drop (unat num) fs) ((av @ [?b]) @ hb @ map fst us)"
    by (rule iffD1 [OF vq_inv_perm vq'(2)]) simp
  moreover have "0 < unat num" using ready by (auto simp: sg_ready_def unat_gt_0)
  then have hd: "hd (take (unat num) fs) = hd fs" "length av < ring_n q"
    using room vq_inv_count(2) [OF D(1)] by (auto simp: hd_take)
  have "unat (avail_idx (vq_vring (q_vq q)) - last_avail_idx (q_host q)) < ring_n q"
    using hd(2) arg_cong [OF D(5), of length] by simp
  note push = fr_win_push [OF S(2) this S(5,3), of "word_of_nat (hd fs)"]
  have "fr_win (ring_n q) (avail_ring (vq_vring vq')) (last_avail_idx (q_host q)) (avail_idx (vq_vring vq')) = map head_of (av @ [?b])"
    using push D(5) hd(1) by (simp add: vq'(5,6) avail_slot_def ring_slot [OF S(1)] head_of_def)
  moreover have "\<forall>e \<in> set (b_entries ?b). snd (snd e) = w" by (auto simp: sg_entries_def)
  ultimately show ?thesis
    using vq' D by (auto simp: q_add_eq q_inv_def Let_def vq_same_def)
qed

lemma add_full:
  assumes inv: "q_inv w q fs av hb us" and full: "length fs < unat num" and le: "num \<le> vr_num (vq_vring (q_vq q))"
  shows "\<exists>q'. q_add env w sg num t q = Some (Inl ENOSPC, q') \<and> ring_n q' = ring_n q \<and> q_inv w q' fs av hb us"
  using add_buf_full [OF q_invD(1-3) [OF inv] full le, of env "[sg]"] inv
  by (auto simp: q_add_eq q_inv_def Let_def vq_inv_def buffers_in_def)

lemma take_inv:
  assumes inv: "q_inv w q fs (b # av) hb us" and k: "kiov_ok k" "ie_alloc ie"
  shows "\<exists>k' q'. q_take ie w k q = Some (Inr (Some (head_of b)), Some k', q') \<and> kiov_elems k' = map kvec_of (b_entries b) \<and>
    ring_n q' = ring_n q \<and> q_inv w q' fs av (hb @ [b]) us"
proof -
  note D = q_invD [OF inv] note S = q_sized [OF inv]
  define vr where "vr = vq_vring (q_vq q)"
  have b: "b \<in> set ((b # av) @ hb @ map fst us)" by simp
  note hu = head_unat [OF D(1) b, folded vr_def]
  have ne: "last_avail_idx (q_host q) \<noteq> avail_idx vr" using D(5) by (auto simp: vr_def)
  have win: "avail_ring vr ! (unat (last_avail_idx (q_host q)) mod unat (vr_num vr)) = head_of b"
    "fr_win (unat (vr_num vr)) (avail_ring vr) (last_avail_idx (q_host q) + 1) (avail_idx vr) = map head_of av"
    using fr_win_pop [OF ne S(2) [folded vr_def], of "avail_ring vr"] D(5) by (auto simp: vr_def)
  have "\<not> vr_num vr \<le> ucast (head_of b)"
    using hu S(3) by (simp add: word_le_nat_alt unsigned_ucast_eq take_bit_nat_eq_self vr_def)
  then have head: "vringh_get_head vr (q_host q) =
      (Inr (Some (head_of b)), (q_host q)\<lparr>last_avail_idx := last_avail_idx (q_host q) + 1\<rparr>)"
    using ne win(1) by (simp add: vringh_get_head_def Let_def ring_slot [OF S(1) [folded vr_def]])
  have ch: "vchain (vr_desc vr) (b_chain b) (b_entries b)" using D(1) by (auto simp: vq_inv_def buffers_in_def vr_def)
  have len: "length (b_chain b) \<le> unat (vr_num vr)"
    using vq_inv_count(1) [OF D(1)] vchain_lengths [OF ch] by (simp add: vr_def)
  have dl: "length (vr_desc vr) = unat (vr_num vr)" "unat (vr_num vr) \<le> 32768"
    using S(1) ring_sized_num by (auto simp: ring_sized_def vr_def)
  have st: "kiov_ok (start_iov k)" "unat (kv_used (start_iov k)) = 0" "kiov_elems (start_iov k) = []"
    using k(1) by (simp_all add: kiov_ok_def start_iov_def kiov_elems_def)
  obtain k' where k': "vringh_iov ie (vq_tables (q_vq q)) vr (unat (vr_num vr)) (-1) (vr_desc vr) (vr_num vr) (head_of b)
      (riov_of w (start_iov k)) (wiov_of w (start_iov k)) = Some (Inr (), riov_of w k', wiov_of w k')"
    "kiov_elems k' = map kvec_of (b_entries b)"
    using vringh_iov_chain [OF ch vq_inv_indices(5) [OF D(1) b, folded vr_def] dl len, of w "start_iov k" ie "vq_tables (q_vq q)"]
      D(8) k(2) st len dl(2) by (auto simp: head_of_def)
  have "q_take ie w k q = Some (Inr (Some (head_of b)), Some k',
      q\<lparr>q_host := (q_host q)\<lparr>last_avail_idx := last_avail_idx (q_host q) + 1\<rparr>, q_held := q_held q @ [head_of b]\<rparr>)"
    using head k'(1) by (cases w) (simp_all add: q_take_def vca_vringh_getdesc_kern_def vr_def [symmetric] riov_of_def wiov_of_def)
  moreover have "vq_inv (q_vq q) fs (av @ (hb @ [b]) @ map fst us)"
    by (rule iffD1 [OF vq_inv_perm D(1)]) simp
  ultimately show ?thesis using k'(2) D win(2) by (auto simp: q_inv_def Let_def vr_def)
qed

lemma finish_inv:
  assumes inv: "q_inv w q fs av hb us" and b: "b \<in> set hb"
  shows "ring_n (q_finish (head_of b) len q) = ring_n q"
    "q_inv w (q_finish (head_of b) len q) fs av (remove1 b hb) (us @ [(b, len)])"
proof -
  note D = q_invD [OF inv] note S = q_sized [OF inv]
  define vr where "vr = vq_vring (q_vq q)"
  note hu = head_unat [OF D(1), of b]
  have n0: "vr_num vr \<noteq> 0" using S(4) by (auto simp: vr_def)
  have slot: "unat (ucast (used_idx vr) mod vr_num vr) = unat (used_idx vr) mod unat (vr_num vr)"
    by (simp add: unat_mod_distrib unsigned_ucast_eq take_bit_nat_eq_self less_trans [OF u16_less])
  define vr' where "vr' = vr\<lparr>used_ring := (used_ring vr)[unat (used_idx vr) mod unat (vr_num vr) := used_elem (b, len)],
      used_idx := used_idx vr + 1\<rparr>"
  have ue: "\<lparr>ue_id = ucast (head_of b), ue_len = len\<rparr> = used_elem (b, len)"
    using hu b by (simp add: used_elem_def) (metis of_nat_unat)
  have one: "splice i [x] xs = xs[i := x]" if "i < length xs" for i x and xs :: "vring_used_elem list"
    using that by (simp add: splice_def upd_conv_take_nth_drop)
  have lt: "unat (used_idx vr) mod unat (vr_num vr) < length (used_ring vr)" using S(4,6) by (simp add: vr_def)
  have fin: "vca_vringh_complete_kern vr (q_host q) (head_of b) len = (vr', (q_host q)\<lparr>completed := completed (q_host q) + 1\<rparr>)"
    using D(7) [folded vr_def] lt by (simp add: vca_vringh_complete_kern_def vringh_complete_def Let_def vr'_def ue slot one)
  have "q_finish (head_of b) len q = q\<lparr>q_vq := (q_vq q)\<lparr>vq_vring := vr'\<rparr>, q_host := (q_host q)\<lparr>completed := completed (q_host q) + 1\<rparr>,
      q_held := remove1 (head_of b) (q_held q)\<rparr>" using fin by (simp add: q_finish_def vr_def)
  moreover have vv: "vq_inv ((q_vq q)\<lparr>vq_vring := vr'\<rparr>) fs bs = vq_inv (q_vq q) fs bs" for bs
    by (auto simp: vq_inv_def buffers_in_def ring_sized_def vr'_def vr_def)
  moreover have "vq_inv (q_vq q) fs (av @ remove1 b hb @ map fst (us @ [(b, len)]))"
    by (rule iffD1 [OF vq_inv_perm D(1)]) (use b in simp)
  moreover have "distinct (map head_of hb)" using heads_distinct [OF D(1)] by simp
  then have "remove1 (head_of b) (map head_of hb) = map head_of (remove1 b hb)"
    using b by (induction hb) (auto, metis imageI)
  moreover have "length us < ring_n q" using vq_inv_count(2) [OF D(1)] b by (cases hb) auto
  then have "unat (used_idx vr - vq_last_used_idx (q_vq q)) < ring_n q" using arg_cong [OF D(6), of length] by (simp add: vr_def)
  then have "fr_win (ring_n q) (used_ring vr') (vq_last_used_idx (q_vq q)) (used_idx vr') = map used_elem (us @ [(b, len)])"
    using fr_win_push [OF S(2) _ S(6,3), of "used_idx vr" "vq_last_used_idx (q_vq q)" "used_elem (b, len)"] D(6)
    by (simp add: vr'_def vr_def)
  moreover have "ucast (ucast (h_last_used_idx (q_host q)) + (completed (q_host q) + 1)) = used_idx vr + 1"
    using D(7) by (simp add: vr_def add.assoc [symmetric] ucast_add16 [of _ 1])
  ultimately show "ring_n (q_finish (head_of b) len q) = ring_n q"
    "q_inv w (q_finish (head_of b) len q) fs av (remove1 b hb) (us @ [(b, len)])"
    using D by (auto simp: q_inv_def Let_def vr'_def vr_def)
qed

lemma get_inv:
  assumes inv: "q_inv w q fs av hb ((b, len) # us)"
  shows "\<exists>q'. q_get q = Some (Some (b_token b, len), q') \<and> ring_n q' = ring_n q \<and> q_inv w q' (b_chain b @ fs) av hb us"
proof -
  note D = q_invD [OF inv]
  have "vq_inv (q_vq q) fs (b # av @ hb @ map fst us)"
    by (rule iffD1 [OF vq_inv_perm D(1)]) simp
  from get_buf_ok [OF this D(2), of len "map used_elem us"] D(6)
  obtain vq' where "vca_virtqueue_get_buf (q_vq q) = Some (Some (b_token b, len), vq')"
    "vq_inv vq' (b_chain b @ fs) (av @ hb @ map fst us)" "vq_same (q_vq q) vq'" "avail_idx (vq_vring vq') = avail_idx (vq_vring (q_vq q))"
    "avail_ring (vq_vring vq') = avail_ring (vq_vring (q_vq q))" "\<not> vq_broken vq'"
    "fr_win (unat (vr_num (vq_vring vq'))) (used_ring (vq_vring vq')) (vq_last_used_idx vq') (used_idx (vq_vring vq')) = map used_elem us"
    by (auto simp: used_elem_def)
  then show ?thesis using D by (auto simp: q_get_def q_inv_def Let_def vq_same_def)
qed

lemma get_none:
  assumes inv: "q_inv w q fs av hb []"
  shows "q_get q = Some (None, q)"
proof -
  have "length (fr_win (ring_n q) (used_ring (vq_vring (q_vq q))) (vq_last_used_idx (q_vq q)) (used_idx (vq_vring (q_vq q)))) = 0"
    using q_invD(6) [OF inv] by simp
  then have "\<not> more_used (q_vq q)" by (simp add: more_used_def unat_eq_zero)
  then show ?thesis using q_invD(2) [OF inv] by (simp add: q_get_def vca_virtqueue_get_buf_def)
qed

lemma take_none:
  assumes inv: "q_inv w q fs [] hb us"
  shows "\<exists>k'. q_take ie w k q = Some (Inr None, k', q)"
proof -
  have "length (fr_win (ring_n q) (avail_ring (vq_vring (q_vq q))) (last_avail_idx (q_host q)) (avail_idx (vq_vring (q_vq q)))) = 0"
    using q_invD(5) [OF inv] by simp
  then have "last_avail_idx (q_host q) = avail_idx (vq_vring (q_vq q))" by (simp add: unat_eq_zero)
  then show ?thesis by (simp add: q_take_def vca_vringh_getdesc_kern_def vringh_get_head_def)
qed

lemma notify_inv:
  assumes inv: "q_inv w q fs av hb us"
  shows "ring_n (snd (q_need_notify q)) = ring_n q" "q_inv w (snd (q_need_notify q)) fs av hb us"
  using q_invD [OF inv] ucast_back16
  by (auto simp: q_need_notify_def vca_vringh_need_notify_kern_def q_inv_def Let_def)

section \<open>Refinement\<close>

inductive_cases q_stepE: "q_step w q l q'"
inductive_cases aq_stepE: "aq_step n a l a'"

lemma add_outcome:
  assumes inv: "q_inv w q fs av hb us" and full: "length fs < unat num" and res: "q_add env w sg num t q = Some (r, q')"
  shows "r \<noteq> Inr ()"
proof (cases "num \<le> vr_num (vq_vring (q_vq q))")
  case True
  from add_full [OF inv full True, of env sg t] res show ?thesis by auto
next
  case False
  then have "vr_num (vq_vring (q_vq q)) < num" by simp
  then have "q_add env w sg num t q = None"
    using q_invD(2) [OF inv] by (simp add: q_add_eq virtqueue_add_def)
  with res show ?thesis by simp
qed

lemma remove1_map_view:
  assumes "b \<in> set bs" "\<And>c. c \<in> set bs \<Longrightarrow> f c = f b \<Longrightarrow> c = b"
  shows "map f (remove1 b bs) = remove1 (f b) (map f bs)"
  using assms by (induction bs) (auto, metis)

lemma q_relI: "q_inv w q fs av hb us \<Longrightarrow> ring_n q = n \<Longrightarrow> q_abs a av hb us \<Longrightarrow> q_rel n w q a"
  by (auto simp: q_rel_def)

lemma q_simulate:
  assumes rel: "q_rel n w q a" and step: "q_step w q l q'"
  shows "\<exists>a'. aq_step n a l a' \<and> q_rel n w q' a'"
proof -
  obtain fs av hb us where n: "ring_n q = n" and inv: "q_inv w q fs av hb us" and abs: "q_abs a av hb us"
    using rel by (auto simp: q_rel_def)
  note cnt = abs_size [OF inv abs] note heads = abs_heads [OF abs] note D = q_invD [OF inv]
  show ?thesis using step
  proof cases
    case (q_step_add env sg num t)
    define b where "b = \<lparr>b_chain = take (unat num) fs, b_token = t, b_entries = sg_entries env (vq_dma_map (q_vq q)) w sg num\<rparr>"
    have num: "0 < unat num" "length (b_entries b) = unat num" using q_step_add(3) by (auto simp: sg_ready_def unat_gt_0 b_def sg_entries_def)
    have ne: "b_entries b \<noteq> []" "t = b_token b" using num by (auto simp: b_def)
    have room: "unat num \<le> length fs"
    proof (rule ccontr)
      assume "\<not> unat num \<le> length fs"
      then show False using add_outcome [OF inv _ q_step_add(4)] by simp
    qed
    with add_inv [OF inv q_step_add(2,3), of t] q_step_add(4) have inv': "q_inv w q' (drop (unat num) fs) (av @ [b]) hb us" "ring_n q' = n"
      by (auto simp: b_def n)
    have "head_of b \<notin> aq_heads a" using heads_distinct [OF q_invD(1) [OF inv'(1)]] heads by auto
    moreover have "aq_size a + length (b_entries b) \<le> n" using cnt room num n by linarith
    ultimately have "aq_step n a (QAdd t (b_entries b)) (a\<lparr>aq_avail := aq_avail a @ [buf_view b]\<rparr>)"
      using aq_add [of "head_of b" a "b_entries b" n "b_token b"] ne by (simp add: buf_view_def)
    moreover have "q_abs (a\<lparr>aq_avail := aq_avail a @ [buf_view b]\<rparr>) (av @ [b]) hb us" using abs by (simp add: q_abs_def)
    moreover have "l = QAdd t (b_entries b)" using q_step_add(1) by (simp add: b_def)
    ultimately show ?thesis using q_relI [OF inv'] by blast
  next
    case (q_step_full env sg num t)
    have full: "length fs < unat num"
    proof (rule ccontr)
      assume "\<not> length fs < unat num"
      then show False using add_inv [OF inv q_step_full(2,3), of t] q_step_full(5) by auto
    qed
    with add_full [OF inv full q_step_full(4), of env sg t] q_step_full(5) have "q_inv w q' fs av hb us" "ring_n q' = n"
      by (auto simp: n)
    moreover have "n < aq_size a + unat num" using cnt full n by linarith
    ultimately show ?thesis using abs q_step_full(1) aq_full by (fastforce simp: q_rel_def)
  next
    case (q_step_take k ie h k')
    have "av \<noteq> []" using take_none [of w q fs hb us ie k] inv q_step_take(4) by auto
    then obtain b av' where av: "av = b # av'" by (cases av) auto
    from take_inv [OF inv [unfolded av] q_step_take(2,3)] q_step_take(4)
    have q': "h = head_of b" "kiov_elems k' = map kvec_of (b_entries b)" "q_inv w q' fs av' (hb @ [b]) us" "ring_n q' = n"
      by (auto simp: n)
    have "aq_step n a (QTake h (map kvec_of (b_entries b))) (a\<lparr>aq_avail := map buf_view av', aq_held := aq_held a @ [buf_view b]\<rparr>)"
      using aq_take [of a "head_of b" "b_token b" "b_entries b" "map buf_view av'" n] abs q'(1) by (simp add: q_abs_def av buf_view_def)
    moreover have "q_abs (a\<lparr>aq_avail := map buf_view av', aq_held := aq_held a @ [buf_view b]\<rparr>) av' (hb @ [b]) us"
      using abs by (simp add: q_abs_def)
    ultimately show ?thesis using q_relI [OF q'(3,4)] q'(2) q_step_take(1) by auto
  next
    case (q_step_finish h len)
    then obtain b where b: "b \<in> set hb" "h = head_of b" using D(4) by auto
    have "aq_step n a (QFinish h len) (a\<lparr>aq_held := remove1 (buf_view b) (aq_held a), aq_used := aq_used a @ [used_view (b, len)]\<rparr>)"
      using aq_finish [of "head_of b" "b_token b" "b_entries b" a n len] abs b
      by (auto simp: q_abs_def buf_view_def used_view_def)
    moreover have "remove1 (buf_view b) (map buf_view hb) = map buf_view (remove1 b hb)"
    proof (rule remove1_map_view [symmetric, OF b(1)])
      show "c = b" if "c \<in> set hb" "buf_view c = buf_view b" for c
        using heads_distinct [OF D(1)] that b(1) by (auto simp: buf_view_def distinct_map dest: inj_onD)
    qed
    then have "q_abs (a\<lparr>aq_held := remove1 (buf_view b) (aq_held a), aq_used := aq_used a @ [used_view (b, len)]\<rparr>) av (remove1 b hb) (us @ [(b, len)])"
      using abs by (simp add: q_abs_def)
    ultimately show ?thesis using q_relI [OF finish_inv(2,1) [OF inv b(1), of len, unfolded n]] q_step_finish(1,2) b(2) by auto
  next
    case q_step_notify
    then show ?thesis using notify_inv [OF inv] abs n aq_notify by (fastforce simp: q_rel_def)
  next
    case (q_step_get t len)
    have "us \<noteq> []" using get_none [of w q fs av hb] inv q_step_get(2) by auto
    then obtain b len' us' where us: "us = (b, len') # us'" by (cases us) auto
    from get_inv [OF inv [unfolded us]] q_step_get(2)
    have q': "t = b_token b" "len = len'" "q_inv w q' (b_chain b @ fs) av hb us'" "ring_n q' = n" by (auto simp: n)
    have "aq_step n a (QGet t len) (a\<lparr>aq_used := map used_view us'\<rparr>)"
      using aq_get [of a "head_of b" "b_token b" "b_entries b" len "map used_view us'" n] abs q'(1,2) by (simp add: q_abs_def us used_view_def)
    moreover have "q_abs (a\<lparr>aq_used := map used_view us'\<rparr>) av hb us'" using abs by (simp add: q_abs_def)
    ultimately show ?thesis using q_relI [OF q'(3,4)] q_step_get(1) by auto
  qed
qed

interpretation vio: simulation "q_step w" "aq_step n" "q_rel n w"
  by unfold_locales (rule q_simulate)

end
