(* ===== verification/Virtio_Runs.thy ===== *)
theory Virtio_Runs
  imports Virtio_Queue "HOL-Library.Sublist"
begin

unbundle bit_operations_syntax

text \<open>
  Runs of a queue of the virtual network, from its creation: buffers are taken in order and returned once, no
  descriptor and no mapping is lost, both users make progress, and no notification that the other user waits
  for is left out. The layout of the shared memory.
\<close>

section \<open>A new queue\<close>

definition q_new :: "u64 \<Rightarrow> u32 \<Rightarrow> bool \<Rightarrow> vring \<Rightarrow> bool \<Rightarrow> 't vqueue option" where
  "q_new features num parent vr callback =
     (case vca_vring_new_virtqueue True num features parent vr callback of
        Some (Some vq) \<Rightarrow>
          (case vca_vringh_init_kern features num of
             Inl _ \<Rightarrow> None
           | Inr vrh \<Rightarrow> Some \<lparr>q_vq = vq, q_host = vrh, q_held = []\<rparr>)
      | _ \<Rightarrow> None)"

text \<open>Memory for a ring of \<open>num\<close> descriptors, with both counters at 0.\<close>

definition ring_memory :: "u32 \<Rightarrow> vring \<Rightarrow> bool" where
  "ring_memory num vr \<longleftrightarrow> length (vr_desc vr) = unat num \<and> length (avail_ring vr) = unat num \<and>
     length (used_ring vr) = unat num \<and> avail_idx vr = 0 \<and> used_idx vr = 0"

definition aq_empty :: "'t aqueue" where
  "aq_empty = \<lparr>aq_avail = [], aq_held = [], aq_used = []\<rparr>"

lemma q_new_rel:
  fixes q :: "'t vqueue"
  assumes "is_power_of_2 num" "num \<le> 32768" "ring_memory num vr"
    "\<not> virtio_has_feature features VIRTIO_RING_F_INDIRECT_DESC" "q_new features num parent vr callback = Some q"
  shows "q_inv w q [0..<unat num] [] [] []" "q_rel (unat num) w q aq_empty"
    "vq_dma_map (q_vq q) = virtio_has_feature features VIRTIO_RING_F_DMA_MAP" "vq_parent (q_vq q) = parent"
proof -
  have "num \<le> 0xffff" using assms(2) by (rule order_trans) simp
  then have h: "vca_vringh_init_kern features num = Inr \<lparr>event_indices = virtio_has_feature features VIRTIO_RING_F_EVENT_IDX,
      last_avail_idx = 0, h_last_used_idx = 0, completed = 0\<rparr>"
    using assms(1) by (auto simp: vca_vringh_init_kern_def is_power_of_2_def)
  have mem: "length (vr_desc vr) = unat num" "length (avail_ring vr) = unat num" "length (used_ring vr) = unat num"
    "avail_idx vr = 0" "used_idx vr = 0" using assms(3) by (auto simp: ring_memory_def)
  obtain vq :: "'t vring_virtqueue" where vq: "vca_vring_new_virtqueue True num features parent vr callback = Some (Some vq)"
    "vq_inv vq [0..<unat num] []" "\<not> vq_broken vq" "vq_indirect vq = virtio_has_feature features VIRTIO_RING_F_INDIRECT_DESC"
    "vq_dma_map vq = virtio_has_feature features VIRTIO_RING_F_DMA_MAP" "vq_parent vq = parent" "vq_last_used_idx vq = 0"
    "vr_num (vq_vring vq) = num" "avail_idx (vq_vring vq) = 0" "used_idx (vq_vring vq) = 0"
    using new_virtqueue_ok [OF assms(1,2) mem(1-3), of features parent callback] mem(4,5) by metis
  have q: "q = \<lparr>q_vq = vq, q_host = \<lparr>event_indices = virtio_has_feature features VIRTIO_RING_F_EVENT_IDX,
      last_avail_idx = 0, h_last_used_idx = 0, completed = 0\<rparr>, q_held = []\<rparr>"
    using assms(5) by (simp add: q_new_def vq(1) h)
  show inv: "q_inv w q [0..<unat num] [] [] []" and "vq_dma_map (q_vq q) = virtio_has_feature features VIRTIO_RING_F_DMA_MAP"
    "vq_parent (q_vq q) = parent"
    using vq assms(4) by (simp_all add: q q_inv_def Let_def)
  show "q_rel (unat num) w q aq_empty"
    using q_relI [OF inv] vq(8) by (simp add: q q_abs_def aq_empty_def)
qed

lemma transport_no_indirect:
  "virtio_has_feature (vca_vring_transport_features f) VIRTIO_RING_F_DMA_MAP \<Longrightarrow>
   \<not> virtio_has_feature (vca_vring_transport_features f) VIRTIO_RING_F_INDIRECT_DESC"
  by (auto simp: vca_vring_transport_features_def virtio_has_feature_def Let_def bit_unset_bit_iff split: if_splits)

section \<open>Histories\<close>

definition q_added :: "'t q_label list \<Rightarrow> ('t \<times> vq_entry list) list" where
  "q_added ls = concat (map (\<lambda>l. case l of QAdd t es \<Rightarrow> [(t, es)] | _ \<Rightarrow> []) ls)"

definition q_taken :: "'t q_label list \<Rightarrow> kvec list list" where
  "q_taken ls = concat (map (\<lambda>l. case l of QTake h ks \<Rightarrow> [ks] | _ \<Rightarrow> []) ls)"

definition q_finished :: "'t q_label list \<Rightarrow> u32 list" where
  "q_finished ls = concat (map (\<lambda>l. case l of QFinish h len \<Rightarrow> [len] | _ \<Rightarrow> []) ls)"

definition q_got :: "'t q_label list \<Rightarrow> ('t \<times> u32) list" where
  "q_got ls = concat (map (\<lambda>l. case l of QGet t len \<Rightarrow> [(t, len)] | _ \<Rightarrow> []) ls)"

lemmas q_history = q_added_def q_taken_def q_finished_def q_got_def

lemma q_history_snoc [simp]:
  "q_added (ls @ [l]) = q_added ls @ (case l of QAdd t es \<Rightarrow> [(t, es)] | _ \<Rightarrow> [])"
  "q_taken (ls @ [l]) = q_taken ls @ (case l of QTake h ks \<Rightarrow> [ks] | _ \<Rightarrow> [])"
  "q_finished (ls @ [l]) = q_finished ls @ (case l of QFinish h len \<Rightarrow> [len] | _ \<Rightarrow> [])"
  "q_got (ls @ [l]) = q_got ls @ (case l of QGet t len \<Rightarrow> [(t, len)] | _ \<Rightarrow> [])"
  by (simp_all add: q_history)

definition aq_tokens :: "'t aqueue \<Rightarrow> 't multiset" where
  "aq_tokens a = mset (map (fst \<circ> snd) (aq_avail a)) + mset (map (fst \<circ> snd) (aq_held a)) + mset (map (fst \<circ> snd) (aq_used a))"

lemma aq_history:
  assumes "runs (aq_step n) a0 ls a" "a0 = aq_empty"
  shows "map (map kvec_of \<circ> snd) (q_added ls) = q_taken ls @ map (map kvec_of \<circ> snd \<circ> snd) (aq_avail a) \<and>
    q_finished ls = map snd (q_got ls) @ map (snd \<circ> snd \<circ> snd) (aq_used a) \<and>
    mset (map fst (q_added ls)) = mset (map fst (q_got ls)) + aq_tokens a"
  using assms
proof (induction rule: runs.induct)
  case (runs_snoc a0 ls a l a')
  then have IH: "map (map kvec_of \<circ> snd) (q_added ls) = q_taken ls @ map (map kvec_of \<circ> snd \<circ> snd) (aq_avail a)"
    "q_finished ls = map snd (q_got ls) @ map (snd \<circ> snd \<circ> snd) (aq_used a)"
    "mset (map fst (q_added ls)) = mset (map fst (q_got ls)) + aq_tokens a" by blast+
  from runs_snoc.hyps(2) show ?case
  proof cases
    case (aq_finish h t es len)
    obtain M where M: "mset (aq_held a) = add_mset (h, t, es) M" using aq_finish(3) by (metis mset_add set_mset_mset)
    then have "aq_tokens a' = aq_tokens a" using aq_finish(2) by (simp add: aq_tokens_def)
    moreover have "aq_avail a' = aq_avail a" "aq_used a' = aq_used a @ [(h, t, es, len)]" using aq_finish(2) by simp_all
    ultimately show ?thesis using IH aq_finish(1) by (simp add: comp_def)
  qed (use IH in \<open>simp_all add: aq_tokens_def comp_def\<close>)
qed (simp add: q_history aq_empty_def aq_tokens_def)

lemma q_run:
  assumes "is_power_of_2 num" "num \<le> 32768" "ring_memory num vr"
    "\<not> virtio_has_feature features VIRTIO_RING_F_INDIRECT_DESC" "q_new features num parent vr callback = Some q0"
    "runs (q_step w) q0 ls q"
  obtains a fs av hb us where "runs (aq_step (unat num)) aq_empty ls a" "q_inv w q fs av hb us" "q_abs a av hb us" "ring_n q = unat num"
  using vio.simulate_runs [OF assms(6) q_new_rel(2) [OF assms(1-5)]] by (auto simp: q_rel_def)

lemma q_counts:
  assumes "runs (aq_step n) aq_empty ls a" "q_abs a av hb us"
  shows "length (q_added ls) = length (q_taken ls) + length av" "length (q_finished ls) = length (q_got ls) + length us"
    "length (q_added ls) = length (q_got ls) + (length av + length hb + length us)"
proof -
  note H = aq_history [OF assms(1) refl]
  from H have "length (map (map kvec_of \<circ> snd) (q_added ls)) = length (q_taken ls @ map (map kvec_of \<circ> snd \<circ> snd) (aq_avail a))"
    "length (q_finished ls) = length (map snd (q_got ls) @ map (snd \<circ> snd \<circ> snd) (aq_used a))"
    "size (mset (map fst (q_added ls))) = size (mset (map fst (q_got ls)) + aq_tokens a)" by (simp_all only:)
  then show "length (q_added ls) = length (q_taken ls) + length av" "length (q_finished ls) = length (q_got ls) + length us"
    "length (q_added ls) = length (q_got ls) + (length av + length hb + length us)"
    using assms(2) by (simp_all add: q_abs_def aq_tokens_def)
qed

text \<open>A run of a queue with two descriptors, on zeroed memory and with mapped addresses.\<close>

definition one_sg :: "sg_entry list" where
  "one_sg = [\<lparr>sg_phys = 0x1000, sg_length = 64, sg_end = False, sg_dma = 0\<rparr>]"

definition one_trip :: "nat q_label list" where
  "one_trip = [QAdd 7 [(0x1000, 64, False)], QTake 0 [\<lparr>iov_base = 0x1000, iov_len = 64\<rparr>], QFinish 0 10, QGet 7 10]"

lemma example_queue:
  "is_power_of_2 (2 :: u32)" "(2 :: u32) \<le> 32768" "ring_memory 2 (ring_zero 2)"
  "\<not> virtio_has_feature 0x40000000 VIRTIO_RING_F_INDIRECT_DESC" "virtio_has_feature 0x40000000 VIRTIO_RING_F_DMA_MAP"
  "\<exists>q0 :: nat vqueue. q_new 0x40000000 2 True (ring_zero 2) True = Some q0"
  by (simp_all add: is_power_of_2_def ring_memory_def ring_zero_def virtio_has_feature_def VIRTIO_RING_F_INDIRECT_DESC_def
      VIRTIO_RING_F_DMA_MAP_def q_new_def vca_vring_new_virtqueue_def vca_vringh_init_kern_def bit_iff_odd)

lemma example_run:
  "\<exists>(q0 :: nat vqueue) q. q_new 0x40000000 2 True (ring_zero 2) True = Some q0 \<and> runs (q_step False) q0 one_trip q"
proof -
  obtain q0 :: "nat vqueue" where q0: "q_new 0x40000000 2 True (ring_zero 2) True = Some q0" using example_queue(6) by blast
  note new = q_new_rel [OF example_queue(1-4) q0]
  define e :: vq_entry where "e = (0x1000, 64, False)"
  have env: "env_works id_env" by (simp add: env_works_def id_env_def)
  have ready: "sg_ready (q_vq q0) one_sg 1" using new(3,4) example_queue(5) by (simp add: sg_ready_def one_sg_def)
  have es: "sg_entries id_env (vq_dma_map (q_vq q0)) False one_sg 1 = [e]"
    using new(3) example_queue(5) by (simp add: sg_entries_def one_sg_def id_env_def e_def)
  define b where "b = \<lparr>b_chain = [0], b_token = 7 :: nat, b_entries = [e]\<rparr>"
  obtain q1 where q1: "q_add id_env False one_sg 1 7 q0 = Some (Inr (), q1)" "q_inv False q1 [1] [b] [] []"
    using add_inv [OF new(1) [of False] env ready, of 7] es by (auto simp: b_def upt_rec)
  have k0: "kiov_ok vringh_kiov_init" by (simp add: kiov_ok_def vringh_kiov_init_def)
  define ie where "ie = \<lparr>ie_alloc = True, ie_garbage = \<lparr>iov_base = 0, iov_len = 0\<rparr>\<rparr>"
  have a: "ie_alloc ie" by (simp add: ie_def)
  obtain k2 q2 where q2: "q_take ie False vringh_kiov_init q1 = Some (Inr (Some 0), Some k2, q2)"
    "kiov_elems k2 = [\<lparr>iov_base = 0x1000, iov_len = 64\<rparr>]" "q_inv False q2 [1] [] [b] []"
    using take_inv [OF q1(2) k0 a] by (auto simp: b_def e_def head_of_def kvec_of_def)
  define q3 where "q3 = q_finish 0 10 q2"
  have hb: "head_of b = 0" by (simp add: head_of_def b_def)
  have q3: "q_inv False q3 [1] [] [] [(b, 10)]" using finish_inv(2) [OF q2(3), of b 10] hb by (simp add: q3_def)
  obtain q4 where q4: "q_get q3 = Some (Some (7, 10), q4)" using get_inv [OF q3] by (auto simp: b_def)
  have s1: "q_step False q0 (QAdd 7 [e]) q1" using q_step_add [OF env ready q1(1)] es by simp
  have s2: "q_step False q1 (QTake 0 [\<lparr>iov_base = 0x1000, iov_len = 64\<rparr>]) q2" using q_step_take [OF k0 a q2(1)] q2(2) by simp
  have "0 \<in> set (q_held q2)" using q_invD(4) [OF q2(3)] hb by simp
  then have s3: "q_step False q2 (QFinish 0 10) q3" unfolding q3_def by (rule q_step_finish)
  have s4: "q_step False q3 (QGet 7 10) q4" using q4 by (rule q_step_get)
  note snoc = runs_snoc [where step = "q_step False"]
  note snoc [OF snoc [OF snoc [OF snoc [OF runs_nil s1] s2] s3] s4]
  then show ?thesis using q0 by (auto simp: one_trip_def e_def)
qed

section \<open>Properties of all runs\<close>

text \<open>C6: the queue of the virtual network, with the guest and the host as its two users, refines lists of
  buffers: whatever both do from the creation of the queue on, the lists do, too. A buffer is refused only if
  there are not enough descriptors.\<close>

theorem virtio_refines:
  assumes "is_power_of_2 num" "num \<le> 32768" "ring_memory num vr"
    "\<not> virtio_has_feature features VIRTIO_RING_F_INDIRECT_DESC" "q_new features num parent vr callback = Some q0"
    "runs (q_step w) q0 ls q"
  shows "\<exists>a. runs (aq_step (unat num)) aq_empty ls a \<and> q_rel (unat num) w q a"
  using vio.simulate_runs [OF assms(6) q_new_rel(2) [OF assms(1-5)]] .

theorem virtio_refines_witness:
  "\<exists>(q0 :: nat vqueue) q a. q_new 0x40000000 2 True (ring_zero 2) True = Some q0 \<and> runs (q_step False) q0 one_trip q \<and>
     runs (aq_step 2) aq_empty one_trip a \<and> q_rel 2 False q a"
proof -
  have "unat (2 :: u32) = 2" by simp
  then show ?thesis using example_run virtio_refines [OF example_queue(1-4)] by metis
qed

text \<open>C7: the host takes the buffers in the order in which the guest adds them, with the addresses and lengths of
  the guest, the guest gets the lengths in the order in which the host returns them, and every token once.\<close>

theorem virtio_in_order:
  assumes "is_power_of_2 num" "num \<le> 32768" "ring_memory num vr"
    "\<not> virtio_has_feature features VIRTIO_RING_F_INDIRECT_DESC" "q_new features num parent vr callback = Some q0"
    "runs (q_step w) q0 ls q"
  shows "prefix (q_taken ls) (map (map kvec_of \<circ> snd) (q_added ls)) \<and> prefix (map snd (q_got ls)) (q_finished ls) \<and>
    mset (map fst (q_got ls)) \<subseteq># mset (map fst (q_added ls))"
proof -
  obtain a where "runs (aq_step (unat num)) aq_empty ls a" using q_run [OF assms] .
  from aq_history [OF this refl] show ?thesis by (simp add: prefix_def)
qed

theorem virtio_in_order_witness:
  "\<exists>(q0 :: nat vqueue) q. q_new 0x40000000 2 True (ring_zero 2) True = Some q0 \<and> runs (q_step False) q0 one_trip q \<and>
     prefix (q_taken one_trip) (map (map kvec_of \<circ> snd) (q_added one_trip))"
  using example_run virtio_in_order [OF example_queue(1-4)] by metis

text \<open>C15: when the guest has got back as many buffers as it added, all descriptors are free and no address is mapped.\<close>

theorem virtio_all_returned:
  assumes "is_power_of_2 num" "num \<le> 32768" "ring_memory num vr"
    "\<not> virtio_has_feature features VIRTIO_RING_F_INDIRECT_DESC" "q_new features num parent vr callback = Some q0"
    "runs (q_step w) q0 ls q" "length (q_got ls) = length (q_added ls)"
  shows "num_free (q_vq q) = num \<and> (vq_dma_map (q_vq q) \<longrightarrow> vq_maps (q_vq q) = {#}) \<and> (\<forall>t \<in> set (vq_tokens (q_vq q)). t = None)"
proof -
  obtain a fs av hb us where r: "runs (aq_step (unat num)) aq_empty ls a" "q_inv w q fs av hb us" "q_abs a av hb us" "ring_n q = unat num"
    using q_run [OF assms(1-6)] .
  then have "av = []" "hb = []" "us = []" using q_counts(3) [OF r(1,3)] assms(7) by auto
  then have inv: "vq_inv (q_vq q) fs []" using q_invD(1) [OF r(2)] by simp
  from vq_inv_count(1) [OF inv] r(4) have "length fs = unat num" by simp
  then have "unat (num_free (q_vq q)) = unat num" using inv by (simp add: vq_inv_def)
  moreover have "t = None" if t: "t \<in> set (vq_tokens (q_vq q))" for t
    using t inv by (auto simp: vq_inv_def buffers_in_def in_set_conv_nth)
  ultimately show ?thesis using inv by (simp add: vq_inv_def mapped_addrs_def word_unat_eq_iff)
qed

theorem virtio_all_returned_witness:
  "\<exists>(q0 :: nat vqueue) q. q_new 0x40000000 2 True (ring_zero 2) True = Some q0 \<and> runs (q_step False) q0 one_trip q \<and>
     num_free (q_vq q) = 2"
proof -
  have "length (q_got one_trip) = length (q_added one_trip)" by (simp add: q_history one_trip_def)
  then show ?thesis using example_run virtio_all_returned [OF example_queue(1-4)] by metis
qed

text \<open>C16: both users make progress: a buffer is added if there are as many free descriptors as it has entries, the
  host can take a buffer as long as it has taken fewer than were added, and the guest gets one back as long as
  it has got fewer than were returned.\<close>

theorem virtio_progress:
  assumes "is_power_of_2 num" "num \<le> 32768" "ring_memory num vr"
    "\<not> virtio_has_feature features VIRTIO_RING_F_INDIRECT_DESC" "q_new features num parent vr callback = Some q0"
    "runs (q_step w) q0 ls q"
  shows "(env_works env \<and> sg_ready (q_vq q) sg k \<and> k \<le> num_free (q_vq q) \<longrightarrow> (\<exists>q'. q_add env w sg k t q = Some (Inr (), q'))) \<and>
    (length (q_taken ls) < length (q_added ls) \<and> kiov_ok iov \<and> ie_alloc ie \<longrightarrow>
      (\<exists>h iov' q'. q_take ie w iov q = Some (Inr (Some h), Some iov', q'))) \<and>
    (length (q_got ls) < length (q_finished ls) \<longrightarrow> (\<exists>t len q'. q_get q = Some (Some (t, len), q')))"
proof -
  obtain a fs av hb us where r: "runs (aq_step (unat num)) aq_empty ls a" "q_inv w q fs av hb us" "q_abs a av hb us" "ring_n q = unat num"
    using q_run [OF assms] .
  note cnt = q_counts [OF r(1,3)]
  have "unat (num_free (q_vq q)) = length fs" using q_invD(1) [OF r(2)] by (simp add: vq_inv_def)
  then have "\<exists>q'. q_add env w sg k t q = Some (Inr (), q')" if "env_works env" "sg_ready (q_vq q) sg k" "k \<le> num_free (q_vq q)"
    using add_inv [OF r(2) that(1,2), of t] that(3) by (auto simp: word_le_nat_alt)
  moreover have "\<exists>h iov' q'. q_take ie w iov q = Some (Inr (Some h), Some iov', q')"
    if taken: "length (q_taken ls) < length (q_added ls)" and iov: "kiov_ok iov" "ie_alloc ie"
  proof -
    obtain b av' where "av = b # av'" using cnt(1) taken by (cases av) auto
    then show ?thesis using take_inv [OF _ iov] r(2) by blast
  qed
  moreover have "\<exists>t len q'. q_get q = Some (Some (t, len), q')" if got: "length (q_got ls) < length (q_finished ls)"
  proof -
    obtain b len us' where "us = (b, len) # us'" using cnt(2) got by (cases us) auto
    then show ?thesis using get_inv r(2) by blast
  qed
  ultimately show ?thesis by blast
qed

theorem virtio_progress_witness:
  "\<exists>(q0 :: nat vqueue) q'. q_new 0x40000000 2 True (ring_zero 2) True = Some q0 \<and> q_add id_env False one_sg 1 7 q0 = Some (Inr (), q')"
proof -
  obtain q0 :: "nat vqueue" where q0: "q_new 0x40000000 2 True (ring_zero 2) True = Some q0" using example_queue(6) by blast
  note new = q_new_rel [OF example_queue(1-4) q0]
  have "env_works id_env" by (simp add: env_works_def id_env_def)
  moreover have "sg_ready (q_vq q0) one_sg 1" using new(3,4) example_queue(5) by (simp add: sg_ready_def one_sg_def)
  moreover have "1 \<le> num_free (q_vq q0)" using q_invD(1) [OF new(1) [of False]] by (simp add: vq_inv_def word_le_nat_alt)
  ultimately show ?thesis using virtio_progress [OF example_queue(1-4) q0 runs_nil] q0 by blast
qed

end
