(* ===== verification/Vop_Kvec.thy ===== *)
theory Vop_Kvec
  imports Vcablk_Ring Vringh
begin

unbundle bit_operations_syntax

text \<open>
  The rings through which the two sides of the virtual network exchange receive buffers
  (\<open>vop/vop_kvec_buff.c\<close>, \<open>vop/vop_kvec_buff.h\<close>). The receiver puts the vectors of its buffers into the memory of
  the sender, into one of three rings by their size; the sender takes them, writes the data, and returns the
  buffers through a ring in the memory of the receiver. All operations only write to the memory of the
  other side. \<open>None\<close> is a stop of the kernel, an access outside of a ring, or a loop without end.
\<close>

section \<open>Counters and constants\<close>

text \<open>Counters run modulo twice the size of a ring, which need not be a power of two; the arithmetic is that of \<open>int\<close>.\<close>

definition KVEC_COUNTER_EQ :: "u32 \<Rightarrow> u32 \<Rightarrow> u32 \<Rightarrow> bool" where
  "KVEC_COUNTER_EQ cnt1 cnt2 n \<longleftrightarrow> cnt1 mod (2 * n) = cnt2 mod (2 * n)"

definition KVEC_COUNTER_ADD :: "u16 \<Rightarrow> u32 \<Rightarrow> u32 \<Rightarrow> u16" where
  "KVEC_COUNTER_ADD cnt v n = ucast ((promote cnt + v) mod (2 * n))"

definition KVEC_COUNTER_TO_IDX :: "u32 \<Rightarrow> u32 \<Rightarrow> nat" where
  "KVEC_COUNTER_TO_IDX cnt n = unat (cnt mod n)"

definition KVEC_BUF_NUM :: nat where "KVEC_BUF_NUM = 3"
definition KVEC_BUF_SMALL :: nat where "KVEC_BUF_SMALL = 0"
definition KVEC_BUF_JUMBO :: nat where "KVEC_BUF_JUMBO = 1"
definition KVEC_BUF_BIG :: nat where "KVEC_BUF_BIG = KVEC_BUF_NUM - 1"
definition PLX_DMA_ALIGN_BYTES :: u64 where "PLX_DMA_ALIGN_BYTES = 64"
definition DMA_MAX_OFFSET :: u64 where "DMA_MAX_OFFSET = 127"
definition DMA_ALIGN_OVERHEAD_SIZE :: u64 where "DMA_ALIGN_OVERHEAD_SIZE = DMA_MAX_OFFSET + PLX_DMA_ALIGN_BYTES"
definition MTU_DEFAULT :: u64 where "MTU_DEFAULT = 1518 + DMA_ALIGN_OVERHEAD_SIZE"
definition MTU_JUMBO :: u64 where "MTU_JUMBO = 9018 + DMA_ALIGN_OVERHEAD_SIZE"
definition MTU_MAX :: u64 where "MTU_MAX = 65540 + DMA_ALIGN_OVERHEAD_SIZE"
definition KVEC_INDEX_UPDATE_PERIOD :: u32 where "KVEC_INDEX_UPDATE_PERIOD = 16"
definition HEADS_UP_NOTIFICATION_TIMEOUT_MS :: u32 where "HEADS_UP_NOTIFICATION_TIMEOUT_MS = 2"
definition HEADS_UP_TIMEOUT_MS :: u32 where "HEADS_UP_TIMEOUT_MS = 2 * HEADS_UP_NOTIFICATION_TIMEOUT_MS"
definition VOP_KVEC_FLAG_IN_USE :: u8 where "VOP_KVEC_FLAG_IN_USE = 1"
definition VOP_KVEC_FLAG_CANCELLED :: u8 where "VOP_KVEC_FLAG_CANCELLED = 2"
definition USHRT_MAX :: u16 where "USHRT_MAX = 65535"

lemmas kvec_sizes = MTU_DEFAULT_def MTU_JUMBO_def MTU_MAX_def DMA_ALIGN_OVERHEAD_SIZE_def DMA_MAX_OFFSET_def PLX_DMA_ALIGN_BYTES_def
lemmas kvec_ids = KVEC_BUF_NUM_def KVEC_BUF_SMALL_def KVEC_BUF_JUMBO_def KVEC_BUF_BIG_def

definition get_ring_id_write :: "u64 \<Rightarrow> nat res" where
  "get_ring_id_write n =
     (if n < MTU_DEFAULT then Inl EDOM
      else if n < MTU_JUMBO then Inr KVEC_BUF_SMALL
      else if n < MTU_MAX then Inr KVEC_BUF_JUMBO
      else Inr KVEC_BUF_BIG)"

section \<open>State\<close>

record vop_peer_kvec =
  pk_iov :: kvec
  pk_head :: u16
  pk_flags :: u8

record vop_peer_used_kiov =
  pu_len :: u32
  pu_head :: u16

datatype VOP_REQUEST_CANCEL_STATUS =
  VOP_REQUEST_CANCEL_OK | VOP_REQUEST_CANCEL_INVALID_REQUEST | VOP_REQUEST_CANCEL_TIMEOUT | VOP_REQUEST_CANCEL_ERROR

text \<open>The memory of one side that the other side writes; the three rings follow each other, then the ring of used buffers.\<close>

record vop_peer_kvec_buf_header =
  hd_idx :: "u16 list"
  hd_used_idx :: u16
  hd_send_max_size :: "u32 list"
  hd_cancelled_request_idx :: u32
  hd_cancelled_request_ring_id :: u16
  hd_request_cancellation :: bool
  hd_cancellation_status :: "VOP_REQUEST_CANCEL_STATUS option"
  hd_rings :: "vop_peer_kvec list list"
  hd_used :: "vop_peer_used_kiov list"

text \<open>What a side keeps of a ring of its own or of the other side; \<open>cnt\<close>, \<open>buf\<close> and \<open>send_max_size\<close> point into the memory above.\<close>

record vop_kvec_ring =
  kr_last_cnt :: u16
  kr_num :: u32
  kr_send_max_size_local :: u32
  kr_stats_num :: u32

record vop_used_kiov_ring =
  ur_last_cnt :: u16
  ur_num :: u32

record vop_kvec_buf_local =
  lo_rings :: "vop_kvec_ring list"
  lo_used_ring :: vop_used_kiov_ring
  lo_pages :: bool
  lo_mapped :: bool

text \<open>\<open>re_va\<close> says that the memory of the other side is mapped and the pointers are not \<open>NULL\<close>.\<close>

record vop_kvec_buf_remote =
  re_rings :: "vop_kvec_ring list"
  re_used_ring :: vop_used_kiov_ring
  re_va :: bool
  re_kiov :: vringh_kiov
  re_mapped :: bool
  re_is_update :: bool

section \<open>Notifications\<close>

record vop_heads_up_irq =
  rcv_ts :: u64
  sent_ts :: u64

text \<open>Whether the other side was notified a short while ago; \<open>to_ms\<close> is \<open>jiffies_to_msecs\<close>.\<close>

definition heads_up :: "(u64 \<Rightarrow> u32) \<Rightarrow> u64 \<Rightarrow> vop_heads_up_irq \<Rightarrow> bool" where
  "heads_up to_ms jiffies irq \<longleftrightarrow> to_ms (jiffies - rcv_ts irq) \<le> HEADS_UP_TIMEOUT_MS"

definition vop_send_heads_up :: "(u64 \<Rightarrow> u32) \<Rightarrow> u64 \<Rightarrow> vop_heads_up_irq \<Rightarrow> bool \<times> vop_heads_up_irq" where
  "vop_send_heads_up to_ms jiffies irq =
     (let send = HEADS_UP_NOTIFICATION_TIMEOUT_MS \<le> to_ms (jiffies - sent_ts irq)
      in (send, if send then irq\<lparr>sent_ts := jiffies\<rparr> else irq))"

section \<open>Creation and mapping\<close>

definition get_write_kvecs_buf_size :: "u32 \<Rightarrow> u64" where
  "get_write_kvecs_buf_size num = 32 + of_nat KVEC_BUF_NUM * ucast num * 24 + ucast num * 8"

definition vop_kvec_buff_reset :: "vop_kvec_buf_local \<Rightarrow> vop_peer_kvec_buf_header \<Rightarrow> vop_kvec_buf_local \<times> vop_peer_kvec_buf_header" where
  "vop_kvec_buff_reset lo hdr =
     (lo\<lparr>lo_used_ring := (lo_used_ring lo)\<lparr>ur_last_cnt := 0\<rparr>,
         lo_rings := map (\<lambda>r. r\<lparr>kr_last_cnt := 0\<rparr>) (lo_rings lo)\<rparr>,
      hdr\<lparr>hd_used_idx := 0, hd_idx := replicate KVEC_BUF_NUM 0\<rparr>)"

definition zero_header :: "u32 \<Rightarrow> vop_peer_kvec_buf_header" where
  "zero_header num =
     \<lparr>hd_idx = replicate KVEC_BUF_NUM 0, hd_used_idx = 0, hd_send_max_size = replicate KVEC_BUF_NUM 0,
      hd_cancelled_request_idx = 0, hd_cancelled_request_ring_id = 0, hd_request_cancellation = False,
      hd_cancellation_status = None,
      hd_rings = replicate KVEC_BUF_NUM (replicate (unat num) \<lparr>pk_iov = \<lparr>iov_base = 0, iov_len = 0\<rparr>, pk_head = 0, pk_flags = 0\<rparr>),
      hd_used = replicate (unat num) \<lparr>pu_len = 0, pu_head = 0\<rparr>\<rparr>"

text \<open>\<open>re0\<close> is what the structure of the other side held before.\<close>

definition vop_kvec_buff_init :: "bool \<Rightarrow> errno option \<Rightarrow> u32 \<Rightarrow> vop_kvec_buf_remote \<Rightarrow>
    (vop_kvec_buf_local \<times> vop_peer_kvec_buf_header \<times> vop_kvec_buf_remote) res" where
  "vop_kvec_buff_init pages map_err num re0 =
     (if \<not> pages then Inl ENOMEM
      else case map_err of
        Some e \<Rightarrow> Inl e
      | None \<Rightarrow>
          (case vop_kvec_buff_reset
              \<lparr>lo_rings = replicate KVEC_BUF_NUM \<lparr>kr_last_cnt = 0, kr_num = num, kr_send_max_size_local = 0, kr_stats_num = 0\<rparr>,
               lo_used_ring = \<lparr>ur_last_cnt = 0, ur_num = num\<rparr>, lo_pages = True, lo_mapped = True\<rparr> (zero_header num) of
             (lo, hdr) \<Rightarrow>
               Inr (lo, hdr, re0\<lparr>re_is_update := False, re_mapped := False, re_kiov := vringh_kiov_init,
                 re_rings := map (\<lambda>r. r\<lparr>kr_send_max_size_local := 0, kr_stats_num := 0\<rparr>) (re_rings re0)\<rparr>)))"

definition vop_kvec_unmap_buf :: "vop_kvec_buf_remote \<Rightarrow> vop_kvec_buf_remote" where
  "vop_kvec_unmap_buf re = re\<lparr>re_mapped := False, re_va := False\<rparr>"

definition vop_kvec_buff_deinit :: "vop_kvec_buf_local \<Rightarrow> vop_kvec_buf_remote \<Rightarrow> vop_kvec_buf_local \<times> vop_kvec_buf_remote" where
  "vop_kvec_buff_deinit lo re =
     (lo\<lparr>lo_mapped := False, lo_pages := False\<rparr>,
      (vop_kvec_unmap_buf re)\<lparr>re_kiov := vringh_kiov_cleanup (re_kiov re)\<rparr>)"

text \<open>\<open>hdr\<close> is the memory of the other side; its counters are the starting point.\<close>

definition vop_kvec_map_buf :: "bool \<Rightarrow> u32 \<Rightarrow> vop_peer_kvec_buf_header \<Rightarrow> vop_kvec_buf_remote \<Rightarrow> unit res \<times> vop_kvec_buf_remote" where
  "vop_kvec_map_buf mapped num hdr re0 =
     (let re = (if re_va re0 then vop_kvec_unmap_buf re0 else re0)
      in if \<not> mapped then (Inl ENOMEM, re)
         else (Inr (), re\<lparr>re_va := True, re_mapped := True,
                 re_rings := map (\<lambda>(r, ring). ring\<lparr>kr_last_cnt := hd_idx hdr ! r, kr_num := num\<rparr>) (enumerate 0 (re_rings re)),
                 re_used_ring := \<lparr>ur_last_cnt = hd_used_idx hdr, ur_num = num\<rparr>\<rparr>))"

section \<open>The receiver: putting buffers\<close>

text \<open>The vectors of a buffer, at most two; a buffer with fewer than two has size 0 here and fits no ring.\<close>

definition vop_kvec_put :: "vop_kvec_ring list \<Rightarrow> vringh_kiov \<Rightarrow> u16 \<Rightarrow> vop_peer_kvec_buf_header \<Rightarrow>
    (nat res \<times> vop_kvec_ring list \<times> vop_peer_kvec_buf_header) option" where
  "vop_kvec_put rings wiov head hdr =
     (let pk = (\<lambda>i. \<lparr>pk_iov = kv_iov wiov ! i, pk_head = head, pk_flags = 0\<rparr>);
          n = (if 1 < kv_used wiov then iov_len (kv_iov wiov ! 1) else 0)
      in case get_ring_id_write n of
           Inl e \<Rightarrow> Some (Inl e, rings, hdr)
         | Inr r \<Rightarrow>
             let ring = rings ! r;
                 set_max = (kr_send_max_size_local ring = 0 \<or> n < ucast (kr_send_max_size_local ring));
                 ring1 = (if set_max then ring\<lparr>kr_send_max_size_local := ucast n\<rparr> else ring);
                 hdr1 = (if set_max then hdr\<lparr>hd_send_max_size := (hd_send_max_size hdr)[r := ucast n]\<rparr> else hdr);
                 idx = KVEC_COUNTER_TO_IDX (promote (kr_last_cnt ring)) (kr_num ring);
                 buf = hd_rings hdr ! r
             in if length buf \<le> idx + 1 then None
                else Some (Inr r,
                       rings[r := ring1\<lparr>kr_last_cnt := KVEC_COUNTER_ADD (kr_last_cnt ring) 2 (kr_num ring)\<rparr>],
                       hdr1\<lparr>hd_rings := (hd_rings hdr)[r := buf[idx := pk 0, idx + 1 := pk 1]]\<rparr>))"

text \<open>The counters of the rings that have changed become visible; the other side is notified.\<close>

definition vop_kvec_buff_update_idx :: "vop_kvec_ring list \<Rightarrow> nat list \<Rightarrow> vop_peer_kvec_buf_header \<Rightarrow> vop_peer_kvec_buf_header" where
  "vop_kvec_buff_update_idx rings cnt_size hdr =
     hdr\<lparr>hd_idx := map (\<lambda>(r, c). if cnt_size ! r \<noteq> 0 then kr_last_cnt (rings ! r) else c) (enumerate 0 (hd_idx hdr))\<rparr>"

definition vop_common_get_descriptors :: "iov_env \<Rightarrow> (u64 \<Rightarrow> vring_desc list option) \<Rightarrow> vring \<Rightarrow> vringh \<Rightarrow> u16 \<Rightarrow> vringh_kiov \<Rightarrow> bool \<Rightarrow>
    (bool res \<times> vringh \<times> u16 \<times> vringh_kiov) option" where
  "vop_common_get_descriptors ie tables vr vrh head kiov rd =
     (if head = USHRT_MAX
      then case vca_vringh_getdesc_kern ie tables vr vrh (if rd then Some kiov else None) (if rd then None else Some kiov) of
             None \<Rightarrow> None
           | Some (r, _, vrh1, riov, wiov) \<Rightarrow>
               let k = the (if rd then riov else wiov)
               in (case r of
                     Inl e \<Rightarrow> Some (Inl e, vrh1, USHRT_MAX, vringh_kiov_cleanup k)
                   | Inr None \<Rightarrow> Some (Inr False, vrh1, USHRT_MAX, k)
                   | Inr (Some h) \<Rightarrow> Some (Inr True, vrh1, h, k))
      else Some (Inr True, vrh, head, kiov))"

text \<open>
  The loop of \<open>vop_kvec_buf_update\<close>: every available buffer is put, and the counters become visible after every
  sixteenth buffer and at the end. A buffer that fits no ring is dropped.
\<close>

lemma get_descriptors_advances:
  assumes "vop_common_get_descriptors ie tables vr vrh USHRT_MAX k rd = Some (Inr True, vrh1, h, k1)"
  shows "unat (avail_idx vr - last_avail_idx vrh1) < unat (avail_idx vr - last_avail_idx vrh)"
proof -
  have "last_avail_idx vrh \<noteq> avail_idx vr" "last_avail_idx vrh1 = last_avail_idx vrh + 1"
    using assms by (auto simp: vop_common_get_descriptors_def vca_vringh_getdesc_kern_def vringh_get_head_def Let_def
        split: option.splits sum.splits prod.splits if_splits)
  then have ne: "avail_idx vr - last_avail_idx vrh \<noteq> 0" and "avail_idx vr - last_avail_idx vrh1 = avail_idx vr - last_avail_idx vrh - 1" by auto
  then show ?thesis using unat_minus_one [OF ne] unat_gt_0 [of "avail_idx vr - last_avail_idx vrh"] by (simp only:) auto
qed

function kvec_update_loop :: "iov_env \<Rightarrow> (u64 \<Rightarrow> vring_desc list option) \<Rightarrow> vring \<Rightarrow> vringh \<Rightarrow> vringh_kiov \<Rightarrow> vop_kvec_ring list \<Rightarrow>
    nat list \<Rightarrow> nat \<Rightarrow> vop_peer_kvec_buf_header \<Rightarrow> (vringh \<times> vringh_kiov \<times> vop_kvec_ring list \<times> vop_peer_kvec_buf_header) option" where
  "kvec_update_loop ie tables vr vrh k rings cnt_size cnt_total hdr =
     (case vop_common_get_descriptors ie tables vr vrh USHRT_MAX k False of
        None \<Rightarrow> None
      | Some (Inr True, vrh1, h, k1) \<Rightarrow>
          (case vop_kvec_put rings k1 h hdr of
             None \<Rightarrow> None
           | Some (Inl _, rings1, hdr1) \<Rightarrow> kvec_update_loop ie tables vr vrh1 k1 rings1 cnt_size cnt_total hdr1
           | Some (Inr r, rings1, hdr1) \<Rightarrow>
               let rings2 = rings1[r := (rings1 ! r)\<lparr>kr_stats_num := kr_stats_num (rings1 ! r) + 1\<rparr>];
                   size1 = cnt_size[r := cnt_size ! r + 1];
                   total1 = cnt_total + 1
               in if total1 mod unat KVEC_INDEX_UPDATE_PERIOD = 0
                  then kvec_update_loop ie tables vr vrh1 k1 rings2 (replicate KVEC_BUF_NUM 0) total1
                         (vop_kvec_buff_update_idx rings2 size1 hdr1)
                  else kvec_update_loop ie tables vr vrh1 k1 rings2 size1 total1 hdr1)
      | Some (_, vrh1, _, k1) \<Rightarrow> Some (vrh1, k1, rings, vop_kvec_buff_update_idx rings cnt_size hdr))"
  by pat_completeness auto

termination
  by (relation "measure (\<lambda>(ie, tables, vr, vrh, k, rings, cnt_size, cnt_total, hdr). unat (avail_idx vr - last_avail_idx vrh))")
    (auto dest: get_descriptors_advances)

declare kvec_update_loop.simps [simp del]

definition vop_kvec_buf_update :: "iov_env \<Rightarrow> (u64 \<Rightarrow> vring_desc list option) \<Rightarrow> bool \<Rightarrow> vring \<Rightarrow> vringh \<Rightarrow> vop_kvec_buf_remote \<Rightarrow>
    vop_peer_kvec_buf_header \<Rightarrow> (vringh \<times> vop_kvec_buf_remote \<times> vop_peer_kvec_buf_header) option" where
  "vop_kvec_buf_update ie tables ready vr vrh re hdr =
     (if \<not> ready then Some (vrh, re, hdr)
      else if \<not> re_mapped re then Some (vrh, re\<lparr>re_is_update := False\<rparr>, hdr)
      else map_option (\<lambda>(vrh1, k, rings, hdr1). (vrh1, re\<lparr>re_kiov := k, re_rings := rings, re_is_update := False\<rparr>, hdr1))
             (kvec_update_loop ie tables vr vrh (re_kiov re) (re_rings re) (replicate KVEC_BUF_NUM 0) 0 hdr))"

section \<open>The sender: taking buffers\<close>

text \<open>The ring for data of a size; while the sizes of the buffers are not known, the last one.\<close>

definition vop_kvec_size_to_ring_id :: "vop_peer_kvec_buf_header \<Rightarrow> u64 \<Rightarrow> nat" where
  "vop_kvec_size_to_ring_id hdr n =
     (case filter (\<lambda>r. n \<le> ucast (hd_send_max_size hdr ! r)) [0..<KVEC_BUF_NUM] of [] \<Rightarrow> KVEC_BUF_NUM - 1 | r # _ \<Rightarrow> r)"

definition kvec_cancelled :: "vop_peer_kvec \<Rightarrow> bool" where
  "kvec_cancelled k \<longleftrightarrow> pk_flags k AND VOP_KVEC_FLAG_CANCELLED \<noteq> 0"

text \<open>Cancelled elements are skipped; their flags are cleared, so that the loop ends for any contents of the memory.\<close>

lemma filter_update_less:
  "i < length xs \<Longrightarrow> P (xs ! i) \<Longrightarrow> \<not> P y \<Longrightarrow> length (filter P (xs[i := y])) < length (filter P xs)"
  by (induction xs arbitrary: i) (auto split: nat.splits)

function kvec_skip :: "u16 \<Rightarrow> u32 \<Rightarrow> vop_peer_kvec list \<Rightarrow> u16 \<Rightarrow> (vop_peer_kvec list \<times> u16) option" where
  "kvec_skip cnt n buf last_cnt =
     (if last_cnt = cnt then Some (buf, last_cnt)
      else let i = KVEC_COUNTER_TO_IDX (promote last_cnt) n
           in if length buf \<le> i then None
              else if kvec_cancelled (buf ! i)
              then kvec_skip cnt n (buf[i := (buf ! i)\<lparr>pk_flags := 0, pk_head := 0\<rparr>]) (KVEC_COUNTER_ADD last_cnt 1 n)
              else Some (buf, last_cnt))"
  by pat_completeness auto

termination
  by (relation "measure (\<lambda>(cnt, n, buf, last_cnt). length (filter kvec_cancelled buf))")
    (auto intro!: filter_update_less simp: kvec_cancelled_def)

declare kvec_skip.simps [simp del]

text \<open>Adjacent elements with the same head belong to one buffer.\<close>

partial_function (option) kvec_fetch :: "u16 \<Rightarrow> u16 \<Rightarrow> u32 \<Rightarrow> u16 \<Rightarrow> vop_peer_kvec list \<Rightarrow> nat \<Rightarrow> u16 \<Rightarrow> (vop_peer_kvec list \<times> u16) option" where
  "kvec_fetch avail last_cnt n head buf next num =
     (if KVEC_COUNTER_EQ (promote last_cnt + promote num) (promote avail) n then Some (buf, num)
      else if length buf \<le> next then None
      else if head = pk_head (buf ! next) \<and> promote num < n
      then kvec_fetch avail last_cnt n head (buf[next := (buf ! next)\<lparr>pk_head := 0\<rparr>])
             (KVEC_COUNTER_TO_IDX (word_of_nat next + 1) n) (num + 1)
      else Some (buf, num))"

text \<open>The result is the head, the number of vectors and the index of the first of them.\<close>

definition vop_kvec_get :: "nat \<Rightarrow> vop_kvec_ring list \<Rightarrow> vop_peer_kvec_buf_header \<Rightarrow>
    ((u16 \<times> u16 \<times> nat) res \<times> vop_kvec_ring list \<times> vop_peer_kvec_buf_header) option" where
  "vop_kvec_get r rings hdr =
     (let ring = rings ! r; n = kr_num ring; cnt = hd_idx hdr ! r
      in case kvec_skip cnt n (hd_rings hdr ! r) (kr_last_cnt ring) of
           None \<Rightarrow> None
         | Some (buf, lc) \<Rightarrow>
             if lc = cnt
             then Some (Inl EAGAIN, rings[r := ring\<lparr>kr_last_cnt := lc\<rparr>], hdr\<lparr>hd_rings := (hd_rings hdr)[r := buf]\<rparr>)
             else
               let first = KVEC_COUNTER_TO_IDX (promote lc) n;
                   head = pk_head (buf ! first)
               in (case kvec_fetch cnt lc n head (buf[first := (buf ! first)\<lparr>pk_head := 0\<rparr>])
                         (KVEC_COUNTER_TO_IDX (promote lc + 1) n) 1 of
                     None \<Rightarrow> None
                   | Some (buf1, num) \<Rightarrow>
                       Some (Inr (head, num, first),
                         rings[r := ring\<lparr>kr_last_cnt := KVEC_COUNTER_ADD lc (promote num) n, kr_stats_num := kr_stats_num ring + 1\<rparr>],
                         hdr\<lparr>hd_rings := (hd_rings hdr)[r := buf1[first := (buf1 ! first)\<lparr>pk_flags := VOP_KVEC_FLAG_IN_USE\<rparr>]]\<rparr>)))"

section \<open>Returning buffers\<close>

definition vop_kvec_used :: "u16 \<Rightarrow> u64 \<Rightarrow> vop_used_kiov_ring \<Rightarrow> vop_peer_kvec_buf_header \<Rightarrow>
    (vop_used_kiov_ring \<times> vop_peer_kvec_buf_header) option" where
  "vop_kvec_used head_to bytes_written ring hdr =
     (let idx = KVEC_COUNTER_TO_IDX (promote (ur_last_cnt ring)) (ur_num ring);
          lc = KVEC_COUNTER_ADD (ur_last_cnt ring) 1 (ur_num ring)
      in if length (hd_used hdr) \<le> idx then None
         else Some (ring\<lparr>ur_last_cnt := lc\<rparr>,
                hdr\<lparr>hd_used := (hd_used hdr)[idx := \<lparr>pu_len = ucast bytes_written, pu_head = head_to\<rparr>], hd_used_idx := lc\<rparr>))"

text \<open>
  The receiver gives the returned buffers back to its own queue, as long as the device is ready: \<open>ready k\<close> is what
  the test of the loop reads for the \<open>k\<close>-th time. A counter out of range is never reached.
\<close>

partial_function (option) vop_kvec_buf_consume :: "(nat \<Rightarrow> bool) \<Rightarrow> nat \<Rightarrow> vop_peer_kvec_buf_header \<Rightarrow> u32 \<Rightarrow> u16 \<Rightarrow> vring \<Rightarrow> vringh \<Rightarrow>
    (u16 \<times> vring \<times> vringh) option" where
  "vop_kvec_buf_consume ready k hdr n last_cnt vr vrh =
     (if \<not> ready k \<or> hd_used_idx hdr = last_cnt then Some (last_cnt, vr, vrh)
      else let i = KVEC_COUNTER_TO_IDX (promote last_cnt) n
           in if length (hd_used hdr) \<le> i then None
              else case vca_vringh_complete_kern vr vrh (pu_head (hd_used hdr ! i)) (pu_len (hd_used hdr ! i)) of
                     (vr1, vrh1) \<Rightarrow> vop_kvec_buf_consume ready (k + 1) hdr n (KVEC_COUNTER_ADD last_cnt 1 n) vr1 vrh1)"

section \<open>Cancelling a request\<close>

definition kvec_in_range :: "nat \<Rightarrow> nat \<Rightarrow> nat \<Rightarrow> bool" where
  "kvec_in_range idx_start idx_end i \<longleftrightarrow> idx_start = idx_end \<or>
     (idx_start < idx_end \<and> idx_start \<le> i \<and> i \<le> idx_end) \<or>
     (idx_end < idx_start \<and> (i \<le> idx_start \<or> idx_end \<le> i))"

partial_function (option) kvec_cancel_loop :: "nat \<Rightarrow> nat \<Rightarrow> u32 \<Rightarrow> u16 \<Rightarrow> vop_peer_kvec list \<Rightarrow> nat \<Rightarrow> vop_peer_kvec list option" where
  "kvec_cancel_loop idx_start idx_end n head buf i =
     (if length buf \<le> i then None
      else if pk_head (buf ! i) = head \<and> kvec_in_range idx_start idx_end i
      then kvec_cancel_loop idx_start idx_end n head
             (buf[i := (buf ! i)\<lparr>pk_flags := pk_flags (buf ! i) OR VOP_KVEC_FLAG_CANCELLED\<rparr>])
             (KVEC_COUNTER_TO_IDX (word_of_nat i + 1) n)
      else Some buf)"

text \<open>\<open>wait\<close> is the result of waiting for a transfer in progress: positive if it ended, 0 after the timeout.\<close>

definition vop_kvec_check_cancel :: "int \<Rightarrow> vop_kvec_ring list \<Rightarrow> vop_peer_kvec_buf_header \<Rightarrow> vop_peer_kvec_buf_header option" where
  "vop_kvec_check_cancel wait rings hdr =
     (let done = (\<lambda>st hdr. hdr\<lparr>hd_cancellation_status := Some st, hd_request_cancellation := False\<rparr>);
          r = unat (hd_cancelled_request_ring_id hdr);
          i = unat (hd_cancelled_request_idx hdr);
          ring = rings ! r;
          cnt = hd_idx hdr ! r;
          buf = hd_rings hdr ! r
      in if \<not> hd_request_cancellation hdr then Some hdr
         else if KVEC_BUF_NUM \<le> r then Some (done VOP_REQUEST_CANCEL_INVALID_REQUEST hdr)
         else if kr_num ring \<le> hd_cancelled_request_idx hdr then Some (done VOP_REQUEST_CANCEL_INVALID_REQUEST hdr)
         else if kr_last_cnt ring = cnt then Some (done VOP_REQUEST_CANCEL_INVALID_REQUEST hdr)
         else if length buf \<le> i then None
         else if pk_flags (buf ! i) AND VOP_KVEC_FLAG_IN_USE \<noteq> 0
         then Some (done (if 0 < wait then VOP_REQUEST_CANCEL_OK else if wait = 0 then VOP_REQUEST_CANCEL_TIMEOUT
                          else VOP_REQUEST_CANCEL_ERROR) hdr)
         else map_option (\<lambda>buf1. done VOP_REQUEST_CANCEL_OK (hdr\<lparr>hd_rings := (hd_rings hdr)[r := buf1]\<rparr>))
                (kvec_cancel_loop (KVEC_COUNTER_TO_IDX (promote (kr_last_cnt ring)) (kr_num ring))
                   (KVEC_COUNTER_TO_IDX (promote cnt) (kr_num ring)) (kr_num ring) (pk_head (buf ! i))
                   (buf[i := (buf ! i)\<lparr>pk_flags := pk_flags (buf ! i) OR VOP_KVEC_FLAG_CANCELLED\<rparr>])
                   (KVEC_COUNTER_TO_IDX (hd_cancelled_request_idx hdr + 1) (kr_num ring))))"

end
