(* ===== verification/Vop_Transfer.thy ===== *)
theory Vop_Transfer
  imports Vop_Kvec "HOL-Library.Multiset"
begin

unbundle bit_operations_syntax

text \<open>
  The transfer of a packet from the queue of the sender into a buffer of the receiver (\<open>vop/vop_common.c\<close>): a packet is
  read from the queue, a buffer is taken from the rings, a window to the buffer is mapped, the data is sent by the
  DMA engine or copied, and both buffers are returned. The engine moves whole blocks of 64 bytes, so that the data is
  put at an offset, which is written into the first byte of the buffer. \<open>None\<close> is a stop of the kernel.
\<close>

section \<open>State\<close>

definition VCA_VRING_ENTRIES :: nat where "VCA_VRING_ENTRIES = 1024"
definition VOP_RING_SIZE :: nat where "VOP_RING_SIZE = VCA_VRING_ENTRIES div 2"
definition VOP_RING_SIZE_MASK :: u16 where "VOP_RING_SIZE_MASK = word_of_nat VOP_RING_SIZE - 1"
definition SEND_ALIGN_OVERHEAD_DMA_SIZE :: u64 where "SEND_ALIGN_OVERHEAD_DMA_SIZE = DMA_MAX_OFFSET + PLX_DMA_ALIGN_BYTES"
definition SEND_ALIGN_OVERHEAD_MEMCPY_SIZE :: u64 where "SEND_ALIGN_OVERHEAD_MEMCPY_SIZE = 64"
definition VOP_INT_DMA_BUF_SIZE :: u64 where "VOP_INT_DMA_BUF_SIZE = 65536"

text \<open>
  One transfer. \<open>it_remapped\<close> is the bus address of the window, \<open>it_kvec_to\<close> the ring and the index of the first vector of the
  buffer of the receiver, \<open>it_kvec_buff_id\<close> is \<open>None\<close> for -1.
\<close>

record buffer_dma_item =
  it_id :: u16
  it_status_ready :: bool
  it_buf :: "u8 list"
  it_buf_da :: u64
  it_data_size :: u64
  it_remapped :: "u64 option"
  it_src_phys :: u64
  it_src_phys_da :: u64
  it_src_phys_sz :: u64
  it_jiffies :: u64
  it_vringh_tx :: bool
  it_k_from :: vringh_kiov
  it_head_from :: u16
  it_bytes_read :: u64
  it_kvec_buff_id :: "nat option"
  it_kvec_to :: "(nat \<times> nat) option"
  it_num_kvecs_to :: u32
  it_head_to :: u16
  it_bytes_written :: u64
  it_tx :: bool

text \<open>
  What the sender sees: its own queue \<open>vs_tx\<close>, the rings of receive buffers in its memory \<open>vs_hdr\<close>, the ring of returned buffers in the memory of
  the receiver \<open>vs_peer\<close>, its memory, the memory behind the windows by bus address, the windows and the mappings for the
  engine, the jobs that were given to the engine (destination, source, length, number of the item), and the interrupts to
  the receiver.
\<close>

record vop_sys =
  vs_ready :: bool
  vs_dma_dev :: bool
  vs_feature_desc_alignment :: bool
  vs_write_in_thread :: bool
  vs_items :: "buffer_dma_item list"
  vs_indicator_rcv :: u16
  vs_counter_dma_send :: u16
  vs_counter_done_transfer :: u16
  vs_tx :: vring
  vs_tx_vrh :: vringh
  vs_tx_notify :: bool
  vs_notified :: nat
  vs_rings :: "vop_kvec_ring list"
  vs_hdr :: vop_peer_kvec_buf_header
  vs_used :: vop_used_kiov_ring
  vs_peer :: vop_peer_kvec_buf_header
  vs_local :: "u64 \<Rightarrow> u8"
  vs_window :: "u64 \<Rightarrow> u8"
  vs_windows :: "u64 multiset"
  vs_maps :: "u64 multiset"
  vs_jobs :: "(u64 \<times> u64 \<times> u64 \<times> u16) list"
  vs_heads_up_used_irq :: vop_heads_up_irq
  vs_heads_up_sent :: nat

text \<open>
  Answers of the kernel: windows, mappings for the engine, whether there is a channel, whether the engine has a free
  descriptor, the result of the submission, the clock and \<open>jiffies_to_msecs\<close>.
\<close>

record vop_env =
  tv_ioremap :: "u64 \<Rightarrow> u64 \<Rightarrow> u64 option"
  tv_dma_map :: "u64 \<Rightarrow> u64"
  tv_channel :: bool
  tv_prep :: bool
  tv_submit :: "errno option"
  tv_jiffies :: u64
  tv_to_ms :: "u64 \<Rightarrow> u32"

definition get_time_jiff_not_zero :: "vop_env \<Rightarrow> u64" where
  "get_time_jiff_not_zero env = (if tv_jiffies env \<noteq> 0 then tv_jiffies env else - 1)"

definition item_of :: "u16 \<Rightarrow> vop_sys \<Rightarrow> buffer_dma_item" where
  "item_of x s = vs_items s ! unat x"

definition set_item :: "u16 \<Rightarrow> buffer_dma_item \<Rightarrow> vop_sys \<Rightarrow> vop_sys" where
  "set_item x it s = s\<lparr>vs_items := (vs_items s)[unat x := it]\<rparr>"

definition send_overhead :: "vop_sys \<Rightarrow> u64" where
  "send_overhead s = (if vs_dma_dev s then SEND_ALIGN_OVERHEAD_DMA_SIZE else SEND_ALIGN_OVERHEAD_MEMCPY_SIZE)"

definition ALIGN64 :: "u64 \<Rightarrow> u64" where
  "ALIGN64 x = (x + (PLX_DMA_ALIGN_BYTES - 1)) AND NOT (PLX_DMA_ALIGN_BYTES - 1)"

text \<open>Bytes that are written to a memory.\<close>

definition store :: "u64 \<Rightarrow> u8 list \<Rightarrow> (u64 \<Rightarrow> u8) \<Rightarrow> u64 \<Rightarrow> u8" where
  "store a bs m x = (if unat (x - a) < length bs then bs ! unat (x - a) else m x)"

definition load :: "(u64 \<Rightarrow> u8) \<Rightarrow> u64 \<Rightarrow> nat \<Rightarrow> u8 list" where
  "load m a n = map (\<lambda>k. m (a + word_of_nat k)) [0..<n]"

definition common_dev_notify_used :: "vop_env \<Rightarrow> vop_sys \<Rightarrow> vop_sys" where
  "common_dev_notify_used env s =
     (case vop_send_heads_up (tv_to_ms env) (tv_jiffies env) (vs_heads_up_used_irq s) of
        (b, irq) \<Rightarrow> s\<lparr>vs_heads_up_used_irq := irq, vs_heads_up_sent := vs_heads_up_sent s + (if b then 1 else 0)\<rparr>)"

section \<open>Items\<close>

definition buffer_dma_ring_item_reset :: "u16 \<Rightarrow> vop_sys \<Rightarrow> vop_sys option" where
  "buffer_dma_ring_item_reset x s =
     (let it = item_of x s;
          s1 = (case it_remapped it of None \<Rightarrow> s | Some w \<Rightarrow> s\<lparr>vs_windows := vs_windows s - {# w #}\<rparr>);
          s2 = (if it_src_phys_da it \<noteq> 0 \<and> vs_dma_dev s then s1\<lparr>vs_maps := vs_maps s1 - {# it_src_phys_da it #}\<rparr> else s1)
      in map_option (\<lambda>k. set_item x
             (it\<lparr>it_tx := False, it_data_size := 0, it_vringh_tx := False, it_head_from := USHRT_MAX, it_bytes_read := 0, it_jiffies := 0,
                it_kvec_buff_id := None, it_head_to := USHRT_MAX, it_kvec_to := None, it_num_kvecs_to := 0, it_bytes_written := 0,
                it_remapped := None, it_src_phys_da := 0, it_src_phys := 0, it_src_phys_sz := 0, it_k_from := k, it_status_ready := True\<rparr>) s2)
           (if kv_used (it_k_from it) \<noteq> 0 then vringh_kiov_reset (it_k_from it) else Some (it_k_from it)))"

definition buffer_dma_ring_get_read :: "vop_sys \<Rightarrow> u16 option \<times> vop_sys" where
  "buffer_dma_ring_get_read s =
     (let x = vs_indicator_rcv s AND VOP_RING_SIZE_MASK
      in if it_status_ready (item_of x s)
         then (Some x, (set_item x ((item_of x s)\<lparr>it_status_ready := False\<rparr>) s)\<lparr>vs_indicator_rcv := vs_indicator_rcv s + 1\<rparr>)
         else (None, s))"

definition put_descriptors :: "u16 \<Rightarrow> u64 \<Rightarrow> vop_sys \<Rightarrow> vop_sys" where
  "put_descriptors head n s =
     (case vca_vringh_complete_kern (vs_tx s) (vs_tx_vrh s) head (ucast n) of
        (vr, vrh) \<Rightarrow>
          if vs_tx_notify s
          then case vca_vringh_need_notify_kern vr vrh of
                 (b, vrh1) \<Rightarrow> s\<lparr>vs_tx := vr, vs_tx_vrh := vrh1, vs_notified := vs_notified s + (if b then 1 else 0)\<rparr>
          else s\<lparr>vs_tx := vr, vs_tx_vrh := vrh\<rparr>)"

section \<open>Reading a packet\<close>

text \<open>The first vector of a packet is the header, which is not sent, the second one is the data.\<close>

definition read_vector :: "vop_sys \<Rightarrow> nat \<Rightarrow> buffer_dma_item \<Rightarrow> buffer_dma_item" where
  "read_vector s i it =
     (let v = kv_iov (it_k_from it) ! i;
          it1 = (if i = 1
                 then let itd = it\<lparr>it_data_size := iov_len v\<rparr>
                      in if vs_dma_dev s \<and> \<not> vs_feature_desc_alignment s
                         then let n = (if VOP_INT_DMA_BUF_SIZE < iov_len v then VOP_INT_DMA_BUF_SIZE else iov_len v)
                              in itd\<lparr>it_data_size := n, it_buf := load (vs_local s) (iov_base v) (unat n) @ drop (unat n) (it_buf it)\<rparr>
                         else itd\<lparr>it_src_phys := iov_base v\<rparr>
                 else it)
      in it1\<lparr>it_bytes_read := it_bytes_read it1 + iov_len v\<rparr>)"

definition return_source :: "u16 \<Rightarrow> vop_sys \<Rightarrow> vop_sys" where
  "return_source x s =
     (let it = item_of x s
      in if it_vringh_tx it \<and> it_head_from it \<noteq> USHRT_MAX
         then set_item x (it\<lparr>it_head_from := USHRT_MAX\<rparr>) (put_descriptors (it_head_from it) (it_bytes_read it) s)
         else s)"

definition transfer_read :: "u16 \<Rightarrow> vop_sys \<Rightarrow> (unit res \<times> vop_sys) option" where
  "transfer_read x s =
     (let it = item_of x s; k = it_k_from it
      in if kv_used k \<le> kv_i k then None
         else
           let r = (if kv_used k \<noteq> 2 then Inl EIO else Inr ());
               it1 = (if kv_used k \<noteq> 2 then it
                      else (fold (read_vector s) [unat (kv_i k)..<2] it)\<lparr>it_k_from := k\<lparr>kv_i := 2\<rparr>\<rparr>);
               s1 = set_item x it1 s
           in Some (r, if vs_dma_dev s \<and> \<not> vs_feature_desc_alignment s then return_source x s1 else s1))"

section \<open>Taking a buffer of the receiver\<close>

definition take_kvec :: "u16 \<Rightarrow> nat \<Rightarrow> vop_sys \<Rightarrow> (unit res \<times> vop_sys) option" where
  "take_kvec x r s =
     (case vop_kvec_get r (vs_rings s) (vs_hdr s) of
        None \<Rightarrow> None
      | Some (Inl e, rings, hdr) \<Rightarrow>
          Some (Inl e, set_item x ((item_of x s)\<lparr>it_head_to := USHRT_MAX\<rparr>) (s\<lparr>vs_rings := rings, vs_hdr := hdr\<rparr>))
      | Some (Inr (h, m, i), rings, hdr) \<Rightarrow>
          Some (Inr (), set_item x ((item_of x s)\<lparr>it_head_to := h, it_num_kvecs_to := promote m, it_kvec_to := Some (r, i)\<rparr>)
                 (s\<lparr>vs_rings := rings, vs_hdr := hdr\<rparr>)))"

text \<open>\<open>wait\<close> is \<open>vop_wait_for_avail_desc\<close>: its result, and the memory after it, in which the receiver may have put buffers.\<close>

definition transfer_wait :: "(vop_peer_kvec_buf_header \<Rightarrow> unit res \<times> vop_peer_kvec_buf_header) \<Rightarrow> u16 \<Rightarrow> vop_sys \<Rightarrow> (unit res \<times> vop_sys) option" where
  "transfer_wait wait x s =
     (let it = item_of x s;
          r = vop_kvec_size_to_ring_id (vs_hdr s) (it_data_size it + send_overhead s);
          s1 = set_item x (it\<lparr>it_kvec_buff_id := Some r\<rparr>) s
      in case take_kvec x r s1 of
           None \<Rightarrow> None
         | Some (Inr _, s2) \<Rightarrow> Some (Inr (), s2)
         | Some (Inl _, s2) \<Rightarrow>
             (case wait (vs_hdr s2) of
                (Inl e, hdr) \<Rightarrow> Some (Inl e, s2\<lparr>vs_hdr := hdr\<rparr>)
              | (Inr _, hdr) \<Rightarrow>
                  (case take_kvec x r (s2\<lparr>vs_hdr := hdr\<rparr>) of
                     None \<Rightarrow> None
                   | Some (Inr _, s3) \<Rightarrow> Some (Inr (), s3)
                   | Some (Inl _, s3) \<Rightarrow> Some (Inl EBUSY, s3))))"

section \<open>Sending\<close>

definition memcpy_offset :: "u64 \<Rightarrow> u64" where
  "memcpy_offset src = (let off = src AND 3 in if off = 0 then 4 else off)"

definition transfer_memcpy_send :: "u16 \<Rightarrow> u64 \<Rightarrow> vop_sys \<Rightarrow> vop_sys option" where
  "transfer_memcpy_send x n s =
     (let it = item_of x s; src = it_src_phys it
      in if src = 0 then None
         else if n = 0 then Some s
         else case it_remapped it of
                None \<Rightarrow> None
              | Some dst \<Rightarrow>
                  if vs_feature_desc_alignment s
                  then let off = memcpy_offset src
                       in if send_overhead s < off then None
                          else Some (s\<lparr>vs_window := store (dst + off) (load (vs_local s) src (unat n)) (store dst [ucast off] (vs_window s))\<rparr>)
                  else Some (s\<lparr>vs_window := store dst (load (vs_local s) src (unat n)) (vs_window s)\<rparr>))"

definition vop_async_dma :: "vop_env \<Rightarrow> u64 \<Rightarrow> u64 \<Rightarrow> u64 \<Rightarrow> u16 \<Rightarrow> vop_sys \<Rightarrow> unit res \<times> vop_sys" where
  "vop_async_dma env dst src len x s =
     (if \<not> tv_channel env then (Inl EBUSY, s)
      else if \<not> tv_prep env then (Inl ENOMEM, s)
      else case tv_submit env of
        Some e \<Rightarrow> (Inl e, set_item x ((item_of x s)\<lparr>it_tx := False\<rparr>) s)
      | None \<Rightarrow> (Inr (), set_item x ((item_of x s)\<lparr>it_tx := True\<rparr>) (s\<lparr>vs_jobs := vs_jobs s @ [(dst, src, len, x)]\<rparr>)))"

text \<open>Where the engine reads and writes, how much, and the offset of the data in the buffer.\<close>

definition dma_plan :: "u64 \<Rightarrow> u64 \<Rightarrow> u64 \<Rightarrow> u64 \<times> u64 \<times> u64 \<times> u64" where
  "dma_plan src dst n =
     (let new_dst = ALIGN64 dst;
          offset_dst = new_dst - dst;
          new_src = src AND NOT (PLX_DMA_ALIGN_BYTES - 1);
          offset_src = src - new_src;
          offset = offset_dst + offset_src;
          sz = ALIGN64 (n + offset_src)
      in if offset_dst < 1 then (new_src, new_dst + PLX_DMA_ALIGN_BYTES, sz, offset + PLX_DMA_ALIGN_BYTES)
         else (new_src, new_dst, sz, offset))"

definition transfer_dma_send :: "vop_env \<Rightarrow> u16 \<Rightarrow> u64 \<Rightarrow> u64 \<Rightarrow> vop_sys \<Rightarrow> (unit res \<times> vop_sys) option" where
  "transfer_dma_send env x dst n s =
     (let it = (item_of x s)\<lparr>it_jiffies := get_time_jiff_not_zero env\<rparr>;
          finish = (\<lambda>(r, s'). case r of Inl e \<Rightarrow> (r, set_item x ((item_of x s')\<lparr>it_jiffies := 0\<rparr>) s') | Inr _ \<Rightarrow> (r, s'))
      in if vs_feature_desc_alignment s
         then case dma_plan (it_src_phys it) dst n of
                (new_src, new_dst, sz, offset) \<Rightarrow>
                  (case it_remapped it of
                     None \<Rightarrow> None
                   | Some w \<Rightarrow>
                       if it_src_phys it = 0 \<or> DMA_MAX_OFFSET < offset \<or> it_tx it then None
                       else
                         let da = tv_dma_map env new_src;
                             s1 = set_item x (it\<lparr>it_src_phys_sz := sz, it_src_phys_da := da\<rparr>)
                                    (s\<lparr>vs_window := store w [ucast offset] (vs_window s), vs_maps := add_mset da (vs_maps s)\<rparr>)
                         in Some (finish (vop_async_dma env new_dst da sz x s1)))
         else if it_src_phys it \<noteq> 0 \<or> it_tx it then None
         else Some (finish (vop_async_dma env dst (it_buf_da it) (ALIGN64 n) x (set_item x it s))))"

text \<open>The second attempt to map a window is made while waiting for one to be unmapped; its answer is part of \<open>tv_ioremap\<close>.\<close>

definition transfer_ioremap :: "vop_env \<Rightarrow> u16 \<Rightarrow> u64 \<Rightarrow> u64 \<Rightarrow> vop_sys \<Rightarrow> bool \<times> vop_sys" where
  "transfer_ioremap env x pa len s =
     (case tv_ioremap env pa len of
        None \<Rightarrow> (False, set_item x ((item_of x s)\<lparr>it_remapped := None\<rparr>) s)
      | Some w \<Rightarrow> (True, set_item x ((item_of x s)\<lparr>it_remapped := Some w\<rparr>) (s\<lparr>vs_windows := add_mset w (vs_windows s)\<rparr>)))"

section \<open>Finishing\<close>

definition transfer_done :: "vop_env \<Rightarrow> u16 \<Rightarrow> vop_sys \<Rightarrow> vop_sys option" where
  "transfer_done env x s =
     (let it = item_of x s
      in case (if it_status_ready it then Some s
               else map_option (return_source x)
                      (if it_head_to it = USHRT_MAX then Some s
                       else map_option (\<lambda>(ring, hdr). common_dev_notify_used env
                                                  (set_item x (it\<lparr>it_head_to := USHRT_MAX\<rparr>) (s\<lparr>vs_used := ring, vs_peer := hdr\<rparr>)))
                              (vop_kvec_used (it_head_to it) (it_bytes_written it) (vs_used s) (vs_peer s)))) of
           None \<Rightarrow> None
         | Some s1 \<Rightarrow>
             (case it_kvec_to it of
                None \<Rightarrow> None
              | Some (r, i) \<Rightarrow>
                  let buf = hd_rings (vs_hdr s1) ! r
                  in if length buf \<le> i then None
                     else buffer_dma_ring_item_reset x
                            (s1\<lparr>vs_hdr := (vs_hdr s1)\<lparr>hd_rings := (hd_rings (vs_hdr s1))[r := buf[i := (buf ! i)\<lparr>pk_flags := 0\<rparr>]]\<rparr>\<rparr>)))"

definition transfer_write :: "vop_env \<Rightarrow> u16 \<Rightarrow> vop_sys \<Rightarrow> (unit res \<times> vop_sys) option" where
  "transfer_write env x s =
     (let it = item_of x s
      in if it_num_kvecs_to it \<noteq> 2 then Some (Inl EIO, s)
         else case it_kvec_to it of
           None \<Rightarrow> None
         | Some (r, i) \<Rightarrow>
             let v0 = pk_iov (hd_rings (vs_hdr s) ! r ! i);
                 v1 = pk_iov (hd_rings (vs_hdr s) ! r ! (i + 1));
                 n = it_data_size it;
                 s0 = common_dev_notify_used env s
             in if length (hd_rings (vs_hdr s) ! r) \<le> i + 1 then None
                else if iov_len v1 < n + send_overhead s
                then Some (Inl ENOSPC, set_item x (it\<lparr>it_bytes_written := 0\<rparr>) s0)
                else
                  let s1 = set_item x (it\<lparr>it_bytes_written := it_bytes_written it + iov_len v0 + n\<rparr>) s0
                  in (case transfer_ioremap env x (iov_base v1) (n + send_overhead s) s1 of
                        (False, s2) \<Rightarrow> Some (Inl ENOMEM, s2)
                      | (True, s2) \<Rightarrow>
                          if vs_dma_dev s then transfer_dma_send env x (the (it_remapped (item_of x s2))) n s2
                          else (case transfer_memcpy_send x n s2 of
                                  None \<Rightarrow> None
                                | Some s3 \<Rightarrow> map_option (\<lambda>s4. (Inr (), s4)) (transfer_done env x s3))))"

text \<open>The callback of the engine for item \<open>x\<close> finishes all items up to it.\<close>

fun done_loop :: "vop_env \<Rightarrow> nat \<Rightarrow> u16 \<Rightarrow> vop_sys \<Rightarrow> vop_sys option" where
  "done_loop env 0 y s = Some s"
| "done_loop env (Suc k) y s =
     (case (if it_jiffies (item_of y s) \<noteq> 0 then transfer_done env y (set_item y ((item_of y s)\<lparr>it_jiffies := 0\<rparr>) s) else Some s) of
        None \<Rightarrow> None
      | Some s1 \<Rightarrow> done_loop env k ((y + 1) AND VOP_RING_SIZE_MASK) (s1\<lparr>vs_counter_done_transfer := vs_counter_done_transfer s1 + 1\<rparr>))"

definition transfer_done_callback :: "vop_env \<Rightarrow> u16 \<Rightarrow> vop_sys \<Rightarrow> vop_sys option" where
  "transfer_done_callback env x s =
     (let first = vs_counter_done_transfer s AND VOP_RING_SIZE_MASK;
          last = (x + 1) AND VOP_RING_SIZE_MASK;
          s1 = set_item x ((item_of x s)\<lparr>it_tx := False\<rparr>) s
      in if vs_ready s then done_loop env (unat ((last - first) AND VOP_RING_SIZE_MASK)) first s1 else Some s1)"

text \<open>A whole transfer up to the start of the engine; waiting is repeated as long as it is interrupted by another taker.\<close>

partial_function (option) wait_loop :: "(nat \<Rightarrow> vop_peer_kvec_buf_header \<Rightarrow> unit res \<times> vop_peer_kvec_buf_header) \<Rightarrow> nat \<Rightarrow> u16 \<Rightarrow> vop_sys \<Rightarrow>
    (unit res \<times> vop_sys) option" where
  "wait_loop waits k x s =
     (case transfer_wait (waits k) x s of
        None \<Rightarrow> None
      | Some (r, s1) \<Rightarrow> if r = Inl EBUSY then wait_loop waits (Suc k) x s1 else Some (r, s1))"

definition transfer :: "vop_env \<Rightarrow> (nat \<Rightarrow> vop_peer_kvec_buf_header \<Rightarrow> unit res \<times> vop_peer_kvec_buf_header) \<Rightarrow> u16 \<Rightarrow> vop_sys \<Rightarrow>
    (unit res \<times> vop_sys) option" where
  "transfer env waits x s =
     (case transfer_read x s of
        None \<Rightarrow> None
      | Some (Inl e, s1) \<Rightarrow> map_option (\<lambda>s2. (Inl e, s2)) (transfer_done env x s1)
      | Some (Inr _, s1) \<Rightarrow>
          (case wait_loop waits 0 x s1 of
             None \<Rightarrow> None
           | Some (Inl e, s2) \<Rightarrow> Some (Inl e, s2)
           | Some (Inr _, s2) \<Rightarrow>
               if \<not> vs_write_in_thread s
               then (case transfer_write env x s2 of
                       None \<Rightarrow> None
                     | Some (Inl e, s3) \<Rightarrow> map_option (\<lambda>s4. (Inl e, s4)) (transfer_done env x s3)
                     | Some (Inr _, s3) \<Rightarrow> Some (Inr (), s3))
               else if it_id (item_of x s2) \<noteq> vs_counter_dma_send s2 AND VOP_RING_SIZE_MASK then None
               else Some (Inr (), s2\<lparr>vs_counter_dma_send := vs_counter_dma_send s2 + 1\<rparr>)))"

section \<open>Tasks\<close>

text \<open>The answers of \<open>wait_for_completion_interruptible_timeout\<close>: an interruption, a timeout, or the completion.\<close>

datatype wait_answer = Wait_Interrupted | Wait_Timeout | Wait_Done

text \<open>The waits in turn, each with whether the device is ready before and after it; the time left is an \<open>int\<close> of the language.\<close>

fun vop_wait_for_completion :: "(bool \<times> wait_answer \<times> bool) list \<Rightarrow> int \<Rightarrow> unit res" where
  "vop_wait_for_completion [] timeout_ms = Inl ENODEV"
| "vop_wait_for_completion ((ready, a, ready_after) # as) timeout_ms =
     (if \<not> ready then Inl ENODEV
      else case a of
             Wait_Interrupted \<Rightarrow> Inl EINTR
           | Wait_Done \<Rightarrow> if ready_after then Inr () else Inl ENODEV
           | Wait_Timeout \<Rightarrow> if timeout_ms - 300 \<le> 0 then Inl EBUSY else vop_wait_for_completion as (timeout_ms - 300))"

definition item_get_descriptors :: "iov_env \<Rightarrow> (u64 \<Rightarrow> vring_desc list option) \<Rightarrow> u16 \<Rightarrow> vop_sys \<Rightarrow> vop_sys option" where
  "item_get_descriptors ie tables x s =
     (let it = item_of x s
      in case vop_common_get_descriptors ie tables (vs_tx s) (vs_tx_vrh s) (it_head_from it) (it_k_from it) True of
           None \<Rightarrow> None
         | Some (_, vrh, h, k) \<Rightarrow> Some (set_item x (it\<lparr>it_head_from := h, it_k_from := k\<rparr>) (s\<lparr>vs_tx_vrh := vrh\<rparr>)))"

text \<open>
  One turn of the loop of \<open>sync_descriptors_read_task_step\<close>: the packet is sent, and the first value is true, or the task waits; \<open>r\<close> is the result
  of waiting.
\<close>

definition read_task_turn :: "vop_env \<Rightarrow> iov_env \<Rightarrow> (u64 \<Rightarrow> vring_desc list option) \<Rightarrow>
    (nat \<Rightarrow> vop_peer_kvec_buf_header \<Rightarrow> unit res \<times> vop_peer_kvec_buf_header) \<Rightarrow> unit res \<Rightarrow> u16 \<Rightarrow> vop_sys \<Rightarrow> (bool \<times> vop_sys) option" where
  "read_task_turn env ie tables waits r x s =
     (case (if it_head_from (item_of x s) = USHRT_MAX \<and> \<not> it_vringh_tx (item_of x s) then item_get_descriptors ie tables x s else Some s) of
        None \<Rightarrow> None
      | Some s1 \<Rightarrow>
          if it_head_from (item_of x s1) \<noteq> USHRT_MAX
          then map_option (\<lambda>(_, s2). (True, s2)) (transfer env waits x (set_item x ((item_of x s1)\<lparr>it_vringh_tx := True\<rparr>) s1))
          else if r = Inl EBUSY then map_option (\<lambda>s2. (False, s2)) (item_get_descriptors ie tables x s1)
          else Some (False, s1))"

text \<open>The loop of \<open>sync_descriptors_dma_task\<close> over the items that were handed to it.\<close>

fun dma_task_loop :: "vop_env \<Rightarrow> nat \<Rightarrow> u16 \<Rightarrow> vop_sys \<Rightarrow> vop_sys option" where
  "dma_task_loop env 0 cnt s = Some s"
| "dma_task_loop env (Suc k) cnt s =
     (let y = cnt AND VOP_RING_SIZE_MASK
      in case (if it_status_ready (item_of y s) then Some s
               else case transfer_write env y s of
                      None \<Rightarrow> None
                    | Some (Inl _, s1) \<Rightarrow> transfer_done env y s1
                    | Some (Inr _, s1) \<Rightarrow> Some s1) of
           None \<Rightarrow> None
         | Some s1 \<Rightarrow> dma_task_loop env k (cnt + 1) s1)"

definition sync_descriptors_dma_task_round :: "vop_env \<Rightarrow> u16 \<Rightarrow> vop_sys \<Rightarrow> (u16 \<times> vop_sys) option" where
  "sync_descriptors_dma_task_round env cnt s =
     (if vs_ready s
      then map_option (\<lambda>s1. (vs_counter_dma_send s, s1)) (dma_task_loop env (unat (vs_counter_dma_send s - cnt)) cnt s)
      else Some (cnt, s))"

text \<open>The mode of the transfers: \<open>test_bit\<close> is the bit of the feature, \<open>features\<close> and \<open>feature_len\<close> those of the other side.\<close>

definition VOP_CHECK_FEATURE :: "u8 list \<Rightarrow> nat \<Rightarrow> nat \<Rightarrow> bool" where
  "VOP_CHECK_FEATURE features bits test_bit \<longleftrightarrow> test_bit < bits \<and> bit (features ! (test_bit div 8)) (test_bit mod 8)"

definition common_dev_init_mode :: "nat \<Rightarrow> u8 list \<Rightarrow> nat \<Rightarrow> bool \<Rightarrow> vop_sys \<Rightarrow> vop_sys" where
  "common_dev_init_mode test_bit features feature_len dma_ch s =
     (let f = VOP_CHECK_FEATURE features (min feature_len 8 * 8) test_bit
      in s\<lparr>vs_feature_desc_alignment := f, vs_write_in_thread := (if dma_ch then \<not> f else True)\<rparr>)"

section \<open>Intermediate buffers\<close>

text \<open>
  The memory of the items: for every item whether it has a buffer and whether it is mapped. \<open>rg_live\<close> tells that the memory
  of the ring was not freed; an access to a freed ring is \<open>None\<close>.
\<close>

record ring_heap =
  rg_live :: bool
  rg_bufs :: "(bool \<times> bool) list"

definition buffer_dma_ring_deinit :: "ring_heap \<Rightarrow> ring_heap option" where
  "buffer_dma_ring_deinit g = (if rg_live g then Some (g\<lparr>rg_live := False, rg_bufs := []\<rparr>) else None)"

fun items_alloc_loop :: "(nat \<Rightarrow> bool) \<Rightarrow> (nat \<Rightarrow> errno option) \<Rightarrow> bool \<Rightarrow> nat list \<Rightarrow> (bool \<times> bool) list \<Rightarrow> unit res \<times> (bool \<times> bool) list" where
  "items_alloc_loop pages map_err dma [] bufs = (Inr (), bufs)"
| "items_alloc_loop pages map_err dma (i # is) bufs =
     (if fst (bufs ! i) then items_alloc_loop pages map_err dma is bufs
      else if \<not> pages i then (Inl ENOMEM, bufs)
      else if \<not> dma then items_alloc_loop pages map_err dma is (bufs[i := (True, False)])
      else case map_err i of
             Some e \<Rightarrow> (Inl e, bufs[i := (True, False)])
           | None \<Rightarrow> items_alloc_loop pages map_err dma is (bufs[i := (True, True)]))"

text \<open>The result, the ring and whether the device still refers to it.\<close>

definition buffer_dma_ring_items_alloc :: "(nat \<Rightarrow> bool) \<Rightarrow> (nat \<Rightarrow> errno option) \<Rightarrow> bool \<Rightarrow> ring_heap \<Rightarrow> (unit res \<times> ring_heap \<times> bool) option" where
  "buffer_dma_ring_items_alloc pages map_err dma g =
     (case items_alloc_loop pages map_err dma [0..<VOP_RING_SIZE] (rg_bufs g) of
        (Inr _, bufs) \<Rightarrow> Some (Inr (), g\<lparr>rg_bufs := bufs\<rparr>, True)
      | (Inl e, bufs) \<Rightarrow> map_option (\<lambda>g1. (Inl e, g1, False)) (buffer_dma_ring_deinit (g\<lparr>rg_bufs := bufs\<rparr>)))"

definition buffer_dma_ring_init :: "bool \<Rightarrow> bool \<Rightarrow> (nat \<Rightarrow> bool) \<Rightarrow> (nat \<Rightarrow> errno option) \<Rightarrow> bool \<Rightarrow> bool \<Rightarrow> (unit res \<times> ring_heap \<times> bool) option" where
  "buffer_dma_ring_init ring_ok items_ok pages map_err dma feature =
     (if \<not> ring_ok then Some (Inl ENOMEM, \<lparr>rg_live = False, rg_bufs = []\<rparr>, False)
      else if \<not> items_ok
      then map_option (\<lambda>g. (Inl ENOMEM, g, False)) (buffer_dma_ring_deinit \<lparr>rg_live = True, rg_bufs = []\<rparr>)
      else
        let g = \<lparr>rg_live = True, rg_bufs = replicate VOP_RING_SIZE (False, False)\<rparr>
        in if feature then Some (Inr (), g, True)
           else case buffer_dma_ring_items_alloc pages map_err dma g of
                  None \<Rightarrow> None
                | Some (Inr _, g1, p) \<Rightarrow> Some (Inr (), g1, p)
                | Some (Inl e, g1, _) \<Rightarrow> map_option (\<lambda>g2. (Inl e, g2, False)) (buffer_dma_ring_deinit g1))"

end
