(* ===== verification/Virtio_Notify.thy ===== *)
theory Virtio_Notify
  imports Virtio_Ring_Facts Vringh
begin

unbundle bit_operations_syntax

text \<open>
  Notifications of the queues of the virtual network, and the layout of their memory. A user that has found
  nothing to do and then asks for a notification gets one as soon as the other user has something for it;
  this holds with event indices and with flags.
\<close>

section \<open>Event indices\<close>

lemma need_event_iff: "vring_need_event e new old \<longleftrightarrow> unat (e - old) < unat (new - old)"
proof -
  define d x where "d = new - old" and "x = e - old"
  have "new - e - 1 = d - x - 1" by (simp add: d_def x_def)
  moreover have "d - x - 1 < d \<longleftrightarrow> x < d"
  proof (cases "x < d")
    case True
    then have "unat (d - x) = unat d - unat x" "unat x < unat d" by (simp_all add: unat_sub_if' word_less_nat_alt)
    moreover have "d - x \<noteq> 0" using True by auto
    ultimately have "unat (d - x - 1) = unat d - unat x - 1" by (simp add: unat_minus_one)
    then show ?thesis using True \<open>unat x < unat d\<close> by (simp add: word_less_nat_alt)
  next
    case False
    then have "unat d \<le> unat x" by (simp add: word_less_nat_alt)
    then have "unat (d - x - 1) = (65535 + unat d) - unat x"
      using u16_less [of d] u16_less [of x] by (cases "d = x") (auto simp: unat_sub_if' unsigned_minus_1_eq_mask mask_eq_exp_minus_1 word_unat_eq_iff)
    then show ?thesis using False u16_less [of x] \<open>unat d \<le> unat x\<close> by (simp add: word_less_nat_alt)
  qed
  ultimately show ?thesis by (simp add: vring_need_event_def d_def x_def word_less_nat_alt)
qed

section \<open>An idle queue\<close>

definition idle_vq :: "bool \<Rightarrow> nat vring_virtqueue" where
  "idle_vq event = \<lparr>vq_vring = (ring_zero 2)\<lparr>vr_desc := link_free 2 (vr_desc (ring_zero 2))\<rparr>, vq_parent = False, vq_callback = True, vq_broken = False, vq_indirect = False,
     vq_event = event, vq_dma_map = False, free_head = 0, num_free = 2, num_added = 0, vq_last_used_idx = 0,
     vq_tokens = [None, None], vq_tables = (\<lambda>_. None), vq_maps = {#}, vq_kicks = 0\<rparr>"

definition idle_host :: "bool \<Rightarrow> vringh" where
  "idle_host event = \<lparr>event_indices = event, last_avail_idx = 0, h_last_used_idx = 0, completed = 0\<rparr>"

section \<open>From the host to the guest\<close>

definition complete_all :: "(u16 \<times> u32) list \<Rightarrow> vring \<times> vringh \<Rightarrow> vring \<times> vringh" where
  "complete_all xs s = fold (\<lambda>(head, len) (vr, vrh). vca_vringh_complete_kern vr vrh head len) xs s"

lemma complete_all_fields:
  "complete_all xs (vr, h) = (vr', h') \<Longrightarrow> unat (completed h) + length xs < 2 ^ 32 \<Longrightarrow>
   used_event vr' = used_event vr \<and> avail_flags vr' = avail_flags vr \<and> event_indices h' = event_indices h \<and>
   h_last_used_idx h' = h_last_used_idx h \<and> unat (completed h') = unat (completed h) + length xs"
proof (induction xs arbitrary: vr h)
  case (Cons x xs)
  obtain head len where x: "x = (head, len)" by (cases x)
  define s where "s = vca_vringh_complete_kern vr h head len"
  have c: "unat (completed h + 1) = unat (completed h) + 1" using Cons.prems(2) by (simp add: unat_word_ariths)
  have f: "used_event (fst s) = used_event vr" "avail_flags (fst s) = avail_flags vr" "event_indices (snd s) = event_indices h"
    "h_last_used_idx (snd s) = h_last_used_idx h" "completed (snd s) = completed h + 1"
    by (simp_all add: s_def vca_vringh_complete_kern_def vringh_complete_def Let_def)
  have "complete_all xs (fst s, snd s) = (vr', h')" using Cons.prems(1) by (simp add: complete_all_def x s_def)
  then show ?case using Cons.IH [of "fst s" "snd s"] f c Cons.prems(2) by simp
qed (simp add: complete_all_def)

text \<open>C21: no interrupt is lost: if enabling the callback finds that no buffer was returned, then the host
  notifies the guest after it has returned buffers, however many it returned before without a check.\<close>

theorem no_lost_interrupt:
  assumes "vca_virtqueue_enable_cb vq = (True, vq1)"
    "used_idx (vq_vring vq) = ucast (ucast (h_last_used_idx h) + completed h)"
    "xs \<noteq> []" "unat (completed h) + length xs < 2 ^ 32" "complete_all xs (vq_vring vq1, h) = (vr, h1)"
  shows "fst (vca_vringh_need_notify_kern vr h1)"
proof -
  have en: "used_event (vq_vring vq1) = vq_last_used_idx vq" "avail_flags (vq_vring vq1) AND VRING_AVAIL_F_NO_INTERRUPT = 0"
    "vq_last_used_idx vq = used_idx (vq_vring vq)"
    using assms(1) by (auto simp: vca_virtqueue_enable_cb_def vca_virtqueue_enable_cb_prepare_def vca_virtqueue_poll_def
        VRING_AVAIL_F_NO_INTERRUPT_def and.assoc ucast_back16)
  note f = complete_all_fields [OF assms(5,4)]
  show ?thesis
  proof (cases "event_indices h \<and> unat (completed h1) \<le> 0xffff")
    case False
    then show ?thesis using f en(2) by (auto simp: vca_vringh_need_notify_kern_def word_less_nat_alt)
  next
    case True
    define o1 where "o1 = h_last_used_idx h"
    have window: "ucast (ucast o1 + c) - o1 = (ucast c :: u16)" for c :: u32 by (simp add: ucast_add16 ucast_back16)
    have small: "unat (ucast c :: u16) = unat c" if "unat c \<le> 0xffff" for c :: u32
      using that by (simp add: unsigned_ucast_eq take_bit_nat_eq_self)
    have "unat (completed h) < unat (completed h1)" using f assms(3) by auto
    then have "vring_need_event (used_event vr) (ucast (ucast o1 + completed h1)) o1"
      using True f en(1,3) assms(2) by (simp add: need_event_iff window small flip: o1_def)
    then show ?thesis using True f by (simp add: vca_vringh_need_notify_kern_def o1_def)
  qed
qed

theorem no_lost_interrupt_witness:
  "fst (case complete_all [(0, 10)] (vq_vring (snd (vca_virtqueue_enable_cb (idle_vq True))), idle_host True) of
     (vr, h) \<Rightarrow> vca_vringh_need_notify_kern vr h)"
proof -
  define s where "s = complete_all [(0, 10)] (vq_vring (snd (vca_virtqueue_enable_cb (idle_vq True))), idle_host True)"
  have "fst (vca_virtqueue_enable_cb (idle_vq True))"
    by (simp add: vca_virtqueue_enable_cb_def vca_virtqueue_enable_cb_prepare_def vca_virtqueue_poll_def idle_vq_def ring_zero_def)
  then have "vca_virtqueue_enable_cb (idle_vq True) = (True, snd (vca_virtqueue_enable_cb (idle_vq True)))" by (metis prod.collapse)
  note lost = no_lost_interrupt [OF this, of "idle_host True" "[(0, 10)]" "fst s" "snd s"]
  have "fst (vca_vringh_need_notify_kern (fst s) (snd s))"
    by (rule lost) (simp_all add: s_def, simp_all add: idle_vq_def idle_host_def ring_zero_def)
  then show ?thesis unfolding s_def [symmetric] by (simp add: case_prod_beta)
qed

section \<open>From the guest to the host\<close>

type_synonym 't add_args = "sg_entry list list \<times> u32 \<times> u32 \<times> u32 \<times> 't"

fun add_all :: "vq_env \<Rightarrow> 't add_args list \<Rightarrow> 't vring_virtqueue \<Rightarrow> 't vring_virtqueue option" where
  "add_all env [] vq = Some vq"
| "add_all env ((sgs, total_sg, out_sgs, in_sgs, data) # xs) vq =
     (case virtqueue_add env vq sgs total_sg out_sgs in_sgs data of
        Some (Inr _, vq1) \<Rightarrow> add_all env xs vq1
      | _ \<Rightarrow> None)"

lemma add_fields:
  assumes "virtqueue_add env vq sgs total_sg out_sgs in_sgs data = Some (Inr (), vq')" "num_added vq + 1 \<noteq> 65535"
  shows "avail_idx (vq_vring vq') = avail_idx (vq_vring vq) + 1" "num_added vq' = num_added vq + 1"
    "avail_event (vq_vring vq') = avail_event (vq_vring vq)" "used_flags (vq_vring vq') = used_flags (vq_vring vq)"
    "vq_event vq' = vq_event vq"
  using assms by (auto simp: virtqueue_add_def publish_def Let_def split: if_splits option.splits bool.splits prod.splits)

lemma add_all_fields:
  "add_all env xs vq = Some vq' \<Longrightarrow> unat (num_added vq) + length xs < 65535 \<Longrightarrow>
   avail_idx (vq_vring vq') = avail_idx (vq_vring vq) + word_of_nat (length xs) \<and>
   unat (num_added vq') = unat (num_added vq) + length xs \<and> avail_event (vq_vring vq') = avail_event (vq_vring vq) \<and>
   used_flags (vq_vring vq') = used_flags (vq_vring vq) \<and> vq_event vq' = vq_event vq"
proof (induction env xs vq rule: add_all.induct)
  case (2 env sgs total_sg out_sgs in_sgs data xs vq)
  from "2.prems"(1) obtain vq1 where vq1: "virtqueue_add env vq sgs total_sg out_sgs in_sgs data = Some (Inr (), vq1)" "add_all env xs vq1 = Some vq'"
    by (auto split: option.splits sum.splits prod.splits)
  have n: "unat (num_added vq + 1) = unat (num_added vq) + 1" using "2.prems"(2) by (simp add: unat_word_ariths)
  then have "num_added vq + 1 \<noteq> 65535" using "2.prems"(2) by (auto simp: word_unat_eq_iff)
  note f = add_fields [OF vq1(1) this]
  show ?case using "2.IH" [OF vq1(1) refl refl vq1(2)] f n "2.prems"(2) by simp
qed simp

text \<open>C22: no kick is lost: if enabling notifications finds that no buffer is available, then the guest kicks the
  host after it has added buffers, however many it added before without a kick.\<close>

theorem no_lost_kick:
  assumes "vca_vringh_notify_enable_kern (vq_vring vq) h = (True, vr1)" "vq_event vq = event_indices h"
    "xs \<noteq> []" "unat (num_added vq) + length xs < 65535" "add_all env xs (vq\<lparr>vq_vring := vr1\<rparr>) = Some vq1"
  shows "fst (vca_virtqueue_kick_prepare vq1)"
proof -
  have en: "if event_indices h then avail_event vr1 = avail_idx (vq_vring vq) else used_flags vr1 = 0"
    "avail_idx vr1 = avail_idx (vq_vring vq)"
    using assms(1) by (auto simp: vca_vringh_notify_enable_kern_def split: if_splits)
  have f: "avail_idx (vq_vring vq1) = avail_idx vr1 + word_of_nat (length xs)"
    "unat (num_added vq1) = unat (num_added vq) + length xs" "avail_event (vq_vring vq1) = avail_event vr1"
    "used_flags (vq_vring vq1) = used_flags vr1" "vq_event vq1 = vq_event vq"
    using add_all_fields [OF assms(5)] assms(4) by auto
  show ?thesis
  proof (cases "event_indices h")
    case False
    then show ?thesis using f(4,5) en(1) assms(2) by (simp add: vca_virtqueue_kick_prepare_def Let_def)
  next
    case True
    define c :: u16 where "c = ucast (num_added vq1)"
    have c: "unat c = unat (num_added vq) + length xs"
      using f(2) assms(4) by (simp add: c_def unsigned_ucast_eq take_bit_nat_eq_self)
    have "unat (avail_event vr1 - (avail_idx (vq_vring vq1) - c)) = unat (num_added vq)"
    proof -
      have "avail_event vr1 - (avail_idx (vq_vring vq1) - c) = c - word_of_nat (length xs)"
        using f(1) en True by simp
      then show ?thesis using c assms(4) by (simp only:) (simp add: unat_sub_if' unat_of_nat)
    qed
    moreover have "0 < length xs" using assms(3) by simp
    ultimately have "vring_need_event (avail_event vr1) (avail_idx (vq_vring vq1)) (avail_idx (vq_vring vq1) - c)"
      by (simp add: need_event_iff c)
    then show ?thesis using True f(3,5) assms(2) by (simp add: vca_virtqueue_kick_prepare_def Let_def c_def)
  qed
qed

theorem no_lost_kick_witness:
  "\<exists>vq. add_all id_env [([[\<lparr>sg_phys = 0x1000, sg_length = 64, sg_end = True, sg_dma = 0\<rparr>]], 1, 1, 0, 7)]
       ((idle_vq True)\<lparr>vq_vring := snd (vca_vringh_notify_enable_kern (vq_vring (idle_vq True)) (idle_host True))\<rparr>) = Some vq \<and>
     fst (vca_virtqueue_kick_prepare vq)"
proof -
  define args :: "nat add_args list" where "args = [([[\<lparr>sg_phys = 0x1000, sg_length = 64, sg_end = True, sg_dma = 0\<rparr>]], 1, 1, 0, 7)]"
  define vr where "vr = snd (vca_vringh_notify_enable_kern (vq_vring (idle_vq True)) (idle_host True))"
  have en: "vca_vringh_notify_enable_kern (vq_vring (idle_vq True)) (idle_host True) = (True, vr)"
    by (simp add: vr_def vca_vringh_notify_enable_kern_def idle_vq_def idle_host_def ring_zero_def)
  have "add_all id_env args ((idle_vq True)\<lparr>vq_vring := vr\<rparr>) \<noteq> None"
    by (simp add: args_def vr_def vca_vringh_notify_enable_kern_def idle_vq_def idle_host_def ring_zero_def virtqueue_add_def Let_def
        walk_all_def link_free_def enumerate_Suc_eq publish_def)
  then obtain vq where "add_all id_env args ((idle_vq True)\<lparr>vq_vring := vr\<rparr>) = Some vq" by blast
  moreover from no_lost_kick [OF en _ _ _ this] have "fst (vca_virtqueue_kick_prepare vq)"
    by (simp add: idle_vq_def idle_host_def args_def)
  ultimately show ?thesis by (auto simp: vr_def args_def)
qed

section \<open>The layout of a ring\<close>

lemma unat_align: "k < 64 \<Longrightarrow> unat (2 ^ k :: u64) = 2 ^ k"
proof -
  assume k: "k < 64"
  then have "(2 :: nat) ^ k < 2 ^ 64" by (intro power_strict_increasing) auto
  moreover have "(2 ^ k :: u64) = word_of_nat (2 ^ k)" by simp
  ultimately show ?thesis by (simp only: unsigned_of_nat len_num1) (use k in \<open>simp add: take_bit_nat_eq_self\<close>)
qed

lemma align_down:
  assumes "k < 64"
  shows "unat ((x :: u64) AND NOT (2 ^ k - 1)) = unat x div 2 ^ k * 2 ^ k"
proof -
  have "x AND NOT (2 ^ k - 1) = push_bit k (drop_bit k x)"
    by (rule bit_word_eqI) (auto simp: mask_eq_exp_minus_1 [symmetric] bit_push_bit_iff bit_drop_bit_eq bit_and_iff bit_not_iff bit_mask_iff)
  then have "unat (x AND NOT (2 ^ k - 1)) = unat (x div 2 ^ k * 2 ^ k)" by (simp add: push_bit_eq_mult drop_bit_eq_div)
  moreover have "unat (2 ^ k :: u64) = 2 ^ k" using assms by (rule unat_align)
  moreover have "unat x < 2 ^ LENGTH(64)" by (rule unsigned_less)
  then have "unat x div 2 ^ k * 2 ^ k < 2 ^ LENGTH(64)" by (rule order_le_less_trans [OF div_times_less_eq_dividend])
  ultimately show ?thesis by (simp add: unat_word_ariths mod_mult_left_eq unat_div)
qed

text \<open>C40: the three areas of a ring do not overlap, the used ring is aligned, and \<open>vring_size\<close> is what they need.\<close>

theorem vring_layout:
  assumes "num \<le> 32768" "k \<le> 16" "2 ^ k dvd unat p" "unat p < 2 ^ 63" "vring_init num p (2 ^ k) = (desc, avail, used)"
  shows "unat desc = unat p \<and> unat avail = unat desc + 16 * unat num \<and> unat avail + 6 + 2 * unat num \<le> unat used \<and>
    2 ^ k dvd unat used \<and> unat used + 6 + 8 * unat num = unat p + unat (vring_size num (2 ^ k))"
proof -
  define n where "n = unat num"
  have n: "n \<le> 32768" "unat (ucast num :: u64) = n" using assms(1) by (auto simp: n_def word_le_nat_alt unsigned_ucast_eq take_bit_nat_eq_self)
  define A :: nat where "A = 2 ^ k"
  have A: "0 < A" "A \<le> 65536" "unat (2 ^ k :: u64) = A" "A dvd unat p"
    using assms(2,3) power_increasing [of k 16 "2 :: nat"] by (auto simp: A_def unat_align)
  define need where "need = 16 * n + 2 * (3 + n)"
  have av: "avail = p + ucast num * 16" "desc = p" and us: "used = (avail + 4 + 2 * ucast num + 2 + 2 ^ k - 1) AND NOT (2 ^ k - 1)"
    using assms(5) by (auto simp: vring_init_def Let_def)
  have ua: "unat avail = unat p + 16 * n" using n assms(4) by (simp add: av(1) unat_word_ariths)
  have "unat (avail + 4 + 2 * ucast num + 2 + 2 ^ k - 1) = unat p + need + A - 1"
    using n A ua assms(4) by (simp add: unat_word_ariths unat_sub_if' need_def)
  moreover obtain m where m: "unat p = A * m" using A(4) by auto
  ultimately have "unat used = (A * m + need + A - 1) div A * A"
    using align_down [of k] assms(2) by (simp only: us A_def)
  moreover have "A * m + need + A - 1 = need + A - 1 + A * m" using A(1) by simp
  ultimately have uu: "unat used = A * m + (need + A - 1) div A * A"
    using A(1) by (simp only: div_mult_self2) (simp add: algebra_simps)
  have "unat (16 * ucast num + 2 * (3 + ucast num) + 2 ^ k - 1 :: u64) = need + A - 1"
    using n A by (simp add: unat_word_ariths unat_sub_if' need_def)
  then have t: "unat ((16 * ucast num + 2 * (3 + ucast num) + 2 ^ k - 1 :: u64) AND NOT (2 ^ k - 1)) = (need + A - 1) div A * A"
    using align_down [of k] assms(2) by (simp only: A_def)
  have "(need + A - 1) div A * A \<le> 1048576"
    by (rule order_trans [OF div_times_less_eq_dividend]) (use n(1) A(2) in \<open>simp add: need_def\<close>)
  with t n have s: "unat (((16 * ucast num + 2 * (3 + ucast num) + 2 ^ k - 1 :: u64) AND NOT (2 ^ k - 1)) + 2 * 3 + 8 * ucast num) =
      (need + A - 1) div A * A + 6 + 8 * n"
    by (simp only: unat_word_ariths) simp
  with \<open>(need + A - 1) div A * A \<le> 1048576\<close> n(1) have "unat (vring_size num (2 ^ k)) = (need + A - 1) div A * A + 6 + 8 * n"
    by (simp only: vring_size_def unsigned_ucast_eq) (simp add: take_bit_nat_eq_self)
  moreover have "need \<le> (need + A - 1) div A * A" using dividend_less_div_times [OF A(1), of "need + A - 1"] by linarith
  ultimately show ?thesis using uu ua m by (simp add: av(2) n_def need_def A_def)
qed

theorem vring_layout_witness:
  "\<exists>desc avail used. vring_init 256 0x10000 (2 ^ 12) = (desc, avail, used) \<and>
     unat used + 6 + 8 * unat (256 :: u32) = unat (0x10000 :: u64) + unat (vring_size 256 (2 ^ 12))"
proof -
  have "(2 :: nat) ^ 12 dvd unat (0x10000 :: u64)" "unat (0x10000 :: u64) < 2 ^ 63" by simp_all
  moreover have "(256 :: u32) \<le> 32768" by simp
  moreover obtain d a u where "vring_init 256 0x10000 (2 ^ 12) = (d, a, u)" by (metis prod_cases3)
  ultimately show ?thesis using vring_layout [of 256 12 "0x10000" d a u] by auto
qed

end
