(* ===== verification/Vop_Kvec_Facts.thy ===== *)
theory Vop_Kvec_Facts
  imports Vop_Kvec Virtio_Notify Vca_Runs "HOL-Library.Multiset" "HOL-Library.Sublist"
begin

unbundle bit_operations_syntax

text \<open>
  The three rings of receive buffers are queues: the sender takes the buffers of a ring in the order in which the
  receiver put them, each as the pair of vectors that was put, and a buffer is at least as large as the size that is
  published for its ring.
\<close>

section \<open>The counters\<close>

definition kvec_num :: "u32 \<Rightarrow> bool" where
  "kvec_num n \<longleftrightarrow> 0 < unat n \<and> unat n \<le> 32768"

lemma unat_kvec_add:
  assumes "kvec_num n" "unat v \<le> 65536"
  shows "unat (KVEC_COUNTER_ADD c v n) = (unat c + unat v) mod (2 * unat n)"
proof -
  have n: "unat (2 * n) = 2 * unat n" using assms(1) by (simp add: kvec_num_def unat_word_ariths)
  have "unat (promote c + v) = unat c + unat v" using assms(2) u16_less [of c] by (simp add: unat_word_ariths)
  then have "unat ((promote c + v) mod (2 * n)) = (unat c + unat v) mod (2 * unat n)" by (simp add: unat_mod_distrib n)
  moreover have "(unat c + unat v) mod (2 * unat n) < 2 * unat n" using assms(1) by (intro mod_less_divisor) (simp add: kvec_num_def)
  then have "(unat c + unat v) mod (2 * unat n) < 2 ^ 16"
    by (rule order_less_le_trans) (use assms(1) in \<open>simp add: kvec_num_def\<close>)
  ultimately show ?thesis by (simp add: KVEC_COUNTER_ADD_def unsigned_ucast_eq take_bit_nat_eq_self)
qed

lemma kvec_idx: "KVEC_COUNTER_TO_IDX c n = unat c mod unat n"
  by (simp add: KVEC_COUNTER_TO_IDX_def unat_mod_distrib)

interpretation kv: ring_counters kvec_num unat unat "\<lambda>n c. KVEC_COUNTER_ADD c 1 n" "\<lambda>n c. KVEC_COUNTER_TO_IDX (promote c) n"
proof unfold_locales
  fix n :: u32 and c a b :: u16
  show "kvec_num n \<Longrightarrow> 0 < unat n" by (simp add: kvec_num_def)
  show "unat a = unat b \<Longrightarrow> a = b" by (rule unat_inj)
  show "kvec_num n \<Longrightarrow> unat (KVEC_COUNTER_ADD c 1 n) = (unat c + 1) mod (2 * unat n)" by (simp add: unat_kvec_add)
  show "kvec_num n \<Longrightarrow> KVEC_COUNTER_TO_IDX (promote c) n = unat c mod unat n" by (simp add: kvec_idx)
qed

abbreviation knext :: "u32 \<Rightarrow> u16 \<Rightarrow> u16" where
  "knext n c \<equiv> KVEC_COUNTER_ADD c 1 n"

lemma kvec_add_2: "kvec_num n \<Longrightarrow> KVEC_COUNTER_ADD c 2 n = knext n (knext n c)"
  by (rule unat_inj) (simp add: unat_kvec_add mod_simps)

lemma kvec_eq_iff:
  assumes "kvec_num n" "unat c < 2 * unat n" "unat a < 2 * unat n" "unat v \<le> 65536"
  shows "KVEC_COUNTER_EQ (promote c + v) (promote a) n \<longleftrightarrow> KVEC_COUNTER_ADD c v n = a"
proof -
  have n: "unat (2 * n) = 2 * unat n" using assms(1) by (simp add: kvec_num_def unat_word_ariths)
  have "unat (promote c + v) = unat c + unat v" using assms(4) u16_less [of c] by (simp add: unat_word_ariths)
  then have "KVEC_COUNTER_EQ (promote c + v) (promote a) n \<longleftrightarrow> (unat c + unat v) mod (2 * unat n) = unat a"
    using assms(3) by (simp add: KVEC_COUNTER_EQ_def word_unat_eq_iff unat_mod_distrib n)
  then show ?thesis using unat_kvec_add [OF assms(1,4), of c] by (auto simp: word_unat_eq_iff)
qed

section \<open>One ring\<close>

type_synonym kbuf = "u16 \<times> kvec \<times> kvec"

definition kpair :: "kbuf \<Rightarrow> vop_peer_kvec list" where
  "kpair b = (case b of (h, k0, k1) \<Rightarrow> [\<lparr>pk_iov = k0, pk_head = h, pk_flags = 0\<rparr>, \<lparr>pk_iov = k1, pk_head = h, pk_flags = 0\<rparr>])"

text \<open>
  A ring with counters \<open>c\<close> of the sender, \<open>cnt\<close> that is visible, and \<open>p\<close> of the receiver. \<open>vs\<close> are the visible
  buffers, \<open>hs\<close> those that were put behind them.
\<close>

definition kring :: "u32 \<Rightarrow> vop_peer_kvec list \<Rightarrow> u16 \<Rightarrow> u16 \<Rightarrow> u16 \<Rightarrow> kbuf list \<Rightarrow> kbuf list \<Rightarrow> bool" where
  "kring n buf c cnt p vs hs \<longleftrightarrow> kvec_num n \<and> even (unat n) \<and> length buf = unat n \<and> kv.wf n c p \<and> kv.wf n c cnt \<and>
     even (unat p) \<and> even (unat c) \<and> kv.window n buf c p = concat (map kpair (vs @ hs)) \<and> kv.used n c cnt = 2 * length vs \<and>
     distinct (map fst (vs @ hs))"

lemma length_kpairs [simp]: "length (concat (map kpair bs)) = 2 * length bs"
  by (induction bs) (auto simp: kpair_def split: prod.splits)

lemma kring_used: "kring n buf c cnt p vs hs \<Longrightarrow> kv.used n c p = 2 * length (vs @ hs)"
  using kv.length_window [of n buf c p] by (simp add: kring_def)

lemma even_step:
  assumes "kvec_num n" "even (unat c)"
  shows "even (unat (knext n (knext n c)))"
  using assms by (simp add: unat_kvec_add mod_simps dvd_mod_iff)

lemma even_idx:
  assumes "even (unat n)" "even (unat c)" "kvec_num n" "unat c < 2 * unat n"
  shows "KVEC_COUNTER_TO_IDX (promote (knext n c)) n = KVEC_COUNTER_TO_IDX (promote c) n + 1"
    "KVEC_COUNTER_TO_IDX (promote c) n + 1 < unat n"
proof -
  have e: "even (unat c mod unat n)" using assms(1,2) by (simp add: dvd_mod_iff)
  moreover have "unat c mod unat n < unat n" using assms(3) by (simp add: kvec_num_def)
  ultimately have l: "unat c mod unat n + 1 < unat n" using assms(1) by (metis Suc_eq_plus1 Suc_lessI even_Suc)
  then show "KVEC_COUNTER_TO_IDX (promote c) n + 1 < unat n" by (simp add: kvec_idx)
  have "((unat c + 1) mod (2 * unat n)) mod unat n = (unat c + 1) mod unat n" by (simp add: mod_mod_cancel)
  moreover have "(unat c + 1) mod unat n = unat c mod unat n + 1" using l by (metis mod_add_left_eq mod_less)
  ultimately show "KVEC_COUNTER_TO_IDX (promote (knext n c)) n = KVEC_COUNTER_TO_IDX (promote c) n + 1"
    using assms(3) by (simp add: kvec_idx unat_kvec_add)
qed

lemma kring_put:
  assumes inv: "kring n buf c cnt p vs hs" and room: "2 * (length (vs @ hs) + 1) \<le> unat n" and new: "h \<notin> fst ` set (vs @ hs)"
  defines "i \<equiv> KVEC_COUNTER_TO_IDX (promote p) n"
  shows "i + 1 < length buf"
    "kring n (buf[i := \<lparr>pk_iov = k0, pk_head = h, pk_flags = 0\<rparr>, i + 1 := \<lparr>pk_iov = k1, pk_head = h, pk_flags = 0\<rparr>])
       c cnt (KVEC_COUNTER_ADD p 2 n) vs (hs @ [(h, k0, k1)])"
proof -
  have n: "kvec_num n" and wf: "kv.wf n c p" and len: "length buf = unat n" and ev: "even (unat n)" "even (unat p)"
    using inv by (auto simp: kring_def)
  have b: "unat p < 2 * unat n" using wf by (simp add: kv.wf_def)
  note ix = even_idx [OF ev n b]
  show "i + 1 < length buf" using ix(2) len by (simp add: i_def)
  have u: "kv.used n c p < unat n" using kring_used [OF inv] room by simp
  have u1: "kv.used n c (knext n p) < unat n" using kv.used_step_tail [OF n wf u] kring_used [OF inv] room by simp
  note wf1 = kv.wf_step_tail [OF n wf u]
  have "kv.window n (buf[i := \<lparr>pk_iov = k0, pk_head = h, pk_flags = 0\<rparr>, i + 1 := \<lparr>pk_iov = k1, pk_head = h, pk_flags = 0\<rparr>]) c
      (knext n (knext n p)) = concat (map kpair (vs @ hs)) @ kpair (h, k0, k1)"
    using kv.window_push [OF n wf1 u1, of "buf[i := \<lparr>pk_iov = k0, pk_head = h, pk_flags = 0\<rparr>]"] kv.window_push [OF n wf u len] len inv ix(1)
    by (simp add: i_def kpair_def kring_def)
  then show "kring n (buf[i := \<lparr>pk_iov = k0, pk_head = h, pk_flags = 0\<rparr>, i + 1 := \<lparr>pk_iov = k1, pk_head = h, pk_flags = 0\<rparr>])
       c cnt (KVEC_COUNTER_ADD p 2 n) vs (hs @ [(h, k0, k1)])"
    using inv new kv.wf_step_tail [OF n wf1 u1] even_step [OF n ev(2)] by (auto simp: kring_def kvec_add_2)
qed

lemma kring_publish:
  assumes "kring n buf c cnt p vs hs"
  shows "kring n buf c p p (vs @ hs) []"
  using assms kring_used [OF assms] by (auto simp: kring_def)

text \<open>Updates outside of a window leave it alone.\<close>

lemma kwindow_update:
  assumes "kvec_num n" "kv.wf n c p" "c \<noteq> p" "kv.used n (knext n c) p < unat n"
  shows "kv.window n (buf[KVEC_COUNTER_TO_IDX (promote c) n := x]) (knext n c) p = kv.window n buf (knext n c) p"
proof -
  have b: "unat c < 2 * unat n" using assms(2) by (simp add: kv.wf_def)
  have "(unat (knext n c) + k) mod unat n \<noteq> unat c mod unat n" if "k < kv.used n (knext n c) p" for k
  proof -
    have "(unat (knext n c) + k) mod unat n = (unat c + Suc k) mod unat n"
      using assms(1) by (simp add: unat_kvec_add) (metis add.assoc mod_add_left_eq mod_mod_cancel dvd_triv_right plus_1_eq_Suc add.commute)
    moreover have "Suc k < unat n" using that assms(4) by linarith
    ultimately show ?thesis using kv.slots_neq [of 0 "Suc k" n "unat c"] by simp
  qed
  then have "buf[unat c mod unat n := x] ! ((unat (knext n c) + k) mod unat n) = buf ! ((unat (knext n c) + k) mod unat n)"
    if "k < kv.used n (knext n c) p" for k using that by (metis nth_list_update_neq)
  then show ?thesis using assms(1) by (simp add: kv.window_def kvec_idx)
qed

text \<open>The first buffer of a ring, and the ring behind it.\<close>

lemma kring_front:
  assumes inv: "kring n buf c cnt p ((h, k0, k1) # vs) hs"
  defines "i \<equiv> KVEC_COUNTER_TO_IDX (promote c) n"
  defines "c2 \<equiv> knext n (knext n c)"
  shows "c \<noteq> cnt" "i + 1 < length buf" "knext n c \<noteq> cnt" "knext n c \<noteq> p" "KVEC_COUNTER_TO_IDX (promote (knext n c)) n = i + 1"
    "kv.wf n (knext n c) p" "kv.wf n c2 p" "kv.wf n c2 cnt" "kv.used n c2 p = 2 * length (vs @ hs)" "kv.used n c2 cnt = 2 * length vs"
    "buf ! i = \<lparr>pk_iov = k0, pk_head = h, pk_flags = 0\<rparr>" "buf ! (i + 1) = \<lparr>pk_iov = k1, pk_head = h, pk_flags = 0\<rparr>"
    "kv.window n buf c2 p = concat (map kpair (vs @ hs))" "2 + 2 * length (vs @ hs) \<le> unat n" "c \<noteq> p"
proof -
  have n: "kvec_num n" and wf: "kv.wf n c p" "kv.wf n c cnt" and len: "length buf = unat n" and ev: "even (unat n)" "even (unat c)"
    and win: "kv.window n buf c p = kpair (h, k0, k1) @ concat (map kpair (vs @ hs))" and vis: "kv.used n c cnt = 2 + 2 * length vs"
    using inv by (auto simp: kring_def)
  have b: "unat c < 2 * unat n" using wf by (auto simp: kv.wf_def)
  note ix = even_idx [OF ev n b, folded i_def]
  have us: "kv.used n c p = 2 + 2 * length (vs @ hs)" using kring_used [OF inv] by simp
  show ne: "c \<noteq> p" and cc: "c \<noteq> cnt" using us vis kv.used_same [of n c] by auto
  show "i + 1 < length buf" using ix(2) len by simp
  define c1 where "c1 = knext n c"
  have u1: "kv.used n c1 p = 1 + 2 * length (vs @ hs)" "kv.used n c1 cnt = 1 + 2 * length vs"
    using kv.used_step_head [OF n wf(1) ne] kv.used_step_head [OF n wf(2) cc] us vis by (auto simp: c1_def)
  have wf1: "kv.wf n c1 p" "kv.wf n c1 cnt" using kv.wf_step_head [OF n wf(1) ne] kv.wf_step_head [OF n wf(2) cc] by (auto simp: c1_def)
  have ne1: "c1 \<noteq> p" "c1 \<noteq> cnt" using u1 kv.used_same [of n c1] by auto
  then show "knext n c \<noteq> cnt" "knext n c \<noteq> p" "kv.wf n (knext n c) p" using wf1 by (auto simp: c1_def)
  show "kv.used n c2 p = 2 * length (vs @ hs)" "kv.used n c2 cnt = 2 * length vs"
    using kv.used_step_head [OF n wf1(1) ne1(1)] kv.used_step_head [OF n wf1(2) ne1(2)] u1 by (auto simp: c2_def c1_def)
  show "kv.wf n c2 p" "kv.wf n c2 cnt" using kv.wf_step_head [OF n wf1(1) ne1(1)] kv.wf_step_head [OF n wf1(2) ne1(2)] by (auto simp: c2_def c1_def)
  show i_c1: "KVEC_COUNTER_TO_IDX (promote (knext n c)) n = i + 1" using ix(1) .
  have "kv.window n buf c p = buf ! i # buf ! (i + 1) # kv.window n buf c2 p"
    using kv.window_pop [OF n wf(1) ne, of buf] kv.window_pop [OF n wf1(1) ne1(1), of buf] i_c1 by (simp add: i_def c1_def c2_def)
  with win show "buf ! i = \<lparr>pk_iov = k0, pk_head = h, pk_flags = 0\<rparr>" "buf ! (i + 1) = \<lparr>pk_iov = k1, pk_head = h, pk_flags = 0\<rparr>"
    "kv.window n buf c2 p = concat (map kpair (vs @ hs))" by (auto simp: kpair_def)
  show "2 + 2 * length (vs @ hs) \<le> unat n" using us wf(1) by (simp add: kv.wf_def)
qed

lemma kring_rest:
  assumes inv: "kring n buf c cnt p ((h, k0, k1) # vs) hs"
  defines "i \<equiv> KVEC_COUNTER_TO_IDX (promote c) n"
  shows "kring n (buf[i := x, i + 1 := y]) (KVEC_COUNTER_ADD c 2 n) cnt p vs hs"
proof -
  note F = kring_front [OF inv, folded i_def]
  have n: "kvec_num n" and wf: "kv.wf n c p" and ev: "even (unat c)" using inv by (auto simp: kring_def)
  have "kv.used n (knext n c) p = Suc (kv.used n (knext n (knext n c)) p)" using kv.used_step_head [OF n F(6,4)] .
  then have "kv.window n (buf[i := x]) (knext n c) p = kv.window n buf (knext n c) p"
    using kwindow_update [OF n wf F(15), of buf x] F(9,14) by (simp add: i_def)
  then have "kv.window n (buf[i := x]) (knext n (knext n c)) p = kv.window n buf (knext n (knext n c)) p"
    using kv.window_pop [OF n F(6,4), of buf] kv.window_pop [OF n F(6,4), of "buf[i := x]"] by simp
  moreover have "kv.window n (buf[i := x, i + 1 := y]) (knext n (knext n c)) p = kv.window n (buf[i := x]) (knext n (knext n c)) p"
    using kwindow_update [OF n F(6,4), of "buf[i := x]" y] F(5,9,14) by simp
  ultimately show ?thesis using F(7,8,10,13) inv even_step [OF n ev] by (auto simp: kring_def kvec_add_2 [OF n])
qed

text \<open>The fetch loop stops behind the first buffer: the next one has another head.\<close>

lemma kring_fetch:
  assumes inv: "kring n buf c cnt p ((h, k0, k1) # vs) hs"
  defines "i \<equiv> KVEC_COUNTER_TO_IDX (promote c) n"
  shows "kvec_fetch cnt c n h (buf[i := (buf ! i)\<lparr>pk_head := 0\<rparr>]) (KVEC_COUNTER_TO_IDX (promote c + 1) n) 1 =
       Some (buf[i := (buf ! i)\<lparr>pk_head := 0\<rparr>, i + 1 := (buf ! (i + 1))\<lparr>pk_head := 0\<rparr>], 2)"
proof -
  note F = kring_front [OF inv, folded i_def]
  define c2 where "c2 = knext n (knext n c)"
  have n: "kvec_num n" and len: "length buf = unat n" and b: "unat c < 2 * unat n" "unat cnt < 2 * unat n"
    and dist: "distinct (h # map fst (vs @ hs))" using inv by (auto simp: kring_def kv.wf_def)
  have p1: "promote 1 = 1" "promote 2 = 2" by (simp_all add: promote_def)
  have nx: "KVEC_COUNTER_TO_IDX (promote c + 1) n = i + 1"
  proof -
    have "unat (promote c + 1) = unat c + 1" using u16_less [of c] by (simp add: unat_word_ariths)
    then show ?thesis using F(5) n by (simp add: kvec_idx unat_kvec_add mod_mod_cancel)
  qed
  define buf1 where "buf1 = buf[i := (buf ! i)\<lparr>pk_head := 0\<rparr>]"
  define buf2 where "buf2 = buf1[i + 1 := (buf1 ! (i + 1))\<lparr>pk_head := 0\<rparr>]"
  have eq1: "\<not> KVEC_COUNTER_EQ (promote c + promote 1) (promote cnt) n" and eq2: "KVEC_COUNTER_EQ (promote c + promote 2) (promote cnt) n \<longleftrightarrow> vs = []"
    using kvec_eq_iff [OF n b, of 1] kvec_eq_iff [OF n b, of 2] F(3,8,10) kv.used_0_iff [of c2 n cnt] kvec_add_2 [OF n, of c]
    by (auto simp: p1 c2_def kv.wf_def)
  have b1: "buf1 ! (i + 1) = buf ! (i + 1)" "pk_head (buf1 ! (i + 1)) = h" using F(12) by (auto simp: buf1_def)
  have small: "promote 1 < n" using F(14) p1 by (simp add: word_less_nat_alt)
  have "kvec_fetch cnt c n h buf1 (i + 1) 1 = kvec_fetch cnt c n h buf2 (KVEC_COUNTER_TO_IDX (word_of_nat (i + 1) + 1) n) 2"
    using eq1 F(2) b1 small by (subst kvec_fetch.simps) (simp add: buf1_def buf2_def)
  also have "\<dots> = Some (buf2, 2)"
  proof (cases vs)
    case Nil
    then show ?thesis using eq2 by (subst kvec_fetch.simps) simp
  next
    case (Cons v vs')
    obtain h2 l0 l1 where v: "v = (h2, l0, l1)" by (cases v)
    define j where "j = KVEC_COUNTER_TO_IDX (promote c2) n"
    have i2: "unat (word_of_nat (i + 1) + 1 :: u32) = i + 2" using F(2) len n by (simp add: kvec_num_def unat_word_ariths unat_of_nat)
    have j: "KVEC_COUNTER_TO_IDX (word_of_nat (i + 1) + 1) n = j"
    proof -
      have "unat (knext n c) mod unat n = i + 1" using F(5) by (simp add: kvec_idx)
      moreover have "unat c2 mod unat n = (unat (knext n c) mod unat n + 1) mod unat n"
        unfolding c2_def unat_kvec_add [OF n, of 1 "knext n c", simplified] by (simp add: mod_mod_cancel mod_Suc_eq)
      ultimately have "unat c2 mod unat n = (i + 2) mod unat n" by simp
      then show ?thesis unfolding kvec_idx j_def i2 by simp
    qed
    have "4 \<le> unat n" using F(14) Cons by simp
    moreover have "j = (i + 2) mod unat n" using j unfolding kvec_idx i2 by simp
    then have "j = (if i + 2 < unat n then i + 2 else 0)" using F(2) len by (cases "i + 2 = unat n") simp_all
    ultimately have jj: "j \<noteq> i" "j \<noteq> i + 1" "j < unat n" using F(2) len by (simp_all split: if_splits)
    have "c2 \<noteq> p" using F(9) kv.used_same [of n c2] Cons by (auto simp: c2_def)
    then have "buf ! j = \<lparr>pk_iov = l0, pk_head = h2, pk_flags = 0\<rparr>"
      using kv.window_pop [OF n F(7), of buf] F(13) by (simp add: j_def c2_def Cons v kpair_def)
    then have "pk_head (buf2 ! j) \<noteq> h" using jj dist Cons v by (auto simp: buf2_def buf1_def)
    then show ?thesis using eq2 Cons j jj len by (subst kvec_fetch.simps) (simp add: buf2_def buf1_def)
  qed
  finally show ?thesis using b1 by (simp add: nx buf2_def buf1_def)
qed

section \<open>Three rings\<close>

text \<open>
  The rings with both sides. \<open>ks_put\<close> are the heads of the buffers in the rings, \<open>ks_taken\<close> those that the sender
  has taken and not returned. A buffer is put when it is not in use, and a queue of \<open>n\<close> descriptors has at
  most \<open>n / 2\<close> buffers of two descriptors.
\<close>

record kvec_sys =
  ks_hdr :: vop_peer_kvec_buf_header
  ks_prod :: "vop_kvec_ring list"
  ks_cons :: "vop_kvec_ring list"
  ks_put :: "u16 list"
  ks_taken :: "u16 list"

datatype kv_label = KPut nat u16 kvec kvec | KPublish "nat list" | KGet nat u16 kvec kvec | KEmpty nat | KReturn u16

inductive kv_step :: "u32 \<Rightarrow> kvec_sys \<Rightarrow> kv_label \<Rightarrow> kvec_sys \<Rightarrow> bool" for n where
  kv_step_put: "h \<notin> set (ks_put s @ ks_taken s) \<Longrightarrow> 2 * (length (ks_put s @ ks_taken s) + 1) \<le> unat n \<Longrightarrow> 1 < kv_used wiov \<Longrightarrow>
    iov_len (kv_iov wiov ! 1) < 2 ^ 32 \<Longrightarrow> vop_kvec_put (ks_prod s) wiov h (ks_hdr s) = Some (Inr r, pr, hdr) \<Longrightarrow>
    kv_step n s (KPut r h (kv_iov wiov ! 0) (kv_iov wiov ! 1)) (s\<lparr>ks_hdr := hdr, ks_prod := pr, ks_put := ks_put s @ [h]\<rparr>)"
| kv_step_publish: "kv_step n s (KPublish cs) (s\<lparr>ks_hdr := vop_kvec_buff_update_idx (ks_prod s) cs (ks_hdr s)\<rparr>)"
| kv_step_get: "r < KVEC_BUF_NUM \<Longrightarrow> vop_kvec_get r (ks_cons s) (ks_hdr s) = Some (Inr (h, m, i), co, hdr) \<Longrightarrow>
    kv_step n s (KGet r h (pk_iov (hd_rings hdr ! r ! i)) (pk_iov (hd_rings hdr ! r ! (i + 1))))
      (s\<lparr>ks_hdr := hdr, ks_cons := co, ks_put := remove1 h (ks_put s), ks_taken := ks_taken s @ [h]\<rparr>)"
| kv_step_empty: "r < KVEC_BUF_NUM \<Longrightarrow> vop_kvec_get r (ks_cons s) (ks_hdr s) = Some (Inl EAGAIN, co, hdr) \<Longrightarrow>
    kv_step n s (KEmpty r) (s\<lparr>ks_hdr := hdr, ks_cons := co\<rparr>)"
| kv_step_return: "h \<in> set (ks_taken s) \<Longrightarrow> kv_step n s (KReturn h) (s\<lparr>ks_taken := remove1 h (ks_taken s)\<rparr>)"

text \<open>Per ring, the buffers that the sender can see and those behind them.\<close>

type_synonym kv_abs = "nat \<Rightarrow> kbuf list \<times> kbuf list"

inductive akv_step :: "kv_abs \<Rightarrow> kv_label \<Rightarrow> kv_abs \<Rightarrow> bool" where
  akv_put: "akv_step A (KPut r h k0 k1) (A(r := (fst (A r), snd (A r) @ [(h, k0, k1)])))"
| akv_publish: "akv_step A (KPublish cs) (\<lambda>r. if cs ! r \<noteq> 0 then (fst (A r) @ snd (A r), []) else A r)"
| akv_get: "A r = ((h, k0, k1) # vs, hs) \<Longrightarrow> akv_step A (KGet r h k0 k1) (A(r := (vs, hs)))"
| akv_empty: "fst (A r) = [] \<Longrightarrow> akv_step A (KEmpty r) A"
| akv_return: "akv_step A (KReturn h) A"

definition kv_heads :: "kv_abs \<Rightarrow> u16 list" where
  "kv_heads A = concat (map (\<lambda>r. map fst (fst (A r) @ snd (A r))) [0..<KVEC_BUF_NUM])"

text \<open>The size that is published for a ring is at most that of its buffers.\<close>

definition kv_max :: "vop_peer_kvec_buf_header \<Rightarrow> vop_kvec_ring list \<Rightarrow> nat \<Rightarrow> kbuf list \<Rightarrow> bool" where
  "kv_max hdr pr r bs \<longleftrightarrow> hd_send_max_size hdr ! r = kr_send_max_size_local (pr ! r) \<and>
     (kr_send_max_size_local (pr ! r) = 0 \<longrightarrow> bs = []) \<and>
     (\<forall>(h, k0, k1) \<in> set bs. ucast (kr_send_max_size_local (pr ! r)) \<le> iov_len k1)"

definition kv_ring :: "u32 \<Rightarrow> kvec_sys \<Rightarrow> kv_abs \<Rightarrow> nat \<Rightarrow> bool" where
  "kv_ring n s A r \<longleftrightarrow> kr_num (ks_prod s ! r) = n \<and> kr_num (ks_cons s ! r) = n \<and>
     kring n (hd_rings (ks_hdr s) ! r) (kr_last_cnt (ks_cons s ! r)) (hd_idx (ks_hdr s) ! r) (kr_last_cnt (ks_prod s ! r)) (fst (A r)) (snd (A r)) \<and>
     kv_max (ks_hdr s) (ks_prod s) r (fst (A r) @ snd (A r))"

definition kv_sized :: "kvec_sys \<Rightarrow> bool" where
  "kv_sized s \<longleftrightarrow> length (hd_rings (ks_hdr s)) = KVEC_BUF_NUM \<and> length (hd_idx (ks_hdr s)) = KVEC_BUF_NUM \<and>
     length (hd_send_max_size (ks_hdr s)) = KVEC_BUF_NUM \<and> length (ks_prod s) = KVEC_BUF_NUM \<and> length (ks_cons s) = KVEC_BUF_NUM"

definition kv_rel :: "u32 \<Rightarrow> kvec_sys \<Rightarrow> kv_abs \<Rightarrow> bool" where
  "kv_rel n s A \<longleftrightarrow> kv_sized s \<and> (\<forall>r < KVEC_BUF_NUM. kv_ring n s A r) \<and>
     mset (ks_put s) = mset (kv_heads A) \<and> distinct (ks_put s @ ks_taken s)"

lemma kv_heads_ring: "r < KVEC_BUF_NUM \<Longrightarrow> mset (map fst (fst (A r) @ snd (A r))) \<subseteq># mset (kv_heads A)"
proof -
  assume "r < KVEC_BUF_NUM"
  then obtain xs ys where "[0..<KVEC_BUF_NUM] = xs @ r # ys" by (metis atLeastLessThan_iff atLeast_upt in_set_conv_decomp lessThan_iff zero_le set_upt)
  then show ?thesis by (simp add: kv_heads_def)
qed

lemma ring_id_less: "get_ring_id_write n = Inr r \<Longrightarrow> r < KVEC_BUF_NUM \<and> MTU_DEFAULT \<le> n"
  by (auto simp: get_ring_id_write_def kvec_ids split: if_splits)

text \<open>The effect of a put on its ring; the other rings are not touched.\<close>

lemma put_ring:
  assumes put: "vop_kvec_put pr wiov h hdr = Some (Inr r, pr', hdr')" and used: "1 < kv_used wiov" and small: "iov_len (kv_iov wiov ! 1) < 2 ^ 32"
    and len: "length pr = KVEC_BUF_NUM" "length (hd_rings hdr) = KVEC_BUF_NUM" "length (hd_send_max_size hdr) = KVEC_BUF_NUM"
    and max: "kv_max hdr pr r bs"
  shows "r < KVEC_BUF_NUM" "hd_idx hdr' = hd_idx hdr" "length pr' = length pr" "length (hd_rings hdr') = length (hd_rings hdr)"
    "length (hd_send_max_size hdr') = length (hd_send_max_size hdr)"
    "kr_num (pr' ! r) = kr_num (pr ! r)" "kr_last_cnt (pr' ! r) = KVEC_COUNTER_ADD (kr_last_cnt (pr ! r)) 2 (kr_num (pr ! r))"
    "hd_rings hdr' ! r = (hd_rings hdr ! r)
       [KVEC_COUNTER_TO_IDX (promote (kr_last_cnt (pr ! r))) (kr_num (pr ! r)) := \<lparr>pk_iov = kv_iov wiov ! 0, pk_head = h, pk_flags = 0\<rparr>,
        KVEC_COUNTER_TO_IDX (promote (kr_last_cnt (pr ! r))) (kr_num (pr ! r)) + 1 := \<lparr>pk_iov = kv_iov wiov ! 1, pk_head = h, pk_flags = 0\<rparr>]"
    "kv_max hdr' pr' r (bs @ [(h, kv_iov wiov ! 0, kv_iov wiov ! 1)])"
    "r' \<noteq> r \<Longrightarrow> pr' ! r' = pr ! r' \<and> hd_rings hdr' ! r' = hd_rings hdr ! r' \<and> hd_send_max_size hdr' ! r' = hd_send_max_size hdr ! r'"
proof -
  define m where "m = iov_len (kv_iov wiov ! 1)"
  define ring where "ring = pr ! r"
  have id: "get_ring_id_write m = Inr r"
    using put used by (auto simp: vop_kvec_put_def Let_def m_def split: sum.splits if_splits)
  show r: "r < KVEC_BUF_NUM" using ring_id_less [OF id] by simp
  define set_max where "set_max \<longleftrightarrow> kr_send_max_size_local ring = 0 \<or> m < ucast (kr_send_max_size_local ring)"
  define mx where "mx = (if set_max then ucast m else kr_send_max_size_local ring)"
  have pr': "pr' = pr[r := (if set_max then ring\<lparr>kr_send_max_size_local := ucast m\<rparr> else ring)
      \<lparr>kr_last_cnt := KVEC_COUNTER_ADD (kr_last_cnt ring) 2 (kr_num ring)\<rparr>]"
    and hdr': "hd_idx hdr' = hd_idx hdr" "hd_send_max_size hdr' = (if set_max then (hd_send_max_size hdr)[r := mx] else hd_send_max_size hdr)"
      "hd_rings hdr' = (hd_rings hdr)[r := (hd_rings hdr ! r)
         [KVEC_COUNTER_TO_IDX (promote (kr_last_cnt ring)) (kr_num ring) := \<lparr>pk_iov = kv_iov wiov ! 0, pk_head = h, pk_flags = 0\<rparr>,
          KVEC_COUNTER_TO_IDX (promote (kr_last_cnt ring)) (kr_num ring) + 1 := \<lparr>pk_iov = kv_iov wiov ! 1, pk_head = h, pk_flags = 0\<rparr>]]"
    using put used id by (auto simp: vop_kvec_put_def Let_def m_def ring_def mx_def set_max_def split: if_splits)
  show "hd_idx hdr' = hd_idx hdr" "length pr' = length pr" "length (hd_rings hdr') = length (hd_rings hdr)"
    "length (hd_send_max_size hdr') = length (hd_send_max_size hdr)" "kr_num (pr' ! r) = kr_num (pr ! r)"
    "kr_last_cnt (pr' ! r) = KVEC_COUNTER_ADD (kr_last_cnt (pr ! r)) 2 (kr_num (pr ! r))"
    using pr' hdr' r len by (simp_all add: ring_def)
  show "hd_rings hdr' ! r = (hd_rings hdr ! r)
       [KVEC_COUNTER_TO_IDX (promote (kr_last_cnt (pr ! r))) (kr_num (pr ! r)) := \<lparr>pk_iov = kv_iov wiov ! 0, pk_head = h, pk_flags = 0\<rparr>,
        KVEC_COUNTER_TO_IDX (promote (kr_last_cnt (pr ! r))) (kr_num (pr ! r)) + 1 := \<lparr>pk_iov = kv_iov wiov ! 1, pk_head = h, pk_flags = 0\<rparr>]"
    using hdr'(3) r len by (simp add: ring_def)
  show "r' \<noteq> r \<Longrightarrow> pr' ! r' = pr ! r' \<and> hd_rings hdr' ! r' = hd_rings hdr ! r' \<and> hd_send_max_size hdr' ! r' = hd_send_max_size hdr ! r'"
    using pr' hdr' by simp
  have cut: "ucast (ucast m :: u32) = m" using small
    by (simp add: m_def word_less_nat_alt word_unat_eq_iff unsigned_ucast_eq unsigned_take_bit_eq take_bit_nat_eq_self)
  moreover have "m \<noteq> 0" using ring_id_less [OF id] by (auto simp: kvec_sizes)
  then have "(ucast m :: u32) \<noteq> 0" using cut by (metis unsigned_0)
  moreover have "ucast mx \<le> m" "ucast mx \<le> iov_len k1" "mx \<noteq> 0" if "(g, k0, k1) \<in> set bs" for g k0 k1
    using max that cut \<open>(ucast m :: u32) \<noteq> 0\<close> by (auto simp: kv_max_def mx_def set_max_def ring_def)
  ultimately show "kv_max hdr' pr' r (bs @ [(h, kv_iov wiov ! 0, kv_iov wiov ! 1)])"
    using max r len pr' hdr'(2) by (auto simp: kv_max_def mx_def set_max_def ring_def m_def)
qed

lemma get_empty:
  assumes "kring (kr_num (co ! r)) (hd_rings hdr ! r) (kr_last_cnt (co ! r)) (hd_idx hdr ! r) p [] hs"
  shows "vop_kvec_get r co hdr = Some (Inl EAGAIN, co, hdr)"
proof -
  have "kr_last_cnt (co ! r) = hd_idx hdr ! r"
    using assms kv.used_0_iff [of "kr_last_cnt (co ! r)" "kr_num (co ! r)" "hd_idx hdr ! r"] by (auto simp: kring_def kv.wf_def)
  moreover from this have "co[r := (co ! r)\<lparr>kr_last_cnt := hd_idx hdr ! r\<rparr>] = co"
    by (metis list_update_id vop_kvec_ring.surjective vop_kvec_ring.update_convs(1))
  ultimately show ?thesis by (simp add: vop_kvec_get_def Let_def kvec_skip.simps)
qed

lemma get_ring:
  assumes inv: "kring (kr_num (co ! r)) (hd_rings hdr ! r) (kr_last_cnt (co ! r)) (hd_idx hdr ! r) p ((h, k0, k1) # vs) hs"
    and r: "r < length co" "r < length (hd_rings hdr)"
  shows "\<exists>i co' hdr'. vop_kvec_get r co hdr = Some (Inr (h, 2, i), co', hdr') \<and> length co' = length co \<and>
    length (hd_rings hdr') = length (hd_rings hdr) \<and> hd_idx hdr' = hd_idx hdr \<and> hd_send_max_size hdr' = hd_send_max_size hdr \<and>
    pk_iov (hd_rings hdr' ! r ! i) = k0 \<and> pk_iov (hd_rings hdr' ! r ! (i + 1)) = k1 \<and> kr_num (co' ! r) = kr_num (co ! r) \<and>
    kring (kr_num (co ! r)) (hd_rings hdr' ! r) (kr_last_cnt (co' ! r)) (hd_idx hdr ! r) p vs hs \<and>
    (\<forall>q. q \<noteq> r \<longrightarrow> co' ! q = co ! q \<and> hd_rings hdr' ! q = hd_rings hdr ! q)"
proof -
  define n where "n = kr_num (co ! r)"
  define c where "c = kr_last_cnt (co ! r)"
  define buf where "buf = hd_rings hdr ! r"
  define i where "i = KVEC_COUNTER_TO_IDX (promote c) n"
  note F = kring_front [OF inv, folded n_def c_def buf_def, folded i_def]
    and fetch = kring_fetch [OF inv, folded n_def c_def buf_def, folded i_def]
    and rest = kring_rest [OF inv, folded n_def c_def buf_def, folded i_def]
  define x where "x = (buf ! i)\<lparr>pk_head := 0, pk_flags := VOP_KVEC_FLAG_IN_USE\<rparr>"
  define y where "y = (buf ! (i + 1))\<lparr>pk_head := 0\<rparr>"
  have skip: "kvec_skip (hd_idx hdr ! r) n buf c = Some (buf, c)"
    using F(1,2,11) by (subst kvec_skip.simps) (simp add: Let_def i_def [symmetric] kvec_cancelled_def)
  have upd: "(buf[i := (buf ! i)\<lparr>pk_head := 0\<rparr>, i + 1 := y])[i := ((buf[i := (buf ! i)\<lparr>pk_head := 0\<rparr>, i + 1 := y]) ! i)\<lparr>pk_flags := VOP_KVEC_FLAG_IN_USE\<rparr>]
      = buf[i := x, i + 1 := y]"
    using F(2) by (simp add: x_def list_update_swap [of "Suc i" i])
  define co' where "co' = co[r := (co ! r)\<lparr>kr_last_cnt := KVEC_COUNTER_ADD c 2 n, kr_stats_num := kr_stats_num (co ! r) + 1\<rparr>]"
  define hdr' where "hdr' = hdr\<lparr>hd_rings := (hd_rings hdr)[r := buf[i := x, i + 1 := y]]\<rparr>"
  have p2: "promote 2 = 2" by (simp add: promote_def)
  have "vop_kvec_get r co hdr = Some (Inr (h, 2, i), co', hdr')"
    using skip F(1,11) fetch upd [unfolded y_def]
    by (simp add: vop_kvec_get_def Let_def n_def [symmetric] c_def [symmetric] buf_def [symmetric] i_def [symmetric] y_def p2 co'_def hdr'_def)
  moreover have "pk_iov (hd_rings hdr' ! r ! i) = k0" "pk_iov (hd_rings hdr' ! r ! (i + 1)) = k1"
    using F(2,11,12) r by (simp_all add: hdr'_def x_def y_def)
  moreover have "kring n (hd_rings hdr' ! r) (kr_last_cnt (co' ! r)) (hd_idx hdr ! r) p vs hs"
    using rest r by (simp add: hdr'_def co'_def)
  ultimately show ?thesis using r by (intro exI [of _ i] exI [of _ co'] exI [of _ hdr']) (simp add: co'_def hdr'_def n_def)
qed

section \<open>Refinement\<close>

lemma kv_heads_put:
  "r < KVEC_BUF_NUM \<Longrightarrow> mset (kv_heads (A(r := (fst (A r), snd (A r) @ [(h, k0, k1)])))) = add_mset h (mset (kv_heads A))"
  by (auto simp: kv_heads_def KVEC_BUF_NUM_def less_Suc_eq numeral_3_eq_3)

lemma kv_heads_get:
  "r < KVEC_BUF_NUM \<Longrightarrow> A r = ((h, k0, k1) # vs, hs) \<Longrightarrow> mset (kv_heads A) = add_mset h (mset (kv_heads (A(r := (vs, hs)))))"
  by (auto simp: kv_heads_def KVEC_BUF_NUM_def less_Suc_eq numeral_3_eq_3)

lemma kv_heads_publish: "kv_heads (\<lambda>r. if P r then (fst (A r) @ snd (A r), []) else A r) = kv_heads A"
  by (simp add: kv_heads_def KVEC_BUF_NUM_def numeral_3_eq_3)

lemma simulate_put:
  assumes rel: "kv_rel n s A" and new: "h \<notin> set (ks_put s @ ks_taken s)" and room: "2 * (length (ks_put s @ ks_taken s) + 1) \<le> unat n"
    and w: "1 < kv_used wiov" "iov_len (kv_iov wiov ! 1) < 2 ^ 32" and put: "vop_kvec_put (ks_prod s) wiov h (ks_hdr s) = Some (Inr r, pr, hdr)"
  shows "kv_rel n (s\<lparr>ks_hdr := hdr, ks_prod := pr, ks_put := ks_put s @ [h]\<rparr>)
    (A(r := (fst (A r), snd (A r) @ [(h, kv_iov wiov ! 0, kv_iov wiov ! 1)])))" (is "kv_rel n ?s ?A")
proof -
  have sized: "kv_sized s" and rings: "\<And>q. q < KVEC_BUF_NUM \<Longrightarrow> kv_ring n s A q" and heads: "mset (ks_put s) = mset (kv_heads A)"
    and dist: "distinct (ks_put s @ ks_taken s)" using rel by (auto simp: kv_rel_def)
  have len: "length (ks_prod s) = KVEC_BUF_NUM" "length (hd_rings (ks_hdr s)) = KVEC_BUF_NUM" "length (hd_send_max_size (ks_hdr s)) = KVEC_BUF_NUM"
    using sized by (auto simp: kv_sized_def)
  have r: "r < KVEC_BUF_NUM" using put w(1) by (auto simp: vop_kvec_put_def Let_def dest!: ring_id_less split: sum.splits if_splits)
  note R = rings [OF r, unfolded kv_ring_def]
  from R have max: "kv_max (ks_hdr s) (ks_prod s) r (fst (A r) @ snd (A r))" by simp
  note P = put_ring [OF put w len max]
  have sub: "mset (map fst (fst (A r) @ snd (A r))) \<subseteq># mset (ks_put s)" using kv_heads_ring [OF r, of A] heads by simp
  have "length (fst (A r) @ snd (A r)) \<le> length (ks_put s)" using size_mset_mono [OF sub] by simp
  then have fit: "2 * (length (fst (A r) @ snd (A r)) + 1) \<le> unat n" using room by simp
  have "set (map fst (fst (A r) @ snd (A r))) \<subseteq> set (ks_put s)" using set_mset_mono [OF sub] by simp
  then have nh: "h \<notin> fst ` set (fst (A r) @ snd (A r))" using new by auto
  have "kv_ring n ?s ?A q" if "q < KVEC_BUF_NUM" for q
  proof (cases "q = r")
    case True
    then show ?thesis using kring_put(2) [OF _ fit nh, of "hd_rings (ks_hdr s) ! r"] R P by (simp add: kv_ring_def)
  next
    case False
    then show ?thesis using rings [OF that] P(2,10) by (simp add: kv_ring_def kv_max_def)
  qed
  moreover have "kv_sized ?s" using sized P(2-5) by (simp add: kv_sized_def)
  ultimately show ?thesis using heads dist new kv_heads_put [OF r] by (simp add: kv_rel_def)
qed

lemma simulate_get:
  assumes rel: "kv_rel n s A" and r: "r < KVEC_BUF_NUM" and get: "vop_kvec_get r (ks_cons s) (ks_hdr s) = Some (Inr (h, m, i), co, hdr)"
  shows "\<exists>k0 k1 vs hs. A r = ((h, k0, k1) # vs, hs) \<and> m = 2 \<and> pk_iov (hd_rings hdr ! r ! i) = k0 \<and> pk_iov (hd_rings hdr ! r ! (i + 1)) = k1 \<and>
    kv_rel n (s\<lparr>ks_hdr := hdr, ks_cons := co, ks_put := remove1 h (ks_put s), ks_taken := ks_taken s @ [h]\<rparr>) (A(r := (vs, hs)))"
proof -
  have sized: "kv_sized s" and rings: "\<And>q. q < KVEC_BUF_NUM \<Longrightarrow> kv_ring n s A q" and heads: "mset (ks_put s) = mset (kv_heads A)"
    and dist: "distinct (ks_put s @ ks_taken s)" using rel by (auto simp: kv_rel_def)
  note R = rings [OF r, unfolded kv_ring_def]
  have "fst (A r) \<noteq> []" using get_empty [of "ks_cons s" r "ks_hdr s"] R get by auto
  then obtain h' k0 k1 vs hs where A: "A r = ((h', k0, k1) # vs, hs)" by (cases "A r"; cases "fst (A r)") auto
  from get_ring [of "ks_cons s" r "ks_hdr s" _ h' k0 k1 vs hs] R A get sized r
  have G: "h' = h" "m = 2" "length co = KVEC_BUF_NUM" "length (hd_rings hdr) = KVEC_BUF_NUM" "hd_idx hdr = hd_idx (ks_hdr s)"
    "hd_send_max_size hdr = hd_send_max_size (ks_hdr s)" "pk_iov (hd_rings hdr ! r ! i) = k0" "pk_iov (hd_rings hdr ! r ! (i + 1)) = k1"
    "kr_num (co ! r) = n" "kring n (hd_rings hdr ! r) (kr_last_cnt (co ! r)) (hd_idx (ks_hdr s) ! r) (kr_last_cnt (ks_prod s ! r)) vs hs"
    "\<And>q. q \<noteq> r \<Longrightarrow> co ! q = ks_cons s ! q \<and> hd_rings hdr ! q = hd_rings (ks_hdr s) ! q"
    by (auto simp: kv_sized_def)
  define s' where "s' = s\<lparr>ks_hdr := hdr, ks_cons := co, ks_put := remove1 h (ks_put s), ks_taken := ks_taken s @ [h]\<rparr>"
  have "kv_ring n s' (A(r := (vs, hs))) q" if "q < KVEC_BUF_NUM" for q
    using rings [OF that] G(5,6,9-11) A by (cases "q = r") (auto simp: kv_ring_def kv_max_def s'_def)
  moreover have "kv_sized s'" using sized G(3-6) by (simp add: kv_sized_def s'_def)
  moreover have "h \<in> set (ks_put s)" "mset (ks_put s') = mset (kv_heads (A(r := (vs, hs))))"
    using kv_heads_get [of r A h' k0 k1 vs hs, OF r A] heads G(1) by (auto simp: s'_def simp flip: set_mset_mset)
  moreover from this have "distinct (ks_put s' @ ks_taken s')" using dist by (auto simp: s'_def)
  ultimately have "kv_rel n s' (A(r := (vs, hs)))" by (simp add: kv_rel_def)
  then show ?thesis using A G(1,2,7,8) by (auto simp: s'_def)
qed

lemma simulate_publish:
  assumes rel: "kv_rel n s A"
  shows "kv_rel n (s\<lparr>ks_hdr := vop_kvec_buff_update_idx (ks_prod s) cs (ks_hdr s)\<rparr>) (\<lambda>r. if cs ! r \<noteq> 0 then (fst (A r) @ snd (A r), []) else A r)"
proof -
  have "kv_ring n (s\<lparr>ks_hdr := vop_kvec_buff_update_idx (ks_prod s) cs (ks_hdr s)\<rparr>)
      (\<lambda>r. if cs ! r \<noteq> 0 then (fst (A r) @ snd (A r), []) else A r) q" if "q < KVEC_BUF_NUM" for q
  proof -
    have R: "kv_ring n s A q" "q < length (hd_idx (ks_hdr s))" using rel that by (auto simp: kv_rel_def kv_sized_def)
    then have "kring n (hd_rings (ks_hdr s) ! q) (kr_last_cnt (ks_cons s ! q)) (kr_last_cnt (ks_prod s ! q)) (kr_last_cnt (ks_prod s ! q))
        (fst (A q) @ snd (A q)) []"
      using kring_publish [of n "hd_rings (ks_hdr s) ! q" _ "hd_idx (ks_hdr s) ! q"] by (simp add: kv_ring_def)
    then show ?thesis
      using R by (cases "cs ! q = 0") (simp_all add: kv_ring_def kv_max_def vop_kvec_buff_update_idx_def nth_enumerate_eq)
  qed
  then show ?thesis using rel by (simp add: kv_rel_def kv_sized_def kv_heads_publish vop_kvec_buff_update_idx_def)
qed

lemma kv_simulate:
  assumes rel: "kv_rel n s A" and step: "kv_step n s l s'"
  shows "\<exists>A'. akv_step A l A' \<and> kv_rel n s' A'"
  using step
proof cases
  case (kv_step_put h wiov r pr hdr)
  then show ?thesis using simulate_put [OF rel kv_step_put(3-7)] akv_put by blast
next
  case (kv_step_publish cs)
  then show ?thesis using simulate_publish [OF rel, of cs] akv_publish by blast
next
  case (kv_step_get r h m i co hdr)
  then show ?thesis using simulate_get [OF rel kv_step_get(3,4)] akv_get by fastforce
next
  case (kv_step_empty r co hdr)
  have R: "kv_ring n s A r" "kv_sized s" using rel kv_step_empty(3) by (auto simp: kv_rel_def)
  have e: "fst (A r) = []"
  proof (rule ccontr)
    assume "fst (A r) \<noteq> []"
    then obtain h k0 k1 vs hs where "A r = ((h, k0, k1) # vs, hs)" by (cases "A r"; cases "fst (A r)") auto
    then show False
      using get_ring [of "ks_cons s" r "ks_hdr s" _ h k0 k1 vs hs] R kv_step_empty(3,4) by (auto simp: kv_ring_def kv_sized_def)
  qed
  then have "co = ks_cons s" "hdr = ks_hdr s"
    using get_empty [of "ks_cons s" r "ks_hdr s"] R kv_step_empty(4) by (auto simp: kv_ring_def)
  then have "s' = s" using kv_step_empty(2) by simp
  then show ?thesis using akv_empty [of A r] e rel kv_step_empty(1) by auto
next
  case (kv_step_return h)
  have "distinct (ks_put s @ remove1 h (ks_taken s))"
    using rel set_remove1_subset [of h "ks_taken s"] by (auto simp: kv_rel_def)
  then have "kv_rel n s' A" using rel kv_step_return(2) by (simp add: kv_rel_def kv_sized_def kv_ring_def)
  then show ?thesis using akv_return kv_step_return(1) by blast
qed

interpretation kvs: simulation "kv_step n" akv_step "kv_rel n"
  by unfold_locales (rule kv_simulate)

section \<open>A new pair of sides\<close>

text \<open>The sender creates its memory, and the receiver maps it.\<close>

definition kv_new :: "u32 \<Rightarrow> vop_kvec_buf_remote \<Rightarrow> kvec_sys option" where
  "kv_new n re0 =
     (case vop_kvec_buff_init True None n re0 of
        Inl _ \<Rightarrow> None
      | Inr (lo, hdr, re) \<Rightarrow>
          (case vop_kvec_map_buf True n hdr re of
             (Inl _, _) \<Rightarrow> None
           | (Inr _, re1) \<Rightarrow> Some \<lparr>ks_hdr = hdr, ks_prod = re_rings re1, ks_cons = lo_rings lo, ks_put = [], ks_taken = []\<rparr>))"

lemma kv_new_rel:
  assumes "kvec_num n" "even (unat n)" "length (re_rings re0) = KVEC_BUF_NUM" "kv_new n re0 = Some s"
  shows "kv_rel n s (\<lambda>_. ([], []))"
proof -
  have s: "s = \<lparr>ks_hdr = zero_header n, ks_prod = map (\<lambda>(r, ring). ring\<lparr>kr_last_cnt := hd_idx (zero_header n) ! r, kr_num := n\<rparr>)
       (enumerate 0 (map (\<lambda>r. r\<lparr>kr_send_max_size_local := 0, kr_stats_num := 0\<rparr>) (re_rings re0))),
     ks_cons = replicate KVEC_BUF_NUM \<lparr>kr_last_cnt = 0, kr_num = n, kr_send_max_size_local = 0, kr_stats_num = 0\<rparr>, ks_put = [], ks_taken = []\<rparr>"
    using assms(4) by (auto simp: kv_new_def vop_kvec_buff_init_def vop_kvec_buff_reset_def vop_kvec_map_buf_def zero_header_def vop_kvec_unmap_buf_def Let_def map_replicate_const split: if_splits)
  have "kv_ring n s (\<lambda>_. ([], [])) r" if "r < KVEC_BUF_NUM" for r
    using that assms(1-3) kv.wf_same [of 0 n]
    by (simp add: s kv_ring_def kring_def kv_max_def zero_header_def nth_enumerate_eq kvec_num_def kv.window_def)
  then show ?thesis using assms(3) by (simp add: kv_rel_def kv_sized_def s zero_header_def kv_heads_def)
qed

definition kv_puts :: "nat \<Rightarrow> kv_label list \<Rightarrow> kbuf list" where
  "kv_puts r ls = concat (map (\<lambda>l. case l of KPut q h k0 k1 \<Rightarrow> if q = r then [(h, k0, k1)] else [] | _ \<Rightarrow> []) ls)"

definition kv_gets :: "nat \<Rightarrow> kv_label list \<Rightarrow> kbuf list" where
  "kv_gets r ls = concat (map (\<lambda>l. case l of KGet q h k0 k1 \<Rightarrow> if q = r then [(h, k0, k1)] else [] | _ \<Rightarrow> []) ls)"

lemma kv_history:
  "runs akv_step A0 ls A \<Longrightarrow> A0 = (\<lambda>_. ([], [])) \<Longrightarrow> kv_puts r ls = kv_gets r ls @ fst (A r) @ snd (A r)"
proof (induction rule: runs.induct)
  case (runs_snoc A0 ls A l A')
  then have IH: "kv_puts r ls = kv_gets r ls @ fst (A r) @ snd (A r)" by blast
  from runs_snoc.hyps(2) show ?case by cases (use IH in \<open>auto simp: kv_puts_def kv_gets_def\<close>)
qed (simp add: kv_puts_def kv_gets_def)

text \<open>Rings for four descriptors, and a buffer of two vectors that was put into the first one.\<close>

definition ex_remote :: vop_kvec_buf_remote where
  "ex_remote = \<lparr>re_rings = replicate 3 \<lparr>kr_last_cnt = 0, kr_num = 0, kr_send_max_size_local = 0, kr_stats_num = 0\<rparr>,
     re_used_ring = \<lparr>ur_last_cnt = 0, ur_num = 0\<rparr>, re_va = False, re_kiov = vringh_kiov_init, re_mapped = False, re_is_update = False\<rparr>"

definition ex_put :: kv_label where
  "ex_put = KPut 0 5 \<lparr>iov_base = 0x1000, iov_len = 10\<rparr> \<lparr>iov_base = 0x2000, iov_len = 1800\<rparr>"

lemma example_put:
  "kvec_num 4" "even (unat (4 :: u32))" "length (re_rings ex_remote) = KVEC_BUF_NUM"
  "\<exists>s0 s. kv_new 4 ex_remote = Some s0 \<and> runs (kv_step 4) s0 [ex_put] s \<and> hd_send_max_size (ks_hdr s) = [1800, 0, 0]"
proof -
  show "kvec_num 4" "even (unat (4 :: u32))" "length (re_rings ex_remote) = KVEC_BUF_NUM"
    by (simp_all add: kvec_num_def ex_remote_def KVEC_BUF_NUM_def)
  define w where "w = \<lparr>kv_iov = [\<lparr>iov_base = 0x1000, iov_len = 10\<rparr>, \<lparr>iov_base = 0x2000, iov_len = 1800\<rparr>], kv_consumed = 0, kv_i = 0,
    kv_used = 2, kv_max_num = 2\<rparr>"
  obtain s0 where s0: "kv_new 4 ex_remote = Some s0" "ks_put s0 = []" "ks_taken s0 = []" "ks_hdr s0 = zero_header 4"
    "ks_prod s0 = replicate 3 \<lparr>kr_last_cnt = 0, kr_num = 4, kr_send_max_size_local = 0, kr_stats_num = 0\<rparr>"
    by (simp add: kv_new_def vop_kvec_buff_init_def vop_kvec_buff_reset_def vop_kvec_map_buf_def zero_header_def ex_remote_def
        KVEC_BUF_NUM_def numeral_3_eq_3 numeral_2_eq_2)
  have id: "get_ring_id_write 1800 = Inr 0" by (simp add: get_ring_id_write_def kvec_sizes kvec_ids)
  obtain pr hdr where put: "vop_kvec_put (ks_prod s0) w 5 (ks_hdr s0) = Some (Inr 0, pr, hdr)" "hd_send_max_size hdr = [1800, 0, 0]"
    by (simp add: vop_kvec_put_def s0 w_def id zero_header_def KVEC_BUF_NUM_def KVEC_COUNTER_TO_IDX_def promote_def numeral_3_eq_3 Let_def)
  have "kv_step 4 s0 (KPut 0 5 (kv_iov w ! 0) (kv_iov w ! 1)) (s0\<lparr>ks_hdr := hdr, ks_prod := pr, ks_put := ks_put s0 @ [5]\<rparr>)"
    by (rule kv_step_put [OF _ _ _ _ put(1)]) (simp_all add: s0 w_def)
  then show "\<exists>s0 s. kv_new 4 ex_remote = Some s0 \<and> runs (kv_step 4) s0 [ex_put] s \<and> hd_send_max_size (ks_hdr s) = [1800, 0, 0]"
    using s0(1) put(2) runs_one [of "kv_step 4"] by (fastforce simp: ex_put_def w_def)
qed

lemma kvec_progress:
  assumes "kvec_num n" "even (unat n)" "length (re_rings re0) = KVEC_BUF_NUM" "kv_new n re0 = Some s0" "runs (kv_step n) s0 ls s"
    "r < KVEC_BUF_NUM" and vis: "cs ! r \<noteq> 0" and pend: "length (kv_gets r ls) < length (kv_puts r ls)"
  shows "\<exists>h i co hdr. vop_kvec_get r (ks_cons s) (vop_kvec_buff_update_idx (ks_prod s) cs (ks_hdr s)) = Some (Inr (h, 2, i), co, hdr) \<and>
         kv_puts r ls ! length (kv_gets r ls) = (h, pk_iov (hd_rings hdr ! r ! i), pk_iov (hd_rings hdr ! r ! (i + 1)))"
proof -
  obtain A where A: "runs akv_step (\<lambda>_. ([], [])) ls A" "kv_rel n s A"
    using kvs.simulate_runs [OF assms(5) kv_new_rel [OF assms(1-4)]] by blast
  note H = kv_history [OF A(1) refl, of r]
  define s' where "s' = s\<lparr>ks_hdr := vop_kvec_buff_update_idx (ks_prod s) cs (ks_hdr s)\<rparr>"
  obtain h k0 k1 vs where v: "fst (A r) @ snd (A r) = (h, k0, k1) # vs" using H pend by (cases "fst (A r) @ snd (A r)") auto
  have rel: "kv_rel n s' (\<lambda>r. if cs ! r \<noteq> 0 then (fst (A r) @ snd (A r), []) else A r)" using simulate_publish [OF A(2)] by (simp add: s'_def)
  then have "kv_ring n s' (\<lambda>r. if cs ! r \<noteq> 0 then (fst (A r) @ snd (A r), []) else A r) r" "kv_sized s'" using assms(6) by (auto simp: kv_rel_def)
  then have "kring (kr_num (ks_cons s' ! r)) (hd_rings (ks_hdr s') ! r) (kr_last_cnt (ks_cons s' ! r)) (hd_idx (ks_hdr s') ! r)
      (kr_last_cnt (ks_prod s' ! r)) ((h, k0, k1) # vs) []" "r < length (ks_cons s')" "r < length (hd_rings (ks_hdr s'))"
    using vis v assms(6) by (auto simp: kv_ring_def kv_sized_def)
  from get_ring [OF this] have "\<exists>i co hdr. vop_kvec_get r (ks_cons s) (ks_hdr s') = Some (Inr (h, 2, i), co, hdr) \<and>
      pk_iov (hd_rings hdr ! r ! i) = k0 \<and> pk_iov (hd_rings hdr ! r ! (i + 1)) = k1" by (auto simp: s'_def)
  moreover have "kv_puts r ls ! length (kv_gets r ls) = (h, k0, k1)" using H v by (simp add: nth_append)
  ultimately show ?thesis by (auto simp: s'_def)
qed

text \<open>C8: the sender takes the buffers of every ring in the order in which the receiver has put them, with their
  vectors; and when the counters were made visible and there is a buffer that was not taken, it gets the
  oldest one.\<close>

theorem kvec_delivers:
  assumes "kvec_num n" "even (unat n)" "length (re_rings re0) = KVEC_BUF_NUM" "kv_new n re0 = Some s0" "runs (kv_step n) s0 ls s"
    "r < KVEC_BUF_NUM"
  shows "prefix (kv_gets r ls) (kv_puts r ls) \<and>
    (cs ! r \<noteq> 0 \<and> length (kv_gets r ls) < length (kv_puts r ls) \<longrightarrow>
      (\<exists>h i co hdr. vop_kvec_get r (ks_cons s) (vop_kvec_buff_update_idx (ks_prod s) cs (ks_hdr s)) = Some (Inr (h, 2, i), co, hdr) \<and>
         kv_puts r ls ! length (kv_gets r ls) = (h, pk_iov (hd_rings hdr ! r ! i), pk_iov (hd_rings hdr ! r ! (i + 1)))))"
proof -
  obtain A where "runs akv_step (\<lambda>_. ([], [])) ls A"
    using kvs.simulate_runs [OF assms(5) kv_new_rel [OF assms(1-4)]] by blast
  from kv_history [OF this refl, of r] show ?thesis using kvec_progress [OF assms, of cs] by (auto simp: prefix_def)
qed

theorem kvec_delivers_witness:
  "\<exists>s0 s h i co hdr. kv_new 4 ex_remote = Some s0 \<and> runs (kv_step 4) s0 [ex_put] s \<and>
     vop_kvec_get 0 (ks_cons s) (vop_kvec_buff_update_idx (ks_prod s) [1, 0, 0] (ks_hdr s)) = Some (Inr (h, 2, i), co, hdr) \<and>
     pk_iov (hd_rings hdr ! 0 ! (i + 1)) = \<lparr>iov_base = 0x2000, iov_len = 1800\<rparr>"
proof -
  obtain s0 s where s: "kv_new 4 ex_remote = Some s0" "runs (kv_step 4) s0 [ex_put] s" using example_put(4) by blast
  have "length (kv_gets 0 [ex_put]) < length (kv_puts 0 [ex_put])" "kv_puts 0 [ex_put] ! length (kv_gets 0 [ex_put]) =
      (5, \<lparr>iov_base = 0x1000, iov_len = 10\<rparr>, \<lparr>iov_base = 0x2000, iov_len = 1800\<rparr>)"
    by (simp_all add: kv_gets_def kv_puts_def ex_put_def)
  then show ?thesis using kvec_delivers [OF example_put(1-3) s, of 0 "[1, 0, 0]"] s by (fastforce simp: KVEC_BUF_NUM_def)
qed

lemma ring_choice: "vop_kvec_size_to_ring_id hdr n < KVEC_BUF_NUM"
proof (cases "filter (\<lambda>r. n \<le> ucast (hd_send_max_size hdr ! r)) [0..<KVEC_BUF_NUM]")
  case (Cons r rs)
  then have "r \<in> set (filter (\<lambda>r. n \<le> ucast (hd_send_max_size hdr ! r)) [0..<KVEC_BUF_NUM])" by (simp only: Cons list.set_intros)
  then have "r < KVEC_BUF_NUM" unfolding set_filter by simp
  then show ?thesis using Cons by (simp add: vop_kvec_size_to_ring_id_def)
qed (simp add: vop_kvec_size_to_ring_id_def KVEC_BUF_NUM_def)

lemma ring_choice_fits:
  assumes "\<not> sz \<le> ucast (hd_send_max_size hdr ! vop_kvec_size_to_ring_id hdr sz)"
  shows "vop_kvec_size_to_ring_id hdr sz = KVEC_BUF_NUM - 1 \<and> (\<forall>q < KVEC_BUF_NUM. ucast (hd_send_max_size hdr ! q) < sz)"
proof (cases "filter (\<lambda>r. sz \<le> ucast (hd_send_max_size hdr ! r)) [0..<KVEC_BUF_NUM]")
  case Nil
  then have "\<forall>q < KVEC_BUF_NUM. \<not> sz \<le> ucast (hd_send_max_size hdr ! q)" by (auto simp: filter_empty_conv)
  then show ?thesis using Nil by (auto simp: vop_kvec_size_to_ring_id_def not_le)
next
  case (Cons r rs)
  then have "sz \<le> ucast (hd_send_max_size hdr ! r)" by (auto simp: filter_eq_Cons_iff)
  then show ?thesis using Cons assms by (simp add: vop_kvec_size_to_ring_id_def)
qed

text \<open>A property of all buffers of a ring and of those that are put there holds of the buffers that are left.\<close>

lemma akv_all:
  "runs akv_step A ls A' \<Longrightarrow> \<forall>b \<in> set (fst (A r) @ snd (A r)). P b \<Longrightarrow> \<forall>b \<in> set (kv_puts r ls). P b \<Longrightarrow>
   \<forall>b \<in> set (fst (A' r) @ snd (A' r)). P b"
proof (induction rule: runs.induct)
  case (runs_snoc A ls A' l A'')
  then have IH: "\<forall>b \<in> set (fst (A' r) @ snd (A' r)). P b" by (simp add: kv_puts_def)
  from runs_snoc.hyps(2) show ?case by cases (use IH runs_snoc.prems(2) in \<open>auto simp: kv_puts_def\<close>)
qed

text \<open>C18: the sender chooses a ring for data of a size and may wait before it takes a buffer from it. The buffer
  that it takes is at least as large as the size that is then published for the ring. If the size of the
  data was at most the published one when the ring was chosen, and no smaller buffer has been put into the ring
  while the sender waited, then the buffer is large enough for the data. Otherwise the data was larger
  than all published sizes, and the last ring was chosen.\<close>

theorem kvec_fits:
  assumes "kvec_num n" "even (unat n)" "length (re_rings re0) = KVEC_BUF_NUM" "kv_new n re0 = Some s0" "runs (kv_step n) s0 ls s"
    "r = vop_kvec_size_to_ring_id (ks_hdr s) sz" "runs (kv_step n) s ls' s'"
    "vop_kvec_get r (ks_cons s') (ks_hdr s') = Some (Inr (h, m, i), co, hdr)"
  shows "m = 2 \<and> ucast (hd_send_max_size (ks_hdr s') ! r) \<le> iov_len (pk_iov (hd_rings hdr ! r ! (i + 1))) \<and>
    (if sz \<le> ucast (hd_send_max_size (ks_hdr s) ! r)
     then (\<forall>(g, k0, k1) \<in> set (kv_puts r ls'). sz \<le> iov_len k1) \<longrightarrow> sz \<le> iov_len (pk_iov (hd_rings hdr ! r ! (i + 1)))
     else r = KVEC_BUF_NUM - 1 \<and> (\<forall>q < KVEC_BUF_NUM. ucast (hd_send_max_size (ks_hdr s) ! q) < sz))"
proof -
  obtain A where A: "kv_rel n s A"
    using kvs.simulate_runs [OF assms(5) kv_new_rel [OF assms(1-4)]] by blast
  obtain A' where A': "runs akv_step A ls' A'" "kv_rel n s' A'" using kvs.simulate_runs [OF assms(7) A] by blast
  have r: "r < KVEC_BUF_NUM" using assms(6) ring_choice by simp
  then have max: "kv_max (ks_hdr s) (ks_prod s) r (fst (A r) @ snd (A r))" "kv_max (ks_hdr s') (ks_prod s') r (fst (A' r) @ snd (A' r))"
    using A A'(2) by (auto simp: kv_rel_def kv_ring_def)
  obtain k0 k1 vs hs where g: "A' r = ((h, k0, k1) # vs, hs)" "m = 2" "pk_iov (hd_rings hdr ! r ! (i + 1)) = k1"
    using simulate_get [OF A'(2) r assms(8)] by blast
  have "sz \<le> iov_len k1" if "sz \<le> ucast (hd_send_max_size (ks_hdr s) ! r)" "\<forall>(g, k0, k1) \<in> set (kv_puts r ls'). sz \<le> iov_len k1"
  proof -
    have "\<forall>(g, k0, k1) \<in> set (fst (A r) @ snd (A r)). ucast (hd_send_max_size (ks_hdr s) ! r) \<le> iov_len k1" using max(1) by (simp add: kv_max_def)
    then have "\<forall>(g, k0, k1) \<in> set (fst (A r) @ snd (A r)). sz \<le> iov_len k1" using order_trans [OF that(1)] by blast
    from akv_all [OF A'(1) this that(2)] show ?thesis using g(1) by simp
  qed
  moreover have "ucast (hd_send_max_size (ks_hdr s') ! r) \<le> iov_len k1" using max(2) g(1) by (auto simp: kv_max_def)
  ultimately show ?thesis using g ring_choice_fits [of sz "ks_hdr s"] assms(6) by auto
qed

theorem kvec_fits_witness:
  "\<exists>s0 s s' h m i co hdr. kv_new 4 ex_remote = Some s0 \<and> runs (kv_step 4) s0 [ex_put] s \<and> runs (kv_step 4) s [KPublish [1, 0, 0]] s' \<and>
     vop_kvec_get 0 (ks_cons s') (ks_hdr s') = Some (Inr (h, m, i), co, hdr) \<and> 1700 \<le> iov_len (pk_iov (hd_rings hdr ! 0 ! (i + 1)))"
proof -
  obtain s0 s where s: "kv_new 4 ex_remote = Some s0" "runs (kv_step 4) s0 [ex_put] s" "hd_send_max_size (ks_hdr s) = [1800, 0, 0]"
    using example_put(4) by blast
  define s' where "s' = s\<lparr>ks_hdr := vop_kvec_buff_update_idx (ks_prod s) [1, 0, 0] (ks_hdr s)\<rparr>"
  have run: "runs (kv_step 4) s [KPublish [1, 0, 0]] s'"
    using runs_one [of "kv_step 4", OF kv_step_publish [of 4 s "[1, 0, 0]"]] by (simp add: s'_def)
  have id: "0 = vop_kvec_size_to_ring_id (ks_hdr s) 1700" "1700 \<le> (ucast (hd_send_max_size (ks_hdr s) ! 0) :: u64)"
    using s(3) by (simp_all add: vop_kvec_size_to_ring_id_def KVEC_BUF_NUM_def upt_rec)
  have "length (kv_gets 0 [ex_put]) < length (kv_puts 0 [ex_put])" by (simp add: kv_gets_def kv_puts_def ex_put_def)
  then obtain h i co hdr where get: "vop_kvec_get 0 (ks_cons s') (ks_hdr s') = Some (Inr (h, 2, i), co, hdr)"
    using kvec_progress [OF example_put(1-3) s(1,2), of 0 "[1, 0, 0]"] by (auto simp: KVEC_BUF_NUM_def s'_def)
  have "kv_puts 0 [KPublish [1, 0, 0]] = []" by (simp add: kv_puts_def)
  then have "1700 \<le> iov_len (pk_iov (hd_rings hdr ! 0 ! (i + 1)))"
    using kvec_fits [OF example_put(1-3) s(1,2) id(1) run get] id(2) by simp
  then show ?thesis using s run get by blast
qed

section \<open>Returned buffers\<close>

fun kvec_use_all :: "(u16 \<times> u64) list \<Rightarrow> vop_used_kiov_ring \<Rightarrow> vop_peer_kvec_buf_header \<Rightarrow> (vop_used_kiov_ring \<times> vop_peer_kvec_buf_header) option" where
  "kvec_use_all [] ring hdr = Some (ring, hdr)"
| "kvec_use_all ((h, b) # us) ring hdr =
     (case vop_kvec_used h b ring hdr of None \<Rightarrow> None | Some (ring1, hdr1) \<Rightarrow> kvec_use_all us ring1 hdr1)"

definition used_kiov :: "u16 \<times> u64 \<Rightarrow> vop_peer_used_kiov" where
  "used_kiov u = \<lparr>pu_len = ucast (snd u), pu_head = fst u\<rparr>"

lemma use_all_window:
  assumes "kvec_num n" "kv.wf n c (ur_last_cnt ring)" "length (hd_used hdr) = unat n" "ur_num ring = n" "ur_last_cnt ring = hd_used_idx hdr"
    "kv.used n c (ur_last_cnt ring) + length us \<le> unat n"
  shows "\<exists>ring' hdr'. kvec_use_all us ring hdr = Some (ring', hdr') \<and> kv.wf n c (hd_used_idx hdr') \<and> length (hd_used hdr') = unat n \<and>
    kv.window n (hd_used hdr') c (hd_used_idx hdr') = kv.window n (hd_used hdr) c (hd_used_idx hdr) @ map used_kiov us"
  using assms
proof (induction us arbitrary: ring hdr)
  case (Cons u us)
  obtain h b where u: "u = (h, b)" by (cases u)
  define i where "i = KVEC_COUNTER_TO_IDX (promote (ur_last_cnt ring)) n"
  define ring1 where "ring1 = ring\<lparr>ur_last_cnt := knext n (ur_last_cnt ring)\<rparr>"
  define hdr1 where "hdr1 = hdr\<lparr>hd_used := (hd_used hdr)[i := used_kiov u], hd_used_idx := knext n (ur_last_cnt ring)\<rparr>"
  have room: "kv.used n c (ur_last_cnt ring) < unat n" using Cons.prems(6) by simp
  have "i < unat n" using kv.idx_less [OF Cons.prems(1)] Cons.prems(2) by (simp add: i_def kv.wf_def)
  then have step: "vop_kvec_used h b ring hdr = Some (ring1, hdr1)"
    using Cons.prems(3,4) by (simp add: vop_kvec_used_def Let_def i_def ring1_def hdr1_def used_kiov_def u)
  have "\<exists>ring' hdr'. kvec_use_all us ring1 hdr1 = Some (ring', hdr') \<and> kv.wf n c (hd_used_idx hdr') \<and> length (hd_used hdr') = unat n \<and>
      kv.window n (hd_used hdr') c (hd_used_idx hdr') = kv.window n (hd_used hdr1) c (hd_used_idx hdr1) @ map used_kiov us"
    using Cons.prems kv.wf_step_tail [OF Cons.prems(1,2) room] kv.used_step_tail [OF Cons.prems(1,2) room]
    by (intro Cons.IH) (simp_all add: ring1_def hdr1_def)
  moreover have "kv.window n (hd_used hdr1) c (hd_used_idx hdr1) = kv.window n (hd_used hdr) c (hd_used_idx hdr) @ [used_kiov u]"
    using kv.window_push [OF Cons.prems(1,2) room Cons.prems(3)] Cons.prems(5) by (simp add: hdr1_def i_def)
  ultimately show ?case using step by (simp add: u)
qed (auto simp: assms)

text \<open>The number of buffers that are given back until the device is found not ready, counted from the \<open>k\<close>-th test.\<close>

fun ready_for :: "(nat \<Rightarrow> bool) \<Rightarrow> nat \<Rightarrow> nat \<Rightarrow> nat" where
  "ready_for ready k 0 = 0"
| "ready_for ready k (Suc m) = (if ready k then Suc (ready_for ready (k + 1) m) else 0)"

lemma ready_for_spec:
  "ready_for ready k m \<le> m"
  "i < ready_for ready k m \<Longrightarrow> ready (k + i)"
  "ready_for ready k m < m \<Longrightarrow> \<not> ready (k + ready_for ready k m)"
proof (induction ready k m arbitrary: i rule: ready_for.induct)
  case (2 ready k m)
  { case 1 then show ?case using 2 by simp }
  { case 2 then show ?case using "2.IH"(2) [of "i - 1"] by (cases i) (auto split: if_splits) }
  { case 3 then show ?case using "2.IH"(3) by (auto split: if_splits) }
qed simp_all

lemma consume_window:
  assumes "kvec_num n" "kv.wf n c (hd_used_idx hdr)" "length (hd_used hdr) = unat n" "kv.window n (hd_used hdr) c (hd_used_idx hdr) = us"
  shows "\<exists>c'. vop_kvec_buf_consume ready k hdr n c vr vrh =
      (case complete_all (map (\<lambda>u. (pu_head u, pu_len u)) (take (ready_for ready k (length us)) us)) (vr, vrh) of
         (vr', vrh') \<Rightarrow> Some (c', vr', vrh')) \<and>
    unat c' = (unat c + ready_for ready k (length us)) mod (2 * unat n)"
  using assms
proof (induction us arbitrary: c vr vrh k)
  case Nil
  have "kv.used n c (hd_used_idx hdr) = 0" using Nil.prems(4) kv.length_window [of n "hd_used hdr" c "hd_used_idx hdr"] by simp
  then have "c = hd_used_idx hdr" using kv.used_0_iff [of c n "hd_used_idx hdr"] Nil.prems(2) by (auto simp: kv.wf_def)
  then show ?case using Nil.prems(2) by (subst vop_kvec_buf_consume.simps) (simp add: complete_all_def kv.wf_def)
next
  case (Cons u us)
  have ne: "c \<noteq> hd_used_idx hdr"
    using Cons.prems(4) kv.length_window [of n "hd_used hdr" c "hd_used_idx hdr"] kv.used_same [of n c] by auto
  have c: "unat c mod (2 * unat n) = unat c" using Cons.prems(2) by (simp add: kv.wf_def)
  define i where "i = KVEC_COUNTER_TO_IDX (promote c) n"
  have i: "hd_used hdr ! i = u" "kv.window n (hd_used hdr) (knext n c) (hd_used_idx hdr) = us" "i < unat n"
    using kv.window_pop [OF Cons.prems(1,2) ne, of "hd_used hdr"] Cons.prems(2,4) kv.idx_less [OF Cons.prems(1), of c] by (auto simp: i_def kv.wf_def)
  show ?case
  proof (cases "ready k")
    case False
    then show ?thesis using c by (subst vop_kvec_buf_consume.simps) (simp add: complete_all_def)
  next
    case True
    obtain vr1 vrh1 where q: "vca_vringh_complete_kern vr vrh (pu_head u) (pu_len u) = (vr1, vrh1)" by (rule prod.exhaust)
    have "vop_kvec_buf_consume ready k hdr n c vr vrh = vop_kvec_buf_consume ready (k + 1) hdr n (knext n c) vr1 vrh1"
      using True ne i q Cons.prems(3) by (subst vop_kvec_buf_consume.simps) (simp add: i_def [symmetric] Let_def)
    with Cons.IH [OF Cons.prems(1) kv.wf_step_head [OF Cons.prems(1,2) ne] Cons.prems(3) i(2), of "k + 1" vr1 vrh1] True q Cons.prems(1)
    show ?thesis by (simp add: complete_all_def unat_kvec_add mod_simps)
  qed
qed

text \<open>C19: of what the sender returns, up to the size of the ring, the receiver gives back to its queue those
  buffers, in the same order and with their lengths, for which it finds the device ready: all of them if the device
  stays ready, otherwise those before the first test that fails. The loop ends, and its counter stands behind
  the last buffer that was given back.\<close>

theorem kvec_used_consumed:
  assumes "kvec_num n" "unat c < 2 * unat n" "length (hd_used hdr) = unat n" "ring = \<lparr>ur_last_cnt = c, ur_num = n\<rparr>" "hd_used_idx hdr = c"
    "length us \<le> unat n"
  shows "\<exists>ring' hdr' j c'. kvec_use_all us ring hdr = Some (ring', hdr') \<and>
    j \<le> length us \<and> (\<forall>k < j. ready k) \<and> (j < length us \<longrightarrow> \<not> ready j) \<and> unat c' = (unat c + j) mod (2 * unat n) \<and>
    vop_kvec_buf_consume ready 0 hdr' n c vr vrh = Some (c', complete_all (map (\<lambda>u. (fst u, ucast (snd u))) (take j us)) (vr, vrh))"
proof -
  have "kv.wf n c c" using kv.wf_same assms(2) by simp
  then obtain ring' hdr' where u: "kvec_use_all us ring hdr = Some (ring', hdr')" "kv.wf n c (hd_used_idx hdr')" "length (hd_used hdr') = unat n"
    "kv.window n (hd_used hdr') c (hd_used_idx hdr') = kv.window n (hd_used hdr) c (hd_used_idx hdr) @ map used_kiov us"
    using use_all_window [OF assms(1), of c ring hdr us] assms(3-6) by auto
  have "kv.window n (hd_used hdr) c (hd_used_idx hdr) = []" using assms(5) by (simp add: kv.window_def)
  then have "kv.window n (hd_used hdr') c (hd_used_idx hdr') = map used_kiov us" using u(4) by simp
  from consume_window [OF assms(1) u(2,3) this, where ready = ready and k = 0 and vr = vr and vrh = vrh] u(1) ready_for_spec [where ready = ready and k = 0 and m = "length us"] show ?thesis
    by (intro exI [of _ ring'] exI [of _ hdr'] exI [of _ "ready_for ready 0 (length us)"])
      (auto simp: comp_def used_kiov_def case_prod_beta take_map)
qed

lemma zero_used: "length (hd_used (zero_header n)) = unat n" "hd_used_idx (zero_header n) = 0"
  by (simp_all add: zero_header_def)

theorem kvec_used_consumed_witness:
  "\<exists>ring' hdr' c'. kvec_use_all [(3, 100), (1, 200)] \<lparr>ur_last_cnt = 0, ur_num = 4\<rparr> (zero_header 4) = Some (ring', hdr') \<and>
     unat c' = 1 \<and> vop_kvec_buf_consume (\<lambda>k. k = 0) 0 hdr' 4 0 (ring_zero 4) (idle_host True) =
       Some (c', complete_all [(3, 100)] (ring_zero 4, idle_host True))"
proof -
  let ?us = "[(3, 100), (1, 200)] :: (u16 \<times> u64) list"
  have small: "unat (0 :: u16) < 2 * unat (4 :: u32)" "length ?us \<le> unat (4 :: u32)" by simp_all
  obtain ring' hdr' j c' where j: "kvec_use_all ?us \<lparr>ur_last_cnt = 0, ur_num = 4\<rparr> (zero_header 4) = Some (ring', hdr')"
    "j \<le> length ?us" "\<forall>k < j. k = 0" "j < length ?us \<longrightarrow> j \<noteq> 0" "unat c' = (unat (0 :: u16) + j) mod (2 * unat (4 :: u32))"
    "vop_kvec_buf_consume (\<lambda>k. k = 0) 0 hdr' 4 0 (ring_zero 4) (idle_host True) =
       Some (c', complete_all (map (\<lambda>u. (fst u, ucast (snd u))) (take j ?us)) (ring_zero 4, idle_host True))"
    using kvec_used_consumed [OF example_put(1) small(1) zero_used(1) refl zero_used(2) small(2), of "\<lambda>k. k = 0" "ring_zero 4" "idle_host True"]
    by blast
  have "j \<le> 2" "j < 2 \<longrightarrow> j \<noteq> 0" using j(2,4) by simp_all
  moreover have "\<not> 1 < j" using j(3) by auto
  ultimately have "j = 1" by arith
  then show ?thesis using j(1,5,6) by auto
qed

section \<open>Cancelling\<close>

text \<open>
  When the buffers wrap around the end of the ring, the test for the range holds for every index. The loop that
  marks the vectors of a cancelled request does not end if all elements have the head of the request, as when it is
  the only buffer, its head is 0, and the other elements were taken, which sets their heads to 0.
\<close>

definition cancel_stuck :: "nat \<Rightarrow> nat \<Rightarrow> u32 \<Rightarrow> u16 \<Rightarrow> vop_peer_kvec list \<Rightarrow> nat \<Rightarrow> bool" where
  "cancel_stuck e0 e1 n head buf i \<longleftrightarrow> e1 < e0 \<and> length buf = unat n \<and> i < unat n \<and> (\<forall>k \<in> set buf. pk_head k = head)"

lemma cancel_stuck_step:
  assumes "cancel_stuck e0 e1 n head buf i"
  shows "i < length buf" "pk_head (buf ! i) = head" "kvec_in_range e0 e1 i"
    "cancel_stuck e0 e1 n head (buf[i := (buf ! i)\<lparr>pk_flags := x\<rparr>]) (KVEC_COUNTER_TO_IDX (word_of_nat i + 1) n)"
proof -
  have "\<forall>k \<in> set (buf[i := (buf ! i)\<lparr>pk_flags := x\<rparr>]). pk_head k = head"
    using assms set_update_subset_insert [of buf i] by (fastforce simp: cancel_stuck_def)
  moreover have "0 < unat n" using assms by (auto simp: cancel_stuck_def)
  then have "KVEC_COUNTER_TO_IDX c n < unat n" for c by (simp add: kvec_idx)
  ultimately show "cancel_stuck e0 e1 n head (buf[i := (buf ! i)\<lparr>pk_flags := x\<rparr>]) (KVEC_COUNTER_TO_IDX (word_of_nat i + 1) n)"
    using assms by (simp add: cancel_stuck_def)
qed (use assms in \<open>auto simp: cancel_stuck_def kvec_in_range_def\<close>)

lemma cancel_loop_never_ends: "cancel_stuck e0 e1 n head buf i \<Longrightarrow> kvec_cancel_loop e0 e1 n head buf i = None"
proof (rule ccontr)
  assume stuck: "cancel_stuck e0 e1 n head buf i" and "kvec_cancel_loop e0 e1 n head buf i \<noteq> None"
  then obtain buf' where ends: "kvec_cancel_loop e0 e1 n head buf i = Some buf'" by blast
  have "\<not> cancel_stuck e0 e1 n head buf i"
  proof (rule kvec_cancel_loop.raw_induct [OF _ ends, of "\<lambda>e0 e1 n head buf i buf'. \<not> cancel_stuck e0 e1 n head buf i"], rule notI)
    fix loop :: "nat \<Rightarrow> nat \<Rightarrow> u32 \<Rightarrow> u16 \<Rightarrow> vop_peer_kvec list \<Rightarrow> nat \<Rightarrow> vop_peer_kvec list option" and e0 e1 n head buf i buf'
    assume IH: "\<And>e0 e1 n head buf i buf'. loop e0 e1 n head buf i = Some buf' \<Longrightarrow> \<not> cancel_stuck e0 e1 n head buf i"
      and body: "(if length buf \<le> i then None
         else if pk_head (buf ! i) = head \<and> kvec_in_range e0 e1 i
         then loop e0 e1 n head (buf[i := (buf ! i)\<lparr>pk_flags := pk_flags (buf ! i) OR VOP_KVEC_FLAG_CANCELLED\<rparr>])
                (KVEC_COUNTER_TO_IDX (word_of_nat i + 1) n)
         else Some buf) = Some buf'" and st: "cancel_stuck e0 e1 n head buf i"
    have "loop e0 e1 n head (buf[i := (buf ! i)\<lparr>pk_flags := pk_flags (buf ! i) OR VOP_KVEC_FLAG_CANCELLED\<rparr>])
        (KVEC_COUNTER_TO_IDX (word_of_nat i + 1) n) = Some buf'"
      using body cancel_stuck_step(1-3) [OF st] by simp
    from IH [OF this] cancel_stuck_step(4) [OF st] show False by blast
  qed
  with stuck show False by simp
qed

lemma check_cancel_never_ends:
  assumes "hd_request_cancellation hdr" "hd_cancelled_request_ring_id hdr = 0" "kr_num (rings ! 0) = 8" "length (hd_rings hdr ! 0) = 8"
    "kr_last_cnt (rings ! 0) = 6" "hd_idx hdr ! 0 = 8" "hd_cancelled_request_idx hdr = 6"
    "\<forall>k \<in> set (hd_rings hdr ! 0). pk_head k = 0 \<and> pk_flags k = 0"
  shows "vop_kvec_check_cancel wait rings hdr = None"
proof -
  have "cancel_stuck 6 0 8 0 (hd_rings hdr ! 0) 6" using assms(4,8) by (simp add: cancel_stuck_def)
  from cancel_loop_never_ends [OF cancel_stuck_step(4) [OF this]] assms
  show ?thesis by (simp add: vop_kvec_check_cancel_def Let_def KVEC_BUF_NUM_def KVEC_COUNTER_TO_IDX_def promote_def)
qed

end
