(* ===== verification/Vop_Transfer_Facts.thy ===== *)
theory Vop_Transfer_Facts
  imports Vop_Transfer Virtio_Notify Vop_Kvec_Facts
begin

unbundle bit_operations_syntax

text \<open>
  What a transfer does: the engine moves whole blocks of 64 bytes, and still the receiver finds the data at the offset in
  the first byte of its buffer, nothing outside of the buffer is written, both buffers are returned once, and the
  window and the mapping are released. Two stops of the kernel are shown.
\<close>

section \<open>Alignment\<close>

lemmas overheads = SEND_ALIGN_OVERHEAD_DMA_SIZE_def SEND_ALIGN_OVERHEAD_MEMCPY_SIZE_def DMA_MAX_OFFSET_def PLX_DMA_ALIGN_BYTES_def

lemma align_down64: "unat ((x :: u64) AND - 64) = unat x div 64 * 64"
  using align_down [of 6 x] by simp

lemma unat_add_small: "unat (a :: u64) + unat b < 2 ^ 64 \<Longrightarrow> unat (a + b) = unat a + unat b"
  by (simp add: unat_word_ariths)

lemma unat_ALIGN64:
  assumes "unat x + 63 < 2 ^ 64"
  shows "unat (ALIGN64 x) = (unat x + 63) div 64 * 64"
proof -
  have "unat (x + 63) = unat x + 63" using unat_add_small [of x 63] assms by simp
  then show ?thesis by (simp add: ALIGN64_def PLX_DMA_ALIGN_BYTES_def align_down64)
qed

lemma round_up64: "(a :: nat) \<le> (a + 63) div 64 * 64" "(a + 63) div 64 * 64 \<le> a + 63"
  by presburger+

lemma dma_plan_spec:
  assumes "unat dst + unat n + 191 < 2 ^ 64"
  obtains new_src new_dst sz offset where "dma_plan src dst n = (new_src, new_dst, sz, offset)"
    and "new_src = src AND - 64" "unat new_src \<le> unat src" "unat src + unat n \<le> unat new_src + unat sz"
    and "unat dst < unat new_dst" "unat new_dst + unat sz < unat dst + unat n + 191"
    and "unat new_dst + (unat src - unat new_src) = unat dst + unat offset"
    and "1 \<le> unat offset" "unat offset \<le> 127"
    and "64 dvd unat new_src" "64 dvd unat new_dst" "64 dvd unat sz"
proof -
  define ns where "ns = src AND - 64"
  define os where "os = src - ns"
  define nd where "nd = ALIGN64 dst"
  define od where "od = nd - dst"
  have ns: "unat ns = unat src div 64 * 64" by (simp add: ns_def align_down64)
  then have ns_le: "unat ns \<le> unat src" by simp
  have os: "unat os = unat src - unat ns" using ns_le by (simp add: os_def unat_sub word_le_nat_alt)
  have os63: "unat os \<le> 63" unfolding os ns by presburger
  have nd: "unat nd = (unat dst + 63) div 64 * 64" using assms by (simp add: nd_def unat_ALIGN64)
  have nd_ge: "unat dst \<le> unat nd" "unat nd \<le> unat dst + 63" unfolding nd by (rule round_up64)+
  have od: "unat od = unat nd - unat dst" using nd_ge(1) by (simp add: od_def unat_sub word_le_nat_alt)
  have nos: "unat (n + os) = unat n + unat os" by (rule unat_add_small) (use assms os63 in linarith)
  have sz: "unat (ALIGN64 (n + os)) = (unat n + unat os + 63) div 64 * 64" using assms os63 by (simp add: unat_ALIGN64 nos)
  have sz_b: "unat n + unat os \<le> unat (ALIGN64 (n + os))" "unat (ALIGN64 (n + os)) \<le> unat n + unat os + 63" unfolding sz by (rule round_up64)+
  have off: "unat (od + os) = unat od + unat os" by (rule unat_add_small) (use od os63 nd_ge in simp)
  have nd64: "unat (nd + 64) = unat nd + 64" using unat_add_small [of nd 64] nd_ge assms by simp
  have off64: "unat (od + os + 64) = unat od + unat os + 64"
    using unat_add_small [of "od + os" 64] off od os63 nd_ge by simp
  have div: "64 dvd unat ns" "64 dvd unat nd" "64 dvd unat nd + 64" "64 dvd unat (ALIGN64 (n + os))"
    unfolding ns nd sz by (auto intro: dvd_add)
  have od': "unat nd = unat dst + unat od" and os': "unat src = unat ns + unat os"
    using od os nd_ge ns_le by simp_all
  note plan = dma_plan_def Let_def PLX_DMA_ALIGN_BYTES_def ns_def os_def nd_def od_def
  show ?thesis
  proof (cases "od < 1")
    case True
    then have od0: "unat od = 0" by (simp add: word_less_nat_alt)
    show ?thesis
    proof (rule that [of ns "nd + 64" "ALIGN64 (n + os)" "od + os + 64"])
      show "dma_plan src dst n = (ns, nd + 64, ALIGN64 (n + os), od + os + 64)" using True by (simp add: plan)
      show "ns = src AND - 64" by (rule ns_def)
    qed (use od0 os63 sz_b div nd64 off64 od' os' in \<open>linarith | simp only:\<close>)+
  next
    case False
    then have od1: "1 \<le> unat od" by (simp add: word_less_nat_alt word_le_nat_alt)
    show ?thesis
    proof (rule that [of ns nd "ALIGN64 (n + os)" "od + os"])
      show "dma_plan src dst n = (ns, nd, ALIGN64 (n + os), od + os)" using False by (simp add: plan)
      show "ns = src AND - 64" by (rule ns_def)
    qed (use od1 os63 sz_b div nd_ge off od' os' in \<open>linarith | simp only:\<close>)+
  qed
qed

section \<open>Memory\<close>

lemma load_nth [simp]: "k < n \<Longrightarrow> load m a n ! k = m (a + word_of_nat k)"
  by (simp add: load_def)

lemma length_load [simp]: "length (load m a n) = n"
  by (simp add: load_def)

lemma store_at:
  assumes "k < length bs" "length bs < 2 ^ 64"
  shows "store a bs m (a + word_of_nat k) = bs ! k"
  using assms by (simp add: store_def unsigned_of_nat take_bit_nat_eq_self)

lemma store_outside:
  assumes "unat a + length bs < 2 ^ 64" "unat y < unat a \<or> unat a + length bs \<le> unat y"
  shows "store a bs m y = m y"
proof -
  have "length bs \<le> unat (y - a)"
  proof (cases "unat a \<le> unat y")
    case True
    then show ?thesis using assms(2) by (simp add: unat_sub word_le_nat_alt)
  next
    case False
    then have "unat (y - a) = 2 ^ 64 + unat y - unat a" by (simp add: unat_sub_if')
    then show ?thesis using assms(1) False by linarith
  qed
  then show ?thesis by (simp add: store_def)
qed

section \<open>Sending\<close>

text \<open>What the receiver sees: the offset in the first byte leads to the data, and the rest of the memory is as before.\<close>

definition lands :: "(u64 \<Rightarrow> u8) \<Rightarrow> u64 \<Rightarrow> u64 \<Rightarrow> (u64 \<Rightarrow> u8) \<Rightarrow> u64 \<Rightarrow> u64 \<Rightarrow> (u64 \<Rightarrow> u8) \<Rightarrow> bool" where
  "lands local src n old dst len new \<longleftrightarrow>
     (\<forall>k < unat n. new (dst + ucast (new dst) + word_of_nat k) = local (src + word_of_nat k)) \<and>
     (\<forall>a. unat a < unat dst \<or> unat dst + unat len \<le> unat a \<longrightarrow> new a = old a)"

lemma lands_store:
  fixes off :: u64
  assumes off: "0 < unat off" "unat off < 256"
    and data: "unat dst < unat nd" "unat nd + d = unat dst + unat off" "d + unat n \<le> length bs"
    and bs: "\<And>k. k < unat n \<Longrightarrow> bs ! (d + k) = local (src + word_of_nat k)"
    and fits: "unat nd + length bs \<le> unat dst + unat len" "unat dst + unat len < 2 ^ 64"
  shows "lands local src n old dst len (store nd bs (store dst [ucast off] old))"
proof -
  have "ucast (ucast off :: u8) = off"
    by (rule word_unat_eq_iff [THEN iffD2]) (use off in \<open>simp add: unsigned_ucast_eq unsigned_take_bit_eq take_bit_nat_eq_self\<close>)
  moreover have "store nd bs (store dst [ucast off] old) dst = ucast off"
    using data(1) fits by (simp add: store_outside) (simp add: store_def)
  moreover have "dst + off + word_of_nat k = nd + word_of_nat (d + k)" for k
    using arg_cong [OF data(2), of "of_nat :: nat \<Rightarrow> u64"] by (simp add: add.assoc)
  moreover have "store nd bs (store dst [ucast off] old) (nd + word_of_nat (d + k)) = local (src + word_of_nat k)" if "k < unat n" for k
    using store_at [of "d + k" bs nd] data(3) fits that bs by simp
  moreover have "store nd bs (store dst [ucast off] old) a = old a" if "unat a < unat dst \<or> unat dst + unat len \<le> unat a" for a
  proof -
    have "store nd bs m a = m a" for m by (rule store_outside) (use that data fits in linarith)+
    moreover have "store dst [ucast off] m a = m a" for m by (rule store_outside) (use that data fits in auto)
    ultimately show ?thesis by simp
  qed
  ultimately show ?thesis unfolding lands_def by metis
qed

lemma set_item_simps [simp]:
  "unat x < length (vs_items s) \<Longrightarrow> item_of x (set_item x it s) = it"
  "length (vs_items (set_item x it s)) = length (vs_items s)"
  "set_item x it (set_item x it' s) = set_item x it s"
  "item_of x (s\<lparr>vs_window := w\<rparr>) = item_of x s"
  "item_of x (s\<lparr>vs_maps := ms\<rparr>) = item_of x s"
  "item_of x (s\<lparr>vs_windows := ms\<rparr>) = item_of x s"
  "item_of x (s\<lparr>vs_jobs := js\<rparr>) = item_of x s"
  by (simp_all add: set_item_def item_of_def)

lemma notify_frame [simp]:
  "item_of x (common_dev_notify_used env s) = item_of x s"
  "vs_items (common_dev_notify_used env s) = vs_items s"
  "vs_dma_dev (common_dev_notify_used env s) = vs_dma_dev s"
  "vs_feature_desc_alignment (common_dev_notify_used env s) = vs_feature_desc_alignment s"
  "vs_jobs (common_dev_notify_used env s) = vs_jobs s"
  "vs_window (common_dev_notify_used env s) = vs_window s"
  "vs_local (common_dev_notify_used env s) = vs_local s"
  "vs_maps (common_dev_notify_used env s) = vs_maps s"
  "vs_windows (common_dev_notify_used env s) = vs_windows s"
  "vs_hdr (common_dev_notify_used env s) = vs_hdr s"
  "vs_tx (common_dev_notify_used env s) = vs_tx s"
  "vs_tx_vrh (common_dev_notify_used env s) = vs_tx_vrh s"
  "vs_used (common_dev_notify_used env s) = vs_used s"
  "vs_peer (common_dev_notify_used env s) = vs_peer s"
  by (simp_all add: common_dev_notify_used_def item_of_def split: prod.split)

lemma set_item_frame [simp]:
  "vs_dma_dev (set_item x it s) = vs_dma_dev s"
  "vs_feature_desc_alignment (set_item x it s) = vs_feature_desc_alignment s"
  "vs_jobs (set_item x it s) = vs_jobs s"
  "vs_window (set_item x it s) = vs_window s"
  "vs_local (set_item x it s) = vs_local s"
  "vs_maps (set_item x it s) = vs_maps s"
  "vs_windows (set_item x it s) = vs_windows s"
  "vs_hdr (set_item x it s) = vs_hdr s"
  "vs_tx (set_item x it s) = vs_tx s"
  "vs_tx_vrh (set_item x it s) = vs_tx_vrh s"
  "vs_used (set_item x it s) = vs_used s"
  "vs_peer (set_item x it s) = vs_peer s"
  by (simp_all add: set_item_def)

text \<open>The engine is given a job that makes the data land; the mapping gives the engine the memory of the sender.\<close>

lemma dma_send_lands:
  assumes x: "unat x < length (vs_items s)" and f: "vs_feature_desc_alignment s"
    and it: "it_remapped (item_of x s) = Some w" "it_src_phys (item_of x s) = src" "src \<noteq> 0" "\<not> it_tx (item_of x s)"
    and w: "unat w + unat n + 191 < 2 ^ 64"
    and engine: "tv_channel env" "tv_prep env" "tv_submit env = None"
    and mapped: "\<And>k. bus (tv_dma_map env (src AND - 64) + word_of_nat k) = vs_local s ((src AND - 64) + word_of_nat k)"
  obtains s' nd da sz where "transfer_dma_send env x w n s = Some (Inr (), s')"
    and "vs_jobs s' = vs_jobs s @ [(nd, da, sz, x)]" "64 dvd unat nd" "64 dvd unat sz" "vs_maps s' = add_mset da (vs_maps s)"
    and "vs_windows s' = vs_windows s" "it_src_phys_da (item_of x s') = da" "it_remapped (item_of x s') = Some w"
    and "lands (vs_local s) src n (vs_window s) w (n + 191) (store nd (load bus da (unat sz)) (vs_window s'))"
proof -
  obtain ns nd sz off where plan: "dma_plan src w n = (ns, nd, sz, off)"
    and ns: "ns = src AND - 64" "unat ns \<le> unat src" "unat src + unat n \<le> unat ns + unat sz"
    and nd: "unat w < unat nd" "unat nd + unat sz < unat w + unat n + 191" "unat nd + (unat src - unat ns) = unat w + unat off"
    and off: "1 \<le> unat off" "unat off \<le> 127"
    and dvd: "64 dvd unat ns" "64 dvd unat nd" "64 dvd unat sz"
    by (rule dma_plan_spec [OF w])
  define da where "da = tv_dma_map env ns"
  have off127: "\<not> DMA_MAX_OFFSET < off" using off by (simp add: DMA_MAX_OFFSET_def word_less_nat_alt)
  have len: "unat (n + 191) = unat n + 191" using unat_add_small [of n 191] w by simp
  have "lands (vs_local s) src n (vs_window s) w (n + 191) (store nd (load bus da (unat sz)) (store w [ucast off] (vs_window s)))"
  proof (rule lands_store [where d = "unat src - unat ns"])
    have src: "word_of_nat (unat src - unat ns) = src - ns" using ns(2) by (simp add: of_nat_diff)
    fix k assume "k < unat n"
    then have "load bus da (unat sz) ! (unat src - unat ns + k) = bus (da + word_of_nat (unat src - unat ns + k))"
      using ns by (intro load_nth) linarith
    also have "\<dots> = vs_local s (ns + word_of_nat (unat src - unat ns + k))"
      unfolding da_def ns(1) by (rule mapped)
    finally show "load bus da (unat sz) ! (unat src - unat ns + k) = vs_local s (src + word_of_nat k)"
      by (simp add: src)
  qed (use ns nd off w len in simp_all)
  then show ?thesis
    using that [of "set_item x ((item_of x s)\<lparr>it_jiffies := get_time_jiff_not_zero env, it_src_phys_sz := sz, it_src_phys_da := da, it_tx := True\<rparr>)
        (s\<lparr>vs_window := store w [ucast off] (vs_window s), vs_maps := add_mset da (vs_maps s), vs_jobs := vs_jobs s @ [(nd, da, sz, x)]\<rparr>)" nd da sz]
      x f it engine dvd off127
    by (simp add: transfer_dma_send_def vop_async_dma_def plan da_def Let_def set_item_def item_of_def)
qed

lemma memcpy_offset_bounds: "1 \<le> unat (memcpy_offset src)" "unat (memcpy_offset src) \<le> 4"
proof -
  have "src AND 3 \<le> 3" by (simp add: word_and_le1 word_and_le2)
  then have "unat (src AND 3) \<le> 3" by (simp add: word_le_nat_alt)
  then show "1 \<le> unat (memcpy_offset src)" "unat (memcpy_offset src) \<le> 4"
    by (auto simp: memcpy_offset_def Let_def unat_gt_0 Suc_le_eq)
qed

lemma memcpy_send_lands:
  assumes f: "vs_feature_desc_alignment s" "\<not> vs_dma_dev s"
    and it: "it_remapped (item_of x s) = Some w" "it_src_phys (item_of x s) = src" "src \<noteq> 0"
    and n: "n \<noteq> 0" "unat w + unat n + 64 < 2 ^ 64"
  obtains m where "transfer_memcpy_send x n s = Some (s\<lparr>vs_window := m\<rparr>)"
    and "lands (vs_local s) src n (vs_window s) w (n + 64) m"
proof -
  define off where "off = memcpy_offset src"
  have off: "1 \<le> unat off" "unat off \<le> 4" unfolding off_def by (rule memcpy_offset_bounds)+
  have len: "unat (n + 64) = unat n + 64" using unat_add_small [of n 64] n by simp
  have wo: "unat (w + off) = unat w + unat off" by (rule unat_add_small) (use off n in simp)
  have "lands (vs_local s) src n (vs_window s) w (n + 64) (store (w + off) (load (vs_local s) src (unat n)) (store w [ucast off] (vs_window s)))"
    by (rule lands_store [where d = 0]) (use off n len wo in simp_all)
  moreover have "\<not> send_overhead s < off" using off f by (simp add: send_overhead_def overheads word_less_nat_alt)
  ultimately show ?thesis using that f it n by (simp add: transfer_memcpy_send_def off_def [symmetric] Let_def)
qed

text \<open>C9: writing a packet into the buffer that was taken for it gives the engine one job, of whole blocks of 64
  bytes, after which the receiver finds the data of the packet at the offset in the first byte of its buffer; the job
  stays within the window of the packet, which stays within the buffer. Nothing stops the kernel.\<close>

theorem transfer_write_lands:
  fixes s x
  defines "it \<equiv> item_of x s" and "n \<equiv> it_data_size (item_of x s)" and "src \<equiv> it_src_phys (item_of x s)"
  assumes x: "unat x < length (vs_items s)" and mode: "vs_dma_dev s" "vs_feature_desc_alignment s"
    and taken: "it_kvec_to it = Some (r, i)" "it_num_kvecs_to it = 2" "i + 1 < length (hd_rings (vs_hdr s) ! r)"
      "pk_iov (hd_rings (vs_hdr s) ! r ! (i + 1)) = v"
    and fits: "n + 191 \<le> iov_len v" and packet: "src \<noteq> 0" "\<not> it_tx it"
    and window: "tv_ioremap env (iov_base v) (n + 191) = Some w" "unat w + unat n + 191 < 2 ^ 64"
    and engine: "tv_channel env" "tv_prep env" "tv_submit env = None"
    and mapped: "\<And>k. bus (tv_dma_map env (src AND - 64) + word_of_nat k) = vs_local s ((src AND - 64) + word_of_nat k)"
  shows "\<exists>s' nd da sz. transfer_write env x s = Some (Inr (), s') \<and> vs_jobs s' = vs_jobs s @ [(nd, da, sz, x)] \<and>
      64 dvd unat nd \<and> 64 dvd unat sz \<and> vs_windows s' = add_mset w (vs_windows s) \<and> vs_maps s' = add_mset da (vs_maps s) \<and>
      lands (vs_local s) src n (vs_window s) w (n + 191) (store nd (load bus da (unat sz)) (vs_window s')) \<and> n + 191 \<le> iov_len v"
proof -
  let ?it = "it\<lparr>it_bytes_written := it_bytes_written it + iov_len (pk_iov (hd_rings (vs_hdr s) ! r ! i)) + n\<rparr>"
  let ?s = "set_item x (?it\<lparr>it_remapped := Some w\<rparr>)
      ((set_item x ?it (common_dev_notify_used env s))\<lparr>vs_windows := add_mset w (vs_windows s)\<rparr>)"
  have x': "unat x < length (vs_items ?s)" using x by simp
  obtain s' nd da sz where s': "transfer_dma_send env x w n ?s = Some (Inr (), s')"
    and res: "vs_jobs s' = vs_jobs ?s @ [(nd, da, sz, x)]" "64 dvd unat nd" "64 dvd unat sz" "vs_maps s' = add_mset da (vs_maps ?s)"
      "vs_windows s' = vs_windows ?s" "lands (vs_local ?s) src n (vs_window ?s) w (n + 191) (store nd (load bus da (unat sz)) (vs_window s'))"
    by (rule dma_send_lands [OF x' _ _ _ packet(1) _ window(2) engine, where bus = bus])
      (use x mode packet mapped in \<open>simp_all add: it_def src_def\<close>)
  have "item_of x s = it" "it_data_size it = n" by (simp_all add: it_def n_def)
  then have "transfer_write env x s = Some (Inr (), s')"
    using s' x mode taken fits window packet
    by (simp add: transfer_write_def transfer_ioremap_def send_overhead_def overheads Let_def not_less)
  with res fits show ?thesis by simp
qed

section \<open>Resources\<close>

text \<open>The windows and mappings are those of \<open>W\<close> and \<open>M\<close> and the ones of item \<open>x\<close>.\<close>

definition holds_resources :: "u64 multiset \<Rightarrow> u64 multiset \<Rightarrow> u16 \<Rightarrow> vop_sys \<Rightarrow> bool" where
  "holds_resources W M x s \<longleftrightarrow> unat x < length (vs_items s) \<and> (vs_dma_dev s \<or> it_src_phys_da (item_of x s) = 0) \<and>
     vs_windows s = W + (case it_remapped (item_of x s) of None \<Rightarrow> {#} | Some w \<Rightarrow> {# w #}) \<and>
     vs_maps s = M + (if it_src_phys_da (item_of x s) = 0 then {#} else {# it_src_phys_da (item_of x s) #})"

text \<open>A mapping at the address 0 is not known to the item, which has 0 for no mapping; it stays behind.\<close>

definition left_behind :: "vop_env \<Rightarrow> bool \<Rightarrow> u64 \<Rightarrow> u64 multiset \<Rightarrow> u64 multiset \<Rightarrow> bool" where
  "left_behind env dma src M M' \<longleftrightarrow> M' = M \<or> dma \<and> tv_dma_map env (src AND - 64) = 0 \<and> M' = add_mset 0 M"

lemma dma_send_holds:
  assumes "holds_resources W M x s" "it_src_phys_da (item_of x s) = 0" "vs_dma_dev s"
    and "transfer_dma_send env x dst n s = Some (r, s')"
  shows "\<exists>M'. left_behind env True (it_src_phys (item_of x s)) M M' \<and> holds_resources W M' x s'"
proof -
  let ?da = "tv_dma_map env (it_src_phys (item_of x s) AND - 64)"
  obtain nd sz off where plan: "dma_plan (it_src_phys (item_of x s)) dst n = (it_src_phys (item_of x s) AND - 64, nd, sz, off)"
    by (simp add: dma_plan_def Let_def PLX_DMA_ALIGN_BYTES_def) fastforce
  show ?thesis
  proof (cases "vs_feature_desc_alignment s \<and> ?da = 0")
    case True
    then have "holds_resources W (add_mset 0 M) x s'"
      using assms plan by (auto simp: transfer_dma_send_def vop_async_dma_def holds_resources_def Let_def split: if_splits prod.splits option.splits sum.splits)
    then show ?thesis using True by (auto simp: left_behind_def)
  next
    case False
    then have "holds_resources W M x s'"
      using assms plan by (auto simp: transfer_dma_send_def vop_async_dma_def holds_resources_def Let_def split: if_splits prod.splits option.splits sum.splits)
    then show ?thesis by (auto simp: left_behind_def)
  qed
qed

lemma memcpy_holds: "holds_resources W M x s \<Longrightarrow> transfer_memcpy_send x n s = Some s' \<Longrightarrow> holds_resources W M x s'"
  by (auto simp: transfer_memcpy_send_def holds_resources_def Let_def split: if_splits option.splits)

text \<open>Writing a packet by copying finishes the transfer as well; otherwise the item has what was made for it.\<close>

lemma write_holds:
  assumes h: "holds_resources W M x s" "it_src_phys_da (item_of x s) = 0" "it_remapped (item_of x s) = None"
    and w: "transfer_write env x s = Some (r, s')"
  shows "if \<not> vs_dma_dev s \<and> r = Inr () then \<exists>t. holds_resources W M x t \<and> transfer_done env x t = Some s'
    else \<exists>M'. left_behind env (vs_dma_dev s) (it_src_phys (item_of x s)) M M' \<and> holds_resources W M' x s'" (is ?goal)
proof -
  have same: "left_behind env (vs_dma_dev s) (it_src_phys (item_of x s)) M M" by (simp add: left_behind_def)
  have failed: "holds_resources W M x s' \<Longrightarrow> r \<noteq> Inr () \<Longrightarrow> ?goal" using same by auto
  have x: "unat x < length (vs_items s)" "vs_windows s = W" "vs_maps s = M"
    using h by (simp_all add: holds_resources_def)
  let ?s = "\<lambda>b. set_item x ((item_of x s)\<lparr>it_bytes_written := b\<rparr>) (common_dev_notify_used env s)"
  have plain: "holds_resources W M x (?s b)" for b
    using h x by (simp add: holds_resources_def)
  have map: "holds_resources W M x (snd (transfer_ioremap env x pa l (?s b)))" "it_src_phys_da (item_of x (snd (transfer_ioremap env x pa l (?s b)))) = 0"
    "it_src_phys (item_of x (snd (transfer_ioremap env x pa l (?s b)))) = it_src_phys (item_of x s)"
    "vs_dma_dev (snd (transfer_ioremap env x pa l (?s b))) = vs_dma_dev s"
    for b pa l using h x by (auto simp: transfer_ioremap_def holds_resources_def split: option.splits)
  show ?thesis
  proof (cases "it_num_kvecs_to (item_of x s) = 2")
    case False
    with w h(1) failed show ?thesis by (auto simp: transfer_write_def Let_def)
  next
    case two: True
    with w obtain q i where to: "it_kvec_to (item_of x s) = Some (q, i)" "\<not> length (hd_rings (vs_hdr s) ! q) \<le> i + 1"
      by (auto simp: transfer_write_def Let_def split: option.splits if_splits)
    let ?v = "\<lambda>j. pk_iov (hd_rings (vs_hdr s) ! q ! j)" and ?n = "it_data_size (item_of x s)"
    let ?b = "it_bytes_written (item_of x s) + iov_len (?v i) + ?n"
    obtain ok s2 where io: "transfer_ioremap env x (iov_base (?v (i + 1))) (?n + send_overhead s) (?s ?b) = (ok, s2)" by fastforce
    note m = map [of "iov_base (?v (i + 1))" "?n + send_overhead s" ?b, unfolded io snd_conv]
    note body = w [unfolded transfer_write_def Let_def, simplified two to, simplified]
    show ?thesis
    proof (cases "iov_len (?v (i + 1)) < ?n + send_overhead s \<or> \<not> ok")
      case True
      then show ?thesis using body io to failed plain [of 0] m(1) by (auto split: if_splits)
    next
      case sent: False
      show ?thesis
      proof (cases "vs_dma_dev s")
        case True
        then have "transfer_dma_send env x (the (it_remapped (item_of x s2))) ?n s2 = Some (r, s')" using body io to sent by simp
        from dma_send_holds [OF m(1,2) _ this] True show ?thesis by (simp add: m)
      next
        case False
        then obtain s3 where s3: "transfer_memcpy_send x ?n s2 = Some s3" "transfer_done env x s3 = Some s'" "r = Inr ()"
          using body io to sent by (auto split: option.splits)
        with memcpy_holds [OF m(1) s3(1)] False show ?thesis by auto
      qed
    qed
  qed
qed

lemma put_descriptors_frame [simp]:
  "vs_items (put_descriptors h n s) = vs_items s"
  "vs_dma_dev (put_descriptors h n s) = vs_dma_dev s"
  "vs_windows (put_descriptors h n s) = vs_windows s"
  "vs_maps (put_descriptors h n s) = vs_maps s"
  "vs_hdr (put_descriptors h n s) = vs_hdr s"
  "item_of x (put_descriptors h n s) = item_of x s"
  by (simp_all add: put_descriptors_def item_of_def split: prod.split)

lemma return_source_holds: "holds_resources W M x s \<Longrightarrow> holds_resources W M x (return_source x s)"
  by (auto simp: return_source_def holds_resources_def Let_def split: option.splits)

lemma reset_releases:
  assumes "holds_resources W M x s" "buffer_dma_ring_item_reset x s = Some s'"
  shows "vs_windows s' = W \<and> vs_maps s' = M \<and> it_status_ready (item_of x s') \<and> it_remapped (item_of x s') = None \<and>
    it_src_phys_da (item_of x s') = 0 \<and> it_kvec_to (item_of x s') = None"
  using assms by (auto simp: buffer_dma_ring_item_reset_def holds_resources_def Let_def split: option.splits if_splits)

lemma done_releases:
  assumes h: "holds_resources W M x s" and d: "transfer_done env x s = Some s'"
  shows "vs_windows s' = W \<and> vs_maps s' = M \<and> it_status_ready (item_of x s') \<and> it_remapped (item_of x s') = None \<and>
    it_src_phys_da (item_of x s') = 0 \<and> it_kvec_to (item_of x s') = None"
proof -
  have used: "holds_resources W M x (common_dev_notify_used env (set_item x ((item_of x s)\<lparr>it_head_to := USHRT_MAX\<rparr>) (s\<lparr>vs_used := u, vs_peer := p\<rparr>)))"
    for u p using h by (auto simp: holds_resources_def item_of_def set_item_def)
  have hdr: "holds_resources W M x (t\<lparr>vs_hdr := g\<rparr>)" if "holds_resources W M x t" for t g
    using that by (simp add: holds_resources_def item_of_def)
  obtain t g where "holds_resources W M x t" "buffer_dma_ring_item_reset x (t\<lparr>vs_hdr := g\<rparr>) = Some s'"
    using d h return_source_holds [OF h] return_source_holds [OF used]
    by (fastforce simp: transfer_done_def Let_def split: option.splits if_splits prod.splits)
  then show ?thesis using reset_releases hdr by blast
qed

text \<open>An item with a buffer of the receiver can be finished.\<close>

lemma return_source_keeps:
  "unat x < length (vs_items s) \<Longrightarrow> vs_hdr (return_source x s) = vs_hdr s \<and> it_k_from (item_of x (return_source x s)) = it_k_from (item_of x s)"
  by (simp add: return_source_def Let_def)

lemma reset_total:
  assumes "kv_used (it_k_from (item_of x s)) = 0 \<or> unat (kv_i (it_k_from (item_of x s))) < length (kv_iov (it_k_from (item_of x s)))"
  shows "buffer_dma_ring_item_reset x s \<noteq> None"
  using assms by (auto simp: buffer_dma_ring_item_reset_def vringh_kiov_reset_def Let_def)

lemma done_total:
  assumes x: "unat x < length (vs_items s)" and to: "it_kvec_to (item_of x s) = Some (r, i)" "i < length (hd_rings (vs_hdr s) ! r)"
    and used: "KVEC_COUNTER_TO_IDX (promote (ur_last_cnt (vs_used s))) (ur_num (vs_used s)) < length (hd_used (vs_peer s))"
    and k: "kv_used (it_k_from (item_of x s)) = 0 \<or> unat (kv_i (it_k_from (item_of x s))) < length (kv_iov (it_k_from (item_of x s)))"
  shows "transfer_done env x s \<noteq> None"
proof -
  let ?s1 = "if it_status_ready (item_of x s) then Some s
      else map_option (return_source x)
        (if it_head_to (item_of x s) = USHRT_MAX then Some s
         else map_option (\<lambda>(ring, hdr). common_dev_notify_used env (set_item x ((item_of x s)\<lparr>it_head_to := USHRT_MAX\<rparr>) (s\<lparr>vs_used := ring, vs_peer := hdr\<rparr>)))
           (vop_kvec_used (it_head_to (item_of x s)) (it_bytes_written (item_of x s)) (vs_used s) (vs_peer s)))"
  have "\<exists>s1. ?s1 = Some s1 \<and> vs_hdr s1 = vs_hdr s \<and> it_k_from (item_of x s1) = it_k_from (item_of x s)"
    using x used by (simp add: vop_kvec_used_def Let_def return_source_keeps not_le)
  then obtain s1 where s1: "?s1 = Some s1" "vs_hdr s1 = vs_hdr s" "it_k_from (item_of x s1) = it_k_from (item_of x s)" by blast
  have keep: "item_of x (s1\<lparr>vs_hdr := g\<rparr>) = item_of x s1" for g by (simp add: item_of_def)
  have "buffer_dma_ring_item_reset x (s1\<lparr>vs_hdr := g\<rparr>) \<noteq> None" for g
    by (rule reset_total) (use k s1(3) in \<open>simp add: keep\<close>)
  then show ?thesis using to s1(2) unfolding transfer_done_def Let_def s1(1) by simp
qed

text \<open>A system with one packet of 100 bytes at 0x5010, for which a buffer of 1800 bytes at 0x2000 was taken.\<close>

definition ex_item :: buffer_dma_item where
  "ex_item = \<lparr>it_id = 0, it_status_ready = False, it_buf = [], it_buf_da = 0, it_data_size = 100, it_remapped = None, it_src_phys = 0x5010,
     it_src_phys_da = 0, it_src_phys_sz = 0, it_jiffies = 0, it_vringh_tx = True, it_k_from = vringh_kiov_init, it_head_from = 1, it_bytes_read = 110,
     it_kvec_buff_id = Some 0, it_kvec_to = Some (0, 0), it_num_kvecs_to = 2, it_head_to = 5, it_bytes_written = 0, it_tx = False\<rparr>"

definition ex_hdr :: vop_peer_kvec_buf_header where
  "ex_hdr = (zero_header 4)\<lparr>hd_rings := [[\<lparr>pk_iov = \<lparr>iov_base = 0x1000, iov_len = 10\<rparr>, pk_head = 0, pk_flags = 1\<rparr>,
     \<lparr>pk_iov = \<lparr>iov_base = 0x2000, iov_len = 1800\<rparr>, pk_head = 0, pk_flags = 0\<rparr>], [], []]\<rparr>"

definition ex_sys :: vop_sys where
  "ex_sys = \<lparr>vs_ready = True, vs_dma_dev = True, vs_feature_desc_alignment = True, vs_write_in_thread = False, vs_items = [ex_item],
     vs_indicator_rcv = 1, vs_counter_dma_send = 0, vs_counter_done_transfer = 0, vs_tx = ring_zero 4, vs_tx_vrh = idle_host False, vs_tx_notify = False,
     vs_notified = 0, vs_rings = [], vs_hdr = ex_hdr, vs_used = \<lparr>ur_last_cnt = 0, ur_num = 4\<rparr>, vs_peer = zero_header 4,
     vs_local = (\<lambda>a. ucast a), vs_window = (\<lambda>_. 0), vs_windows = {#}, vs_maps = {#}, vs_jobs = [],
     vs_heads_up_used_irq = \<lparr>rcv_ts = 0, sent_ts = 0\<rparr>, vs_heads_up_sent = 0\<rparr>"

definition ex_env :: vop_env where
  "ex_env = \<lparr>tv_ioremap = (\<lambda>pa len. Some (pa + 0x80000000)), tv_dma_map = (\<lambda>a. a + 1024), tv_channel = True, tv_prep = True, tv_submit = None,
     tv_jiffies = 7, tv_to_ms = ucast\<rparr>"

lemma ex_item_of: "item_of 0 ex_sys = ex_item"
  by (simp add: item_of_def ex_sys_def)

theorem transfer_write_lands_witness:
  "\<exists>s' nd da sz. transfer_write ex_env 0 ex_sys = Some (Inr (), s') \<and> vs_jobs s' = [(nd, da, sz, 0)] \<and>
     lands ucast 0x5010 100 (\<lambda>_. 0) 0x80002000 291 (store nd (load (\<lambda>a. ucast (a - 1024)) da (unat sz)) (vs_window s'))"
proof -
  have ex: "it_data_size (item_of 0 ex_sys) = 100" "it_src_phys (item_of 0 ex_sys) = 0x5010" "vs_local ex_sys = ucast" "vs_window ex_sys = (\<lambda>_. 0)" "vs_jobs ex_sys = []"
    unfolding ex_item_of by (simp_all add: ex_item_def ex_sys_def)
  have "\<exists>s' nd da sz. transfer_write ex_env 0 ex_sys = Some (Inr (), s') \<and> vs_jobs s' = vs_jobs ex_sys @ [(nd, da, sz, 0)] \<and>
      64 dvd unat nd \<and> 64 dvd unat sz \<and> vs_windows s' = add_mset 0x80002000 (vs_windows ex_sys) \<and> vs_maps s' = add_mset da (vs_maps ex_sys) \<and>
      lands (vs_local ex_sys) (it_src_phys (item_of 0 ex_sys)) (it_data_size (item_of 0 ex_sys)) (vs_window ex_sys) 0x80002000
        (it_data_size (item_of 0 ex_sys) + 191) (store nd (load (\<lambda>a. ucast (a - 1024)) da (unat sz)) (vs_window s')) \<and>
      it_data_size (item_of 0 ex_sys) + 191 \<le> iov_len \<lparr>iov_base = 0x2000, iov_len = 1800\<rparr>"
    by (rule transfer_write_lands [where r = 0 and i = 0]) (simp_all add: ex ex_item_of, simp_all add: ex_item_def ex_sys_def ex_hdr_def ex_env_def)
  then show ?thesis by (simp add: ex) blast
qed

text \<open>C17: a packet is given to the engine, is copied, or an error is met on the way; in every case finishing its
  transfer, which copying does by itself, releases the window and the mapping that were made for it, no others, and makes
  the item ready for the next packet. The exception is a mapping at the address 0, which stays behind: the
  item has 0 for no mapping.\<close>

theorem transfer_releases:
  assumes "unat x < length (vs_items s)" "it_remapped (item_of x s) = None" "it_src_phys_da (item_of x s) = 0"
    and "transfer_write env x s = Some (r, s1)"
    and "(if \<not> vs_dma_dev s \<and> r = Inr () then Some s1 else transfer_done env' x s1) = Some s2"
  shows "vs_windows s2 = vs_windows s \<and>
    (vs_maps s2 = vs_maps s \<or>
     vs_dma_dev s \<and> tv_dma_map env (it_src_phys (item_of x s) AND - 64) = 0 \<and> vs_maps s2 = add_mset 0 (vs_maps s)) \<and>
    it_status_ready (item_of x s2) \<and> it_remapped (item_of x s2) = None \<and>
    it_src_phys_da (item_of x s2) = 0 \<and> it_kvec_to (item_of x s2) = None"
proof -
  have "holds_resources (vs_windows s) (vs_maps s) x s" using assms(1-3) by (simp add: holds_resources_def)
  note W = write_holds [OF this assms(3,2,4)]
  show ?thesis
  proof (cases "\<not> vs_dma_dev s \<and> r = Inr ()")
    case True
    then show ?thesis using W assms(5) done_releases by fastforce
  next
    case False
    then obtain M' where M': "left_behind env (vs_dma_dev s) (it_src_phys (item_of x s)) (vs_maps s) M'" "holds_resources (vs_windows s) M' x s1"
      using W by auto
    from done_releases [OF M'(2)] False assms(5) M'(1) show ?thesis by (auto simp: left_behind_def)
  qed
qed

lemma ex_write: "transfer_write ex_env 0 ex_sys = Some (Inr (),
    ex_sys\<lparr>vs_items := [ex_item\<lparr>it_bytes_written := 110, it_remapped := Some 0x80002000, it_jiffies := 7, it_src_phys_sz := 128,
        it_src_phys_da := 0x5400, it_tx := True\<rparr>], vs_window := store 0x80002000 [0x50] (\<lambda>_. 0), vs_windows := {# 0x80002000 #},
      vs_maps := {# 0x5400 #}, vs_jobs := [(0x80002040, 0x5400, 128, 0)], vs_heads_up_used_irq := \<lparr>rcv_ts = 0, sent_ts = 7\<rparr>, vs_heads_up_sent := 1\<rparr>)"
  by (simp add: transfer_write_def Let_def ex_item_of)
    (simp add: ex_item_def ex_sys_def ex_hdr_def ex_env_def transfer_ioremap_def transfer_dma_send_def vop_async_dma_def dma_plan_def ALIGN64_def
      item_of_def set_item_def common_dev_notify_used_def vop_send_heads_up_def HEADS_UP_NOTIFICATION_TIMEOUT_MS_def send_overhead_def overheads
      get_time_jiff_not_zero_def Let_def)

theorem transfer_releases_witness:
  "\<exists>s1 s2. transfer_write ex_env 0 ex_sys = Some (Inr (), s1) \<and> vs_maps s1 = {# 0x5400 #} \<and> transfer_done ex_env 0 s1 = Some s2 \<and>
     vs_windows s2 = {#} \<and> vs_maps s2 = {#}"
proof -
  obtain s1 where s1: "transfer_write ex_env 0 ex_sys = Some (Inr (), s1)" and s1_def: "s1 = snd (the (transfer_write ex_env 0 ex_sys))"
    by (simp add: ex_write)
  have "transfer_done ex_env 0 s1 \<noteq> None"
    unfolding s1_def ex_write by (rule done_total [where r = 0 and i = 0]; simp add: item_of_def)
      (simp_all add: ex_item_def ex_sys_def ex_hdr_def KVEC_COUNTER_TO_IDX_def promote_def zero_header_def vringh_kiov_init_def)
  then obtain s2 where s2: "transfer_done ex_env 0 s1 = Some s2" by blast
  have "vs_windows s2 = vs_windows ex_sys \<and> vs_maps s2 = vs_maps ex_sys"
    using transfer_releases [OF _ _ _ s1, of ex_env s2] s2 by (simp add: ex_item_of) (simp add: ex_sys_def ex_item_def ex_env_def)
  moreover have "vs_maps s1 = {# 0x5400 #}" by (simp add: s1_def ex_write)
  ultimately show ?thesis using s1 s2 by (auto simp: ex_sys_def)
qed

section \<open>Stops of the kernel\<close>

text \<open>An item that was reset has no buffer of the receiver; \<open>transfer_done\<close> reports it, and then uses the buffer.\<close>

lemma done_without_buffer: "it_kvec_to (item_of x s) = None \<Longrightarrow> transfer_done env x s = None"
  by (simp add: transfer_done_def Let_def split: option.split)

text \<open>A packet that does not consist of two vectors stops the kernel: the error of \<open>transfer_read\<close> is
  answered by \<open>transfer_done\<close>, which uses the buffer of the receiver that was not taken yet.\<close>

theorem bad_packet_stops:
  assumes "unat x < length (vs_items s)" "it_kvec_to (item_of x s) = None"
    and "kv_used (it_k_from (item_of x s)) \<noteq> 2"
  shows "transfer env waits x s = None"
proof -
  have "it_kvec_to (item_of x (return_source x (set_item x (item_of x s) s))) = None"
    using assms by (auto simp: return_source_def Let_def)
  then show ?thesis using assms by (auto simp: transfer_def transfer_read_def Let_def done_without_buffer split: option.split)
qed

theorem bad_packet_stops_witness:
  "transfer ex_env (\<lambda>_ hdr. (Inr (), hdr)) 0
     (ex_sys\<lparr>vs_items := [ex_item\<lparr>it_kvec_to := None, it_k_from := \<lparr>kv_iov = replicate 8 \<lparr>iov_base = 0x5000, iov_len = 64\<rparr>, kv_consumed = 0, kv_i = 0,
         kv_used = 3, kv_max_num = 8\<rparr>\<rparr>]\<rparr>) = None"
  by (rule bad_packet_stops) (simp_all add: item_of_def)

text \<open>If an intermediate buffer cannot be allocated, the ring is freed, and then freed again.\<close>

lemma items_alloc_fails:
  assumes "\<not> pages i" "i \<in> set is" "\<forall>j \<in> set is. j < length bufs" "distinct is" "\<forall>j \<in> set is. \<not> fst (bufs ! j)"
  shows "\<exists>bufs'. items_alloc_loop pages (\<lambda>_. None) dma is bufs = (Inl ENOMEM, bufs')"
  using assms(2-5)
proof (induction "is" arbitrary: bufs)
  case (Cons j js)
  show ?case
  proof (cases "pages j")
    case False
    then show ?thesis using Cons.prems by simp
  next
    case True
    then have "i \<in> set js" using Cons.prems assms(1) by auto
    then have "\<exists>bufs'. items_alloc_loop pages (\<lambda>_. None) dma js (bufs[j := (True, dma)]) = (Inl ENOMEM, bufs')"
      using Cons.prems by (intro Cons.IH) (auto simp: nth_list_update)
    then show ?thesis using True Cons.prems by (cases dma) auto
  qed
qed simp

lemma ring_init_frees_twice:
  assumes "\<not> pages i" "i < VOP_RING_SIZE"
  shows "buffer_dma_ring_init True True pages (\<lambda>_. None) dma False = None"
proof -
  obtain bufs where "items_alloc_loop pages (\<lambda>_. None) dma [0..<VOP_RING_SIZE] (replicate VOP_RING_SIZE (False, False)) = (Inl ENOMEM, bufs)"
    using items_alloc_fails [of pages i "[0..<VOP_RING_SIZE]" "replicate VOP_RING_SIZE (False, False)" dma] assms by auto
  then show ?thesis by (simp add: buffer_dma_ring_init_def buffer_dma_ring_items_alloc_def buffer_dma_ring_deinit_def)
qed

end
