(* ===== verification/Gap_Ring.thy ===== *)
theory Gap_Ring
  imports Vca_Prelude
begin

text \<open>
  Rings whose indices run modulo the ring size and that leave one slot empty, so that equal indices
  mean an empty ring: the descriptor ring of the DMA driver and the request ring of the block driver.
  The interface fixes how an index is read and stepped; the lemmas describe the elements between the
  tail and the head as a list.
\<close>

locale gap_ring =
  fixes n :: nat
    and val :: "'c \<Rightarrow> nat"
    and inc :: "'c \<Rightarrow> 'c"
  assumes n_gt_1: "1 < n"
    and val_inj: "val a = val b \<Longrightarrow> a = b"
    and val_inc: "val c < n \<Longrightarrow> val (inc c) = (val c + 1) mod n"
begin

definition dist :: "'c \<Rightarrow> 'c \<Rightarrow> nat" where
  "dist t h = (val h + n - val t) mod n"

definition slot :: "'c \<Rightarrow> nat \<Rightarrow> nat" where
  "slot t k = (val t + k) mod n"

definition win :: "'e list \<Rightarrow> 'c \<Rightarrow> 'c \<Rightarrow> 'e list" where
  "win xs t h = map (\<lambda>k. xs ! slot t k) [0..<dist t h]"

lemma dist_cases:
  "val t < n \<Longrightarrow> val h < n \<Longrightarrow>
   dist t h = (if val t \<le> val h then val h - val t else val h + n - val t)"
  by (auto simp: dist_def mod_if)

lemma dist_less: "dist t h < n"
  using n_gt_1 by (simp add: dist_def)

lemma dist_same [simp]: "dist t t = 0"
  by (simp add: dist_def)

lemma dist_0: "val t < n \<Longrightarrow> val h < n \<Longrightarrow> dist t h = 0 \<longleftrightarrow> t = h"
  by (auto simp: dist_cases intro: val_inj split: if_splits)

lemma length_win [simp]: "length (win xs t h) = dist t h"
  by (simp add: win_def)

lemma nth_win: "k < dist t h \<Longrightarrow> win xs t h ! k = xs ! slot t k"
  by (simp add: win_def)

lemma slot_less: "slot t k < n"
  using n_gt_1 by (simp add: slot_def)

lemma slot_0: "val t < n \<Longrightarrow> slot t 0 = val t"
  by (simp add: slot_def)

lemma inc_less: "val c < n \<Longrightarrow> val (inc c) < n"
  using n_gt_1 by (simp add: val_inc)

lemma inc_val: "val c < n \<Longrightarrow> val (inc c) = (if val c + 1 = n then 0 else val c + 1)"
  by (simp add: val_inc)

lemma slot_dist: "val t < n \<Longrightarrow> val h < n \<Longrightarrow> slot t (dist t h) = val h"
  by (auto simp: slot_def dist_cases)

lemma slot_inj:
  assumes "slot t i = slot t j" "i < n" "j < n"
  shows "i = j"
proof (rule ccontr)
  assume "i \<noteq> j"
  then consider "i < j" | "j < i" by linarith
  then show False
  proof cases
    case 1
    then have "n dvd (val t + j) - (val t + i)"
      using assms(1) mod_eq_dvd_iff_nat [of "val t + i" "val t + j" n] by (simp add: slot_def)
    then show False using 1 assms(3) by (auto dest: dvd_imp_le)
  next
    case 2
    then have "n dvd (val t + i) - (val t + j)"
      using assms(1) mod_eq_dvd_iff_nat [of "val t + j" "val t + i" n] by (simp add: slot_def)
    then show False using 2 assms(2) by (auto dest: dvd_imp_le)
  qed
qed

lemma slot_inc: "val t < n \<Longrightarrow> slot (inc t) k = slot t (Suc k)"
  by (simp add: slot_def val_inc mod_simps)

lemma dist_inc_head:
  assumes "val t < n" "val h < n" "dist t h + 1 < n"
  shows "dist t (inc h) = Suc (dist t h)"
  using assms inc_less [of h] by (auto simp: dist_cases inc_val split: if_splits)

lemma dist_inc_tail:
  assumes "val t < n" "val h < n" "t \<noteq> h"
  shows "dist t h = Suc (dist (inc t) h)"
proof -
  have "val t \<noteq> val h" using assms(3) val_inj by blast
  then show ?thesis using assms inc_less [of t] by (auto simp: dist_cases inc_val split: if_splits)
qed

text \<open>Writing outside of the window does not change it; writing inside changes one element.\<close>

lemma win_update_out:
  assumes "\<And>k. k < dist t h \<Longrightarrow> slot t k \<noteq> i"
  shows "win (xs[i := x]) t h = win xs t h"
proof -
  have "xs[i := x] ! slot t k = xs ! slot t k" if "k < dist t h" for k using assms [OF that] by simp
  then show ?thesis by (simp add: win_def)
qed

lemma win_update_in:
  assumes "k < dist t h" "length xs = n"
  shows "win (xs[slot t k := x]) t h = (win xs t h)[k := x]"
proof (rule nth_equalityI)
  fix j assume "j < length (win (xs[slot t k := x]) t h)"
  then have j: "j < dist t h" by simp
  have "slot t j = slot t k \<longleftrightarrow> j = k"
    using slot_inj [of t j k] j assms(1) dist_less [of t h] by auto
  then show "win (xs[slot t k := x]) t h ! j = (win xs t h)[k := x] ! j"
    using j assms slot_less [of t k] by (auto simp: nth_win nth_list_update_cases)
qed simp

lemma head_not_in_win:
  assumes "val t < n" "val h < n" "k < dist t h"
  shows "slot t k \<noteq> val h"
  using slot_inj [of t k "dist t h"] slot_dist [OF assms(1,2)] assms(3) dist_less [of t h] by auto

lemma win_push:
  assumes "val t < n" "val h < n" "dist t h + 1 < n" "length xs = n"
  shows "win (xs[val h := x]) t (inc h) = win xs t h @ [x]"
proof -
  have "xs[val h := x] ! slot t k = xs ! slot t k" if "k < dist t h" for k
    using head_not_in_win [OF assms(1,2) that] by simp
  then have "map (\<lambda>k. xs[val h := x] ! slot t k) [0..<dist t h] = map (\<lambda>k. xs ! slot t k) [0..<dist t h]"
    by simp
  moreover have "xs[val h := x] ! slot t (dist t h) = x"
    using assms by (simp add: slot_dist)
  ultimately show ?thesis
    by (simp add: win_def dist_inc_head [OF assms(1-3)])
qed

lemma win_inc_head:
  assumes "val t < n" "val h < n" "dist t h + 1 < n"
  shows "win xs t (inc h) = win xs t h @ [xs ! val h]"
  by (simp add: win_def dist_inc_head [OF assms] slot_dist [OF assms(1,2)])

lemma win_pop:
  assumes "val t < n" "val h < n" "t \<noteq> h"
  shows "win xs t h = xs ! val t # win xs (inc t) h"
proof -
  have "map (\<lambda>k. xs ! slot t k) [0..<Suc (dist (inc t) h)] =
      xs ! slot t 0 # map (\<lambda>k. xs ! slot t (Suc k)) [0..<dist (inc t) h]"
    by (simp add: upt_rec [of 0] map_Suc_upt [symmetric] del: upt_Suc map_Suc_upt)
  then show ?thesis
    using assms(1) by (simp add: win_def dist_inc_tail [OF assms] slot_0 slot_inc)
qed

lemma win_empty [simp]: "win xs t t = []"
  by (simp add: win_def)

end

end
