(* ===== verification/Plx_Dma.thy ===== *)
theory Plx_Dma
  imports Gap_Ring
begin

unbundle bit_operations_syntax

text \<open>
  The DMA engine driver (\<open>plx87xx_dma/plx_dma.c\<close>, \<open>plx_dma.h\<close>): the descriptor ring shared with the
  PLX switch, the encoding of a transfer into descriptors, submission, completion processing,
  channel set-up and the interrupt thread.

  The memory-mapped registers of the device are a map from offsets to contents. What the switch
  writes to the channel while the driver reads a register is a parameter \<open>wb\<close> of the completion
  processing. The callbacks that the driver calls are logged in \<open>called\<close>. \<open>None\<close> stands for a call
  that does not return (a \<open>BUG_ON\<close>, or an endless loop).
\<close>

section \<open>Constants\<close>

text \<open>
  \<open>PLX_DESC_HALF_HIGH_MASK\<close> is the negative \<open>int\<close> \<open>0xffff << 16\<close>, sign-extended where it meets a
  64-bit address.
\<close>

definition PLX_DMA_DESC_RX_SIZE :: u32 where "PLX_DMA_DESC_RX_SIZE = 2 * 1024"
definition PLX_DMA_PAUSE_TO :: nat where "PLX_DMA_PAUSE_TO = 5"

definition PLX_DESC_VALID :: u32 where "PLX_DESC_VALID = 0x80000000"
definition PLX_DESC_INTR_ENABLE :: u32 where "PLX_DESC_INTR_ENABLE = 0x40000000"
definition PLX_DESC_DWORD_MASK :: u64 where "PLX_DESC_DWORD_MASK = 0xffffffff"
definition PLX_DESC_HALF_HIGH_MASK :: u64 where "PLX_DESC_HALF_HIGH_MASK = 0xffffffffffff0000"
definition PLX_DESC_SIZE_MASK :: u64 where "PLX_DESC_SIZE_MASK = 0x7ffffff"

definition PLX_DMA_BLK_SRC_LOWER :: u32 where "PLX_DMA_BLK_SRC_LOWER = 0x00"
definition PLX_DMA_BLK_SRC_UPPER :: u32 where "PLX_DMA_BLK_SRC_UPPER = 0x04"
definition PLX_DMA_BLK_DST_LOWER :: u32 where "PLX_DMA_BLK_DST_LOWER = 0x08"
definition PLX_DMA_BLK_DST_UPPER :: u32 where "PLX_DMA_BLK_DST_UPPER = 0x0C"
definition PLX_DMA_BLK_TRSFR_SIZE :: u32 where "PLX_DMA_BLK_TRSFR_SIZE = 0x10"
definition PLX_DMA_DESC_RING_ADDR_LOW :: u32 where "PLX_DMA_DESC_RING_ADDR_LOW = 0x14"
definition PLX_DMA_DESC_RING_ADDR_HIGH :: u32 where "PLX_DMA_DESC_RING_ADDR_HIGH = 0x18"
definition PLX_DMA_NEXT_DESC_ADDR_LOW :: u32 where "PLX_DMA_NEXT_DESC_ADDR_LOW = 0x1C"
definition PLX_DMA_DESC_RING_SIZE :: u32 where "PLX_DMA_DESC_RING_SIZE = 0x20"
definition PLX_DMA_LAST_DESC_ADDR_LOW :: u32 where "PLX_DMA_LAST_DESC_ADDR_LOW = 0x24"
definition PLX_DMA_CTRL_STATUS :: u32 where "PLX_DMA_CTRL_STATUS = 0x38"
definition PLX_DMA_INTR_CTRL_STATUS :: u32 where "PLX_DMA_INTR_CTRL_STATUS = 0x3C"

definition PLX_DMA_CTRL_PAUSED :: u32 where "PLX_DMA_CTRL_PAUSED = 0x1"
definition PLX_DMA_CTRL_WB_ENABLE :: u32 where "PLX_DMA_CTRL_WB_ENABLE = 0x4"
definition PLX_DMA_CTRL_START :: u32 where "PLX_DMA_CTRL_START = 0x8"
definition PLX_DMA_CTRL_OFFCHIP_MODE :: u32 where "PLX_DMA_CTRL_OFFCHIP_MODE = 0x40"
definition PLX_DMA_CTRL_PAUSE_DONE_STATUS :: u32 where "PLX_DMA_CTRL_PAUSE_DONE_STATUS = 0x200"
definition PLX_DMA_CTRL_IN_PROGRESS :: u32 where "PLX_DMA_CTRL_IN_PROGRESS = 0x40000000"
definition PLX_DMA_CTRL_HEADER_LOG :: u32 where "PLX_DMA_CTRL_HEADER_LOG = 0x80000000"
definition PLX_DMA_CTRL_MODE_BITS :: u32 where "PLX_DMA_CTRL_MODE_BITS = 0x60"
definition PLX_DMA_CTRL_STATUS_BITS :: u32 where "PLX_DMA_CTRL_STATUS_BITS = 0x1700"

definition PLX_DMA_ERROR_INTR_EN :: u32 where "PLX_DMA_ERROR_INTR_EN = 0x1"
definition PLX_DMA_ABORT_DONE_INTR_EN :: u32 where "PLX_DMA_ABORT_DONE_INTR_EN = 0x8"
definition PLX_DMA_ALL_INTR_EN :: u32 where "PLX_DMA_ALL_INTR_EN = 0x3b"
definition PLX_DMA_DESC_DONE_INTR_STATUS :: u32 where "PLX_DMA_DESC_DONE_INTR_STATUS = 0x40000"
definition PLX_DMA_ERROR_STATUS :: u32 where "PLX_DMA_ERROR_STATUS = 0x2b0000"

definition PCI_DEV_CTL2_REG :: u32 where "PCI_DEV_CTL2_REG = 0x90"
definition PCI_DEV_CTL2_CPL_TO_DIS :: u32 where "PCI_DEV_CTL2_CPL_TO_DIS = 0x10"
definition PLX_DMA_CAPABILITY_REG :: u32 where "PLX_DMA_CAPABILITY_REG = 0x6C"
definition PLX_DMA_FUNCTIONAL_RESET_BIT :: u32 where "PLX_DMA_FUNCTIONAL_RESET_BIT = 0x10000000"

definition DMA_MIN_COOKIE :: int where "DMA_MIN_COOKIE = 1"

section \<open>State\<close>

record plx_dma_desc =
  dw0 :: u32
  dw1 :: u32
  dw2 :: u32
  dw3 :: u32

text \<open>
  In the channel, \<open>hw_next\<close> (the descriptor the engine of the switch processes next) and \<open>copied\<close>
  (the transfers it has done: source, destination, length) are the state of the switch, which no
  function of the driver reads or writes.
\<close>

text \<open>The fields of a \<open>dma_async_tx_descriptor\<close> that the driver uses; a callback is its parameter.\<close>

record dma_tx =
  tx_cookie :: int
  tx_flags :: u64
  tx_callback :: "nat option"

record plx_dma_chan =
  last_tail :: u32
  head :: u32
  desc_ring :: "plx_dma_desc list"
  desc_ring_da :: u64
  ch_base_addr :: u64
  ctrl_reg :: u32
  tx_array :: "dma_tx list"
  dma_hang :: bool
  dbg_flush :: bool
  dbg_dma_hold_cnt :: u32
  chan_cookie :: int
  completed_cookie :: int
  max_xfer_size :: u64
  regs :: "u32 \<Rightarrow> u32"
  called :: "nat list"
  hw_next :: u32
  copied :: "(u64 \<times> u64 \<times> u64) list"

definition zero_desc :: plx_dma_desc where
  "zero_desc = \<lparr>dw0 = 0, dw1 = 0, dw2 = 0, dw3 = 0\<rparr>"
definition zero_tx :: dma_tx where
  "zero_tx = \<lparr>tx_cookie = 0, tx_flags = 0, tx_callback = None\<rparr>"

section \<open>Registers and indices\<close>

definition plx_dma_reg_read :: "plx_dma_chan \<Rightarrow> u32 \<Rightarrow> u32" where
  "plx_dma_reg_read ch off = regs ch off"

definition plx_dma_reg_write :: "u32 \<Rightarrow> u32 \<Rightarrow> plx_dma_chan \<Rightarrow> plx_dma_chan" where
  "plx_dma_reg_write off v ch = ch\<lparr>regs := (regs ch)(off := v)\<rparr>"

definition plx_dma_ch_reg_read :: "plx_dma_chan \<Rightarrow> u32 \<Rightarrow> u32" where
  "plx_dma_ch_reg_read ch off = plx_dma_reg_read ch (ucast (ucast off + ch_base_addr ch))"

definition plx_dma_ch_reg_write :: "u32 \<Rightarrow> u32 \<Rightarrow> plx_dma_chan \<Rightarrow> plx_dma_chan" where
  "plx_dma_ch_reg_write off v ch = plx_dma_reg_write (ucast (ucast off + ch_base_addr ch)) v ch"

definition plx_dma_ring_inc :: "u32 \<Rightarrow> u32" where
  "plx_dma_ring_inc v = (v + 1) AND (PLX_DMA_DESC_RX_SIZE - 1)"

definition desc_ring_da_to_index :: "u64 \<Rightarrow> u32" where
  "desc_ring_da_to_index addr = ucast (addr div 16) AND (PLX_DMA_DESC_RX_SIZE - 1)"

definition plx_dma_ring_dec :: "u32 \<Rightarrow> u32" where
  "plx_dma_ring_dec v = (if v \<noteq> 0 then v - 1 else PLX_DMA_DESC_RX_SIZE - 1)"

definition plx_dma_inc_head :: "plx_dma_chan \<Rightarrow> plx_dma_chan" where
  "plx_dma_inc_head ch = ch\<lparr>head := plx_dma_ring_inc (head ch)\<rparr>"

definition plx_dma_ring_count :: "u32 \<Rightarrow> u32 \<Rightarrow> int" where
  "plx_dma_ring_count hea tai =
     sint (if tai \<le> hea then (tai - 0) + (PLX_DMA_DESC_RX_SIZE - hea) else tai - hea) - 1"

definition plx_get_hw_last_desc :: "plx_dma_chan \<Rightarrow> u32" where
  "plx_get_hw_last_desc ch =
     desc_ring_da_to_index
       (ucast (plx_dma_ch_reg_read ch PLX_DMA_LAST_DESC_ADDR_LOW) - (desc_ring_da ch AND 0xffffffff))"

definition plx_get_hw_next_desc :: "plx_dma_chan \<Rightarrow> u32" where
  "plx_get_hw_next_desc ch =
     desc_ring_da_to_index
       (ucast (plx_dma_ch_reg_read ch PLX_DMA_NEXT_DESC_ADDR_LOW) - (desc_ring_da ch AND 0xffffffff))"

section \<open>Channel set-up\<close>

text \<open>
  The two allocations of \<open>plx_dma_alloc_desc_ring\<close>: the coherent ring (with the bus address it got)
  and the array of transactions.
\<close>

definition plx_dma_alloc_desc_ring :: "u64 option \<Rightarrow> bool \<Rightarrow> plx_dma_chan \<Rightarrow> plx_dma_chan res" where
  "plx_dma_alloc_desc_ring coherent vzalloc_ok ch =
     (case coherent of
        None \<Rightarrow> Inl ENOMEM
      | Some da \<Rightarrow>
          if vzalloc_ok
          then Inr (ch\<lparr>desc_ring := replicate (unat PLX_DMA_DESC_RX_SIZE) zero_desc, desc_ring_da := da,
                       tx_array := replicate (unat PLX_DMA_DESC_RX_SIZE) zero_tx\<rparr>)
          else Inl ENOMEM)"

definition plx_dma_chan_clear_desc_ring :: "plx_dma_chan \<Rightarrow> plx_dma_chan" where
  "plx_dma_chan_clear_desc_ring ch =
     fold (\<lambda>off. plx_dma_ch_reg_write off 0)
       [PLX_DMA_BLK_SRC_LOWER, PLX_DMA_BLK_SRC_UPPER, PLX_DMA_BLK_DST_LOWER, PLX_DMA_BLK_DST_UPPER,
        PLX_DMA_BLK_TRSFR_SIZE, PLX_DMA_DESC_RING_ADDR_LOW, PLX_DMA_DESC_RING_ADDR_HIGH,
        PLX_DMA_DESC_RING_SIZE, PLX_DMA_NEXT_DESC_ADDR_LOW] ch"

text \<open>
  The polling loop of \<open>plx_dma_disable_chan\<close>: the status register is read at most five times, one
  second apart; \<open>wb i\<close> is what the device did to its registers before the \<open>i\<close>-th read.
\<close>

fun plx_dma_pause_poll :: "(nat \<Rightarrow> plx_dma_chan \<Rightarrow> plx_dma_chan) \<Rightarrow> nat \<Rightarrow> nat \<Rightarrow> plx_dma_chan \<Rightarrow> plx_dma_chan" where
  "plx_dma_pause_poll wb i 0 ch = ch"
| "plx_dma_pause_poll wb i (Suc k) ch =
     (let ch = wb i ch in
      if plx_dma_ch_reg_read ch PLX_DMA_CTRL_STATUS AND PLX_DMA_CTRL_PAUSE_DONE_STATUS \<noteq> 0 then ch
      else plx_dma_pause_poll wb (i + 1) k ch)"

definition plx_dma_disable_chan :: "(nat \<Rightarrow> plx_dma_chan \<Rightarrow> plx_dma_chan) \<Rightarrow> plx_dma_chan \<Rightarrow> plx_dma_chan" where
  "plx_dma_disable_chan wb ch =
     (let ctrl = plx_dma_ch_reg_read ch PLX_DMA_CTRL_STATUS in
      plx_dma_chan_clear_desc_ring
        (if ctrl AND PLX_DMA_CTRL_START = 0 then ch
         else plx_dma_pause_poll wb 0 PLX_DMA_PAUSE_TO
                (plx_dma_ch_reg_write PLX_DMA_CTRL_STATUS
                  ((ctrl OR PLX_DMA_CTRL_PAUSED) AND NOT PLX_DMA_CTRL_START) ch)))"

definition plx_dma_enable_chan :: "plx_dma_chan \<Rightarrow> plx_dma_chan" where
  "plx_dma_enable_chan ch =
     (let ctrl = plx_dma_ch_reg_read ch PLX_DMA_CTRL_STATUS;
          ch1 = (if ctrl AND PLX_DMA_CTRL_IN_PROGRESS \<noteq> 0 then ch\<lparr>dma_hang := True\<rparr> else ch);
          conf = (((ctrl AND 0x3FFFE000) OR PLX_DMA_CTRL_WB_ENABLE) AND NOT PLX_DMA_CTRL_MODE_BITS)
                   OR PLX_DMA_CTRL_OFFCHIP_MODE
      in plx_dma_ch_reg_write PLX_DMA_CTRL_STATUS
           ((conf OR PLX_DMA_CTRL_PAUSE_DONE_STATUS) AND NOT PLX_DMA_CTRL_PAUSED) (ch1\<lparr>ctrl_reg := conf\<rparr>))"

definition plx_dma_chan_mask_intr :: "plx_dma_chan \<Rightarrow> plx_dma_chan" where
  "plx_dma_chan_mask_intr ch =
     plx_dma_ch_reg_write PLX_DMA_INTR_CTRL_STATUS
       (plx_dma_ch_reg_read ch PLX_DMA_INTR_CTRL_STATUS AND NOT PLX_DMA_ALL_INTR_EN) ch"

definition plx_dma_chan_unmask_intr :: "plx_dma_chan \<Rightarrow> plx_dma_chan" where
  "plx_dma_chan_unmask_intr ch =
     plx_dma_ch_reg_write PLX_DMA_INTR_CTRL_STATUS
       ((plx_dma_ch_reg_read ch PLX_DMA_INTR_CTRL_STATUS AND NOT PLX_DMA_ALL_INTR_EN)
          OR PLX_DMA_ERROR_INTR_EN OR PLX_DMA_ABORT_DONE_INTR_EN) ch"

definition plx_dma_chan_set_desc_ring :: "plx_dma_chan \<Rightarrow> plx_dma_chan" where
  "plx_dma_chan_set_desc_ring ch =
     (let da = desc_ring_da ch in
      plx_dma_ch_reg_write PLX_DMA_NEXT_DESC_ADDR_LOW (ucast (da AND 0xffffffff))
      (plx_dma_ch_reg_write PLX_DMA_DESC_RING_SIZE PLX_DMA_DESC_RX_SIZE
      (plx_dma_ch_reg_write PLX_DMA_DESC_RING_ADDR_HIGH (ucast (drop_bit 32 da AND 0xffffffff))
      (plx_dma_ch_reg_write PLX_DMA_DESC_RING_ADDR_LOW (ucast (da AND 0xffffffff))
      (plx_dma_chan_clear_desc_ring ch)))))"

definition plx_dma_issue_pending :: "plx_dma_chan \<Rightarrow> plx_dma_chan" where
  "plx_dma_issue_pending ch =
     plx_dma_ch_reg_write PLX_DMA_CTRL_STATUS
       (ctrl_reg ch OR (PLX_DMA_CTRL_HEADER_LOG OR PLX_DMA_CTRL_STATUS_BITS) OR PLX_DMA_CTRL_START) ch"

section \<open>Completion processing\<close>

text \<open>What happens to one completed descriptor; a cookie below the minimum stops at \<open>BUG_ON\<close>.\<close>

definition plx_dma_complete_one :: "plx_dma_chan \<Rightarrow> u32 \<Rightarrow> plx_dma_chan option" where
  "plx_dma_complete_one ch i =
     (let tx = tx_array ch ! unat i in
      if tx_cookie tx \<noteq> 0 then
        if tx_cookie tx < DMA_MIN_COOKIE then None
        else let ch1 = ch\<lparr>completed_cookie := tx_cookie tx,
                          tx_array := (tx_array ch)[unat i := tx\<lparr>tx_cookie := 0\<rparr>]\<rparr> in
          (case tx_callback tx of
             None \<Rightarrow> Some ch1
           | Some p \<Rightarrow> Some (ch1\<lparr>called := called ch1 @ [p],
               tx_array := (tx_array ch1)[unat i := (tx_array ch1 ! unat i)\<lparr>tx_callback := None\<rparr>]\<rparr>))
      else Some ch)"

text \<open>The restart of a stopped engine when the oldest descriptor is still not complete.\<close>

definition plx_dma_restart :: "plx_dma_chan \<Rightarrow> u32 \<Rightarrow> u32 \<Rightarrow> plx_dma_chan" where
  "plx_dma_restart ch last_hw_tail t =
     (if last_hw_tail = t \<and> plx_dma_ch_reg_read ch PLX_DMA_CTRL_STATUS AND PLX_DMA_CTRL_IN_PROGRESS = 0
      then plx_dma_issue_pending (ch\<lparr>dbg_dma_hold_cnt := dbg_dma_hold_cnt ch + 1\<rparr>)
      else ch)"

definition desc_valid :: "plx_dma_chan \<Rightarrow> u32 \<Rightarrow> bool" where
  "desc_valid ch i \<longleftrightarrow> dw0 (desc_ring ch ! unat i) AND PLX_DESC_VALID \<noteq> 0"

text \<open>
  The loop of \<open>plx_dma_cleanup\<close>. It steps through at most the whole ring, so that \<open>2048\<close> rounds
  and the final test are enough when the cached head is a ring index; otherwise it does not end.
\<close>

fun plx_dma_cleanup_loop :: "(u32 \<Rightarrow> plx_dma_chan \<Rightarrow> plx_dma_chan) \<Rightarrow> u32 \<Rightarrow> nat \<Rightarrow> plx_dma_chan \<Rightarrow> u32 \<Rightarrow>
    (plx_dma_chan \<times> u32) option" where
  "plx_dma_cleanup_loop wb cached_head 0 ch t = None"
| "plx_dma_cleanup_loop wb cached_head (Suc fuel) ch t =
     (if t = cached_head then Some (ch, t)
      else
        let ch1 = (if desc_valid ch t then wb t ch else ch) in
        if desc_valid ch t \<and> desc_valid ch1 t
        then Some (plx_dma_restart ch1 (plx_get_hw_last_desc ch1) t, t)
        else (case plx_dma_complete_one ch1 t of
                None \<Rightarrow> None
              | Some ch2 \<Rightarrow> plx_dma_cleanup_loop wb cached_head fuel ch2 (plx_dma_ring_inc t)))"

definition plx_dma_cleanup :: "(u32 \<Rightarrow> plx_dma_chan \<Rightarrow> plx_dma_chan) \<Rightarrow> plx_dma_chan \<Rightarrow> plx_dma_chan option" where
  "plx_dma_cleanup wb ch =
     (case plx_dma_cleanup_loop wb (head ch) (unat PLX_DMA_DESC_RX_SIZE + 1) ch (last_tail ch) of
        None \<Rightarrow> None
      | Some (ch', t) \<Rightarrow> Some (ch'\<lparr>last_tail := t\<rparr>))"

definition plx_dma_chan_setup :: "plx_dma_chan \<Rightarrow> plx_dma_chan" where
  "plx_dma_chan_setup ch =
     plx_dma_enable_chan (plx_dma_chan_unmask_intr
       ((plx_dma_chan_set_desc_ring (plx_dma_reg_write PCI_DEV_CTL2_REG PCI_DEV_CTL2_CPL_TO_DIS ch))
          \<lparr>last_tail := 0, head := 0\<rparr>))"

definition plx_dma_free_desc_ring :: "plx_dma_chan \<Rightarrow> plx_dma_chan" where
  "plx_dma_free_desc_ring ch = ch\<lparr>desc_ring := [], tx_array := []\<rparr>"

text \<open>The registers kept over the PCI reset; the reset itself (\<open>pci_reset_function\<close>) is a parameter.\<close>

definition registers_to_keep :: "u32 list" where
  "registers_to_keep = [0x0, 0x70, 0x22c, 0x238, 0x258, 0x25c, 0x260, 0x2a4, 0x2a8]"

definition pci_reset_keep_registers :: "(plx_dma_chan \<Rightarrow> plx_dma_chan) \<Rightarrow> plx_dma_chan \<Rightarrow> plx_dma_chan" where
  "pci_reset_keep_registers pci_reset_function ch =
     (let vals = map (plx_dma_reg_read ch) registers_to_keep in
      fold (\<lambda>(r, v). plx_dma_reg_write r v) (zip registers_to_keep vals) (pci_reset_function ch))"

definition plx_dma_chan_init :: "(plx_dma_chan \<Rightarrow> plx_dma_chan) \<Rightarrow> u64 option \<Rightarrow> bool \<Rightarrow> plx_dma_chan \<Rightarrow>
    unit res \<times> plx_dma_chan" where
  "plx_dma_chan_init pci_reset_function coherent vzalloc_ok ch =
     (let ch1 = (if plx_dma_reg_read ch PLX_DMA_CAPABILITY_REG AND PLX_DMA_FUNCTIONAL_RESET_BIT \<noteq> 0
                 then pci_reset_keep_registers pci_reset_function ch else ch) in
      case plx_dma_alloc_desc_ring coherent vzalloc_ok ch1 of
        Inl e \<Rightarrow> (Inl e, ch1)
      | Inr ch2 \<Rightarrow> (Inr (), plx_dma_chan_setup ch2))"

definition plx_dma_alloc_chan_resources :: "(plx_dma_chan \<Rightarrow> plx_dma_chan) \<Rightarrow> u64 option \<Rightarrow> bool \<Rightarrow>
    plx_dma_chan \<Rightarrow> nat res \<times> plx_dma_chan" where
  "plx_dma_alloc_chan_resources rst coherent vzalloc_ok ch =
     (case plx_dma_chan_init rst coherent vzalloc_ok ch of
        (Inl e, ch') \<Rightarrow> (Inl e, ch')
      | (Inr _, ch') \<Rightarrow> (Inr (unat PLX_DMA_DESC_RX_SIZE), ch'))"

definition plx_dma_free_chan_resources :: "(nat \<Rightarrow> plx_dma_chan \<Rightarrow> plx_dma_chan) \<Rightarrow>
    (u32 \<Rightarrow> plx_dma_chan \<Rightarrow> plx_dma_chan) \<Rightarrow> plx_dma_chan \<Rightarrow> plx_dma_chan option" where
  "plx_dma_free_chan_resources wb0 wb ch =
     map_option plx_dma_free_desc_ring
       (plx_dma_cleanup wb (plx_dma_chan_mask_intr (plx_dma_disable_chan wb0 ch)))"

section \<open>Preparing and submitting a transfer\<close>

definition plx_dma_avail_desc_ring_space :: "(u32 \<Rightarrow> plx_dma_chan \<Rightarrow> plx_dma_chan) \<Rightarrow> plx_dma_chan \<Rightarrow>
    int \<Rightarrow> (int res \<times> plx_dma_chan) option" where
  "plx_dma_avail_desc_ring_space wb ch required =
     (let count = plx_dma_ring_count (head ch) (last_tail ch) in
      if count < required then
        (case plx_dma_cleanup wb (plx_dma_issue_pending ch) of
           None \<Rightarrow> None
         | Some ch' \<Rightarrow>
             let count' = plx_dma_ring_count (head ch') (last_tail ch') in
             Some (if count' < required then Inl ENOMEM else Inr count', ch'))
      else Some (Inr count, ch))"

definition plx_dma_memcpy_desc :: "u64 \<Rightarrow> u64 \<Rightarrow> u64 \<Rightarrow> u64 \<Rightarrow> bool \<Rightarrow> plx_dma_desc" where
  "plx_dma_memcpy_desc src_phys dst_phys bytes flags valid =
     (let d0 = ucast (bytes AND PLX_DESC_SIZE_MASK);
          d1 = (if valid then d0 OR PLX_DESC_VALID else d0);
          d2 = (if flags \<noteq> 0 then d1 OR PLX_DESC_INTR_ENABLE else d1)
      in \<lparr>dw0 = d2,
          dw1 = ucast ((drop_bit 16 src_phys AND PLX_DESC_HALF_HIGH_MASK) OR drop_bit 32 dst_phys),
          dw2 = ucast (dst_phys AND PLX_DESC_DWORD_MASK),
          dw3 = ucast (src_phys AND PLX_DESC_DWORD_MASK)\<rparr>)"

definition plx_dma_valid_desc :: "plx_dma_desc \<Rightarrow> plx_dma_desc" where
  "plx_dma_valid_desc d = d\<lparr>dw0 := dw0 d OR PLX_DESC_VALID\<rparr>"

text \<open>The loop of \<open>plx_dma_prog_memcpy_desc\<close>, on the number of descriptors still to write.\<close>

fun plx_dma_prog_loop :: "nat \<Rightarrow> plx_dma_chan \<Rightarrow> u64 \<Rightarrow> u64 \<Rightarrow> u64 \<Rightarrow> u64 \<Rightarrow> plx_dma_chan" where
  "plx_dma_prog_loop 0 ch src dst len flags = ch"
| "plx_dma_prog_loop (Suc num_desc) ch src dst len flags =
     (let send_len = min len (max_xfer_size ch);
          valid = (num_desc \<noteq> 0 \<or> flags = 0);
          ch1 = ch\<lparr>desc_ring := (desc_ring ch)[unat (head ch) :=
                  plx_dma_memcpy_desc src dst send_len (if num_desc \<noteq> 0 then 0 else flags) valid]\<rparr>;
          ch2 = (if valid then plx_dma_inc_head ch1 else ch1)
      in plx_dma_prog_loop num_desc ch2 (src + send_len) (dst + send_len) (len - send_len) flags)"

definition dma_num_desc :: "plx_dma_chan \<Rightarrow> u64 \<Rightarrow> nat" where
  "dma_num_desc ch len =
     (if len = 0 then 1 else unat ((len + max_xfer_size ch - 1) div max_xfer_size ch))"

text \<open>
  The number of descriptors and the flags are of type \<open>int\<close> in the code. Both agree with the values here for
  requests of fewer than \<open>2 ^ 31\<close> descriptors, which those that fit the ring are, and for flags below
  \<open>2 ^ 31\<close>, which the flags of the DMA interface are.
\<close>

definition plx_dma_prog_memcpy_desc :: "(u32 \<Rightarrow> plx_dma_chan \<Rightarrow> plx_dma_chan) \<Rightarrow> plx_dma_chan \<Rightarrow>
    u64 \<Rightarrow> u64 \<Rightarrow> u64 \<Rightarrow> u64 \<Rightarrow> (unit res \<times> plx_dma_chan) option" where
  "plx_dma_prog_memcpy_desc wb ch src dst len flags =
     (let num_desc = dma_num_desc ch len in
      case plx_dma_avail_desc_ring_space wb ch (int num_desc) of
        None \<Rightarrow> None
      | Some (Inl e, ch') \<Rightarrow> Some (Inl e, ch')
      | Some (Inr ret, ch') \<Rightarrow>
          if ret \<le> 0 then Some (Inr (), ch')
          else Some (Inr (), plx_dma_prog_loop num_desc ch' src dst len flags))"

text \<open>\<open>dma_cookie_t\<close> is a signed 32-bit integer that wraps.\<close>

definition cookie_succ :: "int \<Rightarrow> int" where
  "cookie_succ c = (let c' = (if c = 2147483647 then - 2147483648 else c + 1) in
                    if c' < DMA_MIN_COOKIE then DMA_MIN_COOKIE else c')"

definition plx_dma_tx_submit_unlock :: "plx_dma_chan \<Rightarrow> nat \<Rightarrow> int \<times> plx_dma_chan" where
  "plx_dma_tx_submit_unlock ch i =
     (let cookie = cookie_succ (chan_cookie ch);
          tx = (tx_array ch ! i)\<lparr>tx_cookie := cookie\<rparr>;
          ch1 = ch\<lparr>chan_cookie := cookie, tx_array := (tx_array ch)[i := tx]\<rparr>
      in if tx_flags tx \<noteq> 0
         then let h = unat (head ch1);
                  ch2 = plx_dma_inc_head (ch1\<lparr>desc_ring := (desc_ring ch1)[h := plx_dma_valid_desc (desc_ring ch1 ! h)]\<rparr>)
              in (cookie, ch2\<lparr>tx_array := (tx_array ch2)[i := tx\<lparr>tx_flags := 0\<rparr>]\<rparr>)
         else (cookie, ch1))"

definition allocate_tx :: "plx_dma_chan \<Rightarrow> u64 \<Rightarrow> nat \<times> plx_dma_chan" where
  "allocate_tx ch flags =
     (let i = unat (if flags \<noteq> 0 then head ch else plx_dma_ring_dec (head ch)) in
      (i, ch\<lparr>tx_array := (tx_array ch)[i := (tx_array ch ! i)\<lparr>tx_flags := flags\<rparr>]\<rparr>))"

definition plx_dma_prep_memcpy_lock :: "(u32 \<Rightarrow> plx_dma_chan \<Rightarrow> plx_dma_chan) \<Rightarrow> plx_dma_chan \<Rightarrow>
    u64 \<Rightarrow> u64 \<Rightarrow> u64 \<Rightarrow> u64 \<Rightarrow> (nat option \<times> plx_dma_chan) option" where
  "plx_dma_prep_memcpy_lock wb ch dma_dest dma_src len flags =
     (case plx_dma_prog_memcpy_desc wb ch dma_src dma_dest len flags of
        None \<Rightarrow> None
      | Some (Inl e, ch') \<Rightarrow> Some (None, ch')
      | Some (Inr _, ch') \<Rightarrow> (let (i, ch2) = allocate_tx ch' flags in Some (Some i, ch2)))"

definition plx_dma_prep_interrupt_lock :: "(u32 \<Rightarrow> plx_dma_chan \<Rightarrow> plx_dma_chan) \<Rightarrow> plx_dma_chan \<Rightarrow>
    u64 \<Rightarrow> (nat option \<times> plx_dma_chan) option" where
  "plx_dma_prep_interrupt_lock wb ch flags = plx_dma_prep_memcpy_lock wb ch 0 0 0 flags"

section \<open>Interrupts and status\<close>

definition plx_dma_ack_interrupt :: "plx_dma_chan \<Rightarrow> u32 \<times> plx_dma_chan" where
  "plx_dma_ack_interrupt ch =
     (let intr_reg = plx_dma_ch_reg_read ch PLX_DMA_INTR_CTRL_STATUS in
      (intr_reg, plx_dma_ch_reg_write PLX_DMA_INTR_CTRL_STATUS intr_reg ch))"

definition plx_dma_thread_fn :: "(u32 \<Rightarrow> plx_dma_chan \<Rightarrow> plx_dma_chan) \<Rightarrow>
    (u32 \<Rightarrow> plx_dma_chan \<Rightarrow> plx_dma_chan) \<Rightarrow> plx_dma_chan \<Rightarrow> plx_dma_chan option" where
  "plx_dma_thread_fn wb1 wb2 ch =
     (if dma_hang ch then Some ch
      else case plx_dma_cleanup wb1 ch of
        None \<Rightarrow> None
      | Some ch1 \<Rightarrow>
          let (reg, ch2) = plx_dma_ack_interrupt ch1 in
          if reg AND PLX_DMA_ERROR_STATUS \<noteq> 0 then Some (ch2\<lparr>dma_hang := True\<rparr>)
          else let ch3 = (if dbg_flush ch2 then ch2\<lparr>dbg_flush := False\<rparr> else ch2) in
            if reg AND PLX_DMA_DESC_DONE_INTR_STATUS \<noteq> 0 then plx_dma_cleanup wb2 ch3 else Some ch3)"

text \<open>
  The status of a cookie is computed by the kernel from the cookie, the last completed and the last
  used one (\<open>dma_async_is_complete\<close>, a parameter); it also reports the latter two.
\<close>

definition plx_dma_cookie_status :: "(int \<Rightarrow> int \<Rightarrow> int \<Rightarrow> bool) \<Rightarrow> plx_dma_chan \<Rightarrow> int \<Rightarrow> bool \<times> int \<times> int" where
  "plx_dma_cookie_status is_complete ch cookie =
     (is_complete cookie (completed_cookie ch) (chan_cookie ch), completed_cookie ch, chan_cookie ch)"

definition plx_dma_is_tx_complete :: "(int \<Rightarrow> int \<Rightarrow> int \<Rightarrow> bool) \<Rightarrow>
    (u32 \<Rightarrow> plx_dma_chan \<Rightarrow> plx_dma_chan) \<Rightarrow> plx_dma_chan \<Rightarrow> int \<Rightarrow> ((bool \<times> int \<times> int) \<times> plx_dma_chan) option" where
  "plx_dma_is_tx_complete is_complete wb ch cookie =
     (if fst (plx_dma_cookie_status is_complete ch cookie)
      then Some (plx_dma_cookie_status is_complete ch cookie, ch)
      else case plx_dma_cleanup wb ch of
        None \<Rightarrow> None
      | Some ch' \<Rightarrow> Some (plx_dma_cookie_status is_complete ch' cookie, ch'))"

definition plx_register_dma_device :: "plx_dma_chan \<Rightarrow> plx_dma_chan" where
  "plx_register_dma_device ch = ch\<lparr>chan_cookie := DMA_MIN_COOKIE, completed_cookie := DMA_MIN_COOKIE\<rparr>"

definition plx_dma_probe :: "errno option \<Rightarrow> errno option \<Rightarrow> plx_dma_chan \<Rightarrow> unit res \<times> plx_dma_chan" where
  "plx_dma_probe setup_irq register ch =
     (let ch1 = ch\<lparr>max_xfer_size := PLX_DESC_SIZE_MASK\<rparr> in
      case setup_irq of
        Some e \<Rightarrow> (Inl e, ch1)
      | None \<Rightarrow>
          let ch2 = plx_register_dma_device (ch1\<lparr>ch_base_addr := 0x200\<rparr>) in
          (case register of Some e \<Rightarrow> (Inl e, ch2) | None \<Rightarrow> (Inr (), ch2)))"

end
