(* ===== verification/Plx_Dma_Run.thy ===== *)
theory Plx_Dma_Run
  imports Plx_Dma
begin

unbundle bit_operations_syntax

text \<open>
  The DMA driver of \<open>Plx_Dma\<close> running against the switch. The engine of the switch processes valid
  descriptors in ring order and clears their valid bit, as the comments of the driver state; clients
  prepare and submit transfers with flags (as all callers in the repository do) while completion
  processing and the engine run in between. The theory shows that the descriptors carry the requested
  transfers, that no descriptor in use is overwritten, and that callbacks come in order and only
  after the data of their transfer is copied.
\<close>

section \<open>The encoding of a descriptor\<close>

definition desc_src :: "plx_dma_desc \<Rightarrow> u64" where
  "desc_src d = push_bit 16 (ucast (dw1 d AND 0xffff0000)) OR ucast (dw3 d)"

definition desc_dst :: "plx_dma_desc \<Rightarrow> u64" where
  "desc_dst d = push_bit 32 (ucast (dw1 d AND 0xffff)) OR ucast (dw2 d)"

definition desc_len :: "plx_dma_desc \<Rightarrow> u64" where
  "desc_len d = ucast (dw0 d AND 0x7ffffff)"

definition decode_desc :: "plx_dma_desc \<Rightarrow> u64 \<times> u64 \<times> u64" where
  "decode_desc d = (desc_src d, desc_dst d, desc_len d)"

lemma bit_consts:
  "bit (0xffff :: u32) n \<longleftrightarrow> n < 16" "bit (0x7ffffff :: u32) n \<longleftrightarrow> n < 27"
  "bit (0xffff0000 :: u32) n \<longleftrightarrow> 16 \<le> n \<and> n < 32" "bit PLX_DESC_DWORD_MASK n \<longleftrightarrow> n < 32"
  "bit PLX_DESC_SIZE_MASK n \<longleftrightarrow> n < 27" "bit PLX_DESC_HALF_HIGH_MASK n \<longleftrightarrow> 16 \<le> n \<and> n < 64"
  "bit PLX_DESC_VALID n \<longleftrightarrow> n = 31" "bit PLX_DESC_INTR_ENABLE n \<longleftrightarrow> n = 30"
  "bit (0xffff :: int) n \<longleftrightarrow> n < 16" "bit (0x7ffffff :: int) n \<longleftrightarrow> n < 27"
  "bit (0xffff0000 :: int) n \<longleftrightarrow> 16 \<le> n \<and> n < 32"
proof -
  have f: "(0xffff :: int) = mask 16" "(0x7ffffff :: int) = mask 27" "(0xffff0000 :: int) = push_bit 16 (mask 16)"
    by (simp_all add: mask_eq_exp_minus_1)
  have e: "(0xffff :: u32) = mask 16" "(0x7ffffff :: u32) = mask 27" "(0xffff0000 :: u32) = push_bit 16 (mask 16)"
    "PLX_DESC_DWORD_MASK = mask 32" "PLX_DESC_SIZE_MASK = mask 27"
    "PLX_DESC_HALF_HIGH_MASK = push_bit 16 (mask 48)"
    "PLX_DESC_VALID = push_bit 31 1" "PLX_DESC_INTR_ENABLE = push_bit 30 1"
    by (simp_all add: mask_eq_exp_minus_1 PLX_DESC_DWORD_MASK_def PLX_DESC_SIZE_MASK_def
        PLX_DESC_HALF_HIGH_MASK_def PLX_DESC_VALID_def PLX_DESC_INTR_ENABLE_def)
  note r = bit_mask_iff bit_push_bit_iff bit_1_iff possible_bit_word
  show "bit (0xffff :: u32) n \<longleftrightarrow> n < 16" unfolding e r by auto
  show "bit (0x7ffffff :: u32) n \<longleftrightarrow> n < 27" unfolding e r by auto
  show "bit (0xffff0000 :: u32) n \<longleftrightarrow> 16 \<le> n \<and> n < 32" unfolding e r by auto
  show "bit PLX_DESC_DWORD_MASK n \<longleftrightarrow> n < 32" unfolding e r by auto
  show "bit PLX_DESC_SIZE_MASK n \<longleftrightarrow> n < 27" unfolding e r by auto
  show "bit PLX_DESC_HALF_HIGH_MASK n \<longleftrightarrow> 16 \<le> n \<and> n < 64" unfolding e r by auto
  show "bit PLX_DESC_VALID n \<longleftrightarrow> n = 31" unfolding e r by auto
  show "bit PLX_DESC_INTR_ENABLE n \<longleftrightarrow> n = 30" unfolding e r by auto
  show "bit (0xffff :: int) n \<longleftrightarrow> n < 16" unfolding f r by auto
  show "bit (0x7ffffff :: int) n \<longleftrightarrow> n < 27" unfolding f r by auto
  show "bit (0xffff0000 :: int) n \<longleftrightarrow> 16 \<le> n \<and> n < 32" unfolding f r by auto
qed

lemma small_bit: "a < 2 ^ k \<Longrightarrow> bit (a::u64) n \<Longrightarrow> n < k"
  using less_mask_eq [of a k] by (metis bit_and_iff bit_mask_iff)

lemma memcpy_desc_fields:
  "dw0 (plx_dma_memcpy_desc src dst bytes flags valid) =
     (ucast (bytes AND PLX_DESC_SIZE_MASK) OR (if valid then PLX_DESC_VALID else 0)) OR
       (if flags \<noteq> 0 then PLX_DESC_INTR_ENABLE else 0)"
  "dw1 (plx_dma_memcpy_desc src dst bytes flags valid) =
     ucast ((drop_bit 16 src AND PLX_DESC_HALF_HIGH_MASK) OR drop_bit 32 dst)"
  "dw2 (plx_dma_memcpy_desc src dst bytes flags valid) = ucast (dst AND PLX_DESC_DWORD_MASK)"
  "dw3 (plx_dma_memcpy_desc src dst bytes flags valid) = ucast (src AND PLX_DESC_DWORD_MASK)"
  by (simp_all add: plx_dma_memcpy_desc_def Let_def)

lemma desc_src_memcpy:
  assumes "src < 2 ^ 48" "dst < 2 ^ 48"
  shows "desc_src (plx_dma_memcpy_desc src dst bytes flags valid) = src"
proof (rule bit_word_eqI)
  fix n assume "n < LENGTH(64)"
  then show "bit (desc_src (plx_dma_memcpy_desc src dst bytes flags valid)) n = bit src n"
    unfolding desc_src_def memcpy_desc_fields
    using small_bit [OF assms(1), of n] small_bit [OF assms(2), of "16 + n"]
    by (auto simp: bit_simps bit_consts)
qed

lemma desc_dst_memcpy:
  assumes "dst < 2 ^ 48"
  shows "desc_dst (plx_dma_memcpy_desc src dst bytes flags valid) = dst"
proof (rule bit_word_eqI)
  fix n assume "n < LENGTH(64)"
  then show "bit (desc_dst (plx_dma_memcpy_desc src dst bytes flags valid)) n = bit dst n"
    unfolding desc_dst_def memcpy_desc_fields
    using small_bit [OF assms(1), of n] by (auto simp: bit_simps bit_consts)
qed

lemma desc_len_memcpy:
  assumes "bytes < 2 ^ 27"
  shows "desc_len (plx_dma_memcpy_desc src dst bytes flags valid) = bytes"
proof (rule bit_word_eqI)
  fix n assume "n < LENGTH(64)"
  then show "bit (desc_len (plx_dma_memcpy_desc src dst bytes flags valid)) n = bit bytes n"
    unfolding desc_len_def memcpy_desc_fields
    using small_bit [OF assms(1), of n] by (auto simp: bit_simps bit_consts)
qed

lemma valid_bit: "x AND PLX_DESC_VALID \<noteq> 0 \<longleftrightarrow> bit x 31"
proof
  assume "bit x 31"
  then have "bit (x AND PLX_DESC_VALID) 31" by (simp add: bit_simps bit_consts)
  then show "x AND PLX_DESC_VALID \<noteq> 0" by auto
next
  assume nz: "x AND PLX_DESC_VALID \<noteq> 0"
  have "x AND PLX_DESC_VALID = 0" if "\<not> bit x 31"
    by (rule bit_word_eqI) (use that in \<open>auto simp: bit_simps bit_consts\<close>)
  with nz show "bit x 31" by blast
qed

lemma valid_memcpy: "dw0 (plx_dma_memcpy_desc src dst bytes flags valid) AND PLX_DESC_VALID \<noteq> 0 \<longleftrightarrow> valid"
  unfolding valid_bit memcpy_desc_fields by (auto simp: bit_simps bit_consts)

text \<open>Setting or clearing the valid bit does not change the transfer.\<close>

definition clear_valid :: "plx_dma_desc \<Rightarrow> plx_dma_desc" where
  "clear_valid d = d\<lparr>dw0 := dw0 d AND NOT PLX_DESC_VALID\<rparr>"

lemma len_valid_bit: "(x OR PLX_DESC_VALID) AND 0x7ffffff = x AND (0x7ffffff::u32)"
  "(x AND NOT PLX_DESC_VALID) AND 0x7ffffff = x AND (0x7ffffff::u32)"
  by (rule bit_word_eqI; auto simp: bit_simps bit_consts)+

lemma decode_valid [simp]:
  "decode_desc (plx_dma_valid_desc d) = decode_desc d" "decode_desc (clear_valid d) = decode_desc d"
  by (simp_all add: decode_desc_def desc_src_def desc_dst_def desc_len_def plx_dma_valid_desc_def
      clear_valid_def len_valid_bit)

lemma valid_valid [simp]: "dw0 (plx_dma_valid_desc d) AND PLX_DESC_VALID \<noteq> 0"
  "dw0 (clear_valid d) AND PLX_DESC_VALID = 0"
proof -
  show "dw0 (plx_dma_valid_desc d) AND PLX_DESC_VALID \<noteq> 0"
    unfolding valid_bit plx_dma_valid_desc_def by (simp add: bit_simps bit_consts)
  show "dw0 (clear_valid d) AND PLX_DESC_VALID = 0"
    unfolding clear_valid_def by (simp add: and.assoc)
qed

section \<open>The ring\<close>

lemma unat_ring_inc: "unat (plx_dma_ring_inc v) = (unat v + 1) mod 2048"
proof -
  have "unat ((v + 1) AND 2047) = unat (v + 1) mod 2048"
    using and_mask_nat [of "unat (v + 1)" 11] by (simp add: unsigned_and_eq)
  also have "\<dots> = (unat v + 1) mod 2048"
    by (simp add: unat_word_ariths mod_mod_cancel)
  finally show ?thesis by (simp add: plx_dma_ring_inc_def PLX_DMA_DESC_RX_SIZE_def)
qed

interpretation dr: gap_ring 2048 unat plx_dma_ring_inc
  by unfold_locales (simp_all add: unat_inj unat_ring_inc)

lemma sint_small:
  assumes "unat (x::u32) \<le> 2048"
  shows "sint x = int (unat x)"
proof -
  have "int (unat x) \<le> 2048" using assms by linarith
  then have u: "uint x \<le> 2048" by simp
  have "sint x = signed_take_bit 31 (uint x)" by (simp add: sint_uint)
  also have "\<dots> = uint x"
  proof (rule signed_take_bit_int_eq_self)
    show "- (2 ^ 31) \<le> uint x" by (rule order_trans [of _ 0]) simp_all
  qed (use u in simp)
  finally show ?thesis by simp
qed

lemma ring_count_dist:
  assumes "unat h < 2048" "unat t < 2048"
  shows "plx_dma_ring_count h t = 2047 - int (dr.dist t h)"
proof -
  note s = sint_small
  show ?thesis
  proof (cases "t \<le> h")
    case True
    then have "unat (t + (2048 - h)) = unat t + 2048 - unat h"
      using assms by (simp add: unat_word_ariths unat_sub word_le_nat_alt)
    with True assms show ?thesis
      by (simp add: plx_dma_ring_count_def PLX_DMA_DESC_RX_SIZE_def s dr.dist_cases word_le_nat_alt)
  next
    case False
    then have "unat (t - h) = unat t - unat h" by (simp add: unat_sub word_le_nat_alt)
    with False assms show ?thesis
      by (simp add: plx_dma_ring_count_def s dr.dist_cases word_le_nat_alt)
  qed
qed

section \<open>The engine of the switch\<close>

definition hw_step :: "plx_dma_chan \<Rightarrow> plx_dma_chan" where
  "hw_step ch =
     (if desc_valid ch (hw_next ch)
      then let i = unat (hw_next ch); d = desc_ring ch ! i in
        ch\<lparr>desc_ring := (desc_ring ch)[i := clear_valid d], copied := copied ch @ [decode_desc d],
           hw_next := plx_dma_ring_inc (hw_next ch)\<rparr>
      else ch)"

text \<open>
  What the switch may do while the driver reads a register: process some descriptors and change
  register contents.
\<close>

definition switch_wb :: "(u32 \<Rightarrow> plx_dma_chan \<Rightarrow> plx_dma_chan) \<Rightarrow> bool" where
  "switch_wb wb \<longleftrightarrow> (\<forall>t ch. \<exists>k r. wb t ch = ((hw_step ^^ k) ch)\<lparr>regs := r\<rparr>)"

section \<open>The invariant of the channel\<close>

definition vld :: "plx_dma_chan \<Rightarrow> nat \<Rightarrow> bool" where
  "vld ch i \<longleftrightarrow> dw0 (desc_ring ch ! i) AND PLX_DESC_VALID \<noteq> 0"

type_synonym piece = "u64 \<times> u64 \<times> u64"
type_synonym entry = "piece \<times> (int \<times> nat option) option"

definition tag :: "dma_tx \<Rightarrow> (int \<times> nat option) option" where
  "tag tx = (if tx_cookie tx = 0 then None else Some (tx_cookie tx, tx_callback tx))"

definition ents :: "plx_dma_chan \<Rightarrow> entry list" where
  "ents ch = zip (map decode_desc (desc_ring ch)) (map tag (tx_array ch))"

definition window :: "plx_dma_chan \<Rightarrow> entry list" where
  "window ch = dr.win (ents ch) (last_tail ch) (head ch)"

definition dma_inv :: "plx_dma_chan \<Rightarrow> bool" where
  "dma_inv ch \<longleftrightarrow>
     length (desc_ring ch) = 2048 \<and> length (tx_array ch) = 2048 \<and>
     unat (last_tail ch) < 2048 \<and> unat (head ch) < 2048 \<and> unat (hw_next ch) < 2048 \<and>
     dr.dist (last_tail ch) (hw_next ch) \<le> dr.dist (last_tail ch) (head ch) \<and>
     (\<forall>k < 2048. vld ch (dr.slot (last_tail ch) k) \<longleftrightarrow>
        dr.dist (last_tail ch) (hw_next ch) \<le> k \<and> k < dr.dist (last_tail ch) (head ch)) \<and>
     (\<forall>k < 2048. dr.dist (last_tail ch) (head ch) \<le> k \<longrightarrow>
        tx_cookie (tx_array ch ! dr.slot (last_tail ch) k) = 0) \<and>
     (\<forall>tx \<in> set (tx_array ch). 0 \<le> tx_cookie tx) \<and>
     0 < max_xfer_size ch \<and> max_xfer_size ch < 2 ^ 27"

definition cbs :: "entry list \<Rightarrow> nat list" where
  "cbs es = concat (map (\<lambda>e. case snd e of Some (c, Some f) \<Rightarrow> [f] | _ \<Rightarrow> []) es)"

text \<open>
  The log \<open>L\<close> of all descriptors made valid so far splits into those the driver has passed and those
  in the ring; the callbacks called are those of the former, and the engine has copied the former and
  the descriptors before its position.
\<close>

definition logged :: "entry list \<Rightarrow> plx_dma_chan \<Rightarrow> bool" where
  "logged L ch \<longleftrightarrow> (\<exists>past. L = past @ window ch \<and> called ch = cbs past \<and>
     copied ch = map fst (take (length past + dr.dist (last_tail ch) (hw_next ch)) L))"

lemma cbs_append [simp]: "cbs (a @ b) = cbs a @ cbs b"
  by (simp add: cbs_def)

lemma length_ents [simp]: "dma_inv ch \<Longrightarrow> length (ents ch) = 2048"
  by (simp add: ents_def dma_inv_def)

lemma nth_ents:
  "dma_inv ch \<Longrightarrow> i < 2048 \<Longrightarrow> ents ch ! i = (decode_desc (desc_ring ch ! i), tag (tx_array ch ! i))"
  by (simp add: ents_def dma_inv_def)

lemma regs_irrelevant [simp]:
  "dma_inv (ch\<lparr>regs := r\<rparr>) = dma_inv ch" "logged L (ch\<lparr>regs := r\<rparr>) = logged L ch"
  "dma_inv (ch\<lparr>dbg_dma_hold_cnt := c\<rparr>) = dma_inv ch" "logged L (ch\<lparr>dbg_dma_hold_cnt := c\<rparr>) = logged L ch"
  "dma_inv (ch\<lparr>dma_hang := x\<rparr>) = dma_inv ch" "logged L (ch\<lparr>dma_hang := x\<rparr>) = logged L ch"
  "dma_inv (ch\<lparr>dbg_flush := x\<rparr>) = dma_inv ch" "logged L (ch\<lparr>dbg_flush := x\<rparr>) = logged L ch"
  by (simp_all add: dma_inv_def logged_def vld_def window_def ents_def)

lemma issue_pending_irrelevant [simp]:
  "dma_inv (plx_dma_issue_pending ch) = dma_inv ch" "logged L (plx_dma_issue_pending ch) = logged L ch"
  by (simp_all add: plx_dma_issue_pending_def plx_dma_ch_reg_write_def plx_dma_reg_write_def)

section \<open>The engine keeps the invariant\<close>

lemma hw_step_inv:
  assumes inv: "dma_inv ch"
  shows "dma_inv (hw_step ch)" and "logged L ch \<Longrightarrow> logged L (hw_step ch)"
proof -
  let ?t = "last_tail ch" and ?p = "hw_next ch" and ?h = "head ch"
  let ?i = "unat ?p" and ?ch = "hw_step ch"
  have b: "length (desc_ring ch) = 2048" "length (tx_array ch) = 2048" "unat ?t < 2048" "unat ?p < 2048" "unat ?h < 2048"
    "dr.dist ?t ?p \<le> dr.dist ?t ?h"
    and v: "\<And>k. k < 2048 \<Longrightarrow> vld ch (dr.slot ?t k) \<longleftrightarrow> dr.dist ?t ?p \<le> k \<and> k < dr.dist ?t ?h"
    using inv by (auto simp: dma_inv_def)
  have s: "dr.slot ?t (dr.dist ?t ?p) = ?i" by (rule dr.slot_dist [OF b(3,4)])
  have "dma_inv ?ch \<and> (logged L ch \<longrightarrow> logged L ?ch)"
  proof (cases "vld ch ?i")
    case False
    then have "?ch = ch" by (simp add: hw_step_def desc_valid_def vld_def)
    with inv show ?thesis by simp
  next
    case True
    let ?d = "desc_ring ch ! ?i"
    have ch: "?ch = ch\<lparr>desc_ring := (desc_ring ch)[?i := clear_valid ?d],
        copied := copied ch @ [decode_desc ?d], hw_next := plx_dma_ring_inc ?p\<rparr>"
      using True by (simp add: hw_step_def desc_valid_def vld_def Let_def)
    have lt: "dr.dist ?t ?p < dr.dist ?t ?h"
      using v [of "dr.dist ?t ?p"] True s dr.dist_less [of ?t ?p] by simp
    then have di: "dr.dist ?t (plx_dma_ring_inc ?p) = Suc (dr.dist ?t ?p)"
      using dr.dist_inc_head [OF b(3,4)] dr.dist_less [of ?t ?h] by simp
    have vk: "vld ?ch (dr.slot ?t k) \<longleftrightarrow> Suc (dr.dist ?t ?p) \<le> k \<and> k < dr.dist ?t ?h" if "k < 2048" for k
    proof (cases "k = dr.dist ?t ?p")
      case True
      then show ?thesis using s b by (simp add: ch vld_def)
    next
      case False
      then have "dr.slot ?t k \<noteq> ?i" using s dr.slot_inj [of ?t k "dr.dist ?t ?p"] that dr.dist_less by metis
      then have "vld ?ch (dr.slot ?t k) = vld ch (dr.slot ?t k)" by (simp add: ch vld_def)
      then show ?thesis using v [OF that] False by auto
    qed
    have inv': "dma_inv ?ch"
      using inv vk di lt dr.inc_less [OF b(4)] by (simp add: dma_inv_def ch)
    have e: "ents ?ch = ents ch"
      using list_update_id [of "map decode_desc (desc_ring ch)" ?i] b(1,4)
      by (simp add: ents_def ch map_update)
    have "logged L ?ch" if lg: "logged L ch"
    proof -
      obtain past where past: "L = past @ window ch" "called ch = cbs past"
        "copied ch = map fst (take (length past + dr.dist ?t ?p) L)"
        using lg unfolding logged_def by blast
      have "window ch ! dr.dist ?t ?p = (decode_desc ?d, tag (tx_array ch ! ?i))"
        using lt s nth_ents [OF inv b(4)] by (simp add: window_def dr.nth_win)
      moreover have "dr.dist ?t ?p < length (window ch)" using lt by (simp add: window_def)
      ultimately have "map fst (take (Suc (length past + dr.dist ?t ?p)) L) = copied ch @ [decode_desc ?d]"
        using past(1,3) by (simp add: take_Suc_conv_app_nth nth_append)
      then show ?thesis
        unfolding logged_def using past di e by (intro exI [of _ past]) (simp add: ch window_def)
    qed
    with inv' show ?thesis by blast
  qed
  then show "dma_inv ?ch" "logged L ch \<Longrightarrow> logged L ?ch" by auto
qed

lemma hw_step_fields [simp]:
  "last_tail (hw_step ch) = last_tail ch" "head (hw_step ch) = head ch" "tx_array (hw_step ch) = tx_array ch"
  "max_xfer_size (hw_step ch) = max_xfer_size ch" "chan_cookie (hw_step ch) = chan_cookie ch"
  "called (hw_step ch) = called ch"
  by (simp_all add: hw_step_def Let_def)

lemma hw_step_decode: "decode_desc (desc_ring (hw_step ch) ! i) = decode_desc (desc_ring ch ! i)"
  by (simp add: hw_step_def Let_def nth_list_update_cases)

lemma hw_step_copied: "length (copied ch) \<le> length (copied (hw_step ch))"
  by (simp add: hw_step_def Let_def)

lemma hw_steps_inv:
  "dma_inv ch \<Longrightarrow> dma_inv ((hw_step ^^ k) ch) \<and> (logged L ch \<longrightarrow> logged L ((hw_step ^^ k) ch)) \<and>
     last_tail ((hw_step ^^ k) ch) = last_tail ch \<and> head ((hw_step ^^ k) ch) = head ch \<and>
     tx_array ((hw_step ^^ k) ch) = tx_array ch \<and> chan_cookie ((hw_step ^^ k) ch) = chan_cookie ch \<and>
     max_xfer_size ((hw_step ^^ k) ch) = max_xfer_size ch \<and>
     decode_desc (desc_ring ((hw_step ^^ k) ch) ! i) = decode_desc (desc_ring ch ! i) \<and>
     length (copied ch) \<le> length (copied ((hw_step ^^ k) ch))"
  by (induction k) (auto simp: hw_step_inv hw_step_decode intro: le_trans [OF _ hw_step_copied])

text \<open>What the driver relies on of the switch: the invariant, the log and the driver's own fields.\<close>

definition keeps :: "plx_dma_chan \<Rightarrow> plx_dma_chan \<Rightarrow> bool" where
  "keeps ch ch' \<longleftrightarrow> dma_inv ch' \<and> (\<forall>L. logged L ch \<longrightarrow> logged L ch') \<and> head ch' = head ch \<and>
     chan_cookie ch' = chan_cookie ch \<and> max_xfer_size ch' = max_xfer_size ch \<and>
     tx_array ch' ! unat (head ch) = tx_array ch ! unat (head ch) \<and>
     decode_desc (desc_ring ch' ! unat (head ch)) = decode_desc (desc_ring ch ! unat (head ch)) \<and>
     dr.dist (last_tail ch') (head ch) \<le> dr.dist (last_tail ch) (head ch) \<and>
     length (copied ch) \<le> length (copied ch')"

lemma keeps_refl: "dma_inv ch \<Longrightarrow> keeps ch ch"
  by (simp add: keeps_def)

lemma keeps_trans: "keeps a b \<Longrightarrow> keeps b c \<Longrightarrow> keeps a c"
  by (simp add: keeps_def)

lemma hw_steps_tail: "(hw_step ^^ k) (ch\<lparr>last_tail := l\<rparr>) = ((hw_step ^^ k) ch)\<lparr>last_tail := l\<rparr>"
proof (induction k)
  case (Suc k)
  then show ?case by (simp add: hw_step_def desc_valid_def Let_def)
qed simp

text \<open>The tail that the loop of \<open>plx_dma_cleanup\<close> works on is written back only at its end.\<close>

lemma switch_keeps:
  assumes "switch_wb wb" "dma_inv (ch\<lparr>last_tail := l\<rparr>)"
  shows "keeps (ch\<lparr>last_tail := l\<rparr>) ((wb t ch)\<lparr>last_tail := l\<rparr>)"
proof -
  obtain k r where "wb t ch = ((hw_step ^^ k) ch)\<lparr>regs := r\<rparr>"
    using assms(1) unfolding switch_wb_def by blast
  then have "(wb t ch)\<lparr>last_tail := l\<rparr> = ((hw_step ^^ k) (ch\<lparr>last_tail := l\<rparr>))\<lparr>regs := r\<rparr>"
    by (simp add: hw_steps_tail)
  then show ?thesis using hw_steps_inv [OF assms(2), of k _ "unat (head ch)"] by (simp add: keeps_def)
qed

section \<open>Completion processing\<close>

text \<open>Completing the descriptor at the tail, and stepping the tail.\<close>

lemma tx_no_callback: "tx_callback r = None \<Longrightarrow> r\<lparr>tx_cookie := 0, tx_callback := None\<rparr> = r\<lparr>tx_cookie := 0\<rparr>"
  for r :: dma_tx
  by (cases r) simp

definition done_tx :: "dma_tx \<Rightarrow> dma_tx" where
  "done_tx tx = (if tx_cookie tx \<noteq> 0 then tx\<lparr>tx_cookie := 0, tx_callback := None\<rparr> else tx)"

lemma done_tx_cookie [simp]: "tx_cookie (done_tx tx) = 0"
  by (simp add: done_tx_def)

lemma complete_one_fields:
  assumes "0 \<le> tx_cookie (tx_array ch ! unat t)" "unat t < length (tx_array ch)"
  obtains ch' where "plx_dma_complete_one ch t = Some ch'" "desc_ring ch' = desc_ring ch"
    "tx_array ch' = (tx_array ch)[unat t := done_tx (tx_array ch ! unat t)]" "hw_next ch' = hw_next ch"
    "head ch' = head ch" "copied ch' = copied ch" "max_xfer_size ch' = max_xfer_size ch"
    "chan_cookie ch' = chan_cookie ch"
    "called ch' = called ch @ cbs [(p, tag (tx_array ch ! unat t))]"
proof (cases "tx_cookie (tx_array ch ! unat t) = 0")
  case True
  then show ?thesis
    by (intro that [of ch]) (simp_all add: plx_dma_complete_one_def done_tx_def cbs_def tag_def)
next
  case False
  with assms have "\<not> tx_cookie (tx_array ch ! unat t) < DMA_MIN_COOKIE" by (simp add: DMA_MIN_COOKIE_def)
  note c = this False assms(2)
  let ?tx = "tx_array ch ! unat t"
  let ?ch = "ch\<lparr>completed_cookie := tx_cookie ?tx, tx_array := (tx_array ch)[unat t := done_tx ?tx],
    called := called ch @ cbs [(p, tag ?tx)]\<rparr>"
  have "plx_dma_complete_one ch t = Some ?ch"
  proof (cases "tx_callback ?tx")
    case None
    then show ?thesis
      using c by (simp add: plx_dma_complete_one_def Let_def done_tx_def cbs_def tag_def tx_no_callback)
  next
    case (Some a)
    then show ?thesis
      using c by (simp add: plx_dma_complete_one_def Let_def done_tx_def cbs_def tag_def)
  qed
  then show ?thesis by (rule that) simp_all
qed

lemma complete_one_inv:
  assumes inv: "dma_inv (ch\<lparr>last_tail := t\<rparr>)" and t: "t \<noteq> head ch" and nv: "\<not> desc_valid ch t"
  shows "\<exists>ch'. plx_dma_complete_one ch t = Some ch' \<and>
    keeps (ch\<lparr>last_tail := t\<rparr>) (ch'\<lparr>last_tail := plx_dma_ring_inc t\<rparr>)"
proof -
  let ?p = "hw_next ch" and ?h = "head ch" and ?i = "unat t" and ?c = "ch\<lparr>last_tail := t\<rparr>"
  let ?tx = "tx_array ch ! ?i" and ?t' = "plx_dma_ring_inc t" and ?d = "decode_desc (desc_ring ch ! unat t)"
  have b: "length (desc_ring ch) = 2048" "length (tx_array ch) = 2048" "unat t < 2048" "unat ?p < 2048" "unat ?h < 2048"
    and v: "\<And>k. k < 2048 \<Longrightarrow> vld ch (dr.slot t k) \<longleftrightarrow> dr.dist t ?p \<le> k \<and> k < dr.dist t ?h"
    and ck: "\<And>k. k < 2048 \<Longrightarrow> dr.dist t ?h \<le> k \<Longrightarrow> tx_cookie (tx_array ch ! dr.slot t k) = 0"
    and nn: "\<forall>tx \<in> set (tx_array ch). 0 \<le> tx_cookie tx"
    using inv by (auto simp: dma_inv_def vld_def)
  have le: "dr.dist t ?p \<le> dr.dist t ?h" using inv by (simp add: dma_inv_def)
  have "0 < dr.dist t ?h" using dr.dist_0 [OF b(3,5)] t by auto
  then have "0 < dr.dist t ?p" using v [of 0] nv b(3) by (simp add: dr.slot_0 desc_valid_def vld_def)
  then have tp: "t \<noteq> ?p" by auto
  have dh: "dr.dist t ?h = Suc (dr.dist ?t' ?h)" by (rule dr.dist_inc_tail [OF b(3,5) t])
  have dp: "dr.dist t ?p = Suc (dr.dist ?t' ?p)" by (rule dr.dist_inc_tail [OF b(3,4) tp])
  have "?tx \<in> set (tx_array ch)" using b by simp
  then obtain ch' where step: "plx_dma_complete_one ch t = Some ch'" and f: "desc_ring ch' = desc_ring ch"
    "tx_array ch' = (tx_array ch)[?i := done_tx ?tx]" "hw_next ch' = ?p" "head ch' = ?h"
    "copied ch' = copied ch" "max_xfer_size ch' = max_xfer_size ch" "chan_cookie ch' = chan_cookie ch"
    "called ch' = called ch @ cbs [(?d, tag ?tx)]"
    using complete_one_fields [of ch t ?d] nn b by metis
  let ?c' = "ch'\<lparr>last_tail := ?t'\<rparr>"
  have last: "dr.slot ?t' 2047 = ?i"
    using b(3) by (simp add: dr.slot_def unat_ring_inc mod_simps)
  have sl: "dr.slot ?t' k = dr.slot t (Suc k)" for k by (rule dr.slot_inc [OF b(3)])
  have vk: "vld ?c' (dr.slot ?t' k) \<longleftrightarrow> dr.dist ?t' ?p \<le> k \<and> k < dr.dist ?t' ?h" if "k < 2048" for k
  proof (cases "k = 2047")
    case True
    then show ?thesis
      using last nv dh dr.dist_less [of t ?h] by (simp add: vld_def f desc_valid_def)
  next
    case False
    then show ?thesis using that v [of "Suc k"] dh dp by (simp add: sl vld_def f)
  qed
  have ckk: "tx_cookie (tx_array ch' ! dr.slot ?t' k) = 0" if "k < 2048" "dr.dist ?t' ?h \<le> k" for k
  proof (cases "k = 2047")
    case True
    then show ?thesis using last b by (simp add: f)
  next
    case False
    then have "dr.slot ?t' k \<noteq> ?i" using dr.slot_inj [of ?t' k 2047] that last by auto
    then show ?thesis using False that ck [of "Suc k"] dh by (simp add: f sl)
  qed
  have "\<forall>tx \<in> set (tx_array ch'). 0 \<le> tx_cookie tx"
    using nn set_update_subset_insert [of "tx_array ch" ?i "done_tx ?tx"] by (auto simp: f)
  then have inv': "dma_inv ?c'"
    using inv vk ckk le dh dp dr.inc_less [OF b(3)] by (simp add: dma_inv_def f)
  have out: "dr.slot ?t' k \<noteq> ?i" if "k < dr.dist ?t' ?h" for k
    using dr.slot_inj [of ?t' k 2047] that last dh dr.dist_less [of t ?h] by auto
  have "ents ?c' = (ents ?c)[?i := (?d, None)]"
    using b list_update_id [of "map decode_desc (desc_ring ch)" ?i]
    by (simp add: ents_def f map_update tag_def update_zip)
  moreover have "dr.win ((ents ?c)[?i := x]) ?t' ?h = dr.win (ents ?c) ?t' ?h" for x
    by (rule dr.win_update_out) (rule out)
  ultimately have w: "window ?c = (?d, tag ?tx) # window ?c'"
    using dr.win_pop [OF b(3,5) t, of "ents ?c"] nth_ents [OF inv b(3)] by (simp add: window_def f)
  have "logged L ?c'" if lg: "logged L ?c" for L
  proof -
    obtain past where past: "L = past @ window ?c" "called ch = cbs past"
      "copied ch = map fst (take (length past + dr.dist t ?p) L)"
      using lg unfolding logged_def by auto
    then show ?thesis
      unfolding logged_def by (intro exI [of _ "past @ [(?d, tag ?tx)]"]) (use w f dp in simp)
  qed
  moreover have "?i \<noteq> unat ?h" using t unat_inj by blast
  ultimately show ?thesis using inv' step f dh by (auto simp: keeps_def)
qed

lemma restart_keeps:
  "dma_inv (ch\<lparr>last_tail := t\<rparr>) \<Longrightarrow> keeps (ch\<lparr>last_tail := t\<rparr>) ((plx_dma_restart ch x y)\<lparr>last_tail := t\<rparr>)"
proof -
  assume inv: "dma_inv (ch\<lparr>last_tail := t\<rparr>)"
  have "\<exists>r c. plx_dma_restart ch x y = ch\<lparr>dbg_dma_hold_cnt := c, regs := r\<rparr>"
    unfolding plx_dma_restart_def plx_dma_issue_pending_def plx_dma_ch_reg_write_def plx_dma_reg_write_def
    by (cases ch) auto
  then obtain r c where "plx_dma_restart ch x y = ch\<lparr>dbg_dma_hold_cnt := c, regs := r\<rparr>" by blast
  then have e: "(plx_dma_restart ch x y)\<lparr>last_tail := t\<rparr> = (ch\<lparr>last_tail := t\<rparr>)\<lparr>dbg_dma_hold_cnt := c, regs := r\<rparr>"
    by simp
  show ?thesis unfolding e keeps_def using inv by simp
qed

lemma restart_valid: "desc_valid (plx_dma_restart ch x y) t = desc_valid ch t"
  by (simp add: plx_dma_restart_def plx_dma_issue_pending_def plx_dma_ch_reg_write_def plx_dma_reg_write_def
      desc_valid_def)

lemma cleanup_loop_inv:
  assumes "switch_wb wb" "dma_inv (ch\<lparr>last_tail := t\<rparr>)" "dr.dist t (head ch) < fuel"
  shows "\<exists>ch' t'. plx_dma_cleanup_loop wb (head ch) fuel ch t = Some (ch', t') \<and>
    keeps (ch\<lparr>last_tail := t\<rparr>) (ch'\<lparr>last_tail := t'\<rparr>) \<and> (t' = head ch \<or> desc_valid ch' t')"
  using assms(2,3)
proof (induction fuel arbitrary: ch t)
  case (Suc fuel)
  note inv = Suc.prems(1)
  show ?case
  proof (cases "t = head ch")
    case True
    then show ?thesis using keeps_refl [OF inv] by auto
  next
    case ne: False
    define ch1 where "ch1 = (if desc_valid ch t then wb t ch else ch)"
    have k1: "keeps (ch\<lparr>last_tail := t\<rparr>) (ch1\<lparr>last_tail := t\<rparr>)"
      using switch_keeps [OF assms(1) inv] keeps_refl [OF inv] by (simp add: ch1_def)
    then have h1: "head ch1 = head ch" and inv1: "dma_inv (ch1\<lparr>last_tail := t\<rparr>)" by (auto simp: keeps_def)
    show ?thesis
    proof (cases "desc_valid ch t \<and> desc_valid ch1 t")
      case True
      then have "plx_dma_cleanup_loop wb (head ch) (Suc fuel) ch t =
          Some (plx_dma_restart ch1 (plx_get_hw_last_desc ch1) t, t)"
        using ne by (auto simp: ch1_def Let_def)
      then show ?thesis
        using True keeps_trans [OF k1 restart_keeps [OF inv1]] by (simp add: restart_valid)
    next
      case False
      then have nv: "\<not> desc_valid ch1 t" by (auto simp: ch1_def)
      obtain ch2 where ch2: "plx_dma_complete_one ch1 t = Some ch2"
        "keeps (ch1\<lparr>last_tail := t\<rparr>) (ch2\<lparr>last_tail := plx_dma_ring_inc t\<rparr>)"
        using complete_one_inv [OF inv1 _ nv] ne h1 by auto
      have h2: "head ch2 = head ch" "dma_inv (ch2\<lparr>last_tail := plx_dma_ring_inc t\<rparr>)"
        using ch2(2) h1 by (auto simp: keeps_def)
      have "unat t < 2048" "unat (head ch) < 2048" using inv by (auto simp: dma_inv_def)
      then have "dr.dist (plx_dma_ring_inc t) (head ch2) < fuel"
        using dr.dist_inc_tail [of t "head ch"] ne Suc.prems(2) h2 by simp
      from Suc.IH [OF h2(2) this] obtain ch' t' where
        r: "plx_dma_cleanup_loop wb (head ch2) fuel ch2 (plx_dma_ring_inc t) = Some (ch', t')"
        "keeps (ch2\<lparr>last_tail := plx_dma_ring_inc t\<rparr>) (ch'\<lparr>last_tail := t'\<rparr>)" "t' = head ch2 \<or> desc_valid ch' t'"
        by auto
      have "plx_dma_cleanup_loop wb (head ch) (Suc fuel) ch t = Some (ch', t')"
        using False ne ch2(1) r(1) h2(1) by (simp add: ch1_def Let_def)
      then show ?thesis using keeps_trans [OF k1 keeps_trans [OF ch2(2) r(2)]] r(3) h2(1) by auto
    qed
  qed
qed simp

lemma cleanup_inv:
  assumes "switch_wb wb" "dma_inv ch"
  shows "\<exists>ch'. plx_dma_cleanup wb ch = Some ch' \<and> keeps ch ch' \<and>
    (last_tail ch' = head ch' \<or> desc_valid ch' (last_tail ch'))"
proof -
  have e: "ch\<lparr>last_tail := last_tail ch\<rparr> = ch" by simp
  have "dr.dist (last_tail ch) (head ch) < unat PLX_DMA_DESC_RX_SIZE + 1"
    using dr.dist_less [of "last_tail ch" "head ch"] by (simp add: PLX_DMA_DESC_RX_SIZE_def)
  from cleanup_loop_inv [OF assms(1) _ this] obtain ch' t' where
    r: "plx_dma_cleanup_loop wb (head ch) (unat PLX_DMA_DESC_RX_SIZE + 1) ch (last_tail ch) = Some (ch', t')"
    "keeps ch (ch'\<lparr>last_tail := t'\<rparr>)" "t' = head ch \<or> desc_valid ch' t'"
    unfolding e using assms(2) by blast
  then show ?thesis by (auto simp: plx_dma_cleanup_def keeps_def desc_valid_def)
qed

section \<open>Writing descriptors\<close>

text \<open>Making the slot at the head valid and stepping the head appends to the log.\<close>

lemma push_inv:
  assumes inv: "dma_inv ch" and room: "dr.dist (last_tail ch) (head ch) + 1 < 2048"
    and d: "dw0 d AND PLX_DESC_VALID \<noteq> 0" and tx: "0 \<le> tx_cookie tx"
    and ch': "ch' = ch\<lparr>desc_ring := (desc_ring ch)[unat (head ch) := d],
      tx_array := (tx_array ch)[unat (head ch) := tx], head := plx_dma_ring_inc (head ch),
      chan_cookie := c\<rparr>"
  shows "dma_inv ch'" and "logged L ch \<Longrightarrow> logged (L @ [(decode_desc d, tag tx)]) ch'"
proof -
  let ?t = "last_tail ch" and ?p = "hw_next ch" and ?h = "head ch"
  let ?i = "unat ?h" and ?h' = "plx_dma_ring_inc (head ch)"
  have b: "length (desc_ring ch) = 2048" "length (tx_array ch) = 2048" "unat ?t < 2048" "unat ?p < 2048" "unat ?h < 2048"
    and v: "\<And>k. k < 2048 \<Longrightarrow> vld ch (dr.slot ?t k) \<longleftrightarrow> dr.dist ?t ?p \<le> k \<and> k < dr.dist ?t ?h"
    and ck: "\<And>k. k < 2048 \<Longrightarrow> dr.dist ?t ?h \<le> k \<Longrightarrow> tx_cookie (tx_array ch ! dr.slot ?t k) = 0"
    and nn: "\<forall>tx \<in> set (tx_array ch). 0 \<le> tx_cookie tx" and le: "dr.dist ?t ?p \<le> dr.dist ?t ?h"
    using inv by (auto simp: dma_inv_def)
  have s: "dr.slot ?t (dr.dist ?t ?h) = ?i" by (rule dr.slot_dist [OF b(3,5)])
  have di: "dr.dist ?t ?h' = Suc (dr.dist ?t ?h)" by (rule dr.dist_inc_head [OF b(3,5) room])
  have other: "dr.slot ?t k \<noteq> ?i" if "k < 2048" "k \<noteq> dr.dist ?t ?h" for k
    using dr.slot_inj [of ?t k "dr.dist ?t ?h"] s that dr.dist_less [of ?t ?h] by auto
  have "vld ch' (dr.slot ?t k) \<longleftrightarrow> dr.dist ?t ?p \<le> k \<and> k < Suc (dr.dist ?t ?h)" if "k < 2048" for k
  proof (cases "k = dr.dist ?t ?h")
    case True
    then show ?thesis using s b d le by (simp add: ch' vld_def)
  next
    case False
    then show ?thesis using other [OF that False] v [OF that] by (auto simp: ch' vld_def)
  qed
  moreover have "tx_cookie (tx_array ch' ! dr.slot ?t k) = 0" if "k < 2048" "Suc (dr.dist ?t ?h) \<le> k" for k
    using other [of k] ck [of k] that by (simp add: ch')
  moreover have "\<forall>tx \<in> set (tx_array ch'). 0 \<le> tx_cookie tx"
    using nn tx set_update_subset_insert [of "tx_array ch" ?i tx] by (auto simp: ch')
  ultimately show "dma_inv ch'"
    using inv le di dr.inc_less [OF b(5)] by (simp add: dma_inv_def ch')
  have "ents ch' = (ents ch)[?i := (decode_desc d, tag tx)]"
    using b by (simp add: ents_def ch' map_update update_zip)
  then have w: "window ch' = window ch @ [(decode_desc d, tag tx)]"
    using dr.win_push [OF b(3,5) room length_ents [OF inv], of "(decode_desc d, tag tx)"]
    by (simp add: window_def ch')
  show "logged (L @ [(decode_desc d, tag tx)]) ch'" if lg: "logged L ch"
  proof -
    obtain past where past: "L = past @ window ch" "called ch = cbs past"
      "copied ch = map fst (take (length past + dr.dist ?t ?p) L)"
      using lg unfolding logged_def by blast
    have "length past + dr.dist ?t ?p \<le> length L" using past(1) le by (simp add: window_def)
    then show ?thesis
      unfolding logged_def by (intro exI [of _ past]) (use past w in \<open>simp add: ch'\<close>)
  qed
qed

text \<open>Writing an invalid descriptor and transaction data to the free slot at the head.\<close>

lemma head_write_inv:
  assumes inv: "dma_inv ch" and room: "dr.dist (last_tail ch) (head ch) < 2048"
    and d: "dw0 d AND PLX_DESC_VALID = 0" and tx: "tx_cookie tx = 0"
    and ch': "ch' = ch\<lparr>desc_ring := (desc_ring ch)[unat (head ch) := d],
      tx_array := (tx_array ch)[unat (head ch) := tx]\<rparr>"
  shows "dma_inv ch'" and "logged L ch \<Longrightarrow> logged L ch'"
proof -
  let ?t = "last_tail ch" and ?p = "hw_next ch" and ?h = "head ch"
  let ?i = "unat ?h"
  have b: "length (desc_ring ch) = 2048" "length (tx_array ch) = 2048" "unat ?t < 2048" "unat ?p < 2048" "unat ?h < 2048"
    and v: "\<And>k. k < 2048 \<Longrightarrow> vld ch (dr.slot ?t k) \<longleftrightarrow> dr.dist ?t ?p \<le> k \<and> k < dr.dist ?t ?h"
    and ck: "\<And>k. k < 2048 \<Longrightarrow> dr.dist ?t ?h \<le> k \<Longrightarrow> tx_cookie (tx_array ch ! dr.slot ?t k) = 0"
    and nn: "\<forall>tx \<in> set (tx_array ch). 0 \<le> tx_cookie tx"
    using inv by (auto simp: dma_inv_def)
  have s: "dr.slot ?t (dr.dist ?t ?h) = ?i" by (rule dr.slot_dist [OF b(3,5)])
  have other: "dr.slot ?t k \<noteq> ?i" if "k < 2048" "k \<noteq> dr.dist ?t ?h" for k
    using dr.slot_inj [of ?t k "dr.dist ?t ?h"] s that dr.dist_less [of ?t ?h] by auto
  have "vld ch' (dr.slot ?t k) \<longleftrightarrow> dr.dist ?t ?p \<le> k \<and> k < dr.dist ?t ?h" if "k < 2048" for k
  proof (cases "k = dr.dist ?t ?h")
    case True
    then show ?thesis using s b d by (simp add: ch' vld_def)
  next
    case False
    then show ?thesis using other [OF that False] v [OF that] by (auto simp: ch' vld_def)
  qed
  moreover have "tx_cookie (tx_array ch' ! dr.slot ?t k) = 0" if "k < 2048" "dr.dist ?t ?h \<le> k" for k
  proof (cases "k = dr.dist ?t ?h")
    case True
    then show ?thesis using s b tx by (simp add: ch')
  qed (use other [of k] ck [of k] that in \<open>simp add: ch'\<close>)
  moreover have "\<forall>tx \<in> set (tx_array ch'). 0 \<le> tx_cookie tx"
    using nn tx set_update_subset_insert [of "tx_array ch" ?i tx] by (auto simp: ch')
  ultimately show "dma_inv ch'" using inv by (simp add: dma_inv_def ch')
  have "ents ch' = (ents ch)[?i := (decode_desc d, tag tx)]"
    using b by (simp add: ents_def ch' map_update update_zip)
  moreover have "dr.win ((ents ch)[?i := x]) ?t ?h = dr.win (ents ch) ?t ?h" for x
    by (rule dr.win_update_out) (use dr.head_not_in_win [OF b(3,5)] in blast)
  ultimately have "window ch' = window ch" by (simp add: window_def ch')
  then show "logged L ch \<Longrightarrow> logged L ch'" by (simp add: logged_def ch')
qed

section \<open>Preparing a transfer\<close>

text \<open>The pieces of a transfer of \<open>len\<close> bytes, at most \<open>mx\<close> bytes each.\<close>

fun dma_pieces :: "nat \<Rightarrow> u64 \<Rightarrow> u64 \<Rightarrow> u64 \<Rightarrow> u64 \<Rightarrow> piece list" where
  "dma_pieces 0 mx src dst len = []"
| "dma_pieces (Suc k) mx src dst len =
     (src, dst, min len mx) # dma_pieces k mx (src + min len mx) (dst + min len mx) (len - min len mx)"

definition encodable :: "piece \<Rightarrow> bool" where
  "encodable p \<longleftrightarrow> fst p < 2 ^ 48 \<and> fst (snd p) < 2 ^ 48 \<and> snd (snd p) < 2 ^ 27"

lemma decode_memcpy:
  "encodable (src, dst, len) \<Longrightarrow> decode_desc (plx_dma_memcpy_desc src dst len flags valid) = (src, dst, len)"
  by (simp add: encodable_def decode_desc_def desc_src_memcpy desc_dst_memcpy desc_len_memcpy)

lemma length_pieces [simp]: "length (dma_pieces k mx src dst len) = k"
  by (induction k arbitrary: src dst len) (simp_all add: Let_def)

lemma head_slot_free:
  assumes "dma_inv ch"
  shows "tx_cookie (tx_array ch ! unat (head ch)) = 0" "unat (head ch) < 2048"
proof -
  have b: "unat (last_tail ch) < 2048" "unat (head ch) < 2048" using assms by (auto simp: dma_inv_def)
  then show "unat (head ch) < 2048" by simp
  show "tx_cookie (tx_array ch ! unat (head ch)) = 0"
    using assms dr.slot_dist [OF b] dr.dist_less [of "last_tail ch" "head ch"] unfolding dma_inv_def by force
qed

lemma prog_loop_inv:
  assumes "dma_inv ch" "dr.dist (last_tail ch) (head ch) + Suc n < 2048" "flags \<noteq> 0"
    and "\<forall>p \<in> set (dma_pieces (Suc n) (max_xfer_size ch) src dst len). encodable p"
  defines "ps \<equiv> dma_pieces (Suc n) (max_xfer_size ch) src dst len"
    and "ch' \<equiv> plx_dma_prog_loop (Suc n) ch src dst len flags"
  shows "dma_inv ch' \<and> (\<forall>L. logged L ch \<longrightarrow> logged (L @ map (\<lambda>p. (p, None)) (butlast ps)) ch') \<and>
    decode_desc (desc_ring ch' ! unat (head ch')) = last ps \<and>
    dr.dist (last_tail ch') (head ch') + 1 < 2048 \<and> max_xfer_size ch' = max_xfer_size ch \<and>
    chan_cookie ch' = chan_cookie ch"
  using assms(1-4) unfolding ps_def ch'_def
proof (induction n arbitrary: ch src dst len)
  case 0
  let ?i = "unat (head ch)" and ?l = "min len (max_xfer_size ch)"
  let ?d = "plx_dma_memcpy_desc src dst ?l flags False"
  let ?ch = "ch\<lparr>desc_ring := (desc_ring ch)[?i := ?d]\<rparr>"
  have e: "plx_dma_prog_loop (Suc 0) ch src dst len flags = ?ch" using "0.prems"(3) by (simp add: Let_def)
  have e2: "?ch = ch\<lparr>desc_ring := (desc_ring ch)[?i := ?d], tx_array := (tx_array ch)[?i := tx_array ch ! ?i]\<rparr>"
    by (cases ch) simp
  have inv': "dma_inv ?ch" "\<And>L. logged L ch \<Longrightarrow> logged L ?ch"
    using head_write_inv [OF "0.prems"(1) dr.dist_less _ head_slot_free(1) [OF "0.prems"(1)] e2]
      valid_memcpy [of src dst ?l flags False] by auto
  have "length (desc_ring ch) = 2048" using "0.prems"(1) by (simp add: dma_inv_def)
  then show ?case
    using inv' "0.prems" head_slot_free(2) [OF "0.prems"(1)] by (simp add: e decode_memcpy)
next
  case (Suc n)
  let ?i = "unat (head ch)" and ?l = "min len (max_xfer_size ch)"
  let ?d = "plx_dma_memcpy_desc src dst ?l 0 True"
  define ch1 where "ch1 = plx_dma_inc_head (ch\<lparr>desc_ring := (desc_ring ch)[?i := ?d]\<rparr>)"
  have e: "plx_dma_prog_loop (Suc (Suc n)) ch src dst len flags =
      plx_dma_prog_loop (Suc n) ch1 (src + ?l) (dst + ?l) (len - ?l) flags"
    by (subst plx_dma_prog_loop.simps) (simp add: Let_def ch1_def)
  have e2: "ch1 = ch\<lparr>desc_ring := (desc_ring ch)[?i := ?d], tx_array := (tx_array ch)[?i := tx_array ch ! ?i],
      head := plx_dma_ring_inc (head ch), chan_cookie := chan_cookie ch\<rparr>"
    by (cases ch) (simp add: ch1_def plx_dma_inc_head_def)
  have c0: "tx_cookie (tx_array ch ! ?i) = 0" by (rule head_slot_free(1) [OF Suc.prems(1)])
  have enc: "encodable (src, dst, ?l)" using Suc.prems(4) by simp
  have room: "dr.dist (last_tail ch) (head ch) + 1 < 2048" using Suc.prems(2) by simp
  have p: "dma_inv ch1" "\<And>L. logged L ch \<Longrightarrow> logged (L @ [((src, dst, ?l), None)]) ch1"
    using push_inv [OF Suc.prems(1) room _ _ e2] valid_memcpy [of src dst ?l 0 True] c0
    by (simp_all add: decode_memcpy [OF enc] tag_def)
  have f: "max_xfer_size ch1 = max_xfer_size ch" "chan_cookie ch1 = chan_cookie ch"
    "dr.dist (last_tail ch1) (head ch1) = Suc (dr.dist (last_tail ch) (head ch))"
    using dr.dist_inc_head [OF _ _ room] Suc.prems(1) by (auto simp: e2 dma_inv_def)
  define ps where "ps = dma_pieces (Suc n) (max_xfer_size ch) (src + ?l) (dst + ?l) (len - ?l)"
  have ps: "dma_pieces (Suc (Suc n)) (max_xfer_size ch) src dst len = (src, dst, ?l) # ps" "ps \<noteq> []"
    by (subst dma_pieces.simps, simp add: ps_def) (simp add: ps_def)
  have "\<forall>p \<in> set ps. encodable p" using Suc.prems(4) ps(1) by (simp del: dma_pieces.simps)
  then have IH: "dma_inv (plx_dma_prog_loop (Suc n) ch1 (src + ?l) (dst + ?l) (len - ?l) flags)"
    "\<And>L. logged L ch1 \<Longrightarrow> logged (L @ map (\<lambda>p. (p, None)) (butlast ps))
       (plx_dma_prog_loop (Suc n) ch1 (src + ?l) (dst + ?l) (len - ?l) flags)"
    "decode_desc (desc_ring (plx_dma_prog_loop (Suc n) ch1 (src + ?l) (dst + ?l) (len - ?l) flags) !
       unat (head (plx_dma_prog_loop (Suc n) ch1 (src + ?l) (dst + ?l) (len - ?l) flags))) = last ps"
    "dr.dist (last_tail (plx_dma_prog_loop (Suc n) ch1 (src + ?l) (dst + ?l) (len - ?l) flags))
       (head (plx_dma_prog_loop (Suc n) ch1 (src + ?l) (dst + ?l) (len - ?l) flags)) + 1 < 2048"
    "max_xfer_size (plx_dma_prog_loop (Suc n) ch1 (src + ?l) (dst + ?l) (len - ?l) flags) = max_xfer_size ch"
    "chan_cookie (plx_dma_prog_loop (Suc n) ch1 (src + ?l) (dst + ?l) (len - ?l) flags) = chan_cookie ch"
    using Suc.IH [of ch1 "src + ?l" "dst + ?l" "len - ?l"] p(1) f Suc.prems(2,3)
    by (simp_all add: ps_def del: dma_pieces.simps plx_dma_prog_loop.simps)
  have "logged (L @ map (\<lambda>p. (p, None)) (butlast ((src, dst, ?l) # ps)))
      (plx_dma_prog_loop (Suc n) ch1 (src + ?l) (dst + ?l) (len - ?l) flags)" if "logged L ch" for L
    using IH(2) [OF p(2) [OF that]] ps(2) by (simp del: plx_dma_prog_loop.simps)
  then show ?case
    unfolding e ps(1) using IH ps(2) by (simp del: plx_dma_prog_loop.simps)
qed

lemma head_invalid:
  assumes "dma_inv ch"
  shows "dw0 (desc_ring ch ! unat (head ch)) AND PLX_DESC_VALID = 0"
proof -
  have b: "unat (last_tail ch) < 2048" "unat (head ch) < 2048" using assms by (auto simp: dma_inv_def)
  have "\<not> vld ch (dr.slot (last_tail ch) (dr.dist (last_tail ch) (head ch)))"
    using assms dr.dist_less [of "last_tail ch" "head ch"] unfolding dma_inv_def by blast
  then show ?thesis using dr.slot_dist [OF b] by (simp add: vld_def)
qed

lemma unat_min: "unat (min a b) = min (unat a) (unat b)"
  by (auto simp: min_def word_le_nat_alt)

lemma pieces_encodable:
  assumes "unat src + unat len < 2 ^ 48" "unat dst + unat len < 2 ^ 48" "mx < 2 ^ 27"
  shows "\<forall>p \<in> set (dma_pieces k mx src dst len). encodable p"
  using assms
proof (induction k arbitrary: src dst len)
  case (Suc k)
  let ?l = "min len mx"
  have l: "unat ?l \<le> unat len" "?l \<le> len" by (simp_all add: unat_min)
  have s: "unat (src + ?l) = unat src + unat ?l" "unat (dst + ?l) = unat dst + unat ?l"
    using Suc.prems l by (simp_all add: unat_word_ariths)
  have d: "unat (len - ?l) = unat len - unat ?l" by (rule unat_sub [OF l(2)])
  have "?l < 2 ^ 27" using Suc.prems(3) by (auto simp: min_def)
  moreover have "src < 2 ^ 48" "dst < 2 ^ 48" using Suc.prems(1,2) by (simp_all add: word_less_nat_alt)
  ultimately have "encodable (src, dst, ?l)" by (simp add: encodable_def)
  then show ?case using Suc.IH [of "src + ?l" "len - ?l" "dst + ?l"] s d l Suc.prems by simp
qed simp

lemma num_desc_pos:
  assumes "0 < max_xfer_size ch" "unat len + unat (max_xfer_size ch) < 2 ^ 64"
  shows "0 < dma_num_desc ch len" "unat len \<le> dma_num_desc ch len * unat (max_xfer_size ch)"
proof -
  let ?m = "max_xfer_size ch"
  have m: "0 < unat ?m" using assms(1) by (simp add: word_less_nat_alt)
  have s: "unat (len + ?m) = unat len + unat ?m" using assms(2) by (simp add: unat_word_ariths)
  then have "len + ?m \<noteq> 0" using m by (metis add_is_0 less_numeral_extra(3) unat_0)
  then have n: "unat ((len + ?m - 1) div ?m) = (unat len + unat ?m - 1) div unat ?m"
    by (simp add: unat_div unat_pred s)
  have "(unat len + unat ?m - 1) div unat ?m * unat ?m + (unat len + unat ?m - 1) mod unat ?m = unat len + unat ?m - 1"
    by simp
  moreover have "(unat len + unat ?m - 1) mod unat ?m < unat ?m" using m by simp
  ultimately have le: "unat len \<le> (unat len + unat ?m - 1) div unat ?m * unat ?m" using m by linarith
  then show "unat len \<le> dma_num_desc ch len * unat ?m" by (simp add: dma_num_desc_def n)
  show "0 < dma_num_desc ch len"
    using le by (cases "unat len = 0") (auto simp: dma_num_desc_def n unat_eq_zero intro: Nat.gr0I)
qed

text \<open>What a client may ask for: flags are set, and both ranges lie in the 48-bit address space.\<close>

definition dma_request_ok :: "u64 \<Rightarrow> u64 \<Rightarrow> u64 \<Rightarrow> u64 \<Rightarrow> bool" where
  "dma_request_ok src dst len flags \<longleftrightarrow>
     flags \<noteq> 0 \<and> unat src + unat len < 2 ^ 48 \<and> unat dst + unat len < 2 ^ 48"

lemma avail_inv:
  assumes "switch_wb wb" "dma_inv ch"
  shows "\<exists>r ch'. plx_dma_avail_desc_ring_space wb ch (int n) = Some (r, ch') \<and> keeps ch ch' \<and>
    (\<forall>c. r = Inr c \<longrightarrow> int n \<le> c \<and> c = 2047 - int (dr.dist (last_tail ch') (head ch')))"
proof -
  have rc: "plx_dma_ring_count (head c) (last_tail c) = 2047 - int (dr.dist (last_tail c) (head c))" if "dma_inv c" for c
    using ring_count_dist that by (simp add: dma_inv_def)
  have inv1: "dma_inv (plx_dma_issue_pending ch)" using assms(2) by simp
  obtain ch' where c: "plx_dma_cleanup wb (plx_dma_issue_pending ch) = Some ch'" "keeps (plx_dma_issue_pending ch) ch'"
    using cleanup_inv [OF assms(1) inv1] by blast
  then have k: "keeps ch ch'"
    unfolding keeps_def by (simp add: plx_dma_issue_pending_def plx_dma_ch_reg_write_def plx_dma_reg_write_def)
  then have "dma_inv ch'" by (simp add: keeps_def)
  then show ?thesis
    using c(1) k rc [OF assms(2)] rc [of ch'] keeps_refl [OF assms(2)]
    by (simp add: plx_dma_avail_desc_ring_space_def Let_def)
qed

lemma prep_inv:
  assumes wb: "switch_wb wb" and inv: "dma_inv ch" and ok: "dma_request_ok src dst len flags"
  defines "ps \<equiv> dma_pieces (dma_num_desc ch len) (max_xfer_size ch) src dst len"
  shows "\<exists>r ch'. plx_dma_prep_memcpy_lock wb ch dst src len flags = Some (r, ch') \<and>
    dma_inv ch' \<and> max_xfer_size ch' = max_xfer_size ch \<and> chan_cookie ch' = chan_cookie ch \<and>
    (case r of None \<Rightarrow> keeps ch ch'
     | Some i \<Rightarrow> i = unat (head ch') \<and> ps \<noteq> [] \<and> decode_desc (desc_ring ch' ! i) = last ps \<and>
         tx_flags (tx_array ch' ! i) \<noteq> 0 \<and> dr.dist (last_tail ch') (head ch') + 1 < 2048 \<and>
         (\<forall>L. logged L ch \<longrightarrow> logged (L @ map (\<lambda>p. (p, None)) (butlast ps)) ch'))"
proof -
  let ?n = "dma_num_desc ch len"
  have mx: "0 < max_xfer_size ch" "max_xfer_size ch < 2 ^ 27" using inv by (auto simp: dma_inv_def)
  have fl: "flags \<noteq> 0" and rng: "unat src + unat len < 2 ^ 48" "unat dst + unat len < 2 ^ 48"
    using ok by (auto simp: dma_request_ok_def)
  have "unat (max_xfer_size ch) < 2 ^ 27" using mx(2) by (simp add: word_less_nat_alt)
  then have n0: "0 < ?n" using num_desc_pos(1) [OF mx(1), of len] rng by simp
  then obtain n where n: "?n = Suc n" by (cases ?n) auto
  obtain r ch1 where a: "plx_dma_avail_desc_ring_space wb ch (int ?n) = Some (r, ch1)" and k: "keeps ch ch1"
    and c: "\<And>c. r = Inr c \<Longrightarrow> int ?n \<le> c \<and> c = 2047 - int (dr.dist (last_tail ch1) (head ch1))"
    using avail_inv [OF wb inv, of ?n] by blast
  have inv1: "dma_inv ch1" and m1: "max_xfer_size ch1 = max_xfer_size ch" "chan_cookie ch1 = chan_cookie ch"
    and lg1: "\<And>L. logged L ch \<Longrightarrow> logged L ch1" using k by (auto simp: keeps_def)
  show ?thesis
  proof (cases r)
    case (Inl e)
    then show ?thesis
      using a k inv1 m1 by (simp add: plx_dma_prep_memcpy_lock_def plx_dma_prog_memcpy_desc_def Let_def)
  next
    case (Inr c')
    let ?ch2 = "plx_dma_prog_loop (Suc n) ch1 src dst len flags"
    have room: "dr.dist (last_tail ch1) (head ch1) + Suc n < 2048" "\<not> c' \<le> 0" using c [OF Inr] n by auto
    have p: "dma_inv ?ch2" "\<And>L. logged L ch1 \<Longrightarrow> logged (L @ map (\<lambda>p. (p, None)) (butlast ps)) ?ch2"
      "decode_desc (desc_ring ?ch2 ! unat (head ?ch2)) = last ps"
      "dr.dist (last_tail ?ch2) (head ?ch2) + 1 < 2048" "max_xfer_size ?ch2 = max_xfer_size ch"
      "chan_cookie ?ch2 = chan_cookie ch"
      using prog_loop_inv [OF inv1 room(1) fl, of src dst len] pieces_encodable [OF rng mx(2)] m1
      by (simp_all add: ps_def n del: dma_pieces.simps plx_dma_prog_loop.simps)
    let ?i = "unat (head ?ch2)"
    let ?tx = "(tx_array ?ch2 ! ?i)\<lparr>tx_flags := flags\<rparr>"
    define ch3 where "ch3 = ?ch2\<lparr>tx_array := (tx_array ?ch2)[?i := ?tx]\<rparr>"
    have e: "ch3 = ?ch2\<lparr>desc_ring := (desc_ring ?ch2)[?i := desc_ring ?ch2 ! ?i], tx_array := (tx_array ?ch2)[?i := ?tx]\<rparr>"
      by (cases ?ch2) (simp add: ch3_def del: plx_dma_prog_loop.simps)
    have i3: "dma_inv ch3" "\<And>L. logged L ?ch2 \<Longrightarrow> logged L ch3"
      using head_write_inv [OF p(1) dr.dist_less head_invalid [OF p(1)] _ e] head_slot_free(1) [OF p(1)] by simp_all
    have "length (tx_array ?ch2) = 2048" using p(1) by (simp add: dma_inv_def)
    then have f3: "tx_flags (tx_array ch3 ! ?i) = flags" "head ch3 = head ?ch2" "desc_ring ch3 = desc_ring ?ch2"
      "last_tail ch3 = last_tail ?ch2" "max_xfer_size ch3 = max_xfer_size ch" "chan_cookie ch3 = chan_cookie ch"
      using head_slot_free(2) [OF p(1)] p(5,6) by (simp_all add: ch3_def del: plx_dma_prog_loop.simps)
    have "plx_dma_prep_memcpy_lock wb ch dst src len flags = Some (Some ?i, ch3)"
      using a Inr room(2) fl n
      by (simp add: plx_dma_prep_memcpy_lock_def plx_dma_prog_memcpy_desc_def Let_def allocate_tx_def ch3_def
          del: plx_dma_prog_loop.simps)
    moreover have "ps \<noteq> []" by (simp add: ps_def n)
    ultimately show ?thesis
      using i3 f3 p fl lg1 by (simp del: plx_dma_prog_loop.simps)
  qed
qed

section \<open>Runs\<close>

lemma cookie_succ_pos: "1 \<le> cookie_succ c"
  by (simp add: cookie_succ_def Let_def DMA_MIN_COOKIE_def)

lemma submit_inv:
  fixes cb :: "nat option"
  assumes inv: "dma_inv ch" and i: "i = unat (head ch)" and fl: "tx_flags (tx_array ch ! i) \<noteq> 0"
    and room: "dr.dist (last_tail ch) (head ch) + 1 < 2048"
  defines "ch1 \<equiv> ch\<lparr>tx_array := (tx_array ch)[i := (tx_array ch ! i)\<lparr>tx_callback := cb\<rparr>]\<rparr>"
  shows "\<exists>c ch'. plx_dma_tx_submit_unlock ch1 i = (c, ch') \<and> dma_inv ch' \<and> max_xfer_size ch' = max_xfer_size ch \<and>
    (\<forall>L. logged L ch \<longrightarrow> logged (L @ [(decode_desc (desc_ring ch ! i), Some (c, cb))]) ch')"
proof -
  have len: "length (tx_array ch) = 2048" "i < 2048"
    using inv head_slot_free(2) [OF inv] i by (auto simp: dma_inv_def)
  let ?c = "cookie_succ (chan_cookie ch)" and ?d = "desc_ring ch ! i"
  let ?tx = "(tx_array ch ! i)\<lparr>tx_callback := cb, tx_cookie := ?c, tx_flags := 0\<rparr>"
  let ?ch = "ch\<lparr>desc_ring := (desc_ring ch)[unat (head ch) := plx_dma_valid_desc ?d],
      tx_array := (tx_array ch)[unat (head ch) := ?tx], head := plx_dma_ring_inc (head ch), chan_cookie := ?c\<rparr>"
  have e: "plx_dma_tx_submit_unlock ch1 i = (?c, ?ch)"
    using fl len i
    by (simp add: plx_dma_tx_submit_unlock_def ch1_def Let_def plx_dma_inc_head_def)
  have c: "0 \<le> tx_cookie ?tx" "tag ?tx = Some (?c, cb)" using cookie_succ_pos [of "chan_cookie ch"] by (auto simp: tag_def)
  note p = push_inv [OF inv room valid_valid(1) [of ?d] c(1), where ch' = ?ch and c = ?c, OF refl]
  show ?thesis unfolding e using p c(2) by auto
qed

text \<open>
  A run of the system: a client prepares a transfer (taking the lock), submits it with a callback
  (releasing the lock), and at any moment the engine proceeds, pending descriptors are issued, the
  completion processing runs or the interrupt thread runs. A \<open>Prep\<close> while another transfer is
  prepared waits for the lock and is left out. A job is the pieces, the cookie and the callback of a
  submitted transfer. The functions say how far the engine gets at each register read.
\<close>

type_synonym job = "piece list \<times> int \<times> nat option"
type_synonym engine = "u32 \<Rightarrow> nat \<times> (u32 \<Rightarrow> u32)"

datatype dma_op =
    Prep u64 u64 u64 u64 engine | Submit "nat option" | Engine nat "u32 \<Rightarrow> u32" | Issue
  | Poll engine | Irq engine engine

type_synonym dma_state = "plx_dma_chan \<times> (nat \<times> piece list) option \<times> job list"

definition wb_of :: "engine \<Rightarrow> u32 \<Rightarrow> plx_dma_chan \<Rightarrow> plx_dma_chan" where
  "wb_of f t ch = ((hw_step ^^ fst (f t)) ch)\<lparr>regs := snd (f t)\<rparr>"

fun dma_exec :: "dma_state \<Rightarrow> dma_op \<Rightarrow> dma_state option" where
  "dma_exec (ch, pend, jobs) (Prep src dst len flags f) =
     (if pend \<noteq> None then Some (ch, pend, jobs)
      else case plx_dma_prep_memcpy_lock (wb_of f) ch dst src len flags of
        None \<Rightarrow> None
      | Some (None, ch') \<Rightarrow> Some (ch', None, jobs)
      | Some (Some i, ch') \<Rightarrow>
          Some (ch', Some (i, dma_pieces (dma_num_desc ch len) (max_xfer_size ch) src dst len), jobs))"
| "dma_exec (ch, pend, jobs) (Submit cb) =
     (case pend of
        None \<Rightarrow> Some (ch, pend, jobs)
      | Some (i, ps) \<Rightarrow>
          let ch1 = ch\<lparr>tx_array := (tx_array ch)[i := (tx_array ch ! i)\<lparr>tx_callback := cb\<rparr>]\<rparr>;
              (cookie, ch2) = plx_dma_tx_submit_unlock ch1 i
          in Some (ch2, None, jobs @ [(ps, cookie, cb)]))"
| "dma_exec (ch, pend, jobs) (Engine k r) = Some (((hw_step ^^ k) ch)\<lparr>regs := r\<rparr>, pend, jobs)"
| "dma_exec (ch, pend, jobs) Issue = Some (plx_dma_issue_pending ch, pend, jobs)"
| "dma_exec (ch, pend, jobs) (Poll f) =
     map_option (\<lambda>ch. (ch, pend, jobs)) (plx_dma_cleanup (wb_of f) ch)"
| "dma_exec (ch, pend, jobs) (Irq f g) =
     map_option (\<lambda>ch. (ch, pend, jobs)) (plx_dma_thread_fn (wb_of f) (wb_of g) ch)"

fun dma_run :: "dma_state \<Rightarrow> dma_op list \<Rightarrow> dma_state option" where
  "dma_run s [] = Some s"
| "dma_run s (x # xs) = (case dma_exec s x of None \<Rightarrow> None | Some s' \<Rightarrow> dma_run s' xs)"

fun op_ok :: "dma_op \<Rightarrow> bool" where
  "op_ok (Prep src dst len flags f) = dma_request_ok src dst len flags"
| "op_ok _ = True"

definition job_entries :: "job \<Rightarrow> entry list" where
  "job_entries j = (case j of (ps, c, cb) \<Rightarrow> map (\<lambda>p. (p, None)) (butlast ps) @ [(last ps, Some (c, cb))])"

definition pend_entries :: "(nat \<times> piece list) option \<Rightarrow> entry list" where
  "pend_entries pend = (case pend of None \<Rightarrow> [] | Some (i, ps) \<Rightarrow> map (\<lambda>p. (p, None)) (butlast ps))"

definition run_inv :: "dma_state \<Rightarrow> bool" where
  "run_inv = (\<lambda>(ch, pend, jobs). dma_inv ch \<and>
     logged (concat (map job_entries jobs) @ pend_entries pend) ch \<and> (\<forall>j \<in> set jobs. fst j \<noteq> []) \<and>
     (case pend of None \<Rightarrow> True
      | Some (i, ps) \<Rightarrow> i = unat (head ch) \<and> ps \<noteq> [] \<and> decode_desc (desc_ring ch ! i) = last ps \<and>
          tx_flags (tx_array ch ! i) \<noteq> 0 \<and> dr.dist (last_tail ch) (head ch) + 1 < 2048))"

lemma run_inv_keeps: "run_inv (ch, pend, jobs) \<Longrightarrow> keeps ch ch' \<Longrightarrow> run_inv (ch', pend, jobs)"
  by (auto simp: run_inv_def keeps_def split: option.splits)

lemma wb_of_switch: "switch_wb (wb_of f)"
  unfolding switch_wb_def wb_of_def by blast

lemma keeps_regs: "dma_inv ch \<Longrightarrow> keeps ch (ch\<lparr>regs := r\<rparr>)"
  by (simp add: keeps_def)

lemma irq_keeps:
  assumes "dma_inv ch"
  shows "\<exists>ch'. plx_dma_thread_fn (wb_of f) (wb_of g) ch = Some ch' \<and> keeps ch ch'"
proof (cases "dma_hang ch")
  case True
  then show ?thesis using keeps_refl [OF assms] by (simp add: plx_dma_thread_fn_def)
next
  case False
  obtain ch1 where c1: "plx_dma_cleanup (wb_of f) ch = Some ch1" "keeps ch ch1"
    using cleanup_inv [OF wb_of_switch assms] by blast
  define reg where "reg = fst (plx_dma_ack_interrupt ch1)"
  define ch2 where "ch2 = snd (plx_dma_ack_interrupt ch1)"
  have "\<exists>r. ch2 = ch1\<lparr>regs := r\<rparr>"
    by (auto simp: ch2_def plx_dma_ack_interrupt_def Let_def plx_dma_ch_reg_write_def plx_dma_reg_write_def)
  then have k2: "keeps ch ch2" using keeps_trans [OF c1(2)] keeps_regs c1(2) by (auto simp: keeps_def)
  let ?ch3 = "if dbg_flush ch2 then ch2\<lparr>dbg_flush := False\<rparr> else ch2"
  have flag: "keeps ch (ch2\<lparr>dma_hang := x\<rparr>)" "keeps ch (ch2\<lparr>dbg_flush := x\<rparr>)" for x
    using k2 by (simp_all add: keeps_def)
  then have k3: "keeps ch ?ch3" using k2 by simp
  then have "dma_inv ?ch3" unfolding keeps_def by blast
  then obtain ch4 where c4: "plx_dma_cleanup (wb_of g) ?ch3 = Some ch4" "keeps ?ch3 ch4"
    using cleanup_inv [OF wb_of_switch] by blast
  have "plx_dma_thread_fn (wb_of f) (wb_of g) ch =
      (if reg AND PLX_DMA_ERROR_STATUS \<noteq> 0 then Some (ch2\<lparr>dma_hang := True\<rparr>)
       else if reg AND PLX_DMA_DESC_DONE_INTR_STATUS \<noteq> 0 then plx_dma_cleanup (wb_of g) ?ch3 else Some ?ch3)"
    using False c1(1) by (simp add: plx_dma_thread_fn_def reg_def ch2_def Let_def split: prod.split)
  then show ?thesis using flag(1) k3 c4 keeps_trans [OF k3 c4(2)] by auto
qed

lemma exec_inv:
  assumes inv: "run_inv s" and ok: "op_ok x"
  shows "\<exists>s'. dma_exec s x = Some s' \<and> run_inv s'"
proof -
  obtain ch pend jobs where s: "s = (ch, pend, jobs)" by (cases s)
  have di: "dma_inv ch" and lg: "logged (concat (map job_entries jobs) @ pend_entries pend) ch"
    using inv by (auto simp: s run_inv_def)
  note rk = run_inv_keeps [OF inv [unfolded s]]
  show ?thesis
  proof (cases x)
    case (Prep src dst len flags f)
    show ?thesis
    proof (cases pend)
      case None
      obtain r ch' where r: "plx_dma_prep_memcpy_lock (wb_of f) ch dst src len flags = Some (r, ch')"
        "dma_inv ch'" "case r of None \<Rightarrow> keeps ch ch'
         | Some i \<Rightarrow> i = unat (head ch') \<and> dma_pieces (dma_num_desc ch len) (max_xfer_size ch) src dst len \<noteq> [] \<and>
             decode_desc (desc_ring ch' ! i) = last (dma_pieces (dma_num_desc ch len) (max_xfer_size ch) src dst len) \<and>
             tx_flags (tx_array ch' ! i) \<noteq> 0 \<and> dr.dist (last_tail ch') (head ch') + 1 < 2048 \<and>
             (\<forall>L. logged L ch \<longrightarrow> logged (L @ map (\<lambda>p. (p, None))
               (butlast (dma_pieces (dma_num_desc ch len) (max_xfer_size ch) src dst len))) ch')"
        using prep_inv [OF wb_of_switch di, of src dst len flags f] ok Prep by auto
      show ?thesis
      proof (cases r)
        case r0: None
        then show ?thesis using Prep None r rk by (simp add: s)
      next
        case (Some i)
        then show ?thesis
          using Prep None r inv lg by (auto simp: s run_inv_def pend_entries_def)
      qed
    qed (use Prep inv s in auto)
  next
    case (Submit cb)
    show ?thesis
    proof (cases pend)
      case None
      then show ?thesis using Submit inv by (simp add: s)
    next
      case (Some a)
      obtain i ps where a: "a = (i, ps)" by (cases a)
      have p: "i = unat (head ch)" "ps \<noteq> []" "decode_desc (desc_ring ch ! i) = last ps"
        "tx_flags (tx_array ch ! i) \<noteq> 0" "dr.dist (last_tail ch) (head ch) + 1 < 2048"
        using inv by (auto simp: s Some a run_inv_def)
      obtain c ch' where c: "plx_dma_tx_submit_unlock
          (ch\<lparr>tx_array := (tx_array ch)[i := (tx_array ch ! i)\<lparr>tx_callback := cb\<rparr>]\<rparr>) i = (c, ch')"
        "dma_inv ch'" "\<And>L. logged L ch \<Longrightarrow> logged (L @ [(last ps, Some (c, cb))]) ch'"
        using submit_inv [OF di p(1,4,5), of cb] p(3) by auto
      have "logged (concat (map job_entries (jobs @ [(ps, c, cb)])) @ pend_entries None) ch'"
        using c(3) [OF lg] by (simp add: Some a job_entries_def pend_entries_def)
      then show ?thesis using Submit Some a c(1,2) p(2) inv by (simp add: s run_inv_def)
    qed
  next
    case (Engine k r)
    have "keeps ch (((hw_step ^^ k) ch)\<lparr>regs := r\<rparr>)"
      using hw_steps_inv [OF di, of k _ "unat (head ch)"] by (simp add: keeps_def)
    then show ?thesis using Engine rk by (simp add: s)
  next
    case Issue
    have "keeps ch (plx_dma_issue_pending ch)"
      using keeps_regs [OF di] by (simp add: plx_dma_issue_pending_def plx_dma_ch_reg_write_def plx_dma_reg_write_def)
    then show ?thesis using Issue rk by (simp add: s)
  next
    case (Poll f)
    then show ?thesis using cleanup_inv [OF wb_of_switch di, of f] rk by (auto simp: s)
  next
    case (Irq f g)
    then show ?thesis using irq_keeps [OF di, of f g] rk by (auto simp: s)
  qed
qed

lemma run_inv_run: "run_inv s \<Longrightarrow> \<forall>x \<in> set xs. op_ok x \<Longrightarrow> \<exists>s'. dma_run s xs = Some s' \<and> run_inv s'"
proof (induction xs arbitrary: s)
  case (Cons x xs)
  then show ?case using exec_inv [of s x] by fastforce
qed simp

lemma cbs_job [simp]: "cbs (job_entries (ps, c, cb)) = (case cb of None \<Rightarrow> [] | Some f \<Rightarrow> [f])"
proof -
  have "cbs (map (\<lambda>p. (p, None)) xs) = []" for xs by (induction xs) (simp_all add: cbs_def)
  then show ?thesis by (simp add: job_entries_def) (simp add: cbs_def split: option.splits)
qed

lemma fst_job: "fst j \<noteq> [] \<Longrightarrow> map fst (job_entries j) = fst j"
  by (cases j) (simp add: job_entries_def comp_def)

definition job_cbs :: "job list \<Rightarrow> nat list" where
  "job_cbs jobs = concat (map (\<lambda>(ps, c, cb). case cb of None \<Rightarrow> [] | Some f \<Rightarrow> [f]) jobs)"

lemma cbs_jobs: "cbs (concat (map job_entries jobs)) = job_cbs jobs"
  by (induction jobs) (auto simp: job_cbs_def, simp add: cbs_def)

text \<open>A part of the log holds the callbacks of the jobs that lie in it completely.\<close>

lemma cbs_untagged: "\<forall>e \<in> set es. snd e = None \<Longrightarrow> cbs es = []"
  by (induction es) (simp_all add: cbs_def)

lemma log_prefix:
  assumes "concat (map job_entries jobs) @ xs = past @ rest" "\<forall>e \<in> set xs. snd e = None"
  shows "\<exists>k \<le> length jobs. cbs past = job_cbs (take k jobs) \<and>
    (\<exists>more. past = concat (map job_entries (take k jobs)) @ more)"
  using assms
proof (induction jobs arbitrary: past)
  case Nil
  then have "\<forall>e \<in> set past. snd e = None" by auto
  then show ?case by (simp add: cbs_untagged job_cbs_def)
next
  case (Cons j jobs)
  obtain ps c cb where j: "j = (ps, c, cb)" by (cases j)
  show ?case
  proof (cases "length (job_entries j) \<le> length past")
    case True
    then obtain past' where p: "past = job_entries j @ past'"
      using Cons.prems(1) by (auto simp: append_eq_append_conv_if)
        (metis append_take_drop_id)
    then have "concat (map job_entries jobs) @ xs = past' @ rest" using Cons.prems(1) by simp
    from Cons.IH [OF this Cons.prems(2)] obtain k more where
      k: "k \<le> length jobs" "cbs past' = job_cbs (take k jobs)" "past' = concat (map job_entries (take k jobs)) @ more"
      by blast
    have "cbs past = job_cbs (take (Suc k) (j # jobs))"
      using p k(2) by (simp add: j job_cbs_def)
    moreover have "past = concat (map job_entries (take (Suc k) (j # jobs))) @ more" using p k(3) by simp
    ultimately show ?thesis using k(1) by (intro exI [of _ "Suc k"]) auto
  next
    case False
    have len: "length (job_entries j) = Suc (length (butlast ps))" by (simp add: j job_entries_def)
    have "past = take (length past) (concat (map job_entries (j # jobs)) @ xs)" using Cons.prems(1) by simp
    also have "\<dots> = take (length past) (map (\<lambda>p. (p, None)) (butlast ps))"
      using False len by (simp add: j job_entries_def)
    finally have "\<forall>e \<in> set past. snd e = None" by (metis (no_types, lifting) in_set_takeD list.set_map imageE snd_conv)
    then show ?thesis by (intro exI [of _ 0]) (simp add: cbs_untagged job_cbs_def)
  qed
qed

section \<open>Channel set-up\<close>

text \<open>All steps of the set-up but one leave the following fields alone.\<close>

definition same_ring :: "plx_dma_chan \<Rightarrow> plx_dma_chan \<Rightarrow> bool" where
  "same_ring ch ch' \<longleftrightarrow> desc_ring ch' = desc_ring ch \<and> tx_array ch' = tx_array ch \<and> hw_next ch' = hw_next ch \<and>
     max_xfer_size ch' = max_xfer_size ch \<and> called ch' = called ch \<and> copied ch' = copied ch \<and>
     last_tail ch' = last_tail ch \<and> head ch' = head ch"

lemma same_ring_refl: "same_ring ch ch"
  by (simp add: same_ring_def)

lemma same_ring_write: "same_ring ch0 ch \<Longrightarrow> same_ring ch0 (plx_dma_reg_write a v ch)"
  by (simp add: same_ring_def plx_dma_reg_write_def)

lemma same_ring_ch_write: "same_ring ch0 ch \<Longrightarrow> same_ring ch0 (plx_dma_ch_reg_write a v ch)"
  by (simp add: plx_dma_ch_reg_write_def same_ring_write)

lemma same_ring_set_desc_ring: "same_ring ch0 ch \<Longrightarrow> same_ring ch0 (plx_dma_chan_set_desc_ring ch)"
  unfolding plx_dma_chan_set_desc_ring_def plx_dma_chan_clear_desc_ring_def Let_def fold_simps comp_def id_def
  by (intro same_ring_ch_write)

lemma same_ring_enable: "same_ring ch0 ch \<Longrightarrow> same_ring ch0 (plx_dma_enable_chan ch)"
  unfolding plx_dma_enable_chan_def Let_def
  by (intro same_ring_ch_write) (simp add: same_ring_def)

lemma same_ring_setup:
  "same_ring (ch\<lparr>last_tail := 0, head := 0\<rparr>) (plx_dma_chan_setup ch)"
proof -
  let ?c = "plx_dma_chan_set_desc_ring (plx_dma_reg_write PCI_DEV_CTL2_REG PCI_DEV_CTL2_CPL_TO_DIS ch)"
  have "same_ring ch ?c" by (intro same_ring_set_desc_ring same_ring_write same_ring_refl)
  then have "same_ring (ch\<lparr>last_tail := 0, head := 0\<rparr>) (?c\<lparr>last_tail := 0, head := 0\<rparr>)"
    by (simp add: same_ring_def)
  then show ?thesis
    unfolding plx_dma_chan_setup_def plx_dma_chan_unmask_intr_def
    by (intro same_ring_enable same_ring_ch_write)
qed

lemma same_ring_fold_write:
  "same_ring ch0 ch \<Longrightarrow> same_ring ch0 (fold (\<lambda>(r, v). plx_dma_reg_write r v) ws ch)"
  by (induction ws arbitrary: ch) (auto intro: same_ring_write)

text \<open>The documented behaviour of the PCI reset: it changes the registers of the device only.\<close>

definition resets_registers :: "(plx_dma_chan \<Rightarrow> plx_dma_chan) \<Rightarrow> bool" where
  "resets_registers rst \<longleftrightarrow> (\<forall>c. \<exists>r. rst c = c\<lparr>regs := r\<rparr>)"

definition fresh_chan :: "plx_dma_chan \<Rightarrow> bool" where
  "fresh_chan ch \<longleftrightarrow> max_xfer_size ch = PLX_DESC_SIZE_MASK \<and> hw_next ch = 0 \<and> called ch = [] \<and> copied ch = []"

lemma empty_ring_inv:
  assumes "desc_ring ch = replicate 2048 zero_desc" "tx_array ch = replicate 2048 zero_tx"
    "last_tail ch = 0" "head ch = 0" "hw_next ch = 0" "max_xfer_size ch = PLX_DESC_SIZE_MASK"
  shows "dma_inv ch"
proof -
  have "dr.slot 0 k < 2048" for k by (simp add: dr.slot_def)
  then show ?thesis
    using assms by (simp add: dma_inv_def vld_def zero_desc_def zero_tx_def PLX_DESC_SIZE_MASK_def)
qed

lemma init_inv:
  assumes i: "plx_dma_chan_init rst coherent vz ch0 = (Inr (), ch)" and "resets_registers rst" "fresh_chan ch0"
  shows "dma_inv ch \<and> last_tail ch = head ch \<and> hw_next ch = head ch \<and> called ch = [] \<and> copied ch = []"
proof -
  define ch1 where "ch1 = (if plx_dma_reg_read ch0 PLX_DMA_CAPABILITY_REG AND PLX_DMA_FUNCTIONAL_RESET_BIT \<noteq> 0
                 then pci_reset_keep_registers rst ch0 else ch0)"
  have f: "fresh_chan ch1"
  proof -
    obtain r where "rst ch0 = ch0\<lparr>regs := r\<rparr>" using assms(2) unfolding resets_registers_def by blast
    then have "same_ring ch0 ch1"
      unfolding ch1_def pci_reset_keep_registers_def Let_def
      by (auto intro!: same_ring_fold_write simp: same_ring_refl) (simp_all add: same_ring_def)
    then show ?thesis using assms(3) by (simp add: same_ring_def fresh_chan_def)
  qed
  obtain ch2 where a: "plx_dma_alloc_desc_ring coherent vz ch1 = Inr ch2" and ch: "ch = plx_dma_chan_setup ch2"
    using i unfolding plx_dma_chan_init_def Let_def ch1_def [symmetric] by (auto split: sum.splits)
  have "desc_ring ch2 = replicate 2048 zero_desc \<and> tx_array ch2 = replicate 2048 zero_tx \<and>
      fresh_chan ch2"
    using a f by (auto simp: plx_dma_alloc_desc_ring_def fresh_chan_def PLX_DMA_DESC_RX_SIZE_def
        split: option.splits if_splits)
  then show ?thesis using empty_ring_inv [of ch] same_ring_setup [of ch2]
    by (simp add: ch fresh_chan_def same_ring_def)
qed

lemma init_run:
  assumes "plx_dma_chan_init rst coherent vz ch0 = (Inr (), ch)" "resets_registers rst" "fresh_chan ch0"
    "\<forall>x \<in> set ops. op_ok x"
  shows "\<exists>ch' pend jobs. dma_run (ch, None, []) ops = Some (ch', pend, jobs) \<and> run_inv (ch', pend, jobs)"
proof -
  have i: "dma_inv ch" "last_tail ch = head ch" "hw_next ch = head ch" "called ch = []" "copied ch = []"
    using init_inv [OF assms(1-3)] by auto
  have "logged [] ch" using i by (simp add: logged_def window_def cbs_def)
  then have "run_inv (ch, None, [])" using i(1) by (simp add: run_inv_def pend_entries_def)
  from run_inv_run [OF this assms(4)] show ?thesis by force
qed

abbreviation pend_pieces :: "(nat \<times> piece list) option \<Rightarrow> piece list" where
  "pend_pieces pend \<equiv> (case pend of None \<Rightarrow> [] | Some (i, ps) \<Rightarrow> butlast ps)"

lemma map_fst_jobs:
  "\<forall>j \<in> set js. fst j \<noteq> [] \<Longrightarrow> map fst (concat (map job_entries js)) = concat (map fst js)"
  by (induction js) (simp_all add: fst_job)

lemma run_inv_pieces:
  assumes "run_inv (ch, pend, jobs)"
  shows "map fst (concat (map job_entries jobs) @ pend_entries pend) = concat (map fst jobs) @ pend_pieces pend"
  using assms map_fst_jobs [of jobs]
  by (simp add: run_inv_def pend_entries_def comp_def split: option.splits)

lemma pend_untagged: "\<forall>e \<in> set (pend_entries pend). snd e = None"
  by (auto simp: pend_entries_def split: option.splits)

text \<open>
  C4: From the moment a channel is set up, no sequence of transfers, engine progress, polling and
  interrupts stops the kernel, and completion is sound: the engine copies exactly a prefix of the
  requested pieces in the order of submission, and the callbacks called so far are those of the first
  \<open>k\<close> submitted transfers, each called once and in order, all of whose pieces have been copied by then.
\<close>
theorem dma_completion_sound:
  assumes "plx_dma_chan_init rst coherent vz ch0 = (Inr (), ch)" "resets_registers rst" "fresh_chan ch0"
    and "\<forall>x \<in> set ops. op_ok x"
  shows "\<exists>ch' pend jobs. dma_run (ch, None, []) ops = Some (ch', pend, jobs) \<and>
    (\<exists>k rest n. k \<le> length jobs \<and> called ch' = job_cbs (take k jobs) \<and>
       copied ch' = concat (map fst (take k jobs)) @ rest \<and>
       copied ch' = take n (concat (map fst jobs) @ pend_pieces pend))"
proof -
  obtain ch' pend jobs where
    r: "dma_run (ch, None, []) ops = Some (ch', pend, jobs)" "run_inv (ch', pend, jobs)"
    using init_run [OF assms] by blast
  let ?L = "concat (map job_entries jobs) @ pend_entries pend"
  let ?n = "\<lambda>past :: entry list. length past + dr.dist (last_tail ch') (hw_next ch')"
  have ne: "\<forall>j \<in> set jobs. fst j \<noteq> []" and lg: "logged ?L ch'" using r(2) by (auto simp: run_inv_def)
  then obtain past where past: "?L = past @ window ch'" "called ch' = cbs past"
    "copied ch' = map fst (take (?n past) ?L)"
    unfolding logged_def by blast
  from log_prefix [OF past(1) pend_untagged] obtain k more where
    k: "k \<le> length jobs" "cbs past = job_cbs (take k jobs)" "past = concat (map job_entries (take k jobs)) @ more"
    by blast
  have "map fst past = concat (map fst (take k jobs)) @ map fst more"
    using k(3) map_fst_jobs [of "take k jobs"] ne by (auto dest: in_set_takeD)
  moreover have "\<exists>rest. copied ch' = map fst past @ rest"
    unfolding past(3) past(1) by simp
  ultimately obtain rest where rest: "copied ch' = concat (map fst (take k jobs)) @ rest" by auto
  have "copied ch' = take (?n past) (concat (map fst jobs) @ pend_pieces pend)"
    using past(3) run_inv_pieces [OF r(2)] by (simp only: take_map [symmetric])
  then show ?thesis using r(1) k(1,2) past(2) rest
    by (intro exI [of _ ch'] exI [of _ pend] exI [of _ jobs] conjI exI [of _ k] exI [of _ rest]
        exI [of _ "?n past"]) simp_all
qed

text \<open>A channel as \<open>plx_dma_probe\<close> leaves it, with all registers zero.\<close>

definition probed_chan :: plx_dma_chan where
  "probed_chan = \<lparr>last_tail = 0, head = 0, desc_ring = [], desc_ring_da = 0, ch_base_addr = 0x200,
     ctrl_reg = 0, tx_array = [], dma_hang = False, dbg_flush = False, dbg_dma_hold_cnt = 0, chan_cookie = 1,
     completed_cookie = 1, max_xfer_size = PLX_DESC_SIZE_MASK, regs = (\<lambda>_. 0), called = [], hw_next = 0,
     copied = []\<rparr>"

lemma probed_chan_fresh: "fresh_chan probed_chan" "resets_registers (\<lambda>c. c\<lparr>regs := \<lambda>_. 0\<rparr>)"
  by (auto simp: fresh_chan_def probed_chan_def resets_registers_def)

lemma probed_chan_init:
  "plx_dma_chan_init rst (Some da) True probed_chan =
     (Inr (), snd (plx_dma_chan_init rst (Some da) True probed_chan))"
  by (simp add: plx_dma_chan_init_def plx_dma_alloc_desc_ring_def Let_def)

definition two_transfers :: "dma_op list" where
  "two_transfers = [Prep 0x1000 0x2000 0x10000000 1 (\<lambda>_. (1, \<lambda>_. 0)), Submit (Some 7), Engine 2 (\<lambda>_. 0),
     Prep 0x5000 0x6000 64 1 (\<lambda>_. (0, \<lambda>_. 0)), Submit (Some 8), Issue, Poll (\<lambda>_. (1, \<lambda>_. 0))]"

lemma two_transfers_ok: "\<forall>x \<in> set two_transfers. op_ok x"
  by (simp add: two_transfers_def dma_request_ok_def)

theorem dma_completion_sound_witness:
  "\<exists>ch' pend jobs. dma_run (snd (plx_dma_chan_init (\<lambda>c. c\<lparr>regs := \<lambda>_. 0\<rparr>) (Some 0x10000) True probed_chan), None, [])
      two_transfers = Some (ch', pend, jobs) \<and>
    (\<exists>k rest n. k \<le> length jobs \<and> called ch' = job_cbs (take k jobs) \<and>
       copied ch' = concat (map fst (take k jobs)) @ rest \<and>
       copied ch' = take n (concat (map fst jobs) @ pend_pieces pend))"
  by (rule dma_completion_sound [OF probed_chan_init probed_chan_fresh(2,1) two_transfers_ok])

section \<open>Progress\<close>

text \<open>While a descriptor is outstanding, a step of the engine brings it one closer to the head.\<close>

lemma hw_step_progress:
  assumes "dma_inv ch" "hw_next ch \<noteq> head ch"
  shows "dr.dist (hw_next ch) (head ch) = Suc (dr.dist (hw_next (hw_step ch)) (head ch))"
proof -
  let ?t = "last_tail ch" and ?p = "hw_next ch" and ?h = "head ch"
  have b: "unat ?t < 2048" "unat ?p < 2048" "unat ?h < 2048" "dr.dist ?t ?p \<le> dr.dist ?t ?h"
    and v: "\<And>k. k < 2048 \<Longrightarrow> vld ch (dr.slot ?t k) \<longleftrightarrow> dr.dist ?t ?p \<le> k \<and> k < dr.dist ?t ?h"
    using assms(1) by (auto simp: dma_inv_def)
  have s: "dr.slot ?t (dr.dist ?t ?p) = unat ?p" "dr.slot ?t (dr.dist ?t ?h) = unat ?h"
    using dr.slot_dist b by auto
  have "dr.dist ?t ?p \<noteq> dr.dist ?t ?h" using s assms(2) unat_inj by metis
  then have "vld ch (unat ?p)" using v [of "dr.dist ?t ?p"] b(4) dr.dist_less [of ?t ?p] s(1) by simp
  then have "hw_next (hw_step ch) = plx_dma_ring_inc ?p"
    by (simp add: hw_step_def desc_valid_def vld_def Let_def)
  then show ?thesis using dr.dist_inc_tail [OF b(2,3) assms(2)] by simp
qed

lemma hw_step_idle:
  assumes "dma_inv ch" "hw_next ch = head ch"
  shows "hw_step ch = ch"
proof -
  let ?t = "last_tail ch" and ?h = "head ch"
  have b: "unat ?t < 2048" "unat ?h < 2048"
    and v: "\<And>k. k < 2048 \<Longrightarrow> vld ch (dr.slot ?t k) \<longleftrightarrow> dr.dist ?t (hw_next ch) \<le> k \<and> k < dr.dist ?t ?h"
    using assms(1) by (auto simp: dma_inv_def)
  have "\<not> vld ch (unat ?h)" using v [of "dr.dist ?t ?h"] dr.dist_less [of ?t ?h] dr.slot_dist [OF b] by simp
  then show ?thesis using assms(2) by (simp add: hw_step_def desc_valid_def vld_def)
qed

lemma hw_steps_reach:
  assumes "dma_inv ch" "dr.dist (hw_next ch) (head ch) \<le> k"
  shows "hw_next ((hw_step ^^ k) ch) = head ch"
  using assms
proof (induction k arbitrary: ch)
  case 0
  then show ?case using dr.dist_0 [of "hw_next ch" "head ch"] by (auto simp: dma_inv_def)
next
  case (Suc k)
  show ?case
  proof (cases "hw_next ch = head ch")
    case True
    have "(hw_step ^^ n) ch = ch" for n by (induction n) (simp_all add: hw_step_idle [OF Suc.prems(1) True])
    from this [of "Suc k"] show ?thesis using True by (simp only:)
  next
    case False
    then show ?thesis
      using Suc.IH [OF hw_step_inv(1) [OF Suc.prems(1)]] hw_step_progress [OF Suc.prems(1) False] Suc.prems(2)
      by (simp add: funpow_swap1)
  qed
qed

text \<open>When the engine has reached the head, completion processing leaves nothing in the ring.\<close>

lemma cleanup_drains:
  assumes "dma_inv ch" "hw_next ch = head ch" "logged L ch" "switch_wb wb"
  shows "\<exists>ch'. plx_dma_cleanup wb ch = Some ch' \<and> keeps ch ch' \<and> called ch' = cbs L \<and> copied ch' = map fst L"
proof -
  obtain ch' where c: "plx_dma_cleanup wb ch = Some ch'" "keeps ch ch'"
    and e: "last_tail ch' = head ch' \<or> desc_valid ch' (last_tail ch')"
    using cleanup_inv [OF assms(4,1)] by blast
  have k: "dma_inv ch'" "logged L ch'" "length (copied ch) \<le> length (copied ch')" "head ch' = head ch"
    using c(2) assms(3) by (auto simp: keeps_def)
  have full: "length (copied ch) = length L"
    using assms(2,3) unfolding logged_def by (auto simp: window_def)
  obtain past where past: "L = past @ window ch'" "called ch' = cbs past"
    "copied ch' = map fst (take (length past + dr.dist (last_tail ch') (hw_next ch')) L)"
    using k(2) unfolding logged_def by blast
  have "last_tail ch' = head ch'"
  proof (rule ccontr)
    assume ne: "last_tail ch' \<noteq> head ch'"
    then have "vld ch' (unat (last_tail ch'))" using e by (simp add: desc_valid_def vld_def)
    moreover have b: "unat (last_tail ch') < 2048" "unat (head ch') < 2048" using k(1) by (auto simp: dma_inv_def)
    ultimately have "dr.dist (last_tail ch') (hw_next ch') = 0"
      using k(1) dr.slot_0 [OF b(1)] unfolding dma_inv_def by force
    then have "length (copied ch') = length past" using past(1,3) by simp
    moreover have "window ch' \<noteq> []"
      using dr.dist_0 [OF b] ne by (auto simp: window_def simp flip: length_0_conv)
    ultimately show False using full k(3) past(1) by simp
  qed
  then have "window ch' = []" by (simp add: window_def flip: length_0_conv)
  moreover from this past(1,3) full k(3) have "copied ch' = map fst L" by simp
  ultimately show ?thesis using c past by auto
qed

lemma dma_run_append: "dma_run s (xs @ ys) = Option.bind (dma_run s xs) (\<lambda>s'. dma_run s' ys)"
  by (induction xs arbitrary: s) (auto split: option.splits)

text \<open>
  C13: Completion is live: after any run of the channel, once the engine has had time for one round of
  the ring and completion processing runs again, every submitted transfer is copied in full and the
  callbacks called are those of all submitted transfers, once each and in the order of submission.
\<close>
theorem dma_completion_live:
  assumes "plx_dma_chan_init rst coherent vz ch0 = (Inr (), ch)" "resets_registers rst" "fresh_chan ch0"
    and "\<forall>x \<in> set ops. op_ok x"
  shows "\<exists>ch' pend jobs. dma_run (ch, None, []) (ops @ [Engine 2048 r, Poll f]) = Some (ch', pend, jobs) \<and>
    (\<exists>ch1. dma_run (ch, None, []) ops = Some (ch1, pend, jobs)) \<and>
    called ch' = job_cbs jobs \<and> copied ch' = concat (map fst jobs) @ pend_pieces pend"
proof -
  obtain ch1 pend jobs where
    r: "dma_run (ch, None, []) ops = Some (ch1, pend, jobs)" "run_inv (ch1, pend, jobs)"
    using init_run [OF assms] by blast
  let ?L = "concat (map job_entries jobs) @ pend_entries pend"
  let ?e = "((hw_step ^^ 2048) ch1)\<lparr>regs := r\<rparr>"
  have i: "dma_inv ch1" "logged ?L ch1" using r(2) by (auto simp: run_inv_def)
  have "hw_next ((hw_step ^^ 2048) ch1) = head ch1"
    using hw_steps_reach [OF i(1), of 2048] dr.dist_less [of "hw_next ch1" "head ch1"] by linarith
  then have "dma_inv ?e" "logged ?L ?e" "hw_next ?e = head ?e" using hw_steps_inv [OF i(1), of 2048] i(2) by auto
  from cleanup_drains [OF this(1,3,2) wb_of_switch [of f]] obtain ch' where
    c: "plx_dma_cleanup (wb_of f) ?e = Some ch'" "called ch' = cbs ?L" "copied ch' = map fst ?L" by blast
  have "dma_run (ch, None, []) (ops @ [Engine 2048 r, Poll f]) = Some (ch', pend, jobs)"
    using r(1) c(1) by (simp add: dma_run_append del: funpow.simps)
  then show ?thesis
    using r(1) c(2,3) run_inv_pieces [OF r(2)] cbs_untagged [OF pend_untagged] by (auto simp: cbs_jobs)
qed

theorem dma_completion_live_witness:
  "\<exists>ch' pend jobs. dma_run (snd (plx_dma_chan_init (\<lambda>c. c\<lparr>regs := \<lambda>_. 0\<rparr>) (Some 0x10000) True probed_chan), None, [])
      (two_transfers @ [Engine 2048 (\<lambda>_. 0), Poll (\<lambda>_. (0, \<lambda>_. 0))]) = Some (ch', pend, jobs) \<and>
    (\<exists>ch1. dma_run (snd (plx_dma_chan_init (\<lambda>c. c\<lparr>regs := \<lambda>_. 0\<rparr>) (Some 0x10000) True probed_chan), None, [])
      two_transfers = Some (ch1, pend, jobs)) \<and>
    called ch' = job_cbs jobs \<and> copied ch' = concat (map fst jobs) @ pend_pieces pend"
  by (rule dma_completion_live [OF probed_chan_init probed_chan_fresh(2,1) two_transfers_ok])

section \<open>What a transfer asks for\<close>

text \<open>
  The hardware descriptor is a faithful encoding: for 48-bit addresses and a length below
  \<open>2 ^ 27\<close> the source, the destination and the length can be read back from its four words, whatever
  the flags, and making it valid later changes nothing but the valid bit.
\<close>
theorem memcpy_desc_roundtrip:
  assumes "src < 2 ^ 48" "dst < 2 ^ 48" "len < 2 ^ 27"
  shows "decode_desc (plx_dma_memcpy_desc src dst len flags valid) = (src, dst, len) \<and>
    (dw0 (plx_dma_memcpy_desc src dst len flags valid) AND PLX_DESC_VALID \<noteq> 0 \<longleftrightarrow> valid) \<and>
    decode_desc (plx_dma_valid_desc (plx_dma_memcpy_desc src dst len flags valid)) = (src, dst, len) \<and>
    dw0 (plx_dma_valid_desc (plx_dma_memcpy_desc src dst len flags valid)) AND PLX_DESC_VALID \<noteq> 0"
  using decode_memcpy [of src dst len flags valid] assms
  by (simp add: encodable_def valid_memcpy)

theorem memcpy_desc_roundtrip_witness:
  "decode_desc (plx_dma_memcpy_desc 0x123456789abc 0xfedcba987654 0x4000000 1 True) =
     (0x123456789abc, 0xfedcba987654, 0x4000000)"
  using memcpy_desc_roundtrip [of "0x123456789abc" "0xfedcba987654" "0x4000000" 1 True] by simp

fun pieces_chain :: "u64 \<Rightarrow> u64 \<Rightarrow> nat \<Rightarrow> piece list \<Rightarrow> bool" where
  "pieces_chain src dst rest [] \<longleftrightarrow> rest = 0"
| "pieces_chain src dst rest ((s, d, l) # ps) \<longleftrightarrow>
     s = src \<and> d = dst \<and> unat l \<le> rest \<and> pieces_chain (src + l) (dst + l) (rest - unat l) ps"

lemma dma_pieces_chain:
  "unat len \<le> k * unat mx \<Longrightarrow> pieces_chain src dst (unat len) (dma_pieces k mx src dst len)"
proof (induction k arbitrary: src dst len)
  case (Suc k)
  have "unat (len - min len mx) = unat len - unat (min len mx)"
    by (metis min.cobounded1 unat_sub)
  moreover have "unat (min len mx) = min (unat len) (unat mx)" by (simp add: min_def word_le_nat_alt)
  moreover have "unat (len - min len mx) \<le> k * unat mx" using Suc.prems calculation by auto
  ultimately show ?case using Suc.IH [of "len - min len mx"] by simp
qed simp

text \<open>
  A transfer is split without gaps and overlaps: for any length below \<open>2 ^ 48\<close> the number of
  descriptors that is computed for it suffices, the pieces follow each other in the source and in the
  destination, their lengths add up to the length of the transfer, and each fits into a descriptor.
\<close>
theorem dma_pieces_cover:
  assumes "0 < max_xfer_size ch" "max_xfer_size ch < 2 ^ 27" "len < 2 ^ 48"
  shows "pieces_chain src dst (unat len) (dma_pieces (dma_num_desc ch len) (max_xfer_size ch) src dst len) \<and>
    0 < dma_num_desc ch len \<and>
    (\<forall>p \<in> set (dma_pieces (dma_num_desc ch len) (max_xfer_size ch) src dst len). snd (snd p) < 2 ^ 27)"
proof -
  have "unat (max_xfer_size ch) < 2 ^ 27" "unat len < 2 ^ 48" using assms(2,3) by (simp_all add: word_less_nat_alt)
  then have n: "unat len \<le> dma_num_desc ch len * unat (max_xfer_size ch)" "0 < dma_num_desc ch len"
    using num_desc_pos [OF assms(1), of len] by simp_all
  have "\<forall>p \<in> set (dma_pieces k (max_xfer_size ch) a b l). snd (snd p) < 2 ^ 27" for k a b l
    using assms(2) by (induction k arbitrary: a b l) (auto simp: min_def)
  then show ?thesis using dma_pieces_chain [OF n(1)] n(2) by blast
qed

theorem dma_pieces_cover_witness:
  "pieces_chain 0x1000 0x2000 0x10000001
     (dma_pieces (dma_num_desc probed_chan 0x10000001) (max_xfer_size probed_chan) 0x1000 0x2000 0x10000001)"
  using dma_pieces_cover [of probed_chan "0x10000001" "0x1000" "0x2000"]
  by (simp add: probed_chan_def PLX_DESC_SIZE_MASK_def)

end
