(* ===== verification/Plx_Alm.thy ===== *)
theory Plx_Alm
  imports Vca_Prelude
begin

unbundle bit_operations_syntax

text \<open>
  The manager of the A-LUT, the address translation table of the PLX switch
  (\<open>plx87xx/plx_alm.c\<close>, \<open>plx_alm.h\<close>). The table is divided into segments; a mapping occupies a group of
  consecutive segments, whose first entry holds the translated address, the reference counter and
  the length, and every entry of which names the first one. Deleting is lazy: a group with counter 1
  is no longer referenced and is reclaimed only when an allocation finds no place.

  An operation that returns \<open>None\<close> does not return in the code: it stops at a \<open>BUG_ON\<close>, accesses
  memory outside of the table, divides by zero, or loops for ever. Table indices are natural numbers:
  the table is one \<open>kzalloc\<close> block, so that an index never comes near \<open>2 ^ 31\<close>.
\<close>

section \<open>State\<close>

record plx_alm_arr_entry =
  entry_value :: u64
  counter :: u16
  segments_count :: u16
  start :: u16

record plx_alm =
  segments_num :: u32
  segment_size :: u64
  entries :: "plx_alm_arr_entry list"

definition empty_entry :: plx_alm_arr_entry where
  "empty_entry = \<lparr>entry_value = 0, counter = 0, segments_count = 0, start = 0\<rparr>"

section \<open>Operations\<close>

text \<open>The inner loop of \<open>plx_alm_check\<close> over the entries of one group.\<close>

definition plx_alm_check_group :: "plx_alm_arr_entry list \<Rightarrow> nat \<Rightarrow> nat \<Rightarrow> bool" where
  "plx_alm_check_group es i segments \<longleftrightarrow>
     list_all (\<lambda>j. unat (start (es ! j)) = i \<and>
                   (j \<noteq> i \<longrightarrow> counter (es ! j) = 0 \<and> segments_count (es ! j) = 0)) [i..<i + segments]"

function plx_alm_check_loop :: "plx_alm_arr_entry list \<Rightarrow> nat \<Rightarrow> nat \<Rightarrow> bool \<Rightarrow> bool" where
  "plx_alm_check_loop es n i ok =
     (if n \<le> i then ok
      else if counter (es ! i) = 0 then
        plx_alm_check_loop es n (i + 1)
          (ok \<and> segments_count (es ! i) = 0 \<and> start (es ! i) = 0 \<and> entry_value (es ! i) = 0)
      else let segments = unat (segments_count (es ! i)) in
        if segments = 0 then plx_alm_check_loop es n (i + 1) False
        else if n < segments + i then plx_alm_check_loop es n (i + 1) False
        else plx_alm_check_loop es n (i + segments) (ok \<and> plx_alm_check_group es i segments))"
  by auto
termination by (relation "measure (\<lambda>(es, n, i, ok). n - i)") auto

declare plx_alm_check_loop.simps [simp del]

definition plx_alm_check :: "plx_alm \<Rightarrow> unit option" where
  "plx_alm_check m =
     (if plx_alm_check_loop (entries m) (unat (segments_num m)) 0 True then Some () else None)"

text \<open>
  \<open>plx_alm_init\<close>: when \<open>kzalloc\<close> fails the table is \<open>NULL\<close>, and \<open>plx_alm_check\<close> reads it all the same.
\<close>

definition plx_alm_init :: "bool \<Rightarrow> u32 \<Rightarrow> u64 \<Rightarrow> plx_alm option" where
  "plx_alm_init kzalloc_ok n aper_len =
     (if n = 0 then None
      else let m = \<lparr>segments_num = n, segment_size = aper_len div ucast n,
                    entries = replicate (unat n) empty_entry\<rparr> in
        if \<not> kzalloc_ok then None
        else case plx_alm_check m of None \<Rightarrow> None | Some _ \<Rightarrow> Some m)"

definition clear_entries :: "plx_alm_arr_entry list \<Rightarrow> nat \<Rightarrow> nat \<Rightarrow> plx_alm_arr_entry list option" where
  "clear_entries es id_begin num =
     (if id_begin + num \<le> length es
      then Some (take id_begin es @ replicate num empty_entry @ drop (id_begin + num) es)
      else None)"

definition plx_alm_release :: "plx_alm \<Rightarrow> plx_alm option" where
  "plx_alm_release m =
     (case plx_alm_check m of None \<Rightarrow> None
      | Some _ \<Rightarrow> Some \<lparr>segments_num = 0, segment_size = 0, entries = []\<rparr>)"

definition plx_alm_reset :: "plx_alm \<Rightarrow> plx_alm option" where
  "plx_alm_reset m =
     (case plx_alm_check m of None \<Rightarrow> None
      | Some _ \<Rightarrow>
          (case clear_entries (entries m) 0 (unat (segments_num m)) of None \<Rightarrow> None
           | Some es \<Rightarrow> Some (m\<lparr>entries := es\<rparr>)))"

text \<open>
  \<open>plx_alm_del_entry\<close> writes its output parameters (first segment and number of segments to clear)
  only when the last reference goes.
\<close>

definition plx_alm_del_entry :: "plx_alm \<Rightarrow> nat \<Rightarrow> (plx_alm \<times> (nat \<times> nat) option) option" where
  "plx_alm_del_entry m segment_id =
     (if length (entries m) \<le> segment_id then None
      else let start_id = unat (start (entries m ! segment_id)) in
        if length (entries m) \<le> start_id then None
        else let e = entries m ! start_id in
          if counter e = 0 then None
          else let es = (entries m)[start_id := e\<lparr>counter := counter e - 1\<rparr>] in
            if counter e - 1 = 0 then
              (case clear_entries es start_id (unat (segments_count e)) of
                 None \<Rightarrow> None
               | Some es' \<Rightarrow> Some (m\<lparr>entries := es'\<rparr>, Some (start_id, unat (segments_count e))))
            else Some (m\<lparr>entries := es\<rparr>, None))"

fun plx_alm_cleanup_loop :: "plx_alm \<Rightarrow> nat list \<Rightarrow> nat \<Rightarrow> (plx_alm \<times> nat) option" where
  "plx_alm_cleanup_loop m [] nums = Some (m, nums)"
| "plx_alm_cleanup_loop m (i # is) nums =
     (if counter (entries m ! i) = 1
      then (case plx_alm_del_entry m i of
              None \<Rightarrow> None
            | Some (m', _) \<Rightarrow> plx_alm_cleanup_loop m' is (nums + 1))
      else plx_alm_cleanup_loop m is nums)"

definition plx_alm_cleanup_unused_entry :: "plx_alm \<Rightarrow> (plx_alm \<times> nat) option" where
  "plx_alm_cleanup_unused_entry m = plx_alm_cleanup_loop m [0..<unat (segments_num m)] 0"

text \<open>
  The search loop of \<open>plx_alm_add_entry\<close>: it remembers the first run of free entries that is long
  enough, and stops at the first group that already covers the request. The result is \<open>match\<close> and
  \<open>idx\<close>; \<open>match == -1\<close> is \<open>None\<close>. A group of length 0 keeps the loop at the same entry for ever.
\<close>

function plx_alm_scan ::
  "plx_alm \<Rightarrow> u64 \<Rightarrow> nat \<Rightarrow> nat \<Rightarrow> nat \<Rightarrow> nat option \<Rightarrow> (nat option \<times> nat) option" where
  "plx_alm_scan m addr_masked segments i free_slots mtch =
     (if unat (segments_num m) \<le> i then Some (mtch, 0)
      else let e = entries m ! i in
        if counter e = 0 then
          (if mtch = None then
             plx_alm_scan m addr_masked segments (i + 1) (free_slots + 1)
               (if free_slots + 1 = segments then Some (i + 1 - segments) else None)
           else plx_alm_scan m addr_masked segments (i + 1) free_slots mtch)
        else let idx = unat ((addr_masked - entry_value e) div segment_size m) in
          if entry_value e \<le> addr_masked \<and> idx < unat (segments_num m) \<and>
             idx + segments \<le> unat (segments_count e)
          then Some (Some i, idx)
          else if segments_count e = 0 then None
          else plx_alm_scan m addr_masked segments (i + unat (segments_count e)) 0 mtch)"
  by auto
termination
  by (relation "measure (\<lambda>(m, a, s, i, f, mt). unat (segments_num m) - i)")
    (auto simp: unat_gt_0 diff_less_mono2)

declare plx_alm_scan.simps [simp del]

text \<open>Filling a run of free entries, and the number of segments of a request.\<close>

definition plx_alm_fill :: "plx_alm_arr_entry list \<Rightarrow> nat \<Rightarrow> nat \<Rightarrow> u64 \<Rightarrow> plx_alm_arr_entry list" where
  "plx_alm_fill es mtch segments addr_masked =
     fold (\<lambda>i es. es[mtch + i := (es ! (mtch + i))\<lparr>start := word_of_nat mtch\<rparr>]) [0..<segments]
       (es[mtch := (es ! mtch)\<lparr>entry_value := addr_masked, segments_count := word_of_nat segments\<rparr>])"

definition alm_mask :: "plx_alm \<Rightarrow> u64" where
  "alm_mask m = segment_size m - 1"

definition alm_segments :: "plx_alm \<Rightarrow> u64 \<Rightarrow> u64 \<Rightarrow> u32" where
  "alm_segments m addr bytes =
     ucast (((addr AND alm_mask m) + bytes + segment_size m - 1) div segment_size m)"

text \<open>
  \<open>plx_alm_add_entry\<close> up to its retry: the error, or the place and the new table. \<open>Inl\<close> marks the
  case in which no place was found.
\<close>

datatype add_rc = Added | Exists

definition plx_alm_try_add :: "plx_alm \<Rightarrow> u64 \<Rightarrow> nat \<Rightarrow>
    (unit + add_rc \<times> nat \<times> plx_alm) option" where
  "plx_alm_try_add m addr_masked segments =
     (case plx_alm_scan m addr_masked segments 0 0 None of
        None \<Rightarrow> None
      | Some (None, _) \<Rightarrow> Some (Inl ())
      | Some (Some mtch, idx) \<Rightarrow>
          let es = entries m; e = es ! mtch in
          if counter e = 0 then
            let es1 = plx_alm_fill es mtch segments addr_masked;
                es2 = es1[mtch := (es1 ! mtch)\<lparr>counter := 1\<rparr>];
                es3 = es2[mtch := (es2 ! mtch)\<lparr>counter := counter (es2 ! mtch) + 1\<rparr>]
            in Some (Inr (Added, mtch + idx, m\<lparr>entries := es3\<rparr>))
          else
            Some (Inr (Exists, mtch + idx,
              m\<lparr>entries := es[mtch := e\<lparr>counter := counter e + 1\<rparr>]\<rparr>)))"

definition alm_total :: "plx_alm \<Rightarrow> nat" where
  "alm_total m = (\<Sum>e\<leftarrow>entries m. unat (counter e))"

lemma sum_list_update_less:
  "i < length xs \<Longrightarrow> f y < f (xs ! i) \<Longrightarrow> (\<Sum>x\<leftarrow>xs[i := y]. f x) < (\<Sum>x\<leftarrow>xs. (f x :: nat))"
proof (induction xs arbitrary: i)
  case (Cons x xs)
  then show ?case by (cases i) auto
qed simp

lemma clear_entries_total:
  assumes "clear_entries es a n = Some es'"
  shows "(\<Sum>e\<leftarrow>es'. unat (counter e)) \<le> (\<Sum>e\<leftarrow>es. unat (counter e))"
proof -
  have "es = take a es @ take n (drop a es) @ drop (a + n) es"
    using append_take_drop_id [of n "drop a es"] append_take_drop_id [of a es]
    by (simp add: add.commute)
  from arg_cong [OF this, of "\<lambda>es. \<Sum>e\<leftarrow>es. unat (counter e)"]
  have "(\<Sum>e\<leftarrow>es. unat (counter e)) = (\<Sum>e\<leftarrow>take a es. unat (counter e))
      + (\<Sum>e\<leftarrow>take n (drop a es). unat (counter e)) + (\<Sum>e\<leftarrow>drop (a + n) es. unat (counter e))"
    by (simp only: map_append sum_list_append add.assoc)
  moreover have "(\<Sum>e\<leftarrow>replicate n empty_entry. unat (counter e)) = 0"
    by (simp add: empty_entry_def sum_list_replicate)
  ultimately show ?thesis
    using assms by (auto simp: clear_entries_def sum_list_replicate split: if_splits)
qed

lemma del_entry_total:
  assumes "plx_alm_del_entry m i = Some (m', out)"
  shows "alm_total m' < alm_total m"
proof -
  let ?s = "unat (start (entries m ! i))"
  let ?e = "entries m ! ?s"
  let ?es = "(entries m)[?s := ?e\<lparr>counter := counter ?e - 1\<rparr>]"
  have c: "counter ?e \<noteq> 0" "?s < length (entries m)"
    using assms by (auto simp: plx_alm_del_entry_def Let_def split: if_splits)
  then have "(\<Sum>e\<leftarrow>?es. unat (counter e)) < alm_total m"
    unfolding alm_total_def by (intro sum_list_update_less) (auto simp: unat_pred unat_gt_0)
  moreover have "alm_total m' \<le> (\<Sum>e\<leftarrow>?es. unat (counter e))"
    using assms by (auto simp: plx_alm_del_entry_def Let_def alm_total_def
        split: if_splits option.splits dest: clear_entries_total)
  ultimately show ?thesis by simp
qed

lemma cleanup_loop_total:
  "plx_alm_cleanup_loop m is nums = Some (m', nums') \<Longrightarrow>
   alm_total m' \<le> alm_total m \<and> (nums < nums' \<longrightarrow> alm_total m' < alm_total m) \<and> nums \<le> nums'"
proof (induction m "is" nums rule: plx_alm_cleanup_loop.induct)
  case (2 m i "is" nums)
  then show ?case
    by (force split: if_splits option.splits dest: del_entry_total)
qed simp

function plx_alm_add_entry :: "plx_alm \<Rightarrow> u64 \<Rightarrow> u64 \<Rightarrow>
    ((errno + add_rc \<times> nat \<times> nat) \<times> plx_alm) option" where
  "plx_alm_add_entry m addr bytes =
     (if segment_size m = 0 then None
      else let addr_masked = addr AND NOT (alm_mask m); segments = alm_segments m addr bytes in
        if bytes = 0 \<or> segment_size m * ucast (segments_num m) < bytes then Some (Inl ENOMEM, m)
        else case plx_alm_try_add m addr_masked (unat segments) of
          None \<Rightarrow> None
        | Some (Inr (rc, out_id, m')) \<Rightarrow> Some (Inr (rc, out_id, unat segments), m')
        | Some (Inl _) \<Rightarrow>
            (case plx_alm_cleanup_unused_entry m of
               None \<Rightarrow> None
             | Some (m', nums) \<Rightarrow>
                 if nums \<noteq> 0 then plx_alm_add_entry m' addr bytes else Some (Inl ENOMEM, m')))"
  by auto
termination
  by (relation "measure (\<lambda>(m, a, b). alm_total m)")
    (auto simp: plx_alm_cleanup_unused_entry_def dest!: cleanup_loop_total)

declare plx_alm_add_entry.simps [simp del]

section \<open>Well-formed tables\<close>

text \<open>
  A table is well formed when every counted entry heads a group that fits, whose entries name it, and
  every other entry is a member of a group or empty. \<open>entry_ok es b j\<close> looks for the group of \<open>j\<close>
  among the entries from \<open>b\<close> on.
\<close>

definition covers :: "plx_alm_arr_entry list \<Rightarrow> nat \<Rightarrow> nat \<Rightarrow> bool" where
  "covers es g j \<longleftrightarrow> counter (es ! g) \<noteq> 0 \<and> g \<le> j \<and> j < g + unat (segments_count (es ! g))"

definition member_ok :: "plx_alm_arr_entry list \<Rightarrow> nat \<Rightarrow> nat \<Rightarrow> bool" where
  "member_ok es g j \<longleftrightarrow> unat (start (es ! j)) = g \<and>
     (j \<noteq> g \<longrightarrow> counter (es ! j) = 0 \<and> segments_count (es ! j) = 0)"

definition group_ok :: "plx_alm_arr_entry list \<Rightarrow> nat \<Rightarrow> bool" where
  "group_ok es g \<longleftrightarrow>
     0 < unat (segments_count (es ! g)) \<and> g + unat (segments_count (es ! g)) \<le> length es \<and>
     (\<forall>j \<in> {g..<g + unat (segments_count (es ! g))}. member_ok es g j)"

definition entry_zero :: "plx_alm_arr_entry \<Rightarrow> bool" where
  "entry_zero e \<longleftrightarrow> segments_count e = 0 \<and> start e = 0 \<and> entry_value e = 0"

definition entry_ok :: "plx_alm_arr_entry list \<Rightarrow> nat \<Rightarrow> nat \<Rightarrow> bool" where
  "entry_ok es b j \<longleftrightarrow>
     (if counter (es ! j) \<noteq> 0 then group_ok es j
      else (\<exists>g \<in> {b..<j}. covers es g j) \<or> entry_zero (es ! j))"

definition alm_wf :: "plx_alm \<Rightarrow> bool" where
  "alm_wf m \<longleftrightarrow> length (entries m) = unat (segments_num m) \<and>
     (\<forall>j < length (entries m). entry_ok (entries m) 0 j)"

lemma group_okD:
  assumes "group_ok es g"
  shows "0 < unat (segments_count (es ! g))" "g + unat (segments_count (es ! g)) \<le> length es"
  using assms by (simp_all add: group_ok_def)

lemma group_ok_memb:
  "group_ok es g \<Longrightarrow> g \<le> j \<Longrightarrow> j < g + unat (segments_count (es ! g)) \<Longrightarrow> member_ok es g j"
  by (simp add: group_ok_def)

lemma group_ok_start:
  "group_ok es g \<Longrightarrow> g \<le> j \<Longrightarrow> j < g + unat (segments_count (es ! g)) \<Longrightarrow> unat (start (es ! j)) = g"
  using group_ok_memb [of es g j] by (simp add: member_ok_def)

lemma group_ok_member:
  assumes "group_ok es g" "g < j" "j < g + unat (segments_count (es ! g))"
  shows "counter (es ! j) = 0" "segments_count (es ! j) = 0"
  using group_ok_memb [of es g j] assms by (simp_all add: member_ok_def)

lemma check_group_iff:
  "i + n \<le> length es \<Longrightarrow> n = unat (segments_count (es ! i)) \<Longrightarrow> 0 < n \<Longrightarrow>
   plx_alm_check_group es i n \<longleftrightarrow> group_ok es i"
  by (simp add: plx_alm_check_group_def group_ok_def list_all_iff member_ok_def)

lemma all_from: "(\<forall>j. i \<le> j \<and> j < n \<longrightarrow> P j) \<longleftrightarrow>
    (i < n \<longrightarrow> P i) \<and> (\<forall>j. Suc i \<le> j \<and> j < n \<longrightarrow> P j)"
  by (metis Suc_leD le_antisym not_less_eq_eq)

lemma entry_ok_skip_free:
  assumes "counter (es ! i) = 0" "i < j"
  shows "entry_ok es i j \<longleftrightarrow> entry_ok es (Suc i) j"
proof -
  have "{i..<j} = insert i {Suc i..<j}" using assms(2) by auto
  with assms(1) show ?thesis by (simp add: entry_ok_def covers_def)
qed

lemma entry_ok_free_head: "counter (es ! i) = 0 \<Longrightarrow> entry_ok es i i \<longleftrightarrow> entry_zero (es ! i)"
  by (simp add: entry_ok_def)

lemma entry_ok_skip_group:
  assumes "group_ok es i" "i + unat (segments_count (es ! i)) \<le> j"
  shows "entry_ok es i j \<longleftrightarrow> entry_ok es (i + unat (segments_count (es ! i))) j"
proof -
  have "i + unat (segments_count (es ! i)) \<le> g" if "covers es g j" "i \<le> g" for g
  proof (rule ccontr)
    assume "\<not> i + unat (segments_count (es ! i)) \<le> g"
    then have "g = i"
      using that group_ok_member(1) [OF assms(1), of g] by (cases "i < g") (auto simp: covers_def)
    with that assms(2) show False by (simp add: covers_def)
  qed
  moreover have "i + unat (segments_count (es ! i)) \<le> g \<Longrightarrow> i \<le> g" for g by simp
  ultimately have "(\<exists>g \<in> {i..<j}. covers es g j) \<longleftrightarrow>
      (\<exists>g \<in> {i + unat (segments_count (es ! i))..<j}. covers es g j)" by (meson atLeastLessThan_iff)
  then show ?thesis by (simp add: entry_ok_def)
qed

lemma entry_ok_member:
  assumes "group_ok es i" "counter (es ! i) \<noteq> 0" "i < j" "j < i + unat (segments_count (es ! i))"
  shows "entry_ok es i j"
proof -
  have "covers es i j" using assms by (simp add: covers_def)
  then show ?thesis using assms(3) group_ok_member(1) [OF assms(1,3,4)] by (auto simp: entry_ok_def)
qed

lemma check_loop_end: "n \<le> i \<Longrightarrow> plx_alm_check_loop es n i ok = ok"
  by (simp add: plx_alm_check_loop.simps [of es n i ok])

lemma check_loop_free:
  "i < n \<Longrightarrow> counter (es ! i) = 0 \<Longrightarrow>
   plx_alm_check_loop es n i ok = plx_alm_check_loop es n (Suc i) (ok \<and> entry_zero (es ! i))"
  by (simp add: plx_alm_check_loop.simps [of es n i ok] entry_zero_def)

lemma check_loop_bad:
  "i < n \<Longrightarrow> counter (es ! i) \<noteq> 0 \<Longrightarrow>
   unat (segments_count (es ! i)) = 0 \<or> n < unat (segments_count (es ! i)) + i \<Longrightarrow>
   plx_alm_check_loop es n i ok = plx_alm_check_loop es n (Suc i) False"
  by (subst plx_alm_check_loop.simps [of es n i ok]) (auto simp: Let_def)

lemma check_loop_group:
  "i < n \<Longrightarrow> counter (es ! i) \<noteq> 0 \<Longrightarrow> segs = unat (segments_count (es ! i)) \<Longrightarrow> 0 < segs \<Longrightarrow>
   segs + i \<le> n \<Longrightarrow> plx_alm_check_loop es n i ok =
     plx_alm_check_loop es n (i + segs) (ok \<and> plx_alm_check_group es i segs)"
  by (subst plx_alm_check_loop.simps [of es n i ok]) (simp add: Let_def)

lemma check_loop_iff:
  "length es = n \<Longrightarrow>
   plx_alm_check_loop es n i ok \<longleftrightarrow> ok \<and> (\<forall>j. i \<le> j \<and> j < n \<longrightarrow> entry_ok es i j)"
proof (induction "n - i" arbitrary: i ok rule: less_induct)
  case less
  let ?s = "unat (segments_count (es ! i))"
  consider "n \<le> i" | "i < n" "counter (es ! i) = 0"
    | "i < n" "counter (es ! i) \<noteq> 0" "?s = 0 \<or> n < ?s + i"
    | "i < n" "counter (es ! i) \<noteq> 0" "0 < ?s" "?s + i \<le> n" by linarith
  then show ?case
  proof cases
    case 1
    then show ?thesis by (auto simp: check_loop_end)
  next
    case 2
    have "(\<forall>j. i \<le> j \<and> j < n \<longrightarrow> entry_ok es i j) \<longleftrightarrow>
        entry_zero (es ! i) \<and> (\<forall>j. Suc i \<le> j \<and> j < n \<longrightarrow> entry_ok es (Suc i) j)"
      using 2 entry_ok_free_head [of es i] entry_ok_skip_free [of es i] all_from [of i n "entry_ok es i"]
      by (simp add: Suc_le_eq)
    with 2 show ?thesis
      using less.hyps [of "Suc i"] less.prems by (simp add: check_loop_free)
  next
    case 3
    then have "\<not> entry_ok es i i" using less.prems by (auto simp: entry_ok_def group_ok_def)
    with 3 show ?thesis
      using less.hyps [of "Suc i" False] less.prems check_loop_bad [OF 3] by auto
  next
    case 4
    have g: "plx_alm_check_group es i ?s \<longleftrightarrow> group_ok es i"
      using 4 less.prems by (intro check_group_iff) auto
    have "(\<forall>j. i \<le> j \<and> j < n \<longrightarrow> entry_ok es i j) \<longleftrightarrow>
        group_ok es i \<and> (\<forall>j. i + ?s \<le> j \<and> j < n \<longrightarrow> entry_ok es (i + ?s) j)" (is "?L = ?R")
    proof
      assume ?L
      moreover from this have "group_ok es i" using 4 by (force simp: entry_ok_def)
      ultimately show ?R using entry_ok_skip_group [of es i] by (meson le_add1 le_trans)
    next
      assume R: ?R
      show ?L
      proof (intro allI impI)
        fix j assume "i \<le> j \<and> j < n"
        then consider "j = i" | "i < j" "j < i + ?s" | "i + ?s \<le> j" "j < n" by linarith
        then show "entry_ok es i j"
          using R 4 entry_ok_member [of es i j] entry_ok_skip_group [of es i j]
          by cases (auto simp: entry_ok_def)
      qed
    qed
    then show ?thesis
      using 4 less.hyps [of "i + ?s"] less.prems g check_loop_group [OF 4(1,2) refl 4(3,4), of ok]
      by simp
  qed
qed

section \<open>Changing a region of the table\<close>

definition free_at :: "plx_alm_arr_entry list \<Rightarrow> nat \<Rightarrow> bool" where
  "free_at es j \<longleftrightarrow> counter (es ! j) = 0 \<and> (\<forall>g < j. \<not> covers es g j)"

definition table_ok :: "plx_alm_arr_entry list \<Rightarrow> bool" where
  "table_ok es \<longleftrightarrow> (\<forall>j < length es. entry_ok es 0 j)"

lemma alm_wf_table: "alm_wf m \<longleftrightarrow> length (entries m) = unat (segments_num m) \<and> table_ok (entries m)"
  by (simp add: alm_wf_def table_ok_def)

lemma table_group: "table_ok es \<Longrightarrow> g < length es \<Longrightarrow> counter (es ! g) \<noteq> 0 \<Longrightarrow> group_ok es g"
  by (force simp: table_ok_def entry_ok_def)

lemma covers_start:
  "table_ok es \<Longrightarrow> g < length es \<Longrightarrow> covers es g j \<Longrightarrow> unat (start (es ! j)) = g"
  using table_group [of es g] group_ok_start [of es g j] by (simp add: covers_def)

lemma table_free: "table_ok es \<Longrightarrow> j < length es \<Longrightarrow> free_at es j \<Longrightarrow> entry_zero (es ! j)"
  by (auto simp: table_ok_def entry_ok_def free_at_def)

lemma covers_self: "table_ok es \<Longrightarrow> g < length es \<Longrightarrow> counter (es ! g) \<noteq> 0 \<Longrightarrow> covers es g g"
  using table_group [of es g] group_okD(1) [of es g] by (simp add: covers_def)

lemma not_free_covered: "table_ok es \<Longrightarrow> g < length es \<Longrightarrow> covers es g j \<Longrightarrow> \<not> free_at es j"
  by (cases "g = j") (auto simp: free_at_def covers_def intro: exI [of _ g])

lemma table_region:
  assumes len: "length es' = length es" and ok: "table_ok es"
    and agree: "\<And>j. j \<notin> R \<Longrightarrow> es' ! j = es ! j"
    and closed: "\<And>g j. g < length es \<Longrightarrow> covers es g j \<Longrightarrow> g \<in> R \<longleftrightarrow> j \<in> R"
    and inside: "\<And>j. j \<in> R \<Longrightarrow> j < length es \<Longrightarrow> entry_ok es' 0 j"
  shows "table_ok es'"
  unfolding table_ok_def
proof (intro allI impI)
  fix j assume j: "j < length es'"
  show "entry_ok es' 0 j"
  proof (cases "j \<in> R")
    case True
    with j len inside show ?thesis by simp
  next
    case False
    have same: "es' ! j = es ! j" using agree False by simp
    have jok: "entry_ok es 0 j" using ok j len by (simp add: table_ok_def)
    show ?thesis
    proof (cases "counter (es ! j) = 0")
      case True
      have "covers es' g j" if "covers es g j" "g < j" for g
        using closed [OF _ that(1)] that j len agree [of g] False by (auto simp: covers_def)
      with jok True same show ?thesis
        unfolding entry_ok_def by (metis atLeastLessThan_iff)
    next
      case nz: False
      then have g: "group_ok es j" using jok by (simp add: entry_ok_def)
      have "member_ok es' j k" if "j \<le> k" "k < j + unat (segments_count (es ! j))" for k
      proof -
        have "covers es j k" using that nz by (simp add: covers_def)
        then have "es' ! k = es ! k" using closed [of j k] j len False agree by auto
        then show ?thesis using group_ok_memb [OF g that] by (simp add: member_ok_def)
      qed
      then have "group_ok es' j" using g same len by (auto simp: group_ok_def)
      with nz same show ?thesis by (simp add: entry_ok_def)
    qed
  qed
qed

text \<open>The groups of a table, the abstract state of the manager: value, length and references.\<close>

definition groups :: "plx_alm_arr_entry list \<Rightarrow> nat \<Rightarrow> (u64 \<times> nat \<times> nat) option" where
  "groups es g =
     (if g < length es \<and> counter (es ! g) \<noteq> 0
      then Some (entry_value (es ! g), unat (segments_count (es ! g)), unat (counter (es ! g)))
      else None)"

lemma count_update:
  assumes ok: "table_ok es" and g: "g < length es" "counter (es ! g) \<noteq> 0" and c: "c \<noteq> 0"
    and es': "es' = es[g := (es ! g)\<lparr>counter := c\<rparr>]"
  shows "table_ok es' \<and>
    groups es' = (groups es)(g \<mapsto> (entry_value (es ! g), unat (segments_count (es ! g)), unat c))"
proof
  have same: "segments_count (es' ! j) = segments_count (es ! j)" "start (es' ! j) = start (es ! j)"
    "entry_value (es' ! j) = entry_value (es ! j)" "(counter (es' ! j) = 0) = (counter (es ! j) = 0)" for j
    using g c by (auto simp: es' nth_list_update_cases)
  have "covers es' = covers es" by (simp add: fun_eq_iff covers_def same)
  moreover have "member_ok es' = member_ok es" by (simp add: fun_eq_iff member_ok_def same)
  moreover have len: "length es' = length es" by (simp add: es')
  ultimately have "entry_ok es' = entry_ok es"
    by (simp add: fun_eq_iff entry_ok_def group_ok_def entry_zero_def same)
  then show "table_ok es'" using ok len by (simp add: table_ok_def)
  show "groups es' = (groups es)(g \<mapsto> (entry_value (es ! g), unat (segments_count (es ! g)), unat c))"
    using g c by (auto simp: groups_def fun_eq_iff es' nth_list_update)
qed

lemma clear_nth:
  assumes "clear_entries es a n = Some es'"
  shows "length es' = length es" "a + n \<le> length es"
    "es' ! j = (if a \<le> j \<and> j < a + n then empty_entry else es ! j)"
  using assms by (auto simp: clear_entries_def nth_append split: if_splits)

lemma clear_group:
  assumes ok: "table_ok es" and g: "g < length es" "counter (es ! g) \<noteq> 0"
    and es1: "es1 = es[g := e]"
  shows "\<exists>es'. clear_entries es1 g (unat (segments_count (es ! g))) = Some es' \<and>
    length es' = length es \<and> table_ok es' \<and> groups es' = (groups es)(g := None)"
proof -
  let ?n = "unat (segments_count (es ! g))"
  let ?R = "{g..<g + ?n}"
  have gok: "group_ok es g" by (rule table_group [OF ok g])
  obtain es' where c: "clear_entries es1 g ?n = Some es'"
    using group_okD(2) [OF gok] by (simp add: clear_entries_def es1)
  have n: "es' ! j = (if j \<in> ?R then empty_entry else es ! j)" for j
    using clear_nth(3) [OF c, of j] group_okD(1) [OF gok] by (auto simp: es1 nth_list_update_cases)
  have len: "length es' = length es" using clear_nth(1) [OF c] by (simp add: es1)
  have mem: "k \<in> ?R \<longleftrightarrow> k = g" if "counter (es ! k) \<noteq> 0" for k
    using group_ok_member(1) [OF gok, of k] group_okD(1) [OF gok] that by (cases "g < k") auto
  have "table_ok es'"
  proof (rule table_region [OF len ok, of ?R])
    show "h \<in> ?R \<longleftrightarrow> j \<in> ?R" if "h < length es" "covers es h j" for h j
    proof
      assume "j \<in> ?R"
      then have "unat (start (es ! j)) = g" using group_ok_start [OF gok] by simp
      then have "h = g" using covers_start [OF ok that] by simp
      then show "h \<in> ?R" using mem [OF g(2)] by simp
    qed (use mem [of h] that in \<open>auto simp: covers_def\<close>)
  qed (auto simp: n entry_ok_def entry_zero_def empty_entry_def)
  moreover have "groups es' = (groups es)(g := None)"
    using mem len by (auto simp: groups_def fun_eq_iff n empty_entry_def)
  ultimately show ?thesis using c len by blast
qed

text \<open>A run of free entries that becomes a group.\<close>

lemma fill_starts:
  fixes es :: "plx_alm_arr_entry list"
  defines "upd \<equiv> \<lambda>a i (es :: plx_alm_arr_entry list). es[a + i := (es ! (a + i))\<lparr>start := word_of_nat a\<rparr>]"
  assumes "a + n \<le> length es"
  shows "length (fold (upd a) [0..<n] es) = length es"
    "fold (upd a) [0..<n] es ! j =
       (if a \<le> j \<and> j < a + n then (es ! j)\<lparr>start := word_of_nat a\<rparr> else es ! j)"
proof -
  have "length (fold (upd a) [0..<n] es) = length es \<and> (\<forall>j. fold (upd a) [0..<n] es ! j =
       (if a \<le> j \<and> j < a + n then (es ! j)\<lparr>start := word_of_nat a\<rparr> else es ! j))"
    using assms(2)
  proof (induction n)
    case (Suc n)
    then show ?case by (auto simp: upd_def nth_list_update_cases)
  qed auto
  then show "length (fold (upd a) [0..<n] es) = length es" "fold (upd a) [0..<n] es ! j =
       (if a \<le> j \<and> j < a + n then (es ! j)\<lparr>start := word_of_nat a\<rparr> else es ! j)" by auto
qed

lemma fill_nth:
  assumes "a + n \<le> length es"
  shows "length (plx_alm_fill es a n v) = length es"
    "plx_alm_fill es a n v ! j =
       (if a \<le> j \<and> j < a + n
        then (if j = a then (es ! a)\<lparr>entry_value := v, segments_count := word_of_nat n, start := word_of_nat a\<rparr>
              else (es ! j)\<lparr>start := word_of_nat a\<rparr>)
        else if j = a \<and> a < length es then (es ! a)\<lparr>entry_value := v, segments_count := word_of_nat n\<rparr>
        else es ! j)"
  using assms fill_starts [of a n "es[a := (es ! a)\<lparr>entry_value := v, segments_count := word_of_nat n\<rparr>]"]
  by (auto simp: plx_alm_fill_def nth_list_update_cases)

lemma free_region_closed:
  assumes ok: "table_ok es" and free: "\<And>j. a \<le> j \<Longrightarrow> j < b \<Longrightarrow> free_at es j"
    and "g < length es" "covers es g j"
  shows "g \<in> {a..<b} \<longleftrightarrow> j \<in> {a..<b}"
proof -
  have "\<not> free_at es g" using assms(4) by (auto simp: free_at_def covers_def)
  moreover have "\<not> free_at es j" using not_free_covered [OF ok assms(3,4)] .
  ultimately show ?thesis using free by auto
qed

lemma fill_group:
  assumes ok: "table_ok es" and n: "a + n \<le> length es" "0 < n" "n < 65536" "a < 65536"
    and free: "\<And>j. a \<le> j \<Longrightarrow> j < a + n \<Longrightarrow> free_at es j" and c: "c \<noteq> 0"
    and es': "es' = (plx_alm_fill es a n v)[a := (plx_alm_fill es a n v ! a)\<lparr>counter := c\<rparr>]"
  shows "table_ok es' \<and> groups es' = (groups es)(a \<mapsto> (v, n, unat c))"
proof
  let ?R = "{a..<a + n}"
  have u: "unat (word_of_nat n :: u16) = n" "unat (word_of_nat a :: u16) = a"
    using n by (simp_all add: unsigned_of_nat take_bit_nat_eq_self)
  have len: "length es' = length es" using n fill_nth(1) [OF n(1)] by (simp add: es')
  have head: "es' ! a = (es ! a)\<lparr>entry_value := v, counter := c, segments_count := word_of_nat n,
      start := word_of_nat a\<rparr>"
    using n fill_nth [OF n(1)] by (simp add: es')
  have rest: "es' ! j = (if j \<in> ?R then (es ! j)\<lparr>start := word_of_nat a\<rparr> else es ! j)" if "j \<noteq> a" for j
    using that n fill_nth [OF n(1)] by (auto simp: es')
  have z: "counter (es ! j) = 0" "entry_zero (es ! j)" if "j \<in> ?R" for j
    using free [of j] table_free [OF ok, of j] that n by (auto simp: free_at_def)
  have mem: "member_ok es' a j" if "j \<in> ?R" for j
    using that z [OF that] head rest [of j] u by (cases "j = a") (auto simp: member_ok_def entry_zero_def)
  have g: "group_ok es' a" using head u n len mem by (simp add: group_ok_def)
  show "table_ok es'"
  proof (rule table_region [OF len ok, of ?R])
    show "es' ! j = es ! j" if "j \<notin> ?R" for j
    proof (cases "j = a")
      case True
      with that n show ?thesis by simp
    qed (use rest that in auto)
    show "h \<in> ?R \<longleftrightarrow> j \<in> ?R" if "h < length es" "covers es h j" for h j
      using free_region_closed [OF ok free that] by simp
    show "entry_ok es' 0 j" if "j \<in> ?R" for j
    proof (cases "j = a")
      case True
      with g head c show ?thesis by (simp add: entry_ok_def)
    next
      case False
      then have "covers es' a j" using that head u c by (simp add: covers_def)
      moreover have "counter (es' ! j) = 0" using rest [OF False] z(1) [OF that] that by simp
      moreover have "a < j" using that False by simp
      ultimately show ?thesis by (auto simp: entry_ok_def)
    qed
  qed
  show "groups es' = (groups es)(a \<mapsto> (v, n, unat c))"
  proof
    fix j
    show "groups es' j = ((groups es)(a \<mapsto> (v, n, unat c))) j"
      using len head rest [of j] z(1) [of j] u c n by (cases "j = a") (auto simp: groups_def)
  qed
qed

section \<open>The search\<close>

definition embeds :: "plx_alm \<Rightarrow> u64 \<Rightarrow> nat \<Rightarrow> nat \<Rightarrow> bool" where
  "embeds m addr_masked segs g \<longleftrightarrow>
     (let e = entries m ! g; k = unat ((addr_masked - entry_value e) div segment_size m) in
      counter e \<noteq> 0 \<and> entry_value e \<le> addr_masked \<and> k < unat (segments_num m) \<and>
      k + segs \<le> unat (segments_count e))"

definition free_run :: "plx_alm_arr_entry list \<Rightarrow> nat \<Rightarrow> nat \<Rightarrow> bool" where
  "free_run es a n \<longleftrightarrow> (\<forall>j. a \<le> j \<and> j < a + n \<longrightarrow> free_at es j)"

definition scan_inv :: "plx_alm \<Rightarrow> u64 \<Rightarrow> nat \<Rightarrow> nat \<Rightarrow> nat \<Rightarrow> nat option \<Rightarrow> bool" where
  "scan_inv m am segs i f mt \<longleftrightarrow>
     i \<le> length (entries m) \<and> (\<forall>g < i. \<not> covers (entries m) g i) \<and>
     (\<forall>g < i. \<not> embeds m am segs g) \<and>
     (case mt of
        None \<Rightarrow> f < segs \<and> f \<le> i \<and> free_run (entries m) (i - f) f \<and>
                (f < i \<longrightarrow> \<not> free_at (entries m) (i - f - 1)) \<and>
                (\<forall>a. a + segs \<le> i \<longrightarrow> \<not> free_run (entries m) a segs)
      | Some a \<Rightarrow> a + segs \<le> i \<and> free_run (entries m) a segs)"

definition scan_post :: "plx_alm \<Rightarrow> u64 \<Rightarrow> nat \<Rightarrow> nat option \<times> nat \<Rightarrow> bool" where
  "scan_post m am segs r \<longleftrightarrow>
     (case r of
        (None, k) \<Rightarrow>
          (\<forall>g < length (entries m). \<not> embeds m am segs g) \<and>
          (\<forall>a. a + segs \<le> length (entries m) \<longrightarrow> \<not> free_run (entries m) a segs)
      | (Some a, k) \<Rightarrow>
          if counter (entries m ! a) = 0 then
            k = 0 \<and> a + segs \<le> length (entries m) \<and> free_run (entries m) a segs \<and>
            (\<forall>g < length (entries m). \<not> embeds m am segs g)
          else a < length (entries m) \<and> embeds m am segs a \<and>
            k = unat ((am - entry_value (entries m ! a)) div segment_size m))"

lemma scan_end: "unat (segments_num m) \<le> i \<Longrightarrow> plx_alm_scan m am segs i f mt = Some (mt, 0)"
  by (subst plx_alm_scan.simps) simp

lemma scan_free:
  "i < unat (segments_num m) \<Longrightarrow> counter (entries m ! i) = 0 \<Longrightarrow>
   plx_alm_scan m am segs i f mt =
     (if mt = None then plx_alm_scan m am segs (Suc i) (Suc f)
        (if Suc f = segs then Some (Suc i - segs) else None)
      else plx_alm_scan m am segs (Suc i) f mt)"
  by (subst plx_alm_scan.simps) (simp add: Let_def)

lemma scan_embed:
  "i < unat (segments_num m) \<Longrightarrow> embeds m am segs i \<Longrightarrow> plx_alm_scan m am segs i f mt =
     Some (Some i, unat ((am - entry_value (entries m ! i)) div segment_size m))"
  by (subst plx_alm_scan.simps) (simp add: Let_def embeds_def)

lemma scan_skip:
  "i < unat (segments_num m) \<Longrightarrow> counter (entries m ! i) \<noteq> 0 \<Longrightarrow> \<not> embeds m am segs i \<Longrightarrow>
   segments_count (entries m ! i) \<noteq> 0 \<Longrightarrow> plx_alm_scan m am segs i f mt =
     plx_alm_scan m am segs (i + unat (segments_count (entries m ! i))) 0 mt"
  by (subst plx_alm_scan.simps) (auto simp: Let_def embeds_def)

lemma embeds_counter: "embeds m am segs g \<Longrightarrow> counter (entries m ! g) \<noteq> 0"
  by (simp add: embeds_def Let_def)

lemma free_run_snoc: "free_run es a (Suc n) \<longleftrightarrow> free_run es a n \<and> free_at es (a + n)"
  by (auto simp: free_run_def less_Suc_eq)

lemma free_run_at: "free_run es a n \<Longrightarrow> a \<le> j \<Longrightarrow> j < a + n \<Longrightarrow> free_at es j"
  by (simp add: free_run_def)

lemma uncovered_Suc:
  assumes "\<forall>g < i. \<not> covers es g i" "counter (es ! i) = 0" "g < Suc i"
  shows "\<not> covers es g (Suc i)"
proof (cases "g = i")
  case False
  with assms have "\<not> covers es g i" by simp
  with assms(3) False show ?thesis by (auto simp: covers_def)
qed (use assms in \<open>simp add: covers_def\<close>)

lemma scan_inv_free:
  assumes inv: "scan_inv m am segs i f None" and i: "i < length (entries m)"
    and c: "counter (entries m ! i) = 0" and s: "0 < segs"
  shows "scan_inv m am segs (Suc i) (Suc f) (if Suc f = segs then Some (Suc i - segs) else None)"
proof -
  let ?es = "entries m"
  have fr: "free_at ?es i" using inv c by (simp add: scan_inv_def free_at_def)
  have b: "f < segs" "f \<le> i" "free_run ?es (i - f) f" "f < i \<longrightarrow> \<not> free_at ?es (i - f - 1)"
    "\<forall>a. a + segs \<le> i \<longrightarrow> \<not> free_run ?es a segs" "\<forall>g < i. \<not> embeds m am segs g"
    using inv by (auto simp: scan_inv_def)
  have run: "free_run ?es (i - f) (Suc f)" using b fr by (simp add: free_run_snoc)
  have cov: "\<not> covers ?es g (Suc i)" if "g < Suc i" for g
    using uncovered_Suc [OF _ c that] inv by (simp add: scan_inv_def)
  have emb: "\<forall>g < Suc i. \<not> embeds m am segs g"
    using b(6) c embeds_counter by (auto simp: less_Suc_eq)
  have "\<not> free_run ?es a segs" if "a + segs \<le> Suc i" "Suc f < segs" for a
  proof (cases "a + segs \<le> i")
    case False
    with that b(2) have "a \<le> i - f - 1" "i - f - 1 < a + segs" "f < i" by auto
    with b(4) show ?thesis using free_run_at by blast
  qed (use b(5) in simp)
  then show ?thesis
    using cov emb run b i by (auto simp: scan_inv_def Suc_diff_le)
qed

lemma scan_inv_skip:
  assumes ok: "table_ok (entries m)" and inv: "scan_inv m am segs i f mt"
    and i: "i < length (entries m)" and c: "counter (entries m ! i) \<noteq> 0"
    and e: "\<not> embeds m am segs i" and s: "0 < segs"
  shows "scan_inv m am segs (i + unat (segments_count (entries m ! i))) 0 mt"
proof -
  let ?es = "entries m"
  let ?n = "unat (segments_count (?es ! i))"
  have g: "group_ok ?es i" by (rule table_group [OF ok i c])
  note n = group_okD [OF g]
  have nf: "\<not> free_at ?es j" if "i \<le> j" "j < i + ?n" for j
    using that not_free_covered [OF ok i, of j] c by (simp add: covers_def)
  have mem: "counter (?es ! j) = 0" if "i < j" "j < i + ?n" for j
    using group_ok_member(1) [OF g that] .
  have cov: "\<not> covers ?es h (i + ?n)" if h: "h < i + ?n" for h
  proof
    assume cv: "covers ?es h (i + ?n)"
    then have "h \<noteq> i" "counter (?es ! h) \<noteq> 0" by (auto simp: covers_def)
    then have "h < i" using mem [of h] h by (cases "i < h") auto
    then have "covers ?es h i" using cv by (auto simp: covers_def)
    with inv \<open>h < i\<close> show False by (simp add: scan_inv_def)
  qed
  have emb: "\<not> embeds m am segs h" if "h < i + ?n" for h
    using inv e mem [of h] that embeds_counter [of m am segs h]
    by (cases "h < i"; cases "h = i") (auto simp: scan_inv_def)
  have "\<not> free_run ?es a segs" if "a + segs \<le> i + ?n" "mt = None" for a
  proof (cases "a + segs \<le> i")
    case False
    then have "a \<le> a + segs - 1" "a + segs - 1 < a + segs" "i \<le> a + segs - 1" "a + segs - 1 < i + ?n"
      using that s by auto
    with nf [of "a + segs - 1"] show ?thesis using free_run_at by blast
  qed (use inv that in \<open>simp add: scan_inv_def\<close>)
  then show ?thesis
    using cov emb n nf [of "i + ?n - 1"] inv s
    by (auto simp: scan_inv_def free_run_def split: option.splits)
qed

lemma scan_correct:
  assumes "alm_wf m" "0 < segs" "scan_inv m am segs i f mt"
  shows "\<exists>r. plx_alm_scan m am segs i f mt = Some r \<and> scan_post m am segs r"
  using assms(3)
proof (induction "unat (segments_num m) - i" arbitrary: i f mt rule: less_induct)
  case less
  let ?es = "entries m"
  have len: "length ?es = unat (segments_num m)" and ok: "table_ok ?es"
    using assms(1) by (auto simp: alm_wf_table)
  consider "unat (segments_num m) \<le> i" | "i < length ?es" "counter (?es ! i) = 0"
    | "i < length ?es" "embeds m am segs i"
    | "i < length ?es" "counter (?es ! i) \<noteq> 0" "\<not> embeds m am segs i" using len by linarith
  then show ?case
  proof cases
    case 1
    then have "i = length ?es" using less.prems len by (simp add: scan_inv_def)
    then have "scan_post m am segs (mt, 0)"
      using less.prems assms(2) free_run_at [of ?es _ segs]
      by (force simp: scan_inv_def scan_post_def free_at_def split: option.splits)
    with 1 show ?thesis by (simp add: scan_end)
  next
    case 2
    show ?thesis
    proof (cases mt)
      case None
      then show ?thesis
        using scan_inv_free [OF _ 2 assms(2)] less.prems less.hyps [of "Suc i"] 2 len
        by (simp add: scan_free)
    next
      case (Some a)
      have "\<not> covers ?es g (Suc i)" if "g < Suc i" for g
        using uncovered_Suc [OF _ 2(2) that] less.prems by (simp add: scan_inv_def)
      then have "scan_inv m am segs (Suc i) f mt"
        using less.prems 2 Some embeds_counter by (auto simp: scan_inv_def less_Suc_eq)
      then show ?thesis
        using Some less.hyps [of "Suc i"] 2 len by (simp add: scan_free)
    qed
  next
    case 3
    then have "scan_post m am segs (Some i, unat ((am - entry_value (?es ! i)) div segment_size m))"
      using embeds_counter [of m am segs i] by (simp add: scan_post_def)
    with 3 len show ?thesis by (simp add: scan_embed)
  next
    case 4
    have pos: "0 < unat (segments_count (?es ! i))"
      using group_okD(1) [OF table_group [OF ok 4(1,2)]] .
    then have nz: "segments_count (?es ! i) \<noteq> 0" by auto
    show ?thesis
      using less.hyps [OF _ scan_inv_skip [OF ok less.prems 4 assms(2)]] pos nz 4 len
      by (simp add: scan_skip)
  qed
qed

lemma scan_inv_0: "0 < segs \<Longrightarrow> scan_inv m am segs 0 0 None"
  by (simp add: scan_inv_def free_run_def)

section \<open>The operations on the groups\<close>

lemma groups_Some:
  "groups es g = Some (v, n, c) \<longleftrightarrow> g < length es \<and> counter (es ! g) \<noteq> 0 \<and>
     v = entry_value (es ! g) \<and> n = unat (segments_count (es ! g)) \<and> c = unat (counter (es ! g))"
  by (auto simp: groups_def)

lemma groups_bounds:
  assumes "table_ok es" "groups es g = Some (v, n, c)"
  shows "0 < n" "g + n \<le> length es" "0 < c"
  using assms group_okD [OF table_group [OF assms(1), of g]]
  by (auto simp: groups_Some unat_gt_0)

lemma groups_covers:
  "groups es g = Some (v, n, c) \<Longrightarrow> g \<le> j \<Longrightarrow> j < g + n \<Longrightarrow> g < length es \<and> covers es g j"
  by (auto simp: groups_Some covers_def)

lemma groups_disjoint:
  assumes "table_ok es" "groups es g = Some (v, n, c)" "groups es h = Some (w, k, d)"
    and "g \<le> j" "j < g + n" "h \<le> j" "j < h + k"
  shows "g = h"
  using covers_start [OF assms(1), of g j] covers_start [OF assms(1), of h j]
    groups_covers [OF assms(2,4,5)] groups_covers [OF assms(3,6,7)] by auto

text \<open>Deleting any segment of a group drops one reference of the group, the last one the group.\<close>

definition drop_ref :: "(nat \<Rightarrow> (u64 \<times> nat \<times> nat) option) \<Rightarrow> nat \<Rightarrow> nat \<Rightarrow>
    (u64 \<times> nat \<times> nat) option" where
  "drop_ref G g =
     (case G g of None \<Rightarrow> G
      | Some (v, n, c) \<Rightarrow> G(g := if c = 1 then None else Some (v, n, c - 1)))"

lemma del_entry_groups:
  assumes wf: "alm_wf m" and g: "groups (entries m) g = Some (v, n, c)" and i: "g \<le> i" "i < g + n"
  shows "\<exists>m'. plx_alm_del_entry m i = Some (m', if c = 1 then Some (g, n) else None) \<and> alm_wf m' \<and>
    segments_num m' = segments_num m \<and> segment_size m' = segment_size m \<and>
    groups (entries m') = drop_ref (groups (entries m)) g"
proof -
  let ?es = "entries m"
  have ok: "table_ok ?es" and len: "length ?es = unat (segments_num m)"
    using wf by (auto simp: alm_wf_table)
  have e: "g < length ?es" "counter (?es ! g) \<noteq> 0" "v = entry_value (?es ! g)"
    "n = unat (segments_count (?es ! g))" "c = unat (counter (?es ! g))"
    using g by (auto simp: groups_Some)
  have st: "unat (start (?es ! i)) = g" and il: "i < length ?es"
    using covers_start [OF ok, of g i] groups_covers [OF g i] groups_bounds(2) [OF ok g] i by auto
  let ?es1 = "?es[g := (?es ! g)\<lparr>counter := counter (?es ! g) - 1\<rparr>]"
  have c1: "counter (?es ! g) - 1 = 0 \<longleftrightarrow> c = 1"
    using e(2,5) unat_pred [OF e(2)] unat_gt_0 [of "counter (?es ! g)"]
    by (metis Suc_diff_1 diff_self_eq_0 One_nat_def unat_0 unat_eq_zero zero_less_iff_neq_zero)
  show ?thesis
  proof (cases "c = 1")
    case True
    obtain es' where es': "clear_entries ?es1 g n = Some es'" "length es' = length ?es"
      "table_ok es'" "groups es' = (groups ?es)(g := None)"
      using clear_group [OF ok e(1,2) refl] e(4) by blast
    then show ?thesis
      using True c1 e st il g len by (auto simp: plx_alm_del_entry_def Let_def drop_ref_def alm_wf_table)
  next
    case False
    then have nz: "counter (?es ! g) - 1 \<noteq> 0" using c1 by simp
    have "table_ok ?es1 \<and> groups ?es1 = (groups ?es)(g \<mapsto> (v, n, c - 1))"
      using count_update [OF ok e(1,2) nz refl] e unat_pred [OF e(2)] by simp
    then show ?thesis
      using False nz e st il g len by (auto simp: plx_alm_del_entry_def Let_def drop_ref_def alm_wf_table)
  qed
qed

text \<open>The clean-up removes exactly the groups that nobody references any more.\<close>

definition drop_unused :: "nat set \<Rightarrow> (nat \<Rightarrow> (u64 \<times> nat \<times> nat) option) \<Rightarrow> nat \<Rightarrow>
    (u64 \<times> nat \<times> nat) option" where
  "drop_unused A G g = (case G g of None \<Rightarrow> None
     | Some (v, n, c) \<Rightarrow> if g \<in> A \<and> c = 1 then None else Some (v, n, c))"

lemma unat_eq_1: "unat (x::u16) = 1 \<longleftrightarrow> x = 1"
  by (metis unat_1 unat_inj)

lemma cleanup_loop_groups:
  assumes "alm_wf m" "set is \<subseteq> {..<length (entries m)}" "distinct is"
  shows "\<exists>m' k. plx_alm_cleanup_loop m is nums = Some (m', nums + k) \<and> alm_wf m' \<and>
    segments_num m' = segments_num m \<and> segment_size m' = segment_size m \<and>
    groups (entries m') = drop_unused (set is) (groups (entries m)) \<and>
    (k = 0 \<longleftrightarrow> (\<forall>g \<in> set is. counter (entries m ! g) \<noteq> 1))"
  using assms
proof (induction "is" arbitrary: m nums)
  case Nil
  then show ?case by (auto simp: drop_unused_def fun_eq_iff split: option.splits)
next
  case (Cons i "is")
  let ?es = "entries m"
  have il: "i < length ?es" "i \<notin> set is" "distinct is" "set is \<subseteq> {..<length ?es}"
    using Cons.prems(2,3) by auto
  show ?case
  proof (cases "counter (?es ! i) = 1")
    case False
    obtain m' k where m': "plx_alm_cleanup_loop m is nums = Some (m', nums + k)" "alm_wf m'"
      "segments_num m' = segments_num m" "segment_size m' = segment_size m"
      "groups (entries m') = drop_unused (set is) (groups ?es)"
      "k = 0 \<longleftrightarrow> (\<forall>g \<in> set is. counter (?es ! g) \<noteq> 1)"
      using Cons.IH [OF Cons.prems(1) il(4,3)] by blast
    have "drop_unused (set is) (groups ?es) = drop_unused (set (i # is)) (groups ?es)"
      using False unat_eq_1 [of "counter (?es ! i)"]
      by (auto simp: drop_unused_def fun_eq_iff groups_def)
    with False m' show ?thesis by auto
  next
    case True
    then have g: "groups ?es i = Some (entry_value (?es ! i), unat (segments_count (?es ! i)), 1)"
      using il by (simp add: groups_def)
    have ok: "table_ok ?es" using Cons.prems(1) by (simp add: alm_wf_table)
    obtain m1 out where m1: "plx_alm_del_entry m i = Some (m1, out)" "alm_wf m1"
      "segments_num m1 = segments_num m" "segment_size m1 = segment_size m"
      "groups (entries m1) = drop_ref (groups ?es) i"
      using del_entry_groups [OF Cons.prems(1) g, of i] groups_bounds(1) [OF ok g] by auto
    have len: "length (entries m1) = length ?es"
      using m1 Cons.prems(1) by (simp add: alm_wf_table)
    obtain m' k where m': "plx_alm_cleanup_loop m1 is (nums + 1) = Some (m', nums + 1 + k)" "alm_wf m'"
      "segments_num m' = segments_num m1" "segment_size m' = segment_size m1"
      "groups (entries m') = drop_unused (set is) (groups (entries m1))"
      using Cons.IH [OF m1(2), of "nums + 1"] il len by auto
    have "drop_unused (set is) (drop_ref (groups ?es) i) = drop_unused (set (i # is)) (groups ?es)"
      using g by (auto simp: drop_unused_def drop_ref_def fun_eq_iff split: option.splits)
    then have "plx_alm_cleanup_loop m (i # is) nums = Some (m', nums + Suc k) \<and> alm_wf m' \<and>
      segments_num m' = segments_num m \<and> segment_size m' = segment_size m \<and>
      groups (entries m') = drop_unused (set (i # is)) (groups ?es)"
      using True m1 m' by simp
    with True show ?thesis by (intro exI [of _ m'] exI [of _ "Suc k"]) simp
  qed
qed

lemma cleanup_groups:
  assumes "alm_wf m"
  shows "\<exists>m' k. plx_alm_cleanup_unused_entry m = Some (m', k) \<and> alm_wf m' \<and>
    segments_num m' = segments_num m \<and> segment_size m' = segment_size m \<and>
    groups (entries m') = drop_unused UNIV (groups (entries m)) \<and>
    (k = 0 \<longrightarrow> groups (entries m') = groups (entries m))"
proof -
  let ?is = "[0..<unat (segments_num m)]" and ?G = "groups (entries m)"
  have len: "length (entries m) = unat (segments_num m)" using assms by (simp add: alm_wf_table)
  then have "set ?is \<subseteq> {..<length (entries m)}" by auto
  from cleanup_loop_groups [OF assms this, of 0] obtain m' k where
    m': "plx_alm_cleanup_loop m ?is 0 = Some (m', k)" "alm_wf m'"
      "segments_num m' = segments_num m" "segment_size m' = segment_size m"
      "groups (entries m') = drop_unused (set ?is) ?G"
      "k = 0 \<longleftrightarrow> (\<forall>g \<in> set ?is. counter (entries m ! g) \<noteq> 1)" by auto
  have "drop_unused (set ?is) ?G = drop_unused UNIV ?G"
    using len by (auto simp: drop_unused_def fun_eq_iff groups_def)
  moreover have "drop_unused UNIV ?G = ?G" if "k = 0"
    using that m'(6) len unat_eq_1 by (auto simp: drop_unused_def fun_eq_iff groups_def)
  ultimately show ?thesis
    using m' by (auto simp: plx_alm_cleanup_unused_entry_def)
qed

section \<open>The arithmetic of a request\<close>

definition alm_geom :: "plx_alm \<Rightarrow> bool" where
  "alm_geom m \<longleftrightarrow> is_power_of_2 (segment_size m) \<and> unat (segments_num m) < 65536 \<and>
     unat (segment_size m) * (unat (segments_num m) + 2) \<le> 2 ^ 64"

definition aligned :: "plx_alm \<Rightarrow> u64 \<Rightarrow> bool" where
  "aligned m a \<longleftrightarrow> a AND alm_mask m = 0"

lemma and_pow2_mask:
  assumes "is_power_of_2 (s::u64)"
  shows "unat (a AND (s - 1)) = unat a mod unat s"
proof -
  obtain k where k: "unat s = 2 ^ k" using assms is_power_of_2_iff by blast
  have "s \<noteq> 0" using assms by (simp add: is_power_of_2_def)
  then have "unat (s - 1) = 2 ^ k - 1" using unat_pred k by metis
  then show ?thesis by (simp add: unsigned_and_eq and_mask_nat_Suc k)
qed

lemma aligned_mod: "alm_geom m \<Longrightarrow> aligned m a \<longleftrightarrow> unat a mod unat (segment_size m) = 0"
  using and_pow2_mask [of "segment_size m" a]
  by (auto simp: aligned_def alm_mask_def alm_geom_def unat_eq_zero)

lemma masked_aligned [simp]: "aligned m (a AND NOT (alm_mask m))"
  by (simp add: aligned_def and.assoc)

lemma masked_split: "(a AND NOT s) + (a AND s) = (a::u64)"
proof -
  have "(a AND NOT s) + (a AND s) = (a AND NOT s) OR (a AND s)"
    by (rule disjunctive_add_eq_or, rule bit_word_eqI) (auto simp: bit_simps)
  also have "\<dots> = a" by (rule bit_word_eqI) (auto simp: bit_simps)
  finally show ?thesis .
qed

lemma alm_segments_props:
  fixes m :: plx_alm and addr bytes :: u64
  assumes geom: "alm_geom m" and b: "bytes \<noteq> 0" "\<not> segment_size m * ucast (segments_num m) < bytes"
  defines "off \<equiv> unat (addr AND alm_mask m)" and "segs \<equiv> unat (alm_segments m addr bytes)"
    and "S \<equiv> unat (segment_size m)"
  shows "0 < segs" "off < S" "off + unat bytes \<le> segs * S" "off + unat bytes + S > segs * S"
proof -
  have S: "0 < S" using geom by (auto simp: S_def alm_geom_def is_power_of_2_def unat_gt_0)
  have off: "off = unat addr mod S"
    using geom and_pow2_mask by (simp add: off_def S_def alm_mask_def alm_geom_def)
  then show ls: "off < S" using S by simp
  have n: "unat (segments_num m) < 65536" "S * (unat (segments_num m) + 2) \<le> 2 ^ 64"
    using geom by (auto simp: alm_geom_def S_def)
  have un: "unat (ucast (segments_num m) :: u64) = unat (segments_num m)"
    using n(1) by (simp add: unsigned_ucast_eq take_bit_nat_eq_self)
  have "S * unat (segments_num m) < 2 ^ 64" using n(2) S by simp
  then have "unat (segment_size m * ucast (segments_num m)) = S * unat (segments_num m)"
    by (simp add: unat_word_ariths un S_def)
  then have bs: "unat bytes \<le> S * unat (segments_num m)"
    using b(2) by (simp add: word_less_nat_alt)
  have b0: "0 < unat bytes" using b(1) by (simp add: unat_gt_0)
  have tot: "off + unat bytes + S < 2 ^ 64" using bs ls n(2) by (simp add: algebra_simps)
  then have "unat ((addr AND alm_mask m) + bytes) = off + unat bytes"
    by (simp add: unat_word_ariths off_def)
  with tot have s3: "unat ((addr AND alm_mask m) + bytes + segment_size m) = off + unat bytes + S"
    by (simp add: unat_word_ariths S_def)
  moreover from s3 S have "(addr AND alm_mask m) + bytes + segment_size m \<noteq> 0"
    by (metis add_is_0 less_numeral_extra(3) unat_0)
  ultimately have s4: "unat ((addr AND alm_mask m) + bytes + segment_size m - 1) = off + unat bytes + S - 1"
    by (simp add: unat_pred)
  let ?q = "(off + unat bytes + S - 1) div S"
  have "off + unat bytes + S - 1 < (unat (segments_num m) + 2) * S"
    using bs ls S by (simp add: algebra_simps)
  then have "?q < unat (segments_num m) + 2" using S by (simp add: less_mult_imp_div_less)
  then have "?q < 2 ^ 32" using n(1) by simp
  then have segs: "segs = ?q"
    by (simp add: segs_def alm_segments_def unsigned_ucast_eq unat_div s4 S_def [symmetric]
        take_bit_nat_eq_self)
  have d: "segs * S + (off + unat bytes + S - 1) mod S = off + unat bytes + S - 1"
    unfolding segs by simp
  have m: "(off + unat bytes + S - 1) mod S < S" using S by simp
  show "0 < segs" using segs S b0 by (simp add: div_greater_zero_iff)
  show "off + unat bytes \<le> segs * S" using d m S by linarith
  show "off + unat bytes + S > segs * S" using d S by linarith
qed

section \<open>Adding an entry\<close>

definition alm_inv :: "plx_alm \<Rightarrow> bool" where
  "alm_inv m \<longleftrightarrow> alm_wf m \<and> alm_geom m \<and>
     (\<forall>g v n c. groups (entries m) g = Some (v, n, c) \<longrightarrow> aligned m v)"

definition same_geom :: "plx_alm \<Rightarrow> plx_alm \<Rightarrow> bool" where
  "same_geom m m' \<longleftrightarrow> segments_num m' = segments_num m \<and> segment_size m' = segment_size m"

text \<open>No reference counter is at its largest value.\<close>

definition alm_room :: "plx_alm \<Rightarrow> bool" where
  "alm_room m \<longleftrightarrow> (\<forall>g v n c. groups (entries m) g = Some (v, n, c) \<longrightarrow> c < 65535)"

lemma alm_inv_same:
  assumes "alm_inv m" "same_geom m m'" "alm_wf m'"
    and "\<And>g v n c. groups (entries m') g = Some (v, n, c) \<Longrightarrow> aligned m v"
  shows "alm_inv m'"
  using assms by (auto simp: alm_inv_def same_geom_def alm_geom_def aligned_def alm_mask_def)

lemma embed_exact:
  assumes "alm_geom m" "aligned m am" "aligned m v" "v \<le> am"
  shows "v + word_of_nat (unat ((am - v) div segment_size m)) * segment_size m = am"
proof -
  let ?S = "segment_size m"
  have "unat ?S dvd unat am" "unat ?S dvd unat v"
    using assms by (auto simp: aligned_mod dvd_eq_mod_eq_0)
  then have "unat ?S dvd unat (am - v)" using assms(4) by (simp add: unat_sub)
  then have "unat ((am - v) div ?S) * unat ?S = unat (am - v)" by (simp add: unat_div)
  then have "unat ((am - v) div ?S * ?S) = unat (am - v)"
    by (metis unat_word_ariths(2) mod_less unsigned_less)
  then have "(am - v) div ?S * ?S = am - v" by (rule unat_inj)
  then show ?thesis by simp
qed

text \<open>What a successful allocation of \<open>segs\<close> segments for the address \<open>am\<close> does to the groups.\<close>

definition added :: "plx_alm \<Rightarrow> u64 \<Rightarrow> nat \<Rightarrow> add_rc \<Rightarrow> nat \<Rightarrow> plx_alm \<Rightarrow> bool" where
  "added m am segs rc i m' \<longleftrightarrow>
     (case rc of
        Added \<Rightarrow> i + segs \<le> unat (segments_num m) \<and> free_run (entries m) i segs \<and>
          groups (entries m') = (groups (entries m))(i \<mapsto> (am, segs, 2))
      | Exists \<Rightarrow> (\<exists>g v n c. groups (entries m) g = Some (v, n, c) \<and> g \<le> i \<and> i + segs \<le> g + n \<and>
          v + word_of_nat (i - g) * segment_size m = am \<and>
          groups (entries m') = (groups (entries m))(g \<mapsto> (v, n, c + 1))))"

lemma try_add_fresh:
  assumes inv: "alm_inv m" and am: "aligned m am" and segs: "0 < segs"
    and sc: "plx_alm_scan m am segs 0 0 None = Some (Some a, k)"
    and post: "scan_post m am segs (Some a, k)" and c: "counter (entries m ! a) = 0"
  shows "\<exists>m'. plx_alm_try_add m am segs = Some (Inr (Added, a, m')) \<and> alm_inv m' \<and> same_geom m m' \<and>
    added m am segs Added a m'"
proof -
  let ?es = "entries m"
  have ok: "table_ok ?es" and len: "length ?es = unat (segments_num m)"
    and N: "unat (segments_num m) < 65536"
    using inv by (auto simp: alm_inv_def alm_wf_table alm_geom_def)
  have p: "k = 0" "a + segs \<le> length ?es" "free_run ?es a segs"
    using post c by (auto simp: scan_post_def)
  let ?es1 = "plx_alm_fill ?es a segs am"
  let ?es2 = "?es1[a := (?es1 ! a)\<lparr>counter := 2\<rparr>]"
  have t: "table_ok ?es2 \<and> groups ?es2 = (groups ?es)(a \<mapsto> (am, segs, unat (2::u16)))"
    by (rule fill_group [OF ok]) (use p segs len N in \<open>auto simp: free_run_def\<close>)
  let ?m = "m\<lparr>entries := ?es2\<rparr>"
  have l1: "length ?es1 = length ?es" "a < length ?es" using fill_nth(1) [OF p(2)] p(2) segs by auto
  have "plx_alm_try_add m am segs = Some (Inr (Added, a, ?m))"
    using sc c p(1) l1 by (simp add: plx_alm_try_add_def Let_def)
  moreover have "alm_wf ?m" using t len l1 by (simp add: alm_wf_table)
  moreover have "alm_inv ?m"
    by (rule alm_inv_same [OF inv]) (use t am inv len l1 in
      \<open>auto simp: same_geom_def alm_wf_table alm_inv_def split: if_splits\<close>)
  moreover have "added m am segs Added a ?m" using p t len by (simp add: added_def)
  ultimately show ?thesis by (auto simp: same_geom_def)
qed

lemma try_add_exists:
  assumes inv: "alm_inv m" and am: "aligned m am" and room: "alm_room m"
    and sc: "plx_alm_scan m am segs 0 0 None = Some (Some g, k)"
    and post: "scan_post m am segs (Some g, k)" and c: "counter (entries m ! g) \<noteq> 0"
  shows "\<exists>m'. plx_alm_try_add m am segs = Some (Inr (Exists, g + k, m')) \<and> alm_inv m' \<and>
    same_geom m m' \<and> added m am segs Exists (g + k) m'"
proof -
  let ?es = "entries m"
  let ?e = "?es ! g"
  have ok: "table_ok ?es" and len: "length ?es = unat (segments_num m)"
    using inv by (auto simp: alm_inv_def alm_wf_table)
  have p: "g < length ?es" "embeds m am segs g" "k = unat ((am - entry_value ?e) div segment_size m)"
    using post c by (auto simp: scan_post_def)
  define n where "n = unat (segments_count ?e)"
  have G: "groups ?es g = Some (entry_value ?e, n, unat (counter ?e))"
    using p c by (simp add: groups_def n_def)
  have lt: "unat (counter ?e) < 65535" using room G by (auto simp: alm_room_def)
  then have u: "unat (counter ?e + 1) = unat (counter ?e) + 1" by (simp add: unat_word_ariths)
  then have nz: "counter ?e + 1 \<noteq> 0" by (metis add_is_0 one_neq_zero unat_0)
  let ?es2 = "?es[g := ?e\<lparr>counter := counter ?e + 1\<rparr>]"
  have t: "table_ok ?es2 \<and> groups ?es2 = (groups ?es)(g \<mapsto> (entry_value ?e, n, unat (counter ?e) + 1))"
    using count_update [OF ok p(1) c nz refl] u by (simp add: n_def)
  let ?m = "m\<lparr>entries := ?es2\<rparr>"
  have "aligned m (entry_value ?e)" using inv G by (auto simp: alm_inv_def)
  then have ex: "entry_value ?e + word_of_nat k * segment_size m = am"
    using embed_exact [of m am "entry_value ?e"] inv am p by (simp add: alm_inv_def embeds_def Let_def)
  have "plx_alm_try_add m am segs = Some (Inr (Exists, g + k, ?m))"
    using sc c by (simp add: plx_alm_try_add_def Let_def)
  moreover have "alm_inv ?m"
    by (rule alm_inv_same [OF inv]) (use t G inv len in
      \<open>auto simp: same_geom_def alm_wf_table alm_inv_def split: if_splits\<close>)
  moreover have "k + segs \<le> n" using p by (simp add: embeds_def Let_def n_def)
  then have "added m am segs Exists (g + k) ?m"
    unfolding added_def add_rc.case
    by (intro exI [of _ g] exI [of _ "entry_value ?e"] exI [of _ n] exI [of _ "unat (counter ?e)"])
      (use G t ex in simp)
  ultimately show ?thesis by (auto simp: same_geom_def)
qed

lemma try_add_cases:
  assumes inv: "alm_inv m" "aligned m am" "0 < segs" "alm_room m"
  obtains "plx_alm_try_add m am segs = Some (Inl ())" "scan_post m am segs (None, 0)"
  | rc i m' where "plx_alm_try_add m am segs = Some (Inr (rc, i, m'))" "alm_inv m'" "same_geom m m'"
      "added m am segs rc i m'"
proof -
  have "alm_wf m" using inv(1) by (simp add: alm_inv_def)
  from scan_correct [OF this inv(3) scan_inv_0 [OF inv(3)], of am] obtain mt k where
    r: "plx_alm_scan m am segs 0 0 None = Some (mt, k)" "scan_post m am segs (mt, k)" by auto
  show ?thesis
  proof (cases mt)
    case None
    then show ?thesis using r that(1) by (simp add: plx_alm_try_add_def scan_post_def)
  next
    case (Some a)
    then show ?thesis
      using r that(2) try_add_fresh [OF inv(1,2,3), of a k] try_add_exists [OF inv(1,2,4), of segs a k]
      by (cases "counter (entries m ! a) = 0") blast+
  qed
qed

definition alm_fits :: "plx_alm \<Rightarrow> u64 \<Rightarrow> bool" where
  "alm_fits m bytes \<longleftrightarrow> bytes \<noteq> 0 \<and> \<not> segment_size m * ucast (segments_num m) < bytes"

definition no_place :: "plx_alm \<Rightarrow> u64 \<Rightarrow> nat \<Rightarrow> bool" where
  "no_place m am segs \<longleftrightarrow> scan_post m am segs (None, 0)"

definition add_post :: "plx_alm \<Rightarrow> u64 \<Rightarrow> u64 \<Rightarrow> (errno + add_rc \<times> nat \<times> nat) \<times> plx_alm \<Rightarrow> bool" where
  "add_post m addr bytes = (\<lambda>(r, m').
     (case r of
        Inr (rc, i, n) \<Rightarrow> n = unat (alm_segments m addr bytes) \<and> alm_fits m bytes \<and>
          (\<exists>m1. alm_inv m1 \<and> same_geom m m1 \<and>
             (groups (entries m1) = groups (entries m) \<or>
              groups (entries m1) = drop_unused UNIV (groups (entries m))) \<and>
             added m1 (addr AND NOT (alm_mask m)) n rc i m')
      | Inl e \<Rightarrow> e = ENOMEM \<and>
          (if alm_fits m bytes
           then groups (entries m') = drop_unused UNIV (groups (entries m)) \<and>
             no_place m' (addr AND NOT (alm_mask m)) (unat (alm_segments m addr bytes))
           else m' = m)))"

lemma drop_unused_idem [simp]: "drop_unused UNIV (drop_unused UNIV G) = drop_unused UNIV G"
  by (auto simp: drop_unused_def fun_eq_iff split: option.splits)

lemma drop_unused_Some:
  "drop_unused UNIV G g = Some (v, n, c) \<longleftrightarrow> G g = Some (v, n, c) \<and> c \<noteq> 1"
  by (auto simp: drop_unused_def split: option.splits)

lemma same_geom_fields:
  "same_geom m m' \<Longrightarrow> segment_size m' = segment_size m \<and> segments_num m' = segments_num m \<and>
     alm_mask m' = alm_mask m \<and> alm_segments m' = alm_segments m \<and> alm_fits m' = alm_fits m \<and>
     alm_geom m' = alm_geom m"
  by (simp add: same_geom_def alm_mask_def alm_segments_def alm_fits_def alm_geom_def fun_eq_iff)

lemma same_geom_trans: "same_geom a b \<Longrightarrow> same_geom b c \<Longrightarrow> same_geom a c"
  by (simp add: same_geom_def)

lemma add_post_cleaned:
  assumes "same_geom m m1" "groups (entries m1) = drop_unused UNIV (groups (entries m))"
    and "alm_fits m bytes" "add_post m1 addr bytes r"
  shows "add_post m addr bytes r"
  using assms(2-4) same_geom_fields [OF assms(1)] same_geom_trans [OF assms(1)]
  by (simp add: add_post_def split: sum.splits prod.splits) metis

text \<open>
  The clean-up is complete after one round: if no group was released, the table is unchanged and the
  search has already failed on it.
\<close>

lemma cleanup_nothing: "plx_alm_cleanup_loop m is k = Some (m', k) \<Longrightarrow> m' = m"
proof (induction m "is" k rule: plx_alm_cleanup_loop.induct)
  case (2 m i "is" nums)
  have "nums + 1 \<le> nums'" if "plx_alm_cleanup_loop q is (nums + 1) = Some (q', nums')" for q q' nums'
    using cleanup_loop_total [OF that] by simp
  with 2 show ?case by (fastforce split: if_splits option.splits)
qed simp

lemma add_entry_spec:
  assumes "alm_inv m" "alm_room m"
  shows "\<exists>r m'. plx_alm_add_entry m addr bytes = Some (r, m') \<and> alm_inv m' \<and> same_geom m m' \<and>
    add_post m addr bytes (r, m')"
  using assms
proof (induction "alm_total m" arbitrary: m rule: less_induct)
  case less
  note inv = less.prems
  let ?am = "addr AND NOT (alm_mask m)" and ?n = "unat (alm_segments m addr bytes)"
  have wf: "alm_wf m" and geom: "alm_geom m" using inv(1) by (auto simp: alm_inv_def)
  then have S: "segment_size m \<noteq> 0" by (simp add: alm_geom_def is_power_of_2_def)
  have refl: "same_geom m m" by (simp add: same_geom_def)
  show ?case
  proof (cases "alm_fits m bytes")
    case False
    then have "plx_alm_add_entry m addr bytes = Some (Inl ENOMEM, m)"
      using S by (subst plx_alm_add_entry.simps) (auto simp: alm_fits_def)
    with False inv(1) refl show ?thesis by (auto simp: add_post_def)
  next
    case True
    then have n: "0 < ?n"
      using alm_segments_props(1) [OF geom, of bytes addr] by (simp add: alm_fits_def)
    have step: "plx_alm_add_entry m addr bytes =
      (case plx_alm_try_add m ?am ?n of
          None \<Rightarrow> None
        | Some (Inr (rc, out_id, m')) \<Rightarrow> Some (Inr (rc, out_id, ?n), m')
        | Some (Inl _) \<Rightarrow>
            (case plx_alm_cleanup_unused_entry m of
               None \<Rightarrow> None
             | Some (m', nums) \<Rightarrow>
                 if nums \<noteq> 0 then plx_alm_add_entry m' addr bytes else Some (Inl ENOMEM, m')))"
      using S True by (subst plx_alm_add_entry.simps) (simp add: alm_fits_def Let_def)
    show ?thesis
    proof (rule try_add_cases [OF inv(1) masked_aligned n inv(2), of addr])
      fix rc i m'
      assume a: "plx_alm_try_add m ?am ?n = Some (Inr (rc, i, m'))" "alm_inv m'" "same_geom m m'"
        "added m ?am ?n rc i m'"
      then have "add_post m addr bytes (Inr (rc, i, ?n), m')"
        using True inv(1) refl by (auto simp: add_post_def)
      with a step show ?thesis by auto
    next
      assume a: "plx_alm_try_add m ?am ?n = Some (Inl ())" "scan_post m ?am ?n (None, 0)"
      obtain m1 k where m1: "plx_alm_cleanup_unused_entry m = Some (m1, k)" "alm_wf m1"
        "same_geom m m1" "groups (entries m1) = drop_unused UNIV (groups (entries m))"
        using cleanup_groups [OF wf] by (auto simp: same_geom_def)
      have "aligned m v" if "groups (entries m1) g = Some (v, l, c)" for g v l c
        using inv(1) m1(4) that by (simp add: alm_inv_def drop_unused_Some) blast
      then have inv1: "alm_inv m1" by (rule alm_inv_same [OF inv(1) m1(3,2)])
      have room1: "alm_room m1" using inv(2) m1(4) by (auto simp: alm_room_def drop_unused_Some)
      show ?thesis
      proof (cases "k = 0")
        case True
        then have "m1 = m"
          using m1(1) cleanup_nothing by (simp add: plx_alm_cleanup_unused_entry_def)
        then show ?thesis
          using True \<open>alm_fits m bytes\<close> a step m1 inv1 by (auto simp: add_post_def no_place_def)
      next
        case False
        then have "alm_total m1 < alm_total m"
          using m1(1) cleanup_loop_total by (auto simp: plx_alm_cleanup_unused_entry_def)
        from less.hyps [OF this inv1 room1] obtain r m' where
          r: "plx_alm_add_entry m1 addr bytes = Some (r, m')" "alm_inv m'" "same_geom m1 m'"
          "add_post m1 addr bytes (r, m')" by blast
        moreover have "add_post m addr bytes (r, m')"
          using add_post_cleaned [OF m1(3,4) \<open>alm_fits m bytes\<close> r(4)] .
        ultimately show ?thesis
          using False a step m1 same_geom_trans by auto
      qed
    qed
  qed
qed

lemma added_place:
  assumes "added m am segs rc i m'" "alm_inv m" "0 < segs"
  shows "\<exists>g v n c. groups (entries m') g = Some (v, n, c) \<and> 2 \<le> c \<and> g \<le> i \<and> i + segs \<le> g + n \<and>
    v + word_of_nat (i - g) * segment_size m = am"
proof (cases rc)
  case Added
  with assms(1) show ?thesis by (auto simp: added_def)
next
  case Exists
  then obtain g v n c where g: "groups (entries m) g = Some (v, n, c)" "g \<le> i" "i + segs \<le> g + n"
    "v + word_of_nat (i - g) * segment_size m = am"
    "groups (entries m') = (groups (entries m))(g \<mapsto> (v, n, c + 1))"
    using assms(1) by (auto simp: added_def)
  moreover have "0 < c" using groups_bounds(3) [OF _ g(1)] assms(2) by (simp add: alm_inv_def alm_wf_table)
  ultimately show ?thesis by auto
qed

lemma added_keeps:
  assumes "added m am segs rc i m'" "0 < segs" "groups (entries m) h = Some (v, n, c)"
  shows "\<exists>c' \<ge> c. groups (entries m') h = Some (v, n, c')"
proof (cases rc)
  case Added
  then have "free_at (entries m) i" "groups (entries m') = (groups (entries m))(i \<mapsto> (am, segs, 2))"
    using assms(1,2) by (auto simp: added_def intro: free_run_at)
  moreover from this(1) have "h \<noteq> i" using assms(3) by (auto simp: free_at_def groups_Some)
  ultimately show ?thesis using assms(3) by simp
next
  case Exists
  then obtain g v' n' c' where "groups (entries m) g = Some (v', n', c')"
    "groups (entries m') = (groups (entries m))(g \<mapsto> (v', n', c' + 1))"
    using assms(1) by (auto simp: added_def)
  with assms(3) show ?thesis by (cases "h = g") auto
qed

lemma add_entry_Inr:
  assumes "alm_inv m" "alm_room m" "plx_alm_add_entry m addr bytes = Some (Inr (rc, i, n), m')"
  obtains m1 where "alm_inv m1" "same_geom m m1" "alm_inv m'" "same_geom m m'"
    "groups (entries m1) = groups (entries m) \<or>
     groups (entries m1) = drop_unused UNIV (groups (entries m))"
    "added m1 (addr AND NOT (alm_mask m)) n rc i m'" "alm_fits m bytes"
    "n = unat (alm_segments m addr bytes)" "0 < n"
proof -
  have p: "add_post m addr bytes (Inr (rc, i, n), m')" "alm_inv m'" "same_geom m m'"
    using add_entry_spec [OF assms(1,2), of addr bytes] assms(3) by auto
  then have "0 < n"
    using alm_segments_props(1) [of m bytes addr] assms(1)
    by (auto simp: add_post_def alm_fits_def alm_inv_def)
  with p that show ?thesis by (auto simp: add_post_def)
qed

section \<open>Properties\<close>

lemma groups_empty [simp]: "groups (replicate n empty_entry) g = None"
  by (simp add: groups_def empty_entry_def)

lemma alm_inv_empty:
  assumes "alm_geom m" "entries m = replicate (unat (segments_num m)) empty_entry"
  shows "alm_inv m" "alm_room m"
  using assms
  by (auto simp: alm_inv_def alm_wf_def alm_room_def entry_ok_def entry_zero_def empty_entry_def groups_def)

definition alm_sample :: plx_alm where
  "alm_sample = \<lparr>segments_num = 4, segment_size = 4096, entries = replicate 4 empty_entry\<rparr>"

lemma alm_sample_ok: "alm_inv alm_sample" "alm_room alm_sample"
proof -
  have "is_power_of_2 (4096::u64)" by (simp add: is_power_of_2_def)
  then have "alm_geom alm_sample" by (simp add: alm_geom_def alm_sample_def)
  moreover have "entries alm_sample = replicate (unat (segments_num alm_sample)) empty_entry"
    by (simp add: alm_sample_def)
  ultimately show "alm_inv alm_sample" "alm_room alm_sample" by (rule alm_inv_empty)+
qed

text \<open>The sample table with one mapping in use, and with the same mapping released.\<close>

definition alm_sample_used :: plx_alm where
  "alm_sample_used = alm_sample\<lparr>entries :=
     [\<lparr>entry_value = 0x5000, counter = 2, segments_count = 2, start = 0\<rparr>,
      empty_entry, empty_entry, empty_entry]\<rparr>"

lemma alm_roomI: "list_all (\<lambda>e. counter e \<noteq> 65535) (entries m) \<Longrightarrow> alm_room m"
proof -
  assume a: "list_all (\<lambda>e. counter e \<noteq> 65535) (entries m)"
  have "unat x < 65535" if "x \<noteq> 65535" for x :: u16
    using that u16_less [of x] unat_inj [of x "65535"] by (cases "unat x = 65535") auto
  with a show ?thesis by (simp add: alm_room_def groups_Some list_all_length)
qed

lemma alm_sample_add:
  "plx_alm_add_entry alm_sample 0x5010 0x1800 = Some (Inr (Added, 0, 2), alm_sample_used)"
  by code_simp

lemma alm_sample_used_ok: "alm_inv alm_sample_used" "alm_room alm_sample_used"
proof -
  show "alm_inv alm_sample_used"
    using add_entry_spec [OF alm_sample_ok, of "0x5010" "0x1800"] alm_sample_add by simp
  show "alm_room alm_sample_used"
    by (rule alm_roomI) (simp add: alm_sample_used_def empty_entry_def)
qed

lemma alm_sample_used_group: "groups (entries alm_sample_used) 0 = Some (0x5000, 2, 2)"
  by (simp add: groups_def alm_sample_used_def)

text \<open>
  C31: The consistency checker \<open>plx_alm_check\<close> passes (does not stop at its \<open>BUG_ON\<close>) exactly on the
  well-formed tables: its walk over the groups decides the pointwise definition.
\<close>
theorem alm_check_iff:
  "length (entries m) = unat (segments_num m) \<Longrightarrow> plx_alm_check m = Some () \<longleftrightarrow> alm_wf m"
  by (simp add: plx_alm_check_def check_loop_iff alm_wf_def)

theorem alm_check_iff_witness:
  "plx_alm_check alm_sample = Some () \<longleftrightarrow> alm_wf alm_sample"
  by (rule alm_check_iff) (simp add: alm_sample_def)

lemma alm_init_eq:
  "plx_alm_init kzalloc_ok n aper_len =
     (if n \<noteq> 0 \<and> kzalloc_ok
      then Some \<lparr>segments_num = n, segment_size = aper_len div ucast n,
                 entries = replicate (unat n) empty_entry\<rparr>
      else None)"
  by (simp add: plx_alm_init_def Let_def plx_alm_check_def check_loop_iff entry_ok_def entry_zero_def
      empty_entry_def)

text \<open>
  \<open>plx_alm_init\<close> returns exactly when there is a segment and the allocation succeeds, and then
  yields an empty table of the given number of segments; when the allocation fails the function does
  not return \<open>-ENOMEM\<close> as documented, since the checker reads the missing table.
\<close>
theorem alm_init_result:
  "plx_alm_init kzalloc_ok n aper_len =
     (if n \<noteq> 0 \<and> kzalloc_ok
      then Some \<lparr>segments_num = n, segment_size = aper_len div ucast n,
                 entries = replicate (unat n) empty_entry\<rparr>
      else None)"
  by (rule alm_init_eq)

text \<open>
  C2: \<open>plx_alm_add_entry\<close> always returns on a consistent table and keeps it consistent. A successful
  call names \<open>n\<close> segments that lie inside one group held by the caller (counter at least 2), the
  first of which translates to the requested address rounded down to a segment.
\<close>
theorem alm_add_entry_sound:
  assumes "alm_inv m" "alm_room m"
  shows "\<exists>r m'. plx_alm_add_entry m addr bytes = Some (r, m') \<and> alm_inv m' \<and>
    (\<forall>rc i n. r = Inr (rc, i, n) \<longrightarrow>
       unat (addr AND alm_mask m) + unat bytes \<le> n * unat (segment_size m) \<and>
       (\<exists>g v k c. groups (entries m') g = Some (v, k, c) \<and> 2 \<le> c \<and> g \<le> i \<and> i + n \<le> g + k \<and>
         v + word_of_nat (i - g) * segment_size m = addr AND NOT (alm_mask m)))"
proof -
  obtain r m' where r: "plx_alm_add_entry m addr bytes = Some (r, m')" "alm_inv m'"
    using add_entry_spec [OF assms] by blast
  have geom: "alm_geom m" using assms(1) by (simp add: alm_inv_def)
  have "unat (addr AND alm_mask m) + unat bytes \<le> n * unat (segment_size m) \<and>
       (\<exists>g v k c. groups (entries m') g = Some (v, k, c) \<and> 2 \<le> c \<and> g \<le> i \<and> i + n \<le> g + k \<and>
         v + word_of_nat (i - g) * segment_size m = addr AND NOT (alm_mask m))"
    if e: "r = Inr (rc, i, n)" for rc i n
  proof -
    from add_entry_Inr [OF assms r(1) [unfolded e]] obtain m1 where m1: "alm_inv m1"
      "same_geom m m1" "added m1 (addr AND NOT (alm_mask m)) n rc i m'" "alm_fits m bytes"
      "n = unat (alm_segments m addr bytes)" "0 < n" by metis
    then show ?thesis
      using added_place [OF m1(3,1,6)] same_geom_fields [OF m1(2)]
        alm_segments_props(3) [OF geom, of bytes addr]
      by (simp add: alm_fits_def)
  qed
  with r show ?thesis by blast
qed

theorem alm_add_entry_sound_witness:
  "\<exists>r m'. plx_alm_add_entry alm_sample 0x5010 0x1800 = Some (r, m') \<and> alm_inv m' \<and>
    (\<forall>rc i n. r = Inr (rc, i, n) \<longrightarrow>
       unat ((0x5010::u64) AND alm_mask alm_sample) + unat (0x1800::u64) \<le> n * unat (segment_size alm_sample) \<and>
       (\<exists>g v k c. groups (entries m') g = Some (v, k, c) \<and> 2 \<le> c \<and> g \<le> i \<and> i + n \<le> g + k \<and>
         v + word_of_nat (i - g) * segment_size alm_sample = 0x5010 AND NOT (alm_mask alm_sample)))"
  by (rule alm_add_entry_sound [OF alm_sample_ok])

text \<open>
  C25: Lazy unmapping is safe: whatever an allocation does, including reclaiming the groups nobody
  references, every group that is still referenced keeps its place, its translation and its length,
  and does not lose references.
\<close>
theorem alm_add_entry_keeps_used:
  assumes "alm_inv m" "alm_room m" "plx_alm_add_entry m addr bytes = Some (r, m')"
    and "groups (entries m) h = Some (v, n, c)" "2 \<le> c"
  shows "\<exists>c' \<ge> c. groups (entries m') h = Some (v, n, c')"
proof (cases r)
  case (Inl e)
  have "add_post m addr bytes (r, m')"
    using add_entry_spec [OF assms(1,2), of addr bytes] assms(3) by auto
  with Inl assms(4,5) show ?thesis
    by (auto simp: add_post_def drop_unused_def split: if_splits)
next
  case (Inr b)
  obtain rc i k where b: "b = (rc, i, k)" by (cases b)
  from add_entry_Inr [OF assms(1,2) assms(3) [unfolded Inr b]] obtain m1 where m1:
    "groups (entries m1) = groups (entries m) \<or>
     groups (entries m1) = drop_unused UNIV (groups (entries m))"
    "added m1 (addr AND NOT (alm_mask m)) k rc i m'" "0 < k" by metis
  have "groups (entries m1) h = Some (v, n, c)"
    using m1(1) assms(4,5) by (auto simp: drop_unused_def)
  then show ?thesis by (rule added_keeps [OF m1(2,3)])
qed

theorem alm_add_entry_keeps_used_witness:
  "\<exists>c' \<ge> 2. groups (entries (snd (the (plx_alm_add_entry alm_sample_used 0x9000 0x2000)))) 0 =
     Some (0x5000, 2, c')"
proof -
  obtain r m' where "plx_alm_add_entry alm_sample_used 0x9000 0x2000 = Some (r, m')"
    using add_entry_spec [OF alm_sample_used_ok] by blast
  with alm_add_entry_keeps_used [OF alm_sample_used_ok this alm_sample_used_group] show ?thesis by simp
qed

text \<open>
  C30: An allocation of an admissible size fails only when it must: the table left behind holds no
  unreferenced group any more, has no run of free segments of the needed length, and no group that
  covers the requested range.
\<close>
theorem alm_add_entry_complete:
  assumes "alm_inv m" "alm_room m" "plx_alm_add_entry m addr bytes = Some (Inl e, m')"
    and "bytes \<noteq> 0" "\<not> segment_size m * ucast (segments_num m) < bytes"
  shows "e = ENOMEM \<and> groups (entries m') = drop_unused UNIV (groups (entries m)) \<and>
    (let am = addr AND NOT (alm_mask m); n = unat (alm_segments m addr bytes) in
     (\<forall>a. a + n \<le> unat (segments_num m) \<longrightarrow> \<not> free_run (entries m') a n) \<and>
     (\<forall>g v k c i. groups (entries m') g = Some (v, k, c) \<longrightarrow> i + n \<le> k \<longrightarrow> v \<le> am \<longrightarrow>
        (am - v) div segment_size m \<noteq> word_of_nat i))"
proof -
  let ?am = "addr AND NOT (alm_mask m)" and ?n = "unat (alm_segments m addr bytes)"
  have p: "add_post m addr bytes (Inl e, m')" "alm_inv m'" "same_geom m m'"
    using add_entry_spec [OF assms(1,2), of addr bytes] assms(3) by auto
  note sg = same_geom_fields [OF p(3)]
  have ok: "table_ok (entries m')" "length (entries m') = unat (segments_num m)"
    "unat (segments_num m) < 65536"
    using p(2) assms(1) sg by (auto simp: alm_inv_def alm_wf_table alm_geom_def)
  have q: "e = ENOMEM" "groups (entries m') = drop_unused UNIV (groups (entries m))"
    "\<forall>g < length (entries m'). \<not> embeds m' ?am ?n g"
    "\<forall>a. a + ?n \<le> unat (segments_num m) \<longrightarrow> \<not> free_run (entries m') a ?n"
    using p(1) assms(4,5) ok(2) by (auto simp: add_post_def alm_fits_def no_place_def scan_post_def)
  have n0: "0 < ?n" using alm_segments_props(1) [of m bytes addr] assms by (simp add: alm_inv_def)
  have "(?am - v) div segment_size m \<noteq> word_of_nat i"
    if "groups (entries m') g = Some (v, k, c)" "i + ?n \<le> k" "v \<le> ?am" for g v k c i
  proof
    assume eq: "(?am - v) div segment_size m = word_of_nat i"
    have k: "g < length (entries m')" "g + k \<le> unat (segments_num m)"
      using that(1) groups_bounds(2) [OF ok(1) that(1)] ok(2) by (auto simp: groups_Some)
    then have i: "i < unat (segments_num m)" using that(2) n0 by simp
    then have "unat (word_of_nat i :: u64) = i"
      using ok(3) by (simp add: unsigned_of_nat take_bit_nat_eq_self)
    then have "embeds m' ?am ?n g"
      using that i eq sg by (auto simp: embeds_def groups_Some Let_def)
    with q(3) k(1) show False by blast
  qed
  with q show ?thesis unfolding Let_def by blast
qed

theorem alm_add_entry_complete_witness:
  "let m' = snd (the (plx_alm_add_entry alm_sample_used 0x9000 0x3000)) in
   plx_alm_add_entry alm_sample_used 0x9000 0x3000 = Some (Inl ENOMEM, m') \<and>
   groups (entries m') = drop_unused UNIV (groups (entries alm_sample_used))"
proof -
  have r: "\<exists>e m'. plx_alm_add_entry alm_sample_used 0x9000 0x3000 = Some (Inl e, m')"
    by (intro exI [of _ ENOMEM] exI [of _ alm_sample_used]) code_simp
  then obtain e m' where e: "plx_alm_add_entry alm_sample_used 0x9000 0x3000 = Some (Inl e, m')" by blast
  have b: "(0x3000::u64) \<noteq> 0"
    "\<not> segment_size alm_sample_used * ucast (segments_num alm_sample_used) < 0x3000"
    by (simp_all add: alm_sample_used_def alm_sample_def)
  show ?thesis using alm_add_entry_complete [OF alm_sample_used_ok e b] e by simp
qed

text \<open>
  C29: Adding an entry and deleting it again through any of its segments is neutral for the
  referenced groups: the deletion never clears segments at once, the table stays consistent, and up
  to groups that nobody references it is the table before.
\<close>
theorem alm_add_del_roundtrip:
  assumes "alm_inv m" "alm_room m" "plx_alm_add_entry m addr bytes = Some (Inr (rc, i, n), m')"
    and "i \<le> j" "j < i + n"
  shows "\<exists>m''. plx_alm_del_entry m' j = Some (m'', None) \<and> alm_wf m'' \<and>
    drop_unused UNIV (groups (entries m'')) = drop_unused UNIV (groups (entries m))"
proof -
  from add_entry_Inr [OF assms(1-3)] obtain m1 where m1: "alm_inv m1" "alm_inv m'"
    "groups (entries m1) = groups (entries m) \<or>
     groups (entries m1) = drop_unused UNIV (groups (entries m))"
    "added m1 (addr AND NOT (alm_mask m)) n rc i m'" "0 < n" by metis
  have wf': "alm_wf m'" using m1(2) by (simp add: alm_inv_def)
  have same: "drop_unused UNIV (groups (entries m1)) = drop_unused UNIV (groups (entries m))"
    using m1(3) by auto
  obtain g v k c where g: "groups (entries m') = (groups (entries m1))(g \<mapsto> (v, k, c))"
    "g \<le> j" "j < g + k" "2 \<le> c"
    "c = 2 \<or> groups (entries m1) g = Some (v, k, c - 1)"
    "c = 2 \<longrightarrow> groups (entries m1) g = None \<or> groups (entries m1) g = Some (v, k, 1)"
  proof (cases rc)
    case Added
    then have "free_at (entries m1) i"
      "groups (entries m') = (groups (entries m1))(i \<mapsto> (addr AND NOT (alm_mask m), n, 2))"
      using m1(4,5) by (auto simp: added_def intro: free_run_at)
    moreover from this(1) have "groups (entries m1) i = None" by (simp add: free_at_def groups_def)
    ultimately show ?thesis using that assms(4,5) by auto
  next
    case Exists
    then obtain g v k c where g: "groups (entries m1) g = Some (v, k, c)" "g \<le> i" "i + n \<le> g + k"
      "groups (entries m') = (groups (entries m1))(g \<mapsto> (v, k, c + 1))"
      using m1(4) by (auto simp: added_def)
    moreover have "0 < c" using groups_bounds(3) [OF _ g(1)] m1(1) by (simp add: alm_inv_def alm_wf_table)
    ultimately show ?thesis using that [of g v k "c + 1"] assms(4,5) by auto
  qed
  have G: "groups (entries m') g = Some (v, k, c)" using g(1) by simp
  from del_entry_groups [OF wf' G g(2,3)] obtain m'' where
    m'': "plx_alm_del_entry m' j = Some (m'', None)" "alm_wf m''"
    "groups (entries m'') = (groups (entries m1))(g \<mapsto> (v, k, c - 1))"
    using g(1,4) by (auto simp: drop_ref_def)
  have "drop_unused UNIV (groups (entries m'')) = drop_unused UNIV (groups (entries m1))"
    unfolding m''(3) using g(4,5,6) by (auto simp: drop_unused_def fun_eq_iff)
  with m'' same show ?thesis by auto
qed

theorem alm_add_del_roundtrip_witness:
  "\<exists>m''. plx_alm_del_entry alm_sample_used 1 = Some (m'', None) \<and> alm_wf m'' \<and>
    drop_unused UNIV (groups (entries m'')) = drop_unused UNIV (groups (entries alm_sample))"
  by (rule alm_add_del_roundtrip [OF alm_sample_ok alm_sample_add]) simp_all

text \<open>
  The 16-bit reference counter wraps: the 65535th reference to a mapping turns its counter to
  zero, and the table the call leaves behind is rejected by the checker.
\<close>
theorem alm_counter_wraps:
  "let m = alm_sample_used\<lparr>entries := (entries alm_sample_used)
             [0 := (entries alm_sample_used ! 0)\<lparr>counter := 65535\<rparr>]\<rparr> in
   plx_alm_check m = Some () \<and>
   (\<exists>m'. plx_alm_add_entry m 0x5000 1 = Some (Inr (Exists, 0, 1), m') \<and>
      counter (entries m' ! 0) = 0 \<and> plx_alm_check m' = None)"
  by (simp only: Let_def, intro conjI exI) code_simp+

end
