(* ===== verification/Plx_Lut.thy ===== *)
theory Plx_Lut
  imports Plx_Alm
begin

unbundle bit_operations_syntax

text \<open>
  The A-LUT registers of the PLX switch and the operations that keep them in step with the manager of
  \<open>Plx_Alm\<close> (\<open>plx87xx/plx_hw.c\<close>, register map in \<open>plx_hw.h\<close>): programming a mapping, removing it,
  clearing the table, and the \<open>ioremap\<close>/\<open>iounmap\<close> pair built on them. Memory-mapped registers are a
  map from register offsets to their 32-bit contents.
\<close>

section \<open>State and register map\<close>

record plx_lut_dev =
  mmio :: "u32 \<Rightarrow> u32"
  a_lut_array_base :: u32
  a_lut_manager :: plx_alm
  a_lut :: bool
  aper_va :: u64

definition PLX_A_LUT_LOWER_RE_MAP_SUBARRAY_OFFSET :: u32 where
  "PLX_A_LUT_LOWER_RE_MAP_SUBARRAY_OFFSET = 0x0"
definition PLX_A_LUT_HIGHER_RE_MAP_SUBARRAY_OFFSET :: u32 where
  "PLX_A_LUT_HIGHER_RE_MAP_SUBARRAY_OFFSET = 0x400"
definition PLX_A_LUT_PERMISSION_SUBARRAY_OFFSET :: u32 where
  "PLX_A_LUT_PERMISSION_SUBARRAY_OFFSET = 0x800"
definition PLX_A_LUT_PERMISSION_WRITE_ENABLE :: u32 where
  "PLX_A_LUT_PERMISSION_WRITE_ENABLE = 0x1"
definition PLX_A_LUT_PERMISSION_READ_ENABLE :: u32 where
  "PLX_A_LUT_PERMISSION_READ_ENABLE = 0x2"
definition PLX_A_LUT_ARRAY_OFFSET :: u32 where
  "PLX_A_LUT_ARRAY_OFFSET = 0x1000"
definition PLX_A_LUT_MAX_ARRAY :: u32 where
  "PLX_A_LUT_MAX_ARRAY = 128"

lemmas lut_regs = PLX_A_LUT_LOWER_RE_MAP_SUBARRAY_OFFSET_def PLX_A_LUT_HIGHER_RE_MAP_SUBARRAY_OFFSET_def
  PLX_A_LUT_PERMISSION_SUBARRAY_OFFSET_def PLX_A_LUT_PERMISSION_WRITE_ENABLE_def
  PLX_A_LUT_PERMISSION_READ_ENABLE_def PLX_A_LUT_ARRAY_OFFSET_def PLX_A_LUT_MAX_ARRAY_def

section \<open>Operations\<close>

definition plx_mmio_write :: "u32 \<Rightarrow> u32 \<Rightarrow> plx_lut_dev \<Rightarrow> plx_lut_dev" where
  "plx_mmio_write v off d = d\<lparr>mmio := (mmio d)(off := v)\<rparr>"

definition plx_get_a_lut_entry_offset :: "u32 \<Rightarrow> u32" where
  "plx_get_a_lut_entry_offset idx =
     (if PLX_A_LUT_MAX_ARRAY \<le> idx then PLX_A_LUT_ARRAY_OFFSET else 0) + (idx mod PLX_A_LUT_MAX_ARRAY) * 4"

definition plx_a_lut_clear_entry :: "u32 \<Rightarrow> nat \<Rightarrow> plx_lut_dev \<Rightarrow> plx_lut_dev" where
  "plx_a_lut_clear_entry off i d =
     (let entry_offset = plx_get_a_lut_entry_offset (word_of_nat i) + off in
      plx_mmio_write 0 (entry_offset + PLX_A_LUT_LOWER_RE_MAP_SUBARRAY_OFFSET)
      (plx_mmio_write 0 (entry_offset + PLX_A_LUT_HIGHER_RE_MAP_SUBARRAY_OFFSET)
      (plx_mmio_write 0 (entry_offset + PLX_A_LUT_PERMISSION_SUBARRAY_OFFSET) d)))"

definition plx_a_lut_clear :: "plx_lut_dev \<Rightarrow> u32 \<Rightarrow> plx_lut_dev option" where
  "plx_a_lut_clear d off =
     (case plx_alm_reset (a_lut_manager d) of
        None \<Rightarrow> None
      | Some m \<Rightarrow> Some (fold (plx_a_lut_clear_entry off) [0..<unat (segments_num m)]
                    (d\<lparr>a_lut_manager := m\<rparr>)))"

text \<open>The body of the programming loop of \<open>plx_add_a_lut_entry\<close> for segment \<open>i\<close>.\<close>

definition lut_write_segment :: "nat \<Rightarrow> u64 \<Rightarrow> plx_lut_dev \<Rightarrow> plx_lut_dev" where
  "lut_write_segment i addr_masked d =
     (let entry_offset = a_lut_array_base d + plx_get_a_lut_entry_offset (word_of_nat i) in
      plx_mmio_write (PLX_A_LUT_PERMISSION_READ_ENABLE OR PLX_A_LUT_PERMISSION_WRITE_ENABLE)
        (entry_offset + PLX_A_LUT_PERMISSION_SUBARRAY_OFFSET)
      (plx_mmio_write (ucast addr_masked) (entry_offset + PLX_A_LUT_LOWER_RE_MAP_SUBARRAY_OFFSET)
      (plx_mmio_write (ucast (drop_bit 32 addr_masked))
        (entry_offset + PLX_A_LUT_HIGHER_RE_MAP_SUBARRAY_OFFSET) d)))"

fun lut_write_segments :: "nat list \<Rightarrow> u64 \<Rightarrow> plx_lut_dev \<Rightarrow> plx_lut_dev" where
  "lut_write_segments [] addr_masked d = d"
| "lut_write_segments (i # is) addr_masked d =
     lut_write_segments is (addr_masked + segment_size (a_lut_manager d))
       (lut_write_segment i addr_masked d)"

definition plx_add_a_lut_entry :: "plx_lut_dev \<Rightarrow> u64 \<Rightarrow> u64 \<Rightarrow> ((errno + u64) \<times> plx_lut_dev) option" where
  "plx_add_a_lut_entry d addr bytes =
     (let m = a_lut_manager d; translation_mask = segment_size m - 1;
          addr_masked = addr AND NOT translation_mask in
      case plx_alm_add_entry m addr bytes of
        None \<Rightarrow> None
      | Some (Inl e, m') \<Rightarrow> Some (Inl ENOMEM, d\<lparr>a_lut_manager := m'\<rparr>)
      | Some (Inr (rc, segment_id, segments), m') \<Rightarrow>
          let d1 = d\<lparr>a_lut_manager := m'\<rparr>;
              d2 = (case rc of
                      Added \<Rightarrow> lut_write_segments [segment_id..<segment_id + segments] addr_masked d1
                    | Exists \<Rightarrow> d1)
          in Some (Inr (word_of_nat segment_id * segment_size m + (addr AND translation_mask)), d2))"

definition plx_del_a_lut_entry :: "plx_lut_dev \<Rightarrow> u64 \<Rightarrow> plx_lut_dev option" where
  "plx_del_a_lut_entry d addr =
     (let m = a_lut_manager d in
      if segment_size m = 0 then None
      else if ucast (segments_num m) * segment_size m \<le> addr then Some d
      else
        case plx_alm_del_entry m (unat (ucast (addr div segment_size m) :: u32)) of
          None \<Rightarrow> None
        | Some (m', None) \<Rightarrow> Some (d\<lparr>a_lut_manager := m'\<rparr>)
        | Some (m', Some (start_segment, segments)) \<Rightarrow>
            Some (fold (\<lambda>i d. plx_mmio_write 0 (a_lut_array_base d +
                    (plx_get_a_lut_entry_offset (word_of_nat i) + PLX_A_LUT_PERMISSION_SUBARRAY_OFFSET)) d)
                   [start_segment..<start_segment + segments] (d\<lparr>a_lut_manager := m'\<rparr>)))"

text \<open>\<open>plx_ioremap\<close> returns a pointer into the aperture, or \<open>NULL\<close> (\<open>None\<close> inside).\<close>

definition plx_ioremap :: "plx_lut_dev \<Rightarrow> u64 \<Rightarrow> u64 \<Rightarrow> (u64 option \<times> plx_lut_dev) option" where
  "plx_ioremap d pa len =
     (if a_lut d then
        (case plx_add_a_lut_entry d pa len of
           None \<Rightarrow> None
         | Some (Inl e, d') \<Rightarrow> Some (None, d')
         | Some (Inr pa_out, d') \<Rightarrow> Some (Some (aper_va d + pa_out), d'))
      else Some (Some (aper_va d + pa), d))"

definition plx_iounmap :: "plx_lut_dev \<Rightarrow> u64 \<Rightarrow> plx_lut_dev option" where
  "plx_iounmap d va = (if a_lut d then plx_del_a_lut_entry d (va - aper_va d) else Some d)"

section \<open>Reading the table\<close>

text \<open>
  What the registers of a segment hold: the permission and the re-map address made of its two halves.
  \<open>lut_translate\<close> is the address a location of the aperture stands for by these registers.
\<close>

definition lut_reg :: "plx_lut_dev \<Rightarrow> u32 \<Rightarrow> nat \<Rightarrow> u32" where
  "lut_reg d sub i = mmio d (a_lut_array_base d + plx_get_a_lut_entry_offset (word_of_nat i) + sub)"

definition lut_remap :: "plx_lut_dev \<Rightarrow> nat \<Rightarrow> u64" where
  "lut_remap d i =
     push_bit 32 (ucast (lut_reg d PLX_A_LUT_HIGHER_RE_MAP_SUBARRAY_OFFSET i)) OR
     ucast (lut_reg d PLX_A_LUT_LOWER_RE_MAP_SUBARRAY_OFFSET i)"

definition lut_enabled :: "plx_lut_dev \<Rightarrow> nat \<Rightarrow> bool" where
  "lut_enabled d i \<longleftrightarrow> lut_reg d PLX_A_LUT_PERMISSION_SUBARRAY_OFFSET i =
     PLX_A_LUT_PERMISSION_READ_ENABLE OR PLX_A_LUT_PERMISSION_WRITE_ENABLE"

definition lut_translate :: "plx_lut_dev \<Rightarrow> u64 \<Rightarrow> u64 option" where
  "lut_translate d a =
     (let S = segment_size (a_lut_manager d); i = unat (a div S) in
      if lut_enabled d i then Some (lut_remap d i + (a AND (S - 1))) else None)"

definition lut_inv :: "plx_lut_dev \<Rightarrow> bool" where
  "lut_inv d \<longleftrightarrow> alm_inv (a_lut_manager d) \<and> unat (segments_num (a_lut_manager d)) \<le> 256 \<and>
     (\<forall>g v n c k. groups (entries (a_lut_manager d)) g = Some (v, n, c) \<longrightarrow> k < n \<longrightarrow>
        lut_enabled d (g + k) \<and>
        lut_remap d (g + k) = v + word_of_nat k * segment_size (a_lut_manager d))"

section \<open>Registers of different segments do not overlap\<close>

definition lut_pos :: "nat \<Rightarrow> nat" where
  "lut_pos i = (if 128 \<le> i then 4096 else 0) + (i mod 128) * 4"

lemma entry_offset_pos: "i < 256 \<Longrightarrow> plx_get_a_lut_entry_offset (word_of_nat i) = word_of_nat (lut_pos i)"
proof -
  assume i: "i < 256"
  have u: "unat (word_of_nat i :: u32) = i" using i by (simp add: unsigned_of_nat take_bit_nat_eq_self)
  have "(word_of_nat i :: u32) mod 128 = word_of_nat (i mod 128)"
    by (rule unat_inj) (use i in \<open>simp add: unat_mod u unsigned_of_nat take_bit_nat_eq_self\<close>)
  moreover have "(128::u32) \<le> word_of_nat i \<longleftrightarrow> 128 \<le> i" using u by (simp add: word_le_nat_alt)
  ultimately show ?thesis by (simp add: plx_get_a_lut_entry_offset_def lut_regs lut_pos_def)
qed

definition lut_sub :: "nat set" where
  "lut_sub = {0, 0x400, 0x800}"

lemma lut_pos_inj:
  assumes "i < 256" "j < 256" "s \<in> lut_sub" "t \<in> lut_sub" "lut_pos i + s = lut_pos j + t"
  shows "i = j \<and> s = t"
proof -
  have m: "i mod 128 = (if 128 \<le> i then i - 128 else i)" "j mod 128 = (if 128 \<le> j then j - 128 else j)"
    using assms(1,2) by (auto simp: mod_if)
  show ?thesis using assms unfolding lut_pos_def m lut_sub_def by (auto split: if_splits)
qed

lemma lut_addr_eq:
  assumes "i < 256" "j < 256" "s \<in> lut_sub" "t \<in> lut_sub"
  shows "b + plx_get_a_lut_entry_offset (word_of_nat i) + word_of_nat s =
         b + plx_get_a_lut_entry_offset (word_of_nat j) + word_of_nat t \<longleftrightarrow> i = j \<and> s = t"
proof -
  have b: "lut_pos i + s < 2 ^ 32" "lut_pos j + t < 2 ^ 32"
    using assms by (auto simp: lut_pos_def lut_sub_def)
  have "(word_of_nat (lut_pos i + s) :: u32) = word_of_nat (lut_pos j + t) \<longleftrightarrow> lut_pos i + s = lut_pos j + t"
    using b by (simp add: word_of_nat_eq_iff take_bit_nat_eq_self del: of_nat_add)
  moreover have "b + plx_get_a_lut_entry_offset (word_of_nat i) + word_of_nat s =
         b + plx_get_a_lut_entry_offset (word_of_nat j) + word_of_nat t \<longleftrightarrow>
       (word_of_nat (lut_pos i + s) :: u32) = word_of_nat (lut_pos j + t)"
    using assms by (simp add: entry_offset_pos add.assoc)
  ultimately show ?thesis using lut_pos_inj [OF assms] by auto
qed

lemma lut_reg_write:
  assumes "i < 256" "j < 256" "s \<in> lut_sub" "t \<in> lut_sub"
  shows "lut_reg (plx_mmio_write v (a_lut_array_base d + plx_get_a_lut_entry_offset (word_of_nat i) +
      word_of_nat s) d) (word_of_nat t) j = (if j = i \<and> t = s then v else lut_reg d (word_of_nat t) j)"
  using lut_addr_eq [OF assms(2,1,4,3)] by (auto simp: lut_reg_def plx_mmio_write_def)

lemma mmio_write_fields [simp]:
  "a_lut_array_base (plx_mmio_write v off d) = a_lut_array_base d"
  "a_lut_manager (plx_mmio_write v off d) = a_lut_manager d"
  "a_lut (plx_mmio_write v off d) = a_lut d" "aper_va (plx_mmio_write v off d) = aper_va d"
  by (simp_all add: plx_mmio_write_def)

lemma write_segment_fields [simp]:
  "a_lut_array_base (lut_write_segment i am d) = a_lut_array_base d"
  "a_lut_manager (lut_write_segment i am d) = a_lut_manager d"
  "a_lut (lut_write_segment i am d) = a_lut d" "aper_va (lut_write_segment i am d) = aper_va d"
  by (simp_all add: lut_write_segment_def Let_def)

lemma sub_nats:
  "PLX_A_LUT_LOWER_RE_MAP_SUBARRAY_OFFSET = word_of_nat 0"
  "PLX_A_LUT_HIGHER_RE_MAP_SUBARRAY_OFFSET = word_of_nat 0x400"
  "PLX_A_LUT_PERMISSION_SUBARRAY_OFFSET = word_of_nat 0x800"
  by (simp_all add: lut_regs)

lemma lut_sub_mem [simp]: "0 \<in> lut_sub" "0x400 \<in> lut_sub" "0x800 \<in> lut_sub"
  by (simp_all add: lut_sub_def)

lemma write_segment_reg:
  assumes "i < 256" "j < 256" "t \<in> lut_sub"
  shows "lut_reg (lut_write_segment i am d) (word_of_nat t) j =
    (if j = i then (if t = 0x800 then PLX_A_LUT_PERMISSION_READ_ENABLE OR PLX_A_LUT_PERMISSION_WRITE_ENABLE
                    else if t = 0 then ucast am else ucast (drop_bit 32 am))
     else lut_reg d (word_of_nat t) j)"
proof -
  let ?o = "a_lut_array_base d + plx_get_a_lut_entry_offset (word_of_nat i)"
  let ?d1 = "plx_mmio_write (ucast (drop_bit 32 am)) (?o + word_of_nat 0x400) d"
  let ?d2 = "plx_mmio_write (ucast am) (?o + word_of_nat 0) ?d1"
  have "lut_reg ?d1 (word_of_nat t) j =
      (if j = i \<and> t = 0x400 then ucast (drop_bit 32 am) else lut_reg d (word_of_nat t) j)"
    using lut_reg_write [of i j "0x400" t "ucast (drop_bit 32 am)" d] assms by simp
  moreover have "lut_reg ?d2 (word_of_nat t) j =
      (if j = i \<and> t = 0 then ucast am else lut_reg ?d1 (word_of_nat t) j)"
    using lut_reg_write [of i j 0 t "ucast am" ?d1] assms by simp
  moreover have "lut_write_segment i am d =
      plx_mmio_write (PLX_A_LUT_PERMISSION_READ_ENABLE OR PLX_A_LUT_PERMISSION_WRITE_ENABLE)
        (?o + word_of_nat 0x800) ?d2"
    by (simp add: lut_write_segment_def Let_def sub_nats del: of_nat_numeral)
  moreover have "t = 0 \<or> t = 0x400 \<or> t = 0x800" using assms(3) by (simp add: lut_sub_def)
  ultimately show ?thesis
    using lut_reg_write [of i j "0x800" t "PLX_A_LUT_PERMISSION_READ_ENABLE OR PLX_A_LUT_PERMISSION_WRITE_ENABLE" ?d2]
      assms by auto
qed

lemma halves: "push_bit 32 (ucast (ucast (drop_bit 32 a) :: u32)) OR ucast (ucast a :: u32) = (a::u64)"
  by (rule bit_word_eqI) (auto simp: bit_simps)

lemma write_segment_entry:
  assumes "i < 256" "j < 256"
  shows "lut_enabled (lut_write_segment i am d) j \<longleftrightarrow> j = i \<or> lut_enabled d j"
    and "lut_remap (lut_write_segment i am d) j = (if j = i then am else lut_remap d j)"
  using write_segment_reg [OF assms lut_sub_mem(1), of am d] halves [of am]
    write_segment_reg [OF assms lut_sub_mem(2), of am d] write_segment_reg [OF assms lut_sub_mem(3), of am d]
  by (auto simp: lut_enabled_def lut_remap_def lut_regs)

lemma write_segments_fields [simp]:
  "a_lut_array_base (lut_write_segments is am d) = a_lut_array_base d"
  "a_lut_manager (lut_write_segments is am d) = a_lut_manager d"
  "a_lut (lut_write_segments is am d) = a_lut d" "aper_va (lut_write_segments is am d) = aper_va d"
  by (induction "is" arbitrary: am d) simp_all

lemma write_segments_entry:
  assumes "i + n \<le> 256" "j < 256"
  shows "lut_enabled (lut_write_segments [i..<i + n] am d) j \<longleftrightarrow> (i \<le> j \<and> j < i + n) \<or> lut_enabled d j"
    and "lut_remap (lut_write_segments [i..<i + n] am d) j =
      (if i \<le> j \<and> j < i + n then am + word_of_nat (j - i) * segment_size (a_lut_manager d)
       else lut_remap d j)"
proof -
  have "(lut_enabled (lut_write_segments [i..<i + n] am d) j \<longleftrightarrow> (i \<le> j \<and> j < i + n) \<or> lut_enabled d j) \<and>
    lut_remap (lut_write_segments [i..<i + n] am d) j =
      (if i \<le> j \<and> j < i + n then am + word_of_nat (j - i) * segment_size (a_lut_manager d)
       else lut_remap d j)"
    using assms(1)
  proof (induction n arbitrary: i am d)
    case (Suc n)
    have l: "[i..<Suc (i + n)] = i # [Suc i..<Suc (i + n)]" by (simp add: upt_conv_Cons del: upt_Suc)
    have e: "word_of_nat (j - i) = (word_of_nat (j - Suc i) + 1 :: u64)" if "Suc i \<le> j"
      using that by (metis Suc_diff_le diff_Suc_Suc of_nat_Suc add.commute)
    have i: "i < 256" "Suc i + n \<le> 256" using Suc.prems by auto
    show ?case
      using Suc.IH [OF i(2)] write_segment_entry [OF i(1) assms(2)] e
      by (auto simp: l algebra_simps simp del: upt_Suc)
  qed auto
  then show "lut_enabled (lut_write_segments [i..<i + n] am d) j \<longleftrightarrow> (i \<le> j \<and> j < i + n) \<or> lut_enabled d j"
    "lut_remap (lut_write_segments [i..<i + n] am d) j =
      (if i \<le> j \<and> j < i + n then am + word_of_nat (j - i) * segment_size (a_lut_manager d)
       else lut_remap d j)" by auto
qed

section \<open>The registers follow the manager\<close>

text \<open>The registers of a set of groups \<open>G\<close> with segment size \<open>S\<close> are programmed.\<close>

definition lut_holds :: "plx_lut_dev \<Rightarrow> u64 \<Rightarrow> (nat \<Rightarrow> (u64 \<times> nat \<times> nat) option) \<Rightarrow> bool" where
  "lut_holds d S G \<longleftrightarrow> (\<forall>g v n c k. G g = Some (v, n, c) \<longrightarrow> k < n \<longrightarrow>
     lut_enabled d (g + k) \<and> lut_remap d (g + k) = v + word_of_nat k * S)"

lemma lut_inv_holds:
  "lut_inv d \<longleftrightarrow> alm_inv (a_lut_manager d) \<and> unat (segments_num (a_lut_manager d)) \<le> 256 \<and>
     lut_holds d (segment_size (a_lut_manager d)) (groups (entries (a_lut_manager d)))"
  by (simp add: lut_inv_def lut_holds_def)

lemma lut_entry_manager [simp]:
  "lut_enabled (d\<lparr>a_lut_manager := m\<rparr>) = lut_enabled d" "lut_remap (d\<lparr>a_lut_manager := m\<rparr>) = lut_remap d"
  "lut_holds (d\<lparr>a_lut_manager := m\<rparr>) = lut_holds d"
  by (simp_all add: fun_eq_iff lut_enabled_def lut_remap_def lut_reg_def lut_holds_def)

lemma lut_holds_sub:
  assumes "lut_holds d S G" "\<And>g v n c. G' g = Some (v, n, c) \<Longrightarrow> \<exists>c'. G g = Some (v, n, c')"
  shows "lut_holds d S G'"
  unfolding lut_holds_def
proof (intro allI impI)
  fix g v n c k assume "G' g = Some (v, n, c)" "k < n"
  moreover then obtain c' where "G g = Some (v, n, c')" using assms(2) by blast
  ultimately show "lut_enabled d (g + k) \<and> lut_remap d (g + k) = v + word_of_nat k * S"
    using assms(1) unfolding lut_holds_def by blast
qed

lemma lut_holds_add:
  assumes old: "lut_holds d S (groups es)" and S: "S = segment_size (a_lut_manager d)"
    and ok: "table_ok es" and len: "length es \<le> 256" and i: "i + n \<le> length es" and free: "free_run es i n"
  shows "lut_holds (lut_write_segments [i..<i + n] am d) S ((groups es)(i \<mapsto> (am, n, c)))"
  unfolding lut_holds_def
proof (intro allI impI)
  let ?d = "lut_write_segments [i..<i + n] am d"
  fix g v l c' k assume g: "((groups es)(i \<mapsto> (am, n, c))) g = Some (v, l, c')" and k: "k < l"
  show "lut_enabled ?d (g + k) \<and> lut_remap ?d (g + k) = v + word_of_nat k * S"
  proof (cases "g = i")
    case True
    with g k have "l = n" "v = am" by auto
    with True k i len write_segments_entry [of i n "g + k" am d] S show ?thesis by simp
  next
    case False
    with g have G: "groups es g = Some (v, l, c')" by simp
    have b: "g + l \<le> length es" by (rule groups_bounds(2) [OF ok G])
    have "\<not> free_at es (g + k)"
      using groups_covers [OF G, of "g + k"] k not_free_covered [OF ok] by auto
    then have "\<not> (i \<le> g + k \<and> g + k < i + n)" using free_run_at [OF free] by blast
    then show ?thesis
      using old G k b len i write_segments_entry [of i n "g + k" am d] unfolding lut_holds_def by auto
  qed
qed

lemma lut_add_inv:
  assumes inv: "lut_inv d" and room: "alm_room (a_lut_manager d)"
  obtains r d' where "plx_add_a_lut_entry d addr bytes = Some (r, d')" "lut_inv d'"
    "same_geom (a_lut_manager d) (a_lut_manager d')" "a_lut d' = a_lut d" "aper_va d' = aper_va d"
    "a_lut_array_base d' = a_lut_array_base d"
    "\<And>a. r = Inr a \<Longrightarrow> \<exists>rc i n. plx_alm_add_entry (a_lut_manager d) addr bytes =
       Some (Inr (rc, i, n), a_lut_manager d') \<and>
       a = word_of_nat i * segment_size (a_lut_manager d) + (addr AND alm_mask (a_lut_manager d))"
    "\<And>e. r = Inl e \<Longrightarrow> groups (entries (a_lut_manager d')) = groups (entries (a_lut_manager d)) \<or>
       groups (entries (a_lut_manager d')) = drop_unused UNIV (groups (entries (a_lut_manager d)))"
proof -
  let ?m = "a_lut_manager d" and ?S = "segment_size (a_lut_manager d)"
  have ai: "alm_inv ?m" and N: "unat (segments_num ?m) \<le> 256" and
    h: "lut_holds d ?S (groups (entries ?m))"
    using inv by (auto simp: lut_inv_holds)
  obtain r m' where add: "plx_alm_add_entry ?m addr bytes = Some (r, m')" and m': "alm_inv m'"
    "same_geom ?m m'" "add_post ?m addr bytes (r, m')"
    using add_entry_spec [OF ai room] by blast
  have sg: "segment_size m' = ?S" "segments_num m' = segments_num ?m"
    using same_geom_fields [OF m'(2)] by auto
  have sub: "lut_holds d ?S G" if "G = groups (entries ?m) \<or> G = drop_unused UNIV (groups (entries ?m))" for G
    by (rule lut_holds_sub [OF h]) (use that in \<open>auto simp: drop_unused_Some\<close>)
  show ?thesis
  proof (cases r)
    case (Inl e)
    let ?d = "d\<lparr>a_lut_manager := m'\<rparr>"
    have G: "groups (entries m') = groups (entries ?m) \<or>
        groups (entries m') = drop_unused UNIV (groups (entries ?m))"
      using m'(3) Inl by (auto simp: add_post_def split: if_splits)
    then have "lut_holds d ?S (groups (entries m'))" by (rule sub)
    then have "lut_inv ?d" using m'(1) sg N by (simp add: lut_inv_holds)
    then show ?thesis
      using that [of "Inl ENOMEM" ?d] add Inl m'(2) G by (simp add: plx_add_a_lut_entry_def Let_def)
  next
    case (Inr b)
    obtain rc i n where b: "b = (rc, i, n)" by (cases b)
    let ?am = "addr AND NOT (alm_mask ?m)"
    obtain m1 where m1: "alm_inv m1" "same_geom ?m m1" "added m1 ?am n rc i m'"
      "groups (entries m1) = groups (entries ?m) \<or>
       groups (entries m1) = drop_unused UNIV (groups (entries ?m))"
      using add_entry_Inr [OF ai room add [unfolded Inr b]] by metis
    have ok1: "table_ok (entries m1)" "length (entries m1) = unat (segments_num ?m)"
      using m1(1) same_geom_fields [OF m1(2)] by (auto simp: alm_inv_def alm_wf_table)
    let ?d1 = "d\<lparr>a_lut_manager := m'\<rparr>"
    let ?d = "case rc of Added \<Rightarrow> lut_write_segments [i..<i + n] ?am ?d1 | Exists \<Rightarrow> ?d1"
    have f: "a_lut_manager ?d = m'" "a_lut ?d = a_lut d" "aper_va ?d = aper_va d"
      "a_lut_array_base ?d = a_lut_array_base d" by (cases rc; simp)+
    have "lut_holds ?d ?S (groups (entries m'))"
    proof (cases rc)
      case Added
      then have a: "i + n \<le> length (entries m1)" "free_run (entries m1) i n"
        "groups (entries m') = (groups (entries m1))(i \<mapsto> (?am, n, 2))"
        using m1(3) same_geom_fields [OF m1(2)] ok1 by (auto simp: added_def)
      have "lut_holds ?d1 ?S (groups (entries m1))" using sub [OF m1(4)] by simp
      from lut_holds_add [OF this _ ok1(1) _ a(1,2), of ?am 2] show ?thesis
        using Added a(3) sg ok1 N by simp
    next
      case Exists
      then obtain g v l c where "groups (entries m1) g = Some (v, l, c)"
        "groups (entries m') = (groups (entries m1))(g \<mapsto> (v, l, c + 1))"
        using m1(3) by (auto simp: added_def)
      then show ?thesis
        using Exists by (auto intro!: lut_holds_sub [OF sub [OF m1(4)]] split: if_splits)
    qed
    then have inv': "lut_inv ?d" using m'(1) sg N f by (simp add: lut_inv_holds)
    have step: "plx_add_a_lut_entry d addr bytes =
        Some (Inr (word_of_nat i * ?S + (addr AND alm_mask ?m)), ?d)"
      using add Inr b by (cases rc) (simp_all add: plx_add_a_lut_entry_def Let_def alm_mask_def)
    show ?thesis
      by (rule that [OF step inv']) (use add Inr b m'(2) in \<open>simp_all add: f\<close>)
  qed
qed

section \<open>Translation\<close>

lemma geom_segment:
  assumes "alm_geom m" "i + q < unat (segments_num m)" "r < unat (segment_size m)"
  shows "unat (word_of_nat (i + q) * segment_size m + word_of_nat r) = (i + q) * unat (segment_size m) + r"
    and "(word_of_nat (i + q) * segment_size m + word_of_nat r) div segment_size m = word_of_nat (i + q)"
    and "(word_of_nat (i + q) * segment_size m + word_of_nat r) AND alm_mask m = word_of_nat r"
proof -
  let ?S = "unat (segment_size m)" and ?a = "word_of_nat (i + q) * segment_size m + word_of_nat r"
  have g: "unat (segments_num m) < 65536" "?S * (unat (segments_num m) + 2) \<le> 2 ^ 64"
    "is_power_of_2 (segment_size m)" using assms(1) by (auto simp: alm_geom_def)
  have lt: "(i + q) * ?S + r < 2 ^ 64"
  proof -
    have "(i + q) * ?S + r < (i + q + 1) * ?S" using assms(3) by simp
    also have "\<dots> \<le> (unat (segments_num m) + 2) * ?S" using assms(2) by (intro mult_le_mono1) simp
    finally show ?thesis using g(2) by (simp add: mult.commute)
  qed
  have "?a = word_of_nat ((i + q) * ?S + r)" by simp
  then have "unat ?a = unat (word_of_nat ((i + q) * ?S + r) :: u64)" by (rule arg_cong)
  then show u: "unat ?a = (i + q) * ?S + r"
    using lt by (simp only: unsigned_of_nat) (simp add: take_bit_nat_eq_self del: of_nat_add)
  have iq: "unat (word_of_nat (i + q) :: u64) = i + q" "unat (word_of_nat r :: u64) = r"
    using assms(2,3) g(1) lt by (simp_all add: unsigned_of_nat take_bit_nat_eq_self del: of_nat_add)
  show "?a div segment_size m = word_of_nat (i + q)"
    by (rule unat_inj) (use assms(3) in \<open>simp add: unat_div u iq del: of_nat_add\<close>)
  show "?a AND alm_mask m = word_of_nat r"
    by (rule unat_inj) (use assms(3) in \<open>simp add: alm_mask_def and_pow2_mask [OF g(3)] u iq del: of_nat_add\<close>)
qed

lemma group_translates:
  assumes inv: "lut_inv d" and G: "groups (entries (a_lut_manager d)) g = Some (v, n, c)"
    and j: "g \<le> i" "i + q < g + n" and r: "r < unat (segment_size (a_lut_manager d))"
  shows "lut_translate d (word_of_nat (i + q) * segment_size (a_lut_manager d) + word_of_nat r) =
    Some (v + word_of_nat (i - g) * segment_size (a_lut_manager d) +
      (word_of_nat q * segment_size (a_lut_manager d) + word_of_nat r))"
proof -
  let ?m = "a_lut_manager d" and ?S = "segment_size (a_lut_manager d)"
  have geom: "alm_geom ?m" "table_ok (entries ?m)" "length (entries ?m) = unat (segments_num ?m)"
    "unat (segments_num ?m) \<le> 256"
    using inv by (auto simp: lut_inv_def alm_inv_def alm_wf_table)
  have lt: "i + q < unat (segments_num ?m)"
    using groups_bounds(2) [OF geom(2) G] geom(3) j by simp
  note gs = geom_segment [OF geom(1) lt r]
  have "unat (word_of_nat (i + q) :: u64) = i + q"
    using lt geom(4) by (simp add: unsigned_of_nat take_bit_nat_eq_self del: of_nat_add)
  moreover have e: "i + q = g + (i - g + q)" "i - g + q < n" using j by auto
  have "lut_enabled d (i + q)" "lut_remap d (i + q) = v + word_of_nat (i - g + q) * ?S"
    using inv G e unfolding lut_inv_def by metis+
  ultimately show ?thesis
    using gs(2,3) by (simp add: lut_translate_def Let_def alm_mask_def [symmetric] algebra_simps)
qed

section \<open>A client of the aperture\<close>

text \<open>
  A client maps physical ranges with \<open>plx_ioremap\<close> and unmaps the ones it holds with
  \<open>plx_iounmap\<close>, in any order; \<open>Unmap j\<close> releases the \<open>j\<close>-th mapping held (a mapping is the virtual
  address, the physical address and the length).
\<close>

type_synonym mapping = "u64 \<times> u64 \<times> u64"

datatype lut_op = Map u64 u64 | Unmap nat

fun lut_run :: "plx_lut_dev \<Rightarrow> mapping list \<Rightarrow> lut_op list \<Rightarrow> (plx_lut_dev \<times> mapping list) option" where
  "lut_run d held [] = Some (d, held)"
| "lut_run d held (Map pa len # ops) =
     (case plx_ioremap d pa len of
        None \<Rightarrow> None
      | Some (None, d') \<Rightarrow> lut_run d' held ops
      | Some (Some va, d') \<Rightarrow> lut_run d' ((va, pa, len) # held) ops)"
| "lut_run d held (Unmap j # ops) =
     (if j < length held then
        (case plx_iounmap d (fst (held ! j)) of
           None \<Rightarrow> None
         | Some d' \<Rightarrow> lut_run d' (take j held @ drop (Suc j) held) ops)
      else lut_run d held ops)"

text \<open>The segment of a mapping, and that a group with value \<open>v\<close> at \<open>g\<close> of length \<open>n\<close> serves it.\<close>

definition seg_of :: "plx_lut_dev \<Rightarrow> mapping \<Rightarrow> nat" where
  "seg_of d x = unat ((fst x - aper_va d) div segment_size (a_lut_manager d))"

definition serves :: "plx_lut_dev \<Rightarrow> nat \<Rightarrow> u64 \<Rightarrow> nat \<Rightarrow> mapping \<Rightarrow> bool" where
  "serves d g v n x \<longleftrightarrow> (case x of (va, pa, len) \<Rightarrow>
     let m = a_lut_manager d; S = segment_size m; i = seg_of d x in
     va - aper_va d = word_of_nat i * S + (pa AND alm_mask m) \<and> g \<le> i \<and>
     v + word_of_nat (i - g) * S = pa AND NOT (alm_mask m) \<and> len \<noteq> 0 \<and>
     unat (pa AND alm_mask m) < unat S \<and> unat (pa AND alm_mask m) + unat len \<le> (g + n - i) * unat S)"

definition held_in :: "plx_lut_dev \<Rightarrow> nat \<Rightarrow> nat \<Rightarrow> mapping \<Rightarrow> bool" where
  "held_in d g n x \<longleftrightarrow> g \<le> seg_of d x \<and> seg_of d x < g + n"

definition client_inv :: "plx_lut_dev \<Rightarrow> mapping list \<Rightarrow> bool" where
  "client_inv d held \<longleftrightarrow> lut_inv d \<and> a_lut d \<and>
     (\<forall>x \<in> set held. \<exists>g v n c. groups (entries (a_lut_manager d)) g = Some (v, n, c) \<and> serves d g v n x) \<and>
     (\<forall>g v n c. groups (entries (a_lut_manager d)) g = Some (v, n, c) \<longrightarrow>
        c = Suc (length (filter (held_in d g n) held)))"

lemma serves_held:
  assumes "serves d g v n x"
  shows "held_in d g n x"
proof -
  obtain va pa len where x: "x = (va, pa, len)" by (cases x)
  have "len \<noteq> 0" "g \<le> seg_of d x"
    "unat (pa AND alm_mask (a_lut_manager d)) + unat len \<le> (g + n - seg_of d x) * unat (segment_size (a_lut_manager d))"
    using assms by (auto simp: serves_def x Let_def)
  then show ?thesis by (cases "seg_of d x < g + n") (auto simp: held_in_def unat_gt_0 unat_eq_zero)
qed

lemma serves_translates:
  assumes "lut_inv d" "groups (entries (a_lut_manager d)) g = Some (v, n, c)" "serves d g v n (va, pa, len)"
    and k: "k < unat len"
  shows "lut_translate d (va - aper_va d + word_of_nat k) = Some (pa + word_of_nat k)"
proof -
  let ?m = "a_lut_manager d" and ?i = "seg_of d (va, pa, len)"
  let ?S = "segment_size ?m"
  define off where "off = unat (pa AND alm_mask ?m)"
  have s: "va - aper_va d = word_of_nat ?i * ?S + (pa AND alm_mask ?m)" "g \<le> ?i"
    "v + word_of_nat (?i - g) * ?S = pa AND NOT (alm_mask ?m)" "off < unat ?S"
    "off + unat len \<le> (g + n - ?i) * unat ?S"
    using assms(3) by (auto simp: serves_def Let_def off_def)
  let ?q = "(off + k) div unat ?S" and ?r = "(off + k) mod unat ?S"
  have "off + k < (g + n - ?i) * unat ?S" using s(5) k by simp
  then have q: "?i + ?q < g + n" using less_mult_imp_div_less by fastforce
  have r: "?r < unat ?S" using s(4) by simp
  have "word_of_nat (?q * unat ?S + ?r) = (word_of_nat (off + k) :: u64)"
    by (simp only: div_mult_mod_eq)
  then have "word_of_nat ?q * word_of_nat (unat ?S) + word_of_nat ?r = (word_of_nat off + word_of_nat k :: u64)"
    by (simp only: of_nat_add of_nat_mult)
  then have split: "word_of_nat ?q * ?S + word_of_nat ?r = (pa AND alm_mask ?m) + word_of_nat k"
    by (simp add: off_def)
  have ak: "va - aper_va d + word_of_nat k = word_of_nat (?i + ?q) * ?S + word_of_nat ?r"
    by (simp only: s(1) add.assoc split [symmetric] of_nat_add distrib_right)
  from group_translates [OF assms(1,2) s(2) q r]
  have "lut_translate d (va - aper_va d + word_of_nat k) =
      Some ((pa AND NOT (alm_mask ?m)) + ((pa AND alm_mask ?m) + word_of_nat k))"
    unfolding ak s(3) split .
  then show ?thesis using masked_split [of pa "alm_mask ?m"] by (simp add: add.assoc [symmetric])
qed

lemma add_serves:
  assumes inv: "lut_inv d" and room: "alm_room (a_lut_manager d)"
    and d': "plx_alm_add_entry (a_lut_manager d) pa len = Some (Inr (rc, i, n), a_lut_manager d')"
    and va: "va - aper_va d' = word_of_nat i * segment_size (a_lut_manager d) + (pa AND alm_mask (a_lut_manager d))"
    and sg: "same_geom (a_lut_manager d) (a_lut_manager d')" and inv': "lut_inv d'"
  shows "seg_of d' (va, pa, len) = i"
    and "\<exists>g v l c. groups (entries (a_lut_manager d')) g = Some (v, l, c) \<and> serves d' g v l (va, pa, len)"
proof -
  let ?m = "a_lut_manager d" and ?m' = "a_lut_manager d'"
  have ai: "alm_inv ?m" "alm_geom ?m" using inv by (auto simp: lut_inv_def alm_inv_def)
  obtain m1 where m1: "alm_inv m1" "same_geom ?m m1"
    "added m1 (pa AND NOT (alm_mask ?m)) n rc i ?m'" "alm_fits ?m len"
    "n = unat (alm_segments ?m pa len)" "0 < n"
    using add_entry_Inr [OF ai(1) room d'] by metis
  obtain g v l c where G: "groups (entries ?m') g = Some (v, l, c)" "g \<le> i"
    "i + n \<le> g + l" "v + word_of_nat (i - g) * segment_size ?m = pa AND NOT (alm_mask ?m)"
    using added_place [OF m1(3,1,6)] same_geom_fields [OF m1(2)] by auto
  have wf': "table_ok (entries ?m')" "length (entries ?m') = unat (segments_num ?m)"
    using inv' same_geom_fields [OF sg] by (auto simp: lut_inv_def alm_inv_def alm_wf_table)
  have f: "segment_size ?m' = segment_size ?m" "alm_mask ?m' = alm_mask ?m"
    using same_geom_fields [OF sg] by auto
  have off: "unat (pa AND alm_mask ?m) < unat (segment_size ?m)"
    "unat (pa AND alm_mask ?m) + unat len \<le> n * unat (segment_size ?m)"
    using alm_segments_props(2,3) [OF ai(2), of len pa] m1(4,5) by (auto simp: alm_fits_def)
  have lt: "i + 0 < unat (segments_num ?m)"
    using groups_bounds(2) [OF wf'(1) G(1)] G(3) m1(6) wf'(2) by simp
  have "(word_of_nat (i + 0) * segment_size ?m + word_of_nat (unat (pa AND alm_mask ?m))) div segment_size ?m
      = word_of_nat (i + 0)"
    by (rule geom_segment(2) [OF ai(2) lt off(1)])
  moreover have "unat (word_of_nat i :: u64) = i"
    using lt inv by (simp add: lut_inv_def unsigned_of_nat take_bit_nat_eq_self)
  ultimately show seg: "seg_of d' (va, pa, len) = i" by (simp add: seg_of_def f va)
  have "n * unat (segment_size ?m) \<le> (g + l - i) * unat (segment_size ?m)"
    using G(3) by (intro mult_le_mono1) simp
  with off(2) have "unat (pa AND alm_mask ?m) + unat len \<le> (g + l - i) * unat (segment_size ?m)"
    by (rule le_trans)
  then have "serves d' g v l (va, pa, len)"
    using va G(2,4) off(1) m1(4) by (simp add: serves_def seg f Let_def alm_fits_def)
  with G(1) show "\<exists>g v l c. groups (entries ?m') g = Some (v, l, c) \<and> serves d' g v l (va, pa, len)" by blast
qed

text \<open>
  C32: A mapping made by \<open>plx_add_a_lut_entry\<close> is what the peer reads through: the call returns and
  keeps registers and manager in step, and when it succeeds, every byte of the requested range is
  reached at the same distance from the returned address, by the contents of the A-LUT registers.
\<close>
theorem lut_add_translates:
  assumes "lut_inv d" "alm_room (a_lut_manager d)"
  shows "\<exists>r d'. plx_add_a_lut_entry d addr bytes = Some (r, d') \<and> lut_inv d' \<and>
    (\<forall>a. r = Inr a \<longrightarrow> (\<forall>k < unat bytes. lut_translate d' (a + word_of_nat k) = Some (addr + word_of_nat k)))"
proof -
  let ?m = "a_lut_manager d"
  obtain r d' where d': "plx_add_a_lut_entry d addr bytes = Some (r, d')" "lut_inv d'"
    "same_geom ?m (a_lut_manager d')" and
    ok: "\<And>a. r = Inr a \<Longrightarrow> \<exists>rc i n. plx_alm_add_entry ?m addr bytes =
       Some (Inr (rc, i, n), a_lut_manager d') \<and> a = word_of_nat i * segment_size ?m + (addr AND alm_mask ?m)"
    using lut_add_inv [OF assms, of addr bytes] by metis
  have "lut_translate d' (a + word_of_nat k) = Some (addr + word_of_nat k)"
    if a: "r = Inr a" and k: "k < unat bytes" for a k
  proof -
    obtain rc i n where add: "plx_alm_add_entry ?m addr bytes = Some (Inr (rc, i, n), a_lut_manager d')"
      and out: "aper_va d' + a - aper_va d' = word_of_nat i * segment_size ?m + (addr AND alm_mask ?m)"
      using ok [OF a] by auto
    from add_serves(2) [OF assms add out d'(3,2)] obtain g v l c where
      "groups (entries (a_lut_manager d')) g = Some (v, l, c)" "serves d' g v l (aper_va d' + a, addr, bytes)"
      by blast
    from serves_translates [OF d'(2) this k] show ?thesis by simp
  qed
  with d' show ?thesis by blast
qed

lemma same_view:
  assumes "same_geom (a_lut_manager d) (a_lut_manager d')" "aper_va d' = aper_va d"
  shows "seg_of d' = seg_of d" "serves d' = serves d" "held_in d' = held_in d"
  using same_geom_fields [OF assms(1)] assms(2)
  by (simp_all add: fun_eq_iff seg_of_def serves_def held_in_def Let_def)

text \<open>The groups may lose unreferenced ones: the mappings held are not affected.\<close>

lemma client_inv_drop:
  assumes J: "client_inv d held" and inv: "lut_inv d'" "a_lut d'" "aper_va d' = aper_va d"
    and sg: "same_geom (a_lut_manager d) (a_lut_manager d')"
    and G: "groups (entries (a_lut_manager d')) = groups (entries (a_lut_manager d)) \<or>
      groups (entries (a_lut_manager d')) = drop_unused UNIV (groups (entries (a_lut_manager d)))"
  shows "client_inv d' held"
proof -
  note v = same_view [OF sg inv(3)]
  let ?G = "groups (entries (a_lut_manager d))" and ?G' = "groups (entries (a_lut_manager d'))"
  have sub: "?G g = Some (w, n, c)" if "?G' g = Some (w, n, c)" for g w n c
    using G that by (auto simp: drop_unused_Some)
  have keep: "?G' g = Some (w, n, c)" if "?G g = Some (w, n, c)" "x \<in> set held" "serves d g w n x" for g w n c x
  proof -
    have "x \<in> set (filter (held_in d g n) held)" using that serves_held by auto
    then have "filter (held_in d g n) held \<noteq> []" by (metis empty_iff list.set(1))
    moreover have "c = Suc (length (filter (held_in d g n) held))"
      using J that(1) by (auto simp: client_inv_def)
    ultimately have "c \<noteq> 1" by simp
    then show ?thesis using G that(1) by (auto simp: drop_unused_def)
  qed
  have "\<exists>g w n c. ?G' g = Some (w, n, c) \<and> serves d g w n x" if "x \<in> set held" for x
    using J that keep unfolding client_inv_def by metis
  then show ?thesis using J inv sub by (simp add: client_inv_def v)
qed

lemma client_inv_add:
  assumes J: "client_inv d held" and ad: "added (a_lut_manager d) am n rc i (a_lut_manager d')" "0 < n"
    and inv: "lut_inv d'" "a_lut d'" "aper_va d' = aper_va d"
    and sg: "same_geom (a_lut_manager d) (a_lut_manager d')"
    and x: "seg_of d' x = i"
      "\<exists>g v l c. groups (entries (a_lut_manager d')) g = Some (v, l, c) \<and> serves d' g v l x"
  shows "client_inv d' (x # held)"
proof -
  note v = same_view [OF sg inv(3)]
  let ?es = "entries (a_lut_manager d)"
  let ?G = "groups ?es" and ?G' = "groups (entries (a_lut_manager d'))"
  have ok: "table_ok ?es" "length ?es = unat (segments_num (a_lut_manager d))"
    using J by (auto simp: client_inv_def lut_inv_def alm_inv_def alm_wf_table)
  have cnt: "c = Suc (length (filter (held_in d g l) held))" if "?G g = Some (w, l, c)" for g w l c
    using J that by (auto simp: client_inv_def)
  have serv: "\<exists>g w l c. ?G g = Some (w, l, c) \<and> serves d g w l y" if "y \<in> set held" for y
    using J that by (auto simp: client_inv_def)
  have "\<exists>g w l c. ?G' g = Some (w, l, c) \<and> serves d g w l y" if "y \<in> set held" for y
    using serv [OF that] added_keeps [OF ad(1,2)] by metis
  moreover have "c = Suc (length (filter (held_in d h l) (x # held)))" if "?G' h = Some (w, l, c)" for h w l c
  proof (cases rc)
    case Added
    then have a: "i + n \<le> length ?es" "free_run ?es i n" "?G' = ?G(i \<mapsto> (am, n, 2))"
      using ad ok(2) by (auto simp: added_def)
    have nc: "\<not> held_in d g k y \<or> \<not> (i \<le> seg_of d y \<and> seg_of d y < i + n)" if "?G g = Some (u, k, e)" for g u k e y
      using groups_covers [OF that, of "seg_of d y"] not_free_covered [OF ok(1)] free_run_at [OF a(2)]
      by (auto simp: held_in_def)
    show ?thesis
    proof (cases "h = i")
      case True
      have "\<not> held_in d i n y" if "y \<in> set held" for y
        using serv [OF that] serves_held nc by (metis held_in_def)
      then have "filter (held_in d i n) held = []" by (simp add: filter_empty_conv)
      with True that a(3) x(1) ad(2) show ?thesis by (simp add: held_in_def v)
    next
      case False
      with that a(3) have "?G h = Some (w, l, c)" by simp
      moreover from nc [OF this, of x] have "\<not> held_in d h l x" using x(1) ad(2) by (simp add: v)
      ultimately show ?thesis using cnt by simp
    qed
  next
    case Exists
    then obtain g u k e where g: "?G g = Some (u, k, e)" "g \<le> i" "i + n \<le> g + k" "?G' = ?G(g \<mapsto> (u, k, e + 1))"
      using ad by (auto simp: added_def)
    have "held_in d g k x" using g(2,3) x(1) ad(2) by (simp add: held_in_def v)
    moreover have "\<not> held_in d h l x" if "?G h = Some (w, l, c)" "h \<noteq> g" for h w l c
      using groups_disjoint [OF ok(1) g(1) that(1), of i] g(2,3) x(1) ad(2) that(2)
      by (auto simp: held_in_def v)
    ultimately show ?thesis using that g(1,4) cnt by (cases "h = g") auto
  qed
  ultimately show ?thesis using x(2) inv by (auto simp: client_inv_def v)
qed

lemma filter_remove_nth:
  assumes "j < length xs"
  shows "length (filter P xs) =
    length (filter P (take j xs @ drop (Suc j) xs)) + (if P (xs ! j) then 1 else 0)"
proof -
  have "xs = take j xs @ xs ! j # drop (Suc j) xs" using assms by (rule id_take_nth_drop)
  then have "length (filter P xs) = length (filter P (take j xs @ xs ! j # drop (Suc j) xs))" by simp
  then show ?thesis by simp
qed

lemma iounmap_in_range:
  assumes inv: "lut_inv d" "a_lut d" and seg: "seg_of d x < unat (segments_num (a_lut_manager d))"
    and del: "plx_alm_del_entry (a_lut_manager d) (seg_of d x) = Some (m', None)"
  shows "plx_iounmap d (fst x) = Some (d\<lparr>a_lut_manager := m'\<rparr>)"
proof -
  let ?m = "a_lut_manager d" and ?a = "fst x - aper_va d"
  let ?S = "segment_size ?m"
  have geom: "alm_geom ?m" and N: "unat (segments_num ?m) \<le> 256"
    using inv(1) by (auto simp: lut_inv_def alm_inv_def)
  have S0: "?S \<noteq> 0" using geom by (simp add: alm_geom_def is_power_of_2_def)
  have u32: "unat (ucast (?a div ?S) :: u32) = seg_of d x"
    using seg N by (simp add: seg_of_def unsigned_ucast_eq take_bit_nat_eq_self)
  have "\<not> ucast (segments_num ?m) * ?S \<le> ?a"
  proof
    assume le: "ucast (segments_num ?m) * ?S \<le> ?a"
    have "unat (ucast (segments_num ?m) :: u64) = unat (segments_num ?m)"
      using N by (simp add: unsigned_ucast_eq take_bit_nat_eq_self)
    moreover have "unat (segments_num ?m) * unat ?S < 2 ^ 64"
      using geom S0 unat_gt_0 [of ?S] by (simp add: alm_geom_def algebra_simps)
    ultimately have "unat (segments_num ?m) * unat ?S \<le> unat ?a"
      using le by (simp add: word_le_nat_alt unat_word_ariths)
    then have "unat (segments_num ?m) \<le> unat ?a div unat ?S"
      using S0 unat_gt_0 [of ?S] by (simp add: less_eq_div_iff_mult_less_eq)
    with seg show False by (simp add: seg_of_def unat_div)
  qed
  then show ?thesis
    using inv(2) S0 del u32 by (simp add: plx_iounmap_def plx_del_a_lut_entry_def Let_def)
qed

lemma lut_inv_recount:
  assumes inv: "lut_inv d" and wf: "alm_wf m'" and sg: "same_geom (a_lut_manager d) m'"
    and G: "groups (entries (a_lut_manager d)) g = Some (v, n, c)"
      "groups (entries m') = (groups (entries (a_lut_manager d)))(g \<mapsto> (v, n, c'))"
  shows "lut_inv (d\<lparr>a_lut_manager := m'\<rparr>)"
proof -
  let ?m = "a_lut_manager d"
  have ai: "alm_inv ?m" using inv by (simp add: lut_inv_def)
  have "aligned ?m w" if "groups (entries m') h = Some (w, l, e)" for h w l e
    using that ai G by (auto simp: alm_inv_def split: if_splits)
  then have "alm_inv m'" by (rule alm_inv_same [OF ai sg wf])
  moreover have "lut_holds d (segment_size ?m) (groups (entries m'))"
    by (rule lut_holds_sub [of d _ "groups (entries ?m)"])
      (use inv G in \<open>auto simp: lut_inv_holds split: if_splits\<close>)
  ultimately show ?thesis using inv same_geom_fields [OF sg] by (simp add: lut_inv_holds)
qed

lemma client_inv_del:
  assumes J: "client_inv d held" and j: "j < length held"
  shows "\<exists>d'. plx_iounmap d (fst (held ! j)) = Some d' \<and> same_geom (a_lut_manager d) (a_lut_manager d') \<and>
    client_inv d' (take j held @ drop (Suc j) held)"
proof -
  let ?m = "a_lut_manager d" and ?x = "held ! j" and ?held = "take j held @ drop (Suc j) held"
  let ?G = "groups (entries ?m)"
  have inv: "lut_inv d" "a_lut d" and wf: "alm_wf ?m"
    and ok: "table_ok (entries ?m)" "length (entries ?m) = unat (segments_num ?m)"
    using J by (auto simp: client_inv_def lut_inv_def alm_inv_def alm_wf_table)
  have cnt: "e = Suc (length (filter (held_in d h l) held))" if "?G h = Some (w, l, e)" for h w l e
    using J that by (auto simp: client_inv_def)
  obtain g v n c where g: "?G g = Some (v, n, c)" "serves d g v n ?x"
    using J j nth_mem [OF j] unfolding client_inv_def by blast
  have i: "g \<le> seg_of d ?x" "seg_of d ?x < g + n" using serves_held [OF g(2)] by (auto simp: held_in_def)
  have rm: "length (filter (held_in d g n) held) = Suc (length (filter (held_in d g n) ?held))"
    using filter_remove_nth [OF j, of "held_in d g n"] serves_held [OF g(2)] by simp
  then have "c \<noteq> 1" using cnt [OF g(1)] by simp
  then obtain m' where m': "plx_alm_del_entry ?m (seg_of d ?x) = Some (m', None)" "alm_wf m'"
    "same_geom ?m m'" "groups (entries m') = ?G(g \<mapsto> (v, n, c - 1))"
    using del_entry_groups [OF wf g(1) i] g(1) by (auto simp: drop_ref_def same_geom_def)
  let ?d = "d\<lparr>a_lut_manager := m'\<rparr>"
  have "seg_of d ?x < unat (segments_num ?m)" using groups_bounds(2) [OF ok(1) g(1)] i ok(2) by simp
  note step = iounmap_in_range [OF inv this m'(1)]
  have sg: "same_geom ?m (a_lut_manager ?d)" using m'(3) by simp
  note vw = same_view [OF sg, simplified]
  have "\<exists>h w l e. groups (entries m') h = Some (w, l, e) \<and> serves d h w l y" if "y \<in> set ?held" for y
  proof -
    have "y \<in> set held" using that by (auto dest: in_set_takeD in_set_dropD)
    then obtain h w l e where "?G h = Some (w, l, e)" "serves d h w l y" using J by (auto simp: client_inv_def)
    then show ?thesis using m'(4) g(1) by (cases "h = g") auto
  qed
  moreover have "e = Suc (length (filter (held_in d h l) ?held))"
    if "groups (entries m') h = Some (w, l, e)" for h w l e
  proof (cases "h = g")
    case True
    then show ?thesis using that m'(4) cnt [OF g(1)] rm by auto
  next
    case False
    with that m'(4) have G: "?G h = Some (w, l, e)" by simp
    then have "\<not> held_in d h l ?x"
      using groups_disjoint [OF ok(1) g(1) G i] False by (auto simp: held_in_def)
    then show ?thesis using cnt [OF G] filter_remove_nth [OF j, of "held_in d h l"] by simp
  qed
  ultimately have "client_inv ?d ?held"
    using lut_inv_recount [OF inv(1) m'(2,3) g(1) m'(4)] inv(2) by (simp add: client_inv_def vw)
  with step sg show ?thesis by blast
qed

lemma client_inv_map:
  assumes J: "client_inv d held" and few: "length held < 65534"
  shows "\<exists>r d'. plx_ioremap d pa len = Some (r, d') \<and>
    client_inv d' (case r of None \<Rightarrow> held | Some va \<Rightarrow> (va, pa, len) # held)"
proof -
  let ?m = "a_lut_manager d"
  let ?G = "groups (entries ?m)"
  have inv: "lut_inv d" "a_lut d" "alm_inv ?m" using J by (auto simp: client_inv_def lut_inv_def)
  have "c < 65535" if "?G g = Some (v, n, c)" for g v n c
  proof -
    have "c = Suc (length (filter (held_in d g n) held))" using J that by (auto simp: client_inv_def)
    then show ?thesis using few le_less_trans [OF length_filter_le few] by simp
  qed
  then have room: "alm_room ?m" by (auto simp: alm_room_def)
  obtain r d' where d': "plx_add_a_lut_entry d pa len = Some (r, d')" "lut_inv d'"
    "same_geom ?m (a_lut_manager d')" "a_lut d' = a_lut d" "aper_va d' = aper_va d"
    and ok: "\<And>a. r = Inr a \<Longrightarrow> \<exists>rc i n. plx_alm_add_entry ?m pa len =
       Some (Inr (rc, i, n), a_lut_manager d') \<and> a = word_of_nat i * segment_size ?m + (pa AND alm_mask ?m)"
    and er: "\<And>e. r = Inl e \<Longrightarrow> groups (entries (a_lut_manager d')) = ?G \<or>
       groups (entries (a_lut_manager d')) = drop_unused UNIV ?G"
    using lut_add_inv [OF inv(1) room, of pa len] by metis
  show ?thesis
  proof (cases r)
    case (Inl e)
    then have "client_inv d' held"
      using client_inv_drop [OF J d'(2) _ d'(5,3) er [OF Inl]] d'(4) inv(2) by simp
    then show ?thesis using d'(1) Inl inv(2) by (simp add: plx_ioremap_def)
  next
    case (Inr a)
    obtain rc i n where add: "plx_alm_add_entry ?m pa len = Some (Inr (rc, i, n), a_lut_manager d')"
      and a: "aper_va d + a - aper_va d' = word_of_nat i * segment_size ?m + (pa AND alm_mask ?m)"
      using ok [OF Inr] d'(5) by auto
    obtain m1 where m1: "alm_inv m1" "same_geom ?m m1" "groups (entries m1) = ?G \<or>
       groups (entries m1) = drop_unused UNIV ?G"
      "added m1 (pa AND NOT (alm_mask ?m)) n rc i (a_lut_manager d')" "0 < n"
      using add_entry_Inr [OF inv(3) room add] by metis
    let ?d1 = "d\<lparr>a_lut_manager := m1\<rparr>"
    have "lut_holds d (segment_size ?m) (groups (entries m1))"
      by (rule lut_holds_sub [of d _ ?G]) (use inv(1) m1(3) in \<open>auto simp: lut_inv_holds drop_unused_Some\<close>)
    then have "lut_inv ?d1" using m1(1) inv(1) same_geom_fields [OF m1(2)] by (simp add: lut_inv_holds)
    then have J1: "client_inv ?d1 held"
      using client_inv_drop [OF J, of ?d1] m1(2,3) inv(2) by simp
    have sg1: "same_geom m1 (a_lut_manager d')" using m1(2) d'(3) by (simp add: same_geom_def)
    have "client_inv d' ((aper_va d + a, pa, len) # held)"
      by (rule client_inv_add [OF J1 _ m1(5) d'(2), of _ rc i])
        (use m1(4) sg1 d'(4,5) inv(2) add_serves [OF inv(1) room add a d'(3,2)] in auto)
    then show ?thesis using d'(1) Inr inv(2) by (simp add: plx_ioremap_def)
  qed
qed

lemma lut_run_inv:
  assumes "client_inv d held" "length held + length ops < 65534"
  shows "\<exists>d' held'. lut_run d held ops = Some (d', held') \<and> client_inv d' held'"
  using assms
proof (induction ops arbitrary: d held)
  case (Cons x ops)
  show ?case
  proof (cases x)
    case (Map pa len)
    from client_inv_map [OF Cons.prems(1), of pa len] Cons.prems(2) obtain r d' where
      r: "plx_ioremap d pa len = Some (r, d')" "client_inv d' (case r of None \<Rightarrow> held | Some va \<Rightarrow> (va, pa, len) # held)"
      by auto
    then show ?thesis using Map Cons.prems(2) Cons.IH [OF r(2)] by (cases r) simp_all
  next
    case (Unmap j)
    show ?thesis
    proof (cases "j < length held")
      case True
      from client_inv_del [OF Cons.prems(1) True] obtain d' where
        d': "plx_iounmap d (fst (held ! j)) = Some d'" "client_inv d' (take j held @ drop (Suc j) held)" by blast
      then show ?thesis using Unmap True Cons.prems(2) Cons.IH [OF d'(2)] by simp
    qed (use Unmap Cons.prems Cons.IH in simp)
  qed
qed simp

text \<open>
  C12: Whatever a client does with the aperture, in fewer than 65534 calls of \<open>plx_ioremap\<close> and
  \<open>plx_iounmap\<close> from an empty table, no call stops the kernel, and at the end every byte of every
  mapping still held is translated to its physical address by the A-LUT registers: neither lazy
  unmapping, nor sharing of segments, nor reclaiming ever breaks a live mapping.
\<close>
theorem lut_client_safe:
  assumes "lut_inv d" "a_lut d" "\<forall>g. groups (entries (a_lut_manager d)) g = None" "length ops < 65534"
  shows "\<exists>d' held. lut_run d [] ops = Some (d', held) \<and>
    (\<forall>(va, pa, len) \<in> set held. \<forall>k < unat len.
       lut_translate d' (va - aper_va d' + word_of_nat k) = Some (pa + word_of_nat k))"
proof -
  have "client_inv d []" using assms(1-3) by (simp add: client_inv_def)
  from lut_run_inv [OF this, of ops] assms(4) obtain d' held where
    r: "lut_run d [] ops = Some (d', held)" "client_inv d' held" by auto
  have "lut_translate d' (va - aper_va d' + word_of_nat k) = Some (pa + word_of_nat k)"
    if "(va, pa, len) \<in> set held" "k < unat len" for va pa len k
    using r(2) that serves_translates unfolding client_inv_def by blast
  with r(1) show ?thesis by blast
qed

text \<open>A device with four segments, with nothing mapped.\<close>

definition lut_sample :: plx_lut_dev where
  "lut_sample = \<lparr>mmio = (\<lambda>_. 0), a_lut_array_base = 0x10000, a_lut_manager = alm_sample, a_lut = True,
     aper_va = 0x80000000\<rparr>"

lemma lut_sample_ok: "lut_inv lut_sample" "a_lut lut_sample"
  "\<forall>g. groups (entries (a_lut_manager lut_sample)) g = None" "alm_room (a_lut_manager lut_sample)"
proof -
  show g: "\<forall>g. groups (entries (a_lut_manager lut_sample)) g = None"
    by (simp add: lut_sample_def alm_sample_def)
  show "lut_inv lut_sample" using alm_sample_ok(1) g by (simp add: lut_inv_def lut_sample_def) (simp add: alm_sample_def)
  show "a_lut lut_sample" "alm_room (a_lut_manager lut_sample)"
    using alm_sample_ok(2) by (simp_all add: lut_sample_def)
qed

theorem lut_client_safe_witness:
  "\<exists>d' held. lut_run lut_sample [] [Map 0x5010 0x1800, Map 0x6000 0x10, Unmap 1, Map 0x9000 0x3000, Map 0x5800 1] =
      Some (d', held) \<and>
    (\<forall>(va, pa, len) \<in> set held. \<forall>k < unat len.
       lut_translate d' (va - aper_va d' + word_of_nat k) = Some (pa + word_of_nat k))"
  by (rule lut_client_safe [OF lut_sample_ok(1-3)]) simp

theorem lut_add_translates_witness:
  "\<exists>r d'. plx_add_a_lut_entry lut_sample 0x5010 0x1800 = Some (r, d') \<and> lut_inv d' \<and>
    (\<forall>a. r = Inr a \<longrightarrow> (\<forall>k < unat (0x1800::u64). lut_translate d' (a + word_of_nat k) = Some (0x5010 + word_of_nat k)))"
  by (rule lut_add_translates [OF lut_sample_ok(1,4)])

section \<open>Clearing the table\<close>

lemma clear_entry_reg:
  assumes "i < 256" "j < 256" "t \<in> lut_sub"
  shows "lut_reg (plx_a_lut_clear_entry (a_lut_array_base d) i d) (word_of_nat t) j =
    (if j = i then 0 else lut_reg d (word_of_nat t) j)"
proof -
  let ?o = "a_lut_array_base d + plx_get_a_lut_entry_offset (word_of_nat i)"
  let ?d1 = "plx_mmio_write 0 (?o + word_of_nat 0x800) d"
  let ?d2 = "plx_mmio_write 0 (?o + word_of_nat 0x400) ?d1"
  have "plx_a_lut_clear_entry (a_lut_array_base d) i d = plx_mmio_write 0 (?o + word_of_nat 0) ?d2"
    by (simp add: plx_a_lut_clear_entry_def Let_def sub_nats add.commute del: of_nat_numeral)
  moreover have "t = 0 \<or> t = 0x400 \<or> t = 0x800" using assms(3) by (simp add: lut_sub_def)
  ultimately show ?thesis
    using lut_reg_write [of i j "0x800" t 0 d] lut_reg_write [of i j "0x400" t 0 ?d1]
      lut_reg_write [of i j 0 t 0 ?d2] assms by auto
qed

lemma clear_entry_fields [simp]:
  "a_lut_array_base (plx_a_lut_clear_entry off i d) = a_lut_array_base d"
  "a_lut_manager (plx_a_lut_clear_entry off i d) = a_lut_manager d"
  by (simp_all add: plx_a_lut_clear_entry_def Let_def)

lemma clear_fold:
  assumes "set is \<subseteq> {..<256}" "j < 256" "t \<in> lut_sub" "a_lut_array_base d = off"
  shows "lut_reg (fold (plx_a_lut_clear_entry off) is d) (word_of_nat t) j =
      (if j \<in> set is then 0 else lut_reg d (word_of_nat t) j)"
  using assms
proof (induction "is" arbitrary: d)
  case (Cons i "is")
  then show ?case
    using Cons.IH [of "plx_a_lut_clear_entry off i d"] clear_entry_reg [of i j t d]
    by (cases "j = i") auto
qed simp

lemma clear_fold_manager: "a_lut_manager (fold (plx_a_lut_clear_entry off) is d) = a_lut_manager d"
  by (induction "is" arbitrary: d) simp_all

text \<open>
  \<open>plx_a_lut_clear\<close> on a consistent device returns and leaves no group in the manager and no
  segment of the table enabled.
\<close>
theorem lut_clear_empties:
  assumes "lut_inv d"
  shows "\<exists>d'. plx_a_lut_clear d (a_lut_array_base d) = Some d' \<and> lut_inv d' \<and>
    (\<forall>g. groups (entries (a_lut_manager d')) g = None) \<and>
    (\<forall>i < unat (segments_num (a_lut_manager d)). \<not> lut_enabled d' i \<and> lut_remap d' i = 0)"
proof -
  let ?m = "a_lut_manager d"
  let ?n = "unat (segments_num ?m)"
  have wf: "alm_wf ?m" "alm_geom ?m" and n: "?n \<le> 256" and len: "length (entries ?m) = ?n"
    using assms by (auto simp: lut_inv_def alm_inv_def alm_wf_table)
  let ?m' = "?m\<lparr>entries := replicate ?n empty_entry\<rparr>"
  have "plx_alm_check ?m = Some ()"
    using wf len by (simp add: plx_alm_check_def check_loop_iff alm_wf_def)
  then have r: "plx_alm_reset ?m = Some ?m'" by (simp add: plx_alm_reset_def clear_entries_def len)
  let ?d = "fold (plx_a_lut_clear_entry (a_lut_array_base d)) [0..<?n] (d\<lparr>a_lut_manager := ?m'\<rparr>)"
  have regs: "lut_reg ?d (word_of_nat t) i = 0" if "i < ?n" "t \<in> lut_sub" for i t
  proof -
    have "set [0..<?n] \<subseteq> {..<256}" "i < 256" using that n by auto
    from clear_fold [OF this that(2), of "d\<lparr>a_lut_manager := ?m'\<rparr>"] that(1) show ?thesis by simp
  qed
  have "lut_remap ?d i = 0" "\<not> lut_enabled ?d i" if "i < ?n" for i
    using regs [OF that lut_sub_mem(1)] regs [OF that lut_sub_mem(2)] regs [OF that lut_sub_mem(3)]
    by (auto simp: lut_remap_def lut_enabled_def lut_regs)
  moreover have m: "a_lut_manager ?d = ?m'"
    by (simp add: clear_fold_manager)
  moreover have "alm_inv ?m'"
    by (rule alm_inv_empty(1)) (use wf(2) in \<open>simp_all add: alm_geom_def\<close>)
  ultimately show ?thesis using r n by (simp add: plx_a_lut_clear_def lut_inv_def)
qed

theorem lut_clear_empties_witness:
  "\<exists>d'. plx_a_lut_clear lut_sample (a_lut_array_base lut_sample) = Some d' \<and> lut_inv d' \<and>
    (\<forall>g. groups (entries (a_lut_manager d')) g = None) \<and>
    (\<forall>i < unat (segments_num (a_lut_manager lut_sample)). \<not> lut_enabled d' i \<and> lut_remap d' i = 0)"
  by (rule lut_clear_empties [OF lut_sample_ok(1)])

end
