(* ===== verification/Plx_Hw.thy ===== *)
theory Plx_Hw
  imports Plx_Lut
begin

unbundle bit_operations_syntax

text \<open>
  The register-level driver of the switch (\<open>plx87xx/plx_hw.c\<close>, \<open>plx_hw.h\<close>, \<open>plx_device.h\<close>):
  scratch pads, doorbells, the requester-id tables, initialisation, the GPIO outputs that reset and
  power the CPUs of a card, and the buffers of the configuration files. A register file is a function
  from offsets to words. What happens to the registers while the driver sleeps is a function
  \<open>env\<close> that a definition takes as an argument, and so are the readings of the clock.
\<close>

section \<open>State\<close>

text \<open>
  The last three fields are not in the C structure: the milliseconds the boot protocol has slept, the
  commands it has issued to the card, and the memory of the card.
\<close>

record plx_device =
  dev_lut :: plx_lut_dev
  aper_pa :: u64
  aper_len :: u64
  port_id :: u32
  link_side :: bool
  a_lut_peer :: bool
  reg_base :: u32
  reg_base_peer :: u32
  intr_reg_base :: u32
  peer_intr_reg_base :: u32
  mmio_link_offset :: u32
  card_id :: nat
  card_type :: u32
  pci_device :: u16
  pci_slot :: u32
  has_dma :: bool
  vca_csm_index :: "u32 option"
  lbp_locked :: bool
  lbp_resetting :: bool
  card_wait :: bool
  i7_ddr_size_mb :: u32
  i7_irq_timeout_ms :: u32
  i7_alloc_timeout_ms :: u32
  i7_cmd_timeout_ms :: u32
  i7_mac_write_timeout_ms :: u32
  bios_information_date :: u64
  bios_information_version :: u64
  bios_cfg_sgx :: u64
  bios_cfg_gpu_aperture :: u64
  bios_cfg_tdp :: u64
  bios_cfg_hyper_threading :: u64
  bios_cfg_gpu :: u64
  power_ts :: "u64 list"
  reset_ts :: u64
  clock :: nat
  cmd_log :: "u32 list"
  card_mem :: "u64 \<Rightarrow> u8"

type_synonym regs = "u32 \<Rightarrow> u32"

section \<open>Constants\<close>

definition VCA_VV_FAB1 :: u32 where "VCA_VV_FAB1 = 0x2"
definition VCA_VV_FAB2 :: u32 where "VCA_VV_FAB2 = 0x4"
definition VCA_MV_FAB1 :: u32 where "VCA_MV_FAB1 = 0x8"
definition VCA_FPGA_FAB1 :: u32 where "VCA_FPGA_FAB1 = 0x10"
definition VCA_VCAA_FAB1 :: u32 where "VCA_VCAA_FAB1 = 0x20"
definition VCA_VCGA_FAB1 :: u32 where "VCA_VCGA_FAB1 = 0x40"
definition VCA_VV :: u32 where "VCA_VV = VCA_VV_FAB1 OR VCA_VV_FAB2"
definition VCA_PRODUCTION :: u32 where
  "VCA_PRODUCTION = VCA_VV OR VCA_MV_FAB1 OR VCA_FPGA_FAB1 OR VCA_VCAA_FAB1 OR VCA_VCGA_FAB1"

definition PLX_LINK_STATUS_AND_CONTROL_REGISTER :: u32 where "PLX_LINK_STATUS_AND_CONTROL_REGISTER = 0x78"
definition PLX_EEP_STATUS_CONTROL :: u32 where "PLX_EEP_STATUS_CONTROL = 0x260"
definition PLX_EEP_BUFFER :: u32 where "PLX_EEP_BUFFER = 0x264"
definition PLX_EEP_ADDRESS_BYTE :: u32 where "PLX_EEP_ADDRESS_BYTE = 0x26c"
definition PLX_GPIO_INPUT :: u32 where "PLX_GPIO_INPUT = 0x61C"
definition PLX_GPIO_OUTPUT :: u32 where "PLX_GPIO_OUTPUT = 0x624"
definition PLX_SPAD0 :: u32 where "PLX_SPAD0 = 0xC6C"
definition PLX_DBIS :: u32 where "PLX_DBIS = 0xC4C"
definition PLX_DBIC :: u32 where "PLX_DBIC = 0xC50"
definition PLX_DBIMS :: u32 where "PLX_DBIMS = 0xC54"
definition PLX_DBIMC :: u32 where "PLX_DBIMC = 0xC58"
definition PLX_RID_LUT_2_3 :: u32 where "PLX_RID_LUT_2_3 = 0xDB8"
definition PLX_NT0_RID_LUT_VIRTUAL_OFFSET :: u32 where "PLX_NT0_RID_LUT_VIRTUAL_OFFSET = 0x3edb4"
definition PLX_NT0_RID_LUT_LINK_OFFSET :: u32 where "PLX_NT0_RID_LUT_LINK_OFFSET = 0x3fdb4"
definition PLX_NT1_RID_LUT_VIRTUAL_OFFSET :: u32 where "PLX_NT1_RID_LUT_VIRTUAL_OFFSET = 0x3cdb4"
definition PLX_NT1_RID_LUT_LINK_OFFSET :: u32 where "PLX_NT1_RID_LUT_LINK_OFFSET = 0x3ddb4"
definition PLX_RID_LUT_ENABLE :: u32 where "PLX_RID_LUT_ENABLE = 0x00010001"
definition PLX_RID_LUT_ENABLE_1 :: u32 where "PLX_RID_LUT_ENABLE_1 = 0x1"
definition PLX_VS0UPSTREAM :: u32 where "PLX_VS0UPSTREAM = 0x360"
definition PLX_ALUT_SEGMENTS_NUM :: u32 where "PLX_ALUT_SEGMENTS_NUM = 256"
definition PLX_ALUT_NT0_PORT_ENABLE :: u32 where "PLX_ALUT_NT0_PORT_ENABLE = 0x40000000"
definition PLX_ALUT_NT1_PORT_ENABLE :: u32 where "PLX_ALUT_NT1_PORT_ENABLE = 0x80000000"
definition PLX_A_LUT_CONTROL :: u32 where "PLX_A_LUT_CONTROL = 0xc94"
definition PLX_A_LUT_ENABLE :: u32 where "PLX_A_LUT_ENABLE = 0x90000000"
definition PLX_CARD_LED_BIT :: u32 where "PLX_CARD_LED_BIT = 0x8"
definition PLX_MV_DEF_GPIO_VAL :: u32 where "PLX_MV_DEF_GPIO_VAL = 0x7ff"
definition PLX_DPLO_SPAD :: u32 where "PLX_DPLO_SPAD = 0"
definition PLX_DPHI_SPAD :: u32 where "PLX_DPHI_SPAD = 1"
definition RESET_GRACE_PERIOD_MS :: u64 where "RESET_GRACE_PERIOD_MS = 2000"
definition POWER_GRACE_PERIOD_MS :: u64 where "POWER_GRACE_PERIOD_MS = 1500"

text \<open>\<open>PLX_DBIS\<close> counts the doorbell registers; \<open>DB_TO_MASK\<close> shifts a one.\<close>

definition DB_TO_MASK :: "nat \<Rightarrow> u32" where
  "DB_TO_MASK n = push_bit n 1"

definition plx_reset_bits :: "u32 list list" where
  "plx_reset_bits = [[0x2, 0x4, 0x8], [0x4, 0x2, 0x8]]"
definition plx_reset_bits_vcga :: "u32 list" where
  "plx_reset_bits_vcga = [0x2, 0x4]"
definition plx_bios_rcv_bits :: "u32 list" where
  "plx_bios_rcv_bits = [0x10, 0x40, 0x20]"
definition plx_bios_rcv_bits_vcga :: "u32 list" where
  "plx_bios_rcv_bits_vcga = [0x10, 0x20]"

lemmas card_types = VCA_VV_FAB1_def VCA_VV_FAB2_def VCA_MV_FAB1_def VCA_FPGA_FAB1_def VCA_VCAA_FAB1_def
  VCA_VCGA_FAB1_def VCA_VV_def VCA_PRODUCTION_def

section \<open>Registers, scratch pads and doorbells\<close>

definition plx_mmio_read :: "plx_device \<Rightarrow> u32 \<Rightarrow> u32" where
  "plx_mmio_read d off = mmio (dev_lut d) off"

definition dev_mmio_write :: "u32 \<Rightarrow> u32 \<Rightarrow> plx_device \<Rightarrow> plx_device" where
  "dev_mmio_write v off d = d\<lparr>dev_lut := plx_mmio_write v off (dev_lut d)\<rparr>"

definition set_regs :: "regs \<Rightarrow> plx_device \<Rightarrow> plx_device" where
  "set_regs r d = d\<lparr>dev_lut := (dev_lut d)\<lparr>mmio := r\<rparr>\<rparr>"

definition plx_link_mmio_read :: "plx_device \<Rightarrow> u32 \<Rightarrow> u32" where
  "plx_link_mmio_read d off = plx_mmio_read d (mmio_link_offset d + off)"

definition spad_off :: "plx_device \<Rightarrow> u32 \<Rightarrow> u32" where
  "spad_off d idx = reg_base d + PLX_SPAD0 + idx * 4"

definition plx_write_spad :: "u32 \<Rightarrow> u32 \<Rightarrow> plx_device \<Rightarrow> plx_device" where
  "plx_write_spad idx v d = dev_mmio_write v (spad_off d idx) d"

definition plx_read_spad :: "plx_device \<Rightarrow> u32 \<Rightarrow> u32" where
  "plx_read_spad d idx = plx_mmio_read d (spad_off d idx)"

definition plx_enable_interrupts :: "plx_device \<Rightarrow> plx_device" where
  "plx_enable_interrupts d = dev_mmio_write 0xFFFF (reg_base d + intr_reg_base d + PLX_DBIMC) d"

definition plx_disable_interrupts :: "plx_device \<Rightarrow> plx_device" where
  "plx_disable_interrupts d = dev_mmio_write 0xFFFF (reg_base d + intr_reg_base d + PLX_DBIMS) d"

definition plx_send_intr :: "nat \<Rightarrow> plx_device \<Rightarrow> plx_device" where
  "plx_send_intr doorbell d =
     dev_mmio_write (DB_TO_MASK doorbell) (reg_base d + peer_intr_reg_base d + PLX_DBIS) d"

definition plx_ack_interrupt :: "plx_device \<Rightarrow> u32 \<times> plx_device" where
  "plx_ack_interrupt d =
     (let offset = reg_base d + intr_reg_base d + PLX_DBIC; reg = plx_mmio_read d offset in
      (reg, dev_mmio_write reg offset d))"

definition plx_set_dp_addr :: "u64 \<Rightarrow> plx_device \<Rightarrow> plx_device" where
  "plx_set_dp_addr dp_addr d =
     plx_write_spad PLX_DPHI_SPAD (ucast (drop_bit 32 dp_addr))
       (plx_write_spad PLX_DPLO_SPAD (ucast dp_addr) d)"

definition plx_get_dp_addr :: "plx_device \<Rightarrow> u64" where
  "plx_get_dp_addr d =
     (let lo = ucast (plx_read_spad d PLX_DPLO_SPAD) :: u64; hi = ucast (plx_read_spad d PLX_DPHI_SPAD) :: u64 in
      lo OR push_bit 32 hi)"

section \<open>The A-LUT switches\<close>

definition plx_a_lut_disable :: "plx_device \<Rightarrow> plx_device" where
  "plx_a_lut_disable d = dev_mmio_write 0 (reg_base d + PLX_A_LUT_CONTROL) d"

definition plx_a_lut_enable :: "plx_device \<Rightarrow> plx_device option" where
  "plx_a_lut_enable d =
     (let d1 = plx_a_lut_disable d in
      case plx_a_lut_clear (dev_lut d1) (a_lut_array_base (dev_lut d1)) of
        None \<Rightarrow> None
      | Some l \<Rightarrow>
          let d2 = d1\<lparr>dev_lut := l\<rparr> in
          Some (if a_lut_peer d2 then dev_mmio_write PLX_A_LUT_ENABLE (reg_base d2 + PLX_A_LUT_CONTROL) d2 else d2))"

definition plx_a_lut_peer_enable :: "plx_device \<Rightarrow> plx_device" where
  "plx_a_lut_peer_enable d = dev_mmio_write PLX_A_LUT_ENABLE (reg_base_peer d + PLX_A_LUT_CONTROL) d"

section \<open>Requester ids\<close>

text \<open>
  What the kernel knows of the place of the device in the PCI hierarchy: whether the driver runs in a
  guest (then the paravirtual registers hold the ids), the bridges above the device from the bottom up
  (whether a bridge is a root port, its bus and its device and function), and the topmost bus.
\<close>

record pci_bridge =
  is_root_port :: bool
  br_bus :: u8
  br_devfn :: u8

record pci_topology =
  kvm_guest :: bool
  pv_rootbus :: u32
  pv_rootport :: u32
  pv_dmabus :: u32
  bridges :: "pci_bridge list"
  top_bus :: u8
  dma_bus :: u8
  dma_devfn :: u8

definition PCI_SLOT :: "u8 \<Rightarrow> u8" where
  "PCI_SLOT devfn = drop_bit 3 devfn AND 0x1f"

definition plx_find_root_port :: "pci_topology \<Rightarrow> pci_bridge option" where
  "plx_find_root_port t = find is_root_port (bridges t)"

definition plx_rid_lut :: "u8 \<Rightarrow> u8 \<Rightarrow> u8 \<Rightarrow> u8 \<Rightarrow> u32" where
  "plx_rid_lut root_port_bus root_port_dev root_complex_bus root_complex_dev =
     push_bit 24 (ucast root_port_bus) OR push_bit 19 (ucast (root_port_dev AND 0x0f)) OR
     push_bit 8 (ucast root_complex_bus) OR push_bit 3 (ucast (root_complex_dev AND 0x0f)) OR
     PLX_RID_LUT_ENABLE"

definition plx_rid_lut_dma :: "u8 \<Rightarrow> u8 \<Rightarrow> u32" where
  "plx_rid_lut_dma bus dev =
     push_bit 8 (ucast bus) OR push_bit 3 (ucast (dev AND 0x0f)) OR PLX_RID_LUT_ENABLE_1"

text \<open>The result is unsigned: \<open>- ENXIO\<close> becomes \<open>0xfffffffa\<close>.\<close>

definition plx_find_rootinfo :: "pci_topology \<Rightarrow> u32" where
  "plx_find_rootinfo t =
     (if kvm_guest t then push_bit 16 (pv_rootbus t) OR pv_rootport t
      else case plx_find_root_port t of
        None \<Rightarrow> - 6
      | Some p \<Rightarrow> push_bit 16 (ucast (top_bus t)) OR (push_bit 8 (ucast (br_bus p)) OR ucast (br_devfn p)))"

definition plx_find_dma_bus_number :: "pci_topology \<Rightarrow> u32" where
  "plx_find_dma_bus_number t = (if kvm_guest t then pv_dmabus t else 0)"

definition plx_program_rid_lut_dma :: "pci_topology \<Rightarrow> plx_device \<Rightarrow> int \<times> plx_device" where
  "plx_program_rid_lut_dma t d =
     (if has_dma d then
        let rid_lut = (if kvm_guest t then plx_rid_lut_dma (ucast (plx_find_dma_bus_number t)) 0
                       else plx_rid_lut_dma (dma_bus t) (PCI_SLOT (dma_devfn t)))
        in (0, dev_mmio_write rid_lut (reg_base d + PLX_RID_LUT_2_3) d)
      else (19, d))"

text \<open>Bus number of the DMA engine and device number of the root port on the side of the card.\<close>

definition rid_lut_node_side :: "u32 \<Rightarrow> (u8 \<times> u8) option" where
  "rid_lut_node_side ty =
     (if ty \<in> {VCA_VV_FAB1, VCA_VV_FAB2, VCA_MV_FAB1, VCA_FPGA_FAB1} then Some (1, 1)
      else if ty = VCA_VCAA_FAB1 then Some (1, 0xc)
      else if ty = VCA_VCGA_FAB1 then Some (2, 1)
      else None)"

definition plx_program_rid_lut_for_node :: "plx_device \<Rightarrow> int \<times> plx_device" where
  "plx_program_rid_lut_for_node d =
     (if link_side d then (0, d)
      else
        let off = (if port_id d = 0 then PLX_NT0_RID_LUT_LINK_OFFSET else PLX_NT1_RID_LUT_LINK_OFFSET) in
        case rid_lut_node_side (card_type d) of
          None \<Rightarrow> (19, d)
        | Some (bus, root_port_dev) \<Rightarrow>
            let rid = plx_rid_lut 0 root_port_dev 0 0; rid_dma = plx_rid_lut_dma bus 0;
                rid_old = plx_mmio_read d off; rid_dma_old = plx_mmio_read d (off + 4);
                d1 = (if rid \<noteq> rid_old then dev_mmio_write rid off d else d)
            in (0, if rid_dma_old \<noteq> rid_dma then dev_mmio_write rid_dma (off + 4) d1 else d1))"

definition plx_program_rid_lut :: "pci_topology \<Rightarrow> plx_device \<Rightarrow> int \<times> plx_device" where
  "plx_program_rid_lut t d =
     (let virtual_off = (if port_id d = 0 then PLX_NT0_RID_LUT_VIRTUAL_OFFSET else PLX_NT1_RID_LUT_VIRTUAL_OFFSET);
          link_off = (if port_id d = 0 then PLX_NT0_RID_LUT_LINK_OFFSET else PLX_NT1_RID_LUT_LINK_OFFSET);
          rootinfo = plx_find_rootinfo t
      in if rootinfo = 0 then (- 6, d)
         else
           let rb = ucast (drop_bit 16 rootinfo) :: u8;
               info = rootinfo AND 0xffff;
               rp_bus = ucast (drop_bit 8 info) :: u8;
               rp_dev = PCI_SLOT (ucast (info AND 0xff));
               rid_lut = plx_rid_lut rp_bus rp_dev rb 0
           in (0, dev_mmio_write rid_lut (if link_side d then link_off else virtual_off) d))"

section \<open>Initialisation\<close>

definition plx_get_reg_base :: "u32 \<Rightarrow> u32 \<Rightarrow> u32" where
  "plx_get_reg_base side port = 0x3E000 - port * 0x2000 + side * 0x1000"

definition plx_check_eeprom :: "bool \<Rightarrow> plx_device \<Rightarrow> unit res" where
  "plx_check_eeprom DontCheckEepromCrc d =
     (if DontCheckEepromCrc then Inr ()
      else let v = plx_mmio_read d PLX_EEP_STATUS_CONTROL in
        if drop_bit 16 (v AND 0x30000) \<noteq> 1 then Inl EIO
        else if v AND 0x80000 \<noteq> 0 then Inl EIO else Inr ())"

text \<open>Port and side by PCI device id.\<close>

definition port_and_side :: "u16 \<Rightarrow> (u32 \<times> bool) option" where
  "port_and_side dev =
     (if dev = 0x2954 then Some (0, False) else if dev = 0x2955 then Some (1, False)
      else if dev = 0x2956 then Some (0, False) else if dev = 0x2958 then Some (0, True)
      else if dev = 0x2959 then Some (1, True) else if dev = 0x295a then Some (0, True) else None)"

definition alut_port_count :: "u32 \<Rightarrow> u32" where
  "alut_port_count v =
     (let n = (if v AND PLX_ALUT_NT0_PORT_ENABLE \<noteq> 0 then 1 else 0) +
              (if v AND PLX_ALUT_NT1_PORT_ENABLE \<noteq> 0 then 1 else 0)
      in if n = 0 then 2 else n)"

definition alut_base :: "u32 \<Rightarrow> bool \<Rightarrow> u32 \<Rightarrow> u32" where
  "alut_base ports side port =
     (if ports = 2 then
        (if \<not> side then (if port = 0 then 0x38000 else 0x3a000) else (if port = 0 then 0x39000 else 0x3b000))
      else if \<not> side then 0x38000 else 0x3a000)"

text \<open>
  Both \<open>VCA_ALUT_CARD_SIDE\<close> and \<open>VCA_ALUT_HOST_SIDE\<close> are defined in \<open>plx_hw.h\<close>, so that either side
  uses its table. \<open>None\<close> stands for a stop in the table manager.
\<close>

definition hw_init_ports :: "u32 \<Rightarrow> bool \<Rightarrow> plx_device \<Rightarrow> plx_device" where
  "hw_init_ports port side d =
     d\<lparr>port_id := port, link_side := side,
       reg_base := plx_get_reg_base (if side then 1 else 0) port,
       reg_base_peer := plx_get_reg_base (if side then 0 else 1) port,
       dev_lut := (dev_lut d)\<lparr>a_lut := True\<rparr>, a_lut_peer := True\<rparr>"

definition hw_init_intr :: "bool \<Rightarrow> plx_device \<Rightarrow> plx_device" where
  "hw_init_intr side d = (if side then d\<lparr>intr_reg_base := 0x10\<rparr> else d\<lparr>peer_intr_reg_base := 0x10\<rparr>)"

definition hw_init_tables :: "bool \<Rightarrow> u32 \<Rightarrow> plx_device \<Rightarrow> (unit res \<times> plx_device) option" where
  "hw_init_tables kzalloc_ok ports d =
     (case plx_a_lut_enable d of
        None \<Rightarrow> None
      | Some d' \<Rightarrow>
          (case plx_alm_init kzalloc_ok (PLX_ALUT_SEGMENTS_NUM div ports) (aper_len d') of
             None \<Rightarrow> None
           | Some m \<Rightarrow> Some (Inr (), d'\<lparr>dev_lut := (dev_lut d')\<lparr>a_lut_manager := m\<rparr>\<rparr>)))"

definition hw_init_luts :: "bool \<Rightarrow> pci_topology \<Rightarrow> u32 \<Rightarrow> bool \<Rightarrow> plx_device \<Rightarrow> (unit res \<times> plx_device) option" where
  "hw_init_luts kzalloc_ok t port side d =
     (let ports = alut_port_count (plx_link_mmio_read d PLX_VS0UPSTREAM) in
      case plx_program_rid_lut t (d\<lparr>dev_lut := (dev_lut d)\<lparr>a_lut_array_base := alut_base ports side port\<rparr>\<rparr>) of
        (rc, d') \<Rightarrow> if rc \<noteq> 0 then Some (Inl ENXIO, d') else hw_init_tables kzalloc_ok ports d')"

definition plx_hw_init :: "bool \<Rightarrow> bool \<Rightarrow> pci_topology \<Rightarrow> plx_device \<Rightarrow> (unit res \<times> plx_device) option" where
  "plx_hw_init DontCheckEepromCrc kzalloc_ok t d =
     (case port_and_side (pci_device d) of
        None \<Rightarrow> Some (Inl ENODEV, d)
      | Some (port, side) \<Rightarrow>
          let d1 = hw_init_ports port side d in
          case (if side then Inr () else plx_check_eeprom DontCheckEepromCrc d1) of
            Inl e \<Rightarrow> Some (Inl e, d1)
          | Inr _ \<Rightarrow> hw_init_luts kzalloc_ok t port side (hw_init_intr side d1))"

definition plx_hw_deinit :: "plx_device \<Rightarrow> plx_device option" where
  "plx_hw_deinit d =
     map_option (\<lambda>m. d\<lparr>dev_lut := (dev_lut d)\<lparr>a_lut_manager := m\<rparr>\<rparr>) (plx_alm_release (a_lut_manager (dev_lut d)))"

definition plx_dma_filter :: "bool \<Rightarrow> u32 \<Rightarrow> u8 \<Rightarrow> u8 \<Rightarrow> bool" where
  "plx_dma_filter config_read_ok v two_buses_up chan_bus =
     (if \<not> config_read_ok then False
      else if v AND push_bit 31 1 \<noteq> 0 then True
      else two_buses_up = chan_bus)"

definition plx_link_width :: "plx_device \<Rightarrow> u32" where
  "plx_link_width d =
     (let v = plx_link_mmio_read d PLX_LINK_STATUS_AND_CONTROL_REGISTER in
      if drop_bit 16 (v AND 0xF0000) \<noteq> 3 then 0 else drop_bit 20 (v AND 0x1F00000))"

definition plx_get_cpu_num :: "plx_device \<Rightarrow> u32" where
  "plx_get_cpu_num d =
     (if card_type d AND VCA_VV \<noteq> 0 then 3
      else if card_type d AND VCA_MV_FAB1 \<noteq> 0 then 3
      else if card_type d AND VCA_FPGA_FAB1 \<noteq> 0 then 1
      else if card_type d AND VCA_VCAA_FAB1 \<noteq> 0 then 1
      else if card_type d AND VCA_VCGA_FAB1 \<noteq> 0 then 2
      else 0)"

definition plx_get_meminfo :: "plx_device \<Rightarrow> u32" where
  "plx_get_meminfo d = i7_ddr_size_mb d"

definition plx_identify_cpu_id :: "bool \<Rightarrow> u16 \<Rightarrow> int" where
  "plx_identify_cpu_id vendor_intel dev =
     (if vendor_intel then
        (if dev = 0x2954 then 0 else if dev = 0x2955 then 1 else if dev = 0x2956 then 2 else - 1)
      else - 1)"

section \<open>GPIO outputs: reset, power, recovery\<close>

definition gpio_bit :: "u32 \<Rightarrow> nat \<Rightarrow> int" where
  "gpio_bit v n = (if bit v n then 1 else 0)"

definition gpio_set_bit :: "u32 \<Rightarrow> u32 \<Rightarrow> plx_device \<Rightarrow> plx_device" where
  "gpio_set_bit b off d = dev_mmio_write (plx_mmio_read d off OR b) off d"

definition gpio_clear_bit :: "u32 \<Rightarrow> u32 \<Rightarrow> plx_device \<Rightarrow> plx_device" where
  "gpio_clear_bit b off d = dev_mmio_write (plx_mmio_read d off AND NOT b) off d"

text \<open>
  \<open>signal_bit\<close>: the bit is low while the driver sleeps, when \<open>env\<close> happens to the registers, and high
  afterwards. The first component tells whether somebody raised the bit in the meantime.
\<close>

definition signal_bit :: "(regs \<Rightarrow> regs) \<Rightarrow> u32 \<Rightarrow> u32 \<Rightarrow> plx_device \<Rightarrow> bool \<times> plx_device" where
  "signal_bit env b off d =
     (let d1 = dev_mmio_write (plx_mmio_read d off AND NOT b) off d;
          d2 = set_regs (env (mmio (dev_lut d1))) d1;
          v = plx_mmio_read d2 off
      in (v AND b \<noteq> 0, dev_mmio_write (v OR b) off d2))"

definition plx_init_vca_g2_gpios :: "plx_device \<Rightarrow> plx_device" where
  "plx_init_vca_g2_gpios d =
     (let v = plx_mmio_read d PLX_GPIO_OUTPUT; ty = card_type d in
      if ty = VCA_MV_FAB1 then
        (if \<not> bit v 7 then dev_mmio_write PLX_MV_DEF_GPIO_VAL PLX_GPIO_OUTPUT d else d)
      else if ty = VCA_VCAA_FAB1 then dev_mmio_write 0x7ef PLX_GPIO_OUTPUT d
      else if ty = VCA_VCGA_FAB1 \<and> (bit v 1 \<or> bit v 2) then d
      else if ty \<in> {VCA_VCGA_FAB1, 0, VCA_VV, VCA_PRODUCTION, VCA_VV_FAB1, VCA_VV_FAB2, VCA_FPGA_FAB1}
      then dev_mmio_write 0x7ff PLX_GPIO_OUTPUT d
      else d)"

text \<open>\<open>time_after_eq64\<close> and \<open>time_before64\<close> compare by the sign of the difference.\<close>

definition time_after_eq64 :: "u64 \<Rightarrow> u64 \<Rightarrow> bool" where
  "time_after_eq64 a b \<longleftrightarrow> 0 \<le> sint (a - b)"
definition time_before64 :: "u64 \<Rightarrow> u64 \<Rightarrow> bool" where
  "time_before64 a b \<longleftrightarrow> sint (a - b) < 0"

text \<open>
  The device contexts by card and CPU. \<open>plx_lbp_reset_start\<close> and \<open>plx_lbp_reset_stop\<close> are in
  \<open>plx_lbp.c\<close>; the mutex is held in between. \<open>None\<close>: the mutex is held by another call, or the context
  is missing.
\<close>

type_synonym plx_contexts = "nat \<Rightarrow> nat \<Rightarrow> plx_device option"

definition MAX_VCA_CARDS :: nat where "MAX_VCA_CARDS = 8"
definition MAX_VCA_CARD_CPUS :: nat where "MAX_VCA_CARD_CPUS = 4"
definition PLX_LBP_SPAD_i7_READY :: u32 where "PLX_LBP_SPAD_i7_READY = 2"
definition PLX_LBP_i7_DOWN :: u32 where "PLX_LBP_i7_DOWN = 0"

definition upd_context :: "plx_contexts \<Rightarrow> nat \<Rightarrow> nat \<Rightarrow> plx_device \<Rightarrow> plx_contexts" where
  "upd_context cx c k d = (\<lambda>c' k'. if c' = c \<and> k' = k then Some d else cx c' k')"

definition plx_lbp_reset_start :: "plx_contexts \<Rightarrow> nat \<Rightarrow> nat \<Rightarrow> plx_contexts option" where
  "plx_lbp_reset_start cx c k =
     (if c < MAX_VCA_CARDS \<and> k < MAX_VCA_CARD_CPUS then
        (case cx c k of
           None \<Rightarrow> None
         | Some d \<Rightarrow> if lbp_locked d then None
                     else Some (upd_context cx c k (d\<lparr>lbp_locked := True, lbp_resetting := True\<rparr>)))
      else Some cx)"

definition plx_lbp_reset_stop :: "plx_contexts \<Rightarrow> nat \<Rightarrow> nat \<Rightarrow> plx_contexts" where
  "plx_lbp_reset_stop cx c k =
     (if c < MAX_VCA_CARDS \<and> k < MAX_VCA_CARD_CPUS then
        (case cx c k of
           None \<Rightarrow> cx
         | Some d \<Rightarrow> upd_context cx c k
             ((plx_write_spad PLX_LBP_SPAD_i7_READY PLX_LBP_i7_DOWN d)\<lparr>lbp_resetting := False, lbp_locked := False\<rparr>))
      else cx)"

definition reset_bit_of :: "u32 \<Rightarrow> nat \<Rightarrow> u32 option" where
  "reset_bit_of ty cpu_id =
     (if ty AND VCA_VV \<noteq> 0 then Some (plx_reset_bits ! 0 ! cpu_id)
      else if ty AND VCA_MV_FAB1 \<noteq> 0 then Some (plx_reset_bits ! 1 ! cpu_id)
      else if ty AND VCA_FPGA_FAB1 \<noteq> 0 then Some (0x2 OR 0x4)
      else if ty AND VCA_VCAA_FAB1 \<noteq> 0 then Some 0x2
      else if ty AND VCA_VCGA_FAB1 \<noteq> 0 \<and> cpu_id < length plx_reset_bits_vcga
      then Some (plx_reset_bits_vcga ! cpu_id)
      else None)"

text \<open>
  \<open>t1\<close>, \<open>t2\<close> and \<open>t3\<close> are the readings of the clock, a tick being a millisecond; \<open>env\<close> is what happens
  to the registers during the reset pulse. The device that drives the GPIO is the one of CPU \<open>x\<close>; the
  registers that change are those seen through this device. The GPIO is one register of the chip, so
  the other devices of a card see the same line; their copies in the model are not updated.
\<close>

definition plx_card_reset :: "(regs \<Rightarrow> regs) \<Rightarrow> u64 \<Rightarrow> u64 \<Rightarrow> u64 \<Rightarrow> plx_contexts \<Rightarrow> nat \<Rightarrow> nat \<Rightarrow> int \<Rightarrow>
    plx_contexts option" where
  "plx_card_reset env t1 t2 t3 cx c x cpu_id =
     (case cx c x of
        None \<Rightarrow> None
      | Some xdev \<Rightarrow>
          if cpu_id < 0 \<or> int (unat (plx_get_cpu_num xdev)) \<le> cpu_id then Some cx
          else let k = nat cpu_id in
            case cx c k of
              None \<Rightarrow> Some cx
            | Some node \<Rightarrow>
                if time_after_eq64 t1 (reset_ts node) \<and> time_before64 t1 (reset_ts node + RESET_GRACE_PERIOD_MS)
                then Some cx
                else
                  let cx1 = upd_context cx c k (node\<lparr>reset_ts := t2\<rparr>) in
                  (case reset_bit_of (card_type xdev) k of
                     None \<Rightarrow> Some cx1
                   | Some b \<Rightarrow>
                       (case plx_lbp_reset_start cx1 c k of
                          None \<Rightarrow> None
                        | Some cx2 \<Rightarrow>
                            let cx3 = upd_context cx2 c x (snd (signal_bit env b PLX_GPIO_OUTPUT (the (cx2 c x))));
                                cx4 = upd_context cx3 c k ((the (cx3 c k))\<lparr>reset_ts := t3\<rparr>)
                            in Some (plx_lbp_reset_stop cx4 c k))))"

text \<open>GPIO bit of the power button of a CPU.\<close>

definition power_button_of :: "u32 \<Rightarrow> int \<Rightarrow> (errno + nat) option" where
  "power_button_of ty cpu_id =
     (if ty = VCA_VCGA_FAB1 then
        Some (if cpu_id = 0 then Inr 9 else if cpu_id = 1 then Inr 10 else Inl EINVAL)
      else if ty = VCA_VCAA_FAB1 \<or> ty = VCA_FPGA_FAB1 then Some (Inr 9)
      else if ty = VCA_MV_FAB1 then
        Some (if cpu_id = 0 then Inr 9 else if cpu_id = 1 then Inr 10
              else if cpu_id = 2 then Inr 8 else Inl EINVAL)
      else None)"

definition card_check_power_button_state :: "plx_device \<Rightarrow> int \<Rightarrow> int res" where
  "card_check_power_button_state d cpu_id =
     (case power_button_of (card_type d) cpu_id of
        Some (Inl e) \<Rightarrow> Inl e
      | Some (Inr n) \<Rightarrow> Inr (gpio_bit (plx_mmio_read d PLX_GPIO_OUTPUT) n)
      | None \<Rightarrow> if card_type d = VCA_VV_FAB1 \<or> card_type d = VCA_VV_FAB2 then Inr 1 else Inl ENODATA)"

text \<open>\<open>None\<close>: the time stamp of the CPU is read outside of the array.\<close>

definition plx_card_check_power_button_state :: "u64 \<Rightarrow> plx_device \<Rightarrow> int \<Rightarrow> int res option" where
  "plx_card_check_power_button_state t d cpu_id =
     (case card_check_power_button_state d cpu_id of
        Inl e \<Rightarrow> Some (Inl e)
      | Inr v \<Rightarrow>
          if v = 0 then
            (if cpu_id < 0 \<or> int (length (power_ts d)) \<le> cpu_id then None
             else let ts = power_ts d ! nat cpu_id in
               Some (Inr (if time_after_eq64 t ts \<and> time_before64 t (ts + POWER_GRACE_PERIOD_MS) then 2 else 1)))
          else Some (Inr 0))"

definition plx_card_press_power_button :: "(regs \<Rightarrow> regs) \<Rightarrow> u64 \<Rightarrow> int \<Rightarrow> plx_device \<Rightarrow> unit res \<times> plx_device" where
  "plx_card_press_power_button env t cpu_id d =
     (case power_button_of (card_type d) cpu_id of
        None \<Rightarrow> (Inl ENOKEY, d)
      | Some (Inl e) \<Rightarrow> (Inl e, d)
      | Some (Inr n) \<Rightarrow>
          let d1 = snd (signal_bit env (push_bit n 1) PLX_GPIO_OUTPUT d)
          in (Inr (), d1\<lparr>power_ts := (power_ts d1)[nat cpu_id := t]\<rparr>))"

definition plx_id_led_switch :: "bool \<Rightarrow> plx_device \<Rightarrow> plx_device" where
  "plx_id_led_switch turn_on d =
     (if turn_on then gpio_clear_bit PLX_CARD_LED_BIT PLX_GPIO_OUTPUT d
      else gpio_set_bit PLX_CARD_LED_BIT PLX_GPIO_OUTPUT d)"

text \<open>\<open>None\<close>: the table of recovery bits is read out of range.\<close>

definition plx_turn_rcv_mode :: "nat \<Rightarrow> bool \<Rightarrow> plx_device \<Rightarrow> plx_device option" where
  "plx_turn_rcv_mode cpu_id turn_on d =
     (let ty = card_type d; lookup = (\<lambda>bits. if cpu_id < length bits then Some (bits ! cpu_id) else None);
          low = (\<lambda>b. gpio_clear_bit b PLX_GPIO_OUTPUT d); high = (\<lambda>b. gpio_set_bit b PLX_GPIO_OUTPUT d)
      in if ty AND VCA_MV_FAB1 \<noteq> 0 \<or> ty AND VCA_FPGA_FAB1 \<noteq> 0
         then map_option (if turn_on then low else high) (lookup plx_bios_rcv_bits)
         else if ty AND VCA_VCAA_FAB1 \<noteq> 0
         then map_option (if turn_on then high else low) (lookup plx_bios_rcv_bits)
         else if ty AND VCA_VCGA_FAB1 \<noteq> 0
         then map_option (if turn_on then low else high) (lookup plx_bios_rcv_bits_vcga)
         else Some d)"

definition plx_bios_recovery :: "bool \<Rightarrow> nat \<Rightarrow> plx_device \<Rightarrow> plx_device option" where
  "plx_bios_recovery on cpu_id d =
     (if card_type d AND VCA_MV_FAB1 \<noteq> 0 \<or> card_type d AND VCA_FPGA_FAB1 \<noteq> 0 \<or>
         card_type d AND VCA_VCAA_FAB1 \<noteq> 0 \<or> card_type d AND VCA_VCGA_FAB1 \<noteq> 0
      then plx_turn_rcv_mode cpu_id on d else Some d)"

definition plx_enable_bios_recovery_mode :: "nat \<Rightarrow> plx_device \<Rightarrow> plx_device option" where
  "plx_enable_bios_recovery_mode = plx_bios_recovery True"

definition plx_disable_bios_recovery_mode :: "nat \<Rightarrow> plx_device \<Rightarrow> plx_device option" where
  "plx_disable_bios_recovery_mode = plx_bios_recovery False"

definition plx_set_SMB_id :: "u8 \<Rightarrow> plx_device \<Rightarrow> plx_device" where
  "plx_set_SMB_id i d =
     (if card_type d AND VCA_VV \<noteq> 0 then
        dev_mmio_write ((plx_mmio_read d PLX_GPIO_OUTPUT AND NOT 0x70) + (push_bit 4 (ucast i) AND 0x70))
          PLX_GPIO_OUTPUT d
      else d)"

definition plx_read_straps :: "plx_device \<Rightarrow> u32" where
  "plx_read_straps d = plx_mmio_read d PLX_GPIO_INPUT AND 0xF"

definition plx_read_caterr :: "plx_device \<Rightarrow> int res" where
  "plx_read_caterr d =
     (let v = plx_mmio_read d PLX_GPIO_INPUT in
      if card_type d = VCA_FPGA_FAB1 \<or> card_type d = VCA_VCAA_FAB1 then Inr (gpio_bit v 0)
      else if card_type d = VCA_VCGA_FAB1 \<and> port_id d = 0 then Inr (gpio_bit v 0)
      else if card_type d = VCA_VCGA_FAB1 \<and> port_id d = 1 then Inr (gpio_bit v 7)
      else Inl ENODATA)"

definition plx_read_power_ok :: "plx_device \<Rightarrow> int res" where
  "plx_read_power_ok d =
     (let v = plx_mmio_read d PLX_GPIO_INPUT in
      if card_type d = VCA_VCAA_FAB1 then Inr (gpio_bit v 6)
      else if card_type d = VCA_VCGA_FAB1 \<and> port_id d = 0 then Inr (gpio_bit v 6)
      else if card_type d = VCA_VCGA_FAB1 \<and> port_id d = 1 then Inr (gpio_bit v 8)
      else Inl ENODATA)"

section \<open>Configuration files\<close>

text \<open>
  A configuration file is kept in pages that the peer reads by DMA. \<open>get_order\<close> is the kernel's: the
  least order whose block of pages has the given number of bytes. The memory of the block is a list of
  characters; a write beyond it is \<open>None\<close>. \<open>cf_da\<close> is the bus address the mapping got.
\<close>

record config_buf =
  cf_da :: u64
  cf_size :: nat
  cf_mem :: "char list"

definition PAGE_SIZE :: nat where "PAGE_SIZE = 4096"

fun get_order_from :: "nat \<Rightarrow> nat \<Rightarrow> nat \<Rightarrow> nat" where
  "get_order_from 0 o' sz = o'"
| "get_order_from (Suc fuel) o' sz =
     (if sz \<le> PAGE_SIZE * 2 ^ o' then o' else get_order_from fuel (Suc o') sz)"

definition get_order :: "nat \<Rightarrow> nat" where
  "get_order sz = get_order_from 64 0 sz"

definition pages_of :: "nat \<Rightarrow> nat" where
  "pages_of n = (n + PAGE_SIZE - 1) div PAGE_SIZE"

definition no_config :: config_buf where
  "no_config = \<lparr>cf_da = 0, cf_size = 0, cf_mem = []\<rparr>"

definition plx_clear_dma_mapped_mem :: "config_buf \<Rightarrow> nat option" where
  "plx_clear_dma_mapped_mem cf =
     (if pages_of (cf_size cf) \<noteq> 0 then Some (get_order (pages_of (cf_size cf))) else None)"

definition plx_set_config_file :: "u64 option \<Rightarrow> string \<Rightarrow> config_buf \<Rightarrow> (nat res \<times> config_buf) option" where
  "plx_set_config_file alloc buf cf =
     (let count = length buf;
          cf0 = (if cf_size cf \<noteq> 0 then no_config else cf)
      in case alloc of
           None \<Rightarrow> Some (Inl ENOMEM, cf0)
         | Some da \<Rightarrow>
             let room = PAGE_SIZE * 2 ^ get_order (pages_of (count + 1)) in
             if count = 0 \<or> room < count then None
             else
               let mem = buf @ replicate (room - count) (CHR 0x00) in
               if mem ! (count - 1) = CHR 0x0A
               then Some (Inr count, \<lparr>cf_da = da, cf_size = count + 1, cf_mem = mem[count - 1 := CHR 0x00]\<rparr>)
               else if room \<le> count then None
               else Some (Inr count, \<lparr>cf_da = da, cf_size = count + 1, cf_mem = mem[count := CHR 0x00]\<rparr>))"

end
