(* ===== verification/Plx_Hw_Facts.thy ===== *)
theory Plx_Hw_Facts
  imports Plx_Hw
begin

unbundle bit_operations_syntax

text \<open>
  What the register-level driver of \<open>Plx_Hw\<close> achieves: the reset pulse of one CPU and its debouncing,
  the state in which initialisation leaves the translation tables (the contract of \<open>Plx_Lut\<close> then
  holds), the places of these tables in the register file, the encoding of requester ids, and the
  buffers of configuration files.
\<close>

section \<open>Register accesses\<close>

lemma mmio_read_write [simp]:
  "plx_mmio_read (dev_mmio_write v off d) off' = (if off' = off then v else plx_mmio_read d off')"
  by (simp add: plx_mmio_read_def dev_mmio_write_def plx_mmio_write_def)

lemma dev_mmio_write_fields [simp]:
  "reg_base (dev_mmio_write v off d) = reg_base d" "reg_base_peer (dev_mmio_write v off d) = reg_base_peer d"
  "card_type (dev_mmio_write v off d) = card_type d" "link_side (dev_mmio_write v off d) = link_side d"
  "port_id (dev_mmio_write v off d) = port_id d" "lbp_locked (dev_mmio_write v off d) = lbp_locked d"
  "lbp_resetting (dev_mmio_write v off d) = lbp_resetting d" "reset_ts (dev_mmio_write v off d) = reset_ts d"
  "power_ts (dev_mmio_write v off d) = power_ts d" "a_lut_peer (dev_mmio_write v off d) = a_lut_peer d"
  "aper_len (dev_mmio_write v off d) = aper_len d" "aper_pa (dev_mmio_write v off d) = aper_pa d"
  "a_lut_manager (dev_lut (dev_mmio_write v off d)) = a_lut_manager (dev_lut d)"
  "a_lut_array_base (dev_lut (dev_mmio_write v off d)) = a_lut_array_base (dev_lut d)"
  "a_lut (dev_lut (dev_mmio_write v off d)) = a_lut (dev_lut d)"
  "aper_va (dev_lut (dev_mmio_write v off d)) = aper_va (dev_lut d)"
  by (simp_all add: dev_mmio_write_def plx_mmio_write_def)

lemma read_fields [simp]:
  "plx_mmio_read (d\<lparr>lbp_locked := a\<rparr>) = plx_mmio_read d" "plx_mmio_read (d\<lparr>lbp_resetting := a\<rparr>) = plx_mmio_read d"
  "plx_mmio_read (d\<lparr>reset_ts := t\<rparr>) = plx_mmio_read d" "plx_mmio_read (d\<lparr>power_ts := ts\<rparr>) = plx_mmio_read d"
  by (simp_all add: fun_eq_iff plx_mmio_read_def)

lemma spad_off_eq: "spad_off d i = spad_off d j \<longleftrightarrow> i * 4 = j * 4"
  by (simp add: spad_off_def)

section \<open>The boot parameter address\<close>

lemma join_halves: "ucast (ucast a :: u32) OR push_bit 32 (ucast (ucast (drop_bit 32 a) :: u32)) = (a::u64)"
  by (rule bit_word_eqI) (auto simp: bit_simps)

lemma dp_addr_roundtrip: "plx_get_dp_addr (plx_set_dp_addr a d) = a"
  by (simp add: plx_get_dp_addr_def plx_set_dp_addr_def plx_read_spad_def plx_write_spad_def spad_off_def
      PLX_DPLO_SPAD_def PLX_DPHI_SPAD_def join_halves)

section \<open>Reset\<close>

text \<open>While the bit is low, the rest of the system has its turn with the registers; then the bit is raised.\<close>

lemma signal_bit_read:
  "plx_mmio_read (snd (signal_bit env b off d)) off' =
     (let r = env ((mmio (dev_lut d))(off := plx_mmio_read d off AND NOT b)) in if off' = off then r off OR b else r off')"
  by (simp add: signal_bit_def Let_def set_regs_def plx_mmio_read_def dev_mmio_write_def plx_mmio_write_def)

lemma signal_bit_fields [simp]:
  "lbp_locked (snd (signal_bit env b off d)) = lbp_locked d"
  "lbp_resetting (snd (signal_bit env b off d)) = lbp_resetting d"
  "reg_base (snd (signal_bit env b off d)) = reg_base d"
  "card_type (snd (signal_bit env b off d)) = card_type d"
  by (simp_all add: signal_bit_def Let_def set_regs_def)

lemma upd_context_apply [simp]:
  "upd_context cx c k d c' k' = (if c' = c \<and> k' = k then Some d else cx c' k')"
  by (simp add: upd_context_def)

lemma reset_stop_apply:
  assumes "c < MAX_VCA_CARDS" "k < MAX_VCA_CARD_CPUS" "cx c k = Some d"
  shows "plx_lbp_reset_stop cx c k = upd_context cx c k
    ((plx_write_spad PLX_LBP_SPAD_i7_READY PLX_LBP_i7_DOWN d)\<lparr>lbp_resetting := False, lbp_locked := False\<rparr>)"
  using assms by (simp add: plx_lbp_reset_stop_def)

lemma card_reset_steps:
  fixes t2 :: u64 and env :: "regs \<Rightarrow> regs"
  assumes "cx c x = Some xd" "cx c k = Some node" "c < MAX_VCA_CARDS" "k < MAX_VCA_CARD_CPUS"
    and "k < unat (plx_get_cpu_num xd)"
    and "\<not> (time_after_eq64 t1 (reset_ts node) \<and> time_before64 t1 (reset_ts node + RESET_GRACE_PERIOD_MS))"
    and "reset_bit_of (card_type xd) k = Some b" "\<not> lbp_locked node"
  defines "cx2 \<equiv> upd_context cx c k (node\<lparr>reset_ts := t2, lbp_locked := True, lbp_resetting := True\<rparr>)"
  defines "cx3 \<equiv> upd_context cx2 c x (snd (signal_bit env b PLX_GPIO_OUTPUT (the (cx2 c x))))"
  shows "plx_card_reset env t1 t2 t3 cx c x (int k) =
    Some (plx_lbp_reset_stop (upd_context cx3 c k ((the (cx3 c k))\<lparr>reset_ts := t3\<rparr>)) c k)"
proof -
  have "plx_lbp_reset_start (upd_context cx c k (node\<lparr>reset_ts := t2\<rparr>)) c k = Some cx2"
    using assms(3,4,8) by (simp add: plx_lbp_reset_start_def cx2_def) (simp add: upd_context_def fun_eq_iff)
  moreover have "\<not> uint (plx_get_cpu_num xd) \<le> int k" using assms(5) by (metis of_nat_le_iff uint_nat not_le)
  ultimately show ?thesis using assms(1,2,6,7) by (auto simp: plx_card_reset_def Let_def cx3_def)
qed

text \<open>
  C33: A reset of one CPU that is not debounced gives a pulse on the reset line of this CPU: what the system does
  while the driver sleeps (\<open>env\<close>) it does with registers in which the line is low and all other outputs
  are as before; afterwards the line is driven high, and the other registers are as the system left them. The
  node ends with the lock free, not resetting, its boot state down and the time of the pulse recorded. The registers are
  those of the device that drives the lines, \<open>xd\<close>; the scratch pad of the node is not its GPIO register.
\<close>
theorem card_reset_pulse:
  fixes env :: "regs \<Rightarrow> regs"
  defines "low \<equiv> \<lambda>d b. (mmio (dev_lut d))(PLX_GPIO_OUTPUT := plx_mmio_read d PLX_GPIO_OUTPUT AND NOT b)"
  assumes "cx c x = Some xd" "cx c k = Some node" "c < MAX_VCA_CARDS" "k < MAX_VCA_CARD_CPUS"
    and "k < unat (plx_get_cpu_num xd)"
    and "\<not> (time_after_eq64 t1 (reset_ts node) \<and> time_before64 t1 (reset_ts node + RESET_GRACE_PERIOD_MS))"
    and "reset_bit_of (card_type xd) k = Some b" "\<not> lbp_locked node"
    and spad: "spad_off node PLX_LBP_SPAD_i7_READY \<noteq> PLX_GPIO_OUTPUT"
  shows "\<exists>cx' xd' node'. plx_card_reset env t1 t2 t3 cx c x (int k) = Some cx' \<and>
    cx' c x = Some xd' \<and> cx' c k = Some node' \<and>
    plx_mmio_read xd' PLX_GPIO_OUTPUT = env (low xd b) PLX_GPIO_OUTPUT OR b \<and>
    (\<forall>off. off \<noteq> PLX_GPIO_OUTPUT \<longrightarrow> (x = k \<longrightarrow> off \<noteq> spad_off node PLX_LBP_SPAD_i7_READY) \<longrightarrow>
       plx_mmio_read xd' off = env (low xd b) off) \<and>
    plx_read_spad node' PLX_LBP_SPAD_i7_READY = PLX_LBP_i7_DOWN \<and>
    \<not> lbp_locked node' \<and> \<not> lbp_resetting node' \<and> reset_ts node' = t3"
proof -
  define start where "start = node\<lparr>reset_ts := t2, lbp_locked := True, lbp_resetting := True\<rparr>"
  define cx2 where "cx2 = upd_context cx c k start"
  define xd3 where "xd3 = snd (signal_bit env b PLX_GPIO_OUTPUT (the (cx2 c x)))"
  define node4 where "node4 = (if x = k then xd3 else start)\<lparr>reset_ts := t3\<rparr>"
  define node' where "node' = (plx_write_spad PLX_LBP_SPAD_i7_READY PLX_LBP_i7_DOWN node4)
    \<lparr>lbp_resetting := False, lbp_locked := False\<rparr>"
  define cx' where "cx' = upd_context (upd_context (upd_context cx2 c x xd3) c k node4) c k node'"
  have r: "plx_card_reset env t1 t2 t3 cx c x (int k) = Some cx'"
    using reset_stop_apply [OF assms(4,5)]
      card_reset_steps [where cx = cx and c = c and x = x and k = k and env = env and ?t2.0 = t2 and ?t3.0 = t3,
        OF assms(2-9)]
    by (simp add: cx'_def node'_def node4_def xd3_def cx2_def start_def)
  have "dev_lut (the (cx2 c x)) = dev_lut xd" using assms(2,3) by (auto simp: cx2_def start_def)
  then have m: "plx_mmio_read xd3 off = (if off = PLX_GPIO_OUTPUT then env (low xd b) off OR b else env (low xd b) off)" for off
    unfolding xd3_def signal_bit_read by (simp add: low_def Let_def plx_mmio_read_def)
  have n: "cx' c k = Some node'" "plx_read_spad node' PLX_LBP_SPAD_i7_READY = PLX_LBP_i7_DOWN"
    "\<not> lbp_locked node'" "\<not> lbp_resetting node'" "reset_ts node' = t3"
    by (auto simp: cx'_def node'_def node4_def plx_write_spad_def plx_read_spad_def spad_off_def)
  have x: "cx' c x = Some (if x = k then node' else xd3)" by (simp add: cx'_def)
  have "spad_off node4 PLX_LBP_SPAD_i7_READY = spad_off node PLX_LBP_SPAD_i7_READY"
    by (auto simp: node4_def spad_off_def start_def cx2_def xd3_def)
  then have g: "plx_mmio_read (if x = k then node' else xd3) off = plx_mmio_read xd3 off"
    if "x = k \<longrightarrow> off \<noteq> spad_off node PLX_LBP_SPAD_i7_READY" for off
    using that by (auto simp: node'_def node4_def plx_write_spad_def)
  have "plx_mmio_read (if x = k then node' else xd3) PLX_GPIO_OUTPUT = env (low xd b) PLX_GPIO_OUTPUT OR b"
    using g [of PLX_GPIO_OUTPUT] spad m by simp
  moreover have "\<forall>off. off \<noteq> PLX_GPIO_OUTPUT \<longrightarrow> (x = k \<longrightarrow> off \<noteq> spad_off node PLX_LBP_SPAD_i7_READY) \<longrightarrow>
      plx_mmio_read (if x = k then node' else xd3) off = env (low xd b) off"
    using g m by simp
  ultimately show ?thesis using r n x by blast
qed

text \<open>
  Resets are debounced: within the grace period of two seconds after the last pulse, whatever the
  card and the CPU, a reset request changes nothing.
\<close>
theorem card_reset_debounced:
  assumes "cx c x = Some xd" "cx c k = Some node" "e < 2000" "reset_ts node + e = t1"
  shows "plx_card_reset env t1 t2 t3 cx c x (int k) = Some cx"
proof -
  have u: "uint e < 2000" "0 \<le> uint e" using assms(3) by (simp_all add: word_less_def)
  have st: "signed_take_bit 63 i = i" if "- 2000 \<le> i" "i < 2000" for i :: int
    by (rule signed_take_bit_int_eq_self) (use that in simp_all)
  have "signed_take_bit 63 (uint e) = uint e" by (rule st) (use u in linarith)+
  then have "sint e = uint e" by (simp add: sint_uint)
  then have "time_after_eq64 t1 (reset_ts node)" using assms(4) u by (auto simp: time_after_eq64_def)
  moreover have "sint (e - 2000) < 0"
  proof -
    have "e - 2000 = word_of_int (uint e - 2000)" by simp
    then have "sint (e - 2000) = signed_take_bit 63 (uint e - 2000)" 
      using sint_sbintrunc' [where 'a = 64, of "uint e - 2000"] by simp
    then show ?thesis using u st [of "uint e - 2000"] by simp
  qed
  then have "time_before64 t1 (reset_ts node + RESET_GRACE_PERIOD_MS)"
    using assms(4) by (auto simp: time_before64_def RESET_GRACE_PERIOD_MS_def)
  ultimately show ?thesis using assms(1,2) by (simp add: plx_card_reset_def Let_def)
qed

text \<open>A card of type VCGA with two CPUs, and the contexts of its two nodes.\<close>

definition example_dev :: plx_device where
  "example_dev = \<lparr>dev_lut = \<lparr>mmio = (\<lambda>_. 0)(PLX_GPIO_OUTPUT := 0x7ff, PLX_EEP_STATUS_CONTROL := 0x10000),
       a_lut_array_base = 0,
       a_lut_manager = \<lparr>segments_num = 0, segment_size = 0, entries = []\<rparr>, a_lut = False, aper_va = 0x10000000\<rparr>,
     aper_pa = 0x20000000, aper_len = 0x8000000, port_id = 0, link_side = False, a_lut_peer = False,
     reg_base = 0x3E000, reg_base_peer = 0x3F000, intr_reg_base = 0, peer_intr_reg_base = 0x10, mmio_link_offset = 0,
     card_id = 0, card_type = VCA_VCGA_FAB1, pci_device = 0x2954, pci_slot = 0, has_dma = False,
     vca_csm_index = Some 1, lbp_locked = False,
     lbp_resetting = False, card_wait = False, i7_ddr_size_mb = 0, i7_irq_timeout_ms = 1000,
     i7_alloc_timeout_ms = 1000, i7_cmd_timeout_ms = 100, i7_mac_write_timeout_ms = 1000,
     bios_information_date = 0, bios_information_version = 0, bios_cfg_sgx = - 1, bios_cfg_gpu_aperture = - 1,
     bios_cfg_tdp = - 1, bios_cfg_hyper_threading = - 1, bios_cfg_gpu = - 1, power_ts = [0, 0, 0, 0],
     reset_ts = 5000, clock = 0, cmd_log = [], card_mem = (\<lambda>_. 0)\<rparr>"

definition example_contexts :: plx_contexts where
  "example_contexts = (\<lambda>c k. if c = 0 \<and> k < 2 then Some example_dev else None)"

lemma example_reset:
  "example_contexts 0 0 = Some example_dev" "example_contexts 0 1 = Some example_dev"
  "unat (plx_get_cpu_num example_dev) = 2" "reset_bit_of (card_type example_dev) 1 = Some 4"
  "\<not> lbp_locked example_dev" "spad_off example_dev PLX_LBP_SPAD_i7_READY \<noteq> PLX_GPIO_OUTPUT"
  "\<not> (time_after_eq64 9000 (reset_ts example_dev) \<and>
     time_before64 9000 (reset_ts example_dev + RESET_GRACE_PERIOD_MS))"
  "reset_ts example_dev + 1999 = 6999"
  by (simp_all add: example_contexts_def example_dev_def plx_get_cpu_num_def reset_bit_of_def card_types
      plx_reset_bits_vcga_def spad_off_def PLX_SPAD0_def PLX_LBP_SPAD_i7_READY_def PLX_GPIO_OUTPUT_def
      time_before64_def RESET_GRACE_PERIOD_MS_def)

text \<open>A system that notes the outputs in another register while the driver sleeps.\<close>

theorem card_reset_pulse_witness:
  "\<exists>cx' xd' node'. plx_card_reset (\<lambda>r. r(0x10 := r PLX_GPIO_OUTPUT)) 9000 9000 9024 example_contexts 0 0 (int 1) = Some cx' \<and>
    cx' 0 0 = Some xd' \<and> cx' 0 1 = Some node' \<and>
    plx_mmio_read xd' 0x10 = 0x7fb \<and> plx_mmio_read xd' PLX_GPIO_OUTPUT = 0x7ff \<and>
    plx_read_spad node' PLX_LBP_SPAD_i7_READY = PLX_LBP_i7_DOWN"
proof -
  have env: "PLX_GPIO_OUTPUT \<noteq> 0x10" "mmio (dev_lut example_dev) PLX_GPIO_OUTPUT = 0x7ff"
    by (simp_all add: PLX_GPIO_OUTPUT_def PLX_EEP_STATUS_CONTROL_def example_dev_def)
  have sizes: "(0::nat) < MAX_VCA_CARDS" "1 < MAX_VCA_CARD_CPUS" "1 < unat (plx_get_cpu_num example_dev)"
    using example_reset(3) by (simp_all add: MAX_VCA_CARDS_def MAX_VCA_CARD_CPUS_def)
  show ?thesis
    using card_reset_pulse [where cx = example_contexts and c = 0 and x = 0 and k = 1 and env = "\<lambda>r. r(0x10 := r PLX_GPIO_OUTPUT)" and ?t2.0 = 9000 and ?t3.0 = 9024,
        OF example_reset(1,2) sizes example_reset(7,4,5,6)] env
    by (auto simp: plx_mmio_read_def)
qed

theorem card_reset_debounced_witness:
  "plx_card_reset (\<lambda>r. r) 6999 6999 7023 example_contexts 0 0 (int 1) = Some example_contexts"
  by (rule card_reset_debounced [where cx = example_contexts and c = 0 and x = 0 and k = 1 and e = 1999,
        OF example_reset(1,2)]) (simp_all add: example_reset)

section \<open>Requester ids\<close>

text \<open>
  When no root port is found, the negative error number that \<open>plx_find_rootinfo\<close> returns passes
  the test for zero, and programming the requester table succeeds with an id that is made of its bits
  (bus \<open>0xff\<close>, device \<open>0xf\<close>).
\<close>
theorem rid_lut_root_error:
  assumes "\<not> kvm_guest t" "\<forall>b \<in> set (bridges t). \<not> is_root_port b" "\<not> link_side d" "port_id d = 0"
  shows "plx_program_rid_lut t d =
    (0, dev_mmio_write (plx_rid_lut 0xff 0xf 0xff 0) PLX_NT0_RID_LUT_VIRTUAL_OFFSET d)"
proof -
  have "find is_root_port (bridges t) = None" using assms(2) by (simp add: find_None_iff)
  then have "plx_find_rootinfo t = 0xfffffffa" using assms(1) by (simp add: plx_find_rootinfo_def plx_find_root_port_def)
  then show ?thesis using assms(3,4)
    by (simp add: plx_program_rid_lut_def Let_def PCI_SLOT_def plx_rid_lut_def)
qed

definition no_root_topology :: pci_topology where
  "no_root_topology = \<lparr>kvm_guest = False, pv_rootbus = 0, pv_rootport = 0, pv_dmabus = 0, bridges = [], top_bus = 0,
     dma_bus = 0, dma_devfn = 0\<rparr>"

theorem rid_lut_root_error_witness:
  "plx_program_rid_lut no_root_topology example_dev =
    (0, dev_mmio_write (plx_rid_lut 0xff 0xf 0xff 0) PLX_NT0_RID_LUT_VIRTUAL_OFFSET example_dev)"
  by (rule rid_lut_root_error) (simp_all add: no_root_topology_def example_dev_def)

section \<open>Initialisation\<close>

lemma clear_unallocated:
  assumes "segments_num (a_lut_manager l) = 0"
  shows "plx_a_lut_clear l off = Some l"
  using assms
  by (simp add: plx_a_lut_clear_def plx_alm_reset_def plx_alm_check_def clear_entries_def plx_alm_check_loop.simps)

lemma a_lut_enable_unallocated:
  assumes "segments_num (a_lut_manager (dev_lut d)) = 0" "a_lut_peer d"
  shows "plx_a_lut_enable d =
    Some (dev_mmio_write PLX_A_LUT_ENABLE (reg_base d + PLX_A_LUT_CONTROL) (plx_a_lut_disable d))"
proof -
  have "plx_a_lut_clear (dev_lut (plx_a_lut_disable d)) off = Some (dev_lut (plx_a_lut_disable d))" for off
    by (rule clear_unallocated) (simp add: plx_a_lut_disable_def assms)
  then show ?thesis using assms(2) by (simp add: plx_a_lut_enable_def Let_def plx_a_lut_disable_def)
qed

text \<open>What a successful initialisation of a zeroed device consists of.\<close>

lemma hw_init_steps:
  assumes "plx_hw_init skip ok t d = Some (Inr (), d')" "segments_num (a_lut_manager (dev_lut d)) = 0"
  obtains port side ports rid off m where
    "port_and_side (pci_device d) = Some (port, side)" "ports = alut_port_count (plx_link_mmio_read d PLX_VS0UPSTREAM)"
    "off \<in> {PLX_NT0_RID_LUT_VIRTUAL_OFFSET, PLX_NT0_RID_LUT_LINK_OFFSET, PLX_NT1_RID_LUT_VIRTUAL_OFFSET,
       PLX_NT1_RID_LUT_LINK_OFFSET}"
    "plx_alm_init ok (PLX_ALUT_SEGMENTS_NUM div ports) (aper_len d) = Some m"
    "a_lut_manager (dev_lut d') = m" "a_lut (dev_lut d')" "aper_va (dev_lut d') = aper_va (dev_lut d)"
    "a_lut_array_base (dev_lut d') = alut_base ports side port" "reg_base d' = plx_get_reg_base (if side then 1 else 0) port"
    "reg_base_peer d' = plx_get_reg_base (if side then 0 else 1) port"
    "\<And>x. x \<noteq> off \<Longrightarrow> x \<noteq> reg_base d' + PLX_A_LUT_CONTROL \<Longrightarrow> plx_mmio_read d' x = plx_mmio_read d x"
proof -
  obtain port side where ps: "port_and_side (pci_device d) = Some (port, side)"
    using assms(1) by (cases "port_and_side (pci_device d)") (auto simp: plx_hw_init_def)
  define d2 where "d2 = hw_init_intr side (hw_init_ports port side d)"
  define ports where "ports = alut_port_count (plx_link_mmio_read d2 PLX_VS0UPSTREAM)"
  define d3 where "d3 = d2\<lparr>dev_lut := (dev_lut d2)\<lparr>a_lut_array_base := alut_base ports side port\<rparr>\<rparr>"
  have p2: "plx_mmio_read d2 = plx_mmio_read d" "plx_mmio_read d3 = plx_mmio_read d" "mmio_link_offset d2 = mmio_link_offset d"
    by (simp_all add: hw_init_intr_def hw_init_ports_def d2_def d3_def plx_mmio_read_def fun_eq_iff)
  obtain rc d4 where rid: "plx_program_rid_lut t d3 = (rc, d4)" by fastforce
  have "hw_init_luts ok t port side d2 = Some (Inr (), d')"
    using assms(1) ps by (auto simp: plx_hw_init_def Let_def d2_def split: sum.splits)
  then have "rc = 0" and run: "hw_init_tables ok ports d4 = Some (Inr (), d')"
    using rid by (auto simp: hw_init_luts_def Let_def ports_def d3_def split: if_splits)
  with rid obtain v off where d4: "d4 = dev_mmio_write v off d3" and
    off: "off \<in> {PLX_NT0_RID_LUT_VIRTUAL_OFFSET, PLX_NT0_RID_LUT_LINK_OFFSET, PLX_NT1_RID_LUT_VIRTUAL_OFFSET,
       PLX_NT1_RID_LUT_LINK_OFFSET}"
    by (auto simp: plx_program_rid_lut_def Let_def split: if_splits)
  have f3: "segments_num (a_lut_manager (dev_lut d3)) = 0" "a_lut_peer d3" "aper_len d3 = aper_len d"
    "a_lut (dev_lut d3)" "aper_va (dev_lut d3) = aper_va (dev_lut d)"
    "a_lut_array_base (dev_lut d3) = alut_base ports side port"
    "reg_base d3 = plx_get_reg_base (if side then 1 else 0) port"
    "reg_base_peer d3 = plx_get_reg_base (if side then 0 else 1) port"
    using assms(2) by (simp_all add: hw_init_intr_def hw_init_ports_def d2_def d3_def)
  have "plx_a_lut_enable d4 = Some (dev_mmio_write PLX_A_LUT_ENABLE (reg_base d4 + PLX_A_LUT_CONTROL) (plx_a_lut_disable d4))"
    by (rule a_lut_enable_unallocated) (simp_all add: d4 f3)
  with run obtain m where m: "plx_alm_init ok (PLX_ALUT_SEGMENTS_NUM div ports) (aper_len d) = Some m"
    and d': "d' = (dev_mmio_write PLX_A_LUT_ENABLE (reg_base d4 + PLX_A_LUT_CONTROL) (plx_a_lut_disable d4))
      \<lparr>dev_lut := (dev_lut (dev_mmio_write PLX_A_LUT_ENABLE (reg_base d4 + PLX_A_LUT_CONTROL) (plx_a_lut_disable d4)))
        \<lparr>a_lut_manager := m\<rparr>\<rparr>"
    by (auto simp: hw_init_tables_def plx_a_lut_disable_def d4 f3 split: option.splits)
  have rd: "plx_mmio_read d' x = plx_mmio_read (dev_mmio_write PLX_A_LUT_ENABLE (reg_base d4 + PLX_A_LUT_CONTROL)
      (plx_a_lut_disable d4)) x" for x
    by (simp add: d' plx_mmio_read_def)
  show ?thesis
    by (rule that [OF ps _ off m])
      (simp_all add: rd, simp_all add: d' plx_a_lut_disable_def d4 f3 p2 ports_def plx_link_mmio_read_def)
qed

lemma port_count_cases: "alut_port_count v = 1 \<or> alut_port_count v = 2"
  by (simp add: alut_port_count_def Let_def)

lemma segment_geom:
  assumes "n = 2 ^ j" "j \<in> {7, 8}" "8 \<le> k" "k < 62"
  shows "alm_geom \<lparr>segments_num = n, segment_size = 2 ^ k div ucast n, entries = es\<rparr>"
proof -
  have "(2 ^ k :: u64) = word_of_nat (2 ^ k)" by simp
  moreover have "(2::nat) ^ k < 2 ^ 64" using assms(4) by (intro power_strict_increasing) auto
  ultimately have "unat (2 ^ k :: u64) = 2 ^ k" by (simp only: unsigned_of_nat len_num1) (use assms(4) in \<open>simp add: take_bit_nat_eq_self\<close>)
  then have n: "unat n = 2 ^ j" "unat (ucast n :: u64) = 2 ^ j" "unat (2 ^ k :: u64) = 2 ^ k"
    using assms by (auto simp: unsigned_ucast_eq take_bit_nat_eq_self)
  have "j \<le> k" using assms by auto
  then have "(2::nat) ^ k = 2 ^ (k - j) * 2 ^ j" by (simp flip: power_add)
  then have s: "unat ((2 ^ k :: u64) div ucast n) = 2 ^ (k - j)" by (simp add: unat_div n)
  have "(2::nat) ^ (k - j) \<le> 2 ^ 55" by (rule power_increasing) (use assms in auto)
  moreover have "unat n \<le> 256" using assms by auto
  ultimately have "2 ^ (k - j) * (unat n + 2) \<le> 2 ^ 55 * 258" by (intro mult_mono) auto
  then show ?thesis using s n(1) assms by (auto simp: alm_geom_def is_power_of_2_iff)
qed

lemma hw_init_client:
  assumes "plx_hw_init skip ok t d = Some (Inr (), d')" "segments_num (a_lut_manager (dev_lut d)) = 0"
    and "aper_len d = 2 ^ k" "8 \<le> k" "k < 62"
  shows "client_inv (dev_lut d') []"
proof -
  obtain ports m where p: "ports = alut_port_count (plx_link_mmio_read d PLX_VS0UPSTREAM)"
    and m: "plx_alm_init ok (PLX_ALUT_SEGMENTS_NUM div ports) (aper_len d) = Some m"
    and d': "a_lut_manager (dev_lut d') = m" "a_lut (dev_lut d')"
    using hw_init_steps [OF assms(1,2)] by metis
  obtain j where j: "PLX_ALUT_SEGMENTS_NUM div ports = 2 ^ j" "j \<in> {7, 8}"
    using port_count_cases [of "plx_link_mmio_read d PLX_VS0UPSTREAM"] p that [of 8] that [of 7]
    by (auto simp: PLX_ALUT_SEGMENTS_NUM_def)
  let ?n = "PLX_ALUT_SEGMENTS_NUM div ports"
  have m': "m = \<lparr>segments_num = ?n, segment_size = 2 ^ k div ucast ?n, entries = replicate (unat ?n) empty_entry\<rparr>"
    using m assms(3) by (auto simp: plx_alm_init_def Let_def split: if_splits option.splits)
  have "alm_inv m"
    by (rule alm_inv_empty) (use segment_geom [OF j assms(4,5)] m' in auto)
  moreover have "unat ?n \<le> 256" using j by auto
  ultimately show ?thesis using d' m' by (simp add: client_inv_def lut_inv_def)
qed

text \<open>
  After a successful initialisation, with an aperture that divides into segments of a power of two,
  the device meets the contract of the mapping operations with no mapping held: \<open>plx_ioremap\<close> and
  \<open>plx_iounmap\<close> are safe from then on.
\<close>
theorem hw_init_ready:
  assumes "plx_hw_init skip ok t d = Some (Inr (), d')" "segments_num (a_lut_manager (dev_lut d)) = 0"
    and "aper_len d = 2 ^ k" "8 \<le> k" "k < 62"
  shows "client_inv (dev_lut d') []"
  using assms by (rule hw_init_client)

lemma init_luts_some:
  assumes "segments_num (a_lut_manager (dev_lut d)) = 0" "a_lut_peer d" "plx_find_rootinfo t \<noteq> 0"
  shows "\<exists>d'. hw_init_luts True t port side d = Some (Inr (), d')"
proof -
  define n where "n = alut_port_count (plx_link_mmio_read d PLX_VS0UPSTREAM)"
  define d3 where "d3 = d\<lparr>dev_lut := (dev_lut d)\<lparr>a_lut_array_base := alut_base n side port\<rparr>\<rparr>"
  have n: "PLX_ALUT_SEGMENTS_NUM div n \<noteq> 0"
    using port_count_cases [of "plx_link_mmio_read d PLX_VS0UPSTREAM"] by (auto simp: n_def PLX_ALUT_SEGMENTS_NUM_def)
  obtain v off where d4: "plx_program_rid_lut t d3 = (0, dev_mmio_write v off d3)"
    using assms(3) by (auto simp: plx_program_rid_lut_def Let_def)
  have "plx_a_lut_enable (dev_mmio_write v off d3) = Some (dev_mmio_write PLX_A_LUT_ENABLE
      (reg_base (dev_mmio_write v off d3) + PLX_A_LUT_CONTROL) (plx_a_lut_disable (dev_mmio_write v off d3)))"
    by (rule a_lut_enable_unallocated) (simp_all add: d3_def assms)
  then have "\<exists>d'. hw_init_tables True n (dev_mmio_write v off d3) = Some (Inr (), d')"
    using n by (simp add: hw_init_tables_def alm_init_eq)
  then show ?thesis using d4 by (simp add: hw_init_luts_def Let_def n_def [symmetric] d3_def [symmetric])
qed

lemma hw_init_succeeds:
  assumes "port_and_side (pci_device d) = Some (port, side)" "segments_num (a_lut_manager (dev_lut d)) = 0"
    "plx_find_rootinfo t \<noteq> 0" "plx_check_eeprom skip d = Inr ()"
  shows "\<exists>d'. plx_hw_init skip True t d = Some (Inr (), d')"
proof -
  have "plx_check_eeprom skip (hw_init_ports port side d) = Inr ()"
  proof -
    have "plx_mmio_read (hw_init_ports port side d) = plx_mmio_read d"
      by (simp add: fun_eq_iff plx_mmio_read_def hw_init_ports_def)
    then show ?thesis using assms(4) by (simp only: plx_check_eeprom_def)
  qed
  moreover have "\<exists>d'. hw_init_luts True t port side (hw_init_intr side (hw_init_ports port side d)) = Some (Inr (), d')"
    by (rule init_luts_some) (simp_all add: hw_init_intr_def hw_init_ports_def assms)
  ultimately show ?thesis using assms(1) by (cases side) (simp_all add: plx_hw_init_def Let_def)
qed

abbreviation guest_topology :: pci_topology where
  "guest_topology \<equiv> no_root_topology\<lparr>kvm_guest := True, pv_rootbus := 1\<rparr>"

definition stale_dev :: plx_device where
  "stale_dev = dev_mmio_write 3 0x38800 example_dev"

lemma example_init:
  "\<exists>d'. plx_hw_init False True guest_topology example_dev = Some (Inr (), d')"
  "\<exists>d'. plx_hw_init False True guest_topology stale_dev = Some (Inr (), d')"
  by (rule hw_init_succeeds [where port = 0 and side = False];
    simp add: stale_dev_def dev_mmio_write_def plx_mmio_write_def example_dev_def port_and_side_def
      plx_find_rootinfo_def no_root_topology_def plx_check_eeprom_def plx_mmio_read_def Let_def
      PLX_EEP_STATUS_CONTROL_def PLX_GPIO_OUTPUT_def)+

theorem hw_init_ready_witness:
  "\<exists>d'. plx_hw_init False True guest_topology example_dev = Some (Inr (), d') \<and> client_inv (dev_lut d') []"
proof -
  obtain d' where d': "plx_hw_init False True guest_topology example_dev = Some (Inr (), d')"
    using example_init(1) by blast
  have "client_inv (dev_lut d') []"
    by (rule hw_init_ready [OF d', of 27]) (simp_all add: example_dev_def)
  with d' show ?thesis by blast
qed

lemma hw_init_locked: "plx_hw_init skip ok t d = Some (r, d') \<Longrightarrow> lbp_locked d' = lbp_locked d"
  by (auto simp: plx_hw_init_def hw_init_luts_def hw_init_tables_def plx_a_lut_enable_def plx_a_lut_disable_def
      plx_program_rid_lut_def hw_init_intr_def hw_init_ports_def Let_def
      split: option.splits prod.splits sum.splits if_splits)

text \<open>The registers of the tables in the register file.\<close>

definition alut_base_nat :: "u32 \<Rightarrow> bool \<Rightarrow> u32 \<Rightarrow> nat" where
  "alut_base_nat ports side port = unat (alut_base ports side port)"

lemma alut_base_bounds: "alut_base_nat ports side port \<in> {0x38000, 0x39000, 0x3a000, 0x3b000}"
  by (simp add: alut_base_nat_def alut_base_def)

lemma alut_register:
  assumes "i < 256" "s \<in> lut_sub"
  shows "unat (alut_base ports side port + plx_get_a_lut_entry_offset (word_of_nat i) + word_of_nat s) =
      alut_base_nat ports side port + lut_pos i + s"
    and "unat (alut_base ports side port + plx_get_a_lut_entry_offset (word_of_nat i) + word_of_nat s) < 0x3ca00"
proof -
  have l: "lut_pos i + s < 0x1a00" using assms by (auto simp: lut_pos_def lut_sub_def)
  have b: "alut_base ports side port = word_of_nat (alut_base_nat ports side port)" by (simp add: alut_base_nat_def)
  have e: "alut_base ports side port + plx_get_a_lut_entry_offset (word_of_nat i) + word_of_nat s =
      (word_of_nat (alut_base_nat ports side port + lut_pos i + s) :: u32)"
    unfolding b entry_offset_pos [OF assms(1)] by simp
  have c: "alut_base_nat ports side port + lut_pos i + s < 0x3ca00"
    using alut_base_bounds [of ports side port] l by auto
  then show r: "unat (alut_base ports side port + plx_get_a_lut_entry_offset (word_of_nat i) + word_of_nat s) =
      alut_base_nat ports side port + lut_pos i + s"
    unfolding e by (simp add: unsigned_of_nat take_bit_nat_eq_self del: of_nat_add)
  show "unat (alut_base ports side port + plx_get_a_lut_entry_offset (word_of_nat i) + word_of_nat s) < 0x3ca00"
    unfolding r by (rule c)
qed

text \<open>
  Initialisation enables the translation table without clearing it: the manager of the table is
  set up only after the entries are cleared, so that no entry is, and every register of the table
  keeps the value it had before, stale mappings included.
\<close>
theorem hw_init_keeps_stale:
  assumes "plx_hw_init skip ok t d = Some (Inr (), d')" "segments_num (a_lut_manager (dev_lut d)) = 0"
    and "i < 256" "s \<in> {PLX_A_LUT_LOWER_RE_MAP_SUBARRAY_OFFSET, PLX_A_LUT_HIGHER_RE_MAP_SUBARRAY_OFFSET,
      PLX_A_LUT_PERMISSION_SUBARRAY_OFFSET}"
  shows "plx_mmio_read d' (a_lut_array_base (dev_lut d') + plx_get_a_lut_entry_offset (word_of_nat i) + s) =
    plx_mmio_read d (a_lut_array_base (dev_lut d') + plx_get_a_lut_entry_offset (word_of_nat i) + s)"
proof -
  obtain port side ports off where ps: "port_and_side (pci_device d) = Some (port, side)"
    and off: "off \<in> {PLX_NT0_RID_LUT_VIRTUAL_OFFSET, PLX_NT0_RID_LUT_LINK_OFFSET, PLX_NT1_RID_LUT_VIRTUAL_OFFSET,
       PLX_NT1_RID_LUT_LINK_OFFSET}"
    and b: "a_lut_array_base (dev_lut d') = alut_base ports side port"
    and rb: "reg_base d' = plx_get_reg_base (if side then 1 else 0) port"
    and rd: "\<And>x. x \<noteq> off \<Longrightarrow> x \<noteq> reg_base d' + PLX_A_LUT_CONTROL \<Longrightarrow> plx_mmio_read d' x = plx_mmio_read d x"
    using hw_init_steps [OF assms(1,2)] by metis
  obtain u where u: "s = word_of_nat u" "u \<in> lut_sub"
    using assms(4) that [of 0] that [of "0x400"] that [of "0x800"] lut_sub_mem by (auto simp: lut_regs)
  let ?x = "a_lut_array_base (dev_lut d') + plx_get_a_lut_entry_offset (word_of_nat i) + s"
  have x: "unat ?x < 0x3ca00"
    using alut_register [OF assms(3) u(2), of ports side port] by (simp add: b u(1))
  have port: "port = 0 \<or> port = 1" using ps by (auto simp: port_and_side_def split: if_splits)
  have "?x \<noteq> off" using x off
    by (auto simp: PLX_NT0_RID_LUT_VIRTUAL_OFFSET_def PLX_NT0_RID_LUT_LINK_OFFSET_def
        PLX_NT1_RID_LUT_VIRTUAL_OFFSET_def PLX_NT1_RID_LUT_LINK_OFFSET_def)
  moreover have "?x \<noteq> reg_base d' + PLX_A_LUT_CONTROL"
    using x port by (auto simp: rb plx_get_reg_base_def PLX_A_LUT_CONTROL_def)
  ultimately show ?thesis by (rule rd)
qed

text \<open>
  The translation tables of the ports and sides of a switch do not share registers: for any
  register of a segment of one and any of another the offsets differ, with two ports (128 segments
  each) and with one port (256 segments).
\<close>
theorem alut_arrays_disjoint:
  assumes "ports \<in> {1, 2}" "p \<in> {0, 1}" "q \<in> {0, 1}" "(a, p) \<noteq> (b, q)" "ports = 1 \<Longrightarrow> a \<noteq> b"
    and "i < 256 div unat ports" "j < 256 div unat ports" "s \<in> lut_sub" "t \<in> lut_sub"
  shows "alut_base ports a p + plx_get_a_lut_entry_offset (word_of_nat i) + word_of_nat s \<noteq>
    alut_base ports b q + plx_get_a_lut_entry_offset (word_of_nat j) + word_of_nat t"
proof -
  have n: "i < 256" "j < 256" "unat ports = 2 \<Longrightarrow> i < 128 \<and> j < 128" using assms(1,6,7) by auto
  have l: "lut_pos i + s < 0x2000" "lut_pos j + t < 0x2000" "i < 128 \<Longrightarrow> lut_pos i + s < 0x1000"
    "j < 128 \<Longrightarrow> lut_pos j + t < 0x1000"
    using assms(8,9) n(1,2) by (auto simp: lut_pos_def lut_sub_def)
  have "alut_base_nat ports a p + (lut_pos i + s) \<noteq> alut_base_nat ports b q + (lut_pos j + t)"
  proof (cases "ports = 1")
    case True
    then show ?thesis using assms(5) l(1,2) by (cases a; cases b) (auto simp: alut_base_nat_def alut_base_def)
  next
    case False
    then have two: "ports = 2" using assms(1) by auto
    then have "i < 128" "j < 128" using n(3) by auto
    then show ?thesis using assms(2-4) l(3,4) by (auto simp: alut_base_nat_def alut_base_def two)
  qed
  then have "unat (alut_base ports a p + plx_get_a_lut_entry_offset (word_of_nat i) + word_of_nat s) \<noteq>
      unat (alut_base ports b q + plx_get_a_lut_entry_offset (word_of_nat j) + word_of_nat t)"
    unfolding alut_register(1) [OF n(1) assms(8)] alut_register(1) [OF n(2) assms(9)] by simp
  then show ?thesis by metis
qed

theorem alut_arrays_disjoint_witness:
  "alut_base 2 False 0 + plx_get_a_lut_entry_offset (word_of_nat 127) + word_of_nat 0x800 \<noteq>
    alut_base 2 True 0 + plx_get_a_lut_entry_offset (word_of_nat 0) + word_of_nat 0"
  by (rule alut_arrays_disjoint) simp_all

theorem hw_init_keeps_stale_witness:
  "\<exists>d'. plx_hw_init False True guest_topology stale_dev = Some (Inr (), d') \<and>
    plx_mmio_read d' (a_lut_array_base (dev_lut d') + plx_get_a_lut_entry_offset (word_of_nat 0) +
      PLX_A_LUT_PERMISSION_SUBARRAY_OFFSET) =
    plx_mmio_read stale_dev (a_lut_array_base (dev_lut d') + plx_get_a_lut_entry_offset (word_of_nat 0) +
      PLX_A_LUT_PERMISSION_SUBARRAY_OFFSET)"
proof -
  obtain d' where d': "plx_hw_init False True guest_topology stale_dev = Some (Inr (), d')"
    using example_init(2) by blast
  have "segments_num (a_lut_manager (dev_lut stale_dev)) = 0" by (simp add: stale_dev_def example_dev_def)
  from hw_init_keeps_stale [OF d' this, of 0 PLX_A_LUT_PERMISSION_SUBARRAY_OFFSET] d' show ?thesis by auto
qed

section \<open>Configuration files\<close>

lemma get_order_page: "n \<le> PAGE_SIZE \<Longrightarrow> get_order n = 0"
  by (simp add: get_order_def eval_nat_numeral)

lemma pages_of_le: "n \<le> PAGE_SIZE * PAGE_SIZE \<Longrightarrow> pages_of n \<le> PAGE_SIZE"
  by (simp add: pages_of_def PAGE_SIZE_def)

text \<open>What is in the buffer: the text without a final newline, then a null character.\<close>

definition config_text :: "string \<Rightarrow> string" where
  "config_text buf = (if last buf = CHR 0x0A then butlast buf else buf)"

text \<open>
  A configuration file of up to \<open>PAGE_SIZE - 1\<close> characters is stored without its final newline,
  terminated inside the allocated page, replacing the old one. From \<open>PAGE_SIZE\<close> characters on (and up
  to \<open>PAGE_SIZE\<close> pages) the allocation is one page only, because the number of pages is passed where
  the number of bytes is expected, and the driver writes beyond it, unless the file has exactly
  \<open>PAGE_SIZE\<close> characters and ends in a newline.
\<close>
theorem config_file_stored:
  assumes "buf \<noteq> []" "length buf < PAGE_SIZE * PAGE_SIZE"
  shows "plx_set_config_file (Some da) buf cf =
    (if length buf < PAGE_SIZE \<or> length buf = PAGE_SIZE \<and> last buf = CHR 0x0A
     then Some (Inr (length buf), \<lparr>cf_da = da, cf_size = length buf + 1,
       cf_mem = config_text buf @ replicate (PAGE_SIZE - length (config_text buf)) (CHR 0x00)\<rparr>)
     else None)"
proof -
  have o: "get_order (pages_of (length buf + 1)) = 0"
    using assms(2) by (intro get_order_page pages_of_le) simp
  obtain xs x where buf: "buf = xs @ [x]" using assms(1) by (metis rev_exhaust)
  consider "length buf < PAGE_SIZE" | "length buf = PAGE_SIZE" | "PAGE_SIZE < length buf" by linarith
  then show ?thesis
  proof cases
    case 1
    then obtain n where "PAGE_SIZE - length xs = Suc (Suc n)" by (metis Suc_diff_Suc buf length_append_singleton Suc_lessD)
    moreover from this have "PAGE_SIZE - Suc (length xs) = Suc n" by simp
    ultimately show ?thesis
      using 1 o by (simp add: plx_set_config_file_def Let_def config_text_def buf nth_append list_update_append)
  next
    case 2
    then have "PAGE_SIZE - length xs = 1" "length xs < PAGE_SIZE" by (simp_all add: buf)
    then show ?thesis
      using 2 o by (auto simp: plx_set_config_file_def Let_def config_text_def buf nth_append list_update_append)
  next
    case 3
    then show ?thesis using assms(1) o by (simp add: plx_set_config_file_def Let_def)
  qed
qed

theorem config_file_stored_witness:
  "plx_set_config_file (Some 0x5000) (replicate 4096 (CHR ''a'')) no_config = None"
  using config_file_stored [of "replicate 4096 (CHR ''a'')" "0x5000" no_config]
  by (simp add: PAGE_SIZE_def last_replicate)

end
