(* ===== verification/Vca_State.thy ===== *)
theory Vca_State
  imports Vca_Prelude
begin

text \<open>
  The states of a card as the user sees them: the enumerations of \<open>common/vca_common.h\<close> and the
  translations between a state and the text that the sysfs files carry. A C string is the list of its
  characters without the terminating null character.
\<close>

section \<open>Enumerations\<close>

datatype vca_lbp_states =
    VCA_BIOS_DOWN | VCA_BIOS_UP | VCA_BIOS_READY | VCA_OS_READY | VCA_NET_DEV_READY | VCA_BOOTING
  | VCA_FLASHING | VCA_RESETTING | VCA_BUSY | VCA_DONE | VCA_ERROR | VCA_NET_DEV_UP | VCA_NET_DEV_DOWN
  | VCA_NET_DEV_NO_IP | VCA_DRV_PROBE_DONE | VCA_DRV_PROBE_ERROR | VCA_DHCP_IN_PROGRESS | VCA_DHCP_DONE
  | VCA_DHCP_ERROR | VCA_NFS_MOUNT_DONE | VCA_NFS_MOUNT_ERROR | VCA_LINK_DOWN | VCA_BOOTING_BLOCKIO
  | VCA_OS_REBOOTING | VCA_AFTER_REBOOT | VCA_POWER_DOWN | VCA_POWERING_DOWN | VCA_SIZE

datatype vca_lbp_rcvy_states = VCA_RCVY_JUMPER_CLOSE | VCA_RCVY_JUMPER_OPEN | VCA_RCVY_NON_READABLE

datatype vca_os_type = VCA_OS_TYPE_UNKNOWN | VCA_OS_TYPE_LINUX | VCA_OS_TYPE_WINDOWS | VCA_OS_TYPE_SIZE

text \<open>\<open>LBP_\<dots>\<close>, the results of the boot protocol. Some functions return a negated one.\<close>

definition LBP_STATE_OK :: int where "LBP_STATE_OK = 0"
definition LBP_SPAD_i7_WRONG_STATE :: int where "LBP_SPAD_i7_WRONG_STATE = 1"
definition LBP_IRQ_TIMEOUT :: int where "LBP_IRQ_TIMEOUT = 2"
definition LBP_ALLOC_TIMEOUT :: int where "LBP_ALLOC_TIMEOUT = 3"
definition LBP_CMD_TIMEOUT :: int where "LBP_CMD_TIMEOUT = 4"
definition LBP_BAD_PARAMETER_VALUE :: int where "LBP_BAD_PARAMETER_VALUE = 5"
definition LBP_UNKNOWN_PARAMETER :: int where "LBP_UNKNOWN_PARAMETER = 6"
definition LBP_INTERNAL_ERROR :: int where "LBP_INTERNAL_ERROR = 7"
definition LBP_PROTOCOL_VERSION_MISMATCH :: int where "LBP_PROTOCOL_VERSION_MISMATCH = 8"
definition LBP_BIOS_INFO_CACHE_EMPTY :: int where "LBP_BIOS_INFO_CACHE_EMPTY = 10"

lemmas lbp_retvals = LBP_STATE_OK_def LBP_SPAD_i7_WRONG_STATE_def LBP_IRQ_TIMEOUT_def LBP_ALLOC_TIMEOUT_def
  LBP_CMD_TIMEOUT_def LBP_BAD_PARAMETER_VALUE_def LBP_UNKNOWN_PARAMETER_def LBP_INTERNAL_ERROR_def
  LBP_PROTOCOL_VERSION_MISMATCH_def LBP_BIOS_INFO_CACHE_EMPTY_def

section \<open>Texts\<close>

text \<open>\<open>None\<close> stands for the \<open>BUG_ON\<close> on a value outside of the enumeration.\<close>

fun get_vca_os_type_string :: "vca_os_type \<Rightarrow> string option" where
  "get_vca_os_type_string VCA_OS_TYPE_UNKNOWN = Some ''os_unknown''"
| "get_vca_os_type_string VCA_OS_TYPE_LINUX = Some ''linux''"
| "get_vca_os_type_string VCA_OS_TYPE_WINDOWS = Some ''windows''"
| "get_vca_os_type_string VCA_OS_TYPE_SIZE = None"

fun get_vca_state_string :: "vca_lbp_states \<Rightarrow> string option" where
  "get_vca_state_string VCA_BIOS_DOWN = Some ''bios_down''"
| "get_vca_state_string VCA_BIOS_UP = Some ''bios_up''"
| "get_vca_state_string VCA_BIOS_READY = Some ''bios_ready''"
| "get_vca_state_string VCA_OS_READY = Some ''os_ready''"
| "get_vca_state_string VCA_NET_DEV_READY = Some ''net_device_ready''"
| "get_vca_state_string VCA_BOOTING = Some ''booting''"
| "get_vca_state_string VCA_FLASHING = Some ''flashing''"
| "get_vca_state_string VCA_RESETTING = Some ''resetting''"
| "get_vca_state_string VCA_BUSY = Some ''busy''"
| "get_vca_state_string VCA_DONE = Some ''done''"
| "get_vca_state_string VCA_ERROR = Some ''error''"
| "get_vca_state_string VCA_NET_DEV_UP = Some ''net_device_up''"
| "get_vca_state_string VCA_NET_DEV_DOWN = Some ''net_device_down''"
| "get_vca_state_string VCA_NET_DEV_NO_IP = Some ''net_device_no_ip''"
| "get_vca_state_string VCA_DRV_PROBE_DONE = Some ''drv_probe_done''"
| "get_vca_state_string VCA_DRV_PROBE_ERROR = Some ''drv_probe_error''"
| "get_vca_state_string VCA_DHCP_IN_PROGRESS = Some ''dhcp_in_progress''"
| "get_vca_state_string VCA_DHCP_DONE = Some ''dhcp_done''"
| "get_vca_state_string VCA_DHCP_ERROR = Some ''dhcp_error''"
| "get_vca_state_string VCA_NFS_MOUNT_DONE = Some ''nfs_mount_done''"
| "get_vca_state_string VCA_NFS_MOUNT_ERROR = Some ''nfs_mount_error''"
| "get_vca_state_string VCA_LINK_DOWN = Some ''link_down''"
| "get_vca_state_string VCA_BOOTING_BLOCKIO = Some ''booting''"
| "get_vca_state_string VCA_OS_REBOOTING = Some ''os_rebooting''"
| "get_vca_state_string VCA_AFTER_REBOOT = Some ''waiting_for_boot''"
| "get_vca_state_string VCA_POWER_DOWN = Some ''power_off''"
| "get_vca_state_string VCA_POWERING_DOWN = Some ''powering_down''"
| "get_vca_state_string VCA_SIZE = None"

definition strncmp_eq :: "string \<Rightarrow> string \<Rightarrow> nat \<Rightarrow> bool" where
  "strncmp_eq a b n \<longleftrightarrow> take n (a @ [CHR 0x00]) = take n (b @ [CHR 0x00])"

text \<open>The states in the order in which \<open>get_vca_state_num\<close> tries them.\<close>

definition state_num_order :: "vca_lbp_states list" where
  "state_num_order =
     [VCA_BIOS_DOWN, VCA_BIOS_UP, VCA_BIOS_READY, VCA_OS_READY, VCA_NET_DEV_READY, VCA_BOOTING, VCA_FLASHING,
      VCA_RESETTING, VCA_BUSY, VCA_DONE, VCA_ERROR, VCA_NET_DEV_UP, VCA_NET_DEV_DOWN, VCA_NET_DEV_NO_IP,
      VCA_DRV_PROBE_DONE, VCA_DRV_PROBE_ERROR, VCA_DHCP_IN_PROGRESS, VCA_DHCP_DONE, VCA_DHCP_ERROR,
      VCA_NFS_MOUNT_DONE, VCA_NFS_MOUNT_ERROR, VCA_BOOTING_BLOCKIO, VCA_OS_REBOOTING, VCA_AFTER_REBOOT,
      VCA_POWER_DOWN, VCA_POWERING_DOWN]"

definition get_vca_state_num :: "string \<Rightarrow> nat \<Rightarrow> vca_lbp_states" where
  "get_vca_state_num str len =
     (case find (\<lambda>s. strncmp_eq (the (get_vca_state_string s)) str len) state_num_order of
        None \<Rightarrow> VCA_SIZE
      | Some s \<Rightarrow> s)"

fun get_vca_rcvy_state_string :: "vca_lbp_rcvy_states \<Rightarrow> string" where
  "get_vca_rcvy_state_string VCA_RCVY_JUMPER_CLOSE = ''rcvy_jumper_close''"
| "get_vca_rcvy_state_string VCA_RCVY_JUMPER_OPEN = ''rcvy_jumper_open''"
| "get_vca_rcvy_state_string VCA_RCVY_NON_READABLE = ''rcvy_status_non_readable''"

section \<open>The two translations\<close>

lemma state_texts:
  "list_all (\<lambda>s. get_vca_state_num (the (get_vca_state_string s)) (length (the (get_vca_state_string s))) =
     (if s = VCA_BOOTING_BLOCKIO then VCA_BOOTING else if s = VCA_LINK_DOWN then VCA_SIZE else s))
     (VCA_LINK_DOWN # state_num_order)"
  by code_simp

text \<open>
  Reading back the text of a state gives the state, for every state but two: the text of
  \<open>VCA_BOOTING_BLOCKIO\<close> is that of \<open>VCA_BOOTING\<close>, and the text of \<open>VCA_LINK_DOWN\<close> is not accepted,
  although the table is documented to be in step with the enumeration.
\<close>
theorem state_text_roundtrip:
  "get_vca_state_string s = Some str \<Longrightarrow> get_vca_state_num str (length str) =
     (if s = VCA_BOOTING_BLOCKIO then VCA_BOOTING else if s = VCA_LINK_DOWN then VCA_SIZE else s)"
proof -
  assume str: "get_vca_state_string s = Some str"
  then have "s \<in> set (VCA_LINK_DOWN # state_num_order)" by (cases s) (simp_all add: state_num_order_def)
  with str show ?thesis using state_texts unfolding list_all_iff by (metis option.sel)
qed

theorem state_text_roundtrip_witness:
  "get_vca_state_num ''dhcp_error'' (length ''dhcp_error'') = VCA_DHCP_ERROR"
  using state_text_roundtrip [of VCA_DHCP_ERROR "''dhcp_error''"] by simp

text \<open>
  Only a beginning of the text is compared: every prefix of a text is accepted as some state, the
  empty text as \<open>VCA_BIOS_DOWN\<close>, where \<open>VCA_SIZE\<close> is documented for an invalid text.
\<close>
theorem state_text_prefix:
  "s \<in> set state_num_order \<Longrightarrow> get_vca_state_num (take n (the (get_vca_state_string s))) n \<noteq> VCA_SIZE"
proof -
  assume s: "s \<in> set state_num_order"
  define str where "str = the (get_vca_state_string s)"
  have "strncmp_eq str (take n str) n" by (simp add: strncmp_eq_def min_def)
  then have "find (\<lambda>x. strncmp_eq (the (get_vca_state_string x)) (take n str) n) state_num_order \<noteq> None"
    unfolding find_None_iff using s str_def by blast
  moreover have "x \<noteq> VCA_SIZE" if "find P state_num_order = Some x" for P x
  proof -
    have "x \<in> set state_num_order" using that unfolding find_Some_iff by auto
    then show ?thesis by (auto simp: state_num_order_def)
  qed
  ultimately show ?thesis unfolding get_vca_state_num_def str_def by (auto split: option.splits)
qed

theorem state_text_prefix_witness: "get_vca_state_num ''po'' 2 \<noteq> VCA_SIZE"
  using state_text_prefix [of VCA_POWER_DOWN 2] by (simp add: state_num_order_def)

end
