(* ===== verification/Plx_Lbp.thy ===== *)
theory Plx_Lbp
  imports Plx_Hw Vca_State
begin

unbundle bit_operations_syntax

text \<open>
  The boot protocol between host and card (\<open>plx87xx/plx_lbp.c\<close>, \<open>plx_lbp.h\<close>, \<open>plx_lbp_ifc.h\<close>) over the
  scratch pads of the switch. The card is a function \<open>crd\<close> that says what it does to the registers
  in each millisecond the host sleeps; an operation takes it as an argument. Operations that take the
  mutex return \<open>None\<close> when it is held (they would wait), and when the A-LUT manager stops.
  Bits of stack variables that the code never sets are arguments.
\<close>

section \<open>Registers\<close>

definition PLX_LBP_SPAD_E5_READY :: u32 where "PLX_LBP_SPAD_E5_READY = 3"
definition PLX_LBP_SPAD_i7_CMD :: u32 where "PLX_LBP_SPAD_i7_CMD = 4"
definition PLX_LBP_SPAD_DATA_LOW :: u32 where "PLX_LBP_SPAD_DATA_LOW = 5"
definition PLX_LBP_SPAD_DATA_HIGH :: u32 where "PLX_LBP_SPAD_DATA_HIGH = 6"
definition PLX_LBP_SPAD_i7_ERROR :: u32 where "PLX_LBP_SPAD_i7_ERROR = 7"

definition PLX_LBP_i7_UP :: u32 where "PLX_LBP_i7_UP = 0x1"
definition PLX_LBP_i7_READY :: u32 where "PLX_LBP_i7_READY = 0x2"
definition PLX_LBP_i7_BUSY :: u32 where "PLX_LBP_i7_BUSY = 0x4"
definition PLX_LBP_i7_BOOTING :: u32 where "PLX_LBP_i7_BOOTING = 0x8"
definition PLX_LBP_i7_FLASHING :: u32 where "PLX_LBP_i7_FLASHING = 0x10"
definition PLX_LBP_i7_DONE :: u32 where "PLX_LBP_i7_DONE = 0x20"
definition PLX_LBP_i7_UEFI_ERROR :: u32 where "PLX_LBP_i7_UEFI_ERROR = 0x40"
definition PLX_LBP_i7_GENERAL_ERROR :: u32 where "PLX_LBP_i7_GENERAL_ERROR = 0x80"
definition PLX_LBP_i7_OS_READY :: u32 where "PLX_LBP_i7_OS_READY = 0x100"
definition PLX_LBP_i7_NET_DEV_READY :: u32 where "PLX_LBP_i7_NET_DEV_READY = 0x200"
definition PLX_LBP_i7_NET_DEV_UP :: u32 where "PLX_LBP_i7_NET_DEV_UP = 0x400"
definition PLX_LBP_i7_NET_DEV_DOWN :: u32 where "PLX_LBP_i7_NET_DEV_DOWN = 0x800"
definition PLX_LBP_i7_NET_DEV_NO_IP :: u32 where "PLX_LBP_i7_NET_DEV_NO_IP = 0x1000"
definition PLX_LBP_i7_DRV_PROBE_DONE :: u32 where "PLX_LBP_i7_DRV_PROBE_DONE = 0x2000"
definition PLX_LBP_i7_DRV_PROBE_ERROR :: u32 where "PLX_LBP_i7_DRV_PROBE_ERROR = 0x2080"
definition PLX_LBP_i7_DHCP_IN_PROGRESS :: u32 where "PLX_LBP_i7_DHCP_IN_PROGRESS = 0x4000"
definition PLX_LBP_i7_DHCP_DONE :: u32 where "PLX_LBP_i7_DHCP_DONE = 0x8000"
definition PLX_LBP_i7_DHCP_ERROR :: u32 where "PLX_LBP_i7_DHCP_ERROR = 0x8080"
definition PLX_LBP_i7_NFS_MOUNT_DONE :: u32 where "PLX_LBP_i7_NFS_MOUNT_DONE = 0x10000"
definition PLX_LBP_i7_NFS_MOUNT_ERROR :: u32 where "PLX_LBP_i7_NFS_MOUNT_ERROR = 0x10080"
definition PLX_LBP_i7_BOOTING_BLOCK_IO :: u32 where "PLX_LBP_i7_BOOTING_BLOCK_IO = 0x20000"
definition PLX_LBP_i7_SOFTWARE_NODE_DOWN :: u32 where "PLX_LBP_i7_SOFTWARE_NODE_DOWN = 0x40000"
definition PLX_LBP_i7_OS_REBOOTING :: u32 where "PLX_LBP_i7_OS_REBOOTING = 0x80000"
definition PLX_LBP_i7_AFTER_REBOOT :: u32 where "PLX_LBP_i7_AFTER_REBOOT = 0x100000"
definition PLX_LBP_i7_POWER_DOWN :: u32 where "PLX_LBP_i7_POWER_DOWN = 0x200000"
definition PLX_LBP_i7_POWERING_DOWN :: u32 where "PLX_LBP_i7_POWERING_DOWN = 0x400000"
definition PLX_LBP_i7_ANY_ERROR :: u32 where "PLX_LBP_i7_ANY_ERROR = 0xc0"

lemmas i7_states = PLX_LBP_i7_DOWN_def PLX_LBP_i7_UP_def PLX_LBP_i7_READY_def PLX_LBP_i7_BUSY_def
  PLX_LBP_i7_BOOTING_def PLX_LBP_i7_FLASHING_def PLX_LBP_i7_DONE_def PLX_LBP_i7_UEFI_ERROR_def
  PLX_LBP_i7_GENERAL_ERROR_def PLX_LBP_i7_OS_READY_def PLX_LBP_i7_NET_DEV_READY_def PLX_LBP_i7_NET_DEV_UP_def
  PLX_LBP_i7_NET_DEV_DOWN_def PLX_LBP_i7_NET_DEV_NO_IP_def PLX_LBP_i7_DRV_PROBE_DONE_def
  PLX_LBP_i7_DRV_PROBE_ERROR_def PLX_LBP_i7_DHCP_IN_PROGRESS_def PLX_LBP_i7_DHCP_DONE_def
  PLX_LBP_i7_DHCP_ERROR_def PLX_LBP_i7_NFS_MOUNT_DONE_def PLX_LBP_i7_NFS_MOUNT_ERROR_def
  PLX_LBP_i7_BOOTING_BLOCK_IO_def PLX_LBP_i7_SOFTWARE_NODE_DOWN_def PLX_LBP_i7_OS_REBOOTING_def
  PLX_LBP_i7_AFTER_REBOOT_def PLX_LBP_i7_POWER_DOWN_def PLX_LBP_i7_POWERING_DOWN_def PLX_LBP_i7_ANY_ERROR_def

definition PLX_LBP_PROTOCOL_VERSION :: "u32 \<Rightarrow> u32 \<Rightarrow> u32" where
  "PLX_LBP_PROTOCOL_VERSION major minor = push_bit 4 major OR minor"

text \<open>Layout of the state register: 24 bits of state, 8 bits of protocol version.\<close>

definition i7_ready :: "u32 \<Rightarrow> u32" where
  "i7_ready v = v AND 0xffffff"
definition i7_version :: "u32 \<Rightarrow> u32" where
  "i7_version v = drop_bit 24 v"
definition i7_with_ready :: "u32 \<Rightarrow> u32 \<Rightarrow> u32" where
  "i7_with_ready v r = (v AND 0xff000000) OR (r AND 0xffffff)"

text \<open>Layout of the command register and of the host's state register.\<close>

definition i7_cmd_value :: "u32 \<Rightarrow> u32 \<Rightarrow> u32" where
  "i7_cmd_value cmd param = (cmd AND 0xffff) OR push_bit 16 (param AND 0xffff)"
definition i7_cmd_of :: "u32 \<Rightarrow> u32" where
  "i7_cmd_of v = v AND 0xffff"
definition e5_value :: "u32 \<Rightarrow> u32 \<Rightarrow> u32 \<Rightarrow> u32 \<Rightarrow> u32" where
  "e5_value ready cpuid slot port =
     (ready AND 0xff) OR push_bit 8 (cpuid AND 0xff) OR push_bit 16 (slot AND 0xff) OR push_bit 24 (port AND 0xff)"

definition PLX_LBP_CMD_INVALID :: u32 where "PLX_LBP_CMD_INVALID = 0"
definition PLX_LBP_CMD_BOOT_LOADER :: u32 where "PLX_LBP_CMD_BOOT_LOADER = 1"
definition PLX_LBP_CMD_MAP_RAMDISK :: u32 where "PLX_LBP_CMD_MAP_RAMDISK = 2"
definition PLX_LBP_CMD_BOOT_RAMDISK :: u32 where "PLX_LBP_CMD_BOOT_RAMDISK = 4"
definition PLX_LBP_CMD_FLASH_FW :: u32 where "PLX_LBP_CMD_FLASH_FW = 5"
definition PLX_LBP_CMD_FLASH_BIOS :: u32 where "PLX_LBP_CMD_FLASH_BIOS = 6"
definition PLX_LBP_CMD_GET_MAC_ADDR :: u32 where "PLX_LBP_CMD_GET_MAC_ADDR = 8"
definition PLX_LBP_CMD_SET_TIME :: u32 where "PLX_LBP_CMD_SET_TIME = 9"
definition PLX_LBP_CMD_SET_PARAM :: u32 where "PLX_LBP_CMD_SET_PARAM = 10"
definition PLX_LBP_CMD_GET_PARAM :: u32 where "PLX_LBP_CMD_GET_PARAM = 11"
definition PLX_LBP_CMD_CLEAR_ERROR :: u32 where "PLX_LBP_CMD_CLEAR_ERROR = 12"
definition PLX_LBP_CMD_BOOT_BLOCK_IO :: u32 where "PLX_LBP_CMD_BOOT_BLOCK_IO = 13"

definition PLX_LBP_PARAM_CPU_MAX_FREQ_NON_TURBO :: u32 where "PLX_LBP_PARAM_CPU_MAX_FREQ_NON_TURBO = 1"
definition PLX_LBP_PARAM_BIOS_VER :: u32 where "PLX_LBP_PARAM_BIOS_VER = 2"
definition PLX_LBP_PARAM_BIOS_BUILD_DATE :: u32 where "PLX_LBP_PARAM_BIOS_BUILD_DATE = 3"
definition PLX_LBP_PARAM_SGX :: u32 where "PLX_LBP_PARAM_SGX = 4"
definition PLX_LBP_PARAM_GPU_APERTURE :: u32 where "PLX_LBP_PARAM_GPU_APERTURE = 5"
definition PLX_LBP_PARAM_TDP :: u32 where "PLX_LBP_PARAM_TDP = 6"
definition PLX_LBP_PARAM_GPU :: u32 where "PLX_LBP_PARAM_GPU = 7"
definition PLX_LBP_PARAM_HT :: u32 where "PLX_LBP_PARAM_HT = 8"
definition PLX_LBP_PARAM_SGX_MEM :: u32 where "PLX_LBP_PARAM_SGX_MEM = 9"
definition PLX_LBP_PARAM_EPOCH_0 :: u32 where "PLX_LBP_PARAM_EPOCH_0 = 10"
definition PLX_LBP_PARAM_EPOCH_1 :: u32 where "PLX_LBP_PARAM_EPOCH_1 = 11"
definition PLX_LBP_PARAM_SGX_OWNER_EPOCH_TYPE :: u32 where "PLX_LBP_PARAM_SGX_OWNER_EPOCH_TYPE = 27"
definition PLX_LBP_PARAM_SGX_TO_FACTORY :: u32 where "PLX_LBP_PARAM_SGX_TO_FACTORY = 28"

lemmas lbp_params = PLX_LBP_PARAM_CPU_MAX_FREQ_NON_TURBO_def PLX_LBP_PARAM_BIOS_VER_def
  PLX_LBP_PARAM_BIOS_BUILD_DATE_def PLX_LBP_PARAM_SGX_def PLX_LBP_PARAM_GPU_APERTURE_def PLX_LBP_PARAM_TDP_def
  PLX_LBP_PARAM_GPU_def PLX_LBP_PARAM_HT_def PLX_LBP_PARAM_SGX_MEM_def PLX_LBP_PARAM_EPOCH_0_def
  PLX_LBP_PARAM_EPOCH_1_def PLX_LBP_PARAM_SGX_OWNER_EPOCH_TYPE_def PLX_LBP_PARAM_SGX_TO_FACTORY_def

section \<open>Waiting\<close>

type_synonym card_fn = "nat \<Rightarrow> regs \<Rightarrow> regs"

text \<open>One millisecond: the card works on the registers.\<close>

definition lbp_msleep :: "card_fn \<Rightarrow> plx_device \<Rightarrow> plx_device" where
  "lbp_msleep crd d = (set_regs (crd (clock d) (mmio (dev_lut d))) d)\<lparr>clock := Suc (clock d)\<rparr>"

fun lbp_wait_event :: "card_fn \<Rightarrow> (plx_device \<Rightarrow> bool) \<Rightarrow> nat \<Rightarrow> plx_device \<Rightarrow> bool \<times> plx_device" where
  "lbp_wait_event crd event 0 d = (False, d)"
| "lbp_wait_event crd event (Suc to) d =
     (let d' = lbp_msleep crd d in if event d' then (True, d') else lbp_wait_event crd event to d')"

definition plx_lbp_get_i7_status :: "plx_device \<Rightarrow> u32" where
  "plx_lbp_get_i7_status d = plx_read_spad d PLX_LBP_SPAD_i7_READY"

definition plx_lbp_set_i7_status :: "u32 \<Rightarrow> plx_device \<Rightarrow> plx_device" where
  "plx_lbp_set_i7_status v d = plx_write_spad PLX_LBP_SPAD_i7_READY v d"

definition plx_lbp_get_i7_rcvy_status :: "plx_device \<Rightarrow> u32" where
  "plx_lbp_get_i7_rcvy_status d = plx_read_spad d PLX_LBP_SPAD_DATA_LOW"

definition plx_lbp_get_i7_cmd :: "plx_device \<Rightarrow> u32" where
  "plx_lbp_get_i7_cmd d = plx_read_spad d PLX_LBP_SPAD_i7_CMD"

text \<open>Issuing a command is a write to the command register; it is logged.\<close>

definition lbp_issue_cmd :: "u32 \<Rightarrow> plx_device \<Rightarrow> plx_device" where
  "lbp_issue_cmd v d = (plx_write_spad PLX_LBP_SPAD_i7_CMD v d)\<lparr>cmd_log := cmd_log d @ [v]\<rparr>"

text \<open>What \<open>wait_for_completion_interruptible_timeout\<close> came to, and after how many milliseconds.\<close>

datatype irq_wait = Interrupted nat | Timed_Out | Completed nat

fun lbp_msleeps :: "card_fn \<Rightarrow> nat \<Rightarrow> plx_device \<Rightarrow> plx_device" where
  "lbp_msleeps crd 0 d = d"
| "lbp_msleeps crd (Suc n) d = lbp_msleeps crd n (lbp_msleep crd d)"

definition plx_lbp_wait_for_i7_up :: "card_fn \<Rightarrow> irq_wait \<Rightarrow> u32 \<Rightarrow> plx_device \<Rightarrow> unit res \<times> plx_device" where
  "plx_lbp_wait_for_i7_up crd w timeout_ms d =
     (case w of
        Interrupted n \<Rightarrow> (Inl ERESTARTSYS, lbp_msleeps crd n d)
      | Timed_Out \<Rightarrow> (Inl ETIME, lbp_msleeps crd (unat timeout_ms) d)
      | Completed n \<Rightarrow>
          let d' = lbp_msleeps crd n d in
          if i7_ready (plx_lbp_get_i7_status d') AND NOT PLX_LBP_i7_AFTER_REBOOT \<noteq> PLX_LBP_i7_UP
          then (Inl ENODEV, d') else (Inr (), d'))"

definition plx_lbp_wait_for_i7_state :: "card_fn \<Rightarrow> u32 \<Rightarrow> u32 \<Rightarrow> plx_device \<Rightarrow> u32 res \<times> plx_device" where
  "plx_lbp_wait_for_i7_state crd state timeout d =
     (let ready = (\<lambda>d. i7_ready (plx_lbp_get_i7_status d));
          event = (\<lambda>d. if state = 0 then ready d = state else ready d AND state \<noteq> 0)
      in case lbp_wait_event crd event (unat timeout) d of
           (True, d') \<Rightarrow> (Inr (ready d'), d')
         | (False, d') \<Rightarrow> (Inl ETIME, d'))"

definition plx_lbp_wait_for_i7_cmd_consumed :: "card_fn \<Rightarrow> u32 \<Rightarrow> plx_device \<Rightarrow> unit res \<times> plx_device" where
  "plx_lbp_wait_for_i7_cmd_consumed crd timeout_ms d =
     (case lbp_wait_event crd (\<lambda>d. i7_cmd_of (plx_lbp_get_i7_cmd d) = PLX_LBP_CMD_INVALID) (unat timeout_ms) d of
        (True, d') \<Rightarrow> (Inr (), d')
      | (False, d') \<Rightarrow> (Inl ETIME, d'))"

section \<open>Initialisation and interrupt\<close>

definition plx_lbp_interrupt_handler :: "plx_device \<Rightarrow> bool \<times> plx_device" where
  "plx_lbp_interrupt_handler d =
     (i7_ready (plx_lbp_get_i7_status d) = PLX_LBP_i7_AFTER_REBOOT OR PLX_LBP_i7_UP, d\<lparr>card_wait := True\<rparr>)"

text \<open>The mutex of the protocol; taking it while it is held is a wait without end.\<close>

definition lbp_unlock :: "plx_device \<Rightarrow> plx_device" where
  "lbp_unlock d = d\<lparr>lbp_locked := False\<rparr>"
definition lbp_take_lock :: "plx_device \<Rightarrow> plx_device option" where
  "lbp_take_lock d = (if lbp_locked d then None else Some (d\<lparr>lbp_locked := True\<rparr>))"

definition plx_lbp_init :: "errno option \<Rightarrow> plx_device \<Rightarrow> (unit res \<times> plx_device) option" where
  "plx_lbp_init irq d =
     (case lbp_take_lock d of
        None \<Rightarrow> None
      | Some d0 \<Rightarrow>
          let d1 = d0\<lparr>card_wait := False\<rparr> in
          if link_side d1 then Some (Inr (), lbp_unlock d1)
          else
            let d2 = plx_write_spad PLX_LBP_SPAD_E5_READY 0
                  (d1\<lparr>i7_irq_timeout_ms := 1000, i7_alloc_timeout_ms := 1000, i7_cmd_timeout_ms := 100,
                      i7_mac_write_timeout_ms := 1000\<rparr>)
            in case irq of Some e \<Rightarrow> Some (Inl e, lbp_unlock d2) | None \<Rightarrow> Some (Inr (), lbp_unlock d2))"

definition plx_lbp_deinit :: "plx_device \<Rightarrow> plx_device option" where
  "plx_lbp_deinit d = map_option lbp_unlock (lbp_take_lock d)"

section \<open>Setting the time\<close>

text \<open>
  The time of day as the kernel reports it (\<open>rtc_time\<close>, milliseconds, minutes west of Greenwich), and
  its layout in the data registers. \<open>junk\<close> is what the four highest bits of the variable hold.
\<close>

record lbp_now =
  tm_year :: u64
  tm_mon :: u64
  tm_mday :: u64
  tm_hour :: u64
  tm_min :: u64
  tm_sec :: u64
  tv_msec :: u64
  tz_minuteswest :: u32

definition plx_lbp_time :: "u64 \<Rightarrow> lbp_now \<Rightarrow> u64" where
  "plx_lbp_time junk t =
     ((1900 + tm_year t) AND mask 13) OR push_bit 13 ((1 + tm_mon t) AND mask 5) OR
     push_bit 18 (tm_mday t AND mask 6) OR push_bit 24 (tm_hour t AND mask 6) OR
     push_bit 30 (tm_min t AND mask 7) OR push_bit 37 (tm_sec t AND mask 7) OR
     push_bit 44 (tv_msec t AND mask 16) OR push_bit 60 (junk AND mask 4)"

definition lbp_write_time :: "u64 \<Rightarrow> lbp_now \<Rightarrow> plx_device \<Rightarrow> plx_device" where
  "lbp_write_time junk t d =
     lbp_issue_cmd (i7_cmd_value PLX_LBP_CMD_SET_TIME (tz_minuteswest t))
       (plx_write_spad PLX_LBP_SPAD_DATA_LOW (ucast (plx_lbp_time junk t))
         (plx_write_spad PLX_LBP_SPAD_DATA_HIGH (ucast (drop_bit 32 (plx_lbp_time junk t))) d))"

definition plx_lbp_set_time_no_mutex :: "card_fn \<Rightarrow> u64 \<Rightarrow> lbp_now \<Rightarrow> plx_device \<Rightarrow> int \<times> plx_device" where
  "plx_lbp_set_time_no_mutex crd junk t d =
     (if i7_ready (plx_lbp_get_i7_status d) \<noteq> PLX_LBP_i7_READY then (LBP_SPAD_i7_WRONG_STATE, d)
      else case plx_lbp_wait_for_i7_cmd_consumed crd (i7_cmd_timeout_ms d) (lbp_write_time junk t d) of
        (Inl e, d') \<Rightarrow> (LBP_CMD_TIMEOUT, d')
      | (Inr _, d') \<Rightarrow> (LBP_STATE_OK, d'))"

text \<open>Issue a command, wait until the card has taken it and is ready again.\<close>

definition lbp_cmd_ready :: "card_fn \<Rightarrow> plx_device \<Rightarrow> int \<times> plx_device" where
  "lbp_cmd_ready crd d =
     (case plx_lbp_wait_for_i7_cmd_consumed crd (i7_cmd_timeout_ms d) d of
        (Inl e, d1) \<Rightarrow> (LBP_CMD_TIMEOUT, d1)
      | (Inr _, d1) \<Rightarrow>
          (case plx_lbp_wait_for_i7_state crd PLX_LBP_i7_READY (i7_cmd_timeout_ms d1) d1 of
             (Inl e, d2) \<Rightarrow> (LBP_CMD_TIMEOUT, d2)
           | (Inr _, d2) \<Rightarrow> (LBP_STATE_OK, d2)))"

definition plx_lbp_set_time :: "card_fn \<Rightarrow> u64 \<Rightarrow> lbp_now \<Rightarrow> plx_device \<Rightarrow> (int \<times> plx_device) option" where
  "plx_lbp_set_time crd junk t d =
     (case lbp_take_lock d of
        None \<Rightarrow> None
      | Some d1 \<Rightarrow>
          if i7_ready (plx_lbp_get_i7_status d1) \<noteq> PLX_LBP_i7_READY
          then Some (LBP_SPAD_i7_WRONG_STATE, lbp_unlock d1)
          else case lbp_cmd_ready crd (lbp_write_time junk t d1) of (err, d2) \<Rightarrow> Some (err, lbp_unlock d2))"

text \<open>The address bytes are the data registers, lowest byte first.\<close>

definition lbp_mac_bytes :: "u32 \<Rightarrow> u32 \<Rightarrow> u8 list" where
  "lbp_mac_bytes high low =
     [ucast high, ucast (drop_bit 8 high), ucast (drop_bit 16 high), ucast (drop_bit 24 high),
      ucast low, ucast (drop_bit 8 low)]"

definition plx_lbp_get_mac_addr :: "card_fn \<Rightarrow> plx_device \<Rightarrow> (int \<times> u8 list option \<times> plx_device) option" where
  "plx_lbp_get_mac_addr crd d =
     (case lbp_take_lock d of
        None \<Rightarrow> None
      | Some d1 \<Rightarrow>
          if i7_ready (plx_lbp_get_i7_status d1) \<noteq> PLX_LBP_i7_READY
          then Some (LBP_SPAD_i7_WRONG_STATE, None, lbp_unlock d1)
          else case lbp_cmd_ready crd (lbp_issue_cmd (i7_cmd_value PLX_LBP_CMD_GET_MAC_ADDR 0) d1) of
            (err, d2) \<Rightarrow>
              Some (err, if err = LBP_STATE_OK
                         then Some (lbp_mac_bytes (plx_read_spad d2 PLX_LBP_SPAD_DATA_HIGH)
                                (plx_read_spad d2 PLX_LBP_SPAD_DATA_LOW))
                         else None, lbp_unlock d2))"

section \<open>BIOS parameters\<close>

definition check_if_supported :: "u32 \<Rightarrow> u32 \<Rightarrow> bool" where
  "check_if_supported i7 version \<longleftrightarrow> \<not> i7_version i7 < version"

text \<open>The protocol version a parameter needs; \<open>None\<close> for an unknown parameter.\<close>

definition bios_param_version :: "u32 \<Rightarrow> u32 option" where
  "bios_param_version param =
     (if param = PLX_LBP_PARAM_CPU_MAX_FREQ_NON_TURBO then Some (PLX_LBP_PROTOCOL_VERSION 0 2)
      else if param \<in> {PLX_LBP_PARAM_SGX, PLX_LBP_PARAM_SGX_MEM, PLX_LBP_PARAM_SGX_OWNER_EPOCH_TYPE,
          PLX_LBP_PARAM_EPOCH_0, PLX_LBP_PARAM_EPOCH_1, PLX_LBP_PARAM_SGX_TO_FACTORY}
      then Some (PLX_LBP_PROTOCOL_VERSION 1 2)
      else if param \<in> {PLX_LBP_PARAM_HT, PLX_LBP_PARAM_GPU} then Some (PLX_LBP_PROTOCOL_VERSION 2 0)
      else if param \<in> {PLX_LBP_PARAM_GPU_APERTURE, PLX_LBP_PARAM_TDP} then Some (PLX_LBP_PROTOCOL_VERSION 1 2)
      else None)"

definition copy_param_version :: "u32 \<Rightarrow> u32 option" where
  "copy_param_version param =
     (if param \<in> {PLX_LBP_PARAM_BIOS_BUILD_DATE, PLX_LBP_PARAM_BIOS_VER} then Some (PLX_LBP_PROTOCOL_VERSION 1 1)
      else bios_param_version param)"

text \<open>
  \<open>plx_lbp_copy_bios_info\<close> takes the old value of the destination and returns the new one. The check
  of the frequency limit of protocol 0.2 uses the lower half of the old value.
\<close>

definition plx_lbp_copy_bios_info :: "card_fn \<Rightarrow> u64 \<Rightarrow> lbp_now \<Rightarrow> u32 \<Rightarrow> u64 \<Rightarrow> plx_device \<Rightarrow> int \<times> u64 \<times> plx_device" where
  "plx_lbp_copy_bios_info crd junk t param dest d =
     (let i7 = plx_read_spad d PLX_LBP_SPAD_i7_READY in
      case copy_param_version param of
        None \<Rightarrow> (- LBP_UNKNOWN_PARAMETER, dest, d)
      | Some v \<Rightarrow>
          if \<not> check_if_supported i7 v then (LBP_PROTOCOL_VERSION_MISMATCH, dest, d)
          else case plx_lbp_wait_for_i7_cmd_consumed crd (i7_cmd_timeout_ms d)
                 (lbp_issue_cmd (i7_cmd_value PLX_LBP_CMD_GET_PARAM param) d) of
            (Inl e, d1) \<Rightarrow> (LBP_CMD_TIMEOUT, dest, d1)
          | (Inr _, d1) \<Rightarrow>
              let freq = (param = PLX_LBP_PARAM_CPU_MAX_FREQ_NON_TURBO);
                  input = ucast dest :: u32;
                  low = ucast (plx_read_spad d1 PLX_LBP_SPAD_DATA_LOW) :: u64;
                  high = (if freq then 0 else ucast (plx_read_spad d1 PLX_LBP_SPAD_DATA_HIGH)) :: u64;
                  dest' = push_bit 32 high OR low
              in if freq \<and> i7_version i7 \<le> PLX_LBP_PROTOCOL_VERSION 0 2 \<and> input = 0 \<and> dest' = 17
                 then (0, ucast input, d1)
                 else if freq \<and> i7_version i7 \<le> PLX_LBP_PROTOCOL_VERSION 0 2 \<and> (dest' < 8 \<or> 17 < dest')
                 then (LBP_BAD_PARAMETER_VALUE, dest', d1)
                 else case plx_lbp_set_time_no_mutex crd junk t d1 of (err, d2) \<Rightarrow> (err, dest', d2))"

definition plx_lbp_copy_bios_info_from_cache :: "plx_device \<Rightarrow> u32 \<Rightarrow> u64 \<Rightarrow> int \<times> u64" where
  "plx_lbp_copy_bios_info_from_cache d param dest =
     (if param = PLX_LBP_PARAM_BIOS_BUILD_DATE \<and> bios_information_date d \<noteq> 0 then (0, bios_information_date d)
      else if param = PLX_LBP_PARAM_BIOS_VER \<and> bios_information_version d \<noteq> 0 then (0, bios_information_version d)
      else if param = PLX_LBP_PARAM_SGX \<and> bios_cfg_sgx d \<noteq> - 1 then (0, bios_cfg_sgx d)
      else if param = PLX_LBP_PARAM_HT \<and> bios_cfg_hyper_threading d \<noteq> - 1 then (0, bios_cfg_hyper_threading d)
      else if param = PLX_LBP_PARAM_GPU \<and> bios_cfg_gpu d \<noteq> - 1 then (0, bios_cfg_gpu d)
      else if param = PLX_LBP_PARAM_GPU_APERTURE \<and> bios_cfg_gpu_aperture d \<noteq> - 1 then (0, bios_cfg_gpu_aperture d)
      else if param = PLX_LBP_PARAM_TDP \<and> bios_cfg_tdp d \<noteq> - 1 then (0, bios_cfg_tdp d)
      else (LBP_BIOS_INFO_CACHE_EMPTY, dest))"

definition plx_lbp_clear_error :: "card_fn \<Rightarrow> plx_device \<Rightarrow> bool \<times> plx_device" where
  "plx_lbp_clear_error crd d =
     (case plx_lbp_wait_for_i7_state crd PLX_LBP_i7_READY (i7_cmd_timeout_ms d)
             (plx_write_spad PLX_LBP_SPAD_i7_ERROR 0 d) of
        (Inl e, d1) \<Rightarrow> (False, d1)
      | (Inr _, d1) \<Rightarrow>
          (case plx_lbp_wait_for_i7_cmd_consumed crd (i7_cmd_timeout_ms d1)
                  (lbp_issue_cmd (i7_cmd_value PLX_LBP_CMD_CLEAR_ERROR 0) d1) of
             (Inl e, d2) \<Rightarrow> (False, d2)
           | (Inr _, d2) \<Rightarrow> (True, d2)))"

definition lbp_card_error :: "card_fn \<Rightarrow> plx_device \<Rightarrow> int \<times> plx_device" where
  "lbp_card_error crd d =
     (case plx_lbp_clear_error crd d of (ok, d') \<Rightarrow> (if ok then LBP_INTERNAL_ERROR else LBP_CMD_TIMEOUT, d'))"

definition plx_lbp_set_bios_param :: "card_fn \<Rightarrow> u32 \<Rightarrow> u64 \<Rightarrow> plx_device \<Rightarrow> (int \<times> plx_device) option" where
  "plx_lbp_set_bios_param crd param value d =
     (case lbp_take_lock d of
        None \<Rightarrow> None
      | Some d1 \<Rightarrow>
          (case bios_param_version param of
             None \<Rightarrow> Some (LBP_UNKNOWN_PARAMETER, lbp_unlock d1)
           | Some v \<Rightarrow>
               let i7 = plx_lbp_get_i7_status d1 in
               if \<not> check_if_supported i7 v then Some (LBP_PROTOCOL_VERSION_MISMATCH, lbp_unlock d1)
               else if i7_ready i7 \<noteq> PLX_LBP_i7_READY then Some (LBP_SPAD_i7_WRONG_STATE, lbp_unlock d1)
               else
                 let value' = (if param = PLX_LBP_PARAM_CPU_MAX_FREQ_NON_TURBO \<and> value = 0 \<and>
                                  i7_version i7 \<le> PLX_LBP_PROTOCOL_VERSION 0 2 then 17 else value);
                     d2 = lbp_issue_cmd (i7_cmd_value PLX_LBP_CMD_SET_PARAM param)
                            (plx_write_spad PLX_LBP_SPAD_DATA_HIGH (ucast (drop_bit 32 value'))
                              (plx_write_spad PLX_LBP_SPAD_DATA_LOW (ucast value') d1))
                 in case plx_lbp_wait_for_i7_cmd_consumed crd (i7_cmd_timeout_ms d2) d2 of
                      (Inl e, d3) \<Rightarrow> Some (LBP_CMD_TIMEOUT, lbp_unlock d3)
                    | (Inr _, d3) \<Rightarrow>
                        if plx_read_spad d3 PLX_LBP_SPAD_i7_ERROR \<noteq> 0
                        then (case lbp_card_error crd d3 of (err, d4) \<Rightarrow> Some (err, lbp_unlock d4))
                        else Some (LBP_STATE_OK, lbp_unlock d3)))"

text \<open>
  Reading a parameter: from the card when it is up or ready, otherwise from the values read at the
  last handshake. The result of the card is finally tested against the error bits of a card state.
\<close>

definition lbp_get_finish :: "card_fn \<Rightarrow> int \<times> u64 \<times> plx_device \<Rightarrow> int \<times> u64 \<times> plx_device" where
  "lbp_get_finish crd r =
     (case r of (err, value, d) \<Rightarrow>
        if err < 0 then (- err, value, d)
        else if err AND uint PLX_LBP_i7_ANY_ERROR \<noteq> 0
        then (case lbp_card_error crd d of (err', d') \<Rightarrow> (err', value, d'))
        else (err, value, d))"

definition lbp_get_param :: "card_fn \<Rightarrow> u64 \<Rightarrow> lbp_now \<Rightarrow> u32 \<Rightarrow> u64 \<Rightarrow> u32 \<Rightarrow> plx_device \<Rightarrow> int \<times> u64 \<times> plx_device" where
  "lbp_get_param crd junk t param value version d =
     (let i7 = plx_lbp_get_i7_status d in
      if \<not> check_if_supported i7 version then
        (if i7_version i7 = 0
         then (case plx_lbp_copy_bios_info_from_cache d param value of (err, v) \<Rightarrow> (err, v, d))
         else (LBP_PROTOCOL_VERSION_MISMATCH, value, d))
      else if i7_ready i7 \<noteq> PLX_LBP_i7_READY \<and> i7_ready i7 \<noteq> PLX_LBP_i7_UP
      then (case plx_lbp_copy_bios_info_from_cache d param value of (err, v) \<Rightarrow> (err, v, d))
      else lbp_get_finish crd (plx_lbp_copy_bios_info crd junk t param value d))"

definition plx_lbp_get_bios_param :: "card_fn \<Rightarrow> u64 \<Rightarrow> lbp_now \<Rightarrow> u32 \<Rightarrow> u64 \<Rightarrow> plx_device \<Rightarrow>
    (int \<times> u64 \<times> plx_device) option" where
  "plx_lbp_get_bios_param crd junk t param value d =
     (case lbp_take_lock d of
        None \<Rightarrow> None
      | Some d1 \<Rightarrow>
          let (err, v, d2) =
            (if param \<in> {PLX_LBP_PARAM_BIOS_BUILD_DATE, PLX_LBP_PARAM_BIOS_VER}
             then lbp_get_param crd junk t param value (PLX_LBP_PROTOCOL_VERSION 1 1) d1
             else if param \<in> {PLX_LBP_PARAM_SGX, PLX_LBP_PARAM_SGX_OWNER_EPOCH_TYPE, PLX_LBP_PARAM_EPOCH_0,
                 PLX_LBP_PARAM_EPOCH_1, PLX_LBP_PARAM_SGX_TO_FACTORY, PLX_LBP_PARAM_SGX_MEM,
                 PLX_LBP_PARAM_GPU_APERTURE, PLX_LBP_PARAM_TDP, PLX_LBP_PARAM_HT, PLX_LBP_PARAM_GPU}
             then lbp_get_param crd junk t param value (PLX_LBP_PROTOCOL_VERSION 1 2) d1
             else if param = PLX_LBP_PARAM_CPU_MAX_FREQ_NON_TURBO then
               lbp_get_finish crd
                 (if i7_ready (plx_lbp_get_i7_status d1) \<noteq> PLX_LBP_i7_READY then (LBP_SPAD_i7_WRONG_STATE, value, d1)
                  else plx_lbp_copy_bios_info crd junk t param value d1)
             else lbp_get_finish crd (- LBP_UNKNOWN_PARAMETER, value, d1))
          in Some (err, v, lbp_unlock d2))"

section \<open>Handshake\<close>

text \<open>The values read from the card at the end of a handshake; the first failure ends the reading.\<close>

definition lbp_read_bios :: "card_fn \<Rightarrow> u64 \<Rightarrow> lbp_now \<Rightarrow> plx_device \<Rightarrow> plx_device" where
  "lbp_read_bios crd junk t d =
     (let copy = plx_lbp_copy_bios_info crd junk t;
          (e1, v1, d1) = copy PLX_LBP_PARAM_BIOS_BUILD_DATE (bios_information_date d) d;
          d1 = d1\<lparr>bios_information_date := v1\<rparr> in
      if e1 \<noteq> 0 then d1 else
      let (e2, v2, d2) = copy PLX_LBP_PARAM_BIOS_VER (bios_information_version d1) d1;
          d2 = d2\<lparr>bios_information_version := v2\<rparr> in
      if e2 \<noteq> 0 then d2 else
      let (e3, v3, d3) = copy PLX_LBP_PARAM_SGX (bios_cfg_sgx d2) d2; d3 = d3\<lparr>bios_cfg_sgx := v3\<rparr> in
      if e3 \<noteq> 0 then d3 else
      let (e4, v4, d4) = copy PLX_LBP_PARAM_GPU (bios_cfg_gpu d3) d3; d4 = d4\<lparr>bios_cfg_gpu := v4\<rparr> in
      if e4 \<noteq> 0 then d4 else
      let (e5, v5, d5) = copy PLX_LBP_PARAM_GPU_APERTURE (bios_cfg_gpu_aperture d4) d4;
          d5 = d5\<lparr>bios_cfg_gpu_aperture := v5\<rparr> in
      if e5 \<noteq> 0 then d5 else
      let (e6, v6, d6) = copy PLX_LBP_PARAM_TDP (bios_cfg_tdp d5) d5; d6 = d6\<lparr>bios_cfg_tdp := v6\<rparr> in
      if e6 \<noteq> 0 then d6 else
      let (e7, v7, d7) = copy PLX_LBP_PARAM_HT (bios_cfg_hyper_threading d6) d6 in
      d7\<lparr>bios_cfg_hyper_threading := v7\<rparr>)"

definition lbp_forget_bios :: "plx_device \<Rightarrow> plx_device" where
  "lbp_forget_bios d =
     d\<lparr>bios_information_date := 0, bios_information_version := 0, bios_cfg_sgx := - 1, bios_cfg_gpu_aperture := - 1,
       bios_cfg_tdp := - 1, bios_cfg_hyper_threading := - 1, bios_cfg_gpu := - 1\<rparr>"

text \<open>The exchange itself, up to the label \<open>exit\<close>: an error, or the state of the card.\<close>

definition lbp_exchange :: "card_fn \<Rightarrow> irq_wait \<Rightarrow> u32 \<Rightarrow> u32 \<Rightarrow> u32 \<Rightarrow> plx_device \<Rightarrow> int \<times> plx_device" where
  "lbp_exchange crd w junk1 junk2 index d =
     (let e5_waiting = e5_value 1 index (drop_bit 16 junk2) (drop_bit 24 junk2);
          e5_ready = e5_value 2 index (pci_slot d) (port_id d);
          d1 = plx_write_spad PLX_LBP_SPAD_E5_READY e5_waiting
                 ((lbp_issue_cmd (i7_cmd_value PLX_LBP_CMD_INVALID junk1) d)\<lparr>card_wait := False\<rparr>)
      in case plx_lbp_wait_for_i7_up crd w (i7_irq_timeout_ms d1) d1 of
           (Inl e, d2) \<Rightarrow> (- LBP_IRQ_TIMEOUT, d2)
         | (Inr _, d2) \<Rightarrow>
             let d3 = plx_write_spad PLX_LBP_SPAD_E5_READY e5_ready
                   (plx_write_spad PLX_LBP_SPAD_DATA_HIGH 0
                     (plx_write_spad PLX_LBP_SPAD_DATA_LOW index
                       (d2\<lparr>i7_ddr_size_mb := plx_read_spad d2 PLX_LBP_SPAD_DATA_LOW\<rparr>)))
             in case plx_lbp_wait_for_i7_state crd PLX_LBP_i7_READY (i7_irq_timeout_ms d3) d3 of
                  (Inl e, d4) \<Rightarrow> (- LBP_CMD_TIMEOUT, d4)
                | (Inr ready, d4) \<Rightarrow> (uint ready, d4))"

definition plx_lbp_handshake :: "card_fn \<Rightarrow> irq_wait \<Rightarrow> u32 \<Rightarrow> u32 \<Rightarrow> u32 \<Rightarrow> u64 \<Rightarrow> lbp_now \<Rightarrow> plx_device \<Rightarrow>
    (int \<times> plx_device) option" where
  "plx_lbp_handshake crd w junk1 junk2 junk3 junk t d =
     (case lbp_take_lock (lbp_forget_bios d) of
        None \<Rightarrow> None
      | Some d1 \<Rightarrow>
          let (err, d2) = (case vca_csm_index d1 of
                None \<Rightarrow> (- LBP_INTERNAL_ERROR, d1)
              | Some index \<Rightarrow> lbp_exchange crd w junk1 junk2 index d1) in
          if 0 \<le> err then Some (LBP_STATE_OK, lbp_unlock (lbp_read_bios crd junk t d2))
          else Some (- err, plx_write_spad PLX_LBP_SPAD_E5_READY
                 (e5_value 0 (drop_bit 8 junk3) (pci_slot d2) (port_id d2)) (lbp_unlock d2)))"

section \<open>Sending an image\<close>

text \<open>
  Where the kernel may fail while an image is sent: the two allocations of the bounce buffer, its DMA
  mapping, the copy from user space at an offset, and the DMA transfer of the chunk at an offset, where
  \<open>Some f\<close> is a failed transfer that leaves \<open>f\<close> in the memory of the card.
\<close>

record lbp_kernel =
  big_buffer :: bool
  page_buffer :: bool
  dma_map_ok :: bool
  copy_user_ok :: "nat \<Rightarrow> bool"
  dma_fails :: "nat \<Rightarrow> ((u64 \<Rightarrow> u8) \<Rightarrow> (u64 \<Rightarrow> u8)) option"

definition LBP_DMA_BUFFER_SIZE :: nat where "LBP_DMA_BUFFER_SIZE = 1024 * 1024"

text \<open>Storing bytes through the aperture: each goes where the switch translates its address.\<close>

definition aper_addr :: "plx_device \<Rightarrow> u64 \<Rightarrow> u64 option" where
  "aper_addr d a = (if a_lut (dev_lut d) then lut_translate (dev_lut d) a else Some a)"

fun aper_store :: "plx_device \<Rightarrow> u64 \<Rightarrow> u8 list \<Rightarrow> (u64 \<Rightarrow> u8) \<Rightarrow> (u64 \<Rightarrow> u8)" where
  "aper_store d a [] m = m"
| "aper_store d a (b # bs) m =
     aper_store d (a + 1) bs (case aper_addr d a of None \<Rightarrow> m | Some p \<Rightarrow> m(p := b))"

text \<open>
  One chunk: map it, copy it by DMA or by the processor, unmap it. The first component tells whether
  the chunk got across.
\<close>

definition lbp_send_chunk :: "lbp_kernel \<Rightarrow> u64 \<Rightarrow> nat \<Rightarrow> u8 list \<Rightarrow> plx_device \<Rightarrow> (bool \<times> plx_device) option" where
  "lbp_send_chunk k ramdisk_ph off chunk d =
     (if \<not> copy_user_ok k off then Some (False, d)
      else case plx_ioremap (dev_lut d) (ramdisk_ph + word_of_nat off) (word_of_nat (length chunk)) of
        None \<Rightarrow> None
      | Some (None, l) \<Rightarrow> Some (False, d\<lparr>dev_lut := l\<rparr>)
      | Some (Some remapped, l) \<Rightarrow>
          let d1 = d\<lparr>dev_lut := l\<rparr>;
              store = aper_store d1 (remapped - aper_va l) chunk;
              (ok, mem) = (if has_dma d then
                             (case dma_fails k off of
                                None \<Rightarrow> (True, store (card_mem d1))
                              | Some f \<Rightarrow> (False, f (card_mem d1)))
                           else (True, store (card_mem d1)))
          in case plx_iounmap l remapped of
               None \<Rightarrow> None
             | Some l' \<Rightarrow> Some (ok, d1\<lparr>dev_lut := l', card_mem := mem\<rparr>))"

function lbp_send_loop :: "lbp_kernel \<Rightarrow> u64 \<Rightarrow> nat \<Rightarrow> u8 list \<Rightarrow> nat \<Rightarrow> plx_device \<Rightarrow> (bool \<times> plx_device) option" where
  "lbp_send_loop k ramdisk_ph buf img off d =
     (if buf = 0 \<or> length img \<le> off then Some (True, d)
      else
        let chunk = take (min buf (length img - off)) (drop off img) in
        case lbp_send_chunk k ramdisk_ph off chunk d of
          None \<Rightarrow> None
        | Some (False, d') \<Rightarrow> Some (False, d')
        | Some (True, d') \<Rightarrow> lbp_send_loop k ramdisk_ph buf img (off + length chunk) d')"
  by pat_completeness auto
termination by (relation "measure (\<lambda>(k, r, buf, img, off, d). length img - off)") auto

declare lbp_send_loop.simps [simp del]

definition plx_lbp_send_ramdisk :: "card_fn \<Rightarrow> lbp_kernel \<Rightarrow> u8 list \<Rightarrow> plx_device \<Rightarrow> (int \<times> plx_device) option" where
  "plx_lbp_send_ramdisk crd k img d =
     (let d1 = (if a_lut (dev_lut d) then plx_a_lut_peer_enable d else d) in
      if i7_ready (plx_lbp_get_i7_status d1) \<noteq> PLX_LBP_i7_READY then Some (LBP_INTERNAL_ERROR, d1)
      else if \<not> big_buffer k \<and> \<not> page_buffer k then Some (LBP_INTERNAL_ERROR, d1)
      else if has_dma d1 \<and> \<not> dma_map_ok k then Some (LBP_INTERNAL_ERROR, d1)
      else
        let buf = (if big_buffer k then LBP_DMA_BUFFER_SIZE else PAGE_SIZE);
            d2 = lbp_issue_cmd (i7_cmd_value PLX_LBP_CMD_MAP_RAMDISK 1)
                   (plx_write_spad PLX_LBP_SPAD_DATA_HIGH 0
                     (plx_write_spad PLX_LBP_SPAD_DATA_LOW
                       (word_of_nat ((length img + 1024 * 1024 - 1) div (1024 * 1024))) d1))
        in case plx_lbp_wait_for_i7_state crd (PLX_LBP_i7_DONE OR PLX_LBP_i7_ANY_ERROR) (i7_alloc_timeout_ms d2) d2 of
             (Inl e, d3) \<Rightarrow> Some (LBP_ALLOC_TIMEOUT, d3)
           | (Inr ready, d3) \<Rightarrow>
               if ready AND PLX_LBP_i7_ANY_ERROR \<noteq> 0 then Some (LBP_INTERNAL_ERROR, d3)
               else
                 let ramdisk_ph = push_bit 32 (ucast (plx_read_spad d3 PLX_LBP_SPAD_DATA_HIGH)) +
                                  ucast (plx_read_spad d3 PLX_LBP_SPAD_DATA_LOW)
                 in case lbp_send_loop k ramdisk_ph buf img 0 d3 of
                      None \<Rightarrow> None
                    | Some (ok, d4) \<Rightarrow> Some (if ok then LBP_STATE_OK else LBP_INTERNAL_ERROR, d4))"

section \<open>Booting and flashing\<close>

text \<open>
  A DMA channel is requested if there is none; \<open>dma_avail\<close> tells whether the kernel grants one. The
  requester table is programmed before the mutex is taken.
\<close>

definition lbp_prepare_boot :: "bool \<Rightarrow> plx_device \<Rightarrow> int \<times> plx_device" where
  "lbp_prepare_boot dma_avail d = plx_program_rid_lut_for_node (d\<lparr>has_dma := has_dma d \<or> dma_avail\<rparr>)"

definition plx_lbp_boot_ramdisk :: "card_fn \<Rightarrow> lbp_kernel \<Rightarrow> bool \<Rightarrow> u8 list \<Rightarrow> plx_device \<Rightarrow>
    (int \<times> plx_device) option" where
  "plx_lbp_boot_ramdisk crd k dma_avail img d =
     (case lbp_prepare_boot dma_avail d of
        (rc, d0) \<Rightarrow>
          if rc \<noteq> 0 then Some (LBP_INTERNAL_ERROR, d0)
          else case lbp_take_lock d0 of
            None \<Rightarrow> None
          | Some d1 \<Rightarrow>
              (case plx_lbp_send_ramdisk crd k img d1 of
                 None \<Rightarrow> None
               | Some (err, d2) \<Rightarrow>
                   if err \<noteq> LBP_STATE_OK then Some (err, lbp_unlock d2)
                   else case plx_lbp_wait_for_i7_state crd
                          (PLX_LBP_i7_BOOTING OR PLX_LBP_i7_OS_READY OR PLX_LBP_i7_ANY_ERROR) (i7_cmd_timeout_ms d2)
                          (lbp_issue_cmd (i7_cmd_value PLX_LBP_CMD_BOOT_RAMDISK 0) d2) of
                     (Inl e, d3) \<Rightarrow> Some (LBP_CMD_TIMEOUT, lbp_unlock d3)
                   | (Inr ready, d3) \<Rightarrow>
                       if ready AND PLX_LBP_i7_ANY_ERROR \<noteq> 0 then Some (LBP_INTERNAL_ERROR, lbp_unlock d3)
                       else Some (LBP_STATE_OK, lbp_unlock d3)))"

text \<open>
  Booting from block I/O. On success the address of the device page that the card published is
  returned; the boot parameter page and the local doorbell are those of the block I/O backend. The
  result of a card that is not ready is the negated error.
\<close>

definition plx_lbp_boot_blkdisk :: "card_fn \<Rightarrow> bool \<Rightarrow> nat \<Rightarrow> plx_device \<Rightarrow> (int \<times> u64 option \<times> plx_device) option" where
  "plx_lbp_boot_blkdisk crd dma_avail blockio_ftb_db d =
     (case lbp_prepare_boot dma_avail d of
        (rc, d0) \<Rightarrow>
          if rc \<noteq> 0 then Some (LBP_INTERNAL_ERROR, None, d0)
          else case lbp_take_lock d0 of
            None \<Rightarrow> None
          | Some d1 \<Rightarrow>
              let d2 = (if a_lut (dev_lut d1) then plx_a_lut_peer_enable d1 else d1) in
              if i7_ready (plx_lbp_get_i7_status d2) \<noteq> PLX_LBP_i7_READY
              then Some (- LBP_INTERNAL_ERROR, None, lbp_unlock d2)
              else case plx_lbp_wait_for_i7_state crd
                     (PLX_LBP_i7_BOOTING_BLOCK_IO OR PLX_LBP_i7_OS_READY OR PLX_LBP_i7_ANY_ERROR)
                     (i7_cmd_timeout_ms d2)
                     (lbp_issue_cmd (i7_cmd_value PLX_LBP_CMD_BOOT_BLOCK_IO 0) d2) of
                (Inl e, d3) \<Rightarrow> Some (LBP_CMD_TIMEOUT, None, lbp_unlock d3)
              | (Inr ready, d3) \<Rightarrow>
                  if ready AND PLX_LBP_i7_ANY_ERROR \<noteq> 0 then Some (LBP_INTERNAL_ERROR, None, lbp_unlock d3)
                  else
                    let dp = push_bit 32 (ucast (plx_read_spad d3 PLX_LBP_SPAD_DATA_HIGH)) +
                             ucast (plx_read_spad d3 PLX_LBP_SPAD_DATA_LOW)
                    in Some (LBP_STATE_OK, Some dp,
                         lbp_unlock (dev_mmio_write (DB_TO_MASK blockio_ftb_db)
                           (reg_base d3 + intr_reg_base d3 + PLX_DBIS) d3)))"

definition plx_lbp_flash :: "card_fn \<Rightarrow> lbp_kernel \<Rightarrow> u32 \<Rightarrow> u8 list \<Rightarrow> plx_device \<Rightarrow> (int \<times> plx_device) option" where
  "plx_lbp_flash crd k cmd file d =
     (case plx_lbp_send_ramdisk crd k file d of
        None \<Rightarrow> None
      | Some (err, d1) \<Rightarrow>
          if err \<noteq> LBP_STATE_OK then Some (err, d1)
          else case plx_lbp_wait_for_i7_state crd (PLX_LBP_i7_FLASHING OR PLX_LBP_i7_ANY_ERROR) (i7_cmd_timeout_ms d1)
                 (lbp_issue_cmd (i7_cmd_value cmd 0) d1) of
            (Inl e, d2) \<Rightarrow> Some (LBP_CMD_TIMEOUT, d2)
          | (Inr ready, d2) \<Rightarrow>
              if ready AND PLX_LBP_i7_ANY_ERROR \<noteq> 0 then Some (LBP_INTERNAL_ERROR, d2)
              else case plx_lbp_wait_for_i7_state crd (PLX_LBP_i7_DONE OR PLX_LBP_i7_ANY_ERROR) 300000 d2 of
                (Inl e, d3) \<Rightarrow> Some (LBP_CMD_TIMEOUT, d3)
              | (Inr ready', d3) \<Rightarrow>
                  if ready' AND PLX_LBP_i7_ANY_ERROR \<noteq> 0 then Some (LBP_INTERNAL_ERROR, d3)
                  else Some (LBP_STATE_OK, d3))"

definition lbp_flash_locked :: "card_fn \<Rightarrow> lbp_kernel \<Rightarrow> u32 \<Rightarrow> u8 list \<Rightarrow> plx_device \<Rightarrow> (int \<times> plx_device) option" where
  "lbp_flash_locked crd k cmd file d =
     (case lbp_take_lock d of
        None \<Rightarrow> None
      | Some d1 \<Rightarrow>
          (case plx_lbp_flash crd k cmd file d1 of
             None \<Rightarrow> None
           | Some (ret, d2) \<Rightarrow> Some (ret, lbp_unlock d2)))"

definition plx_lbp_flash_bios :: "card_fn \<Rightarrow> lbp_kernel \<Rightarrow> u8 list \<Rightarrow> plx_device \<Rightarrow> (int \<times> plx_device) option" where
  "plx_lbp_flash_bios crd k = lbp_flash_locked crd k PLX_LBP_CMD_FLASH_BIOS"
definition plx_lbp_clear_smb_event_log :: "card_fn \<Rightarrow> lbp_kernel \<Rightarrow> u8 list \<Rightarrow> plx_device \<Rightarrow> (int \<times> plx_device) option" where
  "plx_lbp_clear_smb_event_log crd k = lbp_flash_locked crd k PLX_LBP_CMD_FLASH_BIOS"
definition plx_lbp_update_mac_addr :: "card_fn \<Rightarrow> lbp_kernel \<Rightarrow> u8 list \<Rightarrow> plx_device \<Rightarrow> (int \<times> plx_device) option" where
  "plx_lbp_update_mac_addr crd k = lbp_flash_locked crd k PLX_LBP_CMD_FLASH_FW"
definition plx_lbp_set_serial_number :: "card_fn \<Rightarrow> lbp_kernel \<Rightarrow> u8 list \<Rightarrow> plx_device \<Rightarrow> (int \<times> plx_device) option" where
  "plx_lbp_set_serial_number crd k = lbp_flash_locked crd k PLX_LBP_CMD_FLASH_FW"

definition plx_lbp_boot_from_usb :: "card_fn \<Rightarrow> bool \<Rightarrow> plx_device \<Rightarrow> (int \<times> plx_device) option" where
  "plx_lbp_boot_from_usb crd dma_avail d =
     (case lbp_prepare_boot dma_avail d of
        (rc, d0) \<Rightarrow>
          if rc \<noteq> 0 then Some (LBP_INTERNAL_ERROR, d0)
          else case lbp_take_lock d0 of
            None \<Rightarrow> None
          | Some d1 \<Rightarrow>
              (case plx_lbp_wait_for_i7_state crd (PLX_LBP_i7_BOOTING OR PLX_LBP_i7_ANY_ERROR) (i7_cmd_timeout_ms d1)
                      (lbp_issue_cmd (i7_cmd_value PLX_LBP_CMD_BOOT_LOADER 0) d1) of
                 (Inl e, d2) \<Rightarrow> Some (LBP_CMD_TIMEOUT, lbp_unlock d2)
               | (Inr _, d2) \<Rightarrow> Some (LBP_STATE_OK, lbp_unlock d2)))"

definition plx_lbp_flash_firmware :: "plx_device \<Rightarrow> (int \<times> plx_device) option" where
  "plx_lbp_flash_firmware d = map_option (\<lambda>d1. (- 38, lbp_unlock d1)) (lbp_take_lock d)"

section \<open>Parameters and state\<close>

datatype vca_lbp_param =
    VCA_LBP_PARAM_i7_IRQ_TIMEOUT_MS | VCA_LBP_PARAM_i7_ALLOC_TIMEOUT_MS | VCA_LBP_PARAM_i7_CMD_TIMEOUT_MS
  | VCA_LBP_PARAM_i7_MAC_WRITE_TIMEOUT_MS | VCA_LBP_PARAM_OTHER nat

fun lbp_param_max :: "vca_lbp_param \<Rightarrow> u32 option" where
  "lbp_param_max VCA_LBP_PARAM_i7_IRQ_TIMEOUT_MS = Some 300000"
| "lbp_param_max VCA_LBP_PARAM_i7_CMD_TIMEOUT_MS = Some 1000"
| "lbp_param_max VCA_LBP_PARAM_i7_ALLOC_TIMEOUT_MS = Some 1000"
| "lbp_param_max VCA_LBP_PARAM_i7_MAC_WRITE_TIMEOUT_MS = Some 10000"
| "lbp_param_max (VCA_LBP_PARAM_OTHER n) = None"

text \<open>The second \<open>switch\<close>: the case of the command timeout falls through to the next.\<close>

fun lbp_store_param :: "vca_lbp_param \<Rightarrow> u32 \<Rightarrow> plx_device \<Rightarrow> plx_device" where
  "lbp_store_param VCA_LBP_PARAM_i7_IRQ_TIMEOUT_MS v d = d\<lparr>i7_irq_timeout_ms := v\<rparr>"
| "lbp_store_param VCA_LBP_PARAM_i7_ALLOC_TIMEOUT_MS v d = d\<lparr>i7_alloc_timeout_ms := v\<rparr>"
| "lbp_store_param VCA_LBP_PARAM_i7_CMD_TIMEOUT_MS v d = d\<lparr>i7_cmd_timeout_ms := v, i7_mac_write_timeout_ms := v\<rparr>"
| "lbp_store_param VCA_LBP_PARAM_i7_MAC_WRITE_TIMEOUT_MS v d = d\<lparr>i7_mac_write_timeout_ms := v\<rparr>"
| "lbp_store_param (VCA_LBP_PARAM_OTHER n) v d = d"

definition plx_lbp_set_param :: "vca_lbp_param \<Rightarrow> u32 \<Rightarrow> plx_device \<Rightarrow> (int \<times> plx_device) option" where
  "plx_lbp_set_param param v d =
     (case lbp_take_lock d of
        None \<Rightarrow> None
      | Some d1 \<Rightarrow>
          (case lbp_param_max param of
             None \<Rightarrow> Some (LBP_UNKNOWN_PARAMETER, lbp_unlock d1)
           | Some max_val \<Rightarrow>
               if v < 0 \<or> max_val < v then Some (LBP_BAD_PARAMETER_VALUE, lbp_unlock d1)
               else Some (LBP_STATE_OK, lbp_unlock (lbp_store_param param v d1))))"

definition i7_state_of :: "u32 \<Rightarrow> vca_lbp_states" where
  "i7_state_of status =
     (if status = PLX_LBP_i7_DOWN then VCA_BIOS_DOWN
      else if status = PLX_LBP_i7_UP then VCA_BIOS_UP
      else if status = PLX_LBP_i7_READY then VCA_BIOS_READY
      else if status = PLX_LBP_i7_BUSY then VCA_BUSY
      else if status = PLX_LBP_i7_BOOTING then VCA_BOOTING
      else if status = PLX_LBP_i7_FLASHING then VCA_FLASHING
      else if status = PLX_LBP_i7_DONE then VCA_DONE
      else if status = PLX_LBP_i7_OS_READY then VCA_OS_READY
      else if status = PLX_LBP_i7_NET_DEV_READY then VCA_NET_DEV_READY
      else if status = PLX_LBP_i7_UEFI_ERROR \<or> status = PLX_LBP_i7_GENERAL_ERROR then VCA_ERROR
      else if status = PLX_LBP_i7_NET_DEV_UP then VCA_NET_DEV_UP
      else if status = PLX_LBP_i7_NET_DEV_DOWN then VCA_NET_DEV_DOWN
      else if status = PLX_LBP_i7_NET_DEV_NO_IP then VCA_NET_DEV_NO_IP
      else if status = PLX_LBP_i7_DRV_PROBE_DONE then VCA_DRV_PROBE_DONE
      else if status = PLX_LBP_i7_DRV_PROBE_ERROR then VCA_DRV_PROBE_ERROR
      else if status = PLX_LBP_i7_DHCP_IN_PROGRESS then VCA_DHCP_IN_PROGRESS
      else if status = PLX_LBP_i7_DHCP_DONE then VCA_DHCP_DONE
      else if status = PLX_LBP_i7_DHCP_ERROR then VCA_DHCP_ERROR
      else if status = PLX_LBP_i7_NFS_MOUNT_DONE then VCA_NFS_MOUNT_DONE
      else if status = PLX_LBP_i7_NFS_MOUNT_ERROR then VCA_NFS_MOUNT_ERROR
      else if status = PLX_LBP_i7_SOFTWARE_NODE_DOWN then VCA_LINK_DOWN
      else if status = PLX_LBP_i7_BOOTING_BLOCK_IO then VCA_BOOTING_BLOCKIO
      else if status = PLX_LBP_i7_OS_REBOOTING then VCA_OS_REBOOTING
      else if status = PLX_LBP_i7_UP OR PLX_LBP_i7_AFTER_REBOOT then VCA_AFTER_REBOOT
      else if status = PLX_LBP_i7_POWER_DOWN then VCA_POWER_DOWN
      else if status = PLX_LBP_i7_POWERING_DOWN OR PLX_LBP_i7_NET_DEV_DOWN then VCA_POWERING_DOWN
      else if status AND PLX_LBP_i7_POWER_DOWN \<noteq> 0 then VCA_POWER_DOWN
      else VCA_ERROR)"

definition plx_lbp_get_state :: "plx_device \<Rightarrow> vca_lbp_states" where
  "plx_lbp_get_state d =
     (if card_type d AND VCA_PRODUCTION = 0 then VCA_OS_READY
      else if lbp_resetting d then VCA_RESETTING
      else i7_state_of (i7_ready (plx_lbp_get_i7_status d)))"

fun i7_code_of :: "vca_lbp_states \<Rightarrow> u32 option" where
  "i7_code_of VCA_BIOS_DOWN = Some PLX_LBP_i7_DOWN"
| "i7_code_of VCA_BIOS_UP = Some PLX_LBP_i7_UP"
| "i7_code_of VCA_BIOS_READY = Some PLX_LBP_i7_READY"
| "i7_code_of VCA_BUSY = Some PLX_LBP_i7_BUSY"
| "i7_code_of VCA_BOOTING = Some PLX_LBP_i7_BOOTING"
| "i7_code_of VCA_FLASHING = Some PLX_LBP_i7_FLASHING"
| "i7_code_of VCA_DONE = Some PLX_LBP_i7_DONE"
| "i7_code_of VCA_OS_READY = Some PLX_LBP_i7_OS_READY"
| "i7_code_of VCA_NET_DEV_READY = Some PLX_LBP_i7_NET_DEV_READY"
| "i7_code_of VCA_ERROR = Some PLX_LBP_i7_GENERAL_ERROR"
| "i7_code_of VCA_NET_DEV_UP = Some PLX_LBP_i7_NET_DEV_UP"
| "i7_code_of VCA_NET_DEV_DOWN = Some PLX_LBP_i7_NET_DEV_DOWN"
| "i7_code_of VCA_NET_DEV_NO_IP = Some PLX_LBP_i7_NET_DEV_NO_IP"
| "i7_code_of VCA_DRV_PROBE_DONE = Some PLX_LBP_i7_DRV_PROBE_DONE"
| "i7_code_of VCA_DRV_PROBE_ERROR = Some PLX_LBP_i7_DRV_PROBE_ERROR"
| "i7_code_of VCA_DHCP_IN_PROGRESS = Some PLX_LBP_i7_DHCP_IN_PROGRESS"
| "i7_code_of VCA_DHCP_DONE = Some PLX_LBP_i7_DHCP_DONE"
| "i7_code_of VCA_DHCP_ERROR = Some PLX_LBP_i7_DHCP_ERROR"
| "i7_code_of VCA_NFS_MOUNT_DONE = Some PLX_LBP_i7_NFS_MOUNT_DONE"
| "i7_code_of VCA_NFS_MOUNT_ERROR = Some PLX_LBP_i7_NFS_MOUNT_ERROR"
| "i7_code_of VCA_BOOTING_BLOCKIO = Some PLX_LBP_i7_BOOTING_BLOCK_IO"
| "i7_code_of VCA_OS_REBOOTING = Some PLX_LBP_i7_OS_REBOOTING"
| "i7_code_of VCA_AFTER_REBOOT = Some (PLX_LBP_i7_UP OR PLX_LBP_i7_AFTER_REBOOT)"
| "i7_code_of VCA_POWER_DOWN = Some PLX_LBP_i7_POWER_DOWN"
| "i7_code_of VCA_POWERING_DOWN = Some PLX_LBP_i7_POWERING_DOWN"
| "i7_code_of _ = None"

definition plx_lbp_set_state :: "vca_lbp_states \<Rightarrow> plx_device \<Rightarrow> int \<times> plx_device" where
  "plx_lbp_set_state state d =
     (if card_type d AND VCA_PRODUCTION = 0 then (LBP_STATE_OK, d)
      else if lbp_resetting d then (LBP_INTERNAL_ERROR, d)
      else case i7_code_of state of
        None \<Rightarrow> (LBP_BAD_PARAMETER_VALUE, d)
      | Some c \<Rightarrow> (LBP_STATE_OK, plx_lbp_set_i7_status (i7_with_ready (plx_lbp_get_i7_status d) c) d))"

definition plx_lbp_get_rcvy_state :: "plx_device \<Rightarrow> vca_lbp_rcvy_states" where
  "plx_lbp_get_rcvy_state d =
     (if card_type d AND VCA_PRODUCTION = 0 \<or> lbp_resetting d then VCA_RCVY_NON_READABLE
      else
        let i7 = plx_lbp_get_i7_status d in
        if i7_version i7 < PLX_LBP_PROTOCOL_VERSION 0 4 then VCA_RCVY_NON_READABLE
        else if i7_ready i7 \<in> {PLX_LBP_i7_UP, PLX_LBP_i7_UP OR PLX_LBP_i7_AFTER_REBOOT, PLX_LBP_i7_READY}
        then (if plx_lbp_get_i7_rcvy_status d AND 1 \<noteq> 0 then VCA_RCVY_JUMPER_OPEN else VCA_RCVY_JUMPER_CLOSE)
        else VCA_RCVY_NON_READABLE)"

definition plx_link_status :: "plx_device \<Rightarrow> bool" where
  "plx_link_status d \<longleftrightarrow> plx_link_width d \<noteq> 0 \<and> plx_lbp_get_state d \<noteq> VCA_LINK_DOWN"

end
