(* ===== verification/Plx_Lbp_Facts.thy ===== *)
theory Plx_Lbp_Facts
  imports Plx_Lbp Plx_Hw_Facts
begin

unbundle bit_operations_syntax

text \<open>
  What the boot protocol of \<open>Plx_Lbp\<close> achieves: waiting is bounded and stops at the first event; an
  image that was sent is in the memory of the card where the card asked for it; every operation gives
  the mutex back; what is read back of a state, a parameter and a time that was set.
\<close>

section \<open>Waiting\<close>

lemma msleeps_add: "lbp_msleeps crd (m + n) d = lbp_msleeps crd n (lbp_msleeps crd m d)"
  by (induction m arbitrary: d) simp_all

lemma msleep_clock [simp]: "clock (lbp_msleep crd d) = Suc (clock d)"
  by (simp add: lbp_msleep_def)

lemma msleeps_clock [simp]: "clock (lbp_msleeps crd n d) = clock d + n"
  by (induction n arbitrary: d) simp_all

text \<open>Waiting ends at the first millisecond with the event, or after all of them without it.\<close>

lemma wait_event_True:
  assumes "lbp_wait_event crd event to d = (True, d')"
  shows "\<exists>n. n < to \<and> d' = lbp_msleeps crd (Suc n) d \<and> event d' \<and>
    (\<forall>j < n. \<not> event (lbp_msleeps crd (Suc j) d))"
  using assms
proof (induction to arbitrary: d)
  case (Suc to)
  show ?case
  proof (cases "event (lbp_msleep crd d)")
    case True
    with Suc.prems show ?thesis by (intro exI [of _ 0]) (simp add: Let_def)
  next
    case False
    with Suc.prems have "lbp_wait_event crd event to (lbp_msleep crd d) = (True, d')" by (simp add: Let_def)
    from Suc.IH [OF this] obtain n where n: "n < to" "d' = lbp_msleeps crd (Suc (Suc n)) d" "event d'"
      "\<forall>j < n. \<not> event (lbp_msleeps crd (Suc (Suc j)) d)" by auto
    have "\<not> event (lbp_msleeps crd (Suc j) d)" if "j < Suc n" for j
      using that False n(4) by (cases j) auto
    with n show ?thesis by (intro exI [of _ "Suc n"]) simp
  qed
qed simp

lemma wait_event_False:
  assumes "lbp_wait_event crd event to d = (False, d')"
  shows "d' = lbp_msleeps crd to d \<and> (\<forall>j < to. \<not> event (lbp_msleeps crd (Suc j) d))"
  using assms
proof (induction to arbitrary: d)
  case (Suc to)
  then have *: "\<not> event (lbp_msleep crd d)" "lbp_wait_event crd event to (lbp_msleep crd d) = (False, d')"
    by (auto simp: Let_def split: if_splits)
  from Suc.IH [OF *(2)] have "d' = lbp_msleeps crd (Suc to) d"
    "\<forall>j < to. \<not> event (lbp_msleeps crd (Suc (Suc j)) d)" by auto
  moreover have "\<not> event (lbp_msleeps crd (Suc j) d)" if "j < Suc to" for j
    using that *(1) calculation(2) by (cases j) auto
  ultimately show ?case by blast
qed simp

lemma wait_event_sleeps:
  "\<exists>n \<le> to. snd (lbp_wait_event crd event to d) = lbp_msleeps crd n d"
proof (cases "lbp_wait_event crd event to d")
  case (Pair b d')
  then show ?thesis
    using wait_event_True [of crd event to d d'] wait_event_False [of crd event to d d']
    by (cases b) (auto intro: Suc_leI)
qed

text \<open>
  Waiting for a state of the card takes at most the given number of milliseconds. It ends in the
  first millisecond in which one of the states asked for is in the state register, and returns the
  register; without such a millisecond the whole time passes and the result is \<open>-ETIME\<close>.
\<close>
theorem wait_state_first:
  assumes "state \<noteq> 0"
  shows "case plx_lbp_wait_for_i7_state crd state timeout d of
     (Inr ready, d') \<Rightarrow> (\<exists>n < unat timeout. d' = lbp_msleeps crd (Suc n) d \<and>
        ready = i7_ready (plx_lbp_get_i7_status d') \<and> ready AND state \<noteq> 0 \<and>
        (\<forall>j < n. i7_ready (plx_lbp_get_i7_status (lbp_msleeps crd (Suc j) d)) AND state = 0))
   | (Inl e, d') \<Rightarrow> e = ETIME \<and> d' = lbp_msleeps crd (unat timeout) d \<and>
        (\<forall>j < unat timeout. i7_ready (plx_lbp_get_i7_status (lbp_msleeps crd (Suc j) d)) AND state = 0)"
proof -
  let ?ev = "\<lambda>d. i7_ready (plx_lbp_get_i7_status d) AND state \<noteq> 0"
  obtain b d' where w: "lbp_wait_event crd ?ev (unat timeout) d = (b, d')" by (metis surj_pair)
  show ?thesis
  proof (cases b)
    case True
    with wait_event_True [of crd ?ev "unat timeout" d d'] w assms show ?thesis
      by (auto simp: plx_lbp_wait_for_i7_state_def Let_def)
  next
    case False
    with wait_event_False [of crd ?ev "unat timeout" d d'] w assms show ?thesis
      by (auto simp: plx_lbp_wait_for_i7_state_def Let_def)
  qed
qed

section \<open>What the protocol leaves alone\<close>

text \<open>
  Steps of the protocol change registers, the clock and the log of commands. The registers of the
  translation tables are below \<open>0x3ca00\<close>, those that the protocol writes are above.
\<close>

definition card_keeps_tables :: "card_fn \<Rightarrow> bool" where
  "card_keeps_tables crd \<longleftrightarrow> (\<forall>t r x. x < 0x3ca00 \<longrightarrow> crd t r x = r x)"

definition regs_high :: "plx_device \<Rightarrow> bool" where
  "regs_high d \<longleftrightarrow> {reg_base d, reg_base_peer d} \<subseteq> {0x3c000, 0x3d000, 0x3e000, 0x3f000}"

definition tables_low :: "plx_lut_dev \<Rightarrow> bool" where
  "tables_low l \<longleftrightarrow> (\<forall>i < 256. \<forall>s \<in> lut_sub.
     a_lut_array_base l + plx_get_a_lut_entry_offset (word_of_nat i) + word_of_nat s < 0x3ca00)"

definition lbp_step :: "plx_device \<Rightarrow> plx_device \<Rightarrow> bool" where
  "lbp_step d d' \<longleftrightarrow> (\<exists>r t l. d' = d\<lparr>dev_lut := (dev_lut d)\<lparr>mmio := r\<rparr>, clock := t, cmd_log := l\<rparr> \<and>
     (\<forall>x < 0x3ca00. r x = mmio (dev_lut d) x))"

lemma lbp_step_refl [intro]: "lbp_step d d"
  unfolding lbp_step_def by (intro exI [of _ "mmio (dev_lut d)"] exI [of _ "clock d"] exI [of _ "cmd_log d"]) simp

lemma lbp_step_trans: "lbp_step d d' \<Longrightarrow> lbp_step d' d'' \<Longrightarrow> lbp_step d d''"
  by (force simp: lbp_step_def)

lemma lbp_step_fields:
  assumes "lbp_step d d'"
  shows "reg_base d' = reg_base d" "reg_base_peer d' = reg_base_peer d" "lbp_locked d' = lbp_locked d"
    "has_dma d' = has_dma d" "card_mem d' = card_mem d" "i7_cmd_timeout_ms d' = i7_cmd_timeout_ms d"
    "i7_alloc_timeout_ms d' = i7_alloc_timeout_ms d" "regs_high d' = regs_high d"
    "a_lut (dev_lut d') = a_lut (dev_lut d)" "aper_va (dev_lut d') = aper_va (dev_lut d)"
    "a_lut_array_base (dev_lut d') = a_lut_array_base (dev_lut d)"
    "a_lut_manager (dev_lut d') = a_lut_manager (dev_lut d)"
    "tables_low (dev_lut d') = tables_low (dev_lut d)"
  using assms by (auto simp: lbp_step_def regs_high_def tables_low_def)

lemma write_step:
  assumes "0x3ca00 \<le> off"
  shows "lbp_step d (dev_mmio_write v off d)"
  unfolding lbp_step_def dev_mmio_write_def plx_mmio_write_def
  by (intro exI [of _ "(mmio (dev_lut d))(off := v)"] exI [of _ "clock d"] exI [of _ "cmd_log d"]) (use assms in auto)

lemma spad_step:
  assumes "regs_high d" "i < 8"
  shows "lbp_step d (plx_write_spad i v d)"
  unfolding plx_write_spad_def
proof (rule write_step)
  have "i \<in> {0, 1, 2, 3, 4, 5, 6, 7}"
  proof -
    have "unat i < 8" using assms(2) by (simp add: word_less_nat_alt)
    then have "unat i \<in> {0, 1, 2, 3, 4, 5, 6, 7}" by auto
    then have "word_of_nat (unat i) \<in> (word_of_nat ` {0, 1, 2, 3, 4, 5, 6, 7} :: u32 set)" by blast
    then show ?thesis by simp
  qed
  then show "0x3ca00 \<le> spad_off d i"
    using assms(1) by (auto simp: regs_high_def spad_off_def PLX_SPAD0_def)
qed

lemma log_step [intro]: "lbp_step d (d\<lparr>cmd_log := l\<rparr>)"
  unfolding lbp_step_def by (intro exI [of _ "mmio (dev_lut d)"] exI [of _ "clock d"] exI [of _ l]) simp

lemma issue_step:
  assumes "regs_high d"
  shows "lbp_step d (lbp_issue_cmd v d)"
  unfolding lbp_issue_cmd_def
  by (rule lbp_step_trans [OF spad_step log_step]) (use assms in \<open>simp_all add: PLX_LBP_SPAD_i7_CMD_def\<close>)

lemma msleep_step:
  assumes "card_keeps_tables crd"
  shows "lbp_step d (lbp_msleep crd d)"
  unfolding lbp_step_def lbp_msleep_def set_regs_def
  by (intro exI [of _ "crd (clock d) (mmio (dev_lut d))"] exI [of _ "Suc (clock d)"] exI [of _ "cmd_log d"])
    (use assms in \<open>simp add: card_keeps_tables_def\<close>)

lemma msleeps_step:
  assumes "card_keeps_tables crd"
  shows "lbp_step d (lbp_msleeps crd n d)"
  by (induction n arbitrary: d) (auto intro: lbp_step_trans [OF msleep_step [OF assms]])

lemma msleeps_log [simp]: "cmd_log (lbp_msleeps crd n d) = cmd_log d"
  by (induction n arbitrary: d) (simp_all add: lbp_msleep_def set_regs_def)

lemma wait_case_sleeps:
  assumes "\<And>d'. snd (f d') = d'" "\<And>d'. snd (g d') = d'"
  shows "\<exists>n. snd (case lbp_wait_event crd event to d of (True, d') \<Rightarrow> f d' | (False, d') \<Rightarrow> g d') = lbp_msleeps crd n d"
proof -
  obtain b d' where w: "lbp_wait_event crd event to d = (b, d')" by (metis surj_pair)
  then obtain n where "d' = lbp_msleeps crd n d" using wait_event_sleeps [of to crd event d] by auto
  then show ?thesis using assms w by (cases b) auto
qed

lemma wait_state_sleeps: "\<exists>n. snd (plx_lbp_wait_for_i7_state crd state to d) = lbp_msleeps crd n d"
  unfolding plx_lbp_wait_for_i7_state_def Let_def by (rule wait_case_sleeps) simp_all

lemma wait_consumed_sleeps: "\<exists>n. snd (plx_lbp_wait_for_i7_cmd_consumed crd to d) = lbp_msleeps crd n d"
  unfolding plx_lbp_wait_for_i7_cmd_consumed_def by (rule wait_case_sleeps) simp_all

lemma wait_state_step:
  assumes "card_keeps_tables crd" "plx_lbp_wait_for_i7_state crd state to d = (r, d')"
  shows "lbp_step d d'" "cmd_log d' = cmd_log d"
  using wait_state_sleeps [of crd state to d] assms msleeps_step [OF assms(1)] by auto

section \<open>Sending an image\<close>

lemma aper_store_patch:
  assumes "\<And>k. k < length bs \<Longrightarrow> aper_addr d (a + word_of_nat k) = Some (p + word_of_nat k)" "length bs < 2 ^ 64"
  shows "aper_store d a bs m = patch p bs m"
  using assms
proof (induction bs arbitrary: a p m)
  case (Cons b bs)
  have "aper_store d (a + 1) bs (m(p := b)) = patch (p + 1) bs (m(p := b))"
  proof (rule Cons.IH)
    show "aper_addr d (a + 1 + word_of_nat k) = Some (p + 1 + word_of_nat k)" if "k < length bs" for k
      using Cons.prems(1) [of "Suc k"] that by (simp add: ac_simps)
  qed (use Cons.prems(2) in simp)
  moreover have "aper_addr d a = Some p" using Cons.prems(1) [of 0] by simp
  ultimately show ?case using patch_Cons [of bs p m b] Cons.prems(2) by simp
qed (simp add: patch_def)

lemma client_inv_regs:
  assumes "client_inv l held" "tables_low l" "\<And>x. x < 0x3ca00 \<Longrightarrow> r x = mmio l x"
  shows "client_inv (l\<lparr>mmio := r\<rparr>) held"
proof -
  let ?l = "l\<lparr>mmio := r\<rparr>"
  have reg: "lut_reg ?l (word_of_nat s) i = lut_reg l (word_of_nat s) i" if "i < 256" "s \<in> lut_sub" for i s
    using assms(2,3) that by (simp add: lut_reg_def tables_low_def)
  have ent: "lut_enabled ?l i = lut_enabled l i" "lut_remap ?l i = lut_remap l i" if "i < 256" for i
    using reg [OF that, of 0] reg [OF that, of "0x400"] reg [OF that, of "0x800"]
    by (simp_all add: lut_enabled_def lut_remap_def lut_regs)
  have inv: "lut_inv l" using assms(1) by (simp add: client_inv_def)
  have bnd: "g + k < 256" if "groups (entries (a_lut_manager l)) g = Some (v, n, c)" "k < n" for g v n c k
    using inv that groups_bounds(2) [OF _ that(1)] by (fastforce simp: lut_inv_def alm_inv_def alm_wf_table)
  have "lut_inv ?l" using inv ent bnd unfolding lut_inv_def by simp
  moreover have "seg_of ?l = seg_of l" "serves ?l = serves l" "held_in ?l = held_in l"
    using same_view [of l ?l] by (simp_all add: same_geom_def)
  ultimately show ?thesis using assms(1) by (simp add: client_inv_def)
qed

lemma client_inv_step:
  assumes "client_inv (dev_lut d) held" "tables_low (dev_lut d)" "lbp_step d d'"
  shows "client_inv (dev_lut d') held"
  using assms client_inv_regs [OF assms(1,2)] by (auto simp: lbp_step_def)

lemma ioremap_base:
  assumes "plx_ioremap l pa len = Some (r, l')"
  shows "a_lut_array_base l' = a_lut_array_base l"
  using assms by (auto simp: plx_ioremap_def plx_add_a_lut_entry_def Let_def
      split: if_splits option.splits sum.splits prod.splits add_rc.splits)

lemma fold_write_base:
  "a_lut_array_base (fold (\<lambda>i d. plx_mmio_write v (f i d) d) is l) = a_lut_array_base l"
  by (induction "is" arbitrary: l) simp_all

lemma iounmap_base:
  assumes "plx_iounmap l va = Some l'"
  shows "a_lut_array_base l' = a_lut_array_base l"
  using assms by (auto simp: plx_iounmap_def plx_del_a_lut_entry_def Let_def fold_write_base
      split: if_splits option.splits sum.splits prod.splits)

text \<open>A chunk that was sent is in the memory of the card, and its mapping is gone.\<close>

lemma send_chunk:
  assumes J: "client_inv (dev_lut d) held" "length held < 65534" and n: "chunk \<noteq> []" "length chunk < 2 ^ 64"
  shows "\<exists>ok l m. lbp_send_chunk k ph off chunk d = Some (ok, d\<lparr>dev_lut := l, card_mem := m\<rparr>) \<and>
    client_inv l held \<and> a_lut_array_base l = a_lut_array_base (dev_lut d) \<and>
    (ok \<longrightarrow> m = patch (ph + word_of_nat off) chunk (card_mem d))"
proof (cases "copy_user_ok k off")
  case False
  then show ?thesis
    using J by (intro exI [of _ False] exI [of _ "dev_lut d"] exI [of _ "card_mem d"]) (simp add: lbp_send_chunk_def)
next
  case True
  let ?pa = "ph + word_of_nat off" and ?len = "word_of_nat (length chunk) :: u64"
  obtain r l where l: "plx_ioremap (dev_lut d) ?pa ?len = Some (r, l)"
    "client_inv l (case r of None \<Rightarrow> held | Some va \<Rightarrow> (va, ?pa, ?len) # held)"
    using client_inv_map [OF J, of ?pa ?len] by blast
  note b = ioremap_base [OF l(1)]
  show ?thesis
  proof (cases r)
    case None
    then show ?thesis
      using True l b by (intro exI [of _ False] exI [of _ l] exI [of _ "card_mem d"]) (simp add: lbp_send_chunk_def)
  next
    case (Some va)
    let ?d1 = "d\<lparr>dev_lut := l\<rparr>"
    from l(2) Some have J1: "client_inv l ((va, ?pa, ?len) # held)" by simp
    then obtain g v n c where g: "groups (entries (a_lut_manager l)) g = Some (v, n, c)" "serves l g v n (va, ?pa, ?len)"
      "lut_inv l" "a_lut l" by (auto simp: client_inv_def)
    have len: "unat ?len = length chunk" using n(2) by (simp add: unsigned_of_nat take_bit_nat_eq_self)
    have st: "aper_store ?d1 (va - aper_va l) chunk (card_mem ?d1) = patch ?pa chunk (card_mem d)"
      using aper_store_patch [OF _ n(2), of ?d1 "va - aper_va l" ?pa] serves_translates [OF g(3,1,2)] len g(4)
      by (simp add: aper_addr_def)
    obtain l' where l': "plx_iounmap l va = Some l'" "client_inv l' held"
      using client_inv_del [OF J1, of 0] by auto
    have fin: "lbp_send_chunk k ph off chunk d =
       (let (ok, mem) = (if has_dma d then (case dma_fails k off of
            None \<Rightarrow> (True, patch ?pa chunk (card_mem d)) | Some f \<Rightarrow> (False, f (card_mem d)))
          else (True, patch ?pa chunk (card_mem d))) in Some (ok, d\<lparr>dev_lut := l', card_mem := mem\<rparr>))"
      using True l(1) Some l'(1) st by (simp add: lbp_send_chunk_def Let_def split: option.splits prod.splits)
    show ?thesis
    proof (cases "has_dma d \<and> dma_fails k off \<noteq> None")
      case True
      then obtain f where "dma_fails k off = Some f" "has_dma d" by auto
      then show ?thesis
        using fin l'(2) b iounmap_base [OF l'(1)]
        by (intro exI [of _ False] exI [of _ l'] exI [of _ "f (card_mem d)"]) simp
    next
      case False
      then show ?thesis
        using fin l'(2) b iounmap_base [OF l'(1)]
        by (intro exI [of _ True] exI [of _ l'] exI [of _ "patch ?pa chunk (card_mem d)"]) auto
    qed
  qed
qed

lemma send_loop:
  assumes "client_inv (dev_lut d) held" "length held < 65534" "length img < 2 ^ 64" "buf \<noteq> 0"
  shows "\<exists>ok l m. lbp_send_loop k ph buf img off d = Some (ok, d\<lparr>dev_lut := l, card_mem := m\<rparr>) \<and>
    client_inv l held \<and> a_lut_array_base l = a_lut_array_base (dev_lut d) \<and>
    (ok \<longrightarrow> m = patch (ph + word_of_nat off) (drop off img) (card_mem d))"
  using assms
proof (induction "length img - off" arbitrary: off d rule: less_induct)
  case less
  note 1 = less.hyps less.prems
  show ?case
  proof (cases "length img \<le> off")
    case True
    then show ?thesis
      using 1(2-) by (intro exI [of _ True] exI [of _ "dev_lut d"] exI [of _ "card_mem d"])
        (simp add: lbp_send_loop.simps [of k ph buf img off d] patch_def)
  next
    case False
    note inside = False
    define chunk where "chunk = take (min buf (length img - off)) (drop off img)"
    have len: "length chunk = min buf (length img - off)" by (simp add: chunk_def)
    have n: "chunk \<noteq> []" "length chunk < 2 ^ 64" using False 1(4,5) len by auto
    obtain ok l m where c: "lbp_send_chunk k ph off chunk d = Some (ok, d\<lparr>dev_lut := l, card_mem := m\<rparr>)"
      "client_inv l held" "a_lut_array_base l = a_lut_array_base (dev_lut d)"
      "ok \<Longrightarrow> m = patch (ph + word_of_nat off) chunk (card_mem d)"
      using send_chunk [OF 1(2,3) n, of k ph off] by metis
    let ?d = "d\<lparr>dev_lut := l, card_mem := m\<rparr>"
    have eq: "lbp_send_loop k ph buf img off d =
      (if ok then lbp_send_loop k ph buf img (off + length chunk) ?d else Some (False, ?d))"
      using False 1(5) c(1) lbp_send_loop.simps [of k ph buf img off d]
      by (simp add: chunk_def [symmetric] split: bool.splits)
    show ?thesis
    proof (cases ok)
      case False
      then show ?thesis using eq c by (intro exI [of _ False] exI [of _ l] exI [of _ m]) simp
    next
      case True
      have ih: "\<exists>ok l' m'. lbp_send_loop k ph buf img (off + length chunk) ?d = Some (ok, ?d\<lparr>dev_lut := l', card_mem := m'\<rparr>) \<and>
         client_inv l' held \<and> a_lut_array_base l' = a_lut_array_base l \<and>
         (ok \<longrightarrow> m' = patch (ph + word_of_nat (off + length chunk)) (drop (off + length chunk) img) m)"
        using less.hyps [of "off + length chunk" ?d] c(2) 1(3-5) len inside n(1) by simp
      have "patch (ph + word_of_nat (off + length chunk)) (drop (off + length chunk) img) m =
          patch (ph + word_of_nat off) (chunk @ drop (off + length chunk) img) (card_mem d)"
        using patch_append [of chunk "drop (off + length chunk) img" "ph + word_of_nat off" "card_mem d"]
          c(4) [OF True] len 1(4) inside by (simp add: ac_simps)
      also have "chunk @ drop (off + length chunk) img = drop off img"
        using append_take_drop_id [of "length chunk" "drop off img"] len by (simp add: chunk_def add.commute)
      finally show ?thesis using ih eq True c(3) by auto
    qed
  qed
qed

text \<open>The request for memory that the host makes for an image, and the address the card answers.\<close>

definition ramdisk_request :: "u8 list \<Rightarrow> plx_device \<Rightarrow> plx_device" where
  "ramdisk_request img d =
     lbp_issue_cmd (i7_cmd_value PLX_LBP_CMD_MAP_RAMDISK 1)
       (plx_write_spad PLX_LBP_SPAD_DATA_HIGH 0
         (plx_write_spad PLX_LBP_SPAD_DATA_LOW (word_of_nat ((length img + 1024 * 1024 - 1) div (1024 * 1024)))
           (plx_a_lut_peer_enable d)))"

definition ramdisk_addr :: "plx_device \<Rightarrow> u64" where
  "ramdisk_addr d = push_bit 32 (ucast (plx_read_spad d PLX_LBP_SPAD_DATA_HIGH)) +
     ucast (plx_read_spad d PLX_LBP_SPAD_DATA_LOW)"

lemma peer_enable_step:
  assumes "regs_high d"
  shows "lbp_step d (plx_a_lut_peer_enable d)"
  unfolding plx_a_lut_peer_enable_def
  by (rule write_step) (use assms in \<open>auto simp: regs_high_def PLX_A_LUT_CONTROL_def\<close>)

lemma write_spad_log [simp]: "cmd_log (plx_write_spad i v d) = cmd_log d"
  by (simp add: plx_write_spad_def dev_mmio_write_def)

lemma issue_log [simp]: "cmd_log (lbp_issue_cmd v d) = cmd_log d @ [v]"
  by (simp add: lbp_issue_cmd_def)

lemma request_step:
  assumes "regs_high d"
  shows "lbp_step d (ramdisk_request img d)" "cmd_log (ramdisk_request img d) =
    cmd_log d @ [i7_cmd_value PLX_LBP_CMD_MAP_RAMDISK 1]"
proof -
  let ?w = "word_of_nat ((length img + 1024 * 1024 - 1) div (1024 * 1024))"
  let ?a = "plx_a_lut_peer_enable d"
  let ?b = "plx_write_spad PLX_LBP_SPAD_DATA_LOW ?w ?a"
  let ?c = "plx_write_spad PLX_LBP_SPAD_DATA_HIGH 0 ?b"
  have a: "lbp_step d ?a" by (rule peer_enable_step [OF assms])
  have b: "lbp_step ?a ?b"
    by (rule spad_step) (use lbp_step_fields(8) [OF a] assms in \<open>simp_all add: PLX_LBP_SPAD_DATA_LOW_def\<close>)
  note ab = lbp_step_trans [OF a b]
  have c: "lbp_step ?b ?c"
    by (rule spad_step) (use lbp_step_fields(8) [OF ab] assms in \<open>simp_all add: PLX_LBP_SPAD_DATA_HIGH_def\<close>)
  note ac = lbp_step_trans [OF ab c]
  show "lbp_step d (ramdisk_request img d)"
    unfolding ramdisk_request_def
    by (rule lbp_step_trans [OF ac issue_step]) (use lbp_step_fields(8) [OF ac] assms in simp)
  show "cmd_log (ramdisk_request img d) = cmd_log d @ [i7_cmd_value PLX_LBP_CMD_MAP_RAMDISK 1]"
    by (simp add: ramdisk_request_def plx_a_lut_peer_enable_def dev_mmio_write_def)
qed

text \<open>What sending an image comes to; everything but the image and the log of commands is as before.\<close>

definition image_sent :: "card_fn \<Rightarrow> u8 list \<Rightarrow> plx_device \<Rightarrow> plx_device \<Rightarrow> bool" where
  "image_sent crd img d d' \<longleftrightarrow> (\<exists>ready d3.
     plx_lbp_wait_for_i7_state crd (PLX_LBP_i7_DONE OR PLX_LBP_i7_ANY_ERROR) (i7_alloc_timeout_ms d)
       (ramdisk_request img d) = (Inr ready, d3) \<and> ready AND PLX_LBP_i7_ANY_ERROR = 0 \<and>
     card_mem d' = patch (ramdisk_addr d3) img (card_mem d) \<and>
     cmd_log d' = cmd_log d @ [i7_cmd_value PLX_LBP_CMD_MAP_RAMDISK 1])"

definition lbp_ready :: "card_fn \<Rightarrow> mapping list \<Rightarrow> plx_device \<Rightarrow> bool" where
  "lbp_ready crd held d \<longleftrightarrow> card_keeps_tables crd \<and> client_inv (dev_lut d) held \<and> length held < 65534 \<and>
     regs_high d \<and> tables_low (dev_lut d)"

lemma lbp_ready_step: "lbp_ready crd held d \<Longrightarrow> lbp_step d d' \<Longrightarrow> lbp_ready crd held d'"
  using client_inv_step lbp_step_fields(8,13) by (auto simp: lbp_ready_def)

lemma lbp_ready_fields [simp]:
  "lbp_ready crd held (d\<lparr>lbp_locked := b\<rparr>) = lbp_ready crd held d"
  "lbp_ready crd held (d\<lparr>has_dma := b\<rparr>) = lbp_ready crd held d"
  "lbp_ready crd held (d\<lparr>card_mem := m\<rparr>) = lbp_ready crd held d"
  by (simp_all add: lbp_ready_def regs_high_def)

lemma send_ramdisk:
  assumes R: "lbp_ready crd held d" and len: "length img < 2 ^ 64"
  shows "\<exists>r d'. plx_lbp_send_ramdisk crd k img d = Some (r, d') \<and> lbp_ready crd held d' \<and>
    lbp_locked d' = lbp_locked d \<and> i7_cmd_timeout_ms d' = i7_cmd_timeout_ms d \<and> (r = LBP_STATE_OK \<longrightarrow> image_sent crd img d d')"
proof -
  have J: "a_lut (dev_lut d)" "regs_high d" "card_keeps_tables crd"
    using R by (auto simp: lbp_ready_def client_inv_def)
  let ?d1 = "plx_a_lut_peer_enable d"
  have st1: "lbp_step d ?d1" by (rule peer_enable_step [OF J(2)])
  note r1 = lbp_ready_step [OF R st1] and f1 = lbp_step_fields [OF st1]
  let ?stop = "i7_ready (plx_lbp_get_i7_status ?d1) \<noteq> PLX_LBP_i7_READY \<or> \<not> big_buffer k \<and> \<not> page_buffer k \<or>
      has_dma ?d1 \<and> \<not> dma_map_ok k"
  show ?thesis
  proof (cases ?stop)
    case True
    then have "plx_lbp_send_ramdisk crd k img d = Some (LBP_INTERNAL_ERROR, ?d1)"
      using J(1) by (auto simp: plx_lbp_send_ramdisk_def Let_def)
    then show ?thesis using r1 f1 by (simp add: lbp_retvals)
  next
    case False
    let ?buf = "if big_buffer k then LBP_DMA_BUFFER_SIZE else PAGE_SIZE"
    obtain w d3 where w: "plx_lbp_wait_for_i7_state crd (PLX_LBP_i7_DONE OR PLX_LBP_i7_ANY_ERROR)
        (i7_alloc_timeout_ms d) (ramdisk_request img d) = (w, d3)" by fastforce
    note rq = request_step [OF J(2), of img]
    note w3 = wait_state_step [OF J(3) w]
    note st3 = lbp_step_trans [OF rq(1) w3(1)]
    note r3 = lbp_ready_step [OF R st3] and f3 = lbp_step_fields [OF st3]
    have eq: "plx_lbp_send_ramdisk crd k img d =
       (case w of Inl e \<Rightarrow> Some (LBP_ALLOC_TIMEOUT, d3)
        | Inr ready \<Rightarrow> if ready AND PLX_LBP_i7_ANY_ERROR \<noteq> 0 then Some (LBP_INTERNAL_ERROR, d3)
          else case lbp_send_loop k (ramdisk_addr d3) ?buf img 0 d3 of None \<Rightarrow> None
            | Some (ok, d4) \<Rightarrow> Some (if ok then LBP_STATE_OK else LBP_INTERNAL_ERROR, d4))"
      using False J(1) w lbp_step_fields(7) [OF rq(1)]
      by (cases w; cases "big_buffer k"; cases "has_dma ?d1")
        (simp_all add: plx_lbp_send_ramdisk_def Let_def ramdisk_request_def ramdisk_addr_def)
    show ?thesis
    proof (cases "\<exists>ready. w = Inr ready \<and> ready AND PLX_LBP_i7_ANY_ERROR = 0")
      case False
      then have "plx_lbp_send_ramdisk crd k img d \<in> {Some (LBP_ALLOC_TIMEOUT, d3), Some (LBP_INTERNAL_ERROR, d3)}"
        using eq by (cases w) auto
      then show ?thesis using r3 f3 by (auto simp: lbp_retvals)
    next
      case True
      then obtain ready where ready: "w = Inr ready" "ready AND PLX_LBP_i7_ANY_ERROR = 0" by blast
      have "?buf \<noteq> 0" by (simp add: LBP_DMA_BUFFER_SIZE_def PAGE_SIZE_def)
      from send_loop [OF _ _ len this, of d3 held k "ramdisk_addr d3" 0] r3
      obtain ok l m where lp: "lbp_send_loop k (ramdisk_addr d3) ?buf img 0 d3 = Some (ok, d3\<lparr>dev_lut := l, card_mem := m\<rparr>)"
        "client_inv l held" "a_lut_array_base l = a_lut_array_base (dev_lut d3)"
        "ok \<longrightarrow> m = patch (ramdisk_addr d3) img (card_mem d3)"
        by (auto simp: lbp_ready_def)
      let ?d4 = "d3\<lparr>dev_lut := l, card_mem := m\<rparr>"
      have "lbp_ready crd held ?d4" using r3 lp(2,3) by (simp add: lbp_ready_def regs_high_def tables_low_def)
      moreover have "ok \<longrightarrow> image_sent crd img d ?d4"
        unfolding image_sent_def using w ready lp(4) f3(5) w3(2) rq(2) by auto
      ultimately show ?thesis using eq ready lp(1) f3(3,6) by (cases ok) (simp_all add: lbp_retvals)
    qed
  qed
qed

section \<open>Booting\<close>

lemma then_write_step: "0x3ca00 \<le> off \<Longrightarrow> lbp_step d e \<Longrightarrow> lbp_step d (dev_mmio_write v off e)"
  using lbp_step_trans write_step by blast

lemma rid_lut_step:
  shows "lbp_step d (snd (plx_program_rid_lut_for_node d))"
    and "cmd_log (snd (plx_program_rid_lut_for_node d)) = cmd_log d"
proof -
  define off where "off = (if port_id d = 0 then PLX_NT0_RID_LUT_LINK_OFFSET else PLX_NT1_RID_LUT_LINK_OFFSET)"
  have off: "0x3ca00 \<le> off" "0x3ca00 \<le> off + 4"
    by (simp_all add: off_def PLX_NT0_RID_LUT_LINK_OFFSET_def PLX_NT1_RID_LUT_LINK_OFFSET_def)
  show "lbp_step d (snd (plx_program_rid_lut_for_node d))"
    unfolding plx_program_rid_lut_for_node_def off_def [symmetric] Let_def
    by (cases "link_side d"; cases "rid_lut_node_side (card_type d)")
      (auto intro!: then_write_step off lbp_step_refl)
  show "cmd_log (snd (plx_program_rid_lut_for_node d)) = cmd_log d"
    by (auto simp: plx_program_rid_lut_for_node_def Let_def dev_mmio_write_def split: option.splits)
qed

text \<open>The device when a boot operation has programmed the requester ids and taken the mutex.\<close>

abbreviation boot_locked :: "bool \<Rightarrow> plx_device \<Rightarrow> plx_device" where
  "boot_locked dma_avail d \<equiv> (snd (lbp_prepare_boot dma_avail d))\<lparr>lbp_locked := True\<rparr>"

lemma prepare_boot:
  assumes "lbp_ready crd held d"
  shows "lbp_ready crd held (snd (lbp_prepare_boot dma d))"
    and "lbp_locked (snd (lbp_prepare_boot dma d)) = lbp_locked d"
    and "card_mem (snd (lbp_prepare_boot dma d)) = card_mem d"
    and "cmd_log (snd (lbp_prepare_boot dma d)) = cmd_log d"
    and "i7_cmd_timeout_ms (snd (lbp_prepare_boot dma d)) = i7_cmd_timeout_ms d"
proof -
  let ?d = "d\<lparr>has_dma := has_dma d \<or> dma\<rparr>"
  have R: "lbp_ready crd held ?d" using assms by simp
  note s = rid_lut_step [of ?d]
  show "lbp_ready crd held (snd (lbp_prepare_boot dma d))"
    using lbp_ready_step [OF R s(1)] by (simp add: lbp_prepare_boot_def)
  show "lbp_locked (snd (lbp_prepare_boot dma d)) = lbp_locked d"
    "card_mem (snd (lbp_prepare_boot dma d)) = card_mem d"
    "cmd_log (snd (lbp_prepare_boot dma d)) = cmd_log d"
    "i7_cmd_timeout_ms (snd (lbp_prepare_boot dma d)) = i7_cmd_timeout_ms d"
    using lbp_step_fields(3,5,6) [OF s(1)] s(2) by (simp_all add: lbp_prepare_boot_def)
qed

lemma unlock_fields [simp]:
  "\<not> lbp_locked (lbp_unlock d)" "card_mem (lbp_unlock d) = card_mem d" "cmd_log (lbp_unlock d) = cmd_log d"
  "lbp_ready crd held (lbp_unlock d) = lbp_ready crd held d"
  "plx_lbp_get_i7_status (lbp_unlock d) = plx_lbp_get_i7_status d"
  by (simp_all add: lbp_unlock_def plx_lbp_get_i7_status_def plx_read_spad_def spad_off_def)

text \<open>A command, and the wait for one of the states \<open>good\<close> or an error.\<close>

lemma cmd_wait:
  assumes R: "lbp_ready crd held d" and w: "plx_lbp_wait_for_i7_state crd st to (lbp_issue_cmd c d) = (r, d')"
  shows "lbp_ready crd held d'" "lbp_locked d' = lbp_locked d" "card_mem d' = card_mem d"
    "cmd_log d' = cmd_log d @ [c]"
proof -
  have h: "regs_high d" "card_keeps_tables crd" using R by (simp_all add: lbp_ready_def)
  note s = lbp_step_trans [OF issue_step [OF h(1), of c] wait_state_step(1) [OF h(2) w]]
  show "lbp_ready crd held d'" by (rule lbp_ready_step [OF R s])
  show "lbp_locked d' = lbp_locked d" "card_mem d' = card_mem d" using lbp_step_fields [OF s] by simp_all
  show "cmd_log d' = cmd_log d @ [c]" using wait_state_step(2) [OF h(2) w] by simp
qed

lemma wait_state_ready:
  assumes "plx_lbp_wait_for_i7_state crd st to d = (Inr ready, d')" "st \<noteq> 0"
  shows "ready = i7_ready (plx_lbp_get_i7_status d')" "ready AND st \<noteq> 0"
  using wait_event_True [of crd _ "unat to" d d'] assms
  by (auto simp: plx_lbp_wait_for_i7_state_def Let_def split: prod.splits bool.splits)

lemma boot_ramdisk_run:
  assumes "lbp_ready crd held d" "length img < 2 ^ 64" "\<not> lbp_locked d"
  shows "\<exists>r d'. plx_lbp_boot_ramdisk crd k dma img d = Some (r, d') \<and> \<not> lbp_locked d' \<and>
    client_inv (dev_lut d') held \<and>
    (r = LBP_STATE_OK \<longrightarrow>
      (\<exists>ready d3. plx_lbp_wait_for_i7_state crd (PLX_LBP_i7_DONE OR PLX_LBP_i7_ANY_ERROR)
          (i7_alloc_timeout_ms (boot_locked dma d)) (ramdisk_request img (boot_locked dma d)) = (Inr ready, d3) \<and>
        ready AND PLX_LBP_i7_ANY_ERROR = 0 \<and> card_mem d' = patch (ramdisk_addr d3) img (card_mem d)) \<and>
      cmd_log d' = cmd_log d @ [i7_cmd_value PLX_LBP_CMD_MAP_RAMDISK 1, i7_cmd_value PLX_LBP_CMD_BOOT_RAMDISK 0] \<and>
      i7_ready (plx_lbp_get_i7_status d') AND (PLX_LBP_i7_BOOTING OR PLX_LBP_i7_OS_READY) \<noteq> 0)"
proof -
  obtain rc d0 where rc: "lbp_prepare_boot dma d = (rc, d0)" by fastforce
  have s0: "snd (lbp_prepare_boot dma d) = d0" using rc by simp
  let ?d1 = "d0\<lparr>lbp_locked := True\<rparr>"
  note p = prepare_boot [OF assms(1), of dma, unfolded s0]
  have R1: "lbp_ready crd held ?d1" using p(1) by simp
  obtain r2 d2 where d2: "plx_lbp_send_ramdisk crd k img ?d1 = Some (r2, d2)" "lbp_ready crd held d2"
    "r2 = LBP_STATE_OK \<Longrightarrow> image_sent crd img ?d1 d2"
    using send_ramdisk [OF R1 assms(2), of k] by metis
  let ?states = "PLX_LBP_i7_BOOTING OR PLX_LBP_i7_OS_READY OR PLX_LBP_i7_ANY_ERROR"
  obtain w d3 where w: "plx_lbp_wait_for_i7_state crd ?states (i7_cmd_timeout_ms d2)
      (lbp_issue_cmd (i7_cmd_value PLX_LBP_CMD_BOOT_RAMDISK 0) d2) = (w, d3)" by fastforce
  note c = cmd_wait [OF d2(2) w]
  have J: "client_inv (dev_lut e) held" if "lbp_ready crd held e" for e using that by (simp add: lbp_ready_def)
  have lk: "lbp_take_lock d0 = Some ?d1" using p(2) assms(3) by (simp add: lbp_take_lock_def)
  consider (rid) "rc \<noteq> 0" | (send) "rc = 0" "r2 \<noteq> LBP_STATE_OK"
    | (fail) e where "rc = 0" "r2 = LBP_STATE_OK" "w = Inl e"
    | (error) ready where "rc = 0" "r2 = LBP_STATE_OK" "w = Inr ready" "ready AND PLX_LBP_i7_ANY_ERROR \<noteq> 0"
    | (ok) ready where "rc = 0" "r2 = LBP_STATE_OK" "w = Inr ready" "ready AND PLX_LBP_i7_ANY_ERROR = 0"
    by (cases w) auto
  then show ?thesis
  proof cases
    case rid
    then show ?thesis using rc p(1,2) assms(3) J by (simp add: plx_lbp_boot_ramdisk_def lbp_retvals)
  next
    case send
    then show ?thesis using rc lk d2(1) J [of "lbp_unlock d2"] d2(2) by (simp add: plx_lbp_boot_ramdisk_def lbp_retvals)
  next
    case fail
    then show ?thesis using rc lk d2(1) w J [of "lbp_unlock d3"] c(1) by (simp add: plx_lbp_boot_ramdisk_def lbp_retvals)
  next
    case error
    then show ?thesis using rc lk d2(1) w J [of "lbp_unlock d3"] c(1) by (simp add: plx_lbp_boot_ramdisk_def lbp_retvals)
  next
    case ok
    then have run: "plx_lbp_boot_ramdisk crd k dma img d = Some (LBP_STATE_OK, lbp_unlock d3)"
      using rc lk d2(1) w by (simp add: plx_lbp_boot_ramdisk_def)
    have s: "image_sent crd img ?d1 d2" by (rule d2(3) [OF ok(2)])
    have "?states \<noteq> 0" by (simp add: i7_states)
    note rd = wait_state_ready [OF w [unfolded ok(3)] this]
    have "i7_ready (plx_lbp_get_i7_status d3) AND (PLX_LBP_i7_BOOTING OR PLX_LBP_i7_OS_READY) \<noteq> 0"
      using rd ok(4) by (simp add: bit.conj_disj_distrib)
    then show ?thesis using run s c J [of "lbp_unlock d3"] p(3,4) unfolding image_sent_def s0 by auto
  qed
qed

text \<open>
  C3: Booting from a RAM disk returns in every case, with the mutex free and with the mappings that
  others hold intact. When it reports success, the card has answered the request for memory without
  an error, the whole image is in its memory at the address it gave, nothing else of the memory has
  changed, the commands issued are the request and the boot command in this order, and the card is
  booting or has booted.
\<close>
theorem boot_ramdisk_sound:
  assumes "lbp_ready crd held d" "length img < 2 ^ 64" "\<not> lbp_locked d"
  shows "\<exists>r d'. plx_lbp_boot_ramdisk crd k dma img d = Some (r, d') \<and> \<not> lbp_locked d' \<and>
    client_inv (dev_lut d') held \<and>
    (r = LBP_STATE_OK \<longrightarrow>
      (\<exists>ready d3. plx_lbp_wait_for_i7_state crd (PLX_LBP_i7_DONE OR PLX_LBP_i7_ANY_ERROR)
          (i7_alloc_timeout_ms (boot_locked dma d)) (ramdisk_request img (boot_locked dma d)) = (Inr ready, d3) \<and>
        ready AND PLX_LBP_i7_ANY_ERROR = 0 \<and> card_mem d' = patch (ramdisk_addr d3) img (card_mem d)) \<and>
      cmd_log d' = cmd_log d @ [i7_cmd_value PLX_LBP_CMD_MAP_RAMDISK 1, i7_cmd_value PLX_LBP_CMD_BOOT_RAMDISK 0] \<and>
      i7_ready (plx_lbp_get_i7_status d') AND (PLX_LBP_i7_BOOTING OR PLX_LBP_i7_OS_READY) \<noteq> 0)"
  using assms by (rule boot_ramdisk_run)

text \<open>A card that is ready, gives memory at \<open>0x5ffe\<close> when asked for it, and then boots.\<close>

definition boot_dev :: plx_device where
  "boot_dev = example_dev\<lparr>dev_lut := lut_sample\<lparr>mmio := (\<lambda>_. 0)(0x3EC74 := 2)\<rparr>\<rparr>"

definition boot_card :: card_fn where
  "boot_card t r = (if t = 0 then r(0x3EC74 := 0x20, 0x3EC80 := 0x5ffe) else r(0x3EC74 := 8))"

definition boot_kernel :: lbp_kernel where
  "boot_kernel = \<lparr>big_buffer = False, page_buffer = True, dma_map_ok = True, copy_user_ok = (\<lambda>_. True), dma_fails = (\<lambda>_. None)\<rparr>"

lemma boot_dev_ready: "lbp_ready boot_card [] boot_dev"
proof -
  have low: "tables_low (dev_lut boot_dev)"
  proof (clarsimp simp: tables_low_def boot_dev_def lut_sample_def)
    fix i :: nat and s assume i: "i < 256" "s \<in> lut_sub"
    then have b: "lut_pos i + s < 0x1a00" by (auto simp: lut_pos_def lut_sub_def)
    have "0x10000 + plx_get_a_lut_entry_offset (word_of_nat i) + word_of_nat s = (word_of_nat (0x10000 + lut_pos i + s) :: u32)"
      by (simp add: entry_offset_pos [OF i(1)])
    then show "0x10000 + plx_get_a_lut_entry_offset (word_of_nat i) + word_of_nat s < (0x3ca00 :: u32)"
      using b by (simp add: word_less_nat_alt unsigned_of_nat take_bit_nat_eq_self del: of_nat_add)
  qed
  have "client_inv lut_sample []" using lut_sample_ok by (simp add: client_inv_def)
  moreover have "tables_low lut_sample" using low by (simp add: tables_low_def boot_dev_def)
  moreover have "((\<lambda>_. 0)(0x3EC74 := 2)) x = mmio lut_sample x" if "x < 0x3ca00" for x :: u32
    using that by (auto simp: lut_sample_def)
  ultimately have "client_inv (dev_lut boot_dev) []"
    using client_inv_regs [of lut_sample "[]"] by (simp add: boot_dev_def)
  with low show ?thesis
    by (auto simp: lbp_ready_def card_keeps_tables_def boot_card_def regs_high_def boot_dev_def example_dev_def)
qed

lemma wait_state_now:
  assumes "state \<noteq> 0" "timeout \<noteq> 0" "i7_ready (plx_lbp_get_i7_status (lbp_msleep crd d)) AND state \<noteq> 0"
  shows "plx_lbp_wait_for_i7_state crd state timeout d =
    (Inr (i7_ready (plx_lbp_get_i7_status (lbp_msleep crd d))), lbp_msleep crd d)"
proof -
  obtain n where "unat timeout = Suc n" using assms(2) by (cases "unat timeout") (auto simp: unat_eq_zero)
  then show ?thesis using assms by (simp add: plx_lbp_wait_for_i7_state_def Let_def)
qed

lemma send_chunk_ok:
  assumes "client_inv (dev_lut d) held" "length held < 65534" "copy_user_ok k off" "\<not> has_dma d"
    and "plx_alm_add_entry (a_lut_manager (dev_lut d)) (ph + word_of_nat off) (word_of_nat (length chunk)) = Some (Inr x, m)"
  shows "\<exists>d'. lbp_send_chunk k ph off chunk d = Some (True, d')"
proof -
  let ?pa = "ph + word_of_nat off" and ?len = "word_of_nat (length chunk) :: u64"
  have "a_lut (dev_lut d)" using assms(1) by (simp add: client_inv_def)
  then obtain va l where l: "plx_ioremap (dev_lut d) ?pa ?len = Some (Some va, l)"
    using assms(5) by (cases x) (auto simp: plx_ioremap_def plx_add_a_lut_entry_def Let_def)
  then have "client_inv l ((va, ?pa, ?len) # held)" using client_inv_map [OF assms(1,2), of ?pa ?len] by auto
  from client_inv_del [OF this, of 0] obtain l' where "plx_iounmap l va = Some l'" by auto
  then show ?thesis using l assms(3,4) by (simp add: lbp_send_chunk_def Let_def)
qed

lemmas boot_device = lbp_prepare_boot_def plx_program_rid_lut_for_node_def boot_dev_def example_dev_def
  rid_lut_node_side_def card_types Let_def PLX_NT0_RID_LUT_LINK_OFFSET_def plx_rid_lut_def plx_rid_lut_dma_def
  PLX_RID_LUT_ENABLE_def PLX_RID_LUT_ENABLE_1_def

lemmas boot_registers = plx_a_lut_peer_enable_def plx_lbp_get_i7_status_def plx_read_spad_def plx_write_spad_def
  spad_off_def PLX_SPAD0_def PLX_LBP_SPAD_i7_READY_def PLX_LBP_SPAD_DATA_LOW_def PLX_LBP_SPAD_DATA_HIGH_def
  PLX_LBP_SPAD_i7_CMD_def PLX_A_LUT_CONTROL_def plx_mmio_read_def dev_mmio_write_def plx_mmio_write_def

lemma boot_reads:
  "fst (lbp_prepare_boot False boot_dev) = 0" "\<not> has_dma (boot_locked False boot_dev)"
  "clock (boot_locked False boot_dev) = 0" "reg_base (boot_locked False boot_dev) = 0x3E000"
  "i7_alloc_timeout_ms (boot_locked False boot_dev) = 1000" "a_lut (dev_lut (boot_locked False boot_dev))"
  "i7_cmd_timeout_ms (boot_locked False boot_dev) = 100"
  "a_lut_manager (dev_lut (boot_locked False boot_dev)) = alm_sample"
  "i7_ready (plx_lbp_get_i7_status (plx_a_lut_peer_enable (boot_locked False boot_dev))) = PLX_LBP_i7_READY"
  "lbp_take_lock (snd (lbp_prepare_boot False boot_dev)) = Some (boot_locked False boot_dev)"
  by (simp_all add: boot_device boot_registers i7_ready_def PLX_LBP_i7_READY_def lut_sample_def lbp_take_lock_def)

lemma boot_answers:
  assumes "reg_base d = 0x3E000"
  shows "i7_ready (plx_lbp_get_i7_status (lbp_msleep boot_card d)) = (if clock d = 0 then 0x20 else 8)"
    and "clock d = 0 \<Longrightarrow> plx_read_spad d PLX_LBP_SPAD_DATA_HIGH = 0 \<Longrightarrow> ramdisk_addr (lbp_msleep boot_card d) = 0x5ffe"
  using assms by (simp_all add: lbp_msleep_def set_regs_def boot_card_def boot_registers i7_ready_def ramdisk_addr_def)

lemma boot_room: "\<exists>x m. plx_alm_add_entry alm_sample 0x5ffe 3 = Some (Inr x, m)"
proof -
  have "case plx_alm_add_entry alm_sample 0x5ffe 3 of Some (Inr x, m) \<Rightarrow> True | _ \<Rightarrow> False" by code_simp
  then show ?thesis by (auto split: option.splits sum.splits)
qed

lemma boot_dev_sends:
  "\<exists>d'. plx_lbp_send_ramdisk boot_card boot_kernel [1, 2, 3] (boot_locked False boot_dev) = Some (LBP_STATE_OK, d') \<and>
     reg_base d' = 0x3E000 \<and> clock d' \<noteq> 0 \<and> i7_cmd_timeout_ms d' = 100"
proof -
  let ?d1 = "boot_locked False boot_dev" and ?img = "[1, 2, 3] :: u8 list"
  let ?d2 = "ramdisk_request ?img ?d1"
  let ?d3 = "lbp_msleep boot_card ?d2"
  have R: "lbp_ready boot_card [] ?d1" using prepare_boot(1) [OF boot_dev_ready, of False] by simp
  then have h: "regs_high ?d1" "card_keeps_tables boot_card" by (simp_all add: lbp_ready_def)
  note s2 = request_step(1) [OF h(1), of ?img]
  note s3 = lbp_step_trans [OF s2 msleep_step [OF h(2)]]
  note R3 = lbp_ready_step [OF R s3] and f2 = lbp_step_fields [OF s2] and f3 = lbp_step_fields [OF s3]
  have c2: "clock ?d2 = 0" "reg_base ?d2 = 0x3E000" "plx_read_spad ?d2 PLX_LBP_SPAD_DATA_HIGH = 0"
    using boot_reads(3,4) f2(1) by (simp_all add: ramdisk_request_def lbp_issue_cmd_def boot_registers)
  note an = boot_answers [OF c2(2)]
  have w: "plx_lbp_wait_for_i7_state boot_card (PLX_LBP_i7_DONE OR PLX_LBP_i7_ANY_ERROR) 1000 ?d2 = (Inr 0x20, ?d3)"
    by (subst wait_state_now) (use an c2(1) in \<open>simp_all add: i7_states\<close>)
  obtain x m where "plx_alm_add_entry alm_sample 0x5ffe 3 = Some (Inr x, m)" using boot_room by blast
  then obtain d4 where d4: "lbp_send_chunk boot_kernel 0x5ffe 0 ?img ?d3 = Some (True, d4)"
    using send_chunk_ok [of ?d3 "[]" boot_kernel 0 "0x5ffe" ?img] R3 f3(4,12) boot_reads(2,8)
    by (auto simp: lbp_ready_def boot_kernel_def)
  obtain l c where d4': "d4 = ?d3\<lparr>dev_lut := l, card_mem := c\<rparr>"
    using send_chunk [of ?d3 "[]" ?img boot_kernel "0x5ffe" 0] R3 d4 by (auto simp: lbp_ready_def)
  have "lbp_send_loop boot_kernel 0x5ffe PAGE_SIZE ?img 0 ?d3 = Some (True, d4)"
    using d4 by (simp add: lbp_send_loop.simps PAGE_SIZE_def)
  then have "plx_lbp_send_ramdisk boot_card boot_kernel ?img ?d1 = Some (LBP_STATE_OK, d4)"
    using w boot_reads(2,5,6,9) an(2) [OF c2(1,3)] f2(7) lbp_step_fields(4) [OF peer_enable_step [OF h(1)]]
    by (simp add: plx_lbp_send_ramdisk_def Let_def ramdisk_request_def ramdisk_addr_def boot_kernel_def i7_states)
  then show ?thesis using d4' f3(1,6) boot_reads(4,7) by simp
qed

lemma boot_dev_boots: "\<exists>d'. plx_lbp_boot_ramdisk boot_card boot_kernel False [1, 2, 3] boot_dev = Some (LBP_STATE_OK, d')"
proof -
  obtain d2 where d2: "plx_lbp_send_ramdisk boot_card boot_kernel [1, 2, 3] (boot_locked False boot_dev) = Some (LBP_STATE_OK, d2)"
    "reg_base d2 = 0x3E000" "clock d2 \<noteq> 0" "i7_cmd_timeout_ms d2 = 100" using boot_dev_sends by blast
  let ?d3 = "lbp_issue_cmd (i7_cmd_value PLX_LBP_CMD_BOOT_RAMDISK 0) d2"
  have "reg_base ?d3 = 0x3E000" "clock ?d3 \<noteq> 0"
    using d2(2,3) by (simp_all add: lbp_issue_cmd_def plx_write_spad_def dev_mmio_write_def)
  with boot_answers(1) [of ?d3] have an: "i7_ready (plx_lbp_get_i7_status (lbp_msleep boot_card ?d3)) = 8" by simp
  have w: "plx_lbp_wait_for_i7_state boot_card (PLX_LBP_i7_BOOTING OR PLX_LBP_i7_OS_READY OR PLX_LBP_i7_ANY_ERROR) 100 ?d3 =
      (Inr 8, lbp_msleep boot_card ?d3)"
    by (subst wait_state_now) (use an in \<open>simp_all add: i7_states\<close>)
  show ?thesis
    using d2(1,4) w boot_reads(1,10)
    by (simp add: plx_lbp_boot_ramdisk_def case_prod_beta' i7_states)
qed

theorem boot_ramdisk_sound_witness:
  "\<exists>d'. plx_lbp_boot_ramdisk boot_card boot_kernel False [1, 2, 3] boot_dev = Some (LBP_STATE_OK, d') \<and> \<not> lbp_locked d' \<and>
    (\<exists>p. card_mem d' = patch p [1, 2, 3] (card_mem boot_dev)) \<and>
    cmd_log d' = [i7_cmd_value PLX_LBP_CMD_MAP_RAMDISK 1, i7_cmd_value PLX_LBP_CMD_BOOT_RAMDISK 0]"
  using boot_ramdisk_sound [OF boot_dev_ready, of "[1, 2, 3]" boot_kernel False] boot_dev_boots
  by (auto simp: boot_dev_def example_dev_def)

theorem wait_state_first_witness:
  "\<exists>n < unat (5 :: u32). snd (plx_lbp_wait_for_i7_state boot_card 0x20 5 boot_dev) = lbp_msleeps boot_card (Suc n) boot_dev"
proof -
  have "plx_lbp_wait_for_i7_state boot_card 0x20 5 boot_dev = (Inr 0x20, lbp_msleep boot_card boot_dev)"
    by (subst wait_state_now) (simp_all add: boot_answers boot_dev_def example_dev_def)
  with wait_state_first [of "0x20" boot_card 5 boot_dev] show ?thesis by auto
qed

text \<open>A device that was initialised meets the conditions of the protocol.\<close>

lemma hw_init_lbp_ready:
  assumes "plx_hw_init skip ok t d = Some (Inr (), d')" "segments_num (a_lut_manager (dev_lut d)) = 0"
    and "aper_len d = 2 ^ k" "8 \<le> k" "k < 62" "card_keeps_tables crd"
  shows "lbp_ready crd [] d'"
proof -
  obtain port side ports where ps: "port_and_side (pci_device d) = Some (port, side)"
    and b: "a_lut_array_base (dev_lut d') = alut_base ports side port"
    and r: "reg_base d' = plx_get_reg_base (if side then 1 else 0) port"
      "reg_base_peer d' = plx_get_reg_base (if side then 0 else 1) port"
    using hw_init_steps [OF assms(1,2)] by metis
  have "tables_low (dev_lut d')"
    unfolding tables_low_def b using alut_register(2) by (simp add: word_less_nat_alt)
  moreover have "port \<in> {0, 1}" using ps by (auto simp: port_and_side_def split: if_splits)
  then have "regs_high d'" by (auto simp: regs_high_def r plx_get_reg_base_def)
  ultimately show ?thesis using hw_init_client [OF assms(1-5)] assms(6) by (simp add: lbp_ready_def)
qed

section \<open>The mutex\<close>

lemma take_lock [simp]:
  "\<not> lbp_locked d \<Longrightarrow> lbp_take_lock d = Some (d\<lparr>lbp_locked := True\<rparr>)" "lbp_locked d \<Longrightarrow> lbp_take_lock d = None"
  by (simp_all add: lbp_take_lock_def)

lemma write_spad_locked [simp]: "lbp_locked (plx_write_spad i v d) = lbp_locked d"
  by (simp add: plx_write_spad_def)

lemma prepare_boot_locked [simp]: "lbp_prepare_boot b d = (rc, d0) \<Longrightarrow> lbp_locked d0 = lbp_locked d"
  by (auto simp: lbp_prepare_boot_def plx_program_rid_lut_for_node_def Let_def split: if_splits option.splits prod.splits)

definition gives_back :: "bool \<Rightarrow> plx_device option \<Rightarrow> bool" where
  "gives_back locked r \<longleftrightarrow> (if locked then r = None else \<exists>d'. r = Some d' \<and> \<not> lbp_locked d')"

text \<open>
  Booting programs the requester table before it waits for the mutex; if that fails it returns without having
  touched the mutex.
\<close>

definition boot_gives_back :: "int \<Rightarrow> bool \<Rightarrow> plx_device option \<Rightarrow> bool" where
  "boot_gives_back rc locked r \<longleftrightarrow>
     (if rc = 0 then gives_back locked r else \<exists>d'. r = Some d' \<and> lbp_locked d' = locked)"

lemma gives_backI:
  assumes "lbp_locked d \<Longrightarrow> r = None" "\<not> lbp_locked d \<Longrightarrow> \<exists>d'. r = Some d' \<and> \<not> lbp_locked d'"
  shows "gives_back (lbp_locked d) r"
  using assms by (auto simp: gives_back_def)

lemma boot_gives_backI:
  assumes "lbp_prepare_boot b d = (rc, d0)" "rc \<noteq> 0 \<Longrightarrow> r = Some d0" "rc = 0 \<Longrightarrow> lbp_locked d \<Longrightarrow> r = None"
    "rc = 0 \<Longrightarrow> \<not> lbp_locked d \<Longrightarrow> \<exists>d'. r = Some d' \<and> \<not> lbp_locked d'"
  shows "boot_gives_back (fst (lbp_prepare_boot b d)) (lbp_locked d) r"
  using assms by (auto simp: boot_gives_back_def gives_back_def)

lemma flash_gives_back:
  assumes "lbp_ready crd held d" "length file < 2 ^ 64"
  shows "gives_back (lbp_locked d) (map_option snd (lbp_flash_locked crd k cmd file d))"
proof (rule gives_backI)
  assume "\<not> lbp_locked d"
  moreover have "lbp_ready crd held (d\<lparr>lbp_locked := True\<rparr>)" using assms(1) by simp
  from send_ramdisk [OF this assms(2), of k] obtain r d1
    where "plx_lbp_send_ramdisk crd k file (d\<lparr>lbp_locked := True\<rparr>) = Some (r, d1)" by blast
  ultimately show "\<exists>d'. map_option snd (lbp_flash_locked crd k cmd file d) = Some d' \<and> \<not> lbp_locked d'"
    by (auto simp: lbp_flash_locked_def plx_lbp_flash_def split: prod.splits sum.splits)
qed (simp add: lbp_flash_locked_def)

lemma command_gives_back:
  "gives_back (lbp_locked d) (map_option snd (plx_lbp_set_time crd junk t d))"
  "gives_back (lbp_locked d) (map_option (snd \<circ> snd) (plx_lbp_get_mac_addr crd d))"
  "gives_back (lbp_locked d) (map_option snd (plx_lbp_set_bios_param crd param v d))"
  "gives_back (lbp_locked d) (map_option (snd \<circ> snd) (plx_lbp_get_bios_param crd junk t param v d))"
  "gives_back (lbp_locked d) (map_option snd (plx_lbp_handshake crd w j1 j2 j3 junk t d))"
  "gives_back (lbp_locked d) (map_option snd (plx_lbp_set_param p u d))"
  "gives_back (lbp_locked d) (map_option snd (plx_lbp_flash_firmware d))"
  "gives_back (lbp_locked d) (map_option snd (plx_lbp_init irq d))"
  "gives_back (lbp_locked d) (plx_lbp_deinit d)"
proof -
  show "gives_back (lbp_locked d) (map_option snd (plx_lbp_set_time crd junk t d))"
    by (rule gives_backI) (auto simp: plx_lbp_set_time_def split: prod.splits)
  show "gives_back (lbp_locked d) (map_option (snd \<circ> snd) (plx_lbp_get_mac_addr crd d))"
    by (rule gives_backI) (auto simp: plx_lbp_get_mac_addr_def split: prod.splits)
  show "gives_back (lbp_locked d) (map_option snd (plx_lbp_set_bios_param crd param v d))"
    by (rule gives_backI) (auto simp: plx_lbp_set_bios_param_def Let_def simp del: not_less split: option.splits sum.splits prod.splits if_splits)
  show "gives_back (lbp_locked d) (map_option (snd \<circ> snd) (plx_lbp_get_bios_param crd junk t param v d))"
    by (rule gives_backI) (simp_all add: plx_lbp_get_bios_param_def Let_def split: prod.splits)
  show "gives_back (lbp_locked d) (map_option snd (plx_lbp_handshake crd w j1 j2 j3 junk t d))"
    by (rule gives_backI) (auto simp: plx_lbp_handshake_def lbp_forget_bios_def Let_def split: prod.splits)
  show "gives_back (lbp_locked d) (map_option snd (plx_lbp_set_param p u d))"
    by (rule gives_backI) (auto simp: plx_lbp_set_param_def split: option.splits)
  show "gives_back (lbp_locked d) (map_option snd (plx_lbp_flash_firmware d))"
    by (rule gives_backI) (auto simp: plx_lbp_flash_firmware_def)
  show "gives_back (lbp_locked d) (map_option snd (plx_lbp_init irq d))"
    by (rule gives_backI) (auto simp: plx_lbp_init_def Let_def split: option.splits)
  show "gives_back (lbp_locked d) (plx_lbp_deinit d)"
    by (rule gives_backI) (auto simp: plx_lbp_deinit_def)
qed

lemma boot_gives_back_all:
  assumes "lbp_ready crd held d" "length img < 2 ^ 64"
  shows "boot_gives_back (fst (lbp_prepare_boot b d)) (lbp_locked d) (map_option snd (plx_lbp_boot_ramdisk crd k b img d))"
    "boot_gives_back (fst (lbp_prepare_boot b d)) (lbp_locked d) (map_option snd (plx_lbp_boot_from_usb crd b d))"
    "boot_gives_back (fst (lbp_prepare_boot b d)) (lbp_locked d) (map_option (snd \<circ> snd) (plx_lbp_boot_blkdisk crd b db d))"
proof -
  obtain rc d0 where p: "lbp_prepare_boot b d = (rc, d0)" by fastforce
  then have l: "lbp_locked d0 = lbp_locked d" by simp
  show "boot_gives_back (fst (lbp_prepare_boot b d)) (lbp_locked d) (map_option snd (plx_lbp_boot_ramdisk crd k b img d))"
    by (rule boot_gives_backI [OF p])
      (use p l boot_ramdisk_run [OF assms, of k b] in \<open>auto simp: plx_lbp_boot_ramdisk_def\<close>)
  show "boot_gives_back (fst (lbp_prepare_boot b d)) (lbp_locked d) (map_option snd (plx_lbp_boot_from_usb crd b d))"
    by (rule boot_gives_backI [OF p]) (use p l in \<open>auto simp: plx_lbp_boot_from_usb_def split: prod.splits sum.splits\<close>)
  show "boot_gives_back (fst (lbp_prepare_boot b d)) (lbp_locked d) (map_option (snd \<circ> snd) (plx_lbp_boot_blkdisk crd b db d))"
    by (rule boot_gives_backI [OF p]) (use p l in \<open>auto simp: plx_lbp_boot_blkdisk_def Let_def split: prod.splits sum.splits\<close>)
qed

text \<open>
  C26: Every operation of the boot protocol that takes the mutex (all but the two halves of a reset, which
  keep it in between) waits for it, and when the mutex is free it returns, whatever the card does, with the
  mutex free again, on success and on every error path. Booting fails without touching the mutex if the
  requester table cannot be programmed. For the operations that send an image or a file, the translation
  tables are in order, the card leaves them alone, and the length fits 64 bits.
\<close>
theorem lbp_mutex_released:
  assumes "lbp_ready crd held d" "length img < 2 ^ 64"
  shows
  "gives_back (lbp_locked d) (map_option snd (plx_lbp_set_time crd junk t d)) \<and>
   gives_back (lbp_locked d) (map_option (snd \<circ> snd) (plx_lbp_get_mac_addr crd d)) \<and>
   gives_back (lbp_locked d) (map_option snd (plx_lbp_set_bios_param crd param v d)) \<and>
   gives_back (lbp_locked d) (map_option (snd \<circ> snd) (plx_lbp_get_bios_param crd junk t param v d)) \<and>
   gives_back (lbp_locked d) (map_option snd (plx_lbp_handshake crd w j1 j2 j3 junk t d)) \<and>
   gives_back (lbp_locked d) (map_option snd (plx_lbp_set_param p u d)) \<and>
   gives_back (lbp_locked d) (map_option snd (plx_lbp_flash_bios crd k img d)) \<and>
   gives_back (lbp_locked d) (map_option snd (plx_lbp_clear_smb_event_log crd k img d)) \<and>
   gives_back (lbp_locked d) (map_option snd (plx_lbp_update_mac_addr crd k img d)) \<and>
   gives_back (lbp_locked d) (map_option snd (plx_lbp_set_serial_number crd k img d)) \<and>
   gives_back (lbp_locked d) (map_option snd (plx_lbp_flash_firmware d)) \<and>
   gives_back (lbp_locked d) (map_option snd (plx_lbp_init irq d)) \<and>
   gives_back (lbp_locked d) (plx_lbp_deinit d) \<and>
   boot_gives_back (fst (lbp_prepare_boot b d)) (lbp_locked d) (map_option snd (plx_lbp_boot_ramdisk crd k b img d)) \<and>
   boot_gives_back (fst (lbp_prepare_boot b d)) (lbp_locked d) (map_option snd (plx_lbp_boot_from_usb crd b d)) \<and>
   boot_gives_back (fst (lbp_prepare_boot b d)) (lbp_locked d) (map_option (snd \<circ> snd) (plx_lbp_boot_blkdisk crd b db d))"
  unfolding plx_lbp_flash_bios_def plx_lbp_clear_smb_event_log_def plx_lbp_update_mac_addr_def plx_lbp_set_serial_number_def
  by (intro conjI command_gives_back flash_gives_back [OF assms] boot_gives_back_all [OF assms])

theorem lbp_mutex_released_witness:
  "\<not> lbp_locked boot_dev \<and>
   (\<exists>d'. map_option snd (plx_lbp_flash_bios boot_card boot_kernel [1, 2, 3] boot_dev) = Some d' \<and> \<not> lbp_locked d')"
proof -
  have "\<not> lbp_locked boot_dev" by (simp add: boot_dev_def example_dev_def)
  moreover have "gives_back (lbp_locked boot_dev) (map_option snd (plx_lbp_flash_bios boot_card boot_kernel [1, 2, 3] boot_dev))"
    using lbp_mutex_released [OF boot_dev_ready, of "[1, 2, 3]" 0 undefined 0 0 Timed_Out 0 0 0 VCA_LBP_PARAM_i7_IRQ_TIMEOUT_MS 0 boot_kernel None False 0]
    by simp
  ultimately show ?thesis by (simp add: gives_back_def)
qed

section \<open>The state of the card\<close>

lemma spad_read_write [simp]: "plx_read_spad (plx_write_spad i v d) i = v"
  by (simp add: plx_read_spad_def plx_write_spad_def spad_off_def)

lemma ready_with_ready: "c AND 0xffffff = c \<Longrightarrow> i7_ready (i7_with_ready v c) = c"
  unfolding i7_ready_def i7_with_ready_def by (simp add: bit.conj_disj_distrib2 and.assoc)

lemma version_with_ready: "i7_version (i7_with_ready v c) = i7_version v"
proof -
  have "i7_version (i7_with_ready v c) = drop_bit 24 (v AND 0xff000000) OR drop_bit 24 (c AND 0xffffff)"
    by (simp add: i7_version_def i7_with_ready_def)
  moreover have "drop_bit 24 (c AND 0xffffff) = 0" by simp
  moreover have "drop_bit 24 v AND mask 8 = drop_bit 24 v"
    by (rule bit_word_eqI) (auto simp: bit_simps dest: bit_imp_le_length)
  then have "drop_bit 24 (v AND 0xff000000) = drop_bit 24 v" by (simp add: mask_eq_exp_minus_1)
  ultimately show ?thesis by (simp add: i7_version_def)
qed

text \<open>
  C34: A state written to the state register of a production card that is not being reset is what
  reading the state returns, and the protocol version next to it is kept. There are two exceptions:
  \<open>VCA_POWERING_DOWN\<close> reads back as an error, since reading expects a further bit that writing does not
  set; link down and resetting cannot be written at all.
\<close>
theorem set_get_state:
  assumes "card_type d AND VCA_PRODUCTION \<noteq> 0" "\<not> lbp_resetting d"
  shows "case plx_lbp_set_state st d of (r, d') \<Rightarrow>
    if st \<in> {VCA_RESETTING, VCA_LINK_DOWN, VCA_SIZE} then r = LBP_BAD_PARAMETER_VALUE \<and> d' = d
    else r = LBP_STATE_OK \<and> plx_lbp_get_state d' = (if st = VCA_POWERING_DOWN then VCA_ERROR else st) \<and>
      i7_version (plx_lbp_get_i7_status d') = i7_version (plx_lbp_get_i7_status d)"
proof (cases "i7_code_of st")
  case None
  then have "st \<in> {VCA_RESETTING, VCA_LINK_DOWN, VCA_SIZE}" by (cases st) auto
  with None assms show ?thesis by (simp add: plx_lbp_set_state_def)
next
  case (Some c)
  let ?d = "plx_lbp_set_i7_status (i7_with_ready (plx_lbp_get_i7_status d) c) d"
  have st: "plx_lbp_get_i7_status ?d = i7_with_ready (plx_lbp_get_i7_status d) c"
    by (simp add: plx_lbp_get_i7_status_def plx_lbp_set_i7_status_def)
  have c: "c AND 0xffffff = c" "i7_state_of c = (if st = VCA_POWERING_DOWN then VCA_ERROR else st)"
    "st \<notin> {VCA_RESETTING, VCA_LINK_DOWN, VCA_SIZE}"
    using Some by (cases st; auto simp: i7_states i7_state_of_def)+
  have "card_type ?d = card_type d" "lbp_resetting ?d = lbp_resetting d"
    by (simp_all add: plx_lbp_set_i7_status_def plx_write_spad_def)
  then have "plx_lbp_get_state ?d = i7_state_of c"
    using assms st ready_with_ready [OF c(1)] by (simp add: plx_lbp_get_state_def)
  then show ?thesis
    using Some assms c(2,3) st version_with_ready by (auto simp: plx_lbp_set_state_def)
qed

theorem set_get_state_witness:
  "plx_lbp_get_state (snd (plx_lbp_set_state VCA_OS_READY boot_dev)) = VCA_OS_READY"
  using set_get_state [of boot_dev VCA_OS_READY]
  by (simp add: boot_dev_def example_dev_def card_types case_prod_beta)

section \<open>Parameters\<close>

definition timeouts_after :: "vca_lbp_param \<Rightarrow> u32 \<Rightarrow> plx_device \<Rightarrow> plx_device" where
  "timeouts_after p v d = d\<lparr>
     i7_irq_timeout_ms := if p = VCA_LBP_PARAM_i7_IRQ_TIMEOUT_MS then v else i7_irq_timeout_ms d,
     i7_alloc_timeout_ms := if p = VCA_LBP_PARAM_i7_ALLOC_TIMEOUT_MS then v else i7_alloc_timeout_ms d,
     i7_cmd_timeout_ms := if p = VCA_LBP_PARAM_i7_CMD_TIMEOUT_MS then v else i7_cmd_timeout_ms d,
     i7_mac_write_timeout_ms :=
       if p = VCA_LBP_PARAM_i7_CMD_TIMEOUT_MS \<or> p = VCA_LBP_PARAM_i7_MAC_WRITE_TIMEOUT_MS then v
       else i7_mac_write_timeout_ms d\<rparr>"

text \<open>
  A timeout is stored exactly when the parameter is known and the value is in its range, and
  nothing else of the device changes, except that storing the command timeout also overwrites the
  timeout for writing a MAC address.
\<close>
theorem set_param_effect:
  assumes "\<not> lbp_locked d"
  shows "plx_lbp_set_param p v d =
    (case lbp_param_max p of
       None \<Rightarrow> Some (LBP_UNKNOWN_PARAMETER, d)
     | Some mx \<Rightarrow> if mx < v then Some (LBP_BAD_PARAMETER_VALUE, d) else Some (LBP_STATE_OK, timeouts_after p v d))"
proof -
  have "d\<lparr>lbp_locked := False\<rparr> = d" using assms by simp
  then show ?thesis
    using assms by (cases p) (simp_all add: plx_lbp_set_param_def lbp_unlock_def timeouts_after_def)
qed

theorem set_param_effect_witness:
  "i7_mac_write_timeout_ms (snd (the (plx_lbp_set_param VCA_LBP_PARAM_i7_CMD_TIMEOUT_MS 50 boot_dev))) = 50"
  using set_param_effect [of boot_dev VCA_LBP_PARAM_i7_CMD_TIMEOUT_MS 50]
  by (simp add: boot_dev_def example_dev_def timeouts_after_def)

section \<open>The time\<close>

lemma time_bit:
  assumes "m < 64"
  shows "bit (plx_lbp_time junk t) m \<longleftrightarrow>
    (if m < 13 then bit (1900 + tm_year t) m else if m < 18 then bit (1 + tm_mon t) (m - 13)
     else if m < 24 then bit (tm_mday t) (m - 18) else if m < 30 then bit (tm_hour t) (m - 24)
     else if m < 37 then bit (tm_min t) (m - 30) else if m < 44 then bit (tm_sec t) (m - 37)
     else if m < 60 then bit (tv_msec t) (m - 44) else bit junk (m - 60))"
proof -
  have sh: "m - k < w \<longleftrightarrow> m < k + w" if "k \<le> m" for k w using that by arith
  show ?thesis
    using assms unfolding plx_lbp_time_def
    by (simp only: bit_or_iff bit_and_iff bit_push_bit_iff bit_mask_iff) (simp add: sh split: if_splits)
qed

lemma field_of:
  fixes x a :: u64
  assumes "\<And>m. m < w \<Longrightarrow> bit x (k + m) = bit a m" "k + w \<le> 64"
  shows "take_bit w (drop_bit k x) = a AND mask w"
  by (rule bit_word_eqI) (use assms in \<open>auto simp: bit_simps\<close>)

lemma time_fields:
  "take_bit 13 (drop_bit 0 (plx_lbp_time junk t)) = (1900 + tm_year t) AND mask 13"
  "take_bit 5 (drop_bit 13 (plx_lbp_time junk t)) = (1 + tm_mon t) AND mask 5"
  "take_bit 6 (drop_bit 18 (plx_lbp_time junk t)) = tm_mday t AND mask 6"
  "take_bit 6 (drop_bit 24 (plx_lbp_time junk t)) = tm_hour t AND mask 6"
  "take_bit 7 (drop_bit 30 (plx_lbp_time junk t)) = tm_min t AND mask 7"
  "take_bit 7 (drop_bit 37 (plx_lbp_time junk t)) = tm_sec t AND mask 7"
  "take_bit 16 (drop_bit 44 (plx_lbp_time junk t)) = tv_msec t AND mask 16"
  by (rule field_of; simp add: time_bit)+

lemma word_fits: "unat a < 2 ^ n \<Longrightarrow> (a :: u64) AND mask n = a"
  by (simp add: take_bit_eq_mask [symmetric] word_unat_eq_iff unsigned_take_bit_eq take_bit_nat_eq_self)

text \<open>
  The fields of the time that is given to the card can be read back from the register value: every
  field of a date until the year 8191 fits its bits, and no field overlaps another.
\<close>
theorem time_roundtrip:
  assumes "tm_year t < 6292" "tm_mon t < 12" "tm_mday t < 32" "tm_hour t < 24" "tm_min t < 60" "tm_sec t < 61"
    "tv_msec t < 1000"
  shows "take_bit 13 (plx_lbp_time junk t) = 1900 + tm_year t \<and>
    take_bit 5 (drop_bit 13 (plx_lbp_time junk t)) = 1 + tm_mon t \<and>
    take_bit 6 (drop_bit 18 (plx_lbp_time junk t)) = tm_mday t \<and>
    take_bit 6 (drop_bit 24 (plx_lbp_time junk t)) = tm_hour t \<and>
    take_bit 7 (drop_bit 30 (plx_lbp_time junk t)) = tm_min t \<and>
    take_bit 7 (drop_bit 37 (plx_lbp_time junk t)) = tm_sec t \<and>
    take_bit 16 (drop_bit 44 (plx_lbp_time junk t)) = tv_msec t"
proof -
  have "unat (1900 + tm_year t) < 2 ^ 13" "unat (1 + tm_mon t) < 2 ^ 5" "unat (tm_mday t) < 2 ^ 6" "unat (tm_hour t) < 2 ^ 6"
    "unat (tm_min t) < 2 ^ 7" "unat (tm_sec t) < 2 ^ 7" "unat (tv_msec t) < 2 ^ 16"
    using assms by (simp_all add: word_less_nat_alt unat_word_ariths)
  then show ?thesis using time_fields [of junk t] by (simp only: word_fits drop_bit_0 id_apply simp_thms)
qed

theorem time_roundtrip_witness:
  "take_bit 13 (plx_lbp_time 0 \<lparr>tm_year = 119, tm_mon = 11, tm_mday = 31, tm_hour = 23, tm_min = 59, tm_sec = 60,
     tv_msec = 999, tz_minuteswest = 0\<rparr>) = 2019"
  using time_roundtrip [of "\<lparr>tm_year = 119, tm_mon = 11, tm_mday = 31, tm_hour = 23, tm_min = 59, tm_sec = 60,
     tv_msec = 999, tz_minuteswest = 0\<rparr>" 0] by simp

section \<open>Handshake\<close>

definition bios_cache :: "plx_device \<Rightarrow> u64 list" where
  "bios_cache d = [bios_information_date d, bios_information_version d, bios_cfg_sgx d, bios_cfg_gpu_aperture d,
     bios_cfg_tdp d, bios_cfg_hyper_threading d, bios_cfg_gpu d]"

lemma bios_cache_kept [simp]:
  "bios_cache (plx_write_spad i v d) = bios_cache d" "bios_cache (lbp_issue_cmd c d) = bios_cache d"
  "bios_cache (d\<lparr>card_wait := b\<rparr>) = bios_cache d" "bios_cache (d\<lparr>i7_ddr_size_mb := n\<rparr>) = bios_cache d"
  "bios_cache (d\<lparr>lbp_locked := b\<rparr>) = bios_cache d" "bios_cache (lbp_unlock d) = bios_cache d"
  "bios_cache (lbp_msleep crd d) = bios_cache d"
  by (simp_all add: bios_cache_def plx_write_spad_def dev_mmio_write_def lbp_issue_cmd_def lbp_unlock_def
      lbp_msleep_def set_regs_def)

lemma bios_cache_msleeps [simp]: "bios_cache (lbp_msleeps crd n d) = bios_cache d"
  by (induction n arbitrary: d) simp_all

lemma forget_fields [simp]:
  "lbp_locked (lbp_forget_bios d) = lbp_locked d" "vca_csm_index (lbp_forget_bios d) = vca_csm_index d"
  by (simp_all add: lbp_forget_bios_def)

lemma wait_up_sleeps: "\<exists>n. snd (plx_lbp_wait_for_i7_up crd w to d) = lbp_msleeps crd n d"
  by (cases w) (auto simp: plx_lbp_wait_for_i7_up_def Let_def)

lemma exchange_result:
  assumes "lbp_exchange crd w j1 j2 index d = (err, d')"
  shows "bios_cache d' = bios_cache d" "err < 0 \<Longrightarrow> err \<in> {- LBP_IRQ_TIMEOUT, - LBP_CMD_TIMEOUT}"
proof -
  have up: "bios_cache e = bios_cache d" if "plx_lbp_wait_for_i7_up crd w to d = (r, e)" for to d r e
    using wait_up_sleeps [of crd w to d] that by auto
  have st: "bios_cache e = bios_cache d" if "plx_lbp_wait_for_i7_state crd s to d = (r, e)" for s to d r e
    using wait_state_sleeps [of crd s to d] that by auto
  show "bios_cache d' = bios_cache d"
    using assms by (auto simp: lbp_exchange_def Let_def dest!: up st split: prod.splits sum.splits)
  show "err < 0 \<Longrightarrow> err \<in> {- LBP_IRQ_TIMEOUT, - LBP_CMD_TIMEOUT}"
    using assms by (auto simp: lbp_exchange_def Let_def split: prod.splits sum.splits)
qed

text \<open>
  A handshake that fails tells the reason (no device for the card's memory, no interrupt from the
  card, no acknowledgement), frees the mutex, leaves the host marked as not ready in the register that
  the card reads, and leaves no BIOS information of an earlier handshake behind.
\<close>
theorem handshake_failure:
  assumes run: "plx_lbp_handshake crd w j1 j2 j3 junk t d = Some (r, d')" and fail: "r \<noteq> LBP_STATE_OK"
  shows "r \<in> {LBP_IRQ_TIMEOUT, LBP_CMD_TIMEOUT, LBP_INTERNAL_ERROR} \<and> (r = LBP_INTERNAL_ERROR \<longleftrightarrow> vca_csm_index d = None) \<and>
    \<not> lbp_locked d' \<and> plx_read_spad d' PLX_LBP_SPAD_E5_READY AND 0xff = 0 \<and>
    plx_lbp_copy_bios_info_from_cache d' param x = (LBP_BIOS_INFO_CACHE_EMPTY, x)"
proof -
  have free: "\<not> lbp_locked d"
    using run by (cases "lbp_locked d") (auto simp: plx_lbp_handshake_def)
  let ?d1 = "(lbp_forget_bios d)\<lparr>lbp_locked := True\<rparr>"
  obtain err d2 where e: "(case vca_csm_index d of None \<Rightarrow> (- LBP_INTERNAL_ERROR, ?d1)
      | Some index \<Rightarrow> lbp_exchange crd w j1 j2 index ?d1) = (err, d2)" by fastforce
  let ?v = "e5_value 0 (drop_bit 8 j3) (pci_slot d2) (port_id d2)"
  have res: "err < 0" "r = - err" "d' = plx_write_spad PLX_LBP_SPAD_E5_READY ?v (lbp_unlock d2)"
    using run fail e free by (auto simp: plx_lbp_handshake_def split: if_splits)
  have b: "bios_cache d2 = bios_cache (lbp_forget_bios d)"
    using e exchange_result(1) by (auto split: option.splits)
  have "r \<in> {LBP_IRQ_TIMEOUT, LBP_CMD_TIMEOUT, LBP_INTERNAL_ERROR} \<and> (r = LBP_INTERNAL_ERROR \<longleftrightarrow> vca_csm_index d = None)"
  proof (cases "vca_csm_index d")
    case (Some i)
    then have "err \<in> {- LBP_IRQ_TIMEOUT, - LBP_CMD_TIMEOUT}" using e exchange_result(2) res(1) by auto
    then show ?thesis using Some res(2) by (auto simp: lbp_retvals)
  qed (use e res(2) in \<open>simp add: lbp_retvals\<close>)
  moreover have "?v AND 0xff = 0"
  proof -
    have "take_bit 8 ?v = 0"
      by (simp only: e5_value_def take_bit_or take_bit_push_bit) simp
    then show ?thesis by (simp add: take_bit_eq_mask mask_eq_exp_minus_1)
  qed
  moreover have "bios_cache d' = bios_cache (lbp_forget_bios d)" using res(3) b by simp
  then have "plx_lbp_copy_bios_info_from_cache d' param x = (LBP_BIOS_INFO_CACHE_EMPTY, x)"
    by (simp add: bios_cache_def lbp_forget_bios_def plx_lbp_copy_bios_info_from_cache_def)
  ultimately show ?thesis unfolding res(3) by auto
qed

theorem handshake_failure_witness:
  "\<exists>d'. plx_lbp_handshake boot_card Timed_Out 0 0 0 0 undefined boot_dev = Some (LBP_IRQ_TIMEOUT, d') \<and>
     plx_read_spad d' PLX_LBP_SPAD_E5_READY AND 0xff = 0"
proof -
  obtain r d' where run: "plx_lbp_handshake boot_card Timed_Out 0 0 0 0 undefined boot_dev = Some (r, d')" "r = LBP_IRQ_TIMEOUT"
    by (auto simp: plx_lbp_handshake_def lbp_exchange_def plx_lbp_wait_for_i7_up_def Let_def lbp_retvals
        lbp_forget_bios_def boot_dev_def example_dev_def)
  from handshake_failure [OF run(1)] run(2) have "plx_read_spad d' PLX_LBP_SPAD_E5_READY AND 0xff = 0"
    by (simp add: lbp_retvals)
  with run show ?thesis by blast
qed

section \<open>Reading a BIOS parameter\<close>

lemma status_kept:
  assumes "\<And>t r. crd t r (spad_off d PLX_LBP_SPAD_i7_READY) = r (spad_off d PLX_LBP_SPAD_i7_READY)"
    and "plx_lbp_wait_for_i7_cmd_consumed crd to (lbp_issue_cmd c d) = (w, d')"
  shows "plx_lbp_get_i7_status d' = plx_lbp_get_i7_status d"
proof -
  let ?off = "spad_off d PLX_LBP_SPAD_i7_READY"
  have sl: "reg_base (lbp_msleeps crd n e) = reg_base d \<and> plx_mmio_read (lbp_msleeps crd n e) ?off = plx_mmio_read e ?off"
    if "reg_base e = reg_base d" for n e
    using that
    by (induction n arbitrary: e) (simp_all add: lbp_msleep_def set_regs_def plx_mmio_read_def assms(1))
  obtain n where n: "d' = lbp_msleeps crd n (lbp_issue_cmd c d)"
    using wait_consumed_sleeps [of crd to "lbp_issue_cmd c d"] assms(2) by auto
  have i: "reg_base (lbp_issue_cmd c d) = reg_base d" "plx_mmio_read (lbp_issue_cmd c d) ?off = plx_mmio_read d ?off"
    by (simp_all add: lbp_issue_cmd_def plx_write_spad_def plx_mmio_read_def dev_mmio_write_def plx_mmio_write_def
        spad_off_def PLX_LBP_SPAD_i7_READY_def PLX_LBP_SPAD_i7_CMD_def)
  show ?thesis using sl [OF i(1), of n] i(2) n by (simp add: plx_lbp_get_i7_status_def plx_read_spad_def spad_off_def)
qed

text \<open>
  While the card is up but not ready, which the code treats as a state in which a parameter is
  loaded directly from the card, reading a parameter never succeeds: the value may be read, but the
  time is set afterwards, which needs a ready card, and its error is the result.
\<close>
theorem get_bios_param_up:
  assumes free: "\<not> lbp_locked d" and up: "i7_ready (plx_lbp_get_i7_status d) = PLX_LBP_i7_UP"
    and ver: "i7_version (plx_lbp_get_i7_status d) \<noteq> 0"
    and stay: "\<And>t r. crd t r (spad_off d PLX_LBP_SPAD_i7_READY) = r (spad_off d PLX_LBP_SPAD_i7_READY)"
  shows "\<exists>e v d'. plx_lbp_get_bios_param crd junk t param value d = Some (e, v, d') \<and> e \<noteq> LBP_STATE_OK"
proof -
  let ?d = "d\<lparr>lbp_locked := True\<rparr>"
  have st: "plx_lbp_get_i7_status ?d = plx_lbp_get_i7_status d" "spad_off ?d = spad_off d"
    by (simp_all add: fun_eq_iff plx_lbp_get_i7_status_def plx_read_spad_def spad_off_def)
  have kept: "plx_lbp_get_i7_status d' = plx_lbp_get_i7_status d"
    if "plx_lbp_wait_for_i7_cmd_consumed crd to (lbp_issue_cmd c ?d) = (w, d')" for to c w d'
    using status_kept [of crd ?d, unfolded st, OF stay that] .
  have copy: "fst (plx_lbp_copy_bios_info crd junk t param value ?d) \<in>
      {- LBP_UNKNOWN_PARAMETER, LBP_PROTOCOL_VERSION_MISMATCH, LBP_CMD_TIMEOUT, LBP_SPAD_i7_WRONG_STATE}"
    if "param \<noteq> PLX_LBP_PARAM_CPU_MAX_FREQ_NON_TURBO"
    using that up unfolding plx_lbp_copy_bios_info_def plx_lbp_set_time_no_mutex_def
    by (auto simp: Let_def i7_states dest!: kept split: option.splits prod.splits sum.splits)
  have fin: "fst (lbp_get_finish crd r) \<noteq> LBP_STATE_OK"
    if "fst r \<in> {- LBP_UNKNOWN_PARAMETER, LBP_PROTOCOL_VERSION_MISMATCH, LBP_CMD_TIMEOUT, LBP_SPAD_i7_WRONG_STATE}" for r
    using that by (cases r) (auto simp: lbp_get_finish_def lbp_retvals i7_states)
  have get: "fst (lbp_get_param crd junk t param value v ?d) \<noteq> LBP_STATE_OK"
    if "param \<noteq> PLX_LBP_PARAM_CPU_MAX_FREQ_NON_TURBO" for v
    using fin [OF copy [OF that]] up ver st
    by (auto simp: lbp_get_param_def Let_def lbp_retvals split: prod.splits)
  define r where "r = (if param \<in> {PLX_LBP_PARAM_BIOS_BUILD_DATE, PLX_LBP_PARAM_BIOS_VER}
      then lbp_get_param crd junk t param value (PLX_LBP_PROTOCOL_VERSION 1 1) ?d
      else if param \<in> {PLX_LBP_PARAM_SGX, PLX_LBP_PARAM_SGX_OWNER_EPOCH_TYPE, PLX_LBP_PARAM_EPOCH_0,
        PLX_LBP_PARAM_EPOCH_1, PLX_LBP_PARAM_SGX_TO_FACTORY, PLX_LBP_PARAM_SGX_MEM,
        PLX_LBP_PARAM_GPU_APERTURE, PLX_LBP_PARAM_TDP, PLX_LBP_PARAM_HT, PLX_LBP_PARAM_GPU}
      then lbp_get_param crd junk t param value (PLX_LBP_PROTOCOL_VERSION 1 2) ?d
      else lbp_get_finish crd
        (if param = PLX_LBP_PARAM_CPU_MAX_FREQ_NON_TURBO then (LBP_SPAD_i7_WRONG_STATE, value, ?d)
         else (- LBP_UNKNOWN_PARAMETER, value, ?d)))"
  have "plx_lbp_get_bios_param crd junk t param value d = Some (fst r, fst (snd r), lbp_unlock (snd (snd r)))"
    using free up st by (simp add: plx_lbp_get_bios_param_def Let_def case_prod_beta r_def i7_states)
  moreover have "fst r \<noteq> LBP_STATE_OK"
    unfolding r_def using get fin by (auto simp: lbp_params)
  ultimately show ?thesis by blast
qed

theorem get_bios_param_up_witness:
  "\<exists>e v d'. plx_lbp_get_bios_param (\<lambda>t r. r(0x3EC7C := 0)) 0 undefined PLX_LBP_PARAM_SGX 0
     (plx_write_spad PLX_LBP_SPAD_i7_READY 0x20000001 example_dev) = Some (e, v, d') \<and> e \<noteq> LBP_STATE_OK"
  by (rule get_bios_param_up) (simp_all add: example_dev_def boot_registers i7_ready_def i7_version_def PLX_LBP_i7_UP_def)

end
