(* ===== verification/Plx_Eeprom.thy ===== *)
theory Plx_Eeprom
  imports Plx_Hw
begin

unbundle bit_operations_syntax

text \<open>
  Checking and writing the configuration EEPROM of the switch (\<open>plx87xx/plx_hw.c\<close>, from
  \<open>eeprom_wait_for_cmd_complete\<close> to \<open>plx_update_eeprom\<close>). The controller of the EEPROM is hardware: its
  state has a type \<open>'h\<close> of its own, and operations take the ways to read a register, to write one and
  to sleep as an argument. The theorems rely on the documented behaviour of its registers
  (\<open>eeprom_ctrl\<close>) but not on writes to the EEPROM being successful.
\<close>

section \<open>Registers\<close>

record 'h eep_hw =
  eep_rd :: "'h \<Rightarrow> u32 \<Rightarrow> u32"
  eep_wr :: "u32 \<Rightarrow> u32 \<Rightarrow> 'h \<Rightarrow> 'h"
  eep_sleep :: "'h \<Rightarrow> 'h"

datatype plx_eep_retval = PLX_EEP_STATUS_OK | PLX_EEP_INTERNAL_ERROR | PLX_EEP_TIMEOUT

definition PLX_EEP_CMD_READ :: u32 where "PLX_EEP_CMD_READ = 3"
definition PLX_EEP_CMD_READ_STATUS :: u32 where "PLX_EEP_CMD_READ_STATUS = 5"
definition PLX_EEP_CMD_WRITE_ENABLE :: u32 where "PLX_EEP_CMD_WRITE_ENABLE = 6"
definition PLX_EEP_CMD_WRITE :: u32 where "PLX_EEP_CMD_WRITE = 2"
definition PLX_EEP_3RD_ADDRES_BYTE_RSVD_MASK :: u32 where "PLX_EEP_3RD_ADDRES_BYTE_RSVD_MASK = 0xFF00"
definition PLX_EEP_EXPANSION_ROM_BASE_ADDR_MASK :: u32 where "PLX_EEP_EXPANSION_ROM_BASE_ADDR_MASK = 0xFFFF0000"
definition PLX_EEP_START_CRC_OFFSET :: nat where "PLX_EEP_START_CRC_OFFSET = 2"
definition PLX_EEP_HEADER_LENGTH_BYTE :: nat where "PLX_EEP_HEADER_LENGTH_BYTE = 4"
definition PLX_EEP_CRC_LENGTH_BYTE :: nat where "PLX_EEP_CRC_LENGTH_BYTE = 4"
definition PLX_EEP_CONFIGURATION_ALIGNMENT_BYTE :: u16 where "PLX_EEP_CONFIGURATION_ALIGNMENT_BYTE = 6"
definition PLX_EEP_WAIT_TRIES :: nat where "PLX_EEP_WAIT_TRIES = 1000"
definition PLX_EEP_VALIDATION_HEADER :: u8 where "PLX_EEP_VALIDATION_HEADER = 0x5A"
definition PLX_EEP_CONST_CRC_XOR_VALUE :: u32 where "PLX_EEP_CONST_CRC_XOR_VALUE = 0xDB710641"

lemmas eep_cmds = PLX_EEP_CMD_READ_def PLX_EEP_CMD_READ_STATUS_def PLX_EEP_CMD_WRITE_ENABLE_def PLX_EEP_CMD_WRITE_def

text \<open>Fields of the status register: block address, command, its status, upper bit, readiness.\<close>

definition eep_cmd :: "u32 \<Rightarrow> u32" where
  "eep_cmd v = drop_bit 13 v AND 7"
definition eep_cmd_status :: "u32 \<Rightarrow> bool" where
  "eep_cmd_status v = bit v 18"
definition eep_access_ready :: "u32 \<Rightarrow> bool" where
  "eep_access_ready v \<longleftrightarrow> v AND 0x71000000 = 0"
definition eep_block :: "u32 \<Rightarrow> nat" where
  "eep_block v = unat (v AND 0x1fff) + (if bit v 20 then 0x2000 else 0)"

definition with_eep_cmd :: "u32 \<Rightarrow> u32 \<Rightarrow> u32" where
  "with_eep_cmd cmd v = (v AND NOT 0xe000) OR push_bit 13 (cmd AND 7)"
definition with_eep_addr :: "u32 \<Rightarrow> u32 \<Rightarrow> u32" where
  "with_eep_addr a v = (v AND NOT 0x101fff) OR (a AND 0x1fff)"

section \<open>Access to the EEPROM\<close>

fun eeprom_wait_tries :: "'h eep_hw \<Rightarrow> nat \<Rightarrow> 'h \<Rightarrow> plx_eep_retval \<times> 'h" where
  "eeprom_wait_tries hw 0 h = (PLX_EEP_TIMEOUT, h)"
| "eeprom_wait_tries hw (Suc tries_left) h =
     (if \<not> eep_cmd_status (eep_rd hw h PLX_EEP_STATUS_CONTROL) then (PLX_EEP_STATUS_OK, h)
      else eeprom_wait_tries hw tries_left (eep_sleep hw h))"

definition eeprom_wait_for_cmd_complete :: "'h eep_hw \<Rightarrow> 'h \<Rightarrow> plx_eep_retval \<times> 'h" where
  "eeprom_wait_for_cmd_complete hw h = eeprom_wait_tries hw PLX_EEP_WAIT_TRIES h"

definition eeprom_send_cmd :: "'h eep_hw \<Rightarrow> u32 \<Rightarrow> u32 \<Rightarrow> 'h \<Rightarrow> plx_eep_retval \<times> 'h" where
  "eeprom_send_cmd hw cmd offset h = eeprom_wait_for_cmd_complete hw (eep_wr hw cmd offset h)"

fun eeprom_ready_tries :: "'h eep_hw \<Rightarrow> nat \<Rightarrow> u32 \<Rightarrow> 'h \<Rightarrow> plx_eep_retval \<times> 'h" where
  "eeprom_ready_tries hw 0 status h = (PLX_EEP_TIMEOUT, h)"
| "eeprom_ready_tries hw (Suc tries_left) status h =
     (case eeprom_send_cmd hw status PLX_EEP_STATUS_CONTROL h of
        (ret, h1) \<Rightarrow>
          if ret \<noteq> PLX_EEP_STATUS_OK then (ret, h1)
          else let status' = eep_rd hw h1 PLX_EEP_STATUS_CONTROL in
            if eep_access_ready status' then (PLX_EEP_STATUS_OK, h1)
            else eeprom_ready_tries hw tries_left status' (eep_sleep hw h1))"

definition eeprom_wait_for_access_ready :: "'h eep_hw \<Rightarrow> 'h \<Rightarrow> plx_eep_retval \<times> 'h" where
  "eeprom_wait_for_access_ready hw h =
     eeprom_ready_tries hw PLX_EEP_WAIT_TRIES
       (with_eep_cmd PLX_EEP_CMD_READ_STATUS (eep_rd hw h PLX_EEP_STATUS_CONTROL) AND NOT 0x71000000) h"

definition eeprom_read32 :: "'h eep_hw \<Rightarrow> u32 \<Rightarrow> 'h \<Rightarrow> plx_eep_retval \<times> u32 \<times> 'h" where
  "eeprom_read32 hw offset h =
     (case eeprom_wait_for_access_ready hw h of
        (ret, h1) \<Rightarrow>
          if ret \<noteq> PLX_EEP_STATUS_OK then (ret, 0, h1)
          else
            let status = with_eep_cmd PLX_EEP_CMD_READ
                  (with_eep_addr (offset div 4) (eep_rd hw h1 PLX_EEP_STATUS_CONTROL))
            in case eeprom_send_cmd hw status PLX_EEP_STATUS_CONTROL h1 of
                 (ret, h2) \<Rightarrow>
                   if ret \<noteq> PLX_EEP_STATUS_OK then (ret, 0, h2)
                   else (PLX_EEP_STATUS_OK, eep_rd hw h2 PLX_EEP_BUFFER, h2))"

definition eeprom_read16 :: "'h eep_hw \<Rightarrow> u32 \<Rightarrow> 'h \<Rightarrow> plx_eep_retval \<times> u16 \<times> 'h" where
  "eeprom_read16 hw offset h =
     (case eeprom_read32 hw (offset AND NOT 3) h of
        (ret, value_32, h1) \<Rightarrow>
          if ret \<noteq> PLX_EEP_STATUS_OK then (ret, 0, h1)
          else (PLX_EEP_STATUS_OK, if offset AND 3 \<noteq> 0 then ucast (drop_bit 16 value_32) else ucast value_32, h1))"

definition eeprom_write32 :: "'h eep_hw \<Rightarrow> u16 \<Rightarrow> u32 \<Rightarrow> 'h \<Rightarrow> plx_eep_retval \<times> 'h" where
  "eeprom_write32 hw offset value_32 h =
     (case eeprom_wait_for_access_ready hw h of
        (ret, h1) \<Rightarrow>
          if ret \<noteq> PLX_EEP_STATUS_OK then (ret, h1)
          else
            let status = with_eep_cmd PLX_EEP_CMD_WRITE_ENABLE
                  (with_eep_addr 0 (eep_rd hw h1 PLX_EEP_STATUS_CONTROL))
            in case eeprom_send_cmd hw status PLX_EEP_STATUS_CONTROL h1 of
                 (ret, h2) \<Rightarrow>
                   if ret \<noteq> PLX_EEP_STATUS_OK then (ret, h2)
                   else eeprom_send_cmd hw
                     (with_eep_cmd PLX_EEP_CMD_WRITE (with_eep_addr (ucast (offset div 4)) status))
                     PLX_EEP_STATUS_CONTROL (eep_wr hw value_32 PLX_EEP_BUFFER h2))"

definition eeprom_write16 :: "'h eep_hw \<Rightarrow> u16 \<Rightarrow> u16 \<Rightarrow> 'h \<Rightarrow> plx_eep_retval \<times> 'h" where
  "eeprom_write16 hw offset value_16 h =
     (case eeprom_read32 hw (ucast (offset AND NOT 3)) h of
        (ret, value_32, h1) \<Rightarrow>
          if ret \<noteq> PLX_EEP_STATUS_OK then (ret, h1)
          else
            let v = (if offset AND 3 \<noteq> 0 then push_bit 16 (ucast value_16) OR (value_32 AND 0xFFFF)
                     else ucast value_16 OR (value_32 AND 0xFFFF0000))
            in eeprom_write32 hw (offset AND NOT 3) v h1)"

section \<open>Checking a file\<close>

text \<open>Two and four bytes of a file, lowest first.\<close>

definition le16 :: "u8 list \<Rightarrow> nat \<Rightarrow> u16" where
  "le16 data off = ucast (data ! off) OR push_bit 8 (ucast (data ! (off + 1)))"
definition le32 :: "u8 list \<Rightarrow> nat \<Rightarrow> u32" where
  "le32 data off = ucast (le16 data off) OR push_bit 16 (ucast (le16 data (off + 2)))"

definition crc_bit :: "u32 \<Rightarrow> nat \<Rightarrow> u32 \<Rightarrow> u32" where
  "crc_bit next_crc_value i crc =
     push_bit 1 crc XOR (if bit (crc XOR push_bit i next_crc_value) 31 then PLX_EEP_CONST_CRC_XOR_VALUE else 0)"

definition crc_word :: "u32 \<Rightarrow> u32 \<Rightarrow> u32" where
  "crc_word next_crc_value crc = fold (crc_bit next_crc_value) [0..<32] crc"

function crc_loop :: "u8 list \<Rightarrow> nat \<Rightarrow> nat \<Rightarrow> u32 \<Rightarrow> u32" where
  "crc_loop data end_off off crc =
     (if off < end_off
      then crc_loop data end_off (off + 4)
             (crc_word (if end_off - off = 2 then ucast (le16 data off) else le32 data off) crc)
      else crc)"
  by pat_completeness auto
termination by (relation "measure (\<lambda>(data, end_off, off, crc). end_off - off)") auto

declare crc_loop.simps [simp del]

definition eeprom_check_crc :: "u8 list \<Rightarrow> plx_eep_retval" where
  "eeprom_check_crc data =
     (let crc_end_offset = length data - PLX_EEP_CRC_LENGTH_BYTE in
      if crc_loop data crc_end_offset PLX_EEP_START_CRC_OFFSET (- 1) \<noteq> le32 data crc_end_offset
      then PLX_EEP_INTERNAL_ERROR else PLX_EEP_STATUS_OK)"

definition eeprom_validate :: "u8 list \<Rightarrow> plx_eep_retval" where
  "eeprom_validate data =
     (if length data \<le> PLX_EEP_HEADER_LENGTH_BYTE + PLX_EEP_CRC_LENGTH_BYTE then PLX_EEP_INTERNAL_ERROR
      else if le16 data 2 mod PLX_EEP_CONFIGURATION_ALIGNMENT_BYTE \<noteq> 0 then PLX_EEP_INTERNAL_ERROR
      else if length data - PLX_EEP_HEADER_LENGTH_BYTE - PLX_EEP_CRC_LENGTH_BYTE \<noteq> unat (le16 data 2)
      then PLX_EEP_INTERNAL_ERROR
      else if data ! 0 \<noteq> PLX_EEP_VALIDATION_HEADER then PLX_EEP_INTERNAL_ERROR
      else eeprom_check_crc data)"

section \<open>Writing a file\<close>

text \<open>The two branches of the loop body: write and verify the last two bytes, or four bytes.\<close>

definition eep_update_half :: "'h eep_hw \<Rightarrow> u8 list \<Rightarrow> u16 \<Rightarrow> 'h \<Rightarrow> plx_eep_retval \<times> 'h" where
  "eep_update_half hw data offset h =
     (let value = le16 data (unat offset) in
      case eeprom_write16 hw offset value h of
        (ret, h1) \<Rightarrow>
          if ret \<noteq> PLX_EEP_STATUS_OK then (ret, h1)
          else case eeprom_read16 hw (ucast offset) h1 of
            (ret, verify_value_16, h2) \<Rightarrow>
              if ret \<noteq> PLX_EEP_STATUS_OK then (ret, h2)
              else if value \<noteq> verify_value_16 then (PLX_EEP_INTERNAL_ERROR, h2)
              else (PLX_EEP_STATUS_OK, h2))"

definition eep_update_word :: "'h eep_hw \<Rightarrow> u8 list \<Rightarrow> u16 \<Rightarrow> 'h \<Rightarrow> plx_eep_retval \<times> 'h" where
  "eep_update_word hw data offset h =
     (let value = le32 data (unat offset) in
      case eeprom_write32 hw offset value h of
        (ret, h1) \<Rightarrow>
          if ret \<noteq> PLX_EEP_STATUS_OK then (ret, h1)
          else case eeprom_read32 hw (ucast offset) h1 of
            (ret, verify_value_32, h2) \<Rightarrow>
              if ret \<noteq> PLX_EEP_STATUS_OK then (ret, h2)
              else if value \<noteq> verify_value_32 then (PLX_EEP_INTERNAL_ERROR, h2)
              else (PLX_EEP_STATUS_OK, h2))"

text \<open>The offset has 16 bits and may wrap around: the loop need not end.\<close>

partial_function (option) eep_update_loop ::
    "'h eep_hw \<Rightarrow> u8 list \<Rightarrow> u16 \<Rightarrow> 'h \<Rightarrow> (plx_eep_retval \<times> 'h) option" where
  [code]: "eep_update_loop hw data offset h =
     (if unat offset < length data then
        if length data - unat offset = 2 then Some (eep_update_half hw data offset h)
        else (case eep_update_word hw data offset h of
           (ret, h1) \<Rightarrow>
             if ret \<noteq> PLX_EEP_STATUS_OK then Some (ret, h1)
             else eep_update_loop hw data (offset + 4) h1)
      else Some (PLX_EEP_STATUS_OK, h))"

definition plx_update_eeprom :: "'h eep_hw \<Rightarrow> u8 list \<Rightarrow> 'h \<Rightarrow> (plx_eep_retval \<times> 'h) option" where
  "plx_update_eeprom hw data h =
     (let ret = eeprom_validate data in
      if ret \<noteq> PLX_EEP_STATUS_OK then Some (ret, h)
      else
        let addr = eep_rd hw h PLX_EEP_ADDRESS_BYTE;
            h1 = (if addr AND 3 \<noteq> 0
                  then eep_wr hw (addr AND (PLX_EEP_3RD_ADDRES_BYTE_RSVD_MASK OR PLX_EEP_EXPANSION_ROM_BASE_ADDR_MASK))
                         PLX_EEP_ADDRESS_BYTE h
                  else h)
        in eep_update_loop hw data 0 h1)"

section \<open>The controller\<close>

text \<open>
  What the driver relies on, with \<open>mem h\<close> the contents of the EEPROM by blocks of four bytes: only a write
  command changes the EEPROM, and only the block it addresses (to what, is left open); the command field
  reads back; when a read command has completed, the buffer holds the block.
\<close>

definition eeprom_ctrl :: "'h eep_hw \<Rightarrow> ('h \<Rightarrow> nat \<Rightarrow> u32) \<Rightarrow> bool" where
  "eeprom_ctrl hw mem \<longleftrightarrow>
     (\<forall>h. mem (eep_sleep hw h) = mem h) \<and>
     (\<forall>v off h. off \<noteq> PLX_EEP_STATUS_CONTROL \<or> eep_cmd v \<noteq> PLX_EEP_CMD_WRITE \<longrightarrow> mem (eep_wr hw v off h) = mem h) \<and>
     (\<forall>v h x. x \<noteq> eep_block v \<longrightarrow> mem (eep_wr hw v PLX_EEP_STATUS_CONTROL h) x = mem h x) \<and>
     (\<forall>v h n. eep_cmd (eep_rd hw ((eep_sleep hw ^^ n) (eep_wr hw v PLX_EEP_STATUS_CONTROL h)) PLX_EEP_STATUS_CONTROL) =
        eep_cmd v) \<and>
     (\<forall>v h n. let h' = (eep_sleep hw ^^ n) (eep_wr hw v PLX_EEP_STATUS_CONTROL h) in
        eep_cmd v = PLX_EEP_CMD_READ \<longrightarrow> \<not> eep_cmd_status (eep_rd hw h' PLX_EEP_STATUS_CONTROL) \<longrightarrow>
        eep_rd hw h' PLX_EEP_BUFFER = mem h (eep_block v))"

lemma eep_cmd_with [simp]: "eep_cmd (with_eep_cmd c v) = c AND 7"
proof -
  have m: "(7::u32) = mask 3" "(0xe000::u32) = push_bit 13 (mask 3)" by (simp_all add: mask_eq_exp_minus_1)
  show ?thesis unfolding eep_cmd_def with_eep_cmd_def m
    by (rule bit_word_eqI) (auto simp: bit_simps)
qed

lemma eep_block_with: "eep_block (with_eep_cmd c (with_eep_addr a v)) = unat (a AND 0x1fff)"
proof -
  let ?w = "with_eep_cmd c (with_eep_addr a v)"
  have m: "(7::u32) = mask 3" "(0xe000::u32) = push_bit 13 (mask 3)" "(0x1fff::u32) = mask 13"
    "(0x101fff :: u32) = mask 13 OR push_bit 20 1" by (simp_all add: mask_eq_exp_minus_1)
  have "?w AND 0x1fff = a AND 0x1fff"
    unfolding with_eep_cmd_def with_eep_addr_def m by (rule bit_word_eqI) (auto simp: bit_simps)
  moreover have "\<not> bit ?w 20"
    unfolding with_eep_cmd_def with_eep_addr_def m by (simp add: bit_simps)
  ultimately show ?thesis by (simp add: eep_block_def)
qed

lemma eep_cmd_keep: "eep_cmd (v AND NOT 0x71000000) = eep_cmd v"
proof -
  have "eep_cmd w = drop_bit 13 (w AND 0xe000)" for w by (simp add: eep_cmd_def)
  then show ?thesis by (simp add: and.assoc)
qed

lemma wait_tries:
  assumes "eeprom_wait_tries hw k h = (r, h')"
  shows "\<exists>n. h' = (eep_sleep hw ^^ n) h \<and>
    (r = PLX_EEP_STATUS_OK \<longrightarrow> \<not> eep_cmd_status (eep_rd hw h' PLX_EEP_STATUS_CONTROL))"
  using assms
proof (induction k arbitrary: h)
  case 0
  then show ?case by (intro exI [of _ 0]) auto
next
  case (Suc k)
  show ?case
  proof (cases "eep_cmd_status (eep_rd hw h PLX_EEP_STATUS_CONTROL)")
    case True
    with Suc.prems have "eeprom_wait_tries hw k (eep_sleep hw h) = (r, h')" by simp
    from Suc.IH [OF this] obtain n where "h' = (eep_sleep hw ^^ n) (eep_sleep hw h)"
      "r = PLX_EEP_STATUS_OK \<longrightarrow> \<not> eep_cmd_status (eep_rd hw h' PLX_EEP_STATUS_CONTROL)" by blast
    moreover have "(eep_sleep hw ^^ n) (eep_sleep hw h) = (eep_sleep hw ^^ Suc n) h"
      by (simp only: funpow_Suc_right o_apply)
    ultimately show ?thesis by metis
  next
    case False
    with Suc.prems show ?thesis by (intro exI [of _ 0]) auto
  qed
qed

lemma send_cmd:
  assumes "eeprom_send_cmd hw v off h = (r, h')"
  shows "\<exists>n. h' = (eep_sleep hw ^^ n) (eep_wr hw v off h) \<and>
    (r = PLX_EEP_STATUS_OK \<longrightarrow> \<not> eep_cmd_status (eep_rd hw h' PLX_EEP_STATUS_CONTROL))"
  by (rule wait_tries [OF assms [unfolded eeprom_send_cmd_def eeprom_wait_for_cmd_complete_def]])

lemma mem_sleeps: "eeprom_ctrl hw mem \<Longrightarrow> mem ((eep_sleep hw ^^ n) h) = mem h"
  by (induction n) (simp_all add: eeprom_ctrl_def)

lemma send_cmd_mem:
  assumes "eeprom_ctrl hw mem" "eeprom_send_cmd hw v PLX_EEP_STATUS_CONTROL h = (r, h')"
  shows "eep_cmd v \<noteq> PLX_EEP_CMD_WRITE \<Longrightarrow> mem h' = mem h" "x \<noteq> eep_block v \<Longrightarrow> mem h' x = mem h x"
    "eep_cmd (eep_rd hw h' PLX_EEP_STATUS_CONTROL) = eep_cmd v"
    "r = PLX_EEP_STATUS_OK \<Longrightarrow> eep_cmd v = PLX_EEP_CMD_READ \<Longrightarrow> eep_rd hw h' PLX_EEP_BUFFER = mem h (eep_block v)"
proof -
  obtain n where n: "h' = (eep_sleep hw ^^ n) (eep_wr hw v PLX_EEP_STATUS_CONTROL h)"
    "r = PLX_EEP_STATUS_OK \<longrightarrow> \<not> eep_cmd_status (eep_rd hw h' PLX_EEP_STATUS_CONTROL)"
    using send_cmd [OF assms(2)] by blast
  show "eep_cmd v \<noteq> PLX_EEP_CMD_WRITE \<Longrightarrow> mem h' = mem h" "x \<noteq> eep_block v \<Longrightarrow> mem h' x = mem h x"
    "eep_cmd (eep_rd hw h' PLX_EEP_STATUS_CONTROL) = eep_cmd v"
    "r = PLX_EEP_STATUS_OK \<Longrightarrow> eep_cmd v = PLX_EEP_CMD_READ \<Longrightarrow> eep_rd hw h' PLX_EEP_BUFFER = mem h (eep_block v)"
    using assms(1) n mem_sleeps [OF assms(1)] unfolding eeprom_ctrl_def Let_def by metis+
qed

lemma ready_tries_mem:
  assumes "eeprom_ctrl hw mem" "eep_cmd status = PLX_EEP_CMD_READ_STATUS" "eeprom_ready_tries hw k status h = (r, h')"
  shows "mem h' = mem h"
  using assms(2,3)
proof (induction k arbitrary: status h)
  case (Suc k)
  obtain r1 h1 where s: "eeprom_send_cmd hw status PLX_EEP_STATUS_CONTROL h = (r1, h1)" by fastforce
  have nw: "eep_cmd status \<noteq> PLX_EEP_CMD_WRITE" using Suc.prems(1) by (simp add: eep_cmds)
  note m = send_cmd_mem(1) [OF assms(1) s nw] and c = send_cmd_mem(3) [OF assms(1) s]
  have sl: "mem (eep_sleep hw h1) = mem h1" using assms(1) by (simp add: eeprom_ctrl_def)
  show ?case
  proof (cases "r1 \<noteq> PLX_EEP_STATUS_OK \<or> eep_access_ready (eep_rd hw h1 PLX_EEP_STATUS_CONTROL)")
    case True
    then have "h' = h1" using Suc.prems(2) s by (auto simp: Let_def split: if_splits)
    then show ?thesis using m by simp
  next
    case False
    then have "eeprom_ready_tries hw k (eep_rd hw h1 PLX_EEP_STATUS_CONTROL) (eep_sleep hw h1) = (r, h')"
      using Suc.prems(2) s by (simp add: Let_def)
    from Suc.IH [OF _ this] c Suc.prems(1) m sl show ?thesis by simp
  qed
qed simp

lemma access_ready_mem:
  assumes "eeprom_ctrl hw mem" "eeprom_wait_for_access_ready hw h = (r, h')"
  shows "mem h' = mem h"
proof (rule ready_tries_mem [OF assms(1) _ assms(2) [unfolded eeprom_wait_for_access_ready_def]])
  show "eep_cmd (with_eep_cmd PLX_EEP_CMD_READ_STATUS (eep_rd hw h PLX_EEP_STATUS_CONTROL) AND NOT 0x71000000) =
      PLX_EEP_CMD_READ_STATUS"
    unfolding eep_cmd_keep by (simp add: eep_cmds)
qed

lemma low_block: "unat ((a::u32) AND 0x1fff) = unat a mod 8192"
proof -
  have "a AND 0x1fff = take_bit 13 a" by (simp add: take_bit_eq_mask mask_eq_exp_minus_1)
  then show ?thesis by (simp add: unsigned_take_bit_eq take_bit_eq_mod unat_mod)
qed

text \<open>Reading returns the block; writing touches no other block than the one addressed.\<close>

lemma read32_mem:
  assumes "eeprom_ctrl hw mem" "eeprom_read32 hw off h = (r, v, h')"
  shows "mem h' = mem h" "r = PLX_EEP_STATUS_OK \<Longrightarrow> v = mem h (unat off div 4 mod 8192)"
proof -
  obtain r1 h1 where a: "eeprom_wait_for_access_ready hw h = (r1, h1)" by fastforce
  let ?st = "with_eep_cmd PLX_EEP_CMD_READ (with_eep_addr (off div 4) (eep_rd hw h1 PLX_EEP_STATUS_CONTROL))"
  obtain r2 h2 where s: "eeprom_send_cmd hw ?st PLX_EEP_STATUS_CONTROL h1 = (r2, h2)" by fastforce
  note m1 = access_ready_mem [OF assms(1) a]
  have c: "eep_cmd ?st = PLX_EEP_CMD_READ" by (simp add: eep_cmds)
  then have nw: "eep_cmd ?st \<noteq> PLX_EEP_CMD_WRITE" by (simp add: eep_cmds)
  have b: "eep_block ?st = unat off div 4 mod 8192" by (simp add: eep_block_with low_block unat_div)
  note m2 = send_cmd_mem(1) [OF assms(1) s nw] and rd = send_cmd_mem(4) [OF assms(1) s _ c]
  show "mem h' = mem h" using assms(2) a s m1 m2 by (auto simp: eeprom_read32_def Let_def split: if_splits)
  show "r = PLX_EEP_STATUS_OK \<Longrightarrow> v = mem h (unat off div 4 mod 8192)"
    using assms(2) a s m1 rd b by (auto simp: eeprom_read32_def Let_def split: if_splits)
qed

lemma write32_mem:
  assumes "eeprom_ctrl hw mem" "eeprom_write32 hw off v h = (r, h')" "x \<noteq> unat off div 4 mod 8192"
  shows "mem h' x = mem h x"
proof -
  obtain r1 h1 where a: "eeprom_wait_for_access_ready hw h = (r1, h1)" by fastforce
  let ?st = "with_eep_cmd PLX_EEP_CMD_WRITE_ENABLE (with_eep_addr 0 (eep_rd hw h1 PLX_EEP_STATUS_CONTROL))"
  obtain r2 h2 where s: "eeprom_send_cmd hw ?st PLX_EEP_STATUS_CONTROL h1 = (r2, h2)" by fastforce
  let ?st2 = "with_eep_cmd PLX_EEP_CMD_WRITE (with_eep_addr (ucast (off div 4)) ?st)"
  let ?h3 = "eep_wr hw v PLX_EEP_BUFFER h2"
  obtain r4 h4 where w: "eeprom_send_cmd hw ?st2 PLX_EEP_STATUS_CONTROL ?h3 = (r4, h4)" by fastforce
  note m1 = access_ready_mem [OF assms(1) a]
  have nw: "eep_cmd ?st \<noteq> PLX_EEP_CMD_WRITE" by (simp add: eep_cmds)
  note m2 = send_cmd_mem(1) [OF assms(1) s nw]
  have m3: "mem ?h3 = mem h2"
    using assms(1) by (auto simp: eeprom_ctrl_def PLX_EEP_BUFFER_def PLX_EEP_STATUS_CONTROL_def)
  have "unat off < 2 ^ LENGTH(16)" by (rule unsigned_less)
  then have "eep_block ?st2 = unat off div 4 mod 8192"
    by (simp add: eep_block_with low_block unat_div unsigned_ucast_eq take_bit_nat_eq_self)
  then have m4: "mem h4 x = mem ?h3 x" using send_cmd_mem(2) [OF assms(1) w] assms(3) by simp
  show ?thesis
    using assms(2) a s w m1 m2 m3 m4 by (auto simp: eeprom_write32_def Let_def split: if_splits)
qed

section \<open>A successful update\<close>

definition eep_byte :: "(nat \<Rightarrow> u32) \<Rightarrow> nat \<Rightarrow> u8" where
  "eep_byte m i = ucast (drop_bit (8 * (i mod 4)) (m (i div 4)))"

lemma no_bit8: "8 \<le> n \<Longrightarrow> \<not> bit (b :: u8) n"
  by (auto dest: bit_imp_le_length)

lemma le32_byte: "k < 4 \<Longrightarrow> ucast (drop_bit (8 * k) (le32 data off)) = data ! (off + k)"
proof -
  assume "k < 4"
  then have "k \<in> {0, 1, 2, 3}" by auto
  moreover have "(ucast (drop_bit 0 (le32 data off)) :: u8) = data ! off" "ucast (drop_bit 8 (le32 data off)) = data ! (off + 1)"
    "ucast (drop_bit 16 (le32 data off)) = data ! (off + 2)" "ucast (drop_bit 24 (le32 data off)) = data ! (off + 3)"
    by (rule bit_word_eqI; simp add: le32_def le16_def bit_simps no_bit8 numeral_3_eq_3)+
  ultimately show ?thesis by auto
qed

lemma le16_byte: "k < 2 \<Longrightarrow> ucast v = le16 data off \<Longrightarrow> ucast (drop_bit (8 * k) (v :: u32)) = data ! (off + k)"
proof -
  assume "k < 2" and v: "ucast v = le16 data off"
  then have "k \<in> {0, 1}" by auto
  have w: "bit v n = bit (le16 data off) n" if "n < 16" for n
    using arg_cong [OF v, of "\<lambda>w. bit w n"] that by (simp add: bit_simps)
  have "(ucast (drop_bit 0 v) :: u8) = data ! off" "ucast (drop_bit 8 v) = data ! (off + 1)"
    by (rule bit_word_eqI; simp add: w le16_def bit_simps no_bit8)+
  with \<open>k \<in> {0, 1}\<close> show ?thesis by auto
qed

lemma update_word:
  assumes "eeprom_ctrl hw mem" "eep_update_word hw data off h = (r, h')"
  shows "r = PLX_EEP_STATUS_OK \<Longrightarrow> mem h' (unat off div 4 mod 8192) = le32 data (unat off)"
    and "x \<noteq> unat off div 4 mod 8192 \<Longrightarrow> mem h' x = mem h x"
proof -
  obtain r1 h1 where w: "eeprom_write32 hw off (le32 data (unat off)) h = (r1, h1)" by fastforce
  obtain r2 v h2 where rd: "eeprom_read32 hw (ucast off) h1 = (r2, v, h2)" by (metis prod_cases3)
  have u: "unat (ucast off :: u32) = unat off" using unsigned_less [of off, where ?'a = nat]
    by (simp add: unsigned_ucast_eq take_bit_nat_eq_self)
  note m = read32_mem [OF assms(1) rd, unfolded u]
  show "r = PLX_EEP_STATUS_OK \<Longrightarrow> mem h' (unat off div 4 mod 8192) = le32 data (unat off)"
    using assms(2) w rd m by (auto simp: eep_update_word_def Let_def split: if_splits)
  show "x \<noteq> unat off div 4 mod 8192 \<Longrightarrow> mem h' x = mem h x"
    using assms(2) w rd m(1) write32_mem [OF assms(1) w, of x]
    by (auto simp: eep_update_word_def Let_def split: if_splits)
qed

lemma and_not_disjoint:
  fixes w m :: "'a::len word"
  assumes "w AND m = 0"
  shows "w AND NOT m = w"
proof (rule bit_word_eqI)
  fix n assume "n < LENGTH('a)"
  with assms show "bit (w AND NOT m) n = bit w n" by (auto simp: bit_eq_iff bit_simps)
qed

lemma aligned16:
  assumes "unat (off :: u16) mod 4 = 0"
  shows "off AND 3 = 0" "off AND NOT 3 = off"
proof -
  have "off AND 3 = take_bit 2 off" by (simp add: take_bit_eq_mask mask_eq_exp_minus_1)
  then have "unat (off AND 3) = unat off mod 4" by (simp add: unsigned_take_bit_eq take_bit_eq_mod unat_mod)
  then show z: "off AND 3 = 0" using assms by (simp add: unat_eq_zero)
  show "off AND NOT 3 = off" by (rule and_not_disjoint [OF z])
qed

lemma update_half:
  assumes "eeprom_ctrl hw mem" "eep_update_half hw data off h = (r, h')" "unat off mod 4 = 0"
  shows "r = PLX_EEP_STATUS_OK \<Longrightarrow> ucast (mem h' (unat off div 4 mod 8192)) = le16 data (unat off)"
    and "x \<noteq> unat off div 4 mod 8192 \<Longrightarrow> mem h' x = mem h x"
proof -
  have u: "unat (ucast off :: u32) = unat off" using unsigned_less [of off, where ?'a = nat]
    by (simp add: unsigned_ucast_eq take_bit_nat_eq_self)
  have al: "(ucast off :: u32) AND 3 = 0"
    using arg_cong [OF aligned16(1) [OF assms(3)], of "ucast :: u16 \<Rightarrow> u32"] by (simp add: unsigned_and_eq)
  note al = al and_not_disjoint [OF al]
  obtain r1 v1 h1 where rd: "eeprom_read32 hw (ucast off) h = (r1, v1, h1)" by (metis prod_cases3)
  let ?v = "ucast (le16 data (unat off)) OR (v1 AND 0xFFFF0000)"
  obtain r2 h2 where w: "eeprom_write32 hw off ?v h1 = (r2, h2)" by fastforce
  obtain r3 v3 h3 where rd2: "eeprom_read32 hw (ucast off) h2 = (r3, v3, h3)" by (metis prod_cases3)
  note m1 = read32_mem(1) [OF assms(1) rd] and m3 = read32_mem [OF assms(1) rd2, unfolded u]
  have eq: "eep_update_half hw data off h =
    (if r1 \<noteq> PLX_EEP_STATUS_OK then (r1, h1) else if r2 \<noteq> PLX_EEP_STATUS_OK then (r2, h2)
     else if r3 \<noteq> PLX_EEP_STATUS_OK then (r3, h3)
     else (if le16 data (unat off) \<noteq> ucast v3 then PLX_EEP_INTERNAL_ERROR else PLX_EEP_STATUS_OK, h3))"
    using rd w rd2 aligned16 [OF assms(3)] al
    by (simp add: eep_update_half_def eeprom_write16_def eeprom_read16_def Let_def)
  show "r = PLX_EEP_STATUS_OK \<Longrightarrow> ucast (mem h' (unat off div 4 mod 8192)) = le16 data (unat off)"
    using assms(2) eq m3 by (auto split: if_splits)
  show "x \<noteq> unat off div 4 mod 8192 \<Longrightarrow> mem h' x = mem h x"
    using assms(2) eq m1 m3(1) write32_mem [OF assms(1) w, of x] by (auto split: if_splits)
qed

lemma in_block:
  fixes off i n :: nat
  assumes "off mod 4 = 0" "off \<le> i" "i < off + n" "n \<le> 4"
  shows "i div 4 = off div 4" "i mod 4 < n" "off + i mod 4 = i"
proof -
  obtain q where q: "off = 4 * q" using assms(1) by auto
  obtain k where k: "i = 4 * q + k" "k < n" using assms(2,3) q by (metis add_less_cancel_left le_iff_add)
  then have "k < 4" using assms(4) by simp
  then show "i div 4 = off div 4" "i mod 4 < n" "off + i mod 4 = i" using k q by simp_all
qed

lemma update_loop:
  assumes c: "eeprom_ctrl hw mem" and n: "length data mod 4 \<in> {0, 2}" "length data \<le> 32768"
    and o: "unat off mod 4 = 0" "unat off \<le> length data"
  shows "\<exists>r h'. eep_update_loop hw data off h = Some (r, h') \<and>
    (\<forall>x. x < unat off div 4 \<or> length data \<le> 4 * x \<longrightarrow> mem h' x = mem h x) \<and>
    (r = PLX_EEP_STATUS_OK \<longrightarrow> (\<forall>i. unat off \<le> i \<longrightarrow> i < length data \<longrightarrow> eep_byte (mem h') i = data ! i))"
  using o
proof (induction "length data - unat off" arbitrary: off h rule: less_induct)
  case less
  let ?b = "unat off div 4"
  consider (fin) "unat off = length data" | (half) "length data - unat off = 2" | (word) "unat off + 4 \<le> length data"
  proof -
    have "length data mod 4 = 0 \<or> length data mod 4 = 2" using n(1) by auto
    then have "unat off = length data \<or> length data - unat off = 2 \<or> unat off + 4 \<le> length data"
      using less.prems by presburger
    then show thesis using that by blast
  qed
  then show ?case
  proof cases
    case fin
    then show ?thesis by (simp add: eep_update_loop.simps [of hw data off h])
  next
    case half
    obtain r h' where u: "eep_update_half hw data off h = (r, h')" by fastforce
    have b: "?b mod 8192 = ?b" using half n(2) by simp
    note uh = update_half [OF c u less.prems(1), unfolded b]
    have x: "mem h' x = mem h x" if "x < ?b \<or> length data \<le> 4 * x" for x
      using uh(2) [of x] that half less.prems(1) by auto
    have "eep_byte (mem h') i = data ! i" if r: "r = PLX_EEP_STATUS_OK" and i: "unat off \<le> i" "i < length data" for i
    proof -
      have "i < unat off + 2" using half i by simp
      note d = in_block [OF less.prems(1) i(1) this, simplified]
      show ?thesis using le16_byte [OF d(2) uh(1) [OF r]] d(1,3) by (simp add: eep_byte_def)
    qed
    then show ?thesis using half u x by (simp add: eep_update_loop.simps [of hw data off h])
  next
    case word
    have nh: "length data - unat off \<noteq> 2" using word by simp
    obtain r1 h1 where u: "eep_update_word hw data off h = (r1, h1)" by fastforce
    have b: "?b mod 8192 = ?b" using word n(2) by simp
    note uw = update_word [OF c u, unfolded b]
    have x1: "mem h1 x = mem h x" if "x < ?b \<or> length data \<le> 4 * x" for x
      using uw(2) [of x] that word less.prems(1) by auto
    show ?thesis
    proof (cases "r1 = PLX_EEP_STATUS_OK")
      case False
      then show ?thesis using word nh u x1 by (simp add: eep_update_loop.simps [of hw data off h])
    next
      case True
      have o4: "unat (off + 4) = unat off + 4" using word n(2) by (simp add: unat_word_ariths)
      have q: "(unat off + 4) div 4 = Suc ?b" by simp
      have "\<exists>r h'. eep_update_loop hw data (off + 4) h1 = Some (r, h') \<and>
          (\<forall>x. x < unat (off + 4) div 4 \<or> length data \<le> 4 * x \<longrightarrow> mem h' x = mem h1 x) \<and>
          (r = PLX_EEP_STATUS_OK \<longrightarrow> (\<forall>i. unat (off + 4) \<le> i \<longrightarrow> i < length data \<longrightarrow> eep_byte (mem h') i = data ! i))"
        by (rule less.hyps) (use word less.prems(1) in \<open>simp_all add: o4\<close>)
      then obtain r h' where h': "eep_update_loop hw data (off + 4) h1 = Some (r, h')"
        "\<And>x. x < Suc ?b \<or> length data \<le> 4 * x \<Longrightarrow> mem h' x = mem h1 x"
        "\<And>i. r = PLX_EEP_STATUS_OK \<Longrightarrow> unat off + 4 \<le> i \<Longrightarrow> i < length data \<Longrightarrow> eep_byte (mem h') i = data ! i"
        unfolding o4 q by blast
      have "eep_byte (mem h') i = data ! i" if "r = PLX_EEP_STATUS_OK" "unat off \<le> i" "i < length data" for i
      proof (cases "unat off + 4 \<le> i")
        case False
        then have "i < unat off + 4" by simp
        note d = in_block(1,3) [OF less.prems(1) that(2) this, simplified]
        have "mem h' ?b = le32 data (unat off)" using h'(2) [of ?b] uw(1) [OF True] by simp
        then show ?thesis using le32_byte [of "i mod 4" data "unat off"] d by (simp add: eep_byte_def)
      qed (use h'(3) that in blast)
      moreover have "mem h' x = mem h x" if "x < ?b \<or> length data \<le> 4 * x" for x
        using h'(2) [of x] x1 [of x] that by auto
      moreover have "eep_update_loop hw data off h = Some (r, h')"
        using word nh True u h'(1) by (simp add: eep_update_loop.simps [of hw data off h])
      ultimately show ?thesis by blast
    qed
  qed
qed

lemma validate_size:
  assumes "eeprom_validate data = PLX_EEP_STATUS_OK"
  shows "length data mod 4 \<in> {0, 2}" "length data \<le> 65540"
proof -
  have v: "8 < length data" "le16 data 2 mod 6 = 0" "length data = unat (le16 data 2) + 8"
    using assms by (auto simp: eeprom_validate_def PLX_EEP_HEADER_LENGTH_BYTE_def PLX_EEP_CRC_LENGTH_BYTE_def
        PLX_EEP_CONFIGURATION_ALIGNMENT_BYTE_def split: if_splits)
  have "unat (le16 data 2 mod 6) = unat (le16 data 2) mod 6" by (simp add: unat_mod)
  then have "unat (le16 data 2) mod 6 = 0" using v(2) by simp
  moreover have "unat (le16 data 2) < 2 ^ LENGTH(16)" by (rule unsigned_less)
  ultimately show "length data mod 4 \<in> {0, 2}" "length data \<le> 65540" using v(3) by (simp, presburger)+
qed

text \<open>
  C35: Updating the EEPROM with a file of at most 32768 bytes returns. A file that is not valid changes
  nothing; when the update reports success, every byte of the file is in the EEPROM at its offset,
  whether or not the writes of the EEPROM are reliable; and the blocks behind the file are never
  changed. The bound is needed: the block address has 13 bits, so that the end of a longer file, which is
  accepted, is written over its beginning.
\<close>
theorem update_eeprom_verified:
  assumes "eeprom_ctrl hw mem" "length data \<le> 32768"
  shows "\<exists>r h'. plx_update_eeprom hw data h = Some (r, h') \<and> (eeprom_validate data \<noteq> PLX_EEP_STATUS_OK \<longrightarrow> h' = h) \<and>
    (\<forall>x. length data \<le> 4 * x \<longrightarrow> mem h' x = mem h x) \<and>
    (r = PLX_EEP_STATUS_OK \<longrightarrow> (\<forall>i < length data. eep_byte (mem h') i = data ! i))"
proof (cases "eeprom_validate data = PLX_EEP_STATUS_OK")
  case False
  then show ?thesis by (simp add: plx_update_eeprom_def)
next
  case True
  define h1 where "h1 = (if eep_rd hw h PLX_EEP_ADDRESS_BYTE AND 3 \<noteq> 0
    then eep_wr hw (eep_rd hw h PLX_EEP_ADDRESS_BYTE AND
       (PLX_EEP_3RD_ADDRES_BYTE_RSVD_MASK OR PLX_EEP_EXPANSION_ROM_BASE_ADDR_MASK)) PLX_EEP_ADDRESS_BYTE h else h)"
  have "mem h1 = mem h"
    using assms(1) by (auto simp: h1_def eeprom_ctrl_def PLX_EEP_ADDRESS_BYTE_def PLX_EEP_STATUS_CONTROL_def)
  moreover have "plx_update_eeprom hw data h = eep_update_loop hw data 0 h1"
    using True by (simp add: plx_update_eeprom_def h1_def Let_def)
  ultimately show ?thesis
    using update_loop [OF assms(1) validate_size(1) [OF True] assms(2), of 0 h1] True by auto
qed

section \<open>The check sum\<close>

text \<open>One bit of the check sum is a step of a linear feedback shift register, which loses nothing.\<close>

definition lfsr :: "u32 \<Rightarrow> u32" where
  "lfsr t = push_bit 1 t XOR (if bit t 31 then PLX_EEP_CONST_CRC_XOR_VALUE else 0)"

lemma xor_cancel: "(c :: 'a::len word) XOR w = c' XOR w \<longleftrightarrow> c = c'"
  by (metis xor.assoc xor.right_neutral xor_self_eq)

lemma inj_lfsr: "inj lfsr"
proof (rule injI)
  fix a b assume e: "lfsr a = lfsr b"
  have "bit (lfsr t) 0 = bit t 31" for t
  proof -
    have "\<not> bit (push_bit 1 t) 0" by (simp only: bit_push_bit_iff) simp
    then show ?thesis unfolding lfsr_def bit_xor_iff by (simp add: PLX_EEP_CONST_CRC_XOR_VALUE_def)
  qed
  with e have m: "bit a 31 = bit b 31" by metis
  with e have p: "push_bit 1 a = push_bit 1 b" unfolding lfsr_def by (simp only: xor_cancel)
  show "a = b"
  proof (rule bit_word_eqI)
    fix n assume n: "n < LENGTH(32)"
    show "bit a n = bit b n"
    proof (cases "n = 31")
      case False
      then show ?thesis using n arg_cong [OF p, of "\<lambda>w. bit w (Suc n)"] unfolding bit_push_bit_iff by simp
    qed (use m in simp)
  qed
qed

lemma crc_word_lfsr: "crc_word w crc = (lfsr ^^ 32) (crc XOR w)"
proof -
  have "fold (crc_bit w) [0..<n] crc XOR push_bit n w = (lfsr ^^ n) (crc XOR w)" for n
  proof (induction n)
    case (Suc n)
    let ?s = "fold (crc_bit w) [0..<n] crc"
    have "lfsr (?s XOR push_bit n w) = crc_bit w n ?s XOR push_bit (Suc n) w"
      unfolding lfsr_def crc_bit_def push_bit_xor push_bit_push_bit plus_1_eq_Suc by (simp only: ac_simps)
    then show ?case using Suc by simp
  qed simp
  from this [of 32] show ?thesis by (simp add: crc_word_def)
qed

lemma crc_word_eq: "crc_word w c = crc_word w' c' \<longleftrightarrow> c XOR w = c' XOR w'"
  unfolding crc_word_lfsr using inj_eq [OF inj_fn [OF inj_lfsr]] by blast

text \<open>A controller that completes every command at once, and a valid file.\<close>

definition eep_sim :: "(u32 \<times> u32 \<times> (nat \<Rightarrow> u32)) eep_hw" where
  "eep_sim = \<lparr>eep_rd = (\<lambda>(st, buf, m) off. if off = PLX_EEP_STATUS_CONTROL then st AND NOT 0x71040000
        else if off = PLX_EEP_BUFFER then buf else 0),
     eep_wr = (\<lambda>v off (st, buf, m).
        if off = PLX_EEP_STATUS_CONTROL then
          (v, if eep_cmd v = PLX_EEP_CMD_READ then m (eep_block v) else buf,
           if eep_cmd v = PLX_EEP_CMD_WRITE then m(eep_block v := buf) else m)
        else if off = PLX_EEP_BUFFER then (st, v, m) else (st, buf, m)),
     eep_sleep = (\<lambda>h. h)\<rparr>"

definition eep_file :: "u8 list" where
  "eep_file = [90, 0, 6, 0, 96, 2, 1, 2, 3, 4, 20, 214, 115, 70]"

lemma eep_sim_ctrl: "eeprom_ctrl eep_sim (\<lambda>(st, buf, m). m)"
proof -
  have i: "(eep_sleep eep_sim ^^ n) h = h" for n h by (induction n) (simp_all add: eep_sim_def)
  have "eep_cmd (v AND NOT 0x71040000) = eep_cmd v" for v
  proof -
    have "eep_cmd w = drop_bit 13 (w AND 0xe000)" for w by (simp add: eep_cmd_def)
    then show ?thesis by (simp add: and.assoc)
  qed
  then show ?thesis
    unfolding eeprom_ctrl_def i
    by (auto simp: eep_sim_def PLX_EEP_BUFFER_def PLX_EEP_STATUS_CONTROL_def Let_def eep_cmds split: prod.splits)
qed

lemma sim_status: "\<not> eep_cmd_status (eep_rd eep_sim h PLX_EEP_STATUS_CONTROL)"
  "eep_access_ready (eep_rd eep_sim h PLX_EEP_STATUS_CONTROL)"
proof -
  obtain st buf m where h: "h = (st, buf, m)" by (metis prod_cases3)
  have "\<not> bit (0x71040000 :: u32) 18 \<Longrightarrow> False" by simp
  then show "\<not> eep_cmd_status (eep_rd eep_sim h PLX_EEP_STATUS_CONTROL)"
    unfolding eep_cmd_status_def h eep_sim_def by (auto simp: bit_and_iff bit_not_iff)
  show "eep_access_ready (eep_rd eep_sim h PLX_EEP_STATUS_CONTROL)"
    unfolding eep_access_ready_def h eep_sim_def by (simp add: and.assoc)
qed

lemma sim_send: "eeprom_send_cmd eep_sim v off h = (PLX_EEP_STATUS_OK, eep_wr eep_sim v off h)"
  by (simp add: eeprom_send_cmd_def eeprom_wait_for_cmd_complete_def PLX_EEP_WAIT_TRIES_def eval_nat_numeral sim_status(1))

lemma sim_ready_tries: "eeprom_ready_tries eep_sim (Suc n) v h = (PLX_EEP_STATUS_OK, eep_wr eep_sim v PLX_EEP_STATUS_CONTROL h)"
  by (simp add: sim_send sim_status(2))

lemma sim_ready: "\<exists>v. eeprom_wait_for_access_ready eep_sim h = (PLX_EEP_STATUS_OK, eep_wr eep_sim v PLX_EEP_STATUS_CONTROL h) \<and>
   eep_cmd v = PLX_EEP_CMD_READ_STATUS"
proof -
  let ?v = "with_eep_cmd PLX_EEP_CMD_READ_STATUS (eep_rd eep_sim h PLX_EEP_STATUS_CONTROL) AND NOT 0x71000000"
  have n: "PLX_EEP_WAIT_TRIES = Suc 999" by (simp add: PLX_EEP_WAIT_TRIES_def)
  have "eeprom_wait_for_access_ready eep_sim h = (PLX_EEP_STATUS_OK, eep_wr eep_sim ?v PLX_EEP_STATUS_CONTROL h)"
    unfolding eeprom_wait_for_access_ready_def n by (rule sim_ready_tries)
  moreover have "eep_cmd ?v = PLX_EEP_CMD_READ_STATUS" unfolding eep_cmd_keep by (simp add: eep_cmds)
  ultimately show ?thesis by blast
qed

lemma sim_read: "\<exists>st. eeprom_read32 eep_sim off (st', buf, m) = (PLX_EEP_STATUS_OK, m (unat off div 4 mod 8192), st, m (unat off div 4 mod 8192), m)"
proof -
  obtain v where v: "eeprom_wait_for_access_ready eep_sim (st', buf, m) =
      (PLX_EEP_STATUS_OK, eep_wr eep_sim v PLX_EEP_STATUS_CONTROL (st', buf, m))" "eep_cmd v = PLX_EEP_CMD_READ_STATUS"
    using sim_ready by blast
  then show ?thesis
    by (simp add: eeprom_read32_def sim_send Let_def)
      (simp add: eep_sim_def eep_block_with low_block unat_div eep_cmds PLX_EEP_STATUS_CONTROL_def PLX_EEP_BUFFER_def)
qed

lemma sim_write: "\<exists>st. eeprom_write32 eep_sim off v (st', buf, m) = (PLX_EEP_STATUS_OK, st, v, m(unat off div 4 mod 8192 := v))"
proof -
  obtain w where w: "eeprom_wait_for_access_ready eep_sim (st', buf, m) =
      (PLX_EEP_STATUS_OK, eep_wr eep_sim w PLX_EEP_STATUS_CONTROL (st', buf, m))" "eep_cmd w = PLX_EEP_CMD_READ_STATUS"
    using sim_ready by blast
  have "unat off < 2 ^ LENGTH(16)" by (rule unsigned_less)
  with w show ?thesis
    by (simp add: eeprom_write32_def sim_send Let_def)
      (simp add: eep_sim_def eep_block_with low_block unat_div unsigned_ucast_eq take_bit_nat_eq_self eep_cmds
        PLX_EEP_STATUS_CONTROL_def PLX_EEP_BUFFER_def)
qed

lemma sim_word: "\<exists>st buf m. eep_update_word eep_sim data off h = (PLX_EEP_STATUS_OK, st, buf, m)"
proof -
  obtain st buf m where h: "h = (st, buf, m)" by (metis prod_cases3)
  have u: "unat (ucast off :: u32) = unat off" using unsigned_less [of off, where ?'a = nat]
    by (simp add: unsigned_ucast_eq take_bit_nat_eq_self)
  obtain st2 where w: "eeprom_write32 eep_sim off (le32 data (unat off)) h =
     (PLX_EEP_STATUS_OK, st2, le32 data (unat off), m(unat off div 4 mod 8192 := le32 data (unat off)))"
    using sim_write h by blast
  obtain st3 where "eeprom_read32 eep_sim (ucast off) (st2, le32 data (unat off), m(unat off div 4 mod 8192 := le32 data (unat off))) =
     (PLX_EEP_STATUS_OK, le32 data (unat off), st3, le32 data (unat off), m(unat off div 4 mod 8192 := le32 data (unat off)))"
    using sim_read [of "ucast off" st2 _ "m(unat off div 4 mod 8192 := le32 data (unat off))"] unfolding u by auto
  with w show ?thesis by (simp add: eep_update_word_def Let_def)
qed

lemma sim_half12: "\<exists>st buf m. eep_update_half eep_sim data 12 h = (PLX_EEP_STATUS_OK, st, buf, m)"
proof -
  obtain st buf m where h: "h = (st, buf, m)" by (metis prod_cases3)
  obtain st1 where r: "eeprom_read32 eep_sim 12 h = (PLX_EEP_STATUS_OK, m 3, st1, m 3, m)"
    using sim_read [of 12 st buf m] h by auto
  define v where "v = ucast (le16 data 12) OR (m 3 AND 0xFFFF0000)"
  obtain st2 where w: "eeprom_write32 eep_sim 12 v (st1, m 3, m) = (PLX_EEP_STATUS_OK, st2, v, m(3 := v))"
    using sim_write [of 12 v st1 "m 3" m] by auto
  obtain st3 where r2: "eeprom_read32 eep_sim 12 (st2, v, m(3 := v)) = (PLX_EEP_STATUS_OK, v, st3, v, m(3 := v))"
    using sim_read [of 12 st2 v "m(3 := v)"] by auto
  have ff: "(0xFFFF0000 :: u32) = push_bit 16 (mask 16)" by (simp add: mask_eq_exp_minus_1)
  have "(ucast (m 3 AND 0xFFFF0000) :: u16) = 0"
    unfolding ff by (rule bit_word_eqI) (simp add: bit_simps)
  then have "(ucast v :: u16) = le16 data 12"
    unfolding v_def by (rule_tac bit_word_eqI) (auto simp: bit_eq_iff bit_simps)
  with r w r2 show ?thesis
    by (simp add: eep_update_half_def eeprom_write16_def eeprom_read16_def Let_def flip: v_def)
qed

lemma lfsr32: "(lfsr ^^ 32) x = (lfsr ^^ 8) ((lfsr ^^ 8) ((lfsr ^^ 8) ((lfsr ^^ 8) x)))"
  by (simp flip: funpow_add [THEN fun_cong, simplified o_apply])

lemma lfsr8: "(lfsr ^^ 8) x = lfsr (lfsr (lfsr (lfsr (lfsr (lfsr (lfsr (lfsr x)))))))"
  by (simp add: eval_nat_numeral)

lemma eep_file_crc:
  "(lfsr ^^ 8) (- 0x2600007) = 0xfd06831a"
  "(lfsr ^^ 8) 0xfd06831a = 0x647a601a"
  "(lfsr ^^ 8) 0x647a601a = 0x11c8da19"
  "(lfsr ^^ 8) 0x11c8da19 = 0xc9d145db"
  "(lfsr ^^ 8) 0xcdd247da = 0x54149f5"
  "(lfsr ^^ 8) 0x54149f5 = 0x411ee6c7"
  "(lfsr ^^ 8) 0x411ee6c7 = 0x1a9ca7ab"
  "(lfsr ^^ 8) 0x1a9ca7ab = 0x4673d614"
  unfolding lfsr8 by (simp_all add: lfsr_def PLX_EEP_CONST_CRC_XOR_VALUE_def)

lemma eep_file_valid: "eeprom_validate eep_file = PLX_EEP_STATUS_OK"
proof -
  have "le16 eep_file 2 = 6" "le32 eep_file 2 = 0x02600006" "le32 eep_file 6 = 0x04030201" "le32 eep_file 10 = 0x4673d614"
    by (simp_all add: eep_file_def le32_def le16_def)
  moreover have "length eep_file = 14" "eep_file ! 0 = 0x5A" by (simp_all add: eep_file_def)
  ultimately show ?thesis
    by (simp add: eeprom_validate_def eeprom_check_crc_def crc_loop.simps crc_word_lfsr lfsr32 eep_file_crc
        PLX_EEP_HEADER_LENGTH_BYTE_def PLX_EEP_CRC_LENGTH_BYTE_def PLX_EEP_CONFIGURATION_ALIGNMENT_BYTE_def
        PLX_EEP_VALIDATION_HEADER_def PLX_EEP_START_CRC_OFFSET_def)
qed

lemma eep_file_written: "\<exists>h'. plx_update_eeprom eep_sim eep_file h = Some (PLX_EEP_STATUS_OK, h')"
proof -
  have l: "length eep_file = 14" by (simp add: eep_file_def)
  have step: "\<exists>h'. eep_update_loop eep_sim eep_file off h = Some (PLX_EEP_STATUS_OK, h')"
    if "unat off < 12" "\<And>h. \<exists>h'. eep_update_loop eep_sim eep_file (off + 4) h = Some (PLX_EEP_STATUS_OK, h')" for off h
    using that sim_word [of eep_file off h] by (subst eep_update_loop.simps) (auto simp: l)
  have "\<exists>h'. eep_update_loop eep_sim eep_file 12 h = Some (PLX_EEP_STATUS_OK, h')" for h
    using sim_half12 [of eep_file h] by (subst eep_update_loop.simps) (auto simp: l)
  then have "\<exists>h'. eep_update_loop eep_sim eep_file 8 h = Some (PLX_EEP_STATUS_OK, h')" for h
    by (rule_tac step) simp_all
  then have "\<exists>h'. eep_update_loop eep_sim eep_file 4 h = Some (PLX_EEP_STATUS_OK, h')" for h
    by (rule_tac step) simp_all
  then have "\<exists>h'. eep_update_loop eep_sim eep_file 0 h = Some (PLX_EEP_STATUS_OK, h')" for h
    by (rule_tac step) simp_all
  then show ?thesis by (simp add: plx_update_eeprom_def eep_file_valid Let_def)
qed

theorem update_eeprom_verified_witness:
  "\<exists>st buf m. plx_update_eeprom eep_sim eep_file (0, 0, \<lambda>_. 0) = Some (PLX_EEP_STATUS_OK, st, buf, m) \<and>
     (\<forall>i < 14. eep_byte m i = eep_file ! i)"
  using update_eeprom_verified [OF eep_sim_ctrl, of eep_file "(0, 0, \<lambda>_. 0)"] eep_file_written [of "(0, 0, \<lambda>_. 0)"]
  by (auto simp: eep_file_def)

lemma crc_loop_inj: "crc_loop data e off c = crc_loop data e off c' \<longleftrightarrow> c = c'"
proof (induction "e - off" arbitrary: off c c' rule: less_induct)
  case less
  then show ?case
    by (cases "off < e") (simp_all add: crc_loop.simps [of data e off] crc_word_eq xor_cancel)
qed

lemma crc_loop_cong:
  assumes "\<And>i. off \<le> i \<Longrightarrow> data ! i = data' ! i"
  shows "crc_loop data e off c = crc_loop data' e off c"
  using assms
proof (induction "e - off" arbitrary: off c rule: less_induct)
  case less
  then have "le16 data off = le16 data' off" "le32 data off = le32 data' off" by (simp_all add: le32_def le16_def)
  then show ?case
    using less by (cases "off < e") (simp_all add: crc_loop.simps [of _ e off])
qed


lemma crc_loop_word:
  assumes "off + 4 * k + 4 \<le> e" "\<And>i. i \<notin> {off + 4 * k..<off + 4 * k + 4} \<Longrightarrow> data ! i = data' ! i"
    "crc_loop data e off c = crc_loop data' e off c"
  shows "le32 data (off + 4 * k) = le32 data' (off + 4 * k)"
  using assms
proof (induction k arbitrary: off c)
  case 0
  then have "crc_loop data e (off + 4) (crc_word (le32 data off) c) = crc_loop data' e (off + 4) (crc_word (le32 data' off) c)"
    by (simp add: crc_loop.simps [of _ e off] split: if_splits)
  also have "\<dots> = crc_loop data e (off + 4) (crc_word (le32 data' off) c)"
    using 0 by (intro crc_loop_cong) simp
  finally have "c XOR le32 data off = c XOR le32 data' off" by (simp only: crc_loop_inj crc_word_eq)
  then have "le32 data off = le32 data' off" by (simp only: xor_cancel [of _ c] xor.commute [of c])
  then show ?case by simp
next
  case (Suc k)
  have "le32 data off = le32 data' off" using Suc.prems(2) by (simp add: le32_def le16_def)
  then have "crc_loop data e (off + 4) (crc_word (le32 data off) c) = crc_loop data' e (off + 4) (crc_word (le32 data off) c)"
    using Suc.prems(1,3) by (simp add: crc_loop.simps [of _ e off] split: if_splits)
  then have "le32 data (off + 4 + 4 * k) = le32 data' (off + 4 + 4 * k)"
    using Suc.prems(1,2) by (intro Suc.IH) (simp_all add: ac_simps)
  then show ?case by (simp add: ac_simps)
qed

text \<open>
  The check sum detects every change within one of the aligned four-byte words it covers: two files
  of the same length that both pass the check and differ in one such word only are equal.
\<close>
theorem crc_detects_word:
  assumes "eeprom_check_crc data = PLX_EEP_STATUS_OK" "eeprom_check_crc data' = PLX_EEP_STATUS_OK"
    "length data' = length data" "4 * k + 10 \<le> length data"
    "\<forall>i. i \<notin> {4 * k + 2..<4 * k + 6} \<longrightarrow> data ! i = data' ! i"
  shows "data = data'"
proof (rule nth_equalityI)
  let ?e = "length data - 4"
  have "data ! (?e + j) = data' ! (?e + j)" for j
  proof -
    have "?e + j \<notin> {4 * k + 2..<4 * k + 6}" using assms(4) unfolding atLeastLessThan_iff by linarith
    then show ?thesis using assms(5) by blast
  qed
  note d = this [of 0] this [of 1] this [of 2] this [of 3]
  have "le32 data ?e = le32 data' ?e" using d by (simp add: le32_def le16_def numeral_3_eq_3)
  then have "crc_loop data ?e 2 (- 1) = crc_loop data' ?e 2 (- 1)"
    using assms(1-3) by (simp add: eeprom_check_crc_def Let_def PLX_EEP_CRC_LENGTH_BYTE_def PLX_EEP_START_CRC_OFFSET_def
        split: if_splits)
  then have "le32 data (2 + 4 * k) = le32 data' (2 + 4 * k)"
    using assms(4,5) by (intro crc_loop_word) auto
  then have w: "data ! (2 + 4 * k + j) = data' ! (2 + 4 * k + j)" if "j < 4" for j
    using le32_byte [OF that, of data "2 + 4 * k"] le32_byte [OF that, of data' "2 + 4 * k"] by simp
  fix i
  show "data ! i = data' ! i"
  proof (cases "i \<in> {4 * k + 2..<4 * k + 6}")
    case True
    then have "2 + 4 * k + (i - (2 + 4 * k)) = i" "i - (2 + 4 * k) < 4" by auto
    then show ?thesis using w by metis
  qed (use assms(5) in blast)
qed (use assms(3) in simp)

lemma crc_valid: "eeprom_validate data = PLX_EEP_STATUS_OK \<Longrightarrow> eeprom_check_crc data = PLX_EEP_STATUS_OK"
  by (simp add: eeprom_validate_def split: if_splits)

theorem crc_detects_word_witness:
  "eeprom_check_crc eep_file = PLX_EEP_STATUS_OK \<and> eeprom_check_crc (eep_file[7 := 5]) \<noteq> PLX_EEP_STATUS_OK"
proof -
  have "eep_file \<noteq> eep_file[7 := 5]" "length eep_file = 14" by (simp_all add: eep_file_def)
  moreover have "\<forall>i. i \<notin> {4 * 1 + 2..<4 * 1 + 6} \<longrightarrow> eep_file ! i = eep_file[7 := 5] ! i" by auto
  ultimately show ?thesis
    using crc_detects_word [of eep_file "eep_file[7 := 5]" 1] crc_valid [OF eep_file_valid] by auto
qed

section \<open>The largest file\<close>

text \<open>The largest file that the header can describe has no offset at which the loop would end.\<close>

lemma update_loop_max:
  assumes "eep_update_loop hw data off h = Some y" "length data = 65540"
  shows "\<exists>off h. fst (eep_update_word hw data off h) \<noteq> PLX_EEP_STATUS_OK \<and> y = eep_update_word hw data off h"
proof -
  have "length data = 65540 \<longrightarrow> (\<exists>off h. fst (eep_update_word hw data off h) \<noteq> PLX_EEP_STATUS_OK \<and> y = eep_update_word hw data off h)"
  proof (rule eep_update_loop.raw_induct [OF _ assms(1), of "\<lambda>hw data off h y. length data = 65540 \<longrightarrow>
        (\<exists>off h. fst (eep_update_word hw data off h) \<noteq> PLX_EEP_STATUS_OK \<and> y = eep_update_word hw data off h)"], intro impI)
    fix f :: "'a eep_hw \<Rightarrow> u8 list \<Rightarrow> u16 \<Rightarrow> 'a \<Rightarrow> (plx_eep_retval \<times> 'a) option" and hw data off h y
    assume IH: "\<And>hw data off h y. f hw data off h = Some y \<Longrightarrow> length data = 65540 \<longrightarrow>
          (\<exists>off h. fst (eep_update_word hw data off h) \<noteq> PLX_EEP_STATUS_OK \<and> y = eep_update_word hw data off h)"
      and body: "(if unat off < length data then
          if length data - unat off = 2 then Some (eep_update_half hw data off h)
          else (case eep_update_word hw data off h of
             (ret, h1) \<Rightarrow> if ret \<noteq> PLX_EEP_STATUS_OK then Some (ret, h1) else f hw data (off + 4) h1)
        else Some (PLX_EEP_STATUS_OK, h)) = Some y" and len: "length data = 65540"
    have "unat off < 65536" using unsigned_less [of off, where ?'a = nat] by simp
    then have "unat off < length data" "length data - unat off \<noteq> 2" using len by simp_all
    then show "\<exists>off h. fst (eep_update_word hw data off h) \<noteq> PLX_EEP_STATUS_OK \<and> y = eep_update_word hw data off h"
    proof (cases "fst (eep_update_word hw data off h) = PLX_EEP_STATUS_OK")
      case True
      then have "f hw data (off + 4) (snd (eep_update_word hw data off h)) = Some y"
        using body \<open>unat off < length data\<close> \<open>length data - unat off \<noteq> 2\<close> by (simp add: case_prod_beta)
      from IH [OF this] len show ?thesis by blast
    next
      case False
      then have "y = eep_update_word hw data off h"
        using body \<open>unat off < length data\<close> \<open>length data - unat off \<noteq> 2\<close> by (simp add: case_prod_beta)
      then show ?thesis using False by blast
    qed
  qed
  with assms(2) show ?thesis by blast
qed

text \<open>
  C36: Writing a valid file of the largest size that the 16-bit size field can describe does not end as long as
  every word is written and verified, because the 16-bit offset wraps around before it reaches the end of the
  file; it can only end with the error of a word.
\<close>
theorem update_eeprom_max:
  assumes "eeprom_validate data = PLX_EEP_STATUS_OK" "length data = 65540"
  shows "((\<forall>off h. fst (eep_update_word hw data off h) = PLX_EEP_STATUS_OK) \<longrightarrow> plx_update_eeprom hw data h = None) \<and>
    (\<forall>r h'. plx_update_eeprom hw data h = Some (r, h') \<longrightarrow>
       r \<noteq> PLX_EEP_STATUS_OK \<and> (\<exists>off h1. eep_update_word hw data off h1 = (r, h')))"
proof -
  obtain h1 where run: "plx_update_eeprom hw data h = eep_update_loop hw data 0 h1"
    using assms(1) by (simp add: plx_update_eeprom_def Let_def)
  show ?thesis
  proof (cases "eep_update_loop hw data 0 h1")
    case (Some y)
    obtain off h2 where "fst (eep_update_word hw data off h2) \<noteq> PLX_EEP_STATUS_OK" "y = eep_update_word hw data off h2"
      using update_loop_max [OF Some assms(2)] by blast
    then show ?thesis using run Some by (metis fst_conv option.inject)
  qed (simp add: run)
qed

text \<open>Such a file exists: any contents, with the check sum of it at the end.\<close>

lemma crc_loop_prefix:
  assumes "\<forall>i < e. data ! i = data' ! i" "even (e - off)"
  shows "crc_loop data e off c = crc_loop data' e off c"
  using assms(2)
proof (induction "e - off" arbitrary: off c rule: less_induct)
  case less
  show ?case
  proof (cases "off < e")
    case True
    have w: "e - off = 2 \<or> off + 4 \<le> e" using True less.prems by presburger
    then have v: "le16 data off = le16 data' off" "e - off \<noteq> 2 \<longrightarrow> le32 data off = le32 data' off"
      using assms(1) True by (auto simp: le32_def le16_def)
    have "crc_loop data e (off + 4) x = crc_loop data' e (off + 4) x" for x
      by (rule less.hyps) (use True less.prems in \<open>auto simp: even_diff_nat\<close>)
    then show ?thesis using v True by (simp add: crc_loop.simps [of _ e off])
  qed (simp add: crc_loop.simps)
qed

definition largest_contents :: "u8 list" where
  "largest_contents = [0x5A, 0, 0xFC, 0xFF] @ replicate 65532 0"

definition crc_bytes :: "u32 \<Rightarrow> u8 list" where
  "crc_bytes c = [ucast c, ucast (drop_bit 8 c), ucast (drop_bit 16 c), ucast (drop_bit 24 c)]"

definition largest_file :: "u8 list" where
  "largest_file = largest_contents @ crc_bytes (crc_loop largest_contents 65536 2 (- 1))"

lemma crc_bytes_le32:
  assumes "length xs = n"
  shows "le32 (xs @ crc_bytes c) n = c"
proof -
  have b: "(xs @ crc_bytes c) ! n = ucast c" "(xs @ crc_bytes c) ! (n + 1) = ucast (drop_bit 8 c)"
    "(xs @ crc_bytes c) ! (n + 2) = ucast (drop_bit 16 c)" "(xs @ crc_bytes c) ! (n + 2 + 1) = ucast (drop_bit 24 c)"
    using assms by (simp_all add: crc_bytes_def nth_append numeral_2_eq_2)
  show ?thesis
    unfolding le32_def le16_def b
  proof (rule bit_word_eqI)
    fix k assume "k < LENGTH(32)"
    then show "bit (ucast (ucast (ucast c :: u8) OR push_bit 8 (ucast (ucast (drop_bit 8 c) :: u8)) :: u16) OR
        push_bit 16 (ucast (ucast (ucast (drop_bit 16 c) :: u8) OR push_bit 8 (ucast (ucast (drop_bit 24 c) :: u8)) :: u16)) :: u32) k = bit c k"
      by (cases "k < 16") (auto simp: bit_simps)
  qed
qed

lemma largest_file_valid: "eeprom_validate largest_file = PLX_EEP_STATUS_OK" "length largest_file = 65540"
proof -
  have len: "length largest_contents = 65536" by (simp add: largest_contents_def)
  then show n: "length largest_file = 65540" by (simp add: largest_file_def crc_bytes_def)
  have same: "\<forall>i < 65536. largest_file ! i = largest_contents ! i" using len by (simp add: largest_file_def nth_append)
  have "crc_loop largest_file 65536 2 (- 1) = crc_loop largest_contents 65536 2 (- 1)"
    by (rule crc_loop_prefix [OF same]) simp
  also have "\<dots> = le32 largest_file 65536" unfolding largest_file_def by (rule crc_bytes_le32 [OF len, symmetric])
  finally have crc: "eeprom_check_crc largest_file = PLX_EEP_STATUS_OK"
    using n by (simp add: eeprom_check_crc_def PLX_EEP_CRC_LENGTH_BYTE_def PLX_EEP_START_CRC_OFFSET_def)
  have head: "largest_file ! 0 = 0x5A" "largest_file ! 2 = 0xFC" "largest_file ! 3 = 0xFF"
    using same by (simp_all add: largest_contents_def numeral_2_eq_2 numeral_3_eq_3)
  have "le16 largest_file 2 = 65532" using head by (simp add: le16_def)
  then show "eeprom_validate largest_file = PLX_EEP_STATUS_OK"
    using crc n head(1) by (simp add: eeprom_validate_def PLX_EEP_HEADER_LENGTH_BYTE_def PLX_EEP_CRC_LENGTH_BYTE_def
        PLX_EEP_CONFIGURATION_ALIGNMENT_BYTE_def PLX_EEP_VALIDATION_HEADER_def)
qed

theorem update_eeprom_max_witness:
  "eeprom_validate largest_file = PLX_EEP_STATUS_OK \<and> plx_update_eeprom eep_sim largest_file (0, 0, \<lambda>_. 0) = None"
proof -
  have "\<forall>off h. fst (eep_update_word eep_sim largest_file off h) = PLX_EEP_STATUS_OK" using sim_word by (metis fst_conv)
  then show ?thesis
    using update_eeprom_max [OF largest_file_valid, of eep_sim "(0, 0, \<lambda>_. 0)"] largest_file_valid(1) by blast
qed

end
