(* ===== verification/Spec2Isabelle.thy ===== *)
theory Spec2Isabelle
  imports Vcablk_Device Virtio_Runs Vringh_Safe Vop_Transfer_Facts Gap_Ring Plx_Dma_Run Plx_Hw_Facts Vca_State Plx_Lbp_Facts Plx_Eeprom
begin

text \<open>
  Verification of the kernel drivers of VCAC-SW (\<open>src/modules/vca\<close>), the software of a PCIe card with
  several CPUs behind a PLX switch. The driver of the host and the driver of the card run the same code
  on the two sides of the switch; a card is booted through the switch, and afterwards the two sides share
  a block device and a virtual network through windows into each other's memory.

  \<^bold>\<open>Parts and theories.\<close> Each theory models one part and proves what makes it correct. The definitions
  have the names of the C functions; what has another name is a piece of one (a loop, a \<open>switch\<close>).

  \<^item> \<open>Vca_Prelude\<close>: machine words, error numbers (an operation that may fail returns
    \<open>errno + 'a\<close>), and shared lemmas.
  \<^item> \<open>Vcablk_Ring\<close>: the counters of the request and response rings of the block device
    (\<open>blockio/vcablk_common/vcablk.h\<close>). A locale states the contract of ring counters; the macros are an
    interpretation of it and implement a bounded queue.
  \<^item> \<open>Gap_Ring\<close>: the same contract for rings that keep one slot empty (the DMA descriptors).
  \<^item> \<open>Vcablk_Pool\<close>: the pool of request structures (\<open>blockio/vcablk/vcablk_pool.h\<close>): no element is handed
    out twice, the free list is a queue.
  \<^item> \<open>Vcablk_Common\<close>: the elements of the two rings (\<open>blockio/vcablk_common/vcablk_common.h\<close>), and a ring as a queue.
  \<^item> \<open>Vcablk_Media\<close>: the storage of a disk, memory or a file (\<open>vcablk_bcknd/vcablk_bcknd_media.c\<close>): what is written
    is read back; the check of the range wraps around.
  \<^item> \<open>Vcablk_Disk\<close>, \<open>Vcablk_Disk_Facts\<close>: the device of the card (\<open>vcablk/vcablk_disk.c\<close>): a request is cut into
    parts of at most 32 pages, each under a context whose number is the cookie of its elements.
  \<^item> \<open>Vcablk_Front\<close>: creation, start, stop and destruction of a device, and the commands of the host in the
    shared page (\<open>vcablk/vcablk.c\<close>): every command is answered, the mapped rings are those of the devices;
    running a device again after it was stopped stops the kernel.
  \<^item> \<open>Vcablk_Bcknd_Disk\<close>, \<open>Vcablk_Bcknd_Facts\<close>, \<open>Vcablk_Bcknd_Life\<close>: the disk of the host
    (\<open>vcablk_bcknd/vcablk_bcknd_disk.c\<close>): requests are collected by cookie, transferred in pieces of a page, and
    answered; creation, start, stop and destruction.
  \<^item> \<open>Vcablk_Io\<close>: both sides with the shared rings, as a step relation of submissions, services and completions,
    simulated by a queue of requests.
  \<^item> \<open>Vcablk_Device\<close>: a device from its creation on: it refines the queue, requests are ended once and in order,
    every request is ended in the end, and neither side stops the kernel; the requests that are lost.
  \<^item> \<open>Vca_Runs\<close>: runs of a step relation, and the locale \<open>simulation\<close> that carries a simulation over to runs; the
    block device and the queues of the virtual network are interpretations.
  \<^item> \<open>Virtio_Ring\<close>, \<open>Virtio_Ring_Facts\<close>: the guest side of a queue of the virtual network (\<open>vca_virtio/vca_virtio_ring.c\<close>): the
    descriptors are a list of free ones and one chain per buffer.
  \<^item> \<open>Vringh\<close>, \<open>Vringh_Safe\<close>: the host side (\<open>vca_virtio/vca_vringh.c\<close>): the walk along the descriptors of a buffer
    is bounded whatever the guest has written, and ends if the indirect tables that are named can be read.
  \<^item> \<open>Virtio_Queue\<close>, \<open>Virtio_Runs\<close>: both users of a queue as a step relation, simulated by lists of buffers: in order,
    once, without losing descriptors or mappings, and with progress.
  \<^item> \<open>Virtio_Notify\<close>: no notification is lost between the two; the layout of the shared memory.
  \<^item> \<open>Vop_Kvec\<close>, \<open>Vop_Kvec_Facts\<close>: the rings of receive buffers (\<open>vop/vop_kvec_buff.c\<close>): the sender gets the buffers in the
    order in which the receiver puts them, they are as large as was announced, and they are returned in order. The counters are another
    interpretation of the contract of \<open>Vcablk_Ring\<close>, and the rings another one of \<open>simulation\<close>.
  \<^item> \<open>Vop_Transfer\<close>, \<open>Vop_Transfer_Facts\<close>: the transfer of a packet into a buffer of the receiver (\<open>vop/vop_common.c\<close>): the data lands
    at the announced offset, nothing else is written, windows and mappings are released on every path, except a mapping at the
    address 0; three stops of the kernel on error paths.
  \<^item> \<open>Plx_Alm\<close>: the manager of the address translation table (\<open>plx87xx/plx_alm.c\<close>): groups of segments
    with reference counters, lazily reclaimed. Soundness, completeness and neutrality of allocation, and
    that the checker decides well-formedness.
  \<^item> \<open>Plx_Lut\<close>: the registers of the table (\<open>plx87xx/plx_hw.c\<close>): the registers follow the manager; any client
    of \<open>plx_ioremap\<close> and \<open>plx_iounmap\<close> keeps working mappings.
  \<^item> \<open>Plx_Hw\<close>, \<open>Plx_Hw_Facts\<close>: the rest of the register-level driver (\<open>plx87xx/plx_hw.c\<close>): scratch pads,
    doorbells, requester ids, initialisation, reset and power lines, configuration files.
  \<^item> \<open>Plx_Eeprom\<close>: checking and writing the EEPROM of the switch (\<open>plx87xx/plx_hw.c\<close>): right for files of at most 32768
    bytes, without end for the largest file.
  \<^item> \<open>Plx_Dma\<close>, \<open>Plx_Dma_Run\<close>: the driver of the DMA engine (\<open>plx87xx_dma/plx_dma.c\<close>) and its runs, in which
    submissions, the engine, interrupts and polling interleave: completion is sound and live.
  \<^item> \<open>Vca_State\<close>: the states of a card and their texts (\<open>common/vca_common.h\<close>).
  \<^item> \<open>Plx_Lbp\<close>, \<open>Plx_Lbp_Facts\<close>: the boot protocol (\<open>plx87xx/plx_lbp.c\<close>, \<open>plx_lbp_ifc.h\<close>): waiting, handshake,
    sending of images, parameters and states; the mutex is given back on every path.
  \<^item> This theory composes initialisation and boot.

  \<^bold>\<open>State and operations.\<close> A C structure is a record (\<open>plx_device\<close>, \<open>plx_lut_dev\<close>, \<open>plx_alm\<close>,
  \<open>plx_dma_chan\<close>, \<open>vcablk_pool\<close>); an operation takes the record and returns the new one. Memory-mapped registers
  are a function from offsets to 32-bit words. \<open>None\<close> is a stop of the kernel (\<open>BUG_ON\<close>, a null pointer, an
  access outside of an array) or a wait without end for a mutex. Integers are words of the width in C.

  \<^bold>\<open>What is not under our control.\<close> What the card, the controller of the EEPROM or the DMA engine do while the driver sleeps is
  a function that operations take as an argument, and so are results of the kernel (allocations, copies from
  user space, the clock). Theorems state what they rely on: pages and windows can be mapped (\<open>maps_pages\<close>,
  \<open>maps_windows\<close>) and memory has the size that was asked for (\<open>vmalloc_law\<close>); a card leaves the translation tables of the host
  alone (\<open>card_keeps_tables\<close>); the engine processes descriptors in order.

  \<^bold>\<open>Loops and bounds.\<close> Loops are structural recursion or functions with a measure. The completion loop of
  the DMA driver has fuel of one round of the ring, and runs never use it up; waiting loops recurse on the
  number of milliseconds. \<open>get_order\<close> has fuel 64, more than the bits of a size. Waits of the block device that may
  never end are partial functions with result \<open>None\<close>; the theorems about runs show that they return.

  \<^bold>\<open>The block device.\<close> A step of \<open>Vcablk_Io\<close> is a whole call of \<open>vcablk_disk_async_request\<close>, a round of the request
  thread of the host, or a round of the completion handler; a request is submitted when there is room for it, so that
  it does not wait half-way. The theorems are about disks in memory and transfers by copying; transfers by the DMA engine
  and disks in files are modelled but not part of the composition.

  \<^bold>\<open>The queues of the virtual network.\<close> A step is one call of the guest or of the host. The theorems about runs
  are for queues without indirect descriptors, which the transport switches off when it maps addresses, and
  with buffers of one direction per queue, as the network driver uses them; mappings and notifications succeed.
  Cycles of descriptors, for which \<open>detach_buf\<close> would not end, are excluded by the invariant.

  \<^bold>\<open>The transport of the virtual network.\<close> The three rings of buffers are a step relation of puts, publications and gets, for
  one receiver and one sender; returned buffers are a ring of their own. A transfer is modelled from the packet to the
  job of the engine, and from its callback to the returned buffers; waiting for a buffer is a parameter. The theorem
  about where data lands relies on the engine copying the job and on the mapping showing it the memory of the sender.

  \<^bold>\<open>Not modelled.\<close> The network device and the registration of its transport (\<open>vca_virtio_net.c\<close>, \<open>vop_main.c\<close>, \<open>vop_vringh.c\<close>);
  rings in user space; the commands for block devices on the host
  (\<open>vcablk_bcknd.c\<close>); interrupt tables (\<open>plx_intr.c\<close>); the drivers that only pass
  requests on (\<open>vca_mgr\<close>, \<open>vca_csm\<close>, \<open>vca_csa\<close>, \<open>bus\<close>, \<open>plx_hw_ops_\<dots>\<close>); files for debugging; the user space
  tools in C++. Locks other than the mutex of the boot protocol are taken as given: operations are atomic.
\<close>

section \<open>From initialisation to a booted card\<close>

text \<open>
  C14: After the switch was initialised successfully, with an aperture that divides into segments of a
  power of two and a card that leaves the translation tables of the host alone, booting the card from a
  RAM disk returns and leaves the mutex free; when it reports success the memory of the card holds the
  whole image, at one place, and is unchanged elsewhere. The table of mappings is empty again.
\<close>
theorem init_then_boot:
  assumes "plx_hw_init skip ok t d = Some (Inr (), d')" "segments_num (a_lut_manager (dev_lut d)) = 0"
    and "aper_len d = 2 ^ k" "8 \<le> k" "k < 62" "card_keeps_tables crd"
    and "\<not> lbp_locked d'" "length img < 2 ^ 64"
  shows "\<exists>r e. plx_lbp_boot_ramdisk crd kern dma img d' = Some (r, e) \<and> \<not> lbp_locked e \<and>
    client_inv (dev_lut e) [] \<and>
    (r = LBP_STATE_OK \<longrightarrow> (\<exists>p. \<forall>x. card_mem e x =
       (if unat (x - p) < length img then img ! unat (x - p) else card_mem d' x)))"
proof -
  from boot_ramdisk_run [OF hw_init_lbp_ready [OF assms(1-6)] assms(8,7), of kern dma]
  obtain r e where "plx_lbp_boot_ramdisk crd kern dma img d' = Some (r, e)" "\<not> lbp_locked e" "client_inv (dev_lut e) []"
    "r = LBP_STATE_OK \<longrightarrow> (\<exists>p. card_mem e = patch p img (card_mem d'))" by metis
  then show ?thesis by (auto simp: patch_def)
qed

theorem init_then_boot_witness:
  "\<exists>d' r e. plx_hw_init False True guest_topology example_dev = Some (Inr (), d') \<and>
     plx_lbp_boot_ramdisk boot_card boot_kernel False [1, 2, 3] d' = Some (r, e) \<and> \<not> lbp_locked e"
proof -
  obtain d' where d': "plx_hw_init False True guest_topology example_dev = Some (Inr (), d')"
    using example_init(1) by blast
  have "\<not> lbp_locked d'" using hw_init_locked [OF d'] by (simp add: example_dev_def)
  moreover have "card_keeps_tables boot_card" using boot_dev_ready by (simp add: lbp_ready_def)
  ultimately show ?thesis
    using init_then_boot [OF d', of 27 boot_card "[1, 2, 3]" boot_kernel False] d' by (auto simp: example_dev_def)
qed

end
